(* ===== verification/Prelude.thy ===== *)
theory Prelude
  imports Main "HOL-Library.Word" "HOL-Library.AList"
begin

text \<open>
  Shared vocabulary of the development: the ways in which the C++ code stops (a fault), the
  result type that carries them, the loop combinator every \<open>for\<close> over a container is
  translated to, fixed-width integers written as wrapped HOL integers, and the laws of the
  association lists that stand for the code's \<open>std::unordered_map\<close>s.
\<close>

named_theorems res_simps \<open>evaluation of results and loops\<close>
named_theorems frame \<open>fields an operation leaves alone\<close>

subsection \<open>Faults and results\<close>

text \<open>
  \<open>DebugBreak\<close>: an assertion macro (\<open>MY_ASSERT\<close>, \<open>RT_ASSERT\<close>, \<open>MyAssert\<close>) failed and
  \<open>__debugbreak\<close> stopped the process. \<open>HasNotData\<close> and \<open>NotEnoughSpace\<close>: the two
  \<open>MessageException\<close>s, which nothing catches; \<open>UncaughtException\<close>: any other exception that
  nothing catches (\<open>CDBException\<close>, those of the conversions of the standard library). \<open>UndefinedBehaviour\<close>: the C++ standard
  gives the operation no meaning (a table read out of range, a float-to-integer conversion that does
  not fit, an iterator of an erased element). \<open>NoReturn\<close>: a loop that never ends.
\<close>

datatype fault =
  DebugBreak | HasNotData | NotEnoughSpace | UncaughtException | UndefinedBehaviour | NoReturn

type_synonym 'a res = "fault + 'a"

definition bindR :: "'a res \<Rightarrow> ('a \<Rightarrow> 'b res) \<Rightarrow> 'b res" where
  "bindR m f = (case m of Inl e \<Rightarrow> Inl e | Inr x \<Rightarrow> f x)"

definition assertR :: "bool \<Rightarrow> 'a res \<Rightarrow> 'a res" where
  "assertR b k = (if b then k else Inl DebugBreak)"

fun foldR :: "('a \<Rightarrow> 's \<Rightarrow> 's res) \<Rightarrow> 'a list \<Rightarrow> 's \<Rightarrow> 's res" where
  "foldR f [] s = Inr s"
| "foldR f (x # xs) s = bindR (f x s) (foldR f xs)"

definition the_or_break :: "'a option \<Rightarrow> ('a \<Rightarrow> 'b res) \<Rightarrow> 'b res" where
  "the_or_break x k = (case x of None \<Rightarrow> Inl DebugBreak | Some v \<Rightarrow> k v)"

lemma bindR_simps [simp, res_simps]:
  "bindR (Inl e) f = Inl e" "bindR (Inr x) f = f x"
  by (simp_all add: bindR_def)

lemma assertR_simps [simp, res_simps]:
  "assertR True k = k" "assertR False k = Inl DebugBreak"
  by (simp_all add: assertR_def)

lemma the_or_break_simps [simp, res_simps]:
  "the_or_break None k = Inl DebugBreak" "the_or_break (Some v) k = k v"
  by (simp_all add: the_or_break_def)

lemma bindR_Inr_iff: "bindR m f = Inr y \<longleftrightarrow> (\<exists>x. m = Inr x \<and> f x = Inr y)"
  by (cases m) auto

lemma bindR_assoc: "bindR (bindR m f) g = bindR m (\<lambda>x. bindR (f x) g)"
  by (cases m) auto

lemma assertR_Inr_iff: "assertR b k = Inr y \<longleftrightarrow> b \<and> k = Inr y"
  by (simp add: assertR_def)

lemma the_or_break_Inr_iff: "the_or_break x k = Inr y \<longleftrightarrow> (\<exists>v. x = Some v \<and> k v = Inr y)"
  by (cases x) auto

lemmas Inr_iffs = bindR_Inr_iff assertR_Inr_iff the_or_break_Inr_iff

lemma foldR_append [res_simps]: "foldR f (xs @ ys) s = bindR (foldR f xs s) (foldR f ys)"
proof (induction xs arbitrary: s)
  case (Cons x xs)
  then show ?case by (cases "f x s") auto
qed simp

text \<open>The loop rule: an invariant that every iteration keeps holds after the loop.\<close>

lemma foldR_invariant:
  assumes "foldR f xs s = Inr s'" and "P s"
    and "\<And>x a b. x \<in> set xs \<Longrightarrow> P a \<Longrightarrow> f x a = Inr b \<Longrightarrow> P b"
  shows "P s'"
  using assms
proof (induction xs arbitrary: s)
  case Nil
  then show ?case by simp
next
  case (Cons x xs)
  from Cons.prems(1) obtain a where a: "f x s = Inr a" "foldR f xs a = Inr s'"
    by (auto simp: bindR_Inr_iff)
  have "P a" using Cons.prems(2,3) a(1) by auto
  then show ?case using Cons.IH a(2) Cons.prems(3) by auto
qed

text \<open>The progress rule: if every iteration succeeds from a state of the invariant, so does the loop.\<close>

lemma foldR_total:
  assumes "P s" and "\<And>x a. x \<in> set xs \<Longrightarrow> P a \<Longrightarrow> \<exists>b. f x a = Inr b \<and> P b"
  shows "\<exists>s'. foldR f xs s = Inr s' \<and> P s'"
  using assms
proof (induction xs arbitrary: s)
  case Nil
  then show ?case by simp
next
  case (Cons x xs)
  obtain b where b: "f x s = Inr b" "P b" using Cons.prems by auto
  obtain s' where "foldR f xs b = Inr s' \<and> P s'" using Cons.IH [OF b(2)] Cons.prems(2) by auto
  with b(1) show ?case by auto
qed

lemma foldR_pure: "foldR (\<lambda>x s. Inr (f x s)) xs s = Inr (fold f xs s)"
  by (induction xs arbitrary: s) auto

subsection \<open>Fixed-width integers\<close>

text \<open>
  A signed or unsigned integer variable is an \<open>int\<close>; every operation that can leave its range
  goes through the wrapper of its type, which is what the compiled code computes.
\<close>

definition wrap32 :: "int \<Rightarrow> int" where "wrap32 x = (x + 2 ^ 31) mod 2 ^ 32 - 2 ^ 31"
definition wrap16 :: "int \<Rightarrow> int" where "wrap16 x = (x + 2 ^ 15) mod 2 ^ 16 - 2 ^ 15"
definition wrap8 :: "int \<Rightarrow> int" where "wrap8 x = (x + 2 ^ 7) mod 2 ^ 8 - 2 ^ 7"
definition wrap64 :: "int \<Rightarrow> int" where "wrap64 x = (x + 2 ^ 63) mod 2 ^ 64 - 2 ^ 63"
definition u64 :: "int \<Rightarrow> int" where "u64 x = x mod 2 ^ 64"
definition u32 :: "int \<Rightarrow> int" where "u32 x = x mod 2 ^ 32"

lemma wrap32_id: "- (2 ^ 31) \<le> x \<Longrightarrow> x < 2 ^ 31 \<Longrightarrow> wrap32 x = x"
  by (simp add: wrap32_def)

lemma wrap16_id: "- (2 ^ 15) \<le> x \<Longrightarrow> x < 2 ^ 15 \<Longrightarrow> wrap16 x = x"
  by (simp add: wrap16_def)

lemma wrap64_id: "- (2 ^ 63) \<le> x \<Longrightarrow> x < 2 ^ 63 \<Longrightarrow> wrap64 x = x"
  by (simp add: wrap64_def)

lemma u64_id: "0 \<le> x \<Longrightarrow> x < 2 ^ 64 \<Longrightarrow> u64 x = x"
  by (simp add: u64_def)

lemma wrap32_range: "- (2 ^ 31) \<le> wrap32 x" "wrap32 x < 2 ^ 31"
  by (simp_all add: wrap32_def)

lemma u64_range: "0 \<le> u64 x" "u64 x < 2 ^ 64"
  by (simp_all add: u64_def)

lemmas wrap_ids = wrap32_id wrap16_id wrap64_id u64_id

subsection \<open>Tables\<close>

text \<open>
  A \<open>std::unordered_map\<close> is an association list in iteration order; a new key goes to the end
  (the standard leaves the order open, so this is one of the orders the code can see).
\<close>

abbreviation "alUpd \<equiv> AList.update"
abbreviation "alDel \<equiv> AList.delete"

declare map_of_eq_Some_iff [simp del]

lemma map_of_alUpd [simp]: "map_of (alUpd k v xs) = (map_of xs)(k \<mapsto> v)"
  by (simp add: update_conv')

lemma map_of_alDel [simp]: "map_of (alDel k xs) = (map_of xs)(k := None)"
  by (simp add: delete_conv')

lemma keys_alUpd_present: "k \<in> fst ` set xs \<Longrightarrow> map fst (alUpd k v xs) = map fst xs"
  by (induction xs) auto

lemma keys_alUpd_Some: "map_of xs k = Some w \<Longrightarrow> map fst (alUpd k v xs) = map fst xs"
  by (rule keys_alUpd_present) (metis domI dom_map_of_conv_image_fst)

lemma distinct_alUpd [simp]: "distinct (map fst xs) \<Longrightarrow> distinct (map fst (alUpd k v xs))"
  by (rule distinct_update)

lemma distinct_alDel [simp]: "distinct (map fst xs) \<Longrightarrow> distinct (map fst (alDel k xs))"
  by (rule distinct_delete)

lemma in_keys_iff: "k \<in> fst ` set xs \<longleftrightarrow> map_of xs k \<noteq> None"
  by (metis dom_map_of_conv_image_fst domIff)

end
