(* ===== verification/Float32.thy ===== *)
theory Float32
  imports Prelude
begin

text \<open>
  The code's \<open>float\<close>: an IEEE 754 single, kept as its 32 bits, with the operations the code
  uses (addition, subtraction, multiplication, division, square root, comparison, conversion from
  and to integers, decimal literals), each correctly rounded to nearest, ties to even, as SSE
  computes them. NaN results follow the SSE rule: the first NaN operand, quieted, else the default
  NaN. All definitions compute.
\<close>

type_synonym f32 = "32 word"

subsection \<open>Fields of a single\<close>

text \<open>The bits below the sign are the magnitude; \<open>2139095040\<close> is the magnitude of infinity.\<close>

definition f_sign :: "f32 \<Rightarrow> bool" where "f_sign a = (2147483648 \<le> uint a)"
definition f_mag :: "f32 \<Rightarrow> int" where "f_mag a = uint a mod 2147483648"
definition f_nan :: "f32 \<Rightarrow> bool" where "f_nan a = (2139095040 < f_mag a)"
definition f_inf :: "f32 \<Rightarrow> bool" where "f_inf a = (f_mag a = 2139095040)"
definition f_fin :: "f32 \<Rightarrow> bool" where "f_fin a = (f_mag a < 2139095040)"

text \<open>
  The integer significand and the exponent of a magnitude (\<open>8388608\<close> is \<open>2 ^ 23\<close>): the value
  of a finite single is \<open>mant * 2 ^ expo\<close>, with its sign.
\<close>

definition mantM :: "int \<Rightarrow> int" where
  "mantM k = (if k < 8388608 then k else 8388608 + k mod 8388608)"
definition expoM :: "int \<Rightarrow> int" where
  "expoM k = (if k < 8388608 then - 149 else k div 8388608 - 150)"

abbreviation mant :: "f32 \<Rightarrow> int" where "mant a \<equiv> mantM (f_mag a)"
abbreviation expo :: "f32 \<Rightarrow> int" where "expo a \<equiv> expoM (f_mag a)"

text \<open>
  The order of singles that are no NaN is the order of their bits read as sign and magnitude
  (both zeros give 0), infinities included.
\<close>

definition key :: "f32 \<Rightarrow> int" where
  "key a = (if f_sign a then - f_mag a else f_mag a)"

definition f_lt :: "f32 \<Rightarrow> f32 \<Rightarrow> bool" where
  "f_lt a b \<longleftrightarrow> \<not> f_nan a \<and> \<not> f_nan b \<and> key a < key b"
definition f_le :: "f32 \<Rightarrow> f32 \<Rightarrow> bool" where
  "f_le a b \<longleftrightarrow> \<not> f_nan a \<and> \<not> f_nan b \<and> key a \<le> key b"
definition f_eq :: "f32 \<Rightarrow> f32 \<Rightarrow> bool" where
  "f_eq a b \<longleftrightarrow> \<not> f_nan a \<and> \<not> f_nan b \<and> key a = key b"

subsection \<open>Rounding\<close>

function bitlenI :: "int \<Rightarrow> int" where
  "bitlenI n = (if n \<le> 0 then 0 else 1 + bitlenI (n div 2))"
  by pat_completeness auto
termination
  by (relation "measure nat") auto

declare bitlenI.simps [simp del]

definition pow2 :: "int \<Rightarrow> int" where "pow2 k = 2 ^ nat k"

definition signed_bits :: "bool \<Rightarrow> int \<Rightarrow> f32" where
  "signed_bits s k = word_of_int (k + (if s then 2147483648 else 0))"

abbreviation f_infinity :: "bool \<Rightarrow> f32" where "f_infinity s \<equiv> signed_bits s 2139095040"

text \<open>The default NaN of SSE, and a NaN operand made quiet.\<close>

definition f_default_nan :: f32 where "f_default_nan = 4290772992"
definition f_quiet :: "f32 \<Rightarrow> f32" where
  "f_quiet a = (if uint a div 4194304 mod 2 = 1 then a else a + 4194304)"

text \<open>
  The magnitude bits of \<open>m * 2 ^ e\<close> for \<open>m \<le> 2 ^ 24\<close>, \<open>-149 \<le> e\<close>: the
  significand is shifted left as far as the format allows, and the exponent field is added on top
  of it; too large a value becomes infinity.
\<close>

definition pack :: "int \<Rightarrow> int \<Rightarrow> int" where
  "pack m e = (if m \<le> 0 then 0 else
     let k = max 0 (min (24 - bitlenI m) (e + 149))
     in min ((e - k + 149) * 8388608 + m * pow2 k) 2139095040)"

text \<open>
  The magnitude bits of the single nearest to a value in \<open>[N, N + 1) * 2 ^ e\<close>, which is
  \<open>N * 2 ^ e\<close> exactly when \<open>sticky\<close> is off.
\<close>

definition round_shift :: "int \<Rightarrow> int \<Rightarrow> int" where
  "round_shift N e = max (bitlenI N - 24) (- 149 - e)"

definition round_quot :: "int \<Rightarrow> bool \<Rightarrow> int \<Rightarrow> int" where
  "round_quot N sticky k =
     (let q = N div pow2 k; r = N mod pow2 k; h = pow2 (k - 1)
      in if h < r \<or> (r = h \<and> (sticky \<or> q mod 2 = 1)) then q + 1 else q)"

definition roundM :: "int \<Rightarrow> bool \<Rightarrow> int \<Rightarrow> int" where
  "roundM N sticky e =
     (let k = round_shift N e
      in if k \<le> 0 then pack N e else pack (round_quot N sticky k) (e + k))"

definition f_round :: "bool \<Rightarrow> int \<Rightarrow> bool \<Rightarrow> int \<Rightarrow> f32" where
  "f_round s N sticky e = signed_bits s (roundM N sticky e)"

subsection \<open>Arithmetic\<close>

definition f_add :: "f32 \<Rightarrow> f32 \<Rightarrow> f32" where
  "f_add a b =
     (if f_nan a then f_quiet a else if f_nan b then f_quiet b
      else if f_inf a then (if f_inf b \<and> f_sign a \<noteq> f_sign b then f_default_nan else a)
      else if f_inf b then b
      else let e = min (expo a) (expo b);
               x = mant a * pow2 (expo a - e);
               y = mant b * pow2 (expo b - e);
               n = (if f_sign a then - x else x) + (if f_sign b then - y else y)
           in if n = 0 then signed_bits (f_sign a \<and> f_sign b) 0
              else f_round (n < 0) \<bar>n\<bar> False e)"

definition f_neg :: "f32 \<Rightarrow> f32" where
  "f_neg a = a + 2147483648"

definition f_sub :: "f32 \<Rightarrow> f32 \<Rightarrow> f32" where
  "f_sub a b = (if f_nan a then f_quiet a else if f_nan b then f_quiet b else f_add a (f_neg b))"

definition f_mul :: "f32 \<Rightarrow> f32 \<Rightarrow> f32" where
  "f_mul a b =
     (let s = (f_sign a \<noteq> f_sign b) in
      if f_nan a then f_quiet a else if f_nan b then f_quiet b
      else if f_inf a \<or> f_inf b
           then (if f_mag a = 0 \<or> f_mag b = 0 then f_default_nan else f_infinity s)
      else f_round s (mant a * mant b) False (expo a + expo b))"

definition f_div :: "f32 \<Rightarrow> f32 \<Rightarrow> f32" where
  "f_div a b =
     (let s = (f_sign a \<noteq> f_sign b) in
      if f_nan a then f_quiet a else if f_nan b then f_quiet b
      else if f_inf a then (if f_inf b then f_default_nan else f_infinity s)
      else if f_inf b then signed_bits s 0
      else if f_mag b = 0 then (if f_mag a = 0 then f_default_nan else f_infinity s)
      else let k = 26 + bitlenI (mant b); x = mant a * pow2 k
           in f_round s (x div mant b) (x mod mant b \<noteq> 0) (expo a - expo b - k))"

text \<open>Integer square root of a number below \<open>2 ^ 80\<close>, one bit of the root at a time.\<close>

fun isqrt_from :: "nat \<Rightarrow> int \<Rightarrow> int \<Rightarrow> int" where
  "isqrt_from 0 r N = r"
| "isqrt_from (Suc k) r N =
     (let c = r + 2 ^ k in isqrt_from k (if c * c \<le> N then c else r) N)"

definition f_sqrt :: "f32 \<Rightarrow> f32" where
  "f_sqrt a =
     (if f_nan a then f_quiet a
      else if f_mag a = 0 then a
      else if f_sign a then f_default_nan
      else if f_inf a then a
      else let k = 52 + expo a mod 2;
               N = mant a * pow2 k;
               r = isqrt_from 40 0 N
           in f_round False r (r * r \<noteq> N) ((expo a - k) div 2))"

definition f_of_int :: "int \<Rightarrow> f32" where
  "f_of_int n = f_round (n < 0) \<bar>n\<bar> False 0"

text \<open>A decimal literal \<open>num / den\<close>, rounded by the compiler.\<close>

definition f_lit :: "int \<Rightarrow> int \<Rightarrow> f32" where
  "f_lit num den =
     (let k = 26 + bitlenI den; x = \<bar>num\<bar> * pow2 k
      in f_round (num < 0) (x div den) (x mod den \<noteq> 0) (- k))"

text \<open>The truncated integer value of a finite single.\<close>

definition f_trunc :: "f32 \<Rightarrow> int" where
  "f_trunc a =
     (let v = (if 0 \<le> expo a then mant a * pow2 (expo a) else mant a div pow2 (- expo a))
      in if f_sign a then - v else v)"

text \<open>
  \<open>(int32_t)x\<close> and \<open>static_cast<uint64_t>(x)\<close>: undefined behaviour unless the truncated
  value fits.
\<close>

definition f_to_i32 :: "f32 \<Rightarrow> int res" where
  "f_to_i32 a = (if f_fin a \<and> - 2147483648 \<le> f_trunc a \<and> f_trunc a < 2147483648
                 then Inr (f_trunc a) else Inl UndefinedBehaviour)"

definition f_to_u64 :: "f32 \<Rightarrow> int res" where
  "f_to_u64 a = (if f_fin a \<and> 0 \<le> f_trunc a \<and> f_trunc a < 18446744073709551616
                 then Inr (f_trunc a) else Inl UndefinedBehaviour)"

text \<open>\<open>std::clamp\<close>, with its comparisons in the order the library makes them.\<close>

definition f_clamp :: "f32 \<Rightarrow> f32 \<Rightarrow> f32 \<Rightarrow> f32" where
  "f_clamp v lo hi = (if f_lt v lo then lo else if f_lt hi v then hi else v)"

subsection \<open>Laws of the order\<close>

lemma f_mag_range: "0 \<le> f_mag a" "f_mag a < 2147483648"
  by (simp_all add: f_mag_def)

lemma f_le_refl [simp]: "f_le a a \<longleftrightarrow> \<not> f_nan a"
  by (simp add: f_le_def)

lemma f_le_trans: "f_le a b \<Longrightarrow> f_le b c \<Longrightarrow> f_le a c"
  by (auto simp: f_le_def)

lemma f_lt_irrefl [simp]: "\<not> f_lt a a"
  by (simp add: f_lt_def)

lemma f_not_lt: "\<not> f_nan a \<Longrightarrow> \<not> f_nan b \<Longrightarrow> \<not> f_lt a b \<longleftrightarrow> f_le b a"
  by (auto simp: f_lt_def f_le_def)

lemma f_lt_nan [simp]: "f_nan a \<Longrightarrow> \<not> f_lt a b" "f_nan b \<Longrightarrow> \<not> f_lt a b"
  by (simp_all add: f_lt_def)

lemma f_le_nan [simp]: "f_nan a \<Longrightarrow> \<not> f_le a b" "f_nan b \<Longrightarrow> \<not> f_le a b"
  by (simp_all add: f_le_def)

text \<open>A clamped value lies between the bounds, except that a NaN goes through unchanged.\<close>

lemma f_clamp_nan [simp]: "f_nan v \<Longrightarrow> f_clamp v lo hi = v"
  by (simp add: f_clamp_def)

lemma f_clamp_bounds:
  "f_le lo hi \<Longrightarrow> \<not> f_nan v \<Longrightarrow> f_le lo (f_clamp v lo hi) \<and> f_le (f_clamp v lo hi) hi"
  by (auto simp: f_clamp_def f_le_def f_lt_def)

lemma f_clamp_id: "f_le lo v \<Longrightarrow> f_le v hi \<Longrightarrow> f_clamp v lo hi = v"
  by (auto simp: f_clamp_def f_le_def f_lt_def)

subsection \<open>Bounds on rounded results\<close>

lemma pow2_pos [simp]: "0 < pow2 k" "0 \<le> pow2 k" "pow2 k \<noteq> 0" "\<not> pow2 k < 0" "\<not> pow2 k \<le> 0"
  by (simp_all add: pow2_def not_less not_le)

lemma pow2_add: "0 \<le> j \<Longrightarrow> 0 \<le> k \<Longrightarrow> pow2 (j + k) = pow2 j * pow2 k"
  by (simp add: pow2_def nat_add_distrib power_add)

lemma pow2_mono: "j \<le> k \<Longrightarrow> pow2 j \<le> pow2 k"
  by (simp add: pow2_def)

lemma pow2_mono_iff: "0 \<le> j \<Longrightarrow> 0 \<le> k \<Longrightarrow> pow2 j \<le> pow2 k \<longleftrightarrow> j \<le> k"
  by (auto simp: pow2_def)

lemma pow2_less_iff: "0 \<le> j \<Longrightarrow> 0 \<le> k \<Longrightarrow> pow2 j < pow2 k \<longleftrightarrow> j < k"
  by (auto simp: pow2_def)

lemma pow2_numeral [simp]: "pow2 (numeral n) = 2 ^ numeral n" "pow2 0 = 1" "pow2 1 = 2"
  by (simp_all add: pow2_def)

lemma bitlenI_nonneg: "0 \<le> bitlenI n"
proof (induction n rule: bitlenI.induct)
  case (1 n)
  then show ?case by (cases "n \<le> 0") (simp_all add: bitlenI.simps [of n])
qed

lemma bitlenI_bounds: "0 < n \<Longrightarrow> 0 < bitlenI n \<and> pow2 (bitlenI n - 1) \<le> n \<and> n < pow2 (bitlenI n)"
proof (induction n rule: bitlenI.induct)
  case (1 n)
  show ?case
  proof (cases "n = 1")
    case True
    then show ?thesis by (simp add: bitlenI.simps)
  next
    case False
    with "1.prems" have h: "\<not> n \<le> 0" "0 < n div 2" by auto
    from "1.IH" [OF h] have ih: "0 < bitlenI (n div 2)"
      "pow2 (bitlenI (n div 2) - 1) \<le> n div 2" "n div 2 < pow2 (bitlenI (n div 2))" by auto
    have eq: "bitlenI n = 1 + bitlenI (n div 2)" using h by (simp add: bitlenI.simps [of n])
    have half: "2 * x \<le> n" if "x \<le> n div 2" for x using that by presburger
    have half': "n < 2 * x" if "n div 2 < x" for x using that by presburger
    have "pow2 (bitlenI (n div 2)) = 2 * pow2 (bitlenI (n div 2) - 1)"
      using pow2_add [of 1 "bitlenI (n div 2) - 1"] ih(1) by simp
    moreover have "pow2 (1 + bitlenI (n div 2)) = 2 * pow2 (bitlenI (n div 2))"
      using pow2_add [of 1 "bitlenI (n div 2)"] ih(1) by simp
    ultimately show ?thesis using half [OF ih(2)] half' [OF ih(3)] ih(1) eq by simp
  qed
qed

lemma bitlenI_le: "0 < n \<Longrightarrow> n < pow2 k \<Longrightarrow> 0 \<le> k \<Longrightarrow> bitlenI n \<le> k"
  using bitlenI_bounds [of n] pow2_less_iff [of "bitlenI n - 1" k] by force

text \<open>
  A value of at most \<open>2 ^ c\<close> rounds to at most \<open>2 ^ c\<close>, whose magnitude bits are
  \<open>(c + 127) * 2 ^ 23\<close>.
\<close>

lemma pack_le:
  assumes m: "0 < m" "m \<le> 16777216" and e: "- 149 \<le> e"
    and v: "m * pow2 (e + 149) \<le> pow2 (c + 149)" and c: "- 126 \<le> c"
  shows "pack m e \<le> (c + 127) * 8388608"
proof -
  define L where "L = bitlenI m"
  have L: "0 < L" "pow2 (L - 1) \<le> m" "m < pow2 L" using bitlenI_bounds [OF m(1)] by (auto simp: L_def)
  have sum: "pow2 (L - 1 + (e + 149)) = pow2 (L - 1) * pow2 (e + 149)"
    using L(1) e by (intro pow2_add) auto
  have "pow2 (L - 1) * pow2 (e + 149) \<le> m * pow2 (e + 149)" using L(2) by simp
  then have "pow2 (L - 1 + (e + 149)) \<le> pow2 (c + 149)" unfolding sum using v by (rule order_trans)
  then have top: "L - 1 + e \<le> c" using pow2_mono_iff [of "L - 1 + (e + 149)" "c + 149"] L(1) e c by simp
  have L25: "L \<le> 25" using bitlenI_le [of m 25] m by (simp add: L_def)
  define k where "k = max 0 (min (24 - L) (e + 149))"
  have pk: "pack m e \<le> (e - k + 149) * 8388608 + m * pow2 k"
    using m by (simp add: pack_def Let_def k_def L_def)
  consider (big) "L = 25" | (sub) "e + 149 < 24 - L" | (norm) "L \<le> 24" "24 - L \<le> e + 149" using L25 by linarith
  then show ?thesis
  proof cases
    case big
    then have "k = 0" "m = 16777216" using L(2) m by (auto simp: k_def)
    then show ?thesis using pk top big by simp
  next
    case sub
    then have k: "k = e + 149" using e by (simp add: k_def)
    have "m * pow2 k \<le> pow2 (c + 149)" using v k by simp
    moreover have "m * pow2 k \<le> 16777216"
    proof -
      have "m * pow2 k \<le> pow2 L * pow2 (24 - L)"
        using L sub k e by (intro mult_mono pow2_mono) auto
      also have "\<dots> = pow2 24" using pow2_add [of L "24 - L"] L sub e by simp
      finally show ?thesis by simp
    qed
    moreover have "c = - 126 \<or> - 125 \<le> c" using c by linarith
    ultimately show ?thesis using pk k by auto
  next
    case norm
    then have k: "k = 24 - L" by (simp add: k_def)
    have lt: "m * pow2 k < 16777216"
    proof -
      have "m * pow2 k < pow2 L * pow2 (24 - L)" using L k norm by simp
      also have "\<dots> = pow2 24" using pow2_add [of L "24 - L"] L norm by simp
      finally show ?thesis by simp
    qed
    show ?thesis
    proof (cases "L - 1 + e \<le> c - 1")
      case True
      then have "(e - k + 149) * 8388608 \<le> (c + 125) * 8388608" using k by simp
      then show ?thesis using pk lt by (simp add: algebra_simps)
    next
      case False
      with top have c: "c = L - 1 + e" by simp
      have cc: "c + 149 = L - 1 + (e + 149)" using c by simp
      have "m * pow2 (e + 149) \<le> pow2 (L - 1) * pow2 (e + 149)" using v unfolding cc sum .
      then have "m \<le> pow2 (L - 1)" by simp
      then have "m * pow2 k \<le> pow2 (L - 1) * pow2 (24 - L)" using k by simp
      also have "\<dots> = pow2 23" using pow2_add [of "L - 1" "24 - L"] L norm by simp
      finally show ?thesis using pk k c by simp
    qed
  qed
qed

lemma pack_nonneg: "- 149 \<le> e \<Longrightarrow> 0 \<le> pack m e"
proof -
  assume e: "- 149 \<le> e"
  define k where "k = max 0 (min (24 - bitlenI m) (e + 149))"
  have "k \<le> e + 149" using e by (simp add: k_def)
  then show ?thesis
    by (auto simp: pack_def Let_def k_def [symmetric] not_le intro!: add_nonneg_nonneg mult_nonneg_nonneg)
qed

lemma round_quot_le:
  assumes "0 \<le> N" "0 < k" "0 \<le> p" "N \<le> pow2 p"
  shows "0 \<le> round_quot N st k \<and>
         (if k \<le> p then round_quot N st k \<le> pow2 (p - k) else round_quot N st k \<le> 1)"
proof -
  define q r where "q = N div pow2 k" and "r = N mod pow2 k"
  have N: "N = q * pow2 k + r" by (simp add: q_def r_def)
  have q: "0 \<le> q" using assms(1) by (simp add: q_def pos_imp_zdiv_nonneg_iff)
  have r: "0 \<le> r" by (simp add: r_def)
  have up: "round_quot N st k \<le> q + 1" "q \<le> round_quot N st k" "r = 0 \<Longrightarrow> round_quot N st k = q"
    by (auto simp: round_quot_def Let_def q_def r_def)
  show ?thesis
  proof (cases "k \<le> p")
    case True
    have P: "pow2 p = pow2 (p - k) * pow2 k" using pow2_add [of "p - k" k] True assms by simp
    have "q * pow2 k \<le> pow2 (p - k) * pow2 k" using N r assms(4) P by linarith
    then have qle: "q \<le> pow2 (p - k)" by simp
    show ?thesis
    proof (cases "q = pow2 (p - k)")
      case True
      then have "r = 0" using N r assms(4) P by simp
      then show ?thesis using up True q \<open>k \<le> p\<close> by simp
    next
      case False
      then show ?thesis using up qle q \<open>k \<le> p\<close> by auto
    qed
  next
    case False
    then have "pow2 p < pow2 k" using pow2_less_iff [of p k] assms by simp
    then have "q = 0" using assms by (simp add: q_def)
    then show ?thesis using up False by simp
  qed
qed

lemma roundM_le:
  assumes N: "0 \<le> N" "N \<le> pow2 p" "0 \<le> p" and ep: "e + p \<le> c" and c: "- 126 \<le> c"
  shows "0 \<le> roundM N st e \<and> roundM N st e \<le> (c + 127) * 8388608"
proof -
  define k where "k = round_shift N e"
  have ck: "pow2 (x + 149) \<le> pow2 (c + 149)" if "x \<le> c" for x using that by (intro pow2_mono) simp
  show ?thesis
  proof (cases "k \<le> 0")
    case True
    then have L: "bitlenI N \<le> 24" and e: "- 149 \<le> e" by (auto simp: k_def round_shift_def)
    show ?thesis
    proof (cases "N = 0")
      case True
      then show ?thesis using \<open>k \<le> 0\<close> c by (simp add: roundM_def Let_def k_def pack_def)
    next
      case False
      then have N0: "0 < N" using N by simp
      have "N < pow2 24" using bitlenI_bounds [OF N0] pow2_mono [OF L] by linarith
      moreover have "N * pow2 (e + 149) \<le> pow2 p * pow2 (e + 149)" using N by simp
      then have "N * pow2 (e + 149) \<le> pow2 (e + p + 149)"
        using pow2_add [of p "e + 149"] N(3) e by (simp add: algebra_simps)
      then have "N * pow2 (e + 149) \<le> pow2 (c + 149)" using ck [OF ep] by (rule order_trans)
      ultimately show ?thesis
        using pack_le [OF N0 _ e _ c] pack_nonneg [OF e] \<open>k \<le> 0\<close>
        by (simp add: roundM_def Let_def k_def)
    qed
  next
    case False
    define q where "q = round_quot N st k"
    have eq: "roundM N st e = pack q (e + k)" using False by (simp add: roundM_def Let_def k_def q_def)
    have ek: "- 149 \<le> e + k" by (simp add: k_def round_shift_def)
    have kL: "bitlenI N - 24 \<le> k" by (simp add: k_def round_shift_def)
    have NL: "N \<le> pow2 (bitlenI N)"
      using bitlenI_bounds [of N] N(1) pow2_pos [of "bitlenI N"] by (cases "N = 0") auto
    have q24: "0 \<le> q \<and> q \<le> 16777216"
      using round_quot_le [OF N(1) _ bitlenI_nonneg NL, of k st] False kL
        pow2_mono [of "bitlenI N - k" 24] by (auto simp: q_def split: if_splits)
    have v: "q * pow2 (e + k + 149) \<le> pow2 (c + 149)"
    proof (cases "k \<le> p")
      case True
      then have "q \<le> pow2 (p - k)" using round_quot_le [OF N(1) _ N(3) N(2), of k st] False q_def by auto
      then have "q * pow2 (e + k + 149) \<le> pow2 (p - k) * pow2 (e + k + 149)" by simp
      also have "\<dots> = pow2 ((p - k) + (e + k + 149))" using True ek by (subst pow2_add) auto
      also have "(p - k) + (e + k + 149) = e + p + 149" by simp
      finally show ?thesis using ck [of "e + p"] ep by simp
    next
      case False
      then have "q \<le> 1" using round_quot_le [OF N(1) _ N(3) N(2), of k st] N(3) q_def by auto
      moreover have "bitlenI N \<le> p + 1"
      proof (cases "N = 0")
        case False
        then have "N < pow2 (p + 1)" using N pow2_add [of p 1] by simp
        then show ?thesis using bitlenI_le [of N "p + 1"] False N by simp
      qed (use N in \<open>simp add: bitlenI.simps\<close>)
      then have "e + k = - 149" using False by (auto simp: k_def round_shift_def)
      ultimately show ?thesis using ck [of "- 149"] c by simp
    qed
    show ?thesis
    proof (cases "q = 0")
      case True
      then show ?thesis using eq c by (simp add: pack_def)
    next
      case False
      then show ?thesis using eq pack_le [OF _ _ ek _ c, of q] pack_nonneg [OF ek] q24 v by simp
    qed
  qed
qed

text \<open>What the fields of a bounded magnitude are.\<close>

lemma mantM_bounds: "0 \<le> k \<Longrightarrow> 0 \<le> mantM k \<and> mantM k < 16777216"
  using pos_mod_bound [of 8388608 k] by (auto simp: mantM_def)

lemma expoM_le: "0 \<le> k \<Longrightarrow> k \<le> (c + 127) * 8388608 \<Longrightarrow> - 126 \<le> c \<Longrightarrow> expoM k \<le> c - 23"
  by (auto simp: expoM_def)

lemma uint_signed_bits:
  assumes "0 \<le> k" "k < 2147483648"
  shows "uint (signed_bits s k) = k + (if s then 2147483648 else 0)"
proof -
  have "uint (word_of_int x :: 32 word) = x" if "0 \<le> x" "x < 4294967296" for x
    using that by (simp add: uint_word_of_int)
  from this [of "k + (if s then 2147483648 else 0)"] show ?thesis
    unfolding signed_bits_def using assms by (cases s) simp_all
qed

lemma f_mag_signed_bits: "0 \<le> k \<Longrightarrow> k < 2147483648 \<Longrightarrow> f_mag (signed_bits s k) = k"
  by (simp add: f_mag_def uint_signed_bits)

lemma f_sign_signed_bits: "0 \<le> k \<Longrightarrow> k < 2147483648 \<Longrightarrow> f_sign (signed_bits s k) = s"
  by (simp add: f_sign_def uint_signed_bits)

lemma f_mag_round:
  assumes "0 \<le> N" "N \<le> pow2 p" "0 \<le> p" "e + p \<le> c" "- 126 \<le> c" "c \<le> 127"
  shows "f_mag (f_round s N st e) \<le> (c + 127) * 8388608"
proof -
  have "0 \<le> roundM N st e \<and> roundM N st e \<le> (c + 127) * 8388608"
    using assms by (intro roundM_le) auto
  moreover have "(c + 127) * 8388608 < 2147483648" using assms(6) by simp
  ultimately show ?thesis by (simp add: f_round_def f_mag_signed_bits)
qed

lemma f_mag_div:
  assumes a: "f_mag a \<le> (ca + 127) * 8388608" "- 126 \<le> ca" "ca \<le> 100"
    and b: "8388608 \<le> f_mag b" "f_mag b < 2139095040" "expo b = eb"
    and c: "ca - eb - 21 \<le> c" "- 126 \<le> c" "c \<le> 127"
  shows "f_mag (f_div a b) \<le> (c + 127) * 8388608"
proof -
  define B where "B = bitlenI (mant b)"
  have mb: "8388608 \<le> mant b" "mant b < 16777216"
    using b(1) mantM_bounds [OF f_mag_range(1), of b] by (auto simp: mantM_def)
  have B: "B = 24"
    using bitlenI_bounds [of "mant b"] bitlenI_le [of "mant b" 24] mb pow2_less_iff [of 23 B]
    by (auto simp: B_def)
  have ma: "0 \<le> mant a" "mant a < 16777216" using mantM_bounds [OF f_mag_range(1), of a] by auto
  have "(ca + 127) * 8388608 \<le> 227 * 8388608" using a(3) by simp
  then have "f_mag a \<le> 227 * 8388608" using a(1) by linarith
  then have ra: "\<not> f_nan a" "\<not> f_inf a" by (auto simp: f_nan_def f_inf_def)
  have rb: "\<not> f_nan b" "\<not> f_inf b" "f_mag b \<noteq> 0" using b by (auto simp: f_nan_def f_inf_def)
  define q where "q = mant a * pow2 50 div mant b"
  have eq: "f_div a b = f_round (f_sign a \<noteq> f_sign b) q
      (mant a * pow2 50 mod mant b \<noteq> 0) (expo a - expo b - 50)"
    using ra rb B by (simp add: f_div_def Let_def q_def B_def)
  have "q \<le> mant a * pow2 50 div 8388608"
    unfolding q_def using mb ma by (intro zdiv_mono2) auto
  also have "\<dots> \<le> 16777216 * pow2 50 div 8388608" using ma by (intro zdiv_mono1) auto
  also have "\<dots> = pow2 51" by simp
  finally have q: "q \<le> pow2 51" .
  have q0: "0 \<le> q" using ma mb by (simp add: q_def pos_imp_zdiv_nonneg_iff)
  have "expo a \<le> ca - 23" using a f_mag_range(1) by (intro expoM_le) auto
  then show ?thesis unfolding eq using q q0 b(3) c by (intro f_mag_round [where p = 51]) auto
qed

lemma f_trunc_bound:
  assumes "f_mag a \<le> (c + 127) * 8388608" "- 126 \<le> c" "c \<le> 29"
  shows "\<bar>f_trunc a\<bar> \<le> 1073741824"
proof -
  have m: "0 \<le> mant a" "mant a < 16777216" using mantM_bounds [OF f_mag_range(1), of a] by auto
  have e: "expo a \<le> c - 23" using assms f_mag_range(1) by (intro expoM_le) auto
  have "\<bar>f_trunc a\<bar> = (if 0 \<le> expo a then mant a * pow2 (expo a) else mant a div pow2 (- expo a))"
    using m by (simp add: f_trunc_def Let_def pos_imp_zdiv_nonneg_iff abs_mult)
  moreover have "mant a * pow2 (expo a) \<le> 1073741824" if "0 \<le> expo a"
  proof -
    have "pow2 (expo a) \<le> pow2 6" using e assms(3) by (intro pow2_mono) simp
    then have "mant a * pow2 (expo a) \<le> 16777216 * pow2 6" using m by (intro mult_mono) auto
    then show ?thesis by simp
  qed
  moreover have "mant a div pow2 (- expo a) \<le> mant a div 1"
    using m pow2_pos(1) [of "- expo a"] by (intro zdiv_mono2) (simp_all add: pow2_def)
  ultimately show ?thesis using m by (auto split: if_splits)
qed

subsection \<open>Where NaNs do not come from\<close>

lemma pack_le_inf: "pack m e \<le> 2139095040"
  by (simp add: pack_def Let_def)

lemma roundM_range: "0 \<le> roundM N st e \<and> roundM N st e \<le> 2139095040"
proof (cases "round_shift N e \<le> 0")
  case True
  then have "- 149 \<le> e" by (simp add: round_shift_def)
  then show ?thesis using True pack_nonneg pack_le_inf by (simp add: roundM_def Let_def)
next
  case False
  have "- 149 \<le> e + round_shift N e" by (simp add: round_shift_def)
  then show ?thesis using False pack_nonneg pack_le_inf by (simp add: roundM_def Let_def)
qed

lemma f_nan_signed_bits: "0 \<le> k \<Longrightarrow> k \<le> 2139095040 \<Longrightarrow> \<not> f_nan (signed_bits s k)"
  by (simp add: f_nan_def f_mag_signed_bits)

lemma f_round_not_nan [simp]: "\<not> f_nan (f_round s N st e)"
  using roundM_range [of N st e] by (simp add: f_round_def f_nan_signed_bits)

lemma f_fin_cases: "f_fin a \<longleftrightarrow> \<not> f_nan a \<and> \<not> f_inf a"
  by (auto simp: f_fin_def f_nan_def f_inf_def)

lemma f_add_not_nan: "f_fin a \<Longrightarrow> \<not> f_nan b \<Longrightarrow> \<not> f_nan (f_add a b)"
  by (simp add: f_add_def f_fin_cases Let_def f_nan_signed_bits)

lemma f_mul_not_nan: "f_fin a \<Longrightarrow> f_fin b \<Longrightarrow> \<not> f_nan (f_mul a b)"
  by (simp add: f_mul_def f_fin_cases Let_def)

lemma f_of_int_fin:
  assumes "\<bar>n\<bar> \<le> pow2 64"
  shows "f_fin (f_of_int n)"
proof -
  have "f_mag (f_of_int n) \<le> (64 + 127) * 8388608"
    unfolding f_of_int_def using assms by (intro f_mag_round [where p = 64]) auto
  then show ?thesis by (simp add: f_fin_def)
qed

lemma f_le_not_nan: "f_le a b \<Longrightarrow> \<not> f_nan a \<and> \<not> f_nan b"
  by (simp add: f_le_def)

text \<open>A single between two finite ones is finite; between zero and a bound, so is its magnitude.\<close>

lemma f_le_mag:
  assumes "f_le lo a" "f_le a hi" "0 \<le> key lo"
  shows "f_mag a \<le> f_mag hi"
  using assms f_mag_range [of a] f_mag_range [of hi] f_mag_range [of lo]
  by (auto simp: f_le_def key_def split: if_splits)

text \<open>A difference, a sum of squares and its root are numbers again.\<close>

lemma f_mag_neg [simp]: "f_mag (f_neg a) = f_mag a"
proof -
  have "uint (f_neg a) = (uint a + 2147483648) mod 4294967296"
    by (simp add: f_neg_def uint_word_ariths)
  then have "f_mag (f_neg a) = (uint a + 2147483648) mod 4294967296 mod 2147483648" by (simp add: f_mag_def)
  also have "\<dots> = (uint a + 2147483648) mod 2147483648" by (rule mod_mod_cancel) simp
  also have "\<dots> = uint a mod 2147483648" by simp
  finally show ?thesis by (simp add: f_mag_def)
qed

lemma f_sub_not_nan: "f_fin a \<Longrightarrow> f_fin b \<Longrightarrow> \<not> f_nan (f_sub a b)"
  using f_add_not_nan [of a "f_neg b"] by (simp add: f_sub_def f_fin_cases) (simp add: f_nan_def)

lemma f_sign_round [simp]: "f_sign (f_round s N st e) = s"
  using roundM_range [of N st e] by (simp add: f_round_def f_sign_signed_bits)

lemma f_square: "\<not> f_nan a \<Longrightarrow> \<not> f_nan (f_mul a a) \<and> \<not> f_sign (f_mul a a)"
  by (auto simp: f_mul_def Let_def f_inf_def f_nan_signed_bits f_sign_signed_bits)

lemma f_add_nonneg:
  assumes "\<not> f_nan a" "\<not> f_nan b" "\<not> f_sign a" "\<not> f_sign b"
  shows "\<not> f_nan (f_add a b) \<and> \<not> f_sign (f_add a b)"
proof -
  have m: "0 \<le> mant x" for x using mantM_bounds [OF f_mag_range(1)] by auto
  have "0 \<le> mant a * pow2 j + mant b * pow2 k" for j k using m by simp
  then have neg: "\<not> mant a * pow2 j + mant b * pow2 k < 0" for j k by (meson not_less)
  show ?thesis using assms
    by (simp add: f_add_def Let_def f_nan_signed_bits f_sign_signed_bits neg)
qed

lemma f_sqrt_not_nan: "\<not> f_nan a \<Longrightarrow> \<not> f_sign a \<Longrightarrow> \<not> f_nan (f_sqrt a)"
  by (simp add: f_sqrt_def Let_def)

subsection \<open>Magnitudes of results\<close>

lemma mant_value_le:
  assumes "f_mag a \<le> (c + 127) * 8388608" "- 126 \<le> c" "- 149 \<le> e" "e \<le> expo a"
  shows "0 \<le> mant a * pow2 (expo a - e)" "mant a * pow2 (expo a - e) \<le> pow2 (c + 1 - e)"
proof -
  have m: "0 \<le> mant a" "mant a \<le> pow2 24" using mantM_bounds [OF f_mag_range(1), of a] by simp_all
  show "0 \<le> mant a * pow2 (expo a - e)" using m by simp
  have "expo a \<le> c - 23" using assms f_mag_range by (intro expoM_le) simp_all
  have "mant a * pow2 (expo a - e) \<le> pow2 24 * pow2 (expo a - e)" using m by (intro mult_right_mono) simp_all
  also have "\<dots> = pow2 (24 + (expo a - e))" using assms by (subst pow2_add) simp_all
  also have "\<dots> \<le> pow2 (c + 1 - e)" using \<open>expo a \<le> c - 23\<close> by (intro pow2_mono) simp
  finally show "mant a * pow2 (expo a - e) \<le> pow2 (c + 1 - e)" .
qed

lemma expo_ge: "- 149 \<le> expo a"
  using f_mag_range(1) [of a] by (auto simp: expoM_def)

lemma f_mag_add:
  assumes a: "f_mag a \<le> (c + 127) * 8388608" and b: "f_mag b \<le> (c + 127) * 8388608"
    and c: "- 126 \<le> c" "c \<le> 100"
  shows "f_mag (f_add a b) \<le> (c + 2 + 127) * 8388608"
proof -
  have fin: "\<not> f_nan a" "\<not> f_nan b" "\<not> f_inf a" "\<not> f_inf b"
    using a b c by (auto simp: f_nan_def f_inf_def)
  define e x y where "e = min (expo a) (expo b)" and "x = mant a * pow2 (expo a - e)"
    and "y = mant b * pow2 (expo b - e)"
  define n where "n = (if f_sign a then - x else x) + (if f_sign b then - y else y)"
  have e: "- 149 \<le> e" "e \<le> expo a" "e \<le> expo b" using expo_ge by (simp_all add: e_def)
  have ec: "e \<le> c + 1" using expoM_le [OF f_mag_range(1) a c(1)] e by simp
  have xy: "0 \<le> x" "x \<le> pow2 (c + 1 - e)" "0 \<le> y" "y \<le> pow2 (c + 1 - e)"
    using mant_value_le [OF a c(1) e(1,2)] mant_value_le [OF b c(1) e(1,3)] by (simp_all add: x_def y_def)
  have "\<bar>n\<bar> \<le> pow2 (c + 1 - e) * pow2 1" using xy by (auto simp: n_def)
  also have "\<dots> = pow2 ((c + 1 - e) + 1)" using ec by (subst pow2_add) simp_all
  also have "(c + 1 - e) + 1 = c + 2 - e" by simp
  finally have n: "\<bar>n\<bar> \<le> pow2 (c + 2 - e)" .
  have "f_mag (f_round (n < 0) \<bar>n\<bar> False e) \<le> (c + 2 + 127) * 8388608"
    using n ec c by (intro f_mag_round [where p = "c + 2 - e"]) simp_all
  moreover have "f_add a b = (if n = 0 then signed_bits (f_sign a \<and> f_sign b) 0 else f_round (n < 0) \<bar>n\<bar> False e)"
    using fin by (simp add: f_add_def Let_def e_def x_def y_def n_def)
  ultimately show ?thesis using c by (simp add: f_mag_signed_bits)
qed

lemma f_mag_sub:
  assumes a: "f_mag a \<le> (c + 127) * 8388608" and b: "f_mag b \<le> (c + 127) * 8388608"
    and c: "- 126 \<le> c" "c \<le> 100"
  shows "f_mag (f_sub a b) \<le> (c + 2 + 127) * 8388608"
  using f_mag_add [of a c "f_neg b"] assms by (auto simp: f_sub_def f_nan_def)

lemma f_mag_mul:
  assumes a: "f_mag a \<le> (c + 127) * 8388608" and b: "f_mag b \<le> (c + 127) * 8388608"
    and c: "- 60 \<le> c" "c \<le> 50"
  shows "f_mag (f_mul a b) \<le> (2 * c + 2 + 127) * 8388608"
proof -
  have fin: "\<not> f_nan a" "\<not> f_nan b" "\<not> f_inf a" "\<not> f_inf b"
    using a b c by (auto simp: f_nan_def f_inf_def)
  have m: "0 \<le> mant x" "mant x \<le> 16777216" for x using mantM_bounds [OF f_mag_range(1), of x] by simp_all
  have N: "0 \<le> mant a * mant b" "mant a * mant b \<le> pow2 48"
    using m mult_mono [OF m(2) m(2), of a b] by (simp_all add: mult.commute)
  have "expo a \<le> c - 23" "expo b \<le> c - 23" using a b c f_mag_range by (auto intro!: expoM_le)
  then have "f_mag (f_round s (mant a * mant b) False (expo a + expo b)) \<le> (2 * c + 2 + 127) * 8388608" for s
    using N c by (intro f_mag_round [where p = 48]) simp_all
  then show ?thesis using fin by (simp add: f_mul_def Let_def)
qed

lemma isqrt_from_bound: "0 \<le> r \<Longrightarrow> 0 \<le> isqrt_from k r N \<and> isqrt_from k r N \<le> r + 2 ^ k - 1"
proof (induction k arbitrary: r)
  case (Suc k)
  have "0 \<le> isqrt_from k (r + 2 ^ k) N \<and> isqrt_from k (r + 2 ^ k) N \<le> r + 2 ^ k + 2 ^ k - 1"
    "0 \<le> isqrt_from k r N \<and> isqrt_from k r N \<le> r + 2 ^ k - 1"
    using Suc.IH [of "r + 2 ^ k"] Suc.IH [of r] Suc.prems by simp_all
  moreover have "0 \<le> (2 :: int) ^ k" "(2 :: int) ^ Suc k = 2 ^ k + 2 ^ k" by simp_all
  moreover have "isqrt_from (Suc k) r N = isqrt_from k (r + 2 ^ k) N \<or> isqrt_from (Suc k) r N = isqrt_from k r N"
    by (simp add: Let_def)
  ultimately show ?case by linarith
qed simp

lemma f_mag_sqrt:
  assumes a: "f_mag a \<le> (c + 127) * 8388608" "\<not> f_sign a" and c: "0 \<le> c" "c \<le> 100"
  shows "f_mag (f_sqrt a) \<le> (c div 2 + 3 + 127) * 8388608"
proof -
  have fin: "\<not> f_nan a" "\<not> f_inf a" using a c by (auto simp: f_nan_def f_inf_def)
  define k N where "k = 52 + expo a mod 2" and "N = mant a * pow2 k"
  define r where "r = isqrt_from 40 0 N"
  have r: "0 \<le> r" "r \<le> pow2 40" using isqrt_from_bound [of 0 40 N] by (simp_all add: r_def)
  have "expo a \<le> c - 23" using a c f_mag_range by (auto intro!: expoM_le)
  then have "(expo a - k) div 2 + 40 \<le> c div 2 + 3" using c by (simp add: k_def)
  then have "f_mag (f_round False r (r * r \<noteq> N) ((expo a - k) div 2)) \<le> (c div 2 + 3 + 127) * 8388608"
    using r c by (intro f_mag_round [where p = 40]) simp_all
  then show ?thesis using fin a c by (auto simp: f_sqrt_def Let_def k_def N_def r_def)
qed

text \<open>The value of a single grows with its magnitude bits.\<close>

lemma mant_value_mono:
  assumes "f_mag a \<le> f_mag b" "e \<le> expo a"
  shows "expo a \<le> expo b" "mant a * pow2 (expo a - e) \<le> mant b * pow2 (expo b - e)"
proof -
  have r: "0 \<le> f_mag a" "0 \<le> f_mag b" using f_mag_range by simp_all
  have d: "f_mag a div 8388608 \<le> f_mag b div 8388608" using assms(1) by (intro zdiv_mono1) simp_all
  have small: "x < 8388608 \<longleftrightarrow> x div 8388608 = 0" if "0 \<le> x" for x :: int using that by auto
  show le: "expo a \<le> expo b" using d assms(1) r by (auto simp: expoM_def)
  show "mant a * pow2 (expo a - e) \<le> mant b * pow2 (expo b - e)"
  proof (cases "expo a = expo b")
    case True
    have "mant a \<le> mant b"
    proof (cases "f_mag a div 8388608 = f_mag b div 8388608")
      case True
      have "f_mag a mod 8388608 \<le> f_mag b mod 8388608"
        using assms(1) True by (simp add: minus_div_mult_eq_mod [symmetric])
      moreover have "f_mag a < 8388608 \<longleftrightarrow> f_mag b < 8388608"
        unfolding small [OF r(1)] small [OF r(2)] True ..
      ultimately show ?thesis using assms(1) by (cases "f_mag a < 8388608") (simp_all add: mantM_def)
    next
      case False
      have "0 \<le> f_mag a div 8388608" using r by (simp add: pos_imp_zdiv_nonneg_iff)
      then have "f_mag b div 8388608 \<noteq> 0" using False d by linarith
      then have b: "8388608 \<le> f_mag b" using small [OF r(2)] by (meson not_less)
      have "f_mag a < 8388608" using True False b by (auto simp: expoM_def split: if_splits)
      then show ?thesis using b by (simp add: mantM_def)
    qed
    then show ?thesis using True by (simp add: mult_right_mono)
  next
    case False
    then have lt: "expo a + 1 \<le> expo b" using le by simp
    then have big: "8388608 \<le> mant b" using r by (auto simp: mantM_def expoM_def split: if_splits)
    have "mant a * pow2 (expo a - e) \<le> 16777216 * pow2 (expo a - e)"
      using mantM_bounds [OF f_mag_range(1), of a] by (intro mult_right_mono) simp_all
    also have "\<dots> = 8388608 * pow2 (1 + (expo a - e))" using assms(2) by (subst pow2_add) simp_all
    also have "\<dots> \<le> 8388608 * pow2 (expo b - e)" using lt by (intro mult_left_mono pow2_mono) simp_all
    also have "\<dots> \<le> mant b * pow2 (expo b - e)" using big by (intro mult_right_mono) simp_all
    finally show ?thesis .
  qed
qed

lemma f_sub_sign:
  assumes "f_fin a" "f_fin b" "\<not> f_sign a" "\<not> f_sign b" "f_mag b \<le> f_mag a"
  shows "\<not> f_sign (f_sub a b)"
proof -
  have "uint (f_neg b) = uint b + 2147483648"
    using assms(4) unsigned_less [of b] by (simp add: f_neg_def uint_word_ariths f_sign_def)
  then have s: "f_sign (f_neg b)" using unsigned_greater_eq [of b] by (simp add: f_sign_def)
  define e where "e = min (expo a) (expo b)"
  have "expo b \<le> expo a" by (rule mant_value_mono [OF assms(5), of "expo b"]) simp
  then have "mant b * pow2 (expo b - e) \<le> mant a * pow2 (expo a - e)"
    by (intro mant_value_mono(2) assms(5)) (simp add: e_def)
  then have "\<not> mant a * pow2 (expo a - e) + - (mant b * pow2 (expo b - e)) < 0" by simp
  then show ?thesis using assms s
    by (simp add: f_sub_def f_add_def Let_def f_fin_cases f_nan_def f_inf_def f_sign_signed_bits e_def)
qed

end
