(* ===== verification/Bytes.thy ===== *)
theory Bytes
  imports Float32
begin

text \<open>
  Memory as bytes: the little-endian image of the integers and singles that the code copies into
  and out of buffers with \<open>memcpy\<close>, and the round trips of the two directions.
\<close>

type_synonym byte = "8 word"

text \<open>\<open>enc n v\<close>: the \<open>n\<close> bytes of an integer variable that holds \<open>v\<close>.\<close>

fun enc :: "nat \<Rightarrow> int \<Rightarrow> byte list" where
  "enc 0 v = []"
| "enc (Suc n) v = word_of_int v # enc n (v div 256)"

text \<open>The bytes read as an unsigned integer, and as a signed one of the same width.\<close>

fun decU :: "byte list \<Rightarrow> int" where
  "decU [] = 0"
| "decU (b # bs) = uint b + 256 * decU bs"

definition decS :: "byte list \<Rightarrow> int" where
  "decS bs = (let u = decU bs; m = 256 ^ length bs in if m \<le> 2 * u then u - m else u)"

definition encF :: "f32 \<Rightarrow> byte list" where "encF a = enc 4 (uint a)"
definition decF :: "byte list \<Rightarrow> f32" where "decF bs = word_of_int (decU bs)"

lemma length_enc [simp]: "length (enc n v) = n"
  by (induction n arbitrary: v) auto

lemma length_encF [simp]: "length (encF a) = 4"
  by (simp add: encF_def)

lemma decU_nonneg [simp]: "0 \<le> decU bs"
  by (induction bs) auto

lemma decU_less: "decU bs < 256 ^ length bs"
proof (induction bs)
  case (Cons b bs)
  have "uint b < 256" using unsigned_less [of b] by simp
  moreover have "decU bs + 1 \<le> 256 ^ length bs" using Cons by simp
  then have "256 * (decU bs + 1) \<le> 256 * 256 ^ length bs" by (intro mult_left_mono) simp_all
  ultimately show ?case by simp
qed simp

lemma decU_enc: "decU (enc n v) = v mod 256 ^ n"
proof (induction n arbitrary: v)
  case (Suc n)
  have u: "uint (word_of_int v :: byte) = v mod 256" by (simp add: uint_word_of_int)
  have "v mod (256 * 256 ^ n) = 256 * (v div 256 mod 256 ^ n) + v mod 256"
    by (rule zmod_zmult2_eq) simp
  then show ?case using Suc u by simp
qed simp

lemma decU_enc_id: "0 \<le> v \<Longrightarrow> v < 256 ^ n \<Longrightarrow> decU (enc n v) = v"
  by (simp add: decU_enc)

lemma decS_enc:
  assumes "- (256 ^ n) \<le> 2 * v" "2 * v < 256 ^ n"
  shows "decS (enc n v) = v"
proof (cases "0 \<le> v")
  case True
  then have "v < 256 ^ n" using assms by linarith
  then show ?thesis using True assms by (simp add: decS_def decU_enc)
next
  case False
  have "v mod 256 ^ n = (v + 256 ^ n) mod 256 ^ n" by simp
  also have "\<dots> = v + 256 ^ n" using False assms by (intro mod_pos_pos_trivial) linarith+
  finally show ?thesis using False assms by (simp add: decS_def decU_enc Let_def)
qed

lemma decS_range: "- (256 ^ length bs) \<le> 2 * decS bs \<and> 2 * decS bs < 256 ^ length bs"
  using decU_less [of bs] decU_nonneg [of bs] by (auto simp: decS_def Let_def simp del: decU_nonneg)

lemma decF_encF [simp]: "decF (encF a) = a"
proof -
  have "uint a < 256 ^ 4" using unsigned_less [of a] by simp
  then show ?thesis by (simp add: decF_def encF_def decU_enc)
qed

text \<open>Truncating a list of bytes.\<close>

lemma take_enc_append [simp]: "take n (enc n v @ bs) = enc n v" "drop n (enc n v @ bs) = bs"
  by simp_all

lemma take_encF_append [simp]: "take 4 (encF a @ bs) = encF a" "drop 4 (encF a @ bs) = bs"
  by simp_all

end
