(* ===== verification/Message.thy ===== *)
theory Message
  imports Bytes
begin

text \<open>
  The serialisation buffer \<open>utility::Message\<close> of the network library
  (\<open>utility/Message.cpp\<close>, \<open>utility/Message.h\<close>), and the packed header that opens every
  packet (\<open>Header.h\<close>). The array \<open>mBegin\<close> is kept up to \<open>mRearPtr\<close>, since nothing
  reads beyond it; \<open>mFrontPtr\<close> is an offset.
\<close>

subsection \<open>State\<close>

record message =
  mOwnerID :: int
  mRandKey :: int
  mRequestTime :: int
  mSize :: int
  mFront :: nat
  mBuf :: "byte list"

definition BufferSize :: int where "BufferSize = 6000"
definition MaxSize :: int where "MaxSize = 6000"

definition mRear :: "message \<Rightarrow> nat" where "mRear m = length (mBuf m)"

definition InitMessage :: "int \<Rightarrow> int \<Rightarrow> int \<Rightarrow> message" where
  "InitMessage now sessionID randKey =
     \<lparr> mOwnerID = sessionID, mRandKey = randKey, mRequestTime = now, mSize = BufferSize,
       mFront = 0, mBuf = [] \<rparr>"

subsection \<open>Writing\<close>

definition PutData :: "byte list \<Rightarrow> message \<Rightarrow> message res" where
  "PutData src m =
     (if mSize m < int (mRear m) + int (length src) then Inl NotEnoughSpace
      else Inr (m\<lparr>mBuf := mBuf m @ src\<rparr>))"

text \<open>
  \<open>Resize\<close>: the size it copies is the difference of the pointers taken the wrong way round and
  converted to an unsigned 32-bit number, so unless both pointers agree the new \<open>mRearPtr\<close> (or
  the \<open>memcpy\<close>) lies gigabytes outside of the array.
\<close>

definition Resize :: "message \<Rightarrow> message res" where
  "Resize m =
     (let useSize = u32 (if mRear m < mFront m then int (mRear m) - int (mFront m)
                         else int (mFront m) - int (mRear m))
      in if MaxSize < useSize then Inl UndefinedBehaviour
         else Inr (m\<lparr>mSize := MaxSize, mFront := 0, mBuf := take (nat useSize) (mBuf m)\<rparr>))"

text \<open>\<open>operator<<\<close> of a fundamental type, given by its bytes.\<close>

definition putVal :: "byte list \<Rightarrow> message \<Rightarrow> message res" where
  "putVal bs m =
     (let n = int (length bs) in
      if mSize m < int (mRear m) + n
      then if mSize m = BufferSize \<and> mSize m + n < MaxSize
           then bindR (Resize m) (\<lambda>m. Inr (m\<lparr>mBuf := mBuf m @ bs\<rparr>))
           else Inl NotEnoughSpace
      else Inr (m\<lparr>mBuf := mBuf m @ bs\<rparr>))"

subsection \<open>Reading\<close>

definition GetData :: "nat \<Rightarrow> message \<Rightarrow> (byte list \<times> message) res" where
  "GetData n m =
     (if mRear m < mFront m + n then Inl HasNotData
      else Inr (take n (drop (mFront m) (mBuf m)), m\<lparr>mFront := mFront m + n\<rparr>))"

definition Peek :: "nat \<Rightarrow> message \<Rightarrow> byte list res" where
  "Peek n m =
     (if mRear m < mFront m + n then Inl HasNotData
      else Inr (take n (drop (mFront m) (mBuf m))))"

text \<open>\<open>operator>>\<close>, for the types the handlers read.\<close>

definition getVal :: "nat \<Rightarrow> message \<Rightarrow> (byte list \<times> message) res" where
  "getVal n m =
     (if mRear m < mFront m + n then Inl HasNotData
      else Inr (take n (drop (mFront m) (mBuf m)), m\<lparr>mFront := mFront m + n\<rparr>))"

definition getS :: "nat \<Rightarrow> message \<Rightarrow> (int \<times> message) res" where
  "getS n m = bindR (getVal n m) (\<lambda>(bs, m). Inr (decS bs, m))"

definition getU :: "nat \<Rightarrow> message \<Rightarrow> (int \<times> message) res" where
  "getU n m = bindR (getVal n m) (\<lambda>(bs, m). Inr (decU bs, m))"

definition getF :: "message \<Rightarrow> (f32 \<times> message) res" where
  "getF m = bindR (getVal 4 m) (\<lambda>(bs, m). Inr (decF bs, m))"

definition GetUseSize :: "message \<Rightarrow> int" where
  "GetUseSize m =
     (if mFront m \<le> mRear m then int (mRear m) - int (mFront m)
      else mSize m - int (mFront m) + int (mRear m))"

subsection \<open>The packet header\<close>

text \<open>\<open>struct Header\<close>, packed: \<open>int16_t Len\<close>, \<open>int8_t RandKey\<close>.\<close>

record header =
  hLen :: int
  hRandKey :: int

definition headerBytes :: "header \<Rightarrow> byte list" where
  "headerBytes h = enc 2 (hLen h) @ enc 1 (hRandKey h)"

definition headerOf :: "byte list \<Rightarrow> header" where
  "headerOf bs = \<lparr> hLen = decS (take 2 bs), hRandKey = decS (take 1 (drop 2 bs)) \<rparr>"

definition header_ok :: "header \<Rightarrow> bool" where
  "header_ok h \<longleftrightarrow> - 32768 \<le> hLen h \<and> hLen h < 32768 \<and> - 128 \<le> hRandKey h \<and> hRandKey h < 128"

text \<open>Writing a sequence of values, each with \<open>PutData\<close> or \<open>operator<<\<close>.\<close>

definition putAll :: "byte list list \<Rightarrow> message \<Rightarrow> message res" where
  "putAll = foldR putVal"

subsection \<open>Laws\<close>

definition msg_wf :: "message \<Rightarrow> bool" where
  "msg_wf m \<longleftrightarrow> mSize m = BufferSize \<and> int (mRear m) \<le> mSize m \<and> mFront m \<le> mRear m"

definition unread :: "message \<Rightarrow> byte list" where
  "unread m = drop (mFront m) (mBuf m)"

lemma InitMessage_simps [simp]:
  "mBuf (InitMessage t s k) = []" "mFront (InitMessage t s k) = 0"
  "mOwnerID (InitMessage t s k) = s" "mSize (InitMessage t s k) = BufferSize"
  "mRandKey (InitMessage t s k) = k" "mRequestTime (InitMessage t s k) = t"
  by (simp_all add: InitMessage_def)

lemma msg_wf_Init [simp]: "msg_wf (InitMessage t s k)"
  by (simp add: msg_wf_def mRear_def BufferSize_def)

text \<open>\<open>operator<<\<close> and \<open>PutData\<close> agree: the \<open>Resize\<close> branch is dead.\<close>

lemma putVal_PutData: "mSize m = BufferSize \<Longrightarrow> putVal bs m = PutData bs m"
  by (simp add: putVal_def PutData_def BufferSize_def MaxSize_def Let_def)

lemma PutData_wf: "msg_wf m \<Longrightarrow> PutData bs m = Inr m' \<Longrightarrow> msg_wf m'"
  by (auto simp: PutData_def msg_wf_def mRear_def split: if_splits)

lemma PutData_Inr_iff:
  "PutData bs m = Inr m' \<longleftrightarrow>
   int (mRear m + length bs) \<le> mSize m \<and> m' = m\<lparr>mBuf := mBuf m @ bs\<rparr>"
  by (auto simp: PutData_def)

lemma putVal_wf: "msg_wf m \<Longrightarrow> putVal bs m = Inr m' \<Longrightarrow> msg_wf m'"
  by (metis PutData_wf msg_wf_def putVal_PutData)

lemma putAll_eq:
  assumes "mSize m = BufferSize"
  shows "putAll cs m =
    (if int (mRear m + length (concat cs)) \<le> BufferSize \<or> cs = []
     then Inr (m\<lparr>mBuf := mBuf m @ concat cs\<rparr>) else Inl NotEnoughSpace)"
  using assms
proof (induction cs arbitrary: m)
  case Nil
  then show ?case by (simp add: putAll_def)
next
  case (Cons c cs)
  show ?case
  proof (cases "int (mRear m + length c) \<le> BufferSize")
    case True
    then have s: "putVal c m = Inr (m\<lparr>mBuf := mBuf m @ c\<rparr>)"
      using Cons.prems by (simp add: putVal_PutData PutData_def)
    show ?thesis
      using Cons.IH [of "m\<lparr>mBuf := mBuf m @ c\<rparr>"] Cons.prems s True
      by (auto simp: putAll_def mRear_def)
  next
    case False
    then show ?thesis using Cons.prems by (simp add: putAll_def putVal_PutData PutData_def)
  qed
qed

lemma getVal_GetData: "getVal = GetData"
  by (intro ext) (simp add: getVal_def GetData_def)

lemma getVal_Inr_iff:
  "getVal n m = Inr (bs, m') \<longleftrightarrow>
   mFront m + n \<le> mRear m \<and> bs = take n (unread m) \<and> m' = m\<lparr>mFront := mFront m + n\<rparr>"
  by (auto simp: getVal_def unread_def)

lemma getVal_unread: "getVal n m = Inr (bs, m') \<Longrightarrow> unread m = bs @ unread m' \<and> length bs = n"
  by (auto simp: getVal_Inr_iff unread_def mRear_def add.commute simp flip: drop_drop)

lemma getVal_wf: "msg_wf m \<Longrightarrow> getVal n m = Inr (bs, m') \<Longrightarrow> msg_wf m'"
  by (auto simp: getVal_Inr_iff msg_wf_def mRear_def)

lemma getVal_progress: "n \<le> length (unread m) \<Longrightarrow> mFront m \<le> mRear m \<Longrightarrow> \<exists>r. getVal n m = Inr r"
  by (auto simp: getVal_def unread_def mRear_def)

lemma GetUseSize_unread: "mFront m \<le> mRear m \<Longrightarrow> GetUseSize m = int (length (unread m))"
  by (simp add: GetUseSize_def unread_def mRear_def)

lemma headerOf_headerBytes: "header_ok h \<Longrightarrow> headerOf (headerBytes h @ bs) = h"
  using decS_enc [of 2 "hLen h"] decS_enc [of 1 "hRandKey h"]
  by (simp add: headerOf_def headerBytes_def header_ok_def del: enc.simps One_nat_def)

lemma length_headerBytes [simp]: "length (headerBytes h) = 3"
  by (simp add: headerBytes_def)

end
