(* ===== verification/GameConfig.thy ===== *)
theory GameConfig
  imports Message
begin

text \<open>
  The constants, tables and small geometric functions that server, client and bots share:
  \<open>_Shared/Protocol.h\<close>, \<open>_Shared/AttackConfig.h\<close>, \<open>FieldServer/MapConfig.h\<close>. A
  direction is the raw \<open>int8_t\<close> behind \<open>eDirection\<close>, because the server casts bytes of
  the network to it without a check.
\<close>

subsection \<open>Protocol.h\<close>

type_synonym eDirection = int

abbreviation (input) "DirDown \<equiv> (0 :: eDirection)"
abbreviation (input) "DirDownLeft \<equiv> (1 :: eDirection)"
abbreviation (input) "DirDownRight \<equiv> (2 :: eDirection)"
abbreviation (input) "DirLeft \<equiv> (3 :: eDirection)"
abbreviation (input) "DirRight \<equiv> (4 :: eDirection)"
abbreviation (input) "DirUp \<equiv> (5 :: eDirection)"
abbreviation (input) "DirUpLeft \<equiv> (6 :: eDirection)"
abbreviation (input) "DirUpRight \<equiv> (7 :: eDirection)"
abbreviation (input) "DirMax \<equiv> (8 :: eDirection)"

definition dir_ok :: "eDirection \<Rightarrow> bool" where "dir_ok d \<longleftrightarrow> 0 \<le> d \<and> d < DirMax"

definition kDirectionVectorTable :: "(f32 \<times> f32) list" where
  "kDirectionVectorTable =
     [(f_lit 0 1, f_lit 1 1),
      (f_lit (- 707107) 1000000, f_lit 707107 1000000),
      (f_lit 707107 1000000, f_lit 707107 1000000),
      (f_lit (- 1) 1, f_lit 0 1),
      (f_lit 1 1, f_lit 0 1),
      (f_lit 0 1, f_lit (- 1) 1),
      (f_lit (- 707107) 1000000, f_lit (- 707107) 1000000),
      (f_lit 707107 1000000, f_lit (- 707107) 1000000)]"

text \<open>\<open>kDirectionVectorTable[static_cast<int8_t>(d)]\<close>: out of range it reads foreign memory.\<close>

definition dirVector :: "eDirection \<Rightarrow> (f32 \<times> f32) res" where
  "dirVector d = (if dir_ok d then Inr (kDirectionVectorTable ! nat d) else Inl UndefinedBehaviour)"

datatype eItemId = Gold | Potion

fun itemByte :: "eItemId \<Rightarrow> int" where
  "itemByte Gold = 0"
| "itemByte Potion = 1"

subsection \<open>Packet types\<close>

definition LOGIN_REQ :: int where "LOGIN_REQ = 0"
definition LOGIN_RES :: int where "LOGIN_RES = 1"
definition REGISTER_PLAYER :: int where "REGISTER_PLAYER = 50"
definition PLAYER_DISCONNECTED :: int where "PLAYER_DISCONNECTED = 51"
definition PLAYER_MOVEFILED :: int where "PLAYER_MOVEFILED = 52"
definition FIELD_AUTH_REQ :: int where "FIELD_AUTH_REQ = 100"
definition FIELD_AUTH_FAIL :: int where "FIELD_AUTH_FAIL = 101"
definition FIELD_AUTH_RES :: int where "FIELD_AUTH_RES = 102"
definition OTHER_CHARACTER_SPAWN :: int where "OTHER_CHARACTER_SPAWN = 103"
definition OTHER_CHARACTER_SPAWN_BATCH :: int where "OTHER_CHARACTER_SPAWN_BATCH = 104"
definition CHARACTER_DESPAWN :: int where "CHARACTER_DESPAWN = 105"
definition MOVE_START :: int where "MOVE_START = 106"
definition MOVE_STOP :: int where "MOVE_STOP = 107"
definition MONSTER_SPAWN :: int where "MONSTER_SPAWN = 108"
definition MONSTER_SPAWN_BATCH :: int where "MONSTER_SPAWN_BATCH = 109"
definition MONSTER_DESPAWN :: int where "MONSTER_DESPAWN = 110"
definition MONSTER_MOVE_START :: int where "MONSTER_MOVE_START = 111"
definition MONSTER_MOVE_STOP :: int where "MONSTER_MOVE_STOP = 112"
definition PLAYER_ATTACK_REQ :: int where "PLAYER_ATTACK_REQ = 113"
definition OTHER_CHARACTER_ATTACK :: int where "OTHER_CHARACTER_ATTACK = 114"
definition MONSTER_DAMAGED :: int where "MONSTER_DAMAGED = 115"
definition MONSTER_ATTACK :: int where "MONSTER_ATTACK = 116"
definition CHARACTER_DAMAGED :: int where "CHARACTER_DAMAGED = 117"
definition ITEM_SPAWN :: int where "ITEM_SPAWN = 118"
definition ITEM_SPAWN_BATCH :: int where "ITEM_SPAWN_BATCH = 119"
definition ITEM_DESPAWN :: int where "ITEM_DESPAWN = 120"
definition LOOT_REQ :: int where "LOOT_REQ = 121"
definition LOOT_RES :: int where "LOOT_RES = 122"
definition RANKING_REQ :: int where "RANKING_REQ = 123"
definition RANKING_RES :: int where "RANKING_RES = 124"
definition PACKET_MAX :: int where "PACKET_MAX = 125"

lemmas packet_defs = LOGIN_REQ_def LOGIN_RES_def REGISTER_PLAYER_def PLAYER_DISCONNECTED_def
  PLAYER_MOVEFILED_def FIELD_AUTH_REQ_def FIELD_AUTH_FAIL_def FIELD_AUTH_RES_def
  OTHER_CHARACTER_SPAWN_def OTHER_CHARACTER_SPAWN_BATCH_def CHARACTER_DESPAWN_def MOVE_START_def
  MOVE_STOP_def MONSTER_SPAWN_def MONSTER_SPAWN_BATCH_def MONSTER_DESPAWN_def
  MONSTER_MOVE_START_def MONSTER_MOVE_STOP_def PLAYER_ATTACK_REQ_def OTHER_CHARACTER_ATTACK_def
  MONSTER_DAMAGED_def MONSTER_ATTACK_def CHARACTER_DAMAGED_def ITEM_SPAWN_def ITEM_SPAWN_BATCH_def
  ITEM_DESPAWN_def LOOT_REQ_def LOOT_RES_def RANKING_REQ_def RANKING_RES_def PACKET_MAX_def

subsection \<open>MapConfig.h\<close>

definition SECTOR_WORLD_W :: int where "SECTOR_WORLD_W = 320"
definition SECTOR_WORLD_H :: int where "SECTOR_WORLD_H = 235"
definition SECTOR_COL_CNT :: int where "SECTOR_COL_CNT = 20"
definition SECTOR_ROW_CNT :: int where "SECTOR_ROW_CNT = 20"

definition MAP_W :: f32 where "MAP_W = f_of_int (SECTOR_WORLD_W * SECTOR_COL_CNT)"
definition MAP_H :: f32 where "MAP_H = f_of_int (SECTOR_WORLD_H * SECTOR_ROW_CNT)"

datatype sector = Sector (secX: int) (secY: int)

datatype position = Position (posX: f32) (posY: f32)

text \<open>\<open>Sector::operator<\<close>, the key order of the \<open>std::map\<close>s over sectors.\<close>

instantiation sector :: linorder
begin

definition less_sector :: "sector \<Rightarrow> sector \<Rightarrow> bool" where
  "less_sector a b \<longleftrightarrow> (if secX a = secX b then secY a < secY b else secX a < secX b)"

definition less_eq_sector :: "sector \<Rightarrow> sector \<Rightarrow> bool" where
  "less_eq_sector a b \<longleftrightarrow> a = b \<or> a < b"

instance
proof
  fix a b c :: sector
  show "a < b \<longleftrightarrow> a \<le> b \<and> \<not> b \<le> a"
    by (auto simp: less_sector_def less_eq_sector_def split: if_splits)
  show "a \<le> a" by (simp add: less_eq_sector_def)
  show "a \<le> b \<Longrightarrow> b \<le> c \<Longrightarrow> a \<le> c"
    by (auto simp: less_sector_def less_eq_sector_def split: if_splits)
  show "a \<le> b \<Longrightarrow> b \<le> a \<Longrightarrow> a = b"
    by (auto simp: less_sector_def less_eq_sector_def split: if_splits)
  show "a \<le> b \<or> b \<le> a"
    by (cases a; cases b) (auto simp: less_sector_def less_eq_sector_def split: if_splits)
qed

end

text \<open>\<open>Position::operator-\<close>: the distance, in single precision.\<close>

definition pos_dist :: "position \<Rightarrow> position \<Rightarrow> f32" where
  "pos_dist a b = f_sqrt (f_add
      (f_mul (f_sub (posX a) (posX b)) (f_sub (posX a) (posX b)))
      (f_mul (f_sub (posY a) (posY b)) (f_sub (posY a) (posY b))))"

subsection \<open>AttackConfig.h\<close>

definition PLAYER_HIT_STUN_FRAME :: int where "PLAYER_HIT_STUN_FRAME = 30"
definition PLAYER_ATTACK_TOTAL_FRAME :: int where "PLAYER_ATTACK_TOTAL_FRAME = 30"
definition MONSTER_HIT_STUN_FRAME :: int where "MONSTER_HIT_STUN_FRAME = 50"
definition MONSTER_ATTACK_TOTAL_FRAME :: int where "MONSTER_ATTACK_TOTAL_FRAME = 80"
definition ALLOW_DELAY_FRAME :: int where "ALLOW_DELAY_FRAME = 25"
definition PLAYER_ATTACK_AWINDUP_FRAME :: int where "PLAYER_ATTACK_AWINDUP_FRAME = 8"
definition PLAYER_ATTACK_DAMAGE :: int where "PLAYER_ATTACK_DAMAGE = 35"
definition MONSTER_ATTACK_WINDUP_FRAME :: int where "MONSTER_ATTACK_WINDUP_FRAME = 20"
definition MONSTER_ATTACK_DAMAGE :: int where "MONSTER_ATTACK_DAMAGE = 10"
definition PLAYER_MAX_HP :: int where "PLAYER_MAX_HP = 100"
definition PLAYER_ATTACK_KNOCKBACK_DIST :: f32 where "PLAYER_ATTACK_KNOCKBACK_DIST = f_lit 100 1"
definition MONSTER_ATTACK_KNOCKBACK_DIST :: f32 where "MONSTER_ATTACK_KNOCKBACK_DIST = f_lit 50 1"
definition MONSTER_ATTACK_RANGE :: f32 where "MONSTER_ATTACK_RANGE = f_lit 50 1"
definition LOOT_RANGE :: f32 where "LOOT_RANGE = f_lit 50 1"

lemmas frame_defs = PLAYER_HIT_STUN_FRAME_def PLAYER_ATTACK_TOTAL_FRAME_def
  MONSTER_HIT_STUN_FRAME_def MONSTER_ATTACK_TOTAL_FRAME_def ALLOW_DELAY_FRAME_def
  PLAYER_ATTACK_AWINDUP_FRAME_def PLAYER_ATTACK_DAMAGE_def MONSTER_ATTACK_WINDUP_FRAME_def
  MONSTER_ATTACK_DAMAGE_def PLAYER_MAX_HP_def

definition getSkillConfig :: "int \<Rightarrow> (f32 \<times> int) option" where
  "getSkillConfig skillId = (if skillId = 0 then Some (f_of_int 160, 1) else None)"

definition isInAttackRange :: "f32 \<Rightarrow> f32 \<Rightarrow> f32 \<Rightarrow> f32 \<Rightarrow> f32 \<Rightarrow> bool" where
  "isInAttackRange attackerX attackerY targetX targetY rangeLen =
     f_le (pos_dist (Position attackerX attackerY) (Position targetX targetY)) rangeLen"

text \<open>The loop over the direction table: the first direction of the largest dot product.\<close>

fun bestDirection :: "f32 \<Rightarrow> f32 \<Rightarrow> (f32 \<times> f32) list \<Rightarrow> int \<Rightarrow> f32 \<Rightarrow> eDirection \<Rightarrow> eDirection" where
  "bestDirection dx dy [] i bestDot best = best"
| "bestDirection dx dy (v # vs) i bestDot best =
     (let dot = f_add (f_mul dx (fst v)) (f_mul dy (snd v))
      in if f_lt bestDot dot then bestDirection dx dy vs (i + 1) dot i
         else bestDirection dx dy vs (i + 1) bestDot best)"

definition getDirectionTo :: "f32 \<Rightarrow> f32 \<Rightarrow> f32 \<Rightarrow> f32 \<Rightarrow> eDirection" where
  "getDirectionTo fromX fromY toX toY =
     (let dx = f_sub toX fromX; dy = f_sub toY fromY;
          len = f_sqrt (f_add (f_mul dx dx) (f_mul dy dy))
      in if f_lt len (f_lit 1 10000) then DirDown
         else bestDirection (f_div dx len) (f_div dy len) kDirectionVectorTable 0 (f_lit (- 2) 1) DirDown)"

subsection \<open>Random numbers\<close>

text \<open>
  \<open>rand()\<close> of the C library: the model takes the sequence of its results as given; the library
  promises \<open>0 .. RAND_MAX\<close> with \<open>RAND_MAX = 32767\<close>.
\<close>

type_synonym rng = "nat \<Rightarrow> int"

definition rand :: "rng \<Rightarrow> int \<times> rng" where
  "rand s = (s 0, \<lambda>n. s (Suc n))"

definition rng_ok :: "rng \<Rightarrow> bool" where
  "rng_ok s \<longleftrightarrow> (\<forall>n. 0 \<le> s n \<and> s n \<le> 32767)"

lemma rand_range: "rng_ok s \<Longrightarrow> rand s = (v, s') \<Longrightarrow> 0 \<le> v \<and> v \<le> 32767 \<and> rng_ok s'"
  by (auto simp: rand_def rng_ok_def)

subsection \<open>Laws\<close>

lemma bestDirection_range:
  "\<lbrakk>0 \<le> i; dir_ok best; i + int (length vs) \<le> 8\<rbrakk> \<Longrightarrow> dir_ok (bestDirection dx dy vs i bd best)"
proof (induction vs arbitrary: i bd best)
  case (Cons v vs)
  then have "dir_ok i" by (simp add: dir_ok_def)
  with Cons show ?case by (simp add: Let_def)
qed simp

text \<open>Whatever the coordinates, NaNs included, the direction computed is one of the eight.\<close>

lemma length_kDirectionVectorTable: "length kDirectionVectorTable = 8"
  by (simp add: kDirectionVectorTable_def)

lemma getDirectionTo_ok [simp]: "dir_ok (getDirectionTo a b c d)"
  using bestDirection_range [of 0 DirDown kDirectionVectorTable]
  by (simp add: getDirectionTo_def Let_def dir_ok_def length_kDirectionVectorTable)

lemma dirVector_ok: "dir_ok d \<Longrightarrow> \<exists>v \<in> set kDirectionVectorTable. dirVector d = Inr v"
  using nth_mem [of "nat d" kDirectionVectorTable]
  by (auto simp: dirVector_def dir_ok_def length_kDirectionVectorTable)

lemma dirVector_bad: "\<not> dir_ok d \<Longrightarrow> dirVector d = Inl UndefinedBehaviour"
  by (simp add: dirVector_def)

subsection \<open>The map\<close>

definition in_map :: "position \<Rightarrow> bool" where
  "in_map p \<longleftrightarrow> f_le (f_lit 0 1) (posX p) \<and> f_le (posX p) MAP_W \<and>
     f_le (f_lit 0 1) (posY p) \<and> f_le (posY p) MAP_H"

text \<open>A position along a direction, and a position pushed along one, both clamped to the map.\<close>

definition moveTo :: "position \<Rightarrow> f32 \<times> f32 \<Rightarrow> f32 \<Rightarrow> int \<Rightarrow> position" where
  "moveTo start v speed frame =
     Position
       (f_clamp (f_add (posX start) (f_mul (f_mul (fst v) speed) (f_of_int frame))) (f_lit 0 1) MAP_W)
       (f_clamp (f_add (posY start) (f_mul (f_mul (snd v) speed) (f_of_int frame))) (f_lit 0 1) MAP_H)"

definition knockback :: "position \<Rightarrow> f32 \<times> f32 \<Rightarrow> f32 \<Rightarrow> position" where
  "knockback p facing dist =
     Position (f_clamp (f_add (posX p) (f_mul (fst facing) dist)) (f_lit 0 1) MAP_W)
              (f_clamp (f_add (posY p) (f_mul (snd facing) dist)) (f_lit 0 1) MAP_H)"

lemma map_facts:
  "f_le (f_lit 0 1) MAP_W" "f_le (f_lit 0 1) MAP_H" "f_mag MAP_W = 1170735104" "f_mag MAP_H = 1167253504"
  "key (f_lit 0 1) = 0"
  by code_simp+

lemma in_map_fin:
  assumes "in_map p"
  shows "f_fin (posX p) \<and> f_fin (posY p)"
  using assms f_le_mag [of "f_lit 0 1" "posX p" MAP_W] f_le_mag [of "f_lit 0 1" "posY p" MAP_H]
  by (auto simp: in_map_def f_fin_def map_facts)

lemma clamp_in_map:
  "\<not> f_nan x \<Longrightarrow> \<not> f_nan y \<Longrightarrow>
   in_map (Position (f_clamp x (f_lit 0 1) MAP_W) (f_clamp y (f_lit 0 1) MAP_H))"
  using f_clamp_bounds [OF map_facts(1), of x] f_clamp_bounds [OF map_facts(2), of y]
  by (simp add: in_map_def)

lemma frame_fin: "- (2 ^ 31) \<le> n \<Longrightarrow> n < 2 ^ 31 \<Longrightarrow> f_fin (f_of_int n)"
  by (rule f_of_int_fin) simp

lemma moveTo_in_map:
  assumes "in_map s" "f_fin (f_mul (fst v) sp)" "f_fin (f_mul (snd v) sp)" "- (2 ^ 31) \<le> n" "n < 2 ^ 31"
  shows "in_map (moveTo s v sp n)"
  using assms in_map_fin [OF assms(1)] frame_fin [OF assms(4,5)]
  by (simp add: moveTo_def clamp_in_map f_add_not_nan f_mul_not_nan)

lemma knockback_in_map:
  assumes "in_map s" "f_fin (fst v)" "f_fin (snd v)" "f_fin d"
  shows "in_map (knockback s v d)"
  using assms in_map_fin [OF assms(1)]
  by (simp add: knockback_def clamp_in_map f_add_not_nan f_mul_not_nan)

text \<open>The two speeds of the game times a unit vector.\<close>

lemma speed_fin_all:
  "\<forall>v \<in> set kDirectionVectorTable. f_fin (fst v) \<and> f_fin (snd v) \<and>
     f_fin (f_mul (fst v) (f_lit 3 1)) \<and> f_fin (f_mul (snd v) (f_lit 3 1)) \<and>
     f_fin (f_mul (fst v) (f_lit 45 10)) \<and> f_fin (f_mul (snd v) (f_lit 45 10))"
  by code_simp

lemma dirVector_cases:
  assumes "dir_ok d"
  obtains v where "dirVector d = Inr v" "f_fin (fst v)" "f_fin (snd v)"
    "f_fin (f_mul (fst v) (f_lit 3 1))" "f_fin (f_mul (snd v) (f_lit 3 1))"
    "f_fin (f_mul (fst v) (f_lit 45 10))" "f_fin (f_mul (snd v) (f_lit 45 10))"
  using dirVector_ok [OF assms] speed_fin_all by (metis (no_types, lifting))

text \<open>The distance of two places of the map is a number.\<close>

lemma pos_dist_not_nan: "in_map p \<Longrightarrow> in_map q \<Longrightarrow> \<not> f_nan (pos_dist p q)"
  using in_map_fin [of p] in_map_fin [of q]
  by (simp add: pos_dist_def Let_def f_sqrt_not_nan f_add_nonneg f_square f_sub_not_nan)

end
