(* ===== verification/MyRingBuffer.thy ===== *)
theory MyRingBuffer
  imports Bytes
begin

text \<open>
  The byte ring of the network library (\<open>utility/MyRingBuffer.cpp\<close>): every session receives
  into one, and the server threads pass pointers to each other through them. Pointers into the array
  are offsets from \<open>mBegin\<close>. The theory also states the contract the clients rely on, a queue
  of bytes, as a locale, and shows that the code meets it.
\<close>

subsection \<open>State\<close>

definition RINGBUFFER_SIZE :: nat where "RINGBUFFER_SIZE = 30000"

record ring =
  rgBuffer :: "byte list"
  rgFront :: nat
  rgRear :: nat
  rgFail :: byte

definition BufferFull :: byte where "BufferFull = 2"
definition BufferEmpty :: byte where "BufferEmpty = 4"
definition BufferPeekEmpty :: byte where "BufferPeekEmpty = 8"
definition ArgmentSizeInvalid :: byte where "ArgmentSizeInvalid = 16"

definition ring_init :: ring where
  "ring_init = \<lparr> rgBuffer = replicate RINGBUFFER_SIZE 0, rgFront = 0, rgRear = 0, rgFail = 0 \<rparr>"

definition setFail :: "byte \<Rightarrow> ring \<Rightarrow> ring" where
  "setFail b q = q\<lparr>rgFail := or (rgFail q) b\<rparr>"

definition RINGBUFFER_ASSERT :: "ring \<Rightarrow> ring res" where
  "RINGBUFFER_ASSERT q = (if rgFail q \<noteq> 0 then Inl DebugBreak else Inr q)"

subsection \<open>Sizes\<close>

definition GetDirectFreeSize :: "nat \<Rightarrow> nat \<Rightarrow> int" where
  "GetDirectFreeSize f r =
     (if f \<le> r then if f = 0 then int RINGBUFFER_SIZE - int r - 1 else int RINGBUFFER_SIZE - int r
      else int f - int r - 1)"

definition GetDirectUseSize :: "nat \<Rightarrow> nat \<Rightarrow> int" where
  "GetDirectUseSize f r = (if f \<le> r then int r - int f else int RINGBUFFER_SIZE - int f)"

definition GetFreeSize :: "nat \<Rightarrow> nat \<Rightarrow> int" where
  "GetFreeSize f r =
     (if f \<le> r then int RINGBUFFER_SIZE - int r + (int f - 1) else int f - int r - 1)"

definition GetUseSize :: "nat \<Rightarrow> nat \<Rightarrow> int" where
  "GetUseSize f r =
     (if f \<le> r then int r - int f else (int RINGBUFFER_SIZE - int f) + int r)"

subsection \<open>Moving the ends\<close>

definition MoveFront :: "int \<Rightarrow> ring \<Rightarrow> ring" where
  "MoveFront move q =
     (if rgFail q \<noteq> 0 then q
      else if move < 0 then setFail ArgmentSizeInvalid q
      else let f = rgFront q + nat move
           in if RINGBUFFER_SIZE \<le> f then q\<lparr>rgFront := f - RINGBUFFER_SIZE\<rparr>
              else q\<lparr>rgFront := f\<rparr>)"

definition MoveRear :: "int \<Rightarrow> ring \<Rightarrow> ring res" where
  "MoveRear move q =
     bindR (RINGBUFFER_ASSERT q) (\<lambda>q.
       if move < 0 then Inr (setFail ArgmentSizeInvalid q)
       else let r = rgRear q + nat move
            in if RINGBUFFER_SIZE \<le> r then Inr (q\<lparr>rgRear := r - RINGBUFFER_SIZE\<rparr>)
               else Inr (q\<lparr>rgRear := r\<rparr>))"

subsection \<open>Copying\<close>

text \<open>The copy loops, byte by byte: a read or write beyond \<open>mEnd\<close> is undefined.\<close>

fun copyIn :: "byte list \<Rightarrow> nat \<Rightarrow> byte list \<Rightarrow> byte list res" where
  "copyIn buf r [] = Inr buf"
| "copyIn buf r (x # xs) =
     (if r < length buf then copyIn (buf[r := x]) (Suc r) xs else Inl UndefinedBehaviour)"

fun copyOut :: "byte list \<Rightarrow> nat \<Rightarrow> nat \<Rightarrow> byte list res" where
  "copyOut buf f 0 = Inr []"
| "copyOut buf f (Suc n) =
     (if f < length buf then bindR (copyOut buf (Suc f) n) (\<lambda>xs. Inr (buf ! f # xs))
      else Inl UndefinedBehaviour)"

text \<open>The loops of \<open>Peek\<close> and \<open>Dequeue\<close>: up to the end of the array, then from its start.\<close>

definition copyFront :: "byte list \<Rightarrow> nat \<Rightarrow> int \<Rightarrow> int \<Rightarrow> byte list res" where
  "copyFront buf f directUseSize n =
     (if n \<le> directUseSize then copyOut buf f (nat n)
      else bindR (copyOut buf f (nat directUseSize)) (\<lambda>xs.
           bindR (copyOut buf 0 (nat (n - directUseSize))) (\<lambda>ys. Inr (xs @ ys))))"

text \<open>\<open>Peek\<close> returns what it copied, or \<open>None\<close> when it leaves the destination alone.\<close>

definition Peek :: "int \<Rightarrow> ring \<Rightarrow> (byte list option \<times> ring) res" where
  "Peek n q =
     (if n < 0 then bindR (RINGBUFFER_ASSERT (setFail ArgmentSizeInvalid q)) (\<lambda>q. Inr (None, q))
      else
        let f = rgFront q; r = rgRear q; useSize = GetUseSize f r;
            directUseSize = GetDirectUseSize f r
        in if useSize < n then Inr (None, setFail BufferEmpty q)
           else bindR (copyFront (rgBuffer q) f directUseSize n) (\<lambda>xs. Inr (Some xs, q)))"

text \<open>\<open>src\<close> is the memory behind \<open>Src\<close>; the caller vouches for \<open>size\<close> bytes of it.\<close>

definition Enqueue :: "byte list \<Rightarrow> int \<Rightarrow> ring \<Rightarrow> ring res" where
  "Enqueue src n q =
     (if n < 0 then Inr (setFail ArgmentSizeInvalid q)
      else
        let f = rgFront q; r = rgRear q; freeSize = GetFreeSize f r
        in if freeSize < n then RINGBUFFER_ASSERT (setFail BufferFull q)
           else if int (length src) < n then Inl UndefinedBehaviour
           else let directFreeSize = GetDirectFreeSize f r
                in bindR
                     (if n \<le> directFreeSize then copyIn (rgBuffer q) r (take (nat n) src)
                      else bindR (copyIn (rgBuffer q) r (take (nat directFreeSize) src)) (\<lambda>buf.
                           copyIn buf 0 (take (nat (n - directFreeSize)) (drop (nat directFreeSize) src))))
                     (\<lambda>buf. MoveRear n (q\<lparr>rgBuffer := buf\<rparr>)))"

definition Dequeue :: "int \<Rightarrow> ring \<Rightarrow> (byte list \<times> ring) res" where
  "Dequeue n q =
     (if n < 0 then bindR (RINGBUFFER_ASSERT (setFail ArgmentSizeInvalid q)) (\<lambda>q. Inr ([], q))
      else
        let f = rgFront q; r = rgRear q; useSize = GetUseSize f r
        in if useSize < n then bindR (RINGBUFFER_ASSERT (setFail BufferEmpty q)) (\<lambda>q. Inr ([], q))
           else let directUseSize = GetDirectUseSize f r
                in bindR (copyFront (rgBuffer q) f directUseSize n) (\<lambda>out.
                     Inr (out, MoveFront n q)))"

definition ClearBuffer :: "ring \<Rightarrow> ring" where
  "ClearBuffer q = q\<lparr>rgFront := 0, rgRear := 0, rgFail := 0\<rparr>"

subsection \<open>Invariant and abstraction\<close>

definition ring_wf :: "ring \<Rightarrow> bool" where
  "ring_wf q \<longleftrightarrow> length (rgBuffer q) = RINGBUFFER_SIZE \<and> rgFront q < RINGBUFFER_SIZE \<and>
     rgRear q < RINGBUFFER_SIZE \<and> rgFail q = 0"

text \<open>The bytes the ring holds, oldest first.\<close>

definition content :: "ring \<Rightarrow> byte list" where
  "content q =
     (if rgFront q \<le> rgRear q then take (rgRear q - rgFront q) (drop (rgFront q) (rgBuffer q))
      else drop (rgFront q) (rgBuffer q) @ take (rgRear q) (rgBuffer q))"

definition capacity :: nat where "capacity = RINGBUFFER_SIZE - 1"

lemma SIZE_pos: "0 < RINGBUFFER_SIZE"
  by (simp add: RINGBUFFER_SIZE_def)

lemma ring_init_wf [simp]: "ring_wf ring_init"
  by (simp add: ring_wf_def ring_init_def RINGBUFFER_SIZE_def)

lemma content_init [simp]: "content ring_init = []"
  by (simp add: content_def ring_init_def)

lemma ClearBuffer_wf: "length (rgBuffer q) = RINGBUFFER_SIZE \<Longrightarrow> ring_wf (ClearBuffer q)"
  by (simp add: ring_wf_def ClearBuffer_def RINGBUFFER_SIZE_def)

lemma content_ClearBuffer [simp]: "content (ClearBuffer q) = []"
  by (simp add: content_def ClearBuffer_def)

lemma useSize_content: "ring_wf q \<Longrightarrow> GetUseSize (rgFront q) (rgRear q) = int (length (content q))"
  by (auto simp: GetUseSize_def content_def ring_wf_def)

lemma freeSize_content:
  "ring_wf q \<Longrightarrow> GetFreeSize (rgFront q) (rgRear q) = int capacity - int (length (content q))"
  by (auto simp: GetFreeSize_def content_def ring_wf_def capacity_def)

lemma content_length_le: "ring_wf q \<Longrightarrow> length (content q) \<le> capacity"
  by (auto simp: content_def ring_wf_def capacity_def)

subsection \<open>The copy loops\<close>

lemma copyOut_eq: "f + n \<le> length buf \<Longrightarrow> copyOut buf f n = Inr (take n (drop f buf))"
proof (induction n arbitrary: f)
  case (Suc n)
  then have "copyOut buf (Suc f) n = Inr (take n (drop (Suc f) buf))" by simp
  then show ?case using Suc.prems by (simp add: Cons_nth_drop_Suc [symmetric, of f buf])
qed simp

lemma copyIn_eq:
  "r + length xs \<le> length buf \<Longrightarrow>
   copyIn buf r xs = Inr (take r buf @ xs @ drop (r + length xs) buf)"
proof (induction xs arbitrary: buf r)
  case (Cons x xs)
  then have "r < length buf" by simp
  then show ?case using Cons
    by (simp add: take_Suc_conv_app_nth nth_append take_update_swap drop_update_cancel
      upd_conv_take_nth_drop add.commute)
qed simp

subsection \<open>Refinement\<close>

text \<open>
  What a write of \<open>xs\<close> at the rear makes of the content: without wrap-around, up to the end of
  the array, around it, and before the front.
\<close>

lemma content_linear:
  assumes "length b = S" "f \<le> r" "r + length xs < S"
  shows "take (r + length xs - f) (drop f (take r b @ xs @ drop (r + length xs) b)) =
         take (r - f) (drop f b) @ xs"
  using assms by (simp add: drop_take)

lemma content_to_end:
  assumes "length b = S" "f \<le> r" "r + length xs = S"
  shows "drop f (take r b @ xs @ drop (r + length xs) b) = take (r - f) (drop f b) @ xs"
  using assms by (simp add: drop_take)

lemma content_around:
  assumes "length b = S" "f \<le> r" "r \<le> S" "S - r < length xs" "length xs - (S - r) < f"
  defines "d \<equiv> S - r"
  shows "drop f (drop d xs @ drop (length xs - d) (take r b @ take d xs)) @
         take (length xs - d) (drop d xs @ drop (length xs - d) (take r b @ take d xs)) =
         take (r - f) (drop f b) @ xs"
proof -
  have "drop f (drop d xs @ drop (length xs - d) (take r b @ take d xs)) = drop f (take r b) @ take d xs"
    using assms by simp
  then show ?thesis using assms by (simp add: drop_take)
qed

lemma content_wrapped:
  assumes "length b = S" "r < f" "f < S" "r + length xs < f"
  shows "drop f (take r b @ xs @ drop (r + length xs) b) @
         take (r + length xs) (take r b @ xs @ drop (r + length xs) b) =
         (drop f b @ take r b) @ xs"
  using assms by simp

text \<open>The queue laws: what the operations do to the content of a well-formed ring.\<close>

lemma Enqueue_content:
  assumes wf: "ring_wf q" and room: "length (content q) + length xs \<le> capacity"
  shows "\<exists>q'. Enqueue xs (int (length xs)) q = Inr q' \<and> ring_wf q' \<and> content q' = content q @ xs"
proof -
  define b where "b = rgBuffer q"
  define f where "f = rgFront q"
  define r where "r = rgRear q"
  define n where "n = length xs"
  define S where "S = RINGBUFFER_SIZE"
  have lb: "length b = S" and fr: "f < S" "r < S" and nf: "rgFail q = 0"
    using wf by (simp_all add: ring_wf_def b_def f_def r_def S_def)
  have free: "int n \<le> GetFreeSize f r"
    using room freeSize_content [OF wf] by (simp add: f_def r_def n_def)
  have start: "Enqueue xs (int n) q = bindR
       (if int n \<le> GetDirectFreeSize f r then copyIn b r xs
        else bindR (copyIn b r (take (nat (GetDirectFreeSize f r)) xs)) (\<lambda>buf.
             copyIn buf 0 (take (nat (int n - GetDirectFreeSize f r)) (drop (nat (GetDirectFreeSize f r)) xs))))
       (\<lambda>buf. MoveRear (int n) (q\<lparr>rgBuffer := buf\<rparr>))"
    using free by (simp add: Enqueue_def Let_def f_def [symmetric] r_def [symmetric] b_def [symmetric] n_def)
  have mv: "MoveRear (int n) (q\<lparr>rgBuffer := buf\<rparr>) =
      Inr (q\<lparr>rgBuffer := buf, rgRear := (if S \<le> r + n then r + n - S else r + n)\<rparr>)" for buf
    using nf by (simp add: MoveRear_def RINGBUFFER_ASSERT_def r_def S_def)
  have q: "content q = (if f \<le> r then take (r - f) (drop f b) else drop f b @ take r b)"
    by (simp add: content_def b_def f_def r_def)
  have fin: "\<exists>q'. Enqueue xs (int n) q = Inr q' \<and> ring_wf q' \<and> content q' = content q @ xs"
    if "Enqueue xs (int n) q = Inr (q\<lparr>rgBuffer := buf, rgRear := r'\<rparr>)" "length buf = S" "r' < S"
      "(if f \<le> r' then take (r' - f) (drop f buf) else drop f buf @ take r' buf) = content q @ xs"
    for buf r'
  proof (intro exI conjI)
    have "content (q\<lparr>rgBuffer := buf, rgRear := r'\<rparr>) =
        (if f \<le> r' then take (r' - f) (drop f buf) else drop f buf @ take r' buf)"
      by (simp add: content_def f_def)
    then show "content (q\<lparr>rgBuffer := buf, rgRear := r'\<rparr>) = content q @ xs" using that(4) by simp
    show "ring_wf (q\<lparr>rgBuffer := buf, rgRear := r'\<rparr>)"
      using that nf fr by (simp add: ring_wf_def f_def [symmetric] S_def)
  qed (fact that(1))
  have direct: "Enqueue xs (int n) q = Inr (q\<lparr>rgBuffer := take r b @ xs @ drop (r + n) b,
      rgRear := (if S \<le> r + n then r + n - S else r + n)\<rparr>)"
    if "int n \<le> GetDirectFreeSize f r" "r + n \<le> S"
    using that copyIn_eq [of r xs b] lb by (simp add: start mv n_def [symmetric])
  consider (lin) "f \<le> r" "r + n < S" | (toend) "f \<le> r" "r + n = S" "0 < f"
    | (around) "f \<le> r" "S < r + n" "n - (S - r) < f" "0 < f" | (wrapped) "r < f" "r + n < f"
    using free fr by (fastforce simp: GetFreeSize_def S_def split: if_splits)
  then have "\<exists>q'. Enqueue xs (int n) q = Inr q' \<and> ring_wf q' \<and> content q' = content q @ xs"
  proof cases
    case lin
    then have "int n \<le> GetDirectFreeSize f r" by (simp add: GetDirectFreeSize_def S_def)
    then show ?thesis
      using lin lb content_linear [OF lb lin(1), of xs] q direct
      by (intro fin [where buf = "take r b @ xs @ drop (r + n) b" and r' = "r + n"])
        (simp_all add: n_def [symmetric])
  next
    case toend
    then have "int n \<le> GetDirectFreeSize f r" by (simp add: GetDirectFreeSize_def S_def)
    then show ?thesis
      using toend lb content_to_end [OF lb toend(1), of xs] q fr direct
      by (intro fin [where buf = "take r b @ xs @ drop (r + n) b" and r' = 0])
        (simp_all add: n_def [symmetric])
  next
    case around
    define d where "d = S - r"
    from around have d: "GetDirectFreeSize f r = int d" "\<not> n \<le> d" "r + d = S" "d \<le> n" "n - d \<le> S"
      using fr by (simp_all add: GetDirectFreeSize_def S_def d_def)
    have c1: "copyIn b r (take d xs) = Inr (take r b @ take d xs)"
      using copyIn_eq [of r "take d xs" b] lb d by (simp add: n_def min_absorb2)
    have c2: "copyIn (take r b @ take d xs) 0 (drop d xs) = Inr (drop d xs @ drop (n - d) (take r b @ take d xs))"
      using copyIn_eq [of 0 "drop d xs" "take r b @ take d xs"] lb fr d by (simp add: n_def)
    have rear: "(if S \<le> r + n then r + n - S else r + n) = n - d" using d(2,3) by simp
    have nn: "take (n - d) (drop d xs) = drop d xs" by (simp add: n_def)
    have en: "Enqueue xs (int n) q = Inr (q\<lparr>rgBuffer := drop d xs @
        drop (n - d) (take r b @ take d xs), rgRear := n - d\<rparr>)"
      using d(2) c1 c2 by (simp add: start d(1) mv rear nn nat_diff_distrib del: take_append drop_append)
    show ?thesis
      using around lb fr content_around [of b S f r xs] q d
      by (intro fin [OF en]) (simp_all add: n_def d_def)
  next
    case wrapped
    then have "int n \<le> GetDirectFreeSize f r" by (simp add: GetDirectFreeSize_def)
    then show ?thesis
      using wrapped lb fr content_wrapped [of b S r f xs] q direct
      by (intro fin [where buf = "take r b @ xs @ drop (r + n) b" and r' = "r + n"])
        (simp_all add: n_def [symmetric])
  qed
  then show ?thesis by (simp add: n_def)
qed

lemma drop_content:
  assumes "ring_wf q" "n \<le> length (content q)"
  shows "content (MoveFront (int n) q) = drop n (content q) \<and> ring_wf (MoveFront (int n) q)"
proof -
  define b where "b = rgBuffer q"
  define f where "f = rgFront q"
  define r where "r = rgRear q"
  define S where "S = RINGBUFFER_SIZE"
  have lb: "length b = S" and fr: "f < S" "r < S" and nf: "rgFail q = 0"
    using assms(1) by (simp_all add: ring_wf_def b_def f_def r_def S_def)
  have q: "content q = (if f \<le> r then take (r - f) (drop f b) else drop f b @ take r b)"
    by (simp add: content_def b_def f_def r_def)
  define f' where "f' = (if S \<le> f + n then f + n - S else f + n)"
  have mv: "MoveFront (int n) q = q\<lparr>rgFront := f'\<rparr>"
    using nf by (simp add: MoveFront_def f_def f'_def S_def)
  have c: "content (q\<lparr>rgFront := f'\<rparr>) =
      (if f' \<le> r then take (r - f') (drop f' b) else drop f' b @ take r b)"
    by (simp add: content_def b_def r_def)
  consider (lin) "f \<le> r" "f + n \<le> r" | (around) "r < f" "S \<le> f + n" "f + n - S \<le> r"
    | (wrapped) "r < f" "f + n < S"
    using assms(2) fr by (fastforce simp: q lb split: if_splits)
  then have "(if f' \<le> r then take (r - f') (drop f' b) else drop f' b @ take r b) = drop n (content q)"
  proof cases
    case lin
    then show ?thesis using fr lb by (simp add: q f'_def drop_take add.commute)
  next
    case around
    moreover from around have "drop n (drop f b) = []" and "n - (S - f) = f + n - S" using lb fr by simp_all
    ultimately show ?thesis using fr lb by (simp add: q f'_def drop_take)
  next
    case wrapped
    then show ?thesis using lb by (simp add: q f'_def add.commute)
  qed
  moreover have "f' < S" using assms(2) fr by (auto simp: f'_def q lb split: if_splits)
  ultimately show ?thesis using assms(1) mv c by (simp add: ring_wf_def S_def)
qed

lemma take_content:
  assumes wf: "ring_wf q" and n: "n \<le> length (content q)"
  shows "copyFront (rgBuffer q) (rgFront q) (GetDirectUseSize (rgFront q) (rgRear q)) (int n) =
         Inr (take n (content q))"
proof (cases "rgFront q \<le> rgRear q")
  case True
  then have "n \<le> rgRear q - rgFront q" using n by (simp add: content_def)
  then show ?thesis using True wf
    by (simp add: content_def ring_wf_def GetDirectUseSize_def copyFront_def copyOut_eq min_absorb1 of_nat_diff)
next
  case False
  define f where "f = rgFront q"
  define S where "S = RINGBUFFER_SIZE"
  have d: "GetDirectUseSize f (rgRear q) = int (S - f)" and f: "f < S"
    using False wf by (simp_all add: GetDirectUseSize_def f_def S_def ring_wf_def)
  have nd: "nat (int n - (int S - int f)) = n + f - S" using f by simp
  have l: "length (rgBuffer q) = S" using wf by (simp add: ring_wf_def S_def)
  show ?thesis using False f n l wf
    by (simp add: content_def copyFront_def d nd f_def [symmetric] copyOut_eq ring_wf_def
        S_def [symmetric] min_absorb1)
qed

lemma Dequeue_content:
  assumes wf: "ring_wf q" and n: "n \<le> length (content q)"
  shows "\<exists>q'. Dequeue (int n) q = Inr (take n (content q), q') \<and> ring_wf q' \<and>
    content q' = drop n (content q)"
  using take_content [OF assms] drop_content [OF assms] useSize_content [OF wf] n
  by (simp add: Dequeue_def Let_def)

lemma Peek_content:
  assumes wf: "ring_wf q" and n: "n \<le> length (content q)"
  shows "Peek (int n) q = Inr (Some (take n (content q)), q)"
  using take_content [OF assms] useSize_content [OF wf] n
  by (simp add: Peek_def Let_def)

lemma Enqueue_full:
  assumes "ring_wf q" "capacity < length (content q) + length xs"
  shows "Enqueue xs (int (length xs)) q = Inl DebugBreak"
  using assms freeSize_content [OF assms(1)]
  by (auto simp: Enqueue_def RINGBUFFER_ASSERT_def setFail_def BufferFull_def ring_wf_def)

lemma Dequeue_short:
  assumes "ring_wf q" "length (content q) < n"
  shows "Dequeue (int n) q = Inl DebugBreak"
  using assms useSize_content [OF assms(1)]
  by (auto simp: Dequeue_def RINGBUFFER_ASSERT_def setFail_def BufferEmpty_def ring_wf_def)

subsection \<open>The queue contract\<close>

text \<open>
  What the clients of the ring rely on: a queue of bytes of a fixed capacity. The ring of the server also
  stops the process when it is asked for more room or more bytes than it has; the game client's does not.
\<close>

locale byte_fifo =
  fixes wf :: "'q \<Rightarrow> bool" and items :: "'q \<Rightarrow> byte list" and cap :: nat
    and enq :: "byte list \<Rightarrow> int \<Rightarrow> 'q \<Rightarrow> 'q res"
    and deq :: "int \<Rightarrow> 'q \<Rightarrow> (byte list \<times> 'q) res"
  assumes enq_ok: "wf q \<Longrightarrow> length (items q) + length xs \<le> cap \<Longrightarrow>
      \<exists>q'. enq xs (int (length xs)) q = Inr q' \<and> wf q' \<and> items q' = items q @ xs"
    and deq_ok: "wf q \<Longrightarrow> n \<le> length (items q) \<Longrightarrow>
      \<exists>q'. deq (int n) q = Inr (take n (items q), q') \<and> wf q' \<and> items q' = drop n (items q)"

locale byte_queue = byte_fifo +
  assumes enq_full: "wf q \<Longrightarrow> cap < length (items q) + length xs \<Longrightarrow>
      enq xs (int (length xs)) q = Inl DebugBreak"
    and deq_short: "wf q \<Longrightarrow> length (items q) < n \<Longrightarrow> deq (int n) q = Inl DebugBreak"

text \<open>A history of calls, run on an implementation and on the plain list of bytes.\<close>

datatype qop = Enq "byte list" | Deq nat

fun q_step :: "(byte list \<Rightarrow> int \<Rightarrow> 'q \<Rightarrow> 'q res) \<Rightarrow> (int \<Rightarrow> 'q \<Rightarrow> (byte list \<times> 'q) res) \<Rightarrow>
    qop \<Rightarrow> 'q \<Rightarrow> (byte list \<times> 'q) res" where
  "q_step e d (Enq xs) q = bindR (e xs (int (length xs)) q) (\<lambda>q. Inr ([], q))"
| "q_step e d (Deq n) q = d (int n) q"

fun spec_step :: "nat \<Rightarrow> qop \<Rightarrow> byte list \<Rightarrow> (byte list \<times> byte list) res" where
  "spec_step c (Enq xs) l = (if length l + length xs \<le> c then Inr ([], l @ xs) else Inl DebugBreak)"
| "spec_step c (Deq n) l = (if n \<le> length l then Inr (take n l, drop n l) else Inl DebugBreak)"

text \<open>The bytes a history of calls returns, and the state it ends in.\<close>

fun run_ops :: "(qop \<Rightarrow> 'q \<Rightarrow> (byte list \<times> 'q) res) \<Rightarrow> qop list \<Rightarrow> 'q \<Rightarrow> (byte list \<times> 'q) res" where
  "run_ops f [] q = Inr ([], q)"
| "run_ops f (x # xs) q = bindR (f x q) (\<lambda>(out, q). bindR (run_ops f xs q) (\<lambda>(outs, q). Inr (out @ outs, q)))"

fun map_state :: "('q \<Rightarrow> 'r) \<Rightarrow> (byte list \<times> 'q) res \<Rightarrow> (byte list \<times> 'r) res" where
  "map_state g (Inl e) = Inl e"
| "map_state g (Inr (out, q)) = Inr (out, g q)"

text \<open>A queue of pointers, each enqueued as its eight bytes.\<close>

definition ptr_ok :: "int \<Rightarrow> bool" where "ptr_ok p \<longleftrightarrow> 0 \<le> p \<and> p < 2 ^ 64"
definition ptr_bytes :: "int list \<Rightarrow> byte list" where "ptr_bytes ps = concat (map (enc 8) ps)"

lemma ptr_bytes_simps [simp]:
  "ptr_bytes [] = []" "ptr_bytes (p # ps) = enc 8 p @ ptr_bytes ps"
  "ptr_bytes (ps @ qs) = ptr_bytes ps @ ptr_bytes qs" "length (ptr_bytes ps) = 8 * length ps"
  by (induction ps) (simp_all add: ptr_bytes_def)

context byte_fifo
begin

lemma ptr_enq:
  assumes "wf q" "items q = ptr_bytes ps" "8 * (length ps + 1) \<le> cap"
  shows "\<exists>q'. enq (enc 8 p) 8 q = Inr q' \<and> wf q' \<and> items q' = ptr_bytes (ps @ [p])"
  using enq_ok [OF assms(1), of "enc 8 p"] assms(2,3) by simp

lemma ptr_deq:
  assumes "wf q" "items q = ptr_bytes (p # ps)" "ptr_ok p"
  shows "\<exists>out q'. deq 8 q = Inr (out, q') \<and> decU out = p \<and> wf q' \<and> items q' = ptr_bytes ps"
proof -
  have "decU (enc 8 p) = p" using assms(3) by (intro decU_enc_id) (simp_all add: ptr_ok_def)
  then show ?thesis using deq_ok [OF assms(1), of 8] assms(2) by auto
qed

end

context byte_queue
begin

lemma step_refines:
  assumes "wf q"
  shows "map_state items (q_step enq deq x q) = spec_step cap x (items q) \<and>
    (\<forall>out q'. q_step enq deq x q = Inr (out, q') \<longrightarrow> wf q')"
proof (cases x)
  case (Enq xs)
  then show ?thesis using enq_ok [OF assms, of xs] enq_full [OF assms, of xs]
    by (cases "length (items q) + length xs \<le> cap") auto
next
  case (Deq n)
  then show ?thesis using deq_ok [OF assms, of n] deq_short [OF assms, of n]
    by (cases "n \<le> length (items q)") auto
qed

lemma history_refines:
  "wf q \<Longrightarrow> map_state items (run_ops (q_step enq deq) xs q) = run_ops (spec_step cap) xs (items q)"
proof (induction xs arbitrary: q)
  case (Cons x xs)
  note st = step_refines [OF Cons.prems, of x]
  show ?case
  proof (cases "q_step enq deq x q")
    case (Inl e)
    then have "spec_step cap x (items q) = Inl e" using st by simp
    then show ?thesis using Inl by simp
  next
    case (Inr r)
    then obtain out q' where r: "q_step enq deq x q = Inr (out, q')" by (cases r) auto
    then have sp: "spec_step cap x (items q) = Inr (out, items q')" and wf': "wf q'" using st by auto
    show ?thesis using Cons.IH [OF wf'] r sp
      by (cases "run_ops (q_step enq deq) xs q'") (auto simp: bindR_def split: sum.splits)
  qed
qed simp

lemma ptr_enq_full:
  assumes "wf q" "items q = ptr_bytes ps" "cap < 8 * (length ps + 1)"
  shows "enq (enc 8 p) 8 q = Inl DebugBreak"
  using enq_full [OF assms(1), of "enc 8 p"] assms(2,3) by simp

end

interpretation ring_q: byte_queue ring_wf content capacity Enqueue Dequeue
  by unfold_locales
    (auto simp: Enqueue_content Enqueue_full Dequeue_short intro: Dequeue_content)

subsection \<open>Pointer queues\<close>

text \<open>
  The threads of the server use the ring as a queue of 8-byte pointers: \<open>Enqueue(&msg, 8)\<close> after
  no check at all, \<open>Dequeue(&msg, 8)\<close> after a test of the used size. The theories above this one
  write such a queue as the list of what the pointers point to; these are its operations, and the
  lemmas below show that they are what the ring does.
\<close>

definition PTR_CAP :: nat where "PTR_CAP = 3749"

definition enqPtr :: "'a \<Rightarrow> 'a list \<Rightarrow> 'a list res" where
  "enqPtr p ps = (if length ps < PTR_CAP then Inr (ps @ [p]) else Inl DebugBreak)"

lemma enqPtr_refines:
  assumes "ring_wf q" "content q = ptr_bytes (map addr ps)"
  shows "case enqPtr p ps of
      Inr ps' \<Rightarrow> \<exists>q'. Enqueue (enc 8 (addr p)) 8 q = Inr q' \<and> ring_wf q' \<and> content q' = ptr_bytes (map addr ps')
    | Inl e \<Rightarrow> Enqueue (enc 8 (addr p)) 8 q = Inl e"
proof (cases "length ps < PTR_CAP")
  case True
  then have "8 * (length (map addr ps) + 1) \<le> capacity"
    by (simp add: PTR_CAP_def capacity_def RINGBUFFER_SIZE_def)
  from ring_q.ptr_enq [OF assms this, of "addr p"] True show ?thesis by (simp add: enqPtr_def)
next
  case False
  then have "capacity < 8 * (length (map addr ps) + 1)"
    by (simp add: PTR_CAP_def capacity_def RINGBUFFER_SIZE_def)
  from ring_q.ptr_enq_full [OF assms this, of "addr p"] False show ?thesis by (simp add: enqPtr_def)
qed

lemma deqPtr_refines:
  assumes "ring_wf q" "content q = ptr_bytes (map addr (p # ps))" "ptr_ok (addr p)"
  shows "8 \<le> GetUseSize (rgFront q) (rgRear q) \<and>
    (\<exists>out q'. Dequeue 8 q = Inr (out, q') \<and> decU out = addr p \<and> ring_wf q' \<and>
       content q' = ptr_bytes (map addr ps))"
  using ring_q.ptr_deq [OF assms(1), of "addr p" "map addr ps"] assms useSize_content [OF assms(1)]
  by simp

lemma emptyPtr_refines:
  "ring_wf q \<Longrightarrow> content q = ptr_bytes (map addr []) \<Longrightarrow> GetUseSize (rgFront q) (rgRear q) < 8"
  using useSize_content [of q] by simp

subsection \<open>Property\<close>

text \<open>
  C3. The byte ring is a first-in first-out queue of at most 29999 bytes: whatever calls of
  \<open>Enqueue\<close> and \<open>Dequeue\<close> are made on a well-formed ring, in whatever order and with
  whatever wrap-arounds, they return the bytes, and end with the content, that the same calls have on
  a plain list; a call that finds too little room or too few bytes stops the process, and only such a
  call does.
\<close>

theorem ring_refines_fifo:
  assumes "ring_wf q"
  shows "map_state content (run_ops (q_step Enqueue Dequeue) ops q) =
         run_ops (spec_step 29999) ops (content q)"
  using ring_q.history_refines [OF assms] by (simp add: capacity_def RINGBUFFER_SIZE_def)

lemma ring_refines_fifo_witness:
  "map_state content (run_ops (q_step Enqueue Dequeue) [Enq [1, 2, 3], Deq 2, Enq [4], Deq 2] ring_init) =
   Inr ([1, 2, 3, 4], [])"
  using ring_refines_fifo [OF ring_init_wf, of "[Enq [1, 2, 3], Deq 2, Enq [4], Deq 2]"] by simp

end
