(* ===== verification/Player.thy ===== *)
theory Player
  imports GameConfig MyRingBuffer
begin

text \<open>
  \<open>contents::Player\<close> (\<open>FieldServer/Contents/Player.cpp\<close>): the record of a player, its
  message queue, its states, movement and damage, and the invariant they keep.
\<close>

subsection \<open>State\<close>

datatype ePlayerState = PIdle | PMove | PAttack | PDead | PStun

fun playerStateByte :: "ePlayerState \<Rightarrow> int" where
  "playerStateByte PIdle = 0"
| "playerStateByte PMove = 1"
| "playerStateByte PAttack = 2"
| "playerStateByte PDead = 3"
| "playerStateByte PStun = 4"

record player =
  plRecvQ :: "message list"
  plAccountNo :: int
  plCharacterID :: int
  plPos :: position
  plStartMovePos :: position
  plSeqID :: int
  plSpeed :: f32
  plLastTime :: int
  plAnimFrame :: int
  plCurrentSector :: sector
  plDestSector :: sector
  plDirection :: eDirection
  plCurrentFieldID :: int
  plNextFieldID :: int
  plState :: ePlayerState
  plCharacterType :: int
  plNickname :: "byte list"
  plBConnect :: bool
  plSyncCnt :: int
  plAttackPower :: int
  plLastAttackTime :: int
  plPendingAttackTargets :: "int list"
  plPendingAttackSkillId :: int
  plHitStunFrame :: int
  plHp :: int
  plMaxHp :: int
  plInventory :: "(int \<times> int) list"
  plDBRequestCnt :: "64 word"
  plSendMsgCnt :: int

definition newPlayer :: "int \<Rightarrow> player" where
  "newPlayer seqID =
     \<lparr> plRecvQ = [], plAccountNo = 0, plCharacterID = 0, plPos = Position 0 0,
       plStartMovePos = Position 0 0, plSeqID = seqID, plSpeed = f_lit 45 10, plLastTime = 0,
       plAnimFrame = 0, plCurrentSector = Sector 0 0, plDestSector = Sector 0 0,
       plDirection = DirDown, plCurrentFieldID = - 1, plNextFieldID = - 1, plState = PIdle,
       plCharacterType = 0, plNickname = replicate 20 0, plBConnect = True, plSyncCnt = 0,
       plAttackPower = PLAYER_ATTACK_DAMAGE, plLastAttackTime = 0, plPendingAttackTargets = [],
       plPendingAttackSkillId = 0, plHitStunFrame = 0, plHp = PLAYER_MAX_HP,
       plMaxHp = PLAYER_MAX_HP, plInventory = [], plDBRequestCnt = 0, plSendMsgCnt = 0 \<rparr>"

definition InitPlayerInfo :: "int \<Rightarrow> int \<Rightarrow> int \<Rightarrow> player \<Rightarrow> player" where
  "InitPlayerInfo accountNo characterId moveIdx p =
     p\<lparr>plAccountNo := accountNo, plCharacterID := characterId, plNextFieldID := moveIdx\<rparr>"

definition SetPosition :: "f32 \<Rightarrow> f32 \<Rightarrow> player \<Rightarrow> player" where
  "SetPosition x y p = p\<lparr>plPos := Position x y\<rparr>"

abbreviation IsDead :: "player \<Rightarrow> bool" where "IsDead p \<equiv> plState p = PDead"

subsection \<open>The message queue\<close>

definition EnQueueMsg :: "message \<Rightarrow> player \<Rightarrow> player res" where
  "EnQueueMsg msg p = bindR (enqPtr msg (plRecvQ p)) (\<lambda>q. Inr (p\<lparr>plRecvQ := q\<rparr>))"

definition DeQueueMsgOrNull :: "player \<Rightarrow> message option \<times> player" where
  "DeQueueMsgOrNull p =
     (if \<not> plBConnect p then (None, p)
      else case plRecvQ p of [] \<Rightarrow> (None, p) | msg # q \<Rightarrow> (Some msg, p\<lparr>plRecvQ := q\<rparr>))"

text \<open>The destructor: a message still queued for a connected player trips its assertion.\<close>

definition deletePlayer :: "player \<Rightarrow> unit res" where
  "deletePlayer p = (case DeQueueMsgOrNull p of (None, _) \<Rightarrow> Inr () | (Some _, _) \<Rightarrow> Inl DebugBreak)"

subsection \<open>Transitions, movement and damage\<close>

definition resetAnimStart :: "player \<Rightarrow> player" where
  "resetAnimStart p = p\<lparr>plAnimFrame := 0, plStartMovePos := plPos p\<rparr>"

definition changeState :: "ePlayerState \<Rightarrow> player \<Rightarrow> player res" where
  "changeState state p = assertR (state \<noteq> plState p) (Inr (resetAnimStart (p\<lparr>plState := state\<rparr>)))"

definition moveUpdate :: "player \<Rightarrow> player res" where
  "moveUpdate p =
     bindR (dirVector (plDirection p)) (\<lambda>v.
     Inr (p\<lparr>plPos := moveTo (plStartMovePos p) v (plSpeed p) (plAnimFrame p)\<rparr>))"

definition update :: "player \<Rightarrow> player res" where
  "update p =
     (if \<not> plBConnect p then Inr p
      else let p = p\<lparr>plAnimFrame := wrap32 (plAnimFrame p + 1)\<rparr>
           in case plState p of
                PDead \<Rightarrow> Inr p
              | PMove \<Rightarrow> moveUpdate p
              | PAttack \<Rightarrow> if PLAYER_ATTACK_TOTAL_FRAME \<le> plAnimFrame p then changeState PIdle p else Inr p
              | PStun \<Rightarrow> if 0 < plHitStunFrame p then Inr (p\<lparr>plHitStunFrame := plHitStunFrame p - 1\<rparr>)
                         else changeState PIdle p
              | PIdle \<Rightarrow> Inr p)"

definition takeDamage :: "int \<Rightarrow> position \<Rightarrow> eDirection \<Rightarrow> player \<Rightarrow> player res" where
  "takeDamage damage attackerPos attackerDir p =
     (if plState p = PDead then Inr p
      else bindR (dirVector attackerDir) (\<lambda>facing.
        let p = p\<lparr>plDirection := getDirectionTo (posX (plPos p)) (posY (plPos p))
                    (posX attackerPos) (posY attackerPos),
                  plPos := knockback (plPos p) facing PLAYER_ATTACK_KNOCKBACK_DIST,
                  plHp := max (wrap32 (plHp p - damage)) 0\<rparr>
        in if plHp p = 0 then changeState PDead p
           else let p = p\<lparr>plHitStunFrame := PLAYER_HIT_STUN_FRAME\<rparr>
                in if plState p = PStun then Inr (resetAnimStart p) else changeState PStun p))"

subsection \<open>Invariant\<close>

text \<open>
  What holds of a player's own fields whatever the network sends; the position and the direction are
  kept apart in \<open>player_placed\<close>, because the server takes both from the client.
\<close>

definition player_wf :: "player \<Rightarrow> bool" where
  "player_wf p \<longleftrightarrow> plSpeed p = f_lit 45 10 \<and> plMaxHp p = PLAYER_MAX_HP \<and>
     0 \<le> plHp p \<and> plHp p \<le> plMaxHp p \<and> (plHp p = 0 \<longleftrightarrow> plState p = PDead) \<and>
     0 \<le> plHitStunFrame p \<and> plHitStunFrame p \<le> PLAYER_HIT_STUN_FRAME \<and>
     - (2 ^ 31) \<le> plAnimFrame p \<and> plAnimFrame p < 2 ^ 31 \<and> length (plNickname p) = 20 \<and>
     length (plRecvQ p) \<le> PTR_CAP \<and> plAttackPower p = PLAYER_ATTACK_DAMAGE"

definition player_placed :: "player \<Rightarrow> bool" where
  "player_placed p \<longleftrightarrow> in_map (plPos p) \<and> in_map (plStartMovePos p) \<and> dir_ok (plDirection p)"

text \<open>What a tick leaves alone: who the player is, its sectors, its queue.\<close>

definition same_place :: "player \<Rightarrow> player \<Rightarrow> bool" where
  "same_place p p' \<longleftrightarrow> plSeqID p' = plSeqID p \<and> plCurrentSector p' = plCurrentSector p \<and>
     plDestSector p' = plDestSector p \<and> plCurrentFieldID p' = plCurrentFieldID p \<and> plRecvQ p' = plRecvQ p \<and> plNextFieldID p' = plNextFieldID p \<and>
     plPendingAttackTargets p' = plPendingAttackTargets p \<and>
     plPendingAttackSkillId p' = plPendingAttackSkillId p \<and> plCharacterID p' = plCharacterID p"

definition player_edge :: "ePlayerState \<Rightarrow> ePlayerState \<Rightarrow> bool" where
  "player_edge s t \<longleftrightarrow> s = t \<or> (s, t) = (PAttack, PIdle) \<or> (s, t) = (PStun, PIdle)"

lemma newPlayer_wf: "player_wf (newPlayer s)"
  by (simp add: newPlayer_def player_wf_def PLAYER_MAX_HP_def PLAYER_HIT_STUN_FRAME_def PTR_CAP_def)

lemma newPlayer_placed: "player_placed (newPlayer s)"
proof -
  have "in_map (Position 0 0)" by code_simp
  then show ?thesis by (simp add: newPlayer_def player_placed_def dir_ok_def)
qed

lemma EnQueueMsg_wf: "player_wf p \<Longrightarrow> EnQueueMsg m p = Inr p' \<Longrightarrow> player_wf p'"
  by (auto simp: EnQueueMsg_def enqPtr_def Inr_iffs player_wf_def split: if_splits)

lemma DeQueueMsgOrNull_wf: "player_wf p \<Longrightarrow> player_wf (snd (DeQueueMsgOrNull p))"
  by (auto simp: DeQueueMsgOrNull_def player_wf_def split: list.splits)

lemma player_changeState_ok:
  assumes "player_wf p" "t \<noteq> plState p" "t \<noteq> PDead" "plState p \<noteq> PDead"
  shows "\<exists>p'. changeState t p = Inr p' \<and> player_wf p' \<and> plState p' = t \<and> same_place p p' \<and>
    (player_placed p \<longrightarrow> player_placed p')"
  using assms by (auto simp: changeState_def resetAnimStart_def player_wf_def player_placed_def same_place_def)

lemma player_moveUpdate_ok:
  assumes "player_wf p" "player_placed p"
  shows "\<exists>p'. moveUpdate p = Inr p' \<and> player_wf p' \<and> player_placed p' \<and> plState p' = plState p \<and> same_place p p'"
proof -
  from assms have "dir_ok (plDirection p)" by (simp add: player_placed_def)
  then obtain v where v: "dirVector (plDirection p) = Inr v"
    "f_fin (f_mul (fst v) (f_lit 45 10))" "f_fin (f_mul (snd v) (f_lit 45 10))"
    by (rule dirVector_cases)
  then show ?thesis using assms
    by (auto simp: moveUpdate_def player_wf_def player_placed_def same_place_def intro!: moveTo_in_map)
qed

lemma player_update_ok:
  assumes "player_wf p" "player_placed p"
  shows "\<exists>p'. update p = Inr p' \<and> player_wf p' \<and> player_placed p' \<and>
    player_edge (plState p) (plState p') \<and> same_place p p'"
proof -
  define q where "q = p\<lparr>plAnimFrame := wrap32 (plAnimFrame p + 1)\<rparr>"
  have q: "player_wf q" "player_placed q" "plState q = plState p"
    using assms wrap32_range by (simp_all add: player_wf_def player_placed_def q_def)
  have stun: "player_wf (q\<lparr>plHitStunFrame := plHitStunFrame q - 1\<rparr>)" if "0 < plHitStunFrame q"
    using q(1) that by (simp add: player_wf_def)
  have pl: "player_placed (q\<lparr>plHitStunFrame := h\<rparr>)" for h using q(2) by (simp add: player_placed_def)
  show ?thesis unfolding update_def Let_def q_def [symmetric]
    using assms q stun pl player_moveUpdate_ok [OF q(1,2)] player_changeState_ok [OF q(1), of PIdle]
    by (cases "plState p") (auto simp: player_edge_def same_place_def q_def)
qed

lemma player_takeDamage_ok:
  assumes wf: "player_wf p" and pl: "player_placed p" and dir: "dir_ok d"
    and dmg: "0 \<le> damage" "damage < 2 ^ 31"
  shows "\<exists>p'. takeDamage damage apos d p = Inr p' \<and> player_wf p' \<and> player_placed p' \<and>
    plSeqID p' = plSeqID p \<and> plCurrentSector p' = plCurrentSector p \<and> plDestSector p' = plDestSector p \<and>
    plCurrentFieldID p' = plCurrentFieldID p \<and> plRecvQ p' = plRecvQ p \<and> plNextFieldID p' = plNextFieldID p \<and>
    (if plState p = PDead then p' = p
     else plHp p' = max (plHp p - damage) 0 \<and> plAnimFrame p' = 0 \<and> plBConnect p' = plBConnect p \<and>
       plPos p' = knockback (plPos p) (kDirectionVectorTable ! nat d) PLAYER_ATTACK_KNOCKBACK_DIST \<and>
       (if plHp p \<le> damage then plState p' = PDead
        else plState p' = PStun \<and> plHitStunFrame p' = PLAYER_HIT_STUN_FRAME))"
proof (cases "plState p = PDead")
  case True
  then show ?thesis using wf pl by (simp add: takeDamage_def)
next
  case False
  have hp: "0 < plHp p" "plHp p \<le> 100" using wf False by (auto simp: player_wf_def PLAYER_MAX_HP_def)
  have w: "wrap32 (plHp p - damage) = plHp p - damage" using hp dmg by (intro wrap32_id) simp_all
  obtain v where v: "dirVector d = Inr v" "f_fin (fst v)" "f_fin (snd v)" using dir by (rule dirVector_cases)
  have vt: "v = kDirectionVectorTable ! nat d" using v(1) dir by (simp add: dirVector_def)
  have "f_fin PLAYER_ATTACK_KNOCKBACK_DIST" by code_simp
  then have "in_map (knockback (plPos p) v PLAYER_ATTACK_KNOCKBACK_DIST)"
    using pl v by (intro knockback_in_map) (simp_all add: player_placed_def)
  then show ?thesis using wf pl hp False v dmg vt
    by (auto simp: takeDamage_def Let_def w changeState_def resetAnimStart_def player_wf_def
        player_placed_def PLAYER_HIT_STUN_FRAME_def PLAYER_MAX_HP_def)
qed

subsection \<open>Several ticks\<close>

fun playerTicks :: "nat \<Rightarrow> player \<Rightarrow> player res" where
  "playerTicks 0 p = Inr p"
| "playerTicks (Suc n) p = bindR (playerTicks n p) update"

lemma player_frame_step: "n < 1000 \<Longrightarrow> wrap32 (1 + int n) = 1 + int n"
  by (intro wrap32_id) simp_all

lemma player_stun_ticks:
  assumes "plBConnect p" "plState p = PStun" "plAnimFrame p = 0" "plHitStunFrame p = 30" "n \<le> 30"
  shows "playerTicks n p = Inr (p\<lparr>plAnimFrame := int n, plHitStunFrame := 30 - int n\<rparr>)"
  using assms
proof (induction n)
  case (Suc n)
  then show ?case
    by (simp add: update_def Let_def player_frame_step add.commute)
qed simp

lemma player_attack_ticks:
  assumes "plBConnect p" "plState p = PAttack" "plAnimFrame p = 0" "n < 30"
  shows "playerTicks n p = Inr (p\<lparr>plAnimFrame := int n\<rparr>)"
  using assms
proof (induction n)
  case (Suc n)
  then show ?case
    by (simp add: update_def Let_def PLAYER_ATTACK_TOTAL_FRAME_def player_frame_step add.commute)
qed simp

subsection \<open>Properties\<close>

text \<open>
  A tick of a player never fails: from a well-formed player inside the map with one of the eight
  directions, \<open>update\<close> trips no assertion and reads no table out of range; the player stays
  well-formed and inside the map, and only ends an attack or a stun.
\<close>

theorem player_update_safe:
  assumes "player_wf p" "player_placed p"
  shows "\<exists>p'. update p = Inr p' \<and> player_wf p' \<and> player_placed p' \<and> player_edge (plState p) (plState p')"
  using player_update_ok [OF assms] by blast

lemma player_update_safe_witness:
  "\<exists>p'. update (newPlayer 9) = Inr p' \<and> player_wf p' \<and> player_placed p' \<and> player_edge PIdle (plState p')"
  using player_update_safe [OF newPlayer_wf newPlayer_placed, of 9] by (simp add: newPlayer_def)

text \<open>
  What a hit does to a player: it takes exactly its damage, down to 0, and pushes the player by
  \<open>PLAYER_ATTACK_KNOCKBACK_DIST\<close> along the facing of the monster; at 0 the player is dead and no
  number of ticks or hits changes it any more; a survivor is stunned for 30 ticks and the 31st makes
  it idle.
\<close>

theorem player_hit_cycle:
  assumes "player_wf p" "player_placed p" "dir_ok d" "0 \<le> damage" "damage < 2 ^ 31"
    and "plBConnect p" "plState p \<noteq> PDead"
  shows "\<exists>p1. takeDamage damage apos d p = Inr p1 \<and> plHp p1 = max (plHp p - damage) 0 \<and>
    plPos p1 = knockback (plPos p) (kDirectionVectorTable ! nat d) (f_lit 100 1) \<and>
    (if plHp p \<le> damage
     then (\<forall>n. \<exists>p2. playerTicks n p1 = Inr p2 \<and> plState p2 = PDead \<and> plPos p2 = plPos p1 \<and>
             (\<forall>dm q e. takeDamage dm q e p2 = Inr p2))
     else (\<forall>n\<le>30. \<exists>p2. playerTicks n p1 = Inr p2 \<and> plState p2 = PStun) \<and>
       (\<exists>p3. playerTicks 31 p1 = Inr p3 \<and> plState p3 = PIdle \<and> plPos p3 = plPos p1))"
proof -
  obtain p1 where p1: "takeDamage damage apos d p = Inr p1" "plHp p1 = max (plHp p - damage) 0"
      "plPos p1 = knockback (plPos p) (kDirectionVectorTable ! nat d) PLAYER_ATTACK_KNOCKBACK_DIST"
      "if plHp p \<le> damage then plState p1 = PDead else plState p1 = PStun \<and> plHitStunFrame p1 = 30"
      and fr: "plAnimFrame p1 = 0 \<and> plBConnect p1"
    using player_takeDamage_ok [OF assms(1-5), of apos] assms(6,7)
    by (cases "plHp p \<le> damage") (auto simp: PLAYER_HIT_STUN_FRAME_def)
  have dead: "\<exists>p2. playerTicks n p1 = Inr p2 \<and> plState p2 = PDead \<and> plPos p2 = plPos p1 \<and> plBConnect p2"
    if "plState p1 = PDead" for n
  proof (induction n)
    case 0
    then show ?case using that fr by simp
  next
    case (Suc n)
    then show ?case by (auto simp: update_def Let_def)
  qed
  have e31: "playerTicks 31 p1 = bindR (playerTicks 30 p1) update"
    using playerTicks.simps(2) [of 30 p1] by (simp del: playerTicks.simps)
  show ?thesis
  proof (cases "plHp p \<le> damage")
    case True
    then have "plState p1 = PDead" using p1 by simp
    from dead [OF this] have "\<forall>n. \<exists>p2. playerTicks n p1 = Inr p2 \<and> plState p2 = PDead \<and>
        plPos p2 = plPos p1 \<and> (\<forall>dm q e. takeDamage dm q e p2 = Inr p2)"
      by (fastforce simp: takeDamage_def)
    then show ?thesis using True p1(1-3) by (simp add: PLAYER_ATTACK_KNOCKBACK_DIST_def)
  next
    case False
    then have stun: "plState p1 = PStun" "plHitStunFrame p1 = 30" using p1 by simp_all
    note st = player_stun_ticks [OF conjunct2 [OF fr] stun(1) conjunct1 [OF fr] stun(2)]
    have "\<exists>p3. playerTicks 31 p1 = Inr p3 \<and> plState p3 = PIdle \<and> plPos p3 = plPos p1"
      unfolding e31 using st [of 30] stun fr
      by (simp add: update_def Let_def changeState_def resetAnimStart_def)
    moreover have "\<forall>n\<le>30. \<exists>p2. playerTicks n p1 = Inr p2 \<and> plState p2 = PStun"
      using st stun by simp
    ultimately show ?thesis using False p1(1-3) by (simp add: PLAYER_ATTACK_KNOCKBACK_DIST_def)
  qed
qed

lemma player_hit_cycle_witness:
  "\<exists>p1 p3. takeDamage 10 (Position (f_lit 5 1) (f_lit 5 1)) DirDown (newPlayer 9) = Inr p1 \<and> plHp p1 = 90 \<and>
     playerTicks 31 p1 = Inr p3 \<and> plState p3 = PIdle \<and>
     plPos p3 = Position (f_lit 0 1) (f_lit 100 1)"
proof -
  have new: "plBConnect (newPlayer 9)" "plState (newPlayer 9) \<noteq> PDead" "plHp (newPlayer 9) = 100"
      "plPos (newPlayer 9) = Position 0 0"
    by (simp_all add: newPlayer_def PLAYER_MAX_HP_def)
  have kb: "knockback (Position 0 0) (kDirectionVectorTable ! 0) (f_lit 100 1) = Position (f_lit 0 1) (f_lit 100 1)"
    by code_simp
  show ?thesis
    using player_hit_cycle [OF newPlayer_wf newPlayer_placed, of DirDown 10 9
        "Position (f_lit 5 1) (f_lit 5 1)"] new
    by (auto simp: dir_ok_def kb)
qed

end
