(* ===== verification/Monster.thy ===== *)
theory Monster
  imports GameConfig
begin

text \<open>
  \<open>contents::Monster\<close> (\<open>FieldServer/Contents/Monster.cpp\<close>): the record of a monster, the
  handlers of its states, movement, damage and respawn; its invariant and the transitions it makes.
\<close>

subsection \<open>State\<close>

datatype eMonsterState = MIdle | MMove | MChase | MAttack | MStun | MDead | MReturn

fun monsterStateByte :: "eMonsterState \<Rightarrow> int" where
  "monsterStateByte MIdle = 0"
| "monsterStateByte MMove = 1"
| "monsterStateByte MChase = 2"
| "monsterStateByte MAttack = 3"
| "monsterStateByte MStun = 4"
| "monsterStateByte MDead = 5"
| "monsterStateByte MReturn = 6"

record monster =
  mnMonsterID :: int
  mnPos :: position
  mnSpawnPos :: position
  mnStartMovePos :: position
  mnSector :: sector
  mnDestSector :: sector
  mnMonsterType :: int
  mnDirection :: eDirection
  mnBeforeDirection :: eDirection
  mnState :: eMonsterState
  mnBeforeState :: eMonsterState
  mnAnimFrame :: int
  mnSpeed :: f32
  mnHp :: int
  mnMaxHp :: int
  mnHitStunFrame :: int
  mnTargetPlayerID :: int
  mnTargetPos :: position
  mnKnockbackDist :: f32

definition PATROL_RADIUS :: f32 where "PATROL_RADIUS = f_lit 150 1"
definition CHASE_LEASH_RADIUS :: f32 where "CHASE_LEASH_RADIUS = f_lit 2400 1"
definition MONSTER_MAX_HP :: int where "MONSTER_MAX_HP = 100"
definition MONSTER_RESPAWN_FRAME :: int where "MONSTER_RESPAWN_FRAME = 500"

definition newMonster :: "int \<Rightarrow> position \<Rightarrow> int \<Rightarrow> monster" where
  "newMonster monsterID pos monsterType =
     \<lparr> mnMonsterID = monsterID, mnPos = pos, mnSpawnPos = pos, mnStartMovePos = pos,
       mnSector = Sector 0 0, mnDestSector = Sector 0 0, mnMonsterType = monsterType,
       mnDirection = DirDown, mnBeforeDirection = DirDown, mnState = MIdle, mnBeforeState = MIdle,
       mnAnimFrame = 0, mnSpeed = f_lit 3 1, mnHp = MONSTER_MAX_HP, mnMaxHp = MONSTER_MAX_HP,
       mnHitStunFrame = 0, mnTargetPlayerID = - 1, mnTargetPos = pos,
       mnKnockbackDist = f_lit 30 1 \<rparr>"

subsection \<open>Transitions\<close>

definition resetAnimStart :: "monster \<Rightarrow> monster" where
  "resetAnimStart m = m\<lparr>mnAnimFrame := 0, mnStartMovePos := mnPos m\<rparr>"

definition changeState :: "eMonsterState \<Rightarrow> monster \<Rightarrow> monster res" where
  "changeState state m = assertR (state \<noteq> mnState m) (Inr (resetAnimStart (m\<lparr>mnState := state\<rparr>)))"

definition changeDirection :: "eDirection \<Rightarrow> monster \<Rightarrow> monster" where
  "changeDirection newDir m = m\<lparr>mnDirection := newDir, mnAnimFrame := 0, mnStartMovePos := mnPos m\<rparr>"

definition moveUpdate :: "monster \<Rightarrow> monster res" where
  "moveUpdate m =
     bindR (dirVector (mnDirection m)) (\<lambda>v.
     Inr (m\<lparr>mnPos := moveTo (mnStartMovePos m) v (mnSpeed m) (mnAnimFrame m)\<rparr>))"

subsection \<open>The handlers of the states\<close>

text \<open>Where an idle monster that has strayed turns to.\<close>

definition homeDirection :: "position \<Rightarrow> position \<Rightarrow> eDirection" where
  "homeDirection spawn pos =
     (let leftDir = f_lt (posX spawn) (posX pos); upDir = f_lt (posY spawn) (posY pos)
      in if f_eq (posX spawn) (posX pos) then (if upDir then DirUp else DirDown)
         else if f_eq (posY spawn) (posY pos) then (if leftDir then DirLeft else DirRight)
         else if leftDir then (if upDir then DirUpLeft else DirDownLeft)
         else (if upDir then DirUpRight else DirDownRight))"

definition idleUpdate :: "monster \<Rightarrow> rng \<Rightarrow> (monster \<times> rng) res" where
  "idleUpdate m g =
     (if f_lt PATROL_RADIUS (pos_dist (mnPos m) (mnSpawnPos m))
      then bindR (changeState MMove (m\<lparr>mnDirection := homeDirection (mnSpawnPos m) (mnPos m)\<rparr>))
             (\<lambda>m. Inr (m, g))
      else let (r, g) = rand g
           in if r mod 100 = 0 \<and> 10 \<le> mnAnimFrame m
              then let (d, g) = rand g
                   in bindR (changeState MMove (m\<lparr>mnDirection := d mod DirMax\<rparr>)) (\<lambda>m. Inr (m, g))
              else Inr (m, g))"

definition patrolUpdate :: "monster \<Rightarrow> rng \<Rightarrow> (monster \<times> rng) res" where
  "patrolUpdate m g =
     (if f_le PATROL_RADIUS (pos_dist (mnPos m) (mnSpawnPos m))
      then bindR (changeState MReturn m) (\<lambda>m. Inr (m, g))
      else let (r, g) = rand g
           in if r mod 100 = 0 \<and> 10 \<le> mnAnimFrame m
              then bindR (changeState MIdle m) (\<lambda>m. Inr (m, g))
              else bindR (moveUpdate m) (\<lambda>m. Inr (m, g)))"

definition giveUpChase :: "monster \<Rightarrow> monster res" where
  "giveUpChase m =
     (if f_lt PATROL_RADIUS (pos_dist (mnPos m) (mnSpawnPos m)) then changeState MReturn m
      else changeState MIdle m)"

definition chaseUpdate :: "position \<Rightarrow> monster \<Rightarrow> monster res" where
  "chaseUpdate target m =
     (if f_lt CHASE_LEASH_RADIUS (pos_dist (mnPos m) (mnSpawnPos m)) then giveUpChase m
      else let newDirection = getDirectionTo (posX (mnPos m)) (posY (mnPos m)) (posX target) (posY target)
           in if f_le (pos_dist (mnPos m) target) MONSTER_ATTACK_RANGE
              then changeState MAttack (changeDirection newDirection m)
              else moveUpdate (if newDirection \<noteq> mnDirection m \<and> 10 \<le> mnAnimFrame m
                               then changeDirection newDirection m else m))"

definition attackUpdate :: "monster \<Rightarrow> monster res" where
  "attackUpdate m =
     (if MONSTER_ATTACK_TOTAL_FRAME \<le> mnAnimFrame m then changeState MChase m else Inr m)"

definition stunUpdate :: "monster \<Rightarrow> monster res" where
  "stunUpdate m =
     (if 0 < mnHitStunFrame m then Inr (m\<lparr>mnHitStunFrame := mnHitStunFrame m - 1\<rparr>)
      else changeState MChase m)"

definition deadUpdate :: "monster \<Rightarrow> monster res" where
  "deadUpdate m =
     (if MONSTER_RESPAWN_FRAME \<le> mnAnimFrame m
      then bindR (changeState MIdle m) (\<lambda>m.
           Inr (m\<lparr>mnStartMovePos := mnSpawnPos m, mnPos := mnSpawnPos m, mnHp := mnMaxHp m\<rparr>))
      else Inr m)"

definition returnUpdate :: "monster \<Rightarrow> monster res" where
  "returnUpdate m =
     bindR
       (if f_le (pos_dist (mnPos m) (mnSpawnPos m)) (f_lit 10 1) then changeState MIdle m
        else if 15 \<le> mnAnimFrame m
             then Inr (changeDirection (getDirectionTo (posX (mnPos m)) (posY (mnPos m))
                         (posX (mnSpawnPos m)) (posY (mnSpawnPos m))) m)
             else Inr m)
       moveUpdate"

definition Update :: "monster \<Rightarrow> rng \<Rightarrow> (monster \<times> rng) res" where
  "Update m g =
     (let m = m\<lparr>mnAnimFrame := wrap32 (mnAnimFrame m + 1)\<rparr>;
          noRand = (\<lambda>x. bindR x (\<lambda>m. Inr (m, g)))
      in case mnState m of
           MIdle \<Rightarrow> idleUpdate m g
         | MMove \<Rightarrow> patrolUpdate m g
         | MChase \<Rightarrow> noRand (chaseUpdate (mnTargetPos m) m)
         | MAttack \<Rightarrow> noRand (attackUpdate m)
         | MStun \<Rightarrow> noRand (stunUpdate m)
         | MDead \<Rightarrow> noRand (deadUpdate m)
         | MReturn \<Rightarrow> noRand (returnUpdate m))"

subsection \<open>Damage\<close>

text \<open>Of the attacker the code reads \<open>GetPosition()\<close> and \<open>GetDirection()\<close>.\<close>

definition takeDamage :: "int \<Rightarrow> position \<Rightarrow> eDirection \<Rightarrow> int \<Rightarrow> monster \<Rightarrow> monster res" where
  "takeDamage damage attackerPos attackerDir attackerId m =
     (if mnState m = MDead then Inr m
      else bindR (dirVector attackerDir) (\<lambda>facing.
        let m = m\<lparr>mnDirection := getDirectionTo (posX (mnPos m)) (posY (mnPos m))
                    (posX attackerPos) (posY attackerPos),
                  mnPos := knockback (mnPos m) facing (mnKnockbackDist m),
                  mnHp := max (wrap32 (mnHp m - damage)) 0\<rparr>
        in if mnHp m = 0 then changeState MDead m
           else let m = m\<lparr>mnHitStunFrame := MONSTER_HIT_STUN_FRAME, mnTargetPlayerID := attackerId\<rparr>
                in if mnState m = MStun then Inr (resetAnimStart m)
                   else changeState MStun m))"

subsection \<open>Invariant\<close>

definition monster_wf :: "monster \<Rightarrow> bool" where
  "monster_wf m \<longleftrightarrow> in_map (mnPos m) \<and> in_map (mnSpawnPos m) \<and> in_map (mnStartMovePos m) \<and>
     dir_ok (mnDirection m) \<and> - (2 ^ 31) \<le> mnAnimFrame m \<and> mnAnimFrame m < 2 ^ 31 \<and>
     mnSpeed m = f_lit 3 1 \<and> mnKnockbackDist m = f_lit 30 1 \<and> mnMaxHp m = MONSTER_MAX_HP \<and>
     0 \<le> mnHp m \<and> mnHp m \<le> mnMaxHp m \<and> (mnHp m = 0 \<longleftrightarrow> mnState m = MDead) \<and>
     0 \<le> mnHitStunFrame m \<and> mnHitStunFrame m \<le> MONSTER_HIT_STUN_FRAME"

text \<open>The transitions that one tick may make.\<close>

definition monster_edge :: "eMonsterState \<Rightarrow> eMonsterState \<Rightarrow> bool" where
  "monster_edge s t \<longleftrightarrow> s = t \<or> (s, t) \<in> set
     [(MIdle, MMove), (MMove, MReturn), (MMove, MIdle), (MChase, MReturn), (MChase, MIdle),
      (MChase, MAttack), (MAttack, MChase), (MStun, MChase), (MDead, MIdle), (MReturn, MIdle)]"

lemma wrap32_frame: "- (2 ^ 31) \<le> wrap32 x \<and> wrap32 x < 2 ^ 31"
  using wrap32_range by simp

lemma moveUpdate_ok:
  assumes "monster_wf m"
  shows "\<exists>m'. moveUpdate m = Inr m' \<and> monster_wf m' \<and> mnState m' = mnState m"
proof -
  from assms have "dir_ok (mnDirection m)" by (simp add: monster_wf_def)
  then obtain v where v: "dirVector (mnDirection m) = Inr v"
    "f_fin (f_mul (fst v) (f_lit 3 1))" "f_fin (f_mul (snd v) (f_lit 3 1))"
    by (rule dirVector_cases)
  then show ?thesis using assms
    by (auto simp: moveUpdate_def monster_wf_def intro!: moveTo_in_map)
qed

lemma changeState_ok:
  assumes "monster_wf m" "t \<noteq> mnState m" "t \<noteq> MDead" "mnState m \<noteq> MDead"
  shows "\<exists>m'. changeState t m = Inr m' \<and> monster_wf m' \<and> mnState m' = t"
  using assms by (auto simp: changeState_def resetAnimStart_def monster_wf_def)

lemma changeDirection_wf: "monster_wf m \<Longrightarrow> dir_ok d \<Longrightarrow> monster_wf (changeDirection d m)"
  by (simp add: changeDirection_def monster_wf_def)

lemma changeDirection_state [simp]: "mnState (changeDirection d m) = mnState m"
  by (simp add: changeDirection_def)

lemma homeDirection_ok: "dir_ok (homeDirection p q)"
  by (simp add: homeDirection_def Let_def dir_ok_def)

lemma mod_dir_ok: "dir_ok (x mod DirMax)"
  by (simp add: dir_ok_def)

text \<open>What an update must achieve from state \<open>s\<close>.\<close>

definition tick_ok :: "eMonsterState \<Rightarrow> (monster \<times> rng) res \<Rightarrow> bool" where
  "tick_ok s r \<longleftrightarrow> (\<exists>m g. r = Inr (m, g) \<and> monster_wf m \<and> monster_edge s (mnState m))"

lemma tick_okI: "\<exists>m'. x = Inr m' \<and> monster_wf m' \<and> mnState m' = t \<Longrightarrow> monster_edge s t \<Longrightarrow>
    tick_ok s (bindR x (\<lambda>m. Inr (m, g)))"
  by (auto simp: tick_ok_def)

lemma tick_ok_stay: "monster_wf m \<Longrightarrow> mnState m = s \<Longrightarrow> tick_ok s (Inr (m, g))"
  by (auto simp: tick_ok_def monster_edge_def)

lemma turn_wf: "monster_wf m \<Longrightarrow> dir_ok d \<Longrightarrow> monster_wf (m\<lparr>mnDirection := d\<rparr>)"
  by (simp add: monster_wf_def)

lemma idleUpdate_ok:
  assumes "monster_wf m" "mnState m = MIdle"
  shows "tick_ok MIdle (idleUpdate m g)"
proof -
  have "\<exists>m'. changeState MMove (m\<lparr>mnDirection := d\<rparr>) = Inr m' \<and> monster_wf m' \<and> mnState m' = MMove"
    if "dir_ok d" for d
    using turn_wf [OF assms(1) that] assms(2) by (intro changeState_ok) simp_all
  then show ?thesis using tick_ok_stay [OF assms]
    by (auto simp: idleUpdate_def Let_def homeDirection_ok mod_dir_ok monster_edge_def
        split: prod.splits intro!: tick_okI)
qed

lemma patrolUpdate_ok:
  assumes "monster_wf m" "mnState m = MMove"
  shows "tick_ok MMove (patrolUpdate m g)"
  using changeState_ok [OF assms(1), of MReturn] changeState_ok [OF assms(1), of MIdle]
    moveUpdate_ok [OF assms(1)] assms(2)
  by (auto simp: patrolUpdate_def Let_def monster_edge_def split: prod.splits intro!: tick_okI)

lemma chaseUpdate_ok:
  assumes "monster_wf m" "mnState m = MChase"
  shows "tick_ok MChase (bindR (chaseUpdate t m) (\<lambda>m. Inr (m, g)))"
proof -
  define d where "d = getDirectionTo (posX (mnPos m)) (posY (mnPos m)) (posX t) (posY t)"
  note wf = changeDirection_wf [OF assms(1), of d]
  have d: "dir_ok d" by (simp add: d_def)
  show ?thesis unfolding chaseUpdate_def giveUpChase_def Let_def d_def [symmetric]
    using changeState_ok [OF assms(1), of MReturn] changeState_ok [OF assms(1), of MIdle]
      moveUpdate_ok [OF assms(1)] moveUpdate_ok [OF wf [OF d]] changeState_ok [OF wf [OF d], of MAttack]
      assms(2)
    by (auto simp: monster_edge_def intro!: tick_okI)
qed

lemma returnUpdate_ok:
  assumes "monster_wf m" "mnState m = MReturn"
  shows "tick_ok MReturn (bindR (returnUpdate m) (\<lambda>m. Inr (m, g)))"
proof -
  define d where "d = getDirectionTo (posX (mnPos m)) (posY (mnPos m)) (posX (mnSpawnPos m)) (posY (mnSpawnPos m))"
  have wf: "monster_wf (changeDirection d m)" using assms(1) by (simp add: changeDirection_wf d_def)
  obtain m' where m': "changeState MIdle m = Inr m'" "monster_wf m'" "mnState m' = MIdle"
    using changeState_ok [OF assms(1), of MIdle] assms(2) by auto
  show ?thesis unfolding returnUpdate_def d_def [symmetric]
    using m' moveUpdate_ok [OF m'(2)] moveUpdate_ok [OF assms(1)] moveUpdate_ok [OF wf] assms(2)
    by (auto simp: monster_edge_def intro!: tick_okI)
qed

lemma attackUpdate_ok:
  assumes "monster_wf m" "mnState m = MAttack"
  shows "tick_ok MAttack (bindR (attackUpdate m) (\<lambda>m. Inr (m, g)))"
  using changeState_ok [OF assms(1), of MChase] assms
  by (auto simp: attackUpdate_def monster_edge_def intro!: tick_okI tick_ok_stay)

lemma stunUpdate_ok:
  assumes "monster_wf m" "mnState m = MStun"
  shows "tick_ok MStun (bindR (stunUpdate m) (\<lambda>m. Inr (m, g)))"
  using changeState_ok [OF assms(1), of MChase] assms
  by (auto simp: stunUpdate_def monster_edge_def monster_wf_def intro!: tick_okI tick_ok_stay)

lemma deadUpdate_ok:
  assumes "monster_wf m" "mnState m = MDead"
  shows "tick_ok MDead (bindR (deadUpdate m) (\<lambda>m. Inr (m, g)))"
  using assms
  by (auto simp: deadUpdate_def changeState_def resetAnimStart_def monster_edge_def monster_wf_def
      MONSTER_MAX_HP_def tick_ok_def)

text \<open>A tick of a well-formed monster stops at no assertion and follows an edge of the state machine.\<close>

lemma Update_tick:
  assumes "monster_wf m"
  shows "tick_ok (mnState m) (Update m g)"
proof -
  define m' where "m' = m\<lparr>mnAnimFrame := wrap32 (mnAnimFrame m + 1)\<rparr>"
  have wf: "monster_wf m'" using assms wrap32_frame by (simp add: monster_wf_def m'_def)
  have st: "mnState m' = mnState m" by (simp add: m'_def)
  show ?thesis unfolding Update_def Let_def m'_def [symmetric]
    using idleUpdate_ok [OF wf] patrolUpdate_ok [OF wf] chaseUpdate_ok [OF wf] returnUpdate_ok [OF wf]
      attackUpdate_ok [OF wf] stunUpdate_ok [OF wf] deadUpdate_ok [OF wf] st
    by (cases "mnState m") simp_all
qed

text \<open>What a tick leaves alone: which monster it is and its sectors.\<close>

definition same_home :: "monster \<Rightarrow> monster \<Rightarrow> bool" where
  "same_home m m' \<longleftrightarrow> mnMonsterID m' = mnMonsterID m \<and> mnSector m' = mnSector m \<and>
     mnDestSector m' = mnDestSector m \<and> mnBeforeState m' = mnBeforeState m \<and>
     mnBeforeDirection m' = mnBeforeDirection m"

lemma same_home_trans: "same_home m m' \<Longrightarrow> same_home m' m'' \<Longrightarrow> same_home m m''"
  by (simp add: same_home_def)

lemma same_home_updates [simp]:
  "same_home m m" "same_home m (m\<lparr>mnDirection := d\<rparr>)" "same_home m (m\<lparr>mnAnimFrame := n\<rparr>)"
  "same_home m (m\<lparr>mnHitStunFrame := h\<rparr>)" "same_home m (changeDirection d m)" "same_home m (m\<lparr>mnTargetPos := q\<rparr>)"
  "same_home m (m\<lparr>mnStartMovePos := q, mnPos := r, mnHp := h\<rparr>)"
  by (simp_all add: same_home_def changeDirection_def)

lemma changeState_home: "changeState t m = Inr m' \<Longrightarrow> same_home m m'"
  by (auto simp: changeState_def resetAnimStart_def same_home_def assertR_Inr_iff)

lemma moveUpdate_home: "moveUpdate m = Inr m' \<Longrightarrow> same_home m m'"
  by (auto simp: moveUpdate_def same_home_def Inr_iffs)

lemma giveUpChase_home: "giveUpChase m = Inr m' \<Longrightarrow> same_home m m'"
  by (auto simp: giveUpChase_def changeState_home split: if_splits)

lemma idleUpdate_home:
  assumes "idleUpdate m g = Inr (m', g')"
  shows "same_home m m'"
proof -
  have "same_home m m'" if "changeState MMove (m\<lparr>mnDirection := d\<rparr>) = Inr m'" for d
    using same_home_trans [OF _ changeState_home [OF that], of m] by simp
  then show ?thesis using assms
    by (auto simp: idleUpdate_def Let_def Inr_iffs split: if_splits prod.splits)
qed

lemma patrolUpdate_home: "patrolUpdate m g = Inr (m', g') \<Longrightarrow> same_home m m'"
  by (auto simp: patrolUpdate_def Let_def Inr_iffs split: if_splits prod.splits
      dest: changeState_home moveUpdate_home)

lemma chaseUpdate_home:
  assumes "chaseUpdate t m = Inr m'"
  shows "same_home m m'"
proof -
  define d where "d = getDirectionTo (posX (mnPos m)) (posY (mnPos m)) (posX t) (posY t)"
  have "same_home m m'" if "changeState MAttack (changeDirection d m) = Inr m' \<or> moveUpdate (changeDirection d m) = Inr m'"
    using that same_home_trans [of m "changeDirection d m" m']
    by (auto dest: changeState_home moveUpdate_home)
  then show ?thesis using assms unfolding chaseUpdate_def Let_def d_def [symmetric]
    by (auto split: if_splits dest: giveUpChase_home moveUpdate_home)
qed

lemma deadUpdate_home: "deadUpdate m = Inr m' \<Longrightarrow> same_home m m'"
  by (auto simp: deadUpdate_def Inr_iffs same_home_def changeState_def resetAnimStart_def split: if_splits)

lemma returnUpdate_home:
  assumes "returnUpdate m = Inr m'"
  shows "same_home m m'"
proof -
  define d where "d = getDirectionTo (posX (mnPos m)) (posY (mnPos m)) (posX (mnSpawnPos m)) (posY (mnSpawnPos m))"
  obtain m1 where m1: "m1 = m \<or> m1 = changeDirection d m \<or> changeState MIdle m = Inr m1" "moveUpdate m1 = Inr m'"
    using assms unfolding returnUpdate_def d_def [symmetric] by (auto simp: Inr_iffs split: if_splits)
  then have "same_home m m1" using changeState_home by auto
  then show ?thesis using moveUpdate_home [OF m1(2)] same_home_trans by blast
qed

lemma Update_home:
  assumes "Update m g = Inr (m', g')"
  shows "same_home m m'"
proof -
  define m1 where "m1 = m\<lparr>mnAnimFrame := wrap32 (mnAnimFrame m + 1)\<rparr>"
  have st: "mnState m1 = mnState m" by (simp add: m1_def)
  have "same_home m1 m'" using assms unfolding Update_def Let_def m1_def [symmetric]
    by (cases "mnState m")
      (auto simp: st Inr_iffs attackUpdate_def stunUpdate_def split: if_splits
        dest: idleUpdate_home patrolUpdate_home chaseUpdate_home deadUpdate_home returnUpdate_home changeState_home)
  then show ?thesis using same_home_trans [of m m1 m'] by (simp add: m1_def)
qed

lemma newMonster_wf: "in_map p \<Longrightarrow> monster_wf (newMonster i p t)"
  by (simp add: newMonster_def monster_wf_def dir_ok_def MONSTER_MAX_HP_def MONSTER_HIT_STUN_FRAME_def)

text \<open>Damage: the hit points, the state it leads to, and the target it sets.\<close>

lemma takeDamage_ok:
  assumes wf: "monster_wf m" and dir: "dir_ok d" and dmg: "0 \<le> damage" "damage < 2 ^ 31"
  shows "\<exists>m'. takeDamage damage p d a m = Inr m' \<and> monster_wf m' \<and>
    mnMonsterID m' = mnMonsterID m \<and> mnSector m' = mnSector m \<and> mnDestSector m' = mnDestSector m \<and>
    (if mnState m = MDead then m' = m
     else mnHp m' = max (mnHp m - damage) 0 \<and> mnAnimFrame m' = 0 \<and>
       mnSpawnPos m' = mnSpawnPos m \<and> mnMaxHp m' = 100 \<and>
       (if mnHp m \<le> damage then mnState m' = MDead \<and> mnTargetPlayerID m' = mnTargetPlayerID m
        else mnState m' = MStun \<and> mnHitStunFrame m' = MONSTER_HIT_STUN_FRAME \<and>
          mnTargetPlayerID m' = a))"
proof (cases "mnState m = MDead")
  case True
  then show ?thesis using wf by (simp add: takeDamage_def)
next
  case False
  have hp: "0 < mnHp m" "mnHp m \<le> 100" using wf False by (auto simp: monster_wf_def MONSTER_MAX_HP_def)
  have w: "wrap32 (mnHp m - damage) = mnHp m - damage" using hp dmg by (intro wrap32_id) simp_all
  obtain v where v: "dirVector d = Inr v" "f_fin (fst v)" "f_fin (snd v)" using dir by (rule dirVector_cases)
  have kd: "f_fin (mnKnockbackDist m)"
  proof -
    have "f_fin (f_lit 30 1)" by code_simp
    then show ?thesis using wf by (simp add: monster_wf_def)
  qed
  have "in_map (knockback (mnPos m) v (mnKnockbackDist m))"
    using wf v kd by (intro knockback_in_map) (simp_all add: monster_wf_def)
  then show ?thesis using wf hp False v dmg
    by (auto simp: takeDamage_def Let_def w changeState_def resetAnimStart_def monster_wf_def
        MONSTER_HIT_STUN_FRAME_def MONSTER_MAX_HP_def)
qed

subsection \<open>Several ticks\<close>

fun monsterTicks :: "nat \<Rightarrow> monster \<Rightarrow> rng \<Rightarrow> (monster \<times> rng) res" where
  "monsterTicks 0 m g = Inr (m, g)"
| "monsterTicks (Suc n) m g = bindR (monsterTicks n m g) (\<lambda>(m, g). Update m g)"

lemma monsterTicks_wf:
  "monster_wf m \<Longrightarrow> \<exists>m' g'. monsterTicks n m g = Inr (m', g') \<and> monster_wf m'"
proof (induction n)
  case (Suc n)
  then obtain m' g' where "monsterTicks n m g = Inr (m', g')" "monster_wf m'" by auto
  then show ?case using Update_tick [of m' g'] by (auto simp: tick_ok_def)
qed simp

lemma frame_step: "n < 1000 \<Longrightarrow> wrap32 (1 + int n) = 1 + int n"
  by (intro wrap32_id) simp_all

lemma dead_ticks:
  assumes "mnState m = MDead" "mnAnimFrame m = 0" "n < 500"
  shows "monsterTicks n m g = Inr (m\<lparr>mnAnimFrame := int n\<rparr>, g)"
  using assms
proof (induction n)
  case (Suc n)
  then show ?case
    by (simp add: Update_def Let_def deadUpdate_def MONSTER_RESPAWN_FRAME_def frame_step add.commute)
qed simp

lemma stun_ticks:
  assumes "mnState m = MStun" "mnAnimFrame m = 0" "mnHitStunFrame m = 50" "n \<le> 50"
  shows "monsterTicks n m g = Inr (m\<lparr>mnAnimFrame := int n, mnHitStunFrame := 50 - int n\<rparr>, g)"
  using assms
proof (induction n)
  case (Suc n)
  then show ?case
    by (simp add: Update_def Let_def stunUpdate_def frame_step add.commute)
qed simp

lemma attack_ticks:
  assumes "mnState m = MAttack" "mnAnimFrame m = 0" "n < 80"
  shows "monsterTicks n m g = Inr (m\<lparr>mnAnimFrame := int n\<rparr>, g)"
  using assms
proof (induction n)
  case (Suc n)
  then show ?case
    by (simp add: Update_def Let_def attackUpdate_def MONSTER_ATTACK_TOTAL_FRAME_def frame_step
        add.commute)
qed simp

subsection \<open>Properties\<close>

text \<open>
  C29. A tick of a monster never fails: from a well-formed monster (inside the map, hit points between
  0 and 100, dead exactly at 0, one of the eight directions) \<open>Update\<close> trips no assertion and
  reads no table out of range, whatever the random numbers and the target position are, even NaN;
  the result is well-formed, so the monster stays inside the map, and its state has changed along an
  edge of the state machine only.
\<close>

theorem monster_update_safe:
  assumes "monster_wf m"
  shows "\<exists>m' g'. Update m g = Inr (m', g') \<and> monster_wf m' \<and> monster_edge (mnState m) (mnState m')"
  using Update_tick [OF assms, of g] by (simp add: tick_ok_def)

definition sampleMonster :: monster where
  "sampleMonster = newMonster 7 (Position (f_lit 3000 1) (f_lit 1000 1)) 0"

lemma sampleMonster_wf: "monster_wf sampleMonster"
proof -
  have "in_map (Position (f_lit 3000 1) (f_lit 1000 1))" by code_simp
  then show ?thesis unfolding sampleMonster_def by (rule newMonster_wf)
qed

lemma monster_update_safe_witness:
  "\<exists>m' g'. Update sampleMonster (\<lambda>_. 5) = Inr (m', g') \<and> monster_wf m' \<and>
     monster_edge (mnState sampleMonster) (mnState m')"
  by (rule monster_update_safe [OF sampleMonster_wf])

text \<open>
  C30. The life of a monster that is hit and not killed, and of one that is killed. A hit takes exactly
  its damage, down to 0. At 0 the monster is dead; dead it stays, where it fell, for 499 ticks, and
  the 500th makes it idle at its spawn position with full hit points. A survivor is stunned, turns
  its target to the attacker, and after 50 ticks of stun the 51st lets it chase.
\<close>

theorem monster_hit_cycle:
  assumes "monster_wf m" "mnState m \<noteq> MDead" "dir_ok d" "0 \<le> damage" "damage < 2 ^ 31"
  shows "\<exists>m1. takeDamage damage p d attacker m = Inr m1 \<and> mnHp m1 = max (mnHp m - damage) 0 \<and>
    (if mnHp m \<le> damage
     then mnState m1 = MDead \<and>
       (\<forall>n<500. \<exists>m2. monsterTicks n m1 g = Inr (m2, g) \<and> mnState m2 = MDead \<and> mnPos m2 = mnPos m1) \<and>
       (\<exists>m3. monsterTicks 500 m1 g = Inr (m3, g) \<and> mnState m3 = MIdle \<and>
          mnPos m3 = mnSpawnPos m \<and> mnHp m3 = 100)
     else mnTargetPlayerID m1 = attacker \<and>
       (\<forall>n\<le>50. \<exists>m2. monsterTicks n m1 g = Inr (m2, g) \<and> mnState m2 = MStun) \<and>
       (\<exists>m3. monsterTicks 51 m1 g = Inr (m3, g) \<and> mnState m3 = MChase \<and>
          mnTargetPlayerID m3 = attacker))"
proof -
  obtain m1 where m1: "takeDamage damage p d attacker m = Inr m1"
      "mnHp m1 = max (mnHp m - damage) 0"
      "if mnHp m \<le> damage then mnState m1 = MDead
       else mnState m1 = MStun \<and> mnHitStunFrame m1 = 50 \<and> mnTargetPlayerID m1 = attacker"
      and fr: "mnAnimFrame m1 = 0" and sp: "mnSpawnPos m1 = mnSpawnPos m" and mx: "mnMaxHp m1 = 100"
    using takeDamage_ok [OF assms(1,3-5), of p attacker] assms(2)
    by (cases "mnHp m \<le> damage") (auto simp: MONSTER_HIT_STUN_FRAME_def)
  have e500: "monsterTicks 500 m1 g = bindR (monsterTicks 499 m1 g) (\<lambda>(m, g). Update m g)"
    and e51: "monsterTicks 51 m1 g = bindR (monsterTicks 50 m1 g) (\<lambda>(m, g). Update m g)"
    using monsterTicks.simps(2) [of 499 m1 g] monsterTicks.simps(2) [of 50 m1 g]
    by (simp_all del: monsterTicks.simps)
  show ?thesis
  proof (cases "mnHp m \<le> damage")
    case True
    then have dead: "mnState m1 = MDead" using m1 by simp
    have "\<exists>m3. monsterTicks 500 m1 g = Inr (m3, g) \<and> mnState m3 = MIdle \<and>
          mnPos m3 = mnSpawnPos m \<and> mnHp m3 = 100"
      unfolding e500 using dead_ticks [OF dead fr, of 499 g] dead sp mx
      by (simp add: Update_def Let_def deadUpdate_def MONSTER_RESPAWN_FRAME_def frame_step
          changeState_def resetAnimStart_def wrap32_id)
    moreover have "\<forall>n<500. \<exists>m2. monsterTicks n m1 g = Inr (m2, g) \<and> mnState m2 = MDead \<and> mnPos m2 = mnPos m1"
      using dead_ticks [OF dead fr] dead by simp
    ultimately show ?thesis using True m1(1,2) dead by simp
  next
    case False
    then have stun: "mnState m1 = MStun" "mnHitStunFrame m1 = 50" "mnTargetPlayerID m1 = attacker"
      using m1 by simp_all
    have "\<exists>m3. monsterTicks 51 m1 g = Inr (m3, g) \<and> mnState m3 = MChase \<and> mnTargetPlayerID m3 = attacker"
      unfolding e51 using stun_ticks [OF stun(1) fr stun(2), of 50 g] stun
      by (simp add: Update_def Let_def stunUpdate_def changeState_def resetAnimStart_def)
    moreover have "\<forall>n\<le>50. \<exists>m2. monsterTicks n m1 g = Inr (m2, g) \<and> mnState m2 = MStun"
      using stun_ticks [OF stun(1) fr stun(2)] stun by simp
    ultimately show ?thesis using False m1(1,2) stun by simp
  qed
qed

lemma monster_hit_cycle_witness:
  "\<exists>m1. takeDamage 35 (Position (f_lit 2990 1) (f_lit 1000 1)) DirRight 42 sampleMonster = Inr m1 \<and>
     mnHp m1 = 65 \<and> mnTargetPlayerID m1 = 42 \<and>
     (\<exists>m3. monsterTicks 51 m1 (\<lambda>_. 5) = Inr (m3, \<lambda>_. 5) \<and> mnState m3 = MChase)"
proof -
  have hp: "mnHp sampleMonster = 100" "mnState sampleMonster \<noteq> MDead"
    by (simp_all add: sampleMonster_def newMonster_def MONSTER_MAX_HP_def)
  show ?thesis
    using monster_hit_cycle [OF sampleMonster_wf hp(2), of DirRight 35
        "Position (f_lit 2990 1) (f_lit 1000 1)" 42 "\<lambda>_. 5"] hp
    by (auto simp: dir_ok_def)
qed

end
