(* ===== verification/FieldItem.thy ===== *)
theory FieldItem
  imports Monster
begin

text \<open>
  Items on the field: \<open>contents::FieldItem\<close> (\<open>FieldServer/Contents/FieldItem.cpp\<close>) and the drop
  table (\<open>FieldServer/DropTable.h\<close>), whose roll draws random numbers until one is usable.
\<close>

subsection \<open>Items\<close>

record fieldItem =
  itItemUniqueId :: int
  itItemId :: eItemId
  itCount :: int
  itPos :: position
  itSector :: sector
  itLifeFrame :: int

definition ITEM_DESPAWN_FRAME :: int where "ITEM_DESPAWN_FRAME = 1500"

definition newFieldItem :: "int \<Rightarrow> eItemId \<Rightarrow> int \<Rightarrow> position \<Rightarrow> fieldItem" where
  "newFieldItem itemUniqueId itemId cnt pos =
     \<lparr> itItemUniqueId = itemUniqueId, itItemId = itemId, itCount = cnt, itPos = pos,
       itSector = Sector 0 0, itLifeFrame = 0 \<rparr>"

definition itemUpdate :: "fieldItem \<Rightarrow> fieldItem" where
  "itemUpdate it = it\<lparr>itLifeFrame := wrap32 (itLifeFrame it + 1)\<rparr>"

definition IsExpired :: "fieldItem \<Rightarrow> bool" where
  "IsExpired it \<longleftrightarrow> ITEM_DESPAWN_FRAME \<le> itLifeFrame it"

subsection \<open>The drop table\<close>

record dropEntry =
  deItemId :: eItemId
  deCount :: int
  deDropRate :: int

definition kDropTable :: "dropEntry list" where
  "kDropTable =
     [\<lparr> deItemId = Gold, deCount = 1, deDropRate = 50 \<rparr>,
      \<lparr> deItemId = Gold, deCount = 5, deDropRate = 20 \<rparr>,
      \<lparr> deItemId = Gold, deCount = 10, deDropRate = 10 \<rparr>,
      \<lparr> deItemId = Potion, deCount = 1, deDropRate = 20 \<rparr>]"

text \<open>The redraw loop, which runs for as long as \<open>rand()\<close> answers at least 32700.\<close>

partial_function (option) drawBelow :: "rng \<Rightarrow> (int \<times> rng) option" where
  "drawBelow g = (let (r, g) = rand g in if 32700 \<le> r then drawBelow g else Some (r, g))"

fun pickDrop :: "dropEntry list \<Rightarrow> int \<Rightarrow> int \<Rightarrow> (eItemId \<times> int) option" where
  "pickDrop [] roll acc = None"
| "pickDrop (e # es) roll acc =
     (let acc = acc + deDropRate e
      in if roll < acc then Some (deItemId e, deCount e) else pickDrop es roll acc)"

definition rollDrop :: "rng \<Rightarrow> ((eItemId \<times> int) option \<times> rng) res" where
  "rollDrop g =
     (case drawBelow g of
        None \<Rightarrow> Inl NoReturn
      | Some (r, g) \<Rightarrow> Inr (pickDrop kDropTable (r mod 100) 0, g))"

subsection \<open>Laws\<close>

text \<open>The loop ends as soon as the generator answers below 32700, and only then.\<close>

lemma drawBelow_first:
  "g n < 32700 \<Longrightarrow> \<forall>k<n. 32700 \<le> g k \<Longrightarrow> drawBelow g = Some (g n, \<lambda>k. g (Suc (n + k)))"
proof (induction n arbitrary: g)
  case 0
  then show ?case by (subst drawBelow.simps) (simp add: rand_def)
next
  case (Suc n)
  have "drawBelow g = drawBelow (\<lambda>n. g (Suc n))"
    using Suc.prems(2) by (subst drawBelow.simps) (simp add: rand_def)
  then show ?case using Suc.IH [of "\<lambda>n. g (Suc n)"] Suc.prems by simp
qed

lemma drawBelow_returns:
  assumes "\<exists>n. g n < 32700"
  shows "\<exists>n. g n < 32700 \<and> (\<forall>k<n. 32700 \<le> g k) \<and> drawBelow g = Some (g n, \<lambda>k. g (Suc (n + k)))"
proof -
  define n where "n = (LEAST n. g n < 32700)"
  have "g n < 32700" unfolding n_def using assms by (metis LeastI_ex)
  moreover have "\<forall>k<n. 32700 \<le> g k"
    unfolding n_def by (metis not_less not_less_Least)
  ultimately show ?thesis using drawBelow_first by blast
qed

lemma pickDrop_always: "0 \<le> roll \<Longrightarrow> roll < 100 \<Longrightarrow> \<exists>d. pickDrop kDropTable roll 0 = Some d"
  by (simp add: kDropTable_def)

lemma rollDrop_ok:
  assumes "\<exists>n. g n < 32700"
  shows "\<exists>i c n. rollDrop g = Inr (Some (i, c), \<lambda>k. g (Suc (n + k))) \<and>
    (i, c) \<in> {(Gold, 1), (Gold, 5), (Gold, 10), (Potion, 1)}"
proof -
  obtain n where n: "drawBelow g = Some (g n, \<lambda>k. g (Suc (n + k)))"
    using drawBelow_returns [OF assms] by blast
  have "0 \<le> g n mod 100" "g n mod 100 < 100" by simp_all
  then show ?thesis using n
    by (auto simp: rollDrop_def kDropTable_def Let_def)
qed

end
