(* ===== verification/FieldState.thy ===== *)
theory FieldState
  imports Player FieldItem
begin

text \<open>
  The state of \<open>contents::FieldServer\<close> (\<open>FieldServer/FieldServer.h\<close>, the thread-local tables at
  the top of \<open>FieldServer.cpp\<close>), its jobs for the database thread (\<open>Contents/DBJob.h\<close>), the
  packet statistics (\<open>PacketStats.cpp\<close>), and the grid of sectors: which sector a position is in,
  the sectors around one, and the sectors that come into and go out of sight.

  A \<open>Player*\<close> is the session number of the player (every player has its own), dereferenced through
  the table of live objects \<open>svObjs\<close>; a missing object is a dangling pointer. The
  \<open>unordered_map\<close>s and \<open>unordered_set\<close>s are lists in iteration order.
\<close>

subsection \<open>Jobs of the database thread\<close>

datatype dbJob =
    DBPositionSave int int position
  | DBKillCountUpdate int int "byte list" int
  | DBRankingQuery int int "byte list"

record rankEntry =
  reNickname :: "byte list"
  reKillCount :: int

datatype dbResult =
    DBPositionSaved int bool
  | DBKillCountUpdated int bool
  | DBRankingResult int bool int int int "rankEntry list"

definition DB_POSITION_SAVE_PENDING_BIT :: "64 word" where
  "DB_POSITION_SAVE_PENDING_BIT = push_bit 63 1"

subsection \<open>Constants\<close>

definition CONFIG_AUTH_FIELD_IDX :: int where "CONFIG_AUTH_FIELD_IDX = - 1"
definition CONFIG_UNAUTH_MAX_SIZE :: nat where "CONFIG_UNAUTH_MAX_SIZE = 10000"
definition CONFIG_UNAUTH_HEARTBEAT_TIMER :: int where "CONFIG_UNAUTH_HEARTBEAT_TIMER = 30000"
definition CONFIG_FIELD_SIZE :: int where "CONFIG_FIELD_SIZE = 1"
definition CONFIG_FRAME_INTERVAL :: int where "CONFIG_FRAME_INTERVAL = 20"
definition CONFIG_DISCONNECT_AND_LEAVE_CAP :: nat where "CONFIG_DISCONNECT_AND_LEAVE_CAP = 1000"
definition CONFIG_SINK_ABLE :: int where "CONFIG_SINK_ABLE = 100"
definition CONFIG_SINK_MAXCOUNT :: int where "CONFIG_SINK_MAXCOUNT = 300"
definition CONFIG_SESSION_SENDQ_CAPPACITY :: int where "CONFIG_SESSION_SENDQ_CAPPACITY = 500"
definition syncDistance :: f32 where "syncDistance = f_of_int CONFIG_SINK_ABLE"

subsection \<open>State\<close>

record server =
  svNow :: int
  svOn :: bool
  svCharacterID :: int
  svItemUniqueID :: int
  svRng :: rng
  svObjs :: "(int \<times> player) list"
  svUnAuth :: "int list"
  svAccounts :: "(int \<times> int) list"
  svAuthPlayers :: "int list"
  svPlayers :: "int list"
  svMonsters :: "(int \<times> monster) list"
  svItems :: "(int \<times> fieldItem) list"
  svSectors :: "sector \<Rightarrow> int list"
  svMonsterSectors :: "sector \<Rightarrow> int list"
  svItemSectors :: "sector \<Rightarrow> int list"
  svMsgQ :: "message list"
  svNotifyQ :: "message list"
  svDBReqQ :: "dbJob list"
  svDBResQ :: "dbResult list"
  svOut :: "(int \<times> message) list"
  svDiscon :: "int list"
  svPlayerCnt :: int
  svDisconnectSync :: int
  svDisconnectHeartBeat :: int
  svDisconnectSendQ :: int
  svLootCount :: int
  svSendCount :: "int \<Rightarrow> int"
  svRecvCount :: "int \<Rightarrow> int"

definition newServer :: "int \<Rightarrow> rng \<Rightarrow> server" where
  "newServer now g =
     \<lparr> svNow = now, svOn = True, svCharacterID = 0, svItemUniqueID = 0, svRng = g, svObjs = [],
       svUnAuth = [], svAccounts = [], svAuthPlayers = [], svPlayers = [], svMonsters = [],
       svItems = [], svSectors = (\<lambda>_. []), svMonsterSectors = (\<lambda>_. []), svItemSectors = (\<lambda>_. []),
       svMsgQ = [], svNotifyQ = [], svDBReqQ = [], svDBResQ = [], svOut = [], svDiscon = [],
       svPlayerCnt = 0, svDisconnectSync = 0, svDisconnectHeartBeat = 0, svDisconnectSendQ = 0,
       svLootCount = 0, svSendCount = (\<lambda>_. 0), svRecvCount = (\<lambda>_. 0) \<rparr>"

text \<open>Dereferencing a pointer, and writing through one.\<close>

definition derefP :: "int \<Rightarrow> server \<Rightarrow> (player \<Rightarrow> 'a res) \<Rightarrow> 'a res" where
  "derefP k s f = (case map_of (svObjs s) k of None \<Rightarrow> Inl UndefinedBehaviour | Some p \<Rightarrow> f p)"

definition derefM :: "int \<Rightarrow> server \<Rightarrow> (monster \<Rightarrow> 'a res) \<Rightarrow> 'a res" where
  "derefM k s f = (case map_of (svMonsters s) k of None \<Rightarrow> Inl UndefinedBehaviour | Some m \<Rightarrow> f m)"

definition derefI :: "int \<Rightarrow> server \<Rightarrow> (fieldItem \<Rightarrow> 'a res) \<Rightarrow> 'a res" where
  "derefI k s f = (case map_of (svItems s) k of None \<Rightarrow> Inl UndefinedBehaviour | Some it \<Rightarrow> f it)"

definition putP :: "player \<Rightarrow> server \<Rightarrow> server" where
  "putP p s = s\<lparr>svObjs := alUpd (plSeqID p) p (svObjs s)\<rparr>"

definition putM :: "monster \<Rightarrow> server \<Rightarrow> server" where
  "putM m s = s\<lparr>svMonsters := alUpd (mnMonsterID m) m (svMonsters s)\<rparr>"

definition putI :: "fieldItem \<Rightarrow> server \<Rightarrow> server" where
  "putI it s = s\<lparr>svItems := alUpd (itItemUniqueId it) it (svItems s)\<rparr>"

text \<open>\<open>players.find(seqID)\<close> of the field thread.\<close>

definition findPlayer :: "int \<Rightarrow> server \<Rightarrow> player option" where
  "findPlayer seqID s = (if seqID \<in> set (svPlayers s) then map_of (svObjs s) seqID else None)"

subsection \<open>Statistics\<close>

definition kTableSize :: int where "kTableSize = 128"

definition RecordSend :: "int \<Rightarrow> server \<Rightarrow> server res" where
  "RecordSend idx s =
     assertR (0 \<le> idx \<and> idx < kTableSize)
       (Inr (s\<lparr>svSendCount := (svSendCount s)(idx := svSendCount s idx + 1)\<rparr>))"

definition RecordRecv :: "int \<Rightarrow> server \<Rightarrow> server res" where
  "RecordRecv idx s =
     assertR (0 \<le> idx \<and> idx < kTableSize)
       (Inr (s\<lparr>svRecvCount := (svRecvCount s)(idx := svRecvCount s idx + 1)\<rparr>))"

subsection \<open>The grid\<close>

definition sector_ok :: "sector \<Rightarrow> bool" where
  "sector_ok c \<longleftrightarrow> 0 \<le> secX c \<and> secX c < SECTOR_COL_CNT \<and> 0 \<le> secY c \<and> secY c < SECTOR_ROW_CNT"

definition aroundOffsets :: "(int \<times> int) list" where
  "aroundOffsets = zip [- 1, - 1, - 1, 0, 0, 0, 1, 1, 1] [- 1, 0, 1, - 1, 0, 1, - 1, 0, 1]"

definition aroundOf :: "sector \<Rightarrow> sector list" where
  "aroundOf c =
     filter sector_ok (map (\<lambda>(dx, dy). Sector (secX c + dx) (secY c + dy)) aroundOffsets)"

text \<open>The cache of neighbourhoods, filled once by the constructor.\<close>

definition allCenters :: "sector list" where
  "allCenters = map (\<lambda>(row, col). Sector (int col) (int row)) (List.product [0..<20] [0..<20])"

definition nearSectorInitalization :: "(sector \<times> sector list) list res" where
  "nearSectorInitalization =
     foldR (\<lambda>center cache. assertR (map_of cache center = None) (Inr (cache @ [(center, aroundOf center)])))
       allCenters []"

definition mAroundSectorCache :: "(sector \<times> sector list) list" where
  "mAroundSectorCache = map (\<lambda>c. (c, aroundOf c)) allCenters"

definition getAroundSectors :: "sector \<Rightarrow> sector list res" where
  "getAroundSectors center = the_or_break (map_of mAroundSectorCache center) Inr"

definition clampI :: "int \<Rightarrow> int \<Rightarrow> int \<Rightarrow> int" where
  "clampI v lo hi = (if v < lo then lo else if hi < v then hi else v)"

definition calcSector :: "position \<Rightarrow> sector res" where
  "calcSector pos =
     bindR (f_to_i32 (f_div (posX pos) (f_of_int SECTOR_WORLD_W))) (\<lambda>col.
     bindR (f_to_i32 (f_div (posY pos) (f_of_int SECTOR_WORLD_H))) (\<lambda>row.
     Inr (Sector (clampI col 0 (SECTOR_COL_CNT - 1)) (clampI row 0 (SECTOR_ROW_CNT - 1)))))"

text \<open>The sets of the grid.\<close>

definition setIns :: "int \<Rightarrow> int list \<Rightarrow> int list" where
  "setIns k l = (if k \<in> set l then l else l @ [k])"

definition insSector :: "sector \<Rightarrow> int \<Rightarrow> (sector \<Rightarrow> int list) \<Rightarrow> sector \<Rightarrow> int list" where
  "insSector c k g = g(c := setIns k (g c))"

definition delSector :: "sector \<Rightarrow> int \<Rightarrow> (sector \<Rightarrow> int list) \<Rightarrow> sector \<Rightarrow> int list" where
  "delSector c k g = g(c := removeAll k (g c))"

definition enterSector :: "player \<Rightarrow> server \<Rightarrow> server res" where
  "enterSector p s =
     bindR (calcSector (plPos p)) (\<lambda>newSector.
     let p = p\<lparr>plDestSector := newSector, plCurrentSector := newSector\<rparr>
     in assertR (plSeqID p \<notin> set (svSectors s newSector))
          (Inr (putP p (s\<lparr>svSectors := insSector newSector (plSeqID p) (svSectors s)\<rparr>))))"

definition updateSectorChechk :: "player \<Rightarrow> player res" where
  "updateSectorChechk p =
     bindR (calcSector (plPos p)) (\<lambda>newSector.
     if newSector = plCurrentSector p then Inr p else Inr (p\<lparr>plDestSector := newSector\<rparr>))"

definition updateMonsterSectorCheck :: "monster \<Rightarrow> monster res" where
  "updateMonsterSectorCheck m =
     bindR (calcSector (mnPos m)) (\<lambda>newSector.
     if newSector = mnSector m then Inr m else Inr (m\<lparr>mnDestSector := newSector\<rparr>))"

definition removeFromSector :: "player \<Rightarrow> server \<Rightarrow> server res" where
  "removeFromSector p s =
     assertR (plSeqID p \<in> set (svSectors s (plCurrentSector p)))
       (Inr (s\<lparr>svSectors := delSector (plCurrentSector p) (plSeqID p) (svSectors s)\<rparr>))"

text \<open>
  The two nested erase loops of \<open>calcDespawnAndSpawnSector\<close> and its monster version: a sector in
  both lists is erased from both.
\<close>

fun eraseCommon :: "sector list \<Rightarrow> sector list \<Rightarrow> sector list \<times> sector list" where
  "eraseCommon [] despawn = ([], despawn)"
| "eraseCommon (c # spawn) despawn =
     (if c \<in> set despawn then eraseCommon spawn (remove1 c despawn)
      else let (sp, de) = eraseCommon spawn despawn in (c # sp, de))"

definition calcDespawnAndSpawnSector :: "player \<Rightarrow> (sector list \<times> sector list) res" where
  "calcDespawnAndSpawnSector p =
     bindR (getAroundSectors (plDestSector p)) (\<lambda>spawn.
     bindR (getAroundSectors (plCurrentSector p)) (\<lambda>despawn.
     Inr (eraseCommon spawn despawn)))"

definition calcMonsterDespawnAndSpawnSector :: "monster \<Rightarrow> (sector list \<times> sector list) res" where
  "calcMonsterDespawnAndSpawnSector m =
     bindR (getAroundSectors (mnDestSector m)) (\<lambda>spawn.
     bindR (getAroundSectors (mnSector m)) (\<lambda>despawn.
     Inr (eraseCommon spawn despawn)))"

subsection \<open>Laws of the grid\<close>

lemma set_allCenters: "set allCenters = {c. sector_ok c}"
proof (rule set_eqI)
  fix c
  show "c \<in> set allCenters \<longleftrightarrow> c \<in> {c. sector_ok c}"
  proof
    assume "c \<in> set allCenters"
    then show "c \<in> {c. sector_ok c}"
      by (auto simp: allCenters_def sector_ok_def SECTOR_COL_CNT_def SECTOR_ROW_CNT_def)
  next
    assume "c \<in> {c. sector_ok c}"
    then obtain x y where c: "c = Sector x y" "0 \<le> x" "x < 20" "0 \<le> y" "y < 20"
      by (cases c) (auto simp: sector_ok_def SECTOR_COL_CNT_def SECTOR_ROW_CNT_def)
    then have "(nat y, nat x) \<in> set (List.product [0..<20] [0..<20])" by auto
    moreover have "c = (\<lambda>(row, col). Sector (int col) (int row)) (nat y, nat x)" using c by simp
    ultimately show "c \<in> set allCenters" unfolding allCenters_def set_map by (metis imageI)
  qed
qed

lemma distinct_allCenters: "distinct allCenters"
  unfolding allCenters_def distinct_map
  by (auto simp: distinct_product inj_on_def)

lemma map_of_graph: "map_of (map (\<lambda>c. (c, f c)) cs) c = (if c \<in> set cs then Some (f c) else None)"
  by (induction cs) auto

lemma getAroundSectors_eq:
  "getAroundSectors c = (if sector_ok c then Inr (aroundOf c) else Inl DebugBreak)"
  by (simp add: getAroundSectors_def mAroundSectorCache_def map_of_graph set_allCenters)

lemma nearSectorInitalization_eq: "nearSectorInitalization = Inr mAroundSectorCache"
proof -
  have "foldR (\<lambda>center cache. assertR (map_of cache center = None) (Inr (cache @ [(center, aroundOf center)])))
      cs (map (\<lambda>c. (c, aroundOf c)) bs) = Inr (map (\<lambda>c. (c, aroundOf c)) (bs @ cs))"
    if "distinct (bs @ cs)" for bs cs
    using that
  proof (induction cs arbitrary: bs)
    case (Cons c cs)
    then show ?case using Cons.IH [of "bs @ [c]"] by (simp add: map_of_graph)
  qed simp
  from this [of "[]" allCenters] show ?thesis
    by (simp add: nearSectorInitalization_def mAroundSectorCache_def distinct_allCenters)
qed

lemma set_aroundOffsets: "set aroundOffsets = {- 1, 0, 1} \<times> {- 1, 0, 1}"
  by (auto simp: aroundOffsets_def)

lemma set_aroundOf:
  "set (aroundOf c) = {d. sector_ok d \<and> \<bar>secX d - secX c\<bar> \<le> 1 \<and> \<bar>secY d - secY c\<bar> \<le> 1}"
proof (rule set_eqI)
  fix d
  have near: "u - v \<in> {- 1, 0, 1}" if "\<bar>u - v\<bar> \<le> 1" for u v :: int using that by auto
  have "d \<in> (\<lambda>(dx, dy). Sector (secX c + dx) (secY c + dy)) ` ({- 1, 0, 1} \<times> {- 1, 0, 1}) \<longleftrightarrow>
      \<bar>secX d - secX c\<bar> \<le> 1 \<and> \<bar>secY d - secY c\<bar> \<le> 1"
  proof
    assume "\<bar>secX d - secX c\<bar> \<le> 1 \<and> \<bar>secY d - secY c\<bar> \<le> 1"
    then have "(secX d - secX c, secY d - secY c) \<in> {- 1, 0, 1} \<times> {- 1, 0, 1}" using near by blast
    moreover have "d = (\<lambda>(dx, dy). Sector (secX c + dx) (secY c + dy)) (secX d - secX c, secY d - secY c)"
      by simp
    ultimately show "d \<in> (\<lambda>(dx, dy). Sector (secX c + dx) (secY c + dy)) ` ({- 1, 0, 1} \<times> {- 1, 0, 1})"
      by (metis imageI)
  qed auto
  then show "d \<in> set (aroundOf c) \<longleftrightarrow>
      d \<in> {d. sector_ok d \<and> \<bar>secX d - secX c\<bar> \<le> 1 \<and> \<bar>secY d - secY c\<bar> \<le> 1}"
    by (auto simp: aroundOf_def set_aroundOffsets)
qed

lemma distinct_aroundOf: "distinct (aroundOf c)"
  unfolding aroundOf_def by (cases c, rule distinct_filter) (simp add: aroundOffsets_def)

lemma aroundOf_ok: "d \<in> set (aroundOf c) \<Longrightarrow> sector_ok d"
  by (simp add: set_aroundOf)

lemma aroundOf_self: "sector_ok c \<Longrightarrow> c \<in> set (aroundOf c)"
  by (simp add: set_aroundOf)

lemma aroundOf_sym: "sector_ok c \<Longrightarrow> d \<in> set (aroundOf c) \<Longrightarrow> c \<in> set (aroundOf d)"
  by (auto simp: set_aroundOf abs_minus_commute)

lemma length_aroundOf: "length (aroundOf c) \<le> 9"
  unfolding aroundOf_def aroundOffsets_def using length_filter_le [of sector_ok] by (rule order_trans) simp

lemma clampI_range: "lo \<le> hi \<Longrightarrow> lo \<le> clampI v lo hi \<and> clampI v lo hi \<le> hi"
  by (simp add: clampI_def)

lemma calcSector_range: "calcSector p = Inr c \<Longrightarrow> sector_ok c"
  by (auto simp: calcSector_def Inr_iffs sector_ok_def SECTOR_COL_CNT_def SECTOR_ROW_CNT_def clampI_def)

text \<open>Dividing a coordinate of at most 8192 by the size of a sector gives a small number.\<close>

lemma sector_index_ok:
  assumes "f_mag x \<le> 1174405120" and "8388608 \<le> f_mag b" "f_mag b < 2139095040" "- 16 \<le> expo b"
  shows "\<exists>i. f_to_i32 (f_div x b) = Inr i"
proof -
  have m: "f_mag (f_div x b) \<le> (29 + 127) * 8388608"
    using assms by (intro f_mag_div [where ca = 13 and eb = "expo b"]) auto
  then have "\<bar>f_trunc (f_div x b)\<bar> \<le> 1073741824" by (rule f_trunc_bound) simp_all
  then show ?thesis using m by (auto simp: f_to_i32_def f_fin_def)
qed

lemma sector_size_facts:
  "8388608 \<le> f_mag (f_of_int SECTOR_WORLD_W) \<and> f_mag (f_of_int SECTOR_WORLD_W) < 2139095040 \<and>
     - 16 \<le> expo (f_of_int SECTOR_WORLD_W)"
  "8388608 \<le> f_mag (f_of_int SECTOR_WORLD_H) \<and> f_mag (f_of_int SECTOR_WORLD_H) < 2139095040 \<and>
     - 16 \<le> expo (f_of_int SECTOR_WORLD_H)"
  by code_simp+

lemma in_map_mag: "in_map p \<Longrightarrow> f_mag (posX p) \<le> 1174405120 \<and> f_mag (posY p) \<le> 1174405120"
  using f_le_mag [of "f_lit 0 1" "posX p" MAP_W] f_le_mag [of "f_lit 0 1" "posY p" MAP_H]
  by (auto simp: in_map_def map_facts)

lemma calcSector_ok:
  assumes "in_map p"
  shows "\<exists>c. calcSector p = Inr c \<and> sector_ok c"
proof -
  obtain i j where "f_to_i32 (f_div (posX p) (f_of_int SECTOR_WORLD_W)) = Inr i"
      "f_to_i32 (f_div (posY p) (f_of_int SECTOR_WORLD_H)) = Inr j"
    using sector_index_ok in_map_mag [OF assms] sector_size_facts by metis
  then have "\<exists>c. calcSector p = Inr c" by (simp add: calcSector_def)
  then show ?thesis using calcSector_range by blast
qed

text \<open>A NaN coordinate makes the conversion to an integer undefined.\<close>

lemma calcSector_nan:
  assumes "f_nan (posX p)"
  shows "calcSector p = Inl UndefinedBehaviour"
proof -
  have q: "\<not> f_fin (f_quiet a)" if "f_nan a" for a :: f32
  proof (cases "uint a div 4194304 mod 2 = 1")
    case True
    then show ?thesis using that by (simp add: f_quiet_def f_nan_def f_fin_def)
  next
    case False
    have u: "0 \<le> uint a" "uint a < 4294967296" using unsigned_less [of a] by simp_all
    define m k where "m = uint a mod 2147483648" and "k = uint a div 2147483648"
    have m: "2139095040 < m" "m < 2147483648" using that by (simp_all add: f_nan_def f_mag_def m_def)
    have "uint a = 2147483648 * k + m" by (simp add: m_def k_def)
    then have a: "uint a = m \<or> uint a = m + 2147483648" using u m by (cases "k = 0"; cases "k = 1") auto
    have hi: "m < 2143289344"
    proof (rule ccontr)
      assume "\<not> m < 2143289344"
      then have "uint a div 4194304 = 511 \<or> uint a div 4194304 = 1023"
        using a m int_div_pos_eq [of "uint a" 4194304 511 "uint a - 2143289344"]
          int_div_pos_eq [of "uint a" 4194304 1023 "uint a - 4290772992"] by auto
      then show False using False by auto
    qed
    have "uint (a + 4194304) = uint a + 4194304"
    proof -
      have "uint a + 4194304 < 2 ^ LENGTH(32)" using a hi by auto
      then show ?thesis using uint_plus_simple_iff [of a 4194304] by (simp add: no_olen_add)
    qed
    then have "f_mag (a + 4194304) = (uint a + 4194304) mod 2147483648" by (simp add: f_mag_def)
    also have "\<dots> = m + 4194304"
    proof -
      have w: "(x + 2147483648) mod 2147483648 = x" if "0 \<le> x" "x < 2147483648" for x :: int
        using that by simp
      from a show ?thesis
      proof
        assume "uint a = m"
        then show ?thesis using hi m by simp
      next
        assume "uint a = m + 2147483648"
        then have e: "uint a + 4194304 = (m + 4194304) + 2147483648" by simp
        show ?thesis unfolding e using hi m by (intro w) simp_all
      qed
    qed
    finally show ?thesis using False m by (simp add: f_quiet_def f_fin_def)
  qed
  have "f_div (posX p) b = f_quiet (posX p)" for b using assms by (simp add: f_div_def)
  then show ?thesis using q [OF assms] by (simp add: calcSector_def f_to_i32_def)
qed

lemma eraseCommon_eq:
  assumes "distinct spawn" "distinct despawn"
  shows "eraseCommon spawn despawn =
    (filter (\<lambda>c. c \<notin> set despawn) spawn, filter (\<lambda>c. c \<notin> set spawn) despawn)"
  using assms
proof (induction spawn arbitrary: despawn)
  case Nil
  then show ?case by simp
next
  case (Cons c spawn)
  show ?case
  proof (cases "c \<in> set despawn")
    case True
    have "filter (\<lambda>d. d \<notin> set (remove1 c despawn)) spawn = filter (\<lambda>d. d \<notin> set despawn) spawn"
      using Cons.prems by (auto intro!: filter_cong simp: set_remove1_eq)
    moreover have "filter (\<lambda>d. d \<notin> set spawn) (remove1 c despawn) =
        filter (\<lambda>d. d \<notin> set (c # spawn)) despawn"
      using Cons.prems by (simp add: distinct_remove1_removeAll removeAll_filter_not_eq)
        (metis (mono_tags, lifting) filter_cong)
    ultimately show ?thesis using Cons True by simp
  next
    case False
    have "filter (\<lambda>d. d \<notin> set spawn) despawn = filter (\<lambda>d. d \<notin> set (c # spawn)) despawn"
      using False by (auto intro: filter_cong)
    then show ?thesis using Cons False by simp
  qed
qed

subsection \<open>Distances\<close>

lemma syncDistance_facts: "f_mag syncDistance = 1120403456" "\<not> f_sign syncDistance" "key syncDistance = 1120403456"
  by code_simp+

lemma pos_dist_mag:
  assumes "in_map p" "in_map q"
  shows "f_mag (pos_dist p q) \<le> (20 + 127) * 8388608"
proof -
  have m: "f_mag (posX r) \<le> (13 + 127) * 8388608" "f_mag (posY r) \<le> (13 + 127) * 8388608" if "in_map r" for r
    using in_map_mag [OF that] by simp_all
  have x: "f_mag (f_sub (posX p) (posX q)) \<le> (13 + 2 + 127) * 8388608"
    and y: "f_mag (f_sub (posY p) (posY q)) \<le> (13 + 2 + 127) * 8388608"
    using m [OF assms(1)] m [OF assms(2)] by (intro f_mag_sub; simp)+
  have xx: "f_mag (f_mul (f_sub (posX p) (posX q)) (f_sub (posX p) (posX q))) \<le> (2 * 15 + 2 + 127) * 8388608"
    and yy: "f_mag (f_mul (f_sub (posY p) (posY q)) (f_sub (posY p) (posY q))) \<le> (2 * 15 + 2 + 127) * 8388608"
    using x y by (intro f_mag_mul; simp)+
  have "f_mag (f_add (f_mul (f_sub (posX p) (posX q)) (f_sub (posX p) (posX q)))
      (f_mul (f_sub (posY p) (posY q)) (f_sub (posY p) (posY q)))) \<le> (32 + 2 + 127) * 8388608"
    using xx yy by (intro f_mag_add) simp_all
  moreover have "\<not> f_sign (f_add (f_mul (f_sub (posX p) (posX q)) (f_sub (posX p) (posX q)))
      (f_mul (f_sub (posY p) (posY q)) (f_sub (posY p) (posY q))))"
    using in_map_fin [OF assms(1)] in_map_fin [OF assms(2)]
    by (simp add: f_add_nonneg f_square f_sub_not_nan)
  ultimately have "f_mag (pos_dist p q) \<le> (34 div 2 + 3 + 127) * 8388608"
    unfolding pos_dist_def by (intro f_mag_sqrt) simp_all
  then show ?thesis by simp
qed

text \<open>So the excess over the distance allowed is a small number, whatever the places of the map.\<close>

lemma sync_excess_ok:
  assumes "in_map p" "in_map q" "f_lt syncDistance (pos_dist p q)"
  shows "\<exists>d. f_to_u64 (f_sub (pos_dist p q) syncDistance) = Inr d \<and> 0 \<le> d \<and> d \<le> 1073741824"
proof -
  define a where "a = pos_dist p q"
  have m: "f_mag a \<le> (20 + 127) * 8388608" using pos_dist_mag [OF assms(1,2)] by (simp add: a_def)
  have lt: "1120403456 < key a" using assms(3) syncDistance_facts by (simp add: f_lt_def a_def)
  then have s: "\<not> f_sign a" "f_mag syncDistance \<le> f_mag a"
    using f_mag_range [of a] syncDistance_facts by (auto simp: key_def split: if_splits)
  have fin: "f_fin a" "f_fin syncDistance" using m syncDistance_facts by (simp_all add: f_fin_def)
  have sg: "\<not> f_sign (f_sub a syncDistance)"
    using fin s syncDistance_facts by (intro f_sub_sign) simp_all
  have "f_mag (f_sub a syncDistance) \<le> (20 + 2 + 127) * 8388608"
    using m syncDistance_facts by (intro f_mag_sub) simp_all
  then have mag: "f_mag (f_sub a syncDistance) \<le> (22 + 127) * 8388608" by simp
  have tr: "\<bar>f_trunc (f_sub a syncDistance)\<bar> \<le> 1073741824"
    using mag by (rule f_trunc_bound) simp_all
  have "0 \<le> f_trunc (f_sub a syncDistance)"
    using sg mantM_bounds [OF f_mag_range(1), of "f_sub a syncDistance"]
    by (simp add: f_trunc_def Let_def pos_imp_zdiv_nonneg_iff)
  then show ?thesis using tr mag by (simp add: f_to_u64_def f_fin_def a_def)
qed

end
