(* ===== verification/Broadcast.thy ===== *)
theory Broadcast
  imports FieldState
begin

text \<open>
  The sending half of \<open>FieldServer.cpp\<close>: the broadcasts to the players of some sectors, and the
  batches that tell one player what is in some sectors. \<open>sendPost\<close> appends to \<open>svOut\<close>; what
  the network library does with the message is the matter of theory \<open>Session\<close>.
\<close>

subsection \<open>One message\<close>

definition sendPost :: "int \<Rightarrow> message \<Rightarrow> server \<Rightarrow> server" where
  "sendPost sessionID msg s = s\<lparr>svOut := svOut s @ [(sessionID, msg)]\<rparr>"

text \<open>
  The pattern of every sender: a new message for its receiver, the header with the length the sender
  has computed (an \<open>int16_t\<close>), and then the fields.
\<close>

definition startMsg :: "int \<Rightarrow> int \<Rightarrow> int \<Rightarrow> message res" where
  "startMsg now owner len =
     PutData (headerBytes \<lparr> hLen = wrap16 len, hRandKey = 0 \<rparr>) (InitMessage now owner 0)"

definition sendMsg :: "int \<Rightarrow> int \<Rightarrow> byte list list \<Rightarrow> int \<Rightarrow> server \<Rightarrow> server res" where
  "sendMsg type len flds owner s =
     bindR (startMsg (svNow s) owner len) (\<lambda>msg.
     bindR (putAll (enc 2 type # flds) msg) (\<lambda>msg.
     RecordSend type (sendPost owner msg s)))"

text \<open>\<open>for (sector : nearSector) for (player : sectors[sector.y][sector.x])\<close>.\<close>

definition forPlayers :: "sector list \<Rightarrow> (player \<Rightarrow> server \<Rightarrow> server res) \<Rightarrow> server \<Rightarrow> server res" where
  "forPlayers near f = foldR (\<lambda>c s. foldR (\<lambda>k s. derefP k s (\<lambda>p. f p s)) (svSectors s c) s) near"

subsection \<open>Broadcasts about players\<close>

definition spawnFields :: "player \<Rightarrow> byte list list" where
  "spawnFields p =
     [enc 8 (plCharacterID p), encF (posX (plPos p)), encF (posY (plPos p)),
      enc 1 (playerStateByte (plState p)), enc 1 (plDirection p), encF (plSpeed p),
      enc 4 (plAnimFrame p), enc 1 (plCharacterType p), plNickname p]"

definition broadcastSpawn :: "player \<Rightarrow> sector list \<Rightarrow> server \<Rightarrow> server res" where
  "broadcastSpawn sendPlayer near =
     forPlayers near (\<lambda>p s.
       if plSeqID p = plSeqID sendPlayer then Inr s
       else sendMsg OTHER_CHARACTER_SPAWN (2 + 8 + 4 + 4 + 1 + 1 + 4 + 4 + 1 + 20)
              (spawnFields sendPlayer) (plSeqID p) s)"

definition broadcastDespawn :: "player \<Rightarrow> sector list \<Rightarrow> server \<Rightarrow> server res" where
  "broadcastDespawn targetPlayer near =
     forPlayers near (\<lambda>p s.
       if plCharacterID p = plCharacterID targetPlayer then Inr s
       else sendMsg CHARACTER_DESPAWN (2 + 8) [enc 8 (plCharacterID targetPlayer)] (plSeqID p) s)"

definition sendDespawnBatch :: "player \<Rightarrow> sector list \<Rightarrow> server \<Rightarrow> server res" where
  "sendDespawnBatch targetPlayer near =
     forPlayers near (\<lambda>p s.
       if plCharacterID p = plCharacterID targetPlayer then Inr s
       else sendMsg CHARACTER_DESPAWN (2 + 8) [enc 8 (plCharacterID p)] (plSeqID targetPlayer) s)"

definition broadcastMoveStart :: "player \<Rightarrow> sector list \<Rightarrow> server \<Rightarrow> server res" where
  "broadcastMoveStart sendPlayer near =
     forPlayers near (\<lambda>p s.
       if plSeqID p = plSeqID sendPlayer then Inr s
       else sendMsg MOVE_START (2 + 8 + 4 + 4 + 1 + 4)
              [enc 8 (plCharacterID sendPlayer), encF (posX (plPos sendPlayer)),
               encF (posY (plPos sendPlayer)), enc 1 (plDirection sendPlayer), encF (plSpeed sendPlayer)]
              (plSeqID p) s)"

definition broadcastMoveStop :: "player \<Rightarrow> sector list \<Rightarrow> server \<Rightarrow> server res" where
  "broadcastMoveStop sendPlayer near =
     forPlayers near (\<lambda>p s.
       if plSeqID p = plSeqID sendPlayer then Inr s
       else sendMsg MOVE_STOP (2 + 8 + 4 + 4 + 1)
              [enc 8 (plCharacterID sendPlayer), encF (posX (plPos sendPlayer)),
               encF (posY (plPos sendPlayer)), enc 1 (plDirection sendPlayer)]
              (plSeqID p) s)"

definition broadcastPlayerAttack :: "player \<Rightarrow> sector list \<Rightarrow> server \<Rightarrow> server res" where
  "broadcastPlayerAttack sendPlayer near =
     forPlayers near (\<lambda>p s.
       if plSeqID p = plSeqID sendPlayer then Inr s
       else sendMsg OTHER_CHARACTER_ATTACK (2 + 8) [enc 8 (plCharacterID sendPlayer)] (plSeqID p) s)"

definition broadcastCharacterDamaged :: "player \<Rightarrow> monster \<Rightarrow> sector list \<Rightarrow> server \<Rightarrow> server res" where
  "broadcastCharacterDamaged damagedPlayer attacker near =
     forPlayers near (\<lambda>p s.
       sendMsg CHARACTER_DAMAGED (2 + 8 + 4 + 4 + 4 + 1 + 8)
         [enc 8 (plCharacterID damagedPlayer), enc 4 (plHp damagedPlayer),
          encF (posX (plPos damagedPlayer)), encF (posY (plPos damagedPlayer)),
          enc 1 (plDirection damagedPlayer), enc 8 (mnMonsterID attacker)]
         (plSeqID p) s)"

subsection \<open>Broadcasts about monsters\<close>

definition broadcastMonsterDamaged :: "monster \<Rightarrow> sector list \<Rightarrow> server \<Rightarrow> server res" where
  "broadcastMonsterDamaged m near =
     forPlayers near (\<lambda>p s.
       sendMsg MONSTER_DAMAGED (2 + (8 + 4 + 4 + 4 + 1))
         [enc 8 (mnMonsterID m), enc 4 (mnHp m), encF (posX (mnPos m)), encF (posY (mnPos m)),
          enc 1 (mnDirection m)]
         (plSeqID p) s)"

definition broadcastMonsterMoveStart :: "monster \<Rightarrow> sector list \<Rightarrow> server \<Rightarrow> server res" where
  "broadcastMonsterMoveStart m near =
     forPlayers near (\<lambda>p s.
       sendMsg MONSTER_MOVE_START (2 + 8 + 4 + 4 + 1 + 4)
         [enc 8 (mnMonsterID m), encF (posX (mnPos m)), encF (posY (mnPos m)), enc 1 (mnDirection m),
          encF (mnSpeed m)]
         (plSeqID p) s)"

definition broadcastMonsterMoveStop :: "monster \<Rightarrow> sector list \<Rightarrow> server \<Rightarrow> server res" where
  "broadcastMonsterMoveStop m near =
     forPlayers near (\<lambda>p s.
       sendMsg MONSTER_MOVE_STOP (2 + 8 + 4 + 4 + 1)
         [enc 8 (mnMonsterID m), encF (posX (mnPos m)), encF (posY (mnPos m)), enc 1 (mnDirection m)]
         (plSeqID p) s)"

definition broadcastMonsterAttack :: "monster \<Rightarrow> sector list \<Rightarrow> server \<Rightarrow> server res" where
  "broadcastMonsterAttack m near =
     forPlayers near (\<lambda>p s. sendMsg MONSTER_ATTACK (2 + 8) [enc 8 (mnMonsterID m)] (plSeqID p) s)"

definition monsterFields :: "monster \<Rightarrow> byte list list" where
  "monsterFields m =
     [enc 8 (mnMonsterID m), encF (posX (mnPos m)), encF (posY (mnPos m)),
      enc 1 (monsterStateByte (mnState m)), enc 1 (mnDirection m), enc 4 (mnHp m),
      enc 1 (mnMonsterType m), enc 4 (mnAnimFrame m)]"

definition broadcastMonsterSpawn :: "monster \<Rightarrow> sector list \<Rightarrow> server \<Rightarrow> server res" where
  "broadcastMonsterSpawn m near =
     forPlayers near (\<lambda>p s.
       sendMsg MONSTER_SPAWN (2 + 8 + 4 + 4 + 1 + 1 + 4 + 1 + 4) (monsterFields m) (plSeqID p) s)"

definition broadcastMonsterDespawn :: "monster \<Rightarrow> sector list \<Rightarrow> server \<Rightarrow> server res" where
  "broadcastMonsterDespawn m near =
     forPlayers near (\<lambda>p s. sendMsg MONSTER_DESPAWN (2 + 8) [enc 8 (mnMonsterID m)] (plSeqID p) s)"

definition sendMonsterDespawnBatch :: "player \<Rightarrow> sector list \<Rightarrow> server \<Rightarrow> server res" where
  "sendMonsterDespawnBatch targetPlayer near =
     foldR (\<lambda>c s. foldR (\<lambda>k s. derefM k s (\<lambda>m.
         sendMsg MONSTER_DESPAWN (2 + 8) [enc 8 (mnMonsterID m)] (plSeqID targetPlayer) s))
       (svMonsterSectors s c) s) near"

subsection \<open>Broadcasts about items\<close>

definition itemFields :: "fieldItem \<Rightarrow> byte list list" where
  "itemFields it =
     [enc 8 (itItemUniqueId it), enc 1 (itemByte (itItemId it)), encF (posX (itPos it)),
      encF (posY (itPos it))]"

definition broadcastItemSpawn :: "fieldItem \<Rightarrow> sector list \<Rightarrow> server \<Rightarrow> server res" where
  "broadcastItemSpawn it near =
     forPlayers near (\<lambda>p s. sendMsg ITEM_SPAWN (2 + 8 + 1 + 4 + 4) (itemFields it) (plSeqID p) s)"

definition broadcastItemDespawn :: "fieldItem \<Rightarrow> sector list \<Rightarrow> server \<Rightarrow> server res" where
  "broadcastItemDespawn it near =
     forPlayers near (\<lambda>p s. sendMsg ITEM_DESPAWN (2 + 8) [enc 8 (itItemUniqueId it)] (plSeqID p) s)"

definition sendItemDespawnBatch :: "player \<Rightarrow> sector list \<Rightarrow> server \<Rightarrow> server res" where
  "sendItemDespawnBatch targetPlayer near =
     foldR (\<lambda>c s. foldR (\<lambda>k s. derefI k s (\<lambda>it.
         sendMsg ITEM_DESPAWN (2 + 8) [enc 8 (itItemUniqueId it)] (plSeqID targetPlayer) s))
       (svItemSectors s c) s) near"

text \<open>\<open>eItemId::Max\<close>, 2, is the item of a failed attempt.\<close>

definition sendLootRes :: "player \<Rightarrow> bool \<Rightarrow> eItemId option \<Rightarrow> int \<Rightarrow> server \<Rightarrow> server res" where
  "sendLootRes targetPlayer bSuccess itemId cnt =
     sendMsg LOOT_RES (2 + 1 + 1 + 4)
       [enc 1 (if bSuccess then 0 else 1), enc 1 (case itemId of None \<Rightarrow> 2 | Some i \<Rightarrow> itemByte i), enc 4 cnt]
       (plSeqID targetPlayer)"

subsection \<open>Batches\<close>

text \<open>
  The three batch senders run the same double loop. \<open>cnt\<close> counts the records still to come (an
  \<open>int16_t\<close>), \<open>left\<close> the records the message under construction still takes; when it is 0 the
  message is sent and the next one started, with the number of records in its header. The outer
  \<open>while (cnt != 0)\<close> repeats the pass.
\<close>

record batch =
  baCnt :: int
  baLeft :: int
  baMsg :: "message option"

definition flushBatch :: "int \<Rightarrow> int \<Rightarrow> message option \<Rightarrow> server \<Rightarrow> server res" where
  "flushBatch type target msg s =
     (case msg of None \<Rightarrow> Inr s | Some m \<Rightarrow> RecordSend type (sendPost target m s))"

definition batchStep ::
    "int \<Rightarrow> int \<Rightarrow> int \<Rightarrow> int \<Rightarrow> byte list list \<Rightarrow> batch \<times> server \<Rightarrow> (batch \<times> server) res" where
  "batchStep type target recordSize maxBatch flds bs =
     (case bs of (b, s) \<Rightarrow>
      bindR
        (if baLeft b = 0
         then bindR (flushBatch type target (baMsg b) s) (\<lambda>s.
              let n = (if baCnt b < maxBatch then baCnt b else maxBatch)
              in bindR (startMsg (svNow s) target (2 + 2 + recordSize * n)) (\<lambda>m.
                 bindR (putAll [enc 2 type, enc 2 n] m) (\<lambda>m.
                 Inr (b\<lparr>baLeft := n, baMsg := Some m\<rparr>, s))))
         else Inr (b, s))
        (\<lambda>(b, s).
         case baMsg b of
           None \<Rightarrow> Inl UndefinedBehaviour
         | Some m \<Rightarrow> bindR (putAll flds m) (\<lambda>m.
             Inr (b\<lparr>baCnt := wrap16 (baCnt b - 1), baLeft := wrap16 (baLeft b - 1), baMsg := Some m\<rparr>, s))))"

definition batchPass ::
    "int \<Rightarrow> int \<Rightarrow> int \<Rightarrow> int \<Rightarrow> byte list list list \<Rightarrow> batch \<times> server \<Rightarrow> (batch \<times> server) res" where
  "batchPass type target recordSize maxBatch records bs =
     foldR (batchStep type target recordSize maxBatch) records
       (case bs of (b, s) \<Rightarrow> (b\<lparr>baLeft := 0\<rparr>, s))"

partial_function (option) batchWhile ::
    "int \<Rightarrow> int \<Rightarrow> int \<Rightarrow> int \<Rightarrow> byte list list list \<Rightarrow> batch \<times> server \<Rightarrow> (batch \<times> server) res option" where
  "batchWhile type target recordSize maxBatch records bs =
     (if baCnt (fst bs) = 0 then Some (Inr bs)
      else case batchPass type target recordSize maxBatch records bs of
             Inl e \<Rightarrow> Some (Inl e)
           | Inr bs \<Rightarrow> batchWhile type target recordSize maxBatch records bs)"

definition sendBatch :: "int \<Rightarrow> int \<Rightarrow> int \<Rightarrow> int \<Rightarrow> byte list list list \<Rightarrow> server \<Rightarrow> server res" where
  "sendBatch type target recordSize maxBatch records s =
     (let cnt = wrap16 (int (length records)) in
      if cnt = 0 then Inr s
      else case batchWhile type target recordSize maxBatch records
                  (\<lparr> baCnt = cnt, baLeft = 0, baMsg = None \<rparr>, s) of
             None \<Rightarrow> Inl NoReturn
           | Some r \<Rightarrow> bindR r (\<lambda>(b, s). flushBatch type target (baMsg b) s))"

definition batchMax :: "int \<Rightarrow> int" where
  "batchMax recordSize = (BufferSize - 2 - 2 - 3) div recordSize"

text \<open>What the loops over the sectors visit.\<close>

definition members :: "(sector \<Rightarrow> int list) \<Rightarrow> sector list \<Rightarrow> int list" where
  "members grid near = concat (map grid near)"

definition collect :: "('a \<Rightarrow> 'b option) \<Rightarrow> 'a list \<Rightarrow> 'b list res" where
  "collect f ks = foldR (\<lambda>k acc. case f k of None \<Rightarrow> Inl UndefinedBehaviour | Some x \<Rightarrow> Inr (acc @ [x])) ks []"

definition sendSpawnBatch :: "player \<Rightarrow> sector list \<Rightarrow> server \<Rightarrow> server res" where
  "sendSpawnBatch targetPlayer near s =
     bindR (collect (map_of (svObjs s))
              (filter (\<lambda>k. k \<noteq> plSeqID targetPlayer) (members (svSectors s) near))) (\<lambda>ps.
     sendBatch OTHER_CHARACTER_SPAWN_BATCH (plSeqID targetPlayer) (8 + 4 + 4 + 1 + 1 + 4 + 4 + 1 + 20)
       (batchMax (8 + 4 + 4 + 1 + 1 + 4 + 4 + 1 + 20)) (map spawnFields ps) s)"

definition sendMonsterSpawnBatch :: "player \<Rightarrow> sector list \<Rightarrow> server \<Rightarrow> server res" where
  "sendMonsterSpawnBatch targetPlayer near s =
     bindR (collect (map_of (svMonsters s)) (members (svMonsterSectors s) near)) (\<lambda>ms.
     sendBatch MONSTER_SPAWN_BATCH (plSeqID targetPlayer) (8 + 4 + 4 + 1 + 1 + 4 + 1 + 4)
       (batchMax (8 + 4 + 4 + 1 + 1 + 4 + 1 + 4)) (map monsterFields ms) s)"

definition sendItemSpawnBatch :: "player \<Rightarrow> sector list \<Rightarrow> server \<Rightarrow> server res" where
  "sendItemSpawnBatch targetPlayer near s =
     bindR (collect (map_of (svItems s)) (members (svItemSectors s) near)) (\<lambda>its.
     sendBatch ITEM_SPAWN_BATCH (plSeqID targetPlayer) (8 + 1 + 4 + 4)
       (batchMax (8 + 1 + 4 + 4)) (map itemFields its) s)"

subsection \<open>What a sender leaves behind\<close>

text \<open>
  \<open>packet\<close> is the finished message: its header says how long the rest is. \<open>sent\<close> is the
  server after some messages of one type.
\<close>

definition packet :: "int \<Rightarrow> int \<Rightarrow> int \<Rightarrow> byte list \<Rightarrow> message" where
  "packet now owner type body =
     \<lparr> mOwnerID = owner, mRandKey = 0, mRequestTime = now, mSize = BufferSize, mFront = 0,
       mBuf = headerBytes \<lparr> hLen = int (2 + length body), hRandKey = 0 \<rparr> @ enc 2 type @ body \<rparr>"

definition sent :: "int \<Rightarrow> (int \<times> message) list \<Rightarrow> server \<Rightarrow> server" where
  "sent type ms s = s\<lparr>svOut := svOut s @ ms,
     svSendCount := (svSendCount s)(type := svSendCount s type + int (length ms))\<rparr>"

definition type_ok :: "int \<Rightarrow> bool" where "type_ok t \<longleftrightarrow> 0 \<le> t \<and> t < kTableSize"

lemma sent_Nil [simp]: "sent t [] s = s"
  by (simp add: sent_def)

lemma sent_sent [simp]: "sent t a (sent t b s) = sent t (b @ a) s"
  by (simp add: sent_def add.assoc)

lemma svOut_sent [simp]: "svOut (sent t ms s) = svOut s @ ms"
  by (simp add: sent_def)

lemma sent_frame [simp, frame]:
  "svNow (sent t ms s) = svNow s" "svOn (sent t ms s) = svOn s" "svRng (sent t ms s) = svRng s"
  "svCharacterID (sent t ms s) = svCharacterID s" "svItemUniqueID (sent t ms s) = svItemUniqueID s"
  "svObjs (sent t ms s) = svObjs s" "svUnAuth (sent t ms s) = svUnAuth s"
  "svAccounts (sent t ms s) = svAccounts s" "svAuthPlayers (sent t ms s) = svAuthPlayers s"
  "svPlayers (sent t ms s) = svPlayers s" "svMonsters (sent t ms s) = svMonsters s"
  "svItems (sent t ms s) = svItems s" "svSectors (sent t ms s) = svSectors s"
  "svMonsterSectors (sent t ms s) = svMonsterSectors s" "svItemSectors (sent t ms s) = svItemSectors s"
  "svMsgQ (sent t ms s) = svMsgQ s" "svNotifyQ (sent t ms s) = svNotifyQ s"
  "svDBReqQ (sent t ms s) = svDBReqQ s" "svDBResQ (sent t ms s) = svDBResQ s"
  "svDiscon (sent t ms s) = svDiscon s" "svLootCount (sent t ms s) = svLootCount s"
  "svPlayerCnt (sent t ms s) = svPlayerCnt s"
  by (simp_all add: sent_def)

lemma RecordSend_sent:
  "type_ok t \<Longrightarrow> RecordSend t (sendPost k m s) = Inr (sent t [(k, m)] s)"
  by (simp add: RecordSend_def type_ok_def sendPost_def sent_def)

lemma startMsg_eq:
  "startMsg now k len =
     Inr ((InitMessage now k 0)\<lparr>mBuf := headerBytes \<lparr> hLen = wrap16 len, hRandKey = 0 \<rparr>\<rparr>)"
  by (simp add: startMsg_def PutData_def mRear_def BufferSize_def)

lemma sendMsg_eq:
  assumes "type_ok t" "int (length (concat flds)) \<le> 5995" "len = int (2 + length (concat flds))"
  shows "sendMsg t len flds k s = Inr (sent t [(k, packet (svNow s) k t (concat flds))] s)"
proof -
  have "wrap16 len = len" using assms by (intro wrap16_id) simp_all
  then show ?thesis using assms RecordSend_sent [OF assms(1)]
    by (simp add: sendMsg_def startMsg_eq putAll_eq mRear_def BufferSize_def packet_def InitMessage_def)
qed

lemma sendMsg_single:
  assumes "type_ok t" "int (length (concat flds)) \<le> 5995" "len = int (2 + length (concat flds))"
  shows "sendMsg t len flds = (\<lambda>k s. Inr (sent t [(k, packet (svNow s) k t (concat flds))] s))"
  by (intro ext sendMsg_eq assms)

text \<open>A double loop whose body sends at most one message of a fixed type per visited object.\<close>

lemma foldR_sent:
  assumes "\<And>k s. k \<in> set ks \<Longrightarrow> P s \<Longrightarrow> f k s = Inr (sent t (g k (svNow s)) s)"
    and "\<And>ms s. P s \<Longrightarrow> P (sent t ms s)" and "P s"
  shows "foldR f ks s = Inr (sent t (concat (map (\<lambda>k. g k (svNow s)) ks)) s)"
  using assms(1,3)
proof (induction ks arbitrary: s)
  case (Cons k ks)
  then show ?case using assms(2) by simp
qed simp

definition live :: "sector list \<Rightarrow> server \<Rightarrow> bool" where
  "live near s \<longleftrightarrow> (\<forall>k \<in> set (members (svSectors s) near).
     \<exists>p. map_of (svObjs s) k = Some p \<and> plSeqID p = k)"

definition theP :: "server \<Rightarrow> int \<Rightarrow> player" where
  "theP s k = (case map_of (svObjs s) k of Some p \<Rightarrow> p | None \<Rightarrow> newPlayer k)"

lemma set_members: "set (members grid near) = (\<Union>c\<in>set near. set (grid c))"
  by (auto simp: members_def)

lemma foldR_nested: "foldR (\<lambda>c. foldR f (g c)) cs = foldR f (concat (map g cs))"
proof
  show "foldR (\<lambda>c. foldR f (g c)) cs s = foldR f (concat (map g cs)) s" for s
    by (induction cs arbitrary: s) (simp_all add: foldR_append bindR_def split: sum.splits)
qed

lemma foldR_cong_state:
  assumes "\<And>x s. x \<in> set xs \<Longrightarrow> P s \<Longrightarrow> f x s = g x s" "\<And>x s s'. x \<in> set xs \<Longrightarrow> P s \<Longrightarrow> g x s = Inr s' \<Longrightarrow> P s'" "P s"
  shows "foldR f xs s = foldR g xs s"
  using assms
proof (induction xs arbitrary: s)
  case (Cons x xs)
  show ?case
  proof (cases "g x s")
    case (Inr b)
    have "P b" by (rule Cons.prems(2) [OF _ Cons.prems(3) Inr]) simp
    then have "foldR f xs b = foldR g xs b" using Cons.IH Cons.prems(1,2) by (metis list.set_intros(2))
    then show ?thesis using Cons.prems(1,3) Inr by simp
  qed (use Cons.prems(1,3) in simp)
qed simp

lemma forPlayers_sent:
  assumes live: "live near s"
    and f: "\<And>p s. f p s = Inr (sent t (g p (svNow s)) s)"
  shows "forPlayers near f s =
    Inr (sent t (concat (map (\<lambda>k. g (theP s k) (svNow s)) (members (svSectors s) near))) s)"
proof -
  define Q where "Q s' \<longleftrightarrow> svSectors s' = svSectors s \<and> svObjs s' = svObjs s" for s' :: server
  define h where "h = (\<lambda>k s'. derefP k s' (\<lambda>p. f p s'))"
  have h: "h k s' = Inr (sent t (g (theP s k) (svNow s')) s')"
    if "k \<in> set (members (svSectors s) near)" "Q s'" for k s'
    using that live f by (force simp: h_def derefP_def Q_def theP_def live_def)
  have "forPlayers near f s = foldR (\<lambda>c. foldR h (svSectors s c)) near s"
    unfolding forPlayers_def
  proof (rule foldR_cong_state [where P = Q])
    fix c s' s'' assume c: "c \<in> set near" "Q s'" and e: "foldR h (svSectors s c) s' = Inr s''"
    show "Q s''" using e c(2)
    proof (rule foldR_invariant)
      fix k a b assume k: "k \<in> set (svSectors s c)" "Q a" "h k a = Inr b"
      then have "k \<in> set (members (svSectors s) near)" using c by (auto simp: set_members)
      then show "Q b" using h [of k a] k by (auto simp: Q_def)
    qed
  qed (auto simp: Q_def h_def)
  also have "\<dots> = foldR h (members (svSectors s) near) s"
    unfolding foldR_nested members_def ..
  also have "\<dots> = Inr (sent t (concat (map (\<lambda>k. g (theP s k) (svNow s)) (members (svSectors s) near))) s)"
    by (rule foldR_sent [where P = Q]) (use h in \<open>auto simp: Q_def\<close>)
  finally show ?thesis .
qed

text \<open>The same for the loops over the monsters or items of some sectors.\<close>

lemma foldR_grid_sent:
  assumes grid: "\<And>t ms s. grid (sent t ms s) = grid s"
    and f: "\<And>k s'. k \<in> set (members (grid s) near) \<Longrightarrow> tab s' = tab s \<Longrightarrow> f k s' = Inr (sent t (g k (svNow s')) s')"
    and tab: "\<And>t ms s. tab (sent t ms s) = tab s"
  shows "foldR (\<lambda>c s. foldR f (grid s c) s) near s =
    Inr (sent t (concat (map (\<lambda>k. g k (svNow s)) (members (grid s) near))) s)"
proof -
  define Q where "Q s' \<longleftrightarrow> grid s' = grid s \<and> tab s' = tab s" for s' :: server
  have "foldR (\<lambda>c s. foldR f (grid s c) s) near s = foldR (\<lambda>c. foldR f (grid s c)) near s"
  proof (rule foldR_cong_state [where P = Q])
    fix c s' s'' assume c: "c \<in> set near" "Q s'" and e: "foldR f (grid s c) s' = Inr s''"
    show "Q s''" using e c(2)
    proof (rule foldR_invariant)
      fix k a b assume k: "k \<in> set (grid s c)" "Q a" "f k a = Inr b"
      then have "k \<in> set (members (grid s) near)" using c by (auto simp: set_members)
      then show "Q b" using f [of k a] k grid tab by (auto simp: Q_def)
    qed
  qed (auto simp: Q_def)
  also have "\<dots> = foldR f (members (grid s) near) s"
    unfolding foldR_nested members_def ..
  also have "\<dots> = Inr (sent t (concat (map (\<lambda>k. g k (svNow s)) (members (grid s) near))) s)"
    by (rule foldR_sent [where P = Q]) (use f grid tab in \<open>auto simp: Q_def\<close>)
  finally show ?thesis .
qed

subsection \<open>Who gets what\<close>

lemma theP_seq: "live near s \<Longrightarrow> k \<in> set (members (svSectors s) near) \<Longrightarrow> plSeqID (theP s k) = k"
  by (force simp: live_def theP_def)

lemma concat_if_filter:
  "concat (map (\<lambda>k. if P k then [] else [h k]) ks) = map h (filter (\<lambda>k. \<not> P k) ks)"
  by (induction ks) auto

text \<open>The packets of a broadcast: one to every member that is not skipped, in order.\<close>

definition toMembers :: "sector list \<Rightarrow> int \<Rightarrow> byte list \<Rightarrow> (int \<Rightarrow> bool) \<Rightarrow> server \<Rightarrow> (int \<times> message) list" where
  "toMembers near t body skip s =
     map (\<lambda>k. (k, packet (svNow s) k t body)) (filter (\<lambda>k. \<not> skip k) (members (svSectors s) near))"

lemma forPlayers_skip:
  assumes live: "live near s" and "type_ok t" "int (length (concat flds)) \<le> 5995"
    "len = int (2 + length (concat flds))"
  shows "forPlayers near (\<lambda>p s. if P p then Inr s else sendMsg t len flds (plSeqID p) s) s =
    Inr (sent t (toMembers near t (concat flds) (\<lambda>k. P (theP s k)) s) s)"
proof -
  have "forPlayers near (\<lambda>p s. if P p then Inr s else sendMsg t len flds (plSeqID p) s) s =
      Inr (sent t (concat (map (\<lambda>k. (if P (theP s k) then [] else
        [(plSeqID (theP s k), packet (svNow s) (plSeqID (theP s k)) t (concat flds))]))
        (members (svSectors s) near))) s)"
    by (rule forPlayers_sent [OF live]) (simp add: sendMsg_eq [OF assms(2-4)])
  also have "concat (map (\<lambda>k. (if P (theP s k) then [] else
        [(plSeqID (theP s k), packet (svNow s) (plSeqID (theP s k)) t (concat flds))]))
        (members (svSectors s) near)) = toMembers near t (concat flds) (\<lambda>k. P (theP s k)) s"
    unfolding toMembers_def concat_if_filter by (rule map_cong) (auto simp: theP_seq [OF live])
  finally show ?thesis .
qed

lemma forPlayers_all:
  assumes "live near s" "type_ok t" "int (length (concat flds)) \<le> 5995" "len = int (2 + length (concat flds))"
  shows "forPlayers near (\<lambda>p s. sendMsg t len flds (plSeqID p) s) s =
    Inr (sent t (toMembers near t (concat flds) (\<lambda>_. False) s) s)"
  using forPlayers_skip [OF assms, of "\<lambda>_. False"] by simp

lemmas type_oks = type_ok_def kTableSize_def packet_defs

lemma toMembers_cong:
  "(\<And>k. k \<in> set (members (svSectors s) near) \<Longrightarrow> P k = Q k) \<Longrightarrow> toMembers near t b P s = toMembers near t b Q s"
  by (simp add: toMembers_def cong: filter_cong)

lemma toMembers_self:
  "live near s \<Longrightarrow> toMembers near t b (\<lambda>k. plSeqID (theP s k) = x) s = toMembers near t b (\<lambda>k. k = x) s"
  by (intro toMembers_cong) (simp add: theP_seq)

definition spawnBody :: "player \<Rightarrow> byte list" where "spawnBody p = concat (spawnFields p)"
definition moveBody :: "player \<Rightarrow> byte list" where
  "moveBody p = enc 8 (plCharacterID p) @ encF (posX (plPos p)) @ encF (posY (plPos p)) @ enc 1 (plDirection p)"
definition monsterMoveBody :: "monster \<Rightarrow> byte list" where
  "monsterMoveBody m = enc 8 (mnMonsterID m) @ encF (posX (mnPos m)) @ encF (posY (mnPos m)) @ enc 1 (mnDirection m)"

lemma broadcastSpawn_eq:
  "live near s \<Longrightarrow> length (plNickname p) = 20 \<Longrightarrow> broadcastSpawn p near s =
    Inr (sent OTHER_CHARACTER_SPAWN
      (toMembers near OTHER_CHARACTER_SPAWN (spawnBody p) (\<lambda>k. k = plSeqID p) s) s)"
  unfolding broadcastSpawn_def spawnBody_def
  by (subst forPlayers_skip) (simp_all add: type_oks spawnFields_def toMembers_self)

lemma broadcastDespawn_eq:
  "live near s \<Longrightarrow> broadcastDespawn p near s =
    Inr (sent CHARACTER_DESPAWN (toMembers near CHARACTER_DESPAWN (enc 8 (plCharacterID p))
      (\<lambda>k. plCharacterID (theP s k) = plCharacterID p) s) s)"
  unfolding broadcastDespawn_def by (subst forPlayers_skip) (simp_all add: type_oks del: enc.simps)

lemma broadcastMoveStart_eq:
  "live near s \<Longrightarrow> broadcastMoveStart p near s =
    Inr (sent MOVE_START (toMembers near MOVE_START (moveBody p @ encF (plSpeed p)) (\<lambda>k. k = plSeqID p) s) s)"
  unfolding broadcastMoveStart_def moveBody_def
  by (subst forPlayers_skip) (simp_all add: type_oks toMembers_self)

lemma broadcastMoveStop_eq:
  "live near s \<Longrightarrow> broadcastMoveStop p near s =
    Inr (sent MOVE_STOP (toMembers near MOVE_STOP (moveBody p) (\<lambda>k. k = plSeqID p) s) s)"
  unfolding broadcastMoveStop_def moveBody_def
  by (subst forPlayers_skip) (simp_all add: type_oks toMembers_self)

lemma broadcastPlayerAttack_eq:
  "live near s \<Longrightarrow> broadcastPlayerAttack p near s =
    Inr (sent OTHER_CHARACTER_ATTACK (toMembers near OTHER_CHARACTER_ATTACK (enc 8 (plCharacterID p))
      (\<lambda>k. k = plSeqID p) s) s)"
  unfolding broadcastPlayerAttack_def
  by (subst forPlayers_skip) (simp_all add: type_oks toMembers_self del: enc.simps)

lemma broadcastCharacterDamaged_eq:
  "live near s \<Longrightarrow> broadcastCharacterDamaged p m near s =
    Inr (sent CHARACTER_DAMAGED (toMembers near CHARACTER_DAMAGED
      (enc 8 (plCharacterID p) @ enc 4 (plHp p) @ encF (posX (plPos p)) @ encF (posY (plPos p)) @
       enc 1 (plDirection p) @ enc 8 (mnMonsterID m)) (\<lambda>_. False) s) s)"
  unfolding broadcastCharacterDamaged_def by (subst forPlayers_all) (simp_all add: type_oks)

lemma broadcastMonsterDamaged_eq:
  "live near s \<Longrightarrow> broadcastMonsterDamaged m near s =
    Inr (sent MONSTER_DAMAGED (toMembers near MONSTER_DAMAGED
      (enc 8 (mnMonsterID m) @ enc 4 (mnHp m) @ encF (posX (mnPos m)) @ encF (posY (mnPos m)) @
       enc 1 (mnDirection m)) (\<lambda>_. False) s) s)"
  unfolding broadcastMonsterDamaged_def by (subst forPlayers_all) (simp_all add: type_oks)

lemma broadcastMonsterMoveStart_eq:
  "live near s \<Longrightarrow> broadcastMonsterMoveStart m near s =
    Inr (sent MONSTER_MOVE_START (toMembers near MONSTER_MOVE_START (monsterMoveBody m @ encF (mnSpeed m))
      (\<lambda>_. False) s) s)"
  unfolding broadcastMonsterMoveStart_def monsterMoveBody_def
  by (subst forPlayers_all) (simp_all add: type_oks)

lemma broadcastMonsterMoveStop_eq:
  "live near s \<Longrightarrow> broadcastMonsterMoveStop m near s =
    Inr (sent MONSTER_MOVE_STOP (toMembers near MONSTER_MOVE_STOP (monsterMoveBody m) (\<lambda>_. False) s) s)"
  unfolding broadcastMonsterMoveStop_def monsterMoveBody_def
  by (subst forPlayers_all) (simp_all add: type_oks)

lemma broadcastMonsterAttack_eq:
  "live near s \<Longrightarrow> broadcastMonsterAttack m near s =
    Inr (sent MONSTER_ATTACK (toMembers near MONSTER_ATTACK (enc 8 (mnMonsterID m)) (\<lambda>_. False) s) s)"
  unfolding broadcastMonsterAttack_def
  by (subst forPlayers_all) (simp_all add: type_oks del: enc.simps)

lemma broadcastMonsterSpawn_eq:
  "live near s \<Longrightarrow> broadcastMonsterSpawn m near s =
    Inr (sent MONSTER_SPAWN (toMembers near MONSTER_SPAWN (concat (monsterFields m)) (\<lambda>_. False) s) s)"
  unfolding broadcastMonsterSpawn_def
  by (subst forPlayers_all) (simp_all add: type_oks monsterFields_def)

lemma broadcastMonsterDespawn_eq:
  "live near s \<Longrightarrow> broadcastMonsterDespawn m near s =
    Inr (sent MONSTER_DESPAWN (toMembers near MONSTER_DESPAWN (enc 8 (mnMonsterID m)) (\<lambda>_. False) s) s)"
  unfolding broadcastMonsterDespawn_def
  by (subst forPlayers_all) (simp_all add: type_oks del: enc.simps)

lemma broadcastItemSpawn_eq:
  "live near s \<Longrightarrow> broadcastItemSpawn it near s =
    Inr (sent ITEM_SPAWN (toMembers near ITEM_SPAWN (concat (itemFields it)) (\<lambda>_. False) s) s)"
  unfolding broadcastItemSpawn_def by (subst forPlayers_all) (simp_all add: type_oks itemFields_def)

lemma broadcastItemDespawn_eq:
  "live near s \<Longrightarrow> broadcastItemDespawn it near s =
    Inr (sent ITEM_DESPAWN (toMembers near ITEM_DESPAWN (enc 8 (itItemUniqueId it)) (\<lambda>_. False) s) s)"
  unfolding broadcastItemDespawn_def
  by (subst forPlayers_all) (simp_all add: type_oks del: enc.simps)

lemma sendLootRes_eq:
  "sendLootRes p b i n s = Inr (sent LOOT_RES [(plSeqID p, packet (svNow s) (plSeqID p) LOOT_RES
     (enc 1 (if b then 0 else 1) @ enc 1 (case i of None \<Rightarrow> 2 | Some i \<Rightarrow> itemByte i) @ enc 4 n))] s)"
  unfolding sendLootRes_def by (subst sendMsg_eq) (simp_all add: type_oks del: enc.simps)

lemma sendDespawnBatch_eq:
  assumes "live near s"
  shows "sendDespawnBatch p near s =
    Inr (sent CHARACTER_DESPAWN (map (\<lambda>k. (plSeqID p, packet (svNow s) (plSeqID p) CHARACTER_DESPAWN
        (enc 8 (plCharacterID (theP s k)))))
      (filter (\<lambda>k. plCharacterID (theP s k) \<noteq> plCharacterID p) (members (svSectors s) near))) s)"
proof -
  have "sendDespawnBatch p near s = Inr (sent CHARACTER_DESPAWN (concat (map (\<lambda>k.
      if plCharacterID (theP s k) = plCharacterID p then []
      else [(plSeqID p, packet (svNow s) (plSeqID p) CHARACTER_DESPAWN (enc 8 (plCharacterID (theP s k))))])
      (members (svSectors s) near))) s)"
    unfolding sendDespawnBatch_def
    by (rule forPlayers_sent [OF assms]) (simp add: sendMsg_eq type_oks del: enc.simps)
  then show ?thesis by (simp add: concat_if_filter)
qed

subsection \<open>What the batches send\<close>

function chunksOf :: "nat \<Rightarrow> 'a list \<Rightarrow> 'a list list" where
  "chunksOf n xs = (if n = 0 \<or> xs = [] then [] else take n xs # chunksOf n (drop n xs))"
  by pat_completeness auto
termination
  by (relation "measure (\<lambda>(n, xs). length xs)") auto

declare chunksOf.simps [simp del]

lemma chunksOf_Nil [simp]: "chunksOf n [] = []"
  by (simp add: chunksOf.simps)

lemma concat_chunksOf: "0 < n \<Longrightarrow> concat (chunksOf n xs) = xs"
proof (induction n xs rule: chunksOf.induct)
  case (1 n xs)
  then show ?case by (cases "xs = []") (simp_all add: chunksOf.simps [of n xs])
qed

lemma length_chunksOf: "0 < n \<Longrightarrow> c \<in> set (chunksOf n xs) \<Longrightarrow> 0 < length c \<and> length c \<le> n"
proof (induction n xs rule: chunksOf.induct)
  case (1 n xs)
  then show ?case by (cases "xs = []") (auto simp: chunksOf.simps [of n xs])
qed

definition batchBody :: "byte list list list \<Rightarrow> byte list" where
  "batchBody c = enc 2 (int (length c)) @ concat (map concat c)"

definition batchPackets :: "int \<Rightarrow> int \<Rightarrow> int \<Rightarrow> byte list list list list \<Rightarrow> (int \<times> message) list" where
  "batchPackets now k t cs = map (\<lambda>c. (k, packet now k t (batchBody c))) cs"

lemma batchPackets_simps [simp]:
  "batchPackets now k t [] = []"
  "batchPackets now k t (c # cs) = (k, packet now k t (batchBody c)) # batchPackets now k t cs"
  by (simp_all add: batchPackets_def)

text \<open>The parameters of a batch: the sz of a record, and the number that fits.\<close>

definition batch_ok :: "int \<Rightarrow> int \<Rightarrow> int \<Rightarrow> byte list list list \<Rightarrow> bool" where
  "batch_ok t sz mx rs \<longleftrightarrow> type_ok t \<and> 0 < sz \<and> 0 < mx \<and> 7 + sz * mx \<le> 6000 \<and>
     (\<forall>r \<in> set rs. int (length (concat r)) = sz)"

definition msgOf :: "int \<Rightarrow> int \<Rightarrow> byte list \<Rightarrow> message" where
  "msgOf now owner b = \<lparr> mOwnerID = owner, mRandKey = 0, mRequestTime = now, mSize = BufferSize,
     mFront = 0, mBuf = b \<rparr>"

lemma putAll_msgOf:
  "int (length b + length (concat cs)) \<le> 6000 \<Longrightarrow> putAll cs (msgOf now k b) = Inr (msgOf now k (b @ concat cs))"
  by (simp add: putAll_eq msgOf_def mRear_def BufferSize_def)

lemma batchStep_in:
  assumes "batch_ok t sz mx (r # rs)" "0 < l" "l \<le> length (r # rs)" "length (r # rs) < 32768"
    "int (length b) + sz * int l \<le> 6000"
  shows "batchStep t k sz mx r (\<lparr> baCnt = int (length (r # rs)), baLeft = int l, baMsg = Some (msgOf now k b) \<rparr>, s) =
    Inr (\<lparr> baCnt = int (length rs), baLeft = int (l - 1), baMsg = Some (msgOf now k (b @ concat r)) \<rparr>, s)"
proof -
  have w1: "wrap16 (int (length (r # rs)) - 1) = int (length rs)" using assms(4) by (simp add: wrap16_id)
  have w2: "wrap16 (int l - 1) = int (l - 1)"
    using assms(2,3,4) by (simp add: wrap16_id of_nat_diff)
  have rl: "int (length (concat r)) = sz" "0 < sz" using assms(1) by (simp_all add: batch_ok_def)
  have "sz * 1 \<le> sz * int l" using rl(2) assms(2) by (intro mult_left_mono) auto
  then have "int (length b) + sz \<le> 6000" using assms(5) by linarith
  then have "int (length b + length (concat r)) \<le> 6000" using rl(1) by linarith
  then show ?thesis using assms(2) w1 w2 by (simp add: batchStep_def putAll_msgOf)
qed

lemma batchStep_new:
  assumes n: "(if c < mx then c else mx) = n" "0 < n" "0 \<le> sz * n" "sz * n \<le> 5993"
    and fl: "flushBatch t k msg s = Inr s'" and now: "svNow s' = now"
  shows "batchStep t k sz mx r (\<lparr> baCnt = c, baLeft = 0, baMsg = msg \<rparr>, s) =
    batchStep t k sz mx r (\<lparr> baCnt = c, baLeft = n,
      baMsg = Some (msgOf now k (headerBytes \<lparr> hLen = 4 + sz * n, hRandKey = 0 \<rparr> @ enc 2 t @ enc 2 n)) \<rparr>, s')"
proof -
  have w: "wrap16 (4 + sz * n) = 4 + sz * n" using n by (intro wrap16_id) simp_all
  have st: "startMsg now k (2 + 2 + sz * n) =
      Inr (msgOf now k (headerBytes \<lparr> hLen = 4 + sz * n, hRandKey = 0 \<rparr>))"
    using w by (simp add: startMsg_eq InitMessage_def msgOf_def)
  have pa: "putAll [enc 2 t, enc 2 n] (msgOf now k (headerBytes \<lparr> hLen = 4 + sz * n, hRandKey = 0 \<rparr>)) =
      Inr (msgOf now k (headerBytes \<lparr> hLen = 4 + sz * n, hRandKey = 0 \<rparr> @ enc 2 t @ enc 2 n))"
    by (subst putAll_msgOf) (simp_all del: enc.simps)
  have n0: "n \<noteq> 0" using n(2) by simp
  show ?thesis
  proof (cases "c < mx")
    case True
    then have "c = n" using n(1) by simp
    then show ?thesis using True fl now n0 st pa by (simp add: batchStep_def)
  next
    case False
    then have "mx = n" using n(1) by simp
    then show ?thesis using False fl now n0 st pa by (simp add: batchStep_def)
  qed
qed

lemma batchPass_some:
  assumes "batch_ok t sz mx rs" "l \<le> length rs" "length rs < 32768"
    and "int (length b) + sz * int l \<le> 6000" and "svNow s = now"
  shows "\<exists>m s'. foldR (batchStep t k sz mx) rs (\<lparr> baCnt = int (length rs), baLeft = int l,
      baMsg = Some (msgOf now k b) \<rparr>, s) = Inr (\<lparr> baCnt = 0, baLeft = 0, baMsg = Some m \<rparr>, s') \<and>
    flushBatch t k (Some m) s' = Inr (sent t ((k, msgOf now k (b @ concat (map concat (take l rs)))) #
      batchPackets now k t (chunksOf (nat mx) (drop l rs))) s)"
  using assms
proof (induction rs arbitrary: l b s)
  case Nil
  then show ?case
    by (intro exI [of _ "msgOf now k b"] exI [of _ s]) (simp add: flushBatch_def RecordSend_sent batch_ok_def)
next
  case (Cons r rs)
  have ok: "batch_ok t sz mx rs" using Cons.prems(1) by (simp add: batch_ok_def)
  have par: "0 < mx" "0 < sz" "7 + sz * mx \<le> 6000" "type_ok t"
    using Cons.prems(1) by (simp_all add: batch_ok_def)
  have rl: "int (length (concat r)) = sz" using Cons.prems(1) by (simp add: batch_ok_def)
  show ?case
  proof (cases "l = 0")
    case False
    have room: "int (length (b @ concat r)) + sz * int (l - 1) \<le> 6000"
      using Cons.prems(4) rl False by (cases l) (auto simp: algebra_simps)
    have step: "batchStep t k sz mx r (\<lparr> baCnt = int (length (r # rs)), baLeft = int l, baMsg = Some (msgOf now k b) \<rparr>, s) =
      Inr (\<lparr> baCnt = int (length rs), baLeft = int (l - 1), baMsg = Some (msgOf now k (b @ concat r)) \<rparr>, s)"
      by (rule batchStep_in) (use Cons.prems False in auto)
    have "l - 1 \<le> length rs" "length rs < 32768" using Cons.prems by auto
    from Cons.IH [OF ok this room Cons.prems(5)] show ?thesis
      using step False by (simp add: drop_Cons' take_Cons')
  next
    case True
    define n where "n = min (length (r # rs)) (nat mx)"
    define h where "h = headerBytes \<lparr> hLen = 4 + sz * int n, hRandKey = 0 \<rparr> @ enc 2 t @ enc 2 (int n)"
    define s1 where "s1 = sent t [(k, msgOf now k b)] s"
    have fl: "flushBatch t k (Some (msgOf now k b)) s = Inr s1"
      using par by (simp add: flushBatch_def RecordSend_sent s1_def)
    have now1: "svNow s1 = now" using Cons.prems(5) by (simp add: s1_def)
    have n: "0 < n" "n \<le> length (r # rs)" "int n \<le> mx" using par by (auto simp: n_def)
    have hl: "length h = 7" by (simp add: h_def)
    have snm: "sz * int n \<le> sz * mx" using n par by (intro mult_left_mono) auto
    then have room: "int (length h) + sz * int n \<le> 6000" using par(3) unfolding hl by linarith
    have snn: "0 \<le> sz * int n" "sz * int n \<le> 5993" using par snm by (simp, linarith)
    have "batchStep t k sz mx r (\<lparr> baCnt = int (length (r # rs)), baLeft = 0, baMsg = Some (msgOf now k b) \<rparr>, s) =
      batchStep t k sz mx r (\<lparr> baCnt = int (length (r # rs)), baLeft = int n, baMsg = Some (msgOf now k h) \<rparr>, s1)"
      unfolding h_def using n(1) par(1)
      by (intro batchStep_new [OF _ _ snn fl now1]) (auto simp: n_def min_def)
    also have "\<dots> = Inr (\<lparr> baCnt = int (length rs), baLeft = int (n - 1), baMsg = Some (msgOf now k (h @ concat r)) \<rparr>, s1)"
      by (rule batchStep_in [OF Cons.prems(1) n(1,2) Cons.prems(3) room])
    finally have step: "batchStep t k sz mx r (\<lparr> baCnt = int (length (r # rs)), baLeft = 0, baMsg = Some (msgOf now k b) \<rparr>, s) =
      Inr (\<lparr> baCnt = int (length rs), baLeft = int (n - 1), baMsg = Some (msgOf now k (h @ concat r)) \<rparr>, s1)" .
    have room': "int (length (h @ concat r)) + sz * int (n - 1) \<le> 6000"
      using room rl n(1) by (cases n) (auto simp: algebra_simps)
    have le: "n - 1 \<le> length rs" "length rs < 32768" using n Cons.prems(3) by auto
    obtain m s' where m: "foldR (batchStep t k sz mx) rs (\<lparr> baCnt = int (length rs), baLeft = int (n - 1),
        baMsg = Some (msgOf now k (h @ concat r)) \<rparr>, s1) = Inr (\<lparr> baCnt = 0, baLeft = 0, baMsg = Some m \<rparr>, s')"
      "flushBatch t k (Some m) s' = Inr (sent t ((k, msgOf now k ((h @ concat r) @ concat (map concat (take (n - 1) rs)))) #
        batchPackets now k t (chunksOf (nat mx) (drop (n - 1) rs))) s1)"
      using Cons.IH [OF ok le room' now1] by blast
    have tk: "take (nat mx) (r # rs) = r # take (n - 1) rs" "drop (nat mx) (r # rs) = drop (n - 1) rs"
      using par(1) by (auto simp: n_def take_Cons' drop_Cons' min_def)
    have chunks: "chunksOf (nat mx) (r # rs) = (r # take (n - 1) rs) # chunksOf (nat mx) (drop (n - 1) rs)"
      using par(1) tk by (subst chunksOf.simps) simp
    have len: "length (r # take (n - 1) rs) = n" using n by auto
    have "int (length (concat (map concat (r # take (n - 1) rs)))) = sz * int n"
    proof -
      have "int (length (concat (map concat xs))) = sz * int (length xs)" if "set xs \<subseteq> set (r # rs)" for xs
        using that Cons.prems(1) by (induction xs) (auto simp: batch_ok_def algebra_simps)
      from this [of "r # take (n - 1) rs"] show ?thesis using len set_take_subset [of "n - 1" rs] by auto
    qed
    then have pk: "msgOf now k ((h @ concat r) @ concat (map concat (take (n - 1) rs))) =
        packet now k t (batchBody (r # take (n - 1) rs))"
      using len by (simp add: packet_def msgOf_def batchBody_def h_def)
    show ?thesis using step m True chunks pk by (simp add: s1_def)
  qed
qed

text \<open>
  A whole batch, whatever the number of records: the records in order, cut into runs of at most
  \<open>mx\<close>, one packet for each run, whose count field and header length are those of the run.
\<close>

lemma sendBatch_eq:
  assumes "batch_ok t sz mx rs" "length rs < 32768"
  shows "sendBatch t k sz mx rs s =
    Inr (sent t (batchPackets (svNow s) k t (chunksOf (nat mx) rs)) s)"
proof (cases rs)
  case Nil
  have "wrap16 0 = 0" by (simp add: wrap16_id)
  then show ?thesis using Nil by (simp add: sendBatch_def Let_def)
next
  case (Cons r rest)
  have par: "0 < mx" "0 < sz" "7 + sz * mx \<le> 6000" using assms(1) by (simp_all add: batch_ok_def)
  define n where "n = min (length rs) (nat mx)"
  define h where "h = headerBytes \<lparr> hLen = 4 + sz * int n, hRandKey = 0 \<rparr> @ enc 2 t @ enc 2 (int n)"
  have n: "0 < n" "n \<le> length rs" "int n \<le> mx" using par Cons by (auto simp: n_def)
  have snm: "sz * int n \<le> sz * mx" using n par by (intro mult_left_mono) auto
  have snn: "0 \<le> sz * int n" "sz * int n \<le> 5993" using par snm by (simp, linarith)
  have hl: "length h = 7" by (simp add: h_def)
  have room: "int (length h) + sz * int n \<le> 6000" using snn unfolding hl by linarith
  have c: "wrap16 (int (length rs)) = int (length rs)" using assms(2) by (intro wrap16_id) simp_all
  have fl: "flushBatch t k None s = Inr s" by (simp add: flushBatch_def)
  have first: "batchStep t k sz mx r (\<lparr> baCnt = int (length rs), baLeft = 0, baMsg = None \<rparr>, s) =
      batchStep t k sz mx r (\<lparr> baCnt = int (length rs), baLeft = int n, baMsg = Some (msgOf (svNow s) k h) \<rparr>, s)"
    unfolding h_def using n(1) par(1)
    by (intro batchStep_new [OF _ _ snn fl refl]) (auto simp: n_def min_def)
  obtain m s' where m: "foldR (batchStep t k sz mx) rs (\<lparr> baCnt = int (length rs), baLeft = int n,
        baMsg = Some (msgOf (svNow s) k h) \<rparr>, s) = Inr (\<lparr> baCnt = 0, baLeft = 0, baMsg = Some m \<rparr>, s')"
      "flushBatch t k (Some m) s' = Inr (sent t ((k, msgOf (svNow s) k (h @ concat (map concat (take n rs)))) #
        batchPackets (svNow s) k t (chunksOf (nat mx) (drop n rs))) s)"
    using batchPass_some [OF assms(1) n(2) assms(2) room refl] by blast
  have pass: "batchPass t k sz mx rs (\<lparr> baCnt = int (length rs), baLeft = 0, baMsg = None \<rparr>, s) =
      Inr (\<lparr> baCnt = 0, baLeft = 0, baMsg = Some m \<rparr>, s')"
    using m(1) first unfolding batchPass_def Cons by simp
  have ne: "int (length rs) \<noteq> 0" using Cons by simp
  have w0: "batchWhile t k sz mx rs (\<lparr> baCnt = 0, baLeft = 0, baMsg = Some m \<rparr>, s') =
      Some (Inr (\<lparr> baCnt = 0, baLeft = 0, baMsg = Some m \<rparr>, s'))"
    by (subst batchWhile.simps) simp
  have "batchWhile t k sz mx rs (\<lparr> baCnt = int (length rs), baLeft = 0, baMsg = None \<rparr>, s) =
      Some (Inr (\<lparr> baCnt = 0, baLeft = 0, baMsg = Some m \<rparr>, s'))"
    using ne by (subst batchWhile.simps) (simp add: pass w0)
  then have run: "sendBatch t k sz mx rs s = flushBatch t k (Some m) s'"
    using ne c by (simp add: sendBatch_def)
  have tk: "take (nat mx) rs = take n rs" "drop (nat mx) rs = drop n rs"
    by (auto simp: n_def min_def)
  have chunks: "chunksOf (nat mx) rs = take n rs # chunksOf (nat mx) (drop n rs)"
    using par(1) tk Cons by (subst chunksOf.simps) simp
  have "int (length (concat (map concat xs))) = sz * int (length xs)" if "set xs \<subseteq> set rs" for xs
    using that assms(1) by (induction xs) (auto simp: batch_ok_def algebra_simps)
  from this [OF set_take_subset] have "int (length (concat (map concat (take n rs)))) = sz * int n"
    using n(2) by (simp add: min_absorb2)
  then have "msgOf (svNow s) k (h @ concat (map concat (take n rs))) = packet (svNow s) k t (batchBody (take n rs))"
    using n(2) by (simp add: packet_def msgOf_def batchBody_def h_def min_absorb2)
  then show ?thesis using run m(2) chunks by simp
qed

lemma collect_eq:
  "\<forall>k \<in> set ks. \<exists>x. f k = Some x \<Longrightarrow> collect f ks = Inr (map (\<lambda>k. the (f k)) ks)"
proof -
  have "foldR (\<lambda>k acc. case f k of None \<Rightarrow> Inl UndefinedBehaviour | Some x \<Rightarrow> Inr (acc @ [x])) ks acc =
      Inr (acc @ map (\<lambda>k. the (f k)) ks)" if "\<forall>k \<in> set ks. \<exists>x. f k = Some x" for acc
    using that by (induction ks arbitrary: acc) auto
  then show "\<forall>k \<in> set ks. \<exists>x. f k = Some x \<Longrightarrow> ?thesis" by (simp add: collect_def)
qed

text \<open>What one player is told: the other players, the monsters and the items of some sectors.\<close>

definition liveM :: "sector list \<Rightarrow> server \<Rightarrow> bool" where
  "liveM near s \<longleftrightarrow> (\<forall>k \<in> set (members (svMonsterSectors s) near). \<exists>m. map_of (svMonsters s) k = Some m)"

definition liveI :: "sector list \<Rightarrow> server \<Rightarrow> bool" where
  "liveI near s \<longleftrightarrow> (\<forall>k \<in> set (members (svItemSectors s) near). \<exists>it. map_of (svItems s) k = Some it)"

lemma sendSpawnBatch_eq:
  assumes "live near s" "\<forall>k \<in> set (members (svSectors s) near). length (plNickname (theP s k)) = 20"
    and "length (members (svSectors s) near) < 32768"
  shows "sendSpawnBatch p near s = Inr (sent OTHER_CHARACTER_SPAWN_BATCH
    (batchPackets (svNow s) (plSeqID p) OTHER_CHARACTER_SPAWN_BATCH (chunksOf 127
      (map (\<lambda>k. spawnFields (theP s k)) (filter (\<lambda>k. k \<noteq> plSeqID p) (members (svSectors s) near))))) s)"
proof -
  define ks where "ks = filter (\<lambda>k. k \<noteq> plSeqID p) (members (svSectors s) near)"
  have ks: "\<exists>q. map_of (svObjs s) k = Some q" if "k \<in> set ks" for k
    using that assms(1) by (force simp: ks_def live_def)
  have the: "the (map_of (svObjs s) k) = theP s k" if "k \<in> set ks" for k
    using ks [OF that] by (auto simp: theP_def)
  have c: "collect (map_of (svObjs s)) ks = Inr (map (theP s) ks)"
    using ks the by (subst collect_eq) (auto cong: map_cong)
  have len: "length (map spawnFields (map (theP s) ks)) < 32768"
    using le_less_trans [OF length_filter_le assms(3)] by (simp add: ks_def)
  have "batch_ok OTHER_CHARACTER_SPAWN_BATCH (8 + 4 + 4 + 1 + 1 + 4 + 4 + 1 + 20)
      (batchMax (8 + 4 + 4 + 1 + 1 + 4 + 4 + 1 + 20)) (map spawnFields (map (theP s) ks))"
    using assms(2) by (auto simp: batch_ok_def type_oks batchMax_def BufferSize_def spawnFields_def ks_def)
  from sendBatch_eq [OF this len] show ?thesis
    unfolding sendSpawnBatch_def ks_def [symmetric] c
    by (simp add: batchMax_def BufferSize_def comp_def)
qed

lemma sendMonsterSpawnBatch_eq:
  assumes "liveM near s" "length (members (svMonsterSectors s) near) < 32768"
  shows "sendMonsterSpawnBatch p near s = Inr (sent MONSTER_SPAWN_BATCH
    (batchPackets (svNow s) (plSeqID p) MONSTER_SPAWN_BATCH (chunksOf 221
      (map (\<lambda>k. monsterFields (the (map_of (svMonsters s) k))) (members (svMonsterSectors s) near)))) s)"
proof -
  define ks where "ks = members (svMonsterSectors s) near"
  have c: "collect (map_of (svMonsters s)) ks = Inr (map (\<lambda>k. the (map_of (svMonsters s) k)) ks)"
    using assms(1) by (intro collect_eq) (simp add: liveM_def ks_def)
  have "batch_ok MONSTER_SPAWN_BATCH (8 + 4 + 4 + 1 + 1 + 4 + 1 + 4)
      (batchMax (8 + 4 + 4 + 1 + 1 + 4 + 1 + 4)) (map monsterFields (map (\<lambda>k. the (map_of (svMonsters s) k)) ks))"
    by (auto simp: batch_ok_def type_oks batchMax_def BufferSize_def monsterFields_def)
  from sendBatch_eq [OF this] show ?thesis using assms(2)
    unfolding sendMonsterSpawnBatch_def ks_def [symmetric] c
    by (simp add: batchMax_def BufferSize_def comp_def)
qed

lemma sendItemSpawnBatch_eq:
  assumes "liveI near s" "length (members (svItemSectors s) near) < 32768"
  shows "sendItemSpawnBatch p near s = Inr (sent ITEM_SPAWN_BATCH
    (batchPackets (svNow s) (plSeqID p) ITEM_SPAWN_BATCH (chunksOf 352
      (map (\<lambda>k. itemFields (the (map_of (svItems s) k))) (members (svItemSectors s) near)))) s)"
proof -
  define ks where "ks = members (svItemSectors s) near"
  have c: "collect (map_of (svItems s)) ks = Inr (map (\<lambda>k. the (map_of (svItems s) k)) ks)"
    using assms(1) by (intro collect_eq) (simp add: liveI_def ks_def)
  have "batch_ok ITEM_SPAWN_BATCH (8 + 1 + 4 + 4)
      (batchMax (8 + 1 + 4 + 4)) (map itemFields (map (\<lambda>k. the (map_of (svItems s) k)) ks))"
    by (auto simp: batch_ok_def type_oks batchMax_def BufferSize_def itemFields_def)
  from sendBatch_eq [OF this] show ?thesis using assms(2)
    unfolding sendItemSpawnBatch_def ks_def [symmetric] c
    by (simp add: batchMax_def BufferSize_def comp_def)
qed

lemma sendMonsterDespawnBatch_eq:
  assumes "liveM near s"
  shows "sendMonsterDespawnBatch p near s = Inr (sent MONSTER_DESPAWN (map (\<lambda>k. (plSeqID p,
      packet (svNow s) (plSeqID p) MONSTER_DESPAWN (enc 8 (mnMonsterID (the (map_of (svMonsters s) k))))))
    (members (svMonsterSectors s) near)) s)"
proof -
  have "sendMonsterDespawnBatch p near s = Inr (sent MONSTER_DESPAWN (concat (map (\<lambda>k. [(plSeqID p,
      packet (svNow s) (plSeqID p) MONSTER_DESPAWN (enc 8 (mnMonsterID (the (map_of (svMonsters s) k)))))])
    (members (svMonsterSectors s) near))) s)"
    unfolding sendMonsterDespawnBatch_def
  proof (rule foldR_grid_sent [where grid = svMonsterSectors and tab = svMonsters])
    fix k and s' :: server assume "k \<in> set (members (svMonsterSectors s) near)" "svMonsters s' = svMonsters s"
    then show "derefM k s' (\<lambda>m. sendMsg MONSTER_DESPAWN (2 + 8) [enc 8 (mnMonsterID m)] (plSeqID p) s') =
        Inr (sent MONSTER_DESPAWN [(plSeqID p, packet (svNow s') (plSeqID p) MONSTER_DESPAWN
          (enc 8 (mnMonsterID (the (map_of (svMonsters s) k)))))] s')"
      using assms by (auto simp: derefM_def liveM_def sendMsg_eq type_oks simp del: enc.simps split: option.splits)
  qed simp_all
  then show ?thesis by (simp add: concat_map_singleton)
qed

lemma sendItemDespawnBatch_eq:
  assumes "liveI near s"
  shows "sendItemDespawnBatch p near s = Inr (sent ITEM_DESPAWN (map (\<lambda>k. (plSeqID p,
      packet (svNow s) (plSeqID p) ITEM_DESPAWN (enc 8 (itItemUniqueId (the (map_of (svItems s) k))))))
    (members (svItemSectors s) near)) s)"
proof -
  have "sendItemDespawnBatch p near s = Inr (sent ITEM_DESPAWN (concat (map (\<lambda>k. [(plSeqID p,
      packet (svNow s) (plSeqID p) ITEM_DESPAWN (enc 8 (itItemUniqueId (the (map_of (svItems s) k)))))])
    (members (svItemSectors s) near))) s)"
    unfolding sendItemDespawnBatch_def
  proof (rule foldR_grid_sent [where grid = svItemSectors and tab = svItems])
    fix k and s' :: server assume "k \<in> set (members (svItemSectors s) near)" "svItems s' = svItems s"
    then show "derefI k s' (\<lambda>it. sendMsg ITEM_DESPAWN (2 + 8) [enc 8 (itItemUniqueId it)] (plSeqID p) s') =
        Inr (sent ITEM_DESPAWN [(plSeqID p, packet (svNow s') (plSeqID p) ITEM_DESPAWN
          (enc 8 (itItemUniqueId (the (map_of (svItems s) k)))))] s')"
      using assms by (auto simp: derefI_def liveI_def sendMsg_eq type_oks simp del: enc.simps split: option.splits)
  qed simp_all
  then show ?thesis by (simp add: concat_map_singleton)
qed

end
