(* ===== verification/Combat.thy ===== *)
theory Combat
  imports Broadcast
begin

text \<open>
  Fighting and looting: the two attack evaluations of \<open>FieldServer.cpp\<close>
  (\<open>processMonsterAttackHit\<close>, \<open>processPlayerAttackHit\<close>), the drop of an item, the jobs sent to
  the database thread, and whether a monster may go on chasing.
\<close>

subsection \<open>Jobs for the database thread\<close>

text \<open>\<open>mDBReqQ[fieldIdx]->Enqueue(&job, sizeof(job))\<close>; there is one field.\<close>

definition enqDBReq :: "int \<Rightarrow> dbJob \<Rightarrow> server \<Rightarrow> server res" where
  "enqDBReq fieldIdx job s =
     (if 0 \<le> fieldIdx \<and> fieldIdx < CONFIG_FIELD_SIZE
      then bindR (enqPtr job (svDBReqQ s)) (\<lambda>q. Inr (s\<lparr>svDBReqQ := q\<rparr>))
      else Inl UndefinedBehaviour)"

definition requestPositionSave :: "int \<Rightarrow> player \<Rightarrow> server \<Rightarrow> server res" where
  "requestPositionSave fieldIdx p s =
     assertR (and (plDBRequestCnt p) DB_POSITION_SAVE_PENDING_BIT = 0)
       (bindR (enqDBReq fieldIdx (DBPositionSave (plSeqID p) (plAccountNo p) (plPos p)) s) (\<lambda>s.
        Inr (putP (p\<lparr>plDBRequestCnt := or (plDBRequestCnt p) DB_POSITION_SAVE_PENDING_BIT\<rparr>) s)))"

definition requestKillCountUpdate :: "int \<Rightarrow> player \<Rightarrow> int \<Rightarrow> server \<Rightarrow> server res" where
  "requestKillCountUpdate fieldIdx p killCnt =
     enqDBReq fieldIdx (DBKillCountUpdate (plSeqID p) (plAccountNo p) (plNickname p) killCnt)"

definition requestRankingQuery :: "int \<Rightarrow> player \<Rightarrow> server \<Rightarrow> server res" where
  "requestRankingQuery fieldIdx p =
     enqDBReq fieldIdx (DBRankingQuery (plSeqID p) (plAccountNo p) (plNickname p))"

subsection \<open>Drops\<close>

text \<open>\<open>unordered_map::insert\<close> leaves an existing entry alone.\<close>

definition mapIns :: "'k \<Rightarrow> 'v \<Rightarrow> ('k \<times> 'v) list \<Rightarrow> ('k \<times> 'v) list" where
  "mapIns k v xs = (if map_of xs k = None then xs @ [(k, v)] else xs)"

definition dropItem :: "monster \<Rightarrow> server \<Rightarrow> server res" where
  "dropItem m s =
     bindR (rollDrop (svRng s)) (\<lambda>(drop, g).
     let s = s\<lparr>svRng := g\<rparr> in
     case drop of
       None \<Rightarrow> Inr s
     | Some (itemId, cnt) \<Rightarrow>
         let uid = wrap64 (svItemUniqueID s + 1)
         in bindR (calcSector (mnPos m)) (\<lambda>sector.
            let it = (newFieldItem uid itemId cnt (mnPos m))\<lparr>itSector := sector\<rparr>;
                s = s\<lparr>svItemUniqueID := uid, svItems := mapIns uid it (svItems s),
                      svItemSectors := insSector sector uid (svItemSectors s)\<rparr>
            in bindR (getAroundSectors sector) (\<lambda>near. broadcastItemSpawn it near s)))"

subsection \<open>Monsters attack\<close>

definition possibleChasePlayer :: "int \<Rightarrow> server \<Rightarrow> position option" where
  "possibleChasePlayer playerID s =
     (case findPlayer playerID s of
        None \<Rightarrow> None
      | Some p \<Rightarrow> if IsDead p then None else Some (plPos p))"

text \<open>The loop for the closest living player in reach; of several at the same distance the last.\<close>

definition closestStep :: "monster \<Rightarrow> player \<Rightarrow> int option \<times> f32 \<Rightarrow> int option \<times> f32" where
  "closestStep m p acc =
     (if IsDead p then acc
      else let dist = pos_dist (mnPos m) (plPos p)
           in if f_le dist (snd acc) then (Some (plSeqID p), dist) else acc)"

definition closestPlayer :: "monster \<Rightarrow> sector list \<Rightarrow> server \<Rightarrow> (int option \<times> f32) res" where
  "closestPlayer m near s =
     foldR (\<lambda>k acc. derefP k s (\<lambda>p. Inr (closestStep m p acc))) (members (svSectors s) near)
       (None, MONSTER_ATTACK_RANGE)"

definition processMonsterAttackHit :: "monster \<Rightarrow> server \<Rightarrow> server res" where
  "processMonsterAttackHit m s =
     bindR (getAroundSectors (mnSector m)) (\<lambda>near.
     bindR (closestPlayer m near s) (\<lambda>(closest, dist).
     case closest of
       None \<Rightarrow> Inr s
     | Some k \<Rightarrow> derefP k s (\<lambda>p.
         bindR (Player.takeDamage MONSTER_ATTACK_DAMAGE (mnPos m) (mnDirection m) p) (\<lambda>p.
         bindR (getAroundSectors (plCurrentSector p)) (\<lambda>targetNear.
         broadcastCharacterDamaged p m targetNear (putP p s))))))"

subsection \<open>Players attack\<close>

text \<open>\<open>std::sort\<close> with the comparison of the lambda: by distance, then by number.\<close>

fun insBy :: "('a \<Rightarrow> 'a \<Rightarrow> bool) \<Rightarrow> 'a \<Rightarrow> 'a list \<Rightarrow> 'a list" where
  "insBy lt x [] = [x]"
| "insBy lt x (y # ys) = (if lt y x then y # insBy lt x ys else x # y # ys)"

definition sortBy :: "('a \<Rightarrow> 'a \<Rightarrow> bool) \<Rightarrow> 'a list \<Rightarrow> 'a list" where
  "sortBy lt xs = foldr (insBy lt) xs []"

definition targetDist :: "player \<Rightarrow> server \<Rightarrow> int \<Rightarrow> f32" where
  "targetDist p s k = (case map_of (svMonsters s) k of
     None \<Rightarrow> f_default_nan | Some m \<Rightarrow> pos_dist (plPos p) (mnPos m))"

definition targetLess :: "player \<Rightarrow> server \<Rightarrow> int \<Rightarrow> int \<Rightarrow> bool" where
  "targetLess p s a b =
     (if f_eq (targetDist p s a) (targetDist p s b) then a < b
      else f_lt (targetDist p s a) (targetDist p s b))"

definition validTarget :: "server \<Rightarrow> int \<Rightarrow> bool" where
  "validTarget s k = (case map_of (svMonsters s) k of
     None \<Rightarrow> False | Some m \<Rightarrow> mnState m \<noteq> MDead \<and> mnState m \<noteq> MReturn)"

definition hitMonster :: "player \<Rightarrow> int \<Rightarrow> monster \<Rightarrow> server \<Rightarrow> server res" where
  "hitMonster p fieldIdx m s =
     bindR (Monster.takeDamage (plAttackPower p) (plPos p) (plDirection p) (plSeqID p) m) (\<lambda>m.
     let s = putM m s in
     bindR (getAroundSectors (mnSector m)) (\<lambda>near.
     bindR (broadcastMonsterDamaged m near s) (\<lambda>s.
     if mnState m = MDead
     then bindR (dropItem m s) (\<lambda>s. requestKillCountUpdate fieldIdx p 1 s)
     else Inr s)))"

fun hitTargets :: "player \<Rightarrow> int \<Rightarrow> f32 \<Rightarrow> int list \<Rightarrow> int \<Rightarrow> server \<Rightarrow> server res" where
  "hitTargets p fieldIdx rangeLen [] maxTargetCnt s = Inr s"
| "hitTargets p fieldIdx rangeLen (k # ks) maxTargetCnt s =
     (case map_of (svMonsters s) k of
        None \<Rightarrow> hitTargets p fieldIdx rangeLen ks maxTargetCnt s
      | Some m \<Rightarrow>
          if \<not> isInAttackRange (posX (plPos p)) (posY (plPos p)) (posX (mnPos m)) (posY (mnPos m)) rangeLen
          then hitTargets p fieldIdx rangeLen ks maxTargetCnt s
          else bindR (hitMonster p fieldIdx m s) (\<lambda>s.
               let maxTargetCnt = wrap16 (maxTargetCnt - 1)
               in if maxTargetCnt = 0 then Inr s
                  else hitTargets p fieldIdx rangeLen ks maxTargetCnt s))"

definition processPlayerAttackHit :: "player \<Rightarrow> int \<Rightarrow> server \<Rightarrow> server res" where
  "processPlayerAttackHit p fieldIdx s =
     (case getSkillConfig (plPendingAttackSkillId p) of
        None \<Rightarrow> Inr s
      | Some (rangeLen, maxTargetCnt) \<Rightarrow>
          let ts = sortBy (targetLess p s) (filter (validTarget s) (plPendingAttackTargets p));
              p = p\<lparr>plPendingAttackTargets := ts\<rparr>
          in hitTargets p fieldIdx rangeLen ts maxTargetCnt (putP p s))"

end
