(* ===== verification/FieldInv.thy ===== *)
theory FieldInv
  imports Combat
begin

text \<open>
  The invariant of the field thread: its tables of players, monsters and items are consistent with
  the objects and with the grid of sectors, every object is well-formed, and every message handed to
  the network is a correctly framed packet for its receiver. The lemmas say what the queries and the
  small updates do to it.
\<close>

subsection \<open>The parts\<close>

definition player_good :: "int \<Rightarrow> player \<Rightarrow> bool" where
  "player_good k p \<longleftrightarrow> plSeqID p = k \<and> player_wf p \<and> player_placed p \<and> plCurrentFieldID p = 0 \<and>
     sector_ok (plCurrentSector p) \<and> sector_ok (plDestSector p)"

definition inv_players :: "(int \<times> player) list \<Rightarrow> int list \<Rightarrow> (sector \<Rightarrow> int list) \<Rightarrow> bool" where
  "inv_players objs ks grid \<longleftrightarrow> distinct ks \<and> length ks < 32768 \<and>
     (\<forall>k \<in> set ks. \<exists>p. map_of objs k = Some p \<and> player_good k p) \<and>
     (\<forall>c. distinct (grid c) \<and>
        (\<forall>k. k \<in> set (grid c) \<longleftrightarrow> k \<in> set ks \<and> (\<exists>p. map_of objs k = Some p \<and> plCurrentSector p = c)))"

definition monster_good :: "int \<Rightarrow> monster \<Rightarrow> bool" where
  "monster_good k m \<longleftrightarrow> mnMonsterID m = k \<and> monster_wf m \<and> sector_ok (mnSector m) \<and> sector_ok (mnDestSector m)"

definition inv_monsters :: "(int \<times> monster) list \<Rightarrow> (sector \<Rightarrow> int list) \<Rightarrow> bool" where
  "inv_monsters tab grid \<longleftrightarrow> distinct (map fst tab) \<and> length tab < 32768 \<and>
     (\<forall>(k, m) \<in> set tab. monster_good k m) \<and>
     (\<forall>c. distinct (grid c) \<and>
        (\<forall>k. k \<in> set (grid c) \<longleftrightarrow> (\<exists>m. map_of tab k = Some m \<and> mnSector m = c)))"

definition item_good :: "int \<Rightarrow> fieldItem \<Rightarrow> bool" where
  "item_good k it \<longleftrightarrow> itItemUniqueId it = k \<and> in_map (itPos it) \<and> sector_ok (itSector it) \<and>
     0 \<le> itLifeFrame it \<and> itLifeFrame it < 1500"

definition inv_items :: "(int \<times> fieldItem) list \<Rightarrow> (sector \<Rightarrow> int list) \<Rightarrow> int \<Rightarrow> bool" where
  "inv_items tab grid uid \<longleftrightarrow> distinct (map fst tab) \<and> 0 \<le> uid \<and> uid < 2 ^ 62 \<and>
     (\<forall>(k, it) \<in> set tab. item_good k it \<and> 0 < k \<and> k \<le> uid) \<and>
     (\<forall>c. distinct (grid c) \<and>
        (\<forall>k. k \<in> set (grid c) \<longleftrightarrow> (\<exists>it. map_of tab k = Some it \<and> itSector it = c)))"

definition framed :: "int \<Rightarrow> message \<Rightarrow> bool" where
  "framed k m \<longleftrightarrow> mOwnerID m = k \<and> mFront m = 0 \<and> 5 \<le> length (mBuf m) \<and> length (mBuf m) \<le> 6000 \<and>
     hLen (headerOf (mBuf m)) = int (length (mBuf m)) - 3"

definition rng_fair :: "rng \<Rightarrow> bool" where
  "rng_fair g \<longleftrightarrow> (\<forall>n. \<exists>k. g (n + k) < 32700)"

definition field_inv :: "server \<Rightarrow> bool" where
  "field_inv s \<longleftrightarrow> inv_players (svObjs s) (svPlayers s) (svSectors s) \<and>
     inv_monsters (svMonsters s) (svMonsterSectors s) \<and>
     inv_items (svItems s) (svItemSectors s) (svItemUniqueID s) \<and>
     (\<forall>(k, m) \<in> set (svOut s). framed k m) \<and> rng_fair (svRng s)"

subsection \<open>Packets\<close>

lemma packet_framed:
  assumes "int (length body) \<le> 5995"
  shows "framed k (packet now k t body)"
proof -
  have "header_ok \<lparr> hLen = int (2 + length body), hRandKey = 0 \<rparr>" using assms by (simp add: header_ok_def)
  from headerOf_headerBytes [OF this] show ?thesis
    using assms by (simp add: framed_def packet_def del: enc.simps)
qed

lemma toMembers_framed:
  assumes "int (length body) \<le> 5995" "(k, m) \<in> set (toMembers near t body P s)"
  shows "framed k m"
  using assms packet_framed by (auto simp: toMembers_def)

lemma batchPackets_framed:
  assumes "\<forall>r \<in> set rs. int (length (concat r)) = sz" "0 < n" "sz * int n \<le> 5993"
    and "(k, m) \<in> set (batchPackets now q t (chunksOf n rs))"
  shows "framed k m"
proof -
  obtain c where c: "c \<in> set (chunksOf n rs)" "k = q" "m = packet now q t (batchBody c)"
    using assms(4) by (auto simp: batchPackets_def)
  have sub: "set c \<subseteq> set rs" using c(1) concat_chunksOf [OF assms(2), of rs] by (metis UN_upper set_concat)
  have len: "length c \<le> n" using length_chunksOf [OF assms(2) c(1)] by simp
  have "int (length (concat (map concat xs))) = sz * int (length xs)" if "set xs \<subseteq> set rs" for xs
    using that assms(1) by (induction xs) (auto simp: algebra_simps)
  from this [OF sub] have l: "int (length (concat (map concat c))) = sz * int (length c)" .
  have "sz * int (length c) \<le> 5993"
  proof (cases "c = []")
    case False
    then have "0 \<le> sz" using assms(1) sub by (cases c) auto
    then have "sz * int (length c) \<le> sz * int n" using len by (intro mult_left_mono) auto
    then show ?thesis using assms(3) by simp
  qed simp
  then show ?thesis using c l by (auto simp: batchBody_def intro!: packet_framed)
qed

subsection \<open>Members of sectors\<close>

lemma members_players:
  assumes "inv_players objs ks grid" "k \<in> set (members grid near)"
  shows "k \<in> set ks"
  using assms by (auto simp: inv_players_def set_members)

lemma distinct_concat_grid:
  assumes "distinct near" "\<And>c. distinct (grid c)" "\<And>c d k. k \<in> set (grid c) \<Longrightarrow> k \<in> set (grid d) \<Longrightarrow> c = d"
  shows "distinct (members grid near)"
  using assms(1)
proof (induction near)
  case Nil
  then show ?case by (simp add: members_def)
next
  case (Cons c near)
  have "set (grid c) \<inter> set (members grid near) = {}"
    using Cons.prems assms(3) by (auto simp: set_members)
  then show ?case using Cons assms(2) by (simp add: members_def)
qed

lemma players_members:
  assumes "inv_players objs ks grid" "distinct near"
  shows "distinct (members grid near)" "length (members grid near) < 32768"
proof -
  show d: "distinct (members grid near)"
    using assms by (intro distinct_concat_grid) (auto simp: inv_players_def)
  have "set (members grid near) \<subseteq> set ks" using members_players [OF assms(1)] by blast
  then have "length (members grid near) \<le> length ks"
    using d assms(1) by (metis card_mono distinct_card inv_players_def List.finite_set)
  then show "length (members grid near) < 32768" using assms(1) by (simp add: inv_players_def)
qed

lemma monsters_members:
  assumes "inv_monsters tab grid" "distinct near"
  shows "distinct (members grid near)" "length (members grid near) < 32768"
proof -
  show d: "distinct (members grid near)"
    using assms by (intro distinct_concat_grid) (auto simp: inv_monsters_def)
  have "set (members grid near) \<subseteq> fst ` set tab"
  proof
    fix k assume "k \<in> set (members grid near)"
    then obtain m where "map_of tab k = Some m" using assms(1) by (auto simp: inv_monsters_def set_members)
    then show "k \<in> fst ` set tab" by (metis fst_conv image_eqI map_of_SomeD)
  qed
  then have "length (members grid near) \<le> length tab"
    using d by (metis card_mono distinct_card List.finite_set finite_imageI card_image_le
        card_length le_trans)
  then show "length (members grid near) < 32768" using assms(1) by (simp add: inv_monsters_def)
qed

lemma items_members:
  assumes "inv_items tab grid uid" "distinct near"
  shows "distinct (members grid near)" "length (members grid near) \<le> length tab"
proof -
  show d: "distinct (members grid near)"
    using assms by (intro distinct_concat_grid) (auto simp: inv_items_def)
  have "set (members grid near) \<subseteq> fst ` set tab"
  proof
    fix k assume "k \<in> set (members grid near)"
    then obtain m where "map_of tab k = Some m" using assms(1) by (auto simp: inv_items_def set_members)
    then show "k \<in> fst ` set tab" by (metis fst_conv image_eqI map_of_SomeD)
  qed
  then show "length (members grid near) \<le> length tab"
    using d by (metis card_mono distinct_card List.finite_set finite_imageI card_image_le
        card_length le_trans)
qed

lemma inv_live: "inv_players (svObjs s) (svPlayers s) (svSectors s) \<Longrightarrow> live near s"
  by (force simp: live_def inv_players_def set_members player_good_def)

lemma inv_liveM: "inv_monsters (svMonsters s) (svMonsterSectors s) \<Longrightarrow> liveM near s"
  by (auto simp: liveM_def inv_monsters_def set_members)

lemma inv_liveI: "inv_items (svItems s) (svItemSectors s) uid \<Longrightarrow> liveI near s"
  by (auto simp: liveI_def inv_items_def set_members)

lemma inv_player:
  assumes "inv_players (svObjs s) (svPlayers s) (svSectors s)" "k \<in> set (svPlayers s)"
  shows "map_of (svObjs s) k = Some (theP s k) \<and> player_good k (theP s k)"
  using assms by (force simp: inv_players_def theP_def)

lemma findPlayer_inv:
  assumes "inv_players (svObjs s) (svPlayers s) (svSectors s)"
  shows "findPlayer k s = (if k \<in> set (svPlayers s) then Some (theP s k) else None)"
  using inv_player [OF assms] by (auto simp: findPlayer_def)

lemma inv_monster:
  "inv_monsters tab grid \<Longrightarrow> map_of tab k = Some m \<Longrightarrow> monster_good k m"
  by (auto simp: inv_monsters_def dest: map_of_SomeD)

lemma inv_item: "inv_items tab grid uid \<Longrightarrow> map_of tab k = Some it \<Longrightarrow> item_good k it \<and> 0 < k \<and> k \<le> uid"
  by (auto simp: inv_items_def dest: map_of_SomeD)

subsection \<open>Updates\<close>

lemma set_insSector: "x \<in> set (insSector c k grid d) \<longleftrightarrow> x \<in> set (grid d) \<or> d = c \<and> x = k"
  by (auto simp: insSector_def setIns_def)

lemma set_delSector: "x \<in> set (delSector c k grid d) \<longleftrightarrow> x \<in> set (grid d) \<and> \<not> (d = c \<and> x = k)"
  by (auto simp: delSector_def)

lemma distinct_insSector: "distinct (grid d) \<Longrightarrow> distinct (insSector c k grid d)"
  by (auto simp: insSector_def setIns_def)

lemma distinct_delSector: "distinct (grid d) \<Longrightarrow> distinct (delSector c k grid d)"
  by (auto simp: delSector_def distinct_removeAll)

lemmas grid_simps = set_insSector set_delSector distinct_insSector distinct_delSector

lemma inv_players_other:
  "inv_players objs ks grid \<Longrightarrow> k \<notin> set ks \<Longrightarrow> inv_players (alUpd k p objs) ks grid"
  unfolding inv_players_def by auto

lemma inv_players_put:
  assumes "inv_players objs ks grid" "map_of objs k = Some p" "player_good k p'"
    and "plCurrentSector p' = plCurrentSector p"
  shows "inv_players (alUpd k p' objs) ks grid"
  using assms unfolding inv_players_def by auto

lemma inv_players_move:
  assumes "inv_players objs ks grid" "map_of objs k = Some p" "k \<in> set ks" "player_good k p'"
    and "plCurrentSector p' = d" "plCurrentSector p = c"
  shows "inv_players (alUpd k p' objs) ks (insSector d k (delSector c k grid))"
  using assms unfolding inv_players_def by (auto simp: grid_simps)

lemma inv_players_add:
  assumes "inv_players objs ks grid" "k \<notin> set ks" "length ks < 32767" "player_good k p'"
    and "plCurrentSector p' = d"
  shows "inv_players (alUpd k p' objs) (ks @ [k]) (insSector d k grid)"
  using assms unfolding inv_players_def by (auto simp: grid_simps)

lemma inv_players_remove:
  assumes "inv_players objs ks grid" "map_of objs k = Some p" "plCurrentSector p = c"
  shows "inv_players objs (removeAll k ks) (delSector c k grid)"
  using assms unfolding inv_players_def
  by (auto simp: grid_simps distinct_removeAll intro: le_less_trans [OF length_removeAll_less_eq])

lemma alUpd_keys_same: "map_of tab k = Some x \<Longrightarrow> map fst (alUpd k y tab) = map fst tab"
  by (rule keys_alUpd_Some)

lemma length_alUpd_same: "map_of tab k = Some x \<Longrightarrow> length (alUpd k y tab) = length tab"
  using alUpd_keys_same [of tab k x y] by (metis length_map)

lemma inv_monsters_alt:
  "inv_monsters tab grid \<longleftrightarrow> distinct (map fst tab) \<and> length tab < 32768 \<and>
     (\<forall>k m. map_of tab k = Some m \<longrightarrow> monster_good k m) \<and>
     (\<forall>c. distinct (grid c) \<and>
        (\<forall>k. k \<in> set (grid c) \<longleftrightarrow> (\<exists>m. map_of tab k = Some m \<and> mnSector m = c)))"
  unfolding inv_monsters_def by (auto simp: map_of_eq_Some_iff dest: map_of_SomeD)

lemma inv_monsters_put:
  assumes "inv_monsters tab grid" "map_of tab k = Some m" "monster_good k m'" "mnSector m' = mnSector m"
  shows "inv_monsters (alUpd k m' tab) grid"
  using assms unfolding inv_monsters_alt by (auto simp: length_alUpd_same)

lemma inv_monsters_move:
  assumes "inv_monsters tab grid" "map_of tab k = Some m" "monster_good k m'" "mnSector m' = d" "mnSector m = c"
  shows "inv_monsters (alUpd k m' tab) (insSector d k (delSector c k grid))"
  using assms unfolding inv_monsters_alt by (auto simp: length_alUpd_same grid_simps)

lemma inv_items_alt:
  "inv_items tab grid uid \<longleftrightarrow> distinct (map fst tab) \<and> 0 \<le> uid \<and> uid < 2 ^ 62 \<and>
     (\<forall>k it. map_of tab k = Some it \<longrightarrow> item_good k it \<and> 0 < k \<and> k \<le> uid) \<and>
     (\<forall>c. distinct (grid c) \<and>
        (\<forall>k. k \<in> set (grid c) \<longleftrightarrow> (\<exists>it. map_of tab k = Some it \<and> itSector it = c)))"
  unfolding inv_items_def by (auto simp: map_of_eq_Some_iff dest: map_of_SomeD)

lemma inv_items_put:
  assumes "inv_items tab grid uid" "map_of tab k = Some it" "item_good k it'" "itSector it' = itSector it"
  shows "inv_items (alUpd k it' tab) grid uid"
  using assms unfolding inv_items_alt by auto

lemma inv_items_remove:
  assumes "inv_items tab grid uid" "map_of tab k = Some it" "itSector it = c"
  shows "inv_items (alDel k tab) (delSector c k grid) uid"
  using assms unfolding inv_items_alt by (auto simp: grid_simps)

lemma map_of_mapIns [simp]: "map_of (mapIns k v xs) = (if map_of xs k = None then (map_of xs)(k \<mapsto> v) else map_of xs)"
  by (auto simp: mapIns_def map_add_def fun_eq_iff split: option.splits)

lemma distinct_mapIns [simp]: "distinct (map fst xs) \<Longrightarrow> distinct (map fst (mapIns k v xs))"
  by (auto simp: mapIns_def map_of_eq_None_iff)

lemma inv_items_add:
  assumes "inv_items tab grid uid" "uid + 1 < 2 ^ 62" "item_good (uid + 1) it" "itSector it = c"
  shows "inv_items (mapIns (uid + 1) it tab) (insSector c (uid + 1) grid) (uid + 1)"
proof -
  have new: "map_of tab (uid + 1) = None"
    using inv_item [OF assms(1), of "uid + 1"] by (cases "map_of tab (uid + 1)") auto
  have "k \<le> uid + 1" if "map_of tab k = Some x" for k x
    using inv_item [OF assms(1) that] by simp
  then show ?thesis using assms new unfolding inv_items_alt
    by (auto simp: grid_simps split: if_splits)
qed

subsection \<open>Sending keeps the invariant\<close>

text \<open>
  \<open>quiet s s'\<close>: between the two only messages were sent. \<open>sends s r\<close>: the operation succeeds,
  only sends, and leaves the invariant.
\<close>

definition quiet :: "server \<Rightarrow> server \<Rightarrow> bool" where
  "quiet s s' \<longleftrightarrow> (\<exists>ms cnt. s' = s\<lparr>svOut := svOut s @ ms, svSendCount := cnt\<rparr>)"

definition sends :: "server \<Rightarrow> server res \<Rightarrow> bool" where
  "sends s r \<longleftrightarrow> (\<exists>s'. r = Inr s' \<and> quiet s s' \<and> field_inv s')"

lemma quiet_refl [simp]: "quiet s s"
  unfolding quiet_def by (rule exI [of _ "[]"], rule exI [of _ "svSendCount s"]) simp

lemma quiet_trans:
  assumes "quiet s s'" "quiet s' s''"
  shows "quiet s s''"
proof -
  obtain ms cnt ms' cnt' where "s' = s\<lparr>svOut := svOut s @ ms, svSendCount := cnt\<rparr>"
      "s'' = s'\<lparr>svOut := svOut s' @ ms', svSendCount := cnt'\<rparr>"
    using assms by (auto simp: quiet_def)
  then have "s'' = s\<lparr>svOut := svOut s @ (ms @ ms'), svSendCount := cnt'\<rparr>" by simp
  then show ?thesis unfolding quiet_def by blast
qed

lemma quiet_sent [simp]: "quiet s (sent t ms s)"
  by (auto simp: quiet_def sent_def)

lemma quiet_frame [frame]:
  assumes "quiet s s'"
  shows "svNow s' = svNow s" "svOn s' = svOn s" "svRng s' = svRng s"
    "svCharacterID s' = svCharacterID s" "svItemUniqueID s' = svItemUniqueID s"
    "svObjs s' = svObjs s" "svUnAuth s' = svUnAuth s" "svAccounts s' = svAccounts s"
    "svAuthPlayers s' = svAuthPlayers s" "svPlayers s' = svPlayers s" "svMonsters s' = svMonsters s"
    "svItems s' = svItems s" "svSectors s' = svSectors s" "svMonsterSectors s' = svMonsterSectors s"
    "svItemSectors s' = svItemSectors s" "svMsgQ s' = svMsgQ s" "svNotifyQ s' = svNotifyQ s"
    "svDBReqQ s' = svDBReqQ s" "svDBResQ s' = svDBResQ s" "svDiscon s' = svDiscon s"
    "svLootCount s' = svLootCount s" "svPlayerCnt s' = svPlayerCnt s"
    "theP s' = theP s" "findPlayer k s' = findPlayer k s"
  using assms by (auto simp: quiet_def theP_def findPlayer_def fun_eq_iff)

lemma sends_Inr: "field_inv s \<Longrightarrow> sends s (Inr s)"
  by (simp add: sends_def)

lemma sends_bind:
  assumes "sends s r" "\<And>s'. quiet s s' \<Longrightarrow> field_inv s' \<Longrightarrow> sends s' (f s')"
  shows "sends s (bindR r f)"
proof -
  obtain s' where s': "r = Inr s'" "quiet s s'" "field_inv s'" using assms(1) by (auto simp: sends_def)
  then obtain s'' where "f s' = Inr s''" "quiet s' s''" "field_inv s''"
    using assms(2) by (fastforce simp: sends_def)
  then show ?thesis using s' quiet_trans by (fastforce simp: sends_def)
qed

lemma sent_inv: "field_inv s \<Longrightarrow> \<forall>(k, m) \<in> set ms. framed k m \<Longrightarrow> field_inv (sent t ms s)"
  by (auto simp: field_inv_def)

lemma sends_sent: "field_inv s \<Longrightarrow> r = Inr (sent t ms s) \<Longrightarrow> \<forall>(k, m) \<in> set ms. framed k m \<Longrightarrow> sends s r"
  by (simp add: sends_def sent_inv)

lemma sends_toMembers:
  assumes "field_inv s" "r = Inr (sent t (toMembers near t' body P s) s)" "int (length body) \<le> 5995"
  shows "sends s r"
  using assms(1,2) toMembers_framed [OF assms(3)] by (intro sends_sent) auto

lemma field_inv_live [simp]: "field_inv s \<Longrightarrow> live near s"
  by (simp add: field_inv_def inv_live)

lemma field_inv_liveM [simp]: "field_inv s \<Longrightarrow> liveM near s"
  by (simp add: field_inv_def inv_liveM)

lemma field_inv_liveI [simp]: "field_inv s \<Longrightarrow> liveI near s"
  by (auto simp: field_inv_def intro: inv_liveI)

lemma sends_broadcastSpawn:
  "field_inv s \<Longrightarrow> length (plNickname p) = 20 \<Longrightarrow> sends s (broadcastSpawn p near s)"
  by (rule sends_toMembers [OF _ broadcastSpawn_eq]) (simp_all add: spawnBody_def spawnFields_def)

lemma sends_broadcastDespawn: "field_inv s \<Longrightarrow> sends s (broadcastDespawn p near s)"
  by (rule sends_toMembers [OF _ broadcastDespawn_eq]) simp_all

lemma sends_broadcastMoveStart: "field_inv s \<Longrightarrow> sends s (broadcastMoveStart p near s)"
  by (rule sends_toMembers [OF _ broadcastMoveStart_eq]) (simp_all add: moveBody_def)

lemma sends_broadcastMoveStop: "field_inv s \<Longrightarrow> sends s (broadcastMoveStop p near s)"
  by (rule sends_toMembers [OF _ broadcastMoveStop_eq]) (simp_all add: moveBody_def)

lemma sends_broadcastPlayerAttack: "field_inv s \<Longrightarrow> sends s (broadcastPlayerAttack p near s)"
  by (rule sends_toMembers [OF _ broadcastPlayerAttack_eq]) simp_all

lemma sends_broadcastCharacterDamaged: "field_inv s \<Longrightarrow> sends s (broadcastCharacterDamaged p m near s)"
  by (rule sends_toMembers [OF _ broadcastCharacterDamaged_eq]) simp_all

lemma sends_broadcastMonsterDamaged: "field_inv s \<Longrightarrow> sends s (broadcastMonsterDamaged m near s)"
  by (rule sends_toMembers [OF _ broadcastMonsterDamaged_eq]) simp_all

lemma sends_broadcastMonsterMoveStart: "field_inv s \<Longrightarrow> sends s (broadcastMonsterMoveStart m near s)"
  by (rule sends_toMembers [OF _ broadcastMonsterMoveStart_eq]) (simp_all add: monsterMoveBody_def)

lemma sends_broadcastMonsterMoveStop: "field_inv s \<Longrightarrow> sends s (broadcastMonsterMoveStop m near s)"
  by (rule sends_toMembers [OF _ broadcastMonsterMoveStop_eq]) (simp_all add: monsterMoveBody_def)

lemma sends_broadcastMonsterAttack: "field_inv s \<Longrightarrow> sends s (broadcastMonsterAttack m near s)"
  by (rule sends_toMembers [OF _ broadcastMonsterAttack_eq]) simp_all

lemma sends_broadcastMonsterSpawn: "field_inv s \<Longrightarrow> sends s (broadcastMonsterSpawn m near s)"
  by (rule sends_toMembers [OF _ broadcastMonsterSpawn_eq]) (simp_all add: monsterFields_def)

lemma sends_broadcastMonsterDespawn: "field_inv s \<Longrightarrow> sends s (broadcastMonsterDespawn m near s)"
  by (rule sends_toMembers [OF _ broadcastMonsterDespawn_eq]) simp_all

lemma sends_broadcastItemSpawn: "field_inv s \<Longrightarrow> sends s (broadcastItemSpawn it near s)"
  by (rule sends_toMembers [OF _ broadcastItemSpawn_eq]) (simp_all add: itemFields_def)

lemma sends_broadcastItemDespawn: "field_inv s \<Longrightarrow> sends s (broadcastItemDespawn it near s)"
  by (rule sends_toMembers [OF _ broadcastItemDespawn_eq]) simp_all

lemma sends_sendLootRes: "field_inv s \<Longrightarrow> sends s (sendLootRes p b i n s)"
  by (rule sends_sent [OF _ sendLootRes_eq]) (simp_all add: packet_framed)

lemma sends_sendDespawnBatch: "field_inv s \<Longrightarrow> sends s (sendDespawnBatch p near s)"
  by (rule sends_sent [OF _ sendDespawnBatch_eq]) (auto simp: packet_framed)

lemma sends_sendMonsterDespawnBatch: "field_inv s \<Longrightarrow> sends s (sendMonsterDespawnBatch p near s)"
  by (rule sends_sent [OF _ sendMonsterDespawnBatch_eq]) (auto simp: packet_framed)

lemma sends_sendItemDespawnBatch: "field_inv s \<Longrightarrow> sends s (sendItemDespawnBatch p near s)"
  by (rule sends_sent [OF _ sendItemDespawnBatch_eq]) (auto simp: packet_framed)

lemma sends_sendSpawnBatch:
  assumes inv: "field_inv s" and near: "distinct near"
  shows "sends s (sendSpawnBatch p near s)"
proof -
  have ip: "inv_players (svObjs s) (svPlayers s) (svSectors s)" using inv by (simp add: field_inv_def)
  have nick: "\<forall>k \<in> set (members (svSectors s) near). length (plNickname (theP s k)) = 20"
    using inv_player [OF ip members_players [OF ip]] by (auto simp: player_good_def player_wf_def)
  show ?thesis
  proof (rule sends_sent [OF inv sendSpawnBatch_eq])
    show "\<forall>(k, m) \<in> set (batchPackets (svNow s) (plSeqID p) OTHER_CHARACTER_SPAWN_BATCH (chunksOf 127
        (map (\<lambda>k. spawnFields (theP s k)) (filter (\<lambda>k. k \<noteq> plSeqID p) (members (svSectors s) near))))).
        framed k m"
      using nick by (auto simp: spawnFields_def intro!: batchPackets_framed [where sz = 47 and n = 127])
  qed (use inv nick players_members [OF ip near] in simp_all)
qed

lemma sends_sendMonsterSpawnBatch:
  assumes inv: "field_inv s" and near: "distinct near"
  shows "sends s (sendMonsterSpawnBatch p near s)"
proof (rule sends_sent [OF inv sendMonsterSpawnBatch_eq])
  show "length (members (svMonsterSectors s) near) < 32768"
    using inv near monsters_members by (auto simp: field_inv_def)
  show "\<forall>(k, m) \<in> set (batchPackets (svNow s) (plSeqID p) MONSTER_SPAWN_BATCH (chunksOf 221
      (map (\<lambda>k. monsterFields (the (map_of (svMonsters s) k))) (members (svMonsterSectors s) near)))).
      framed k m"
    by (auto simp: monsterFields_def intro!: batchPackets_framed [where sz = 27 and n = 221])
qed (use inv in simp)

lemma sends_sendItemSpawnBatch:
  assumes inv: "field_inv s" and near: "distinct near" and few: "length (svItems s) < 32768"
  shows "sends s (sendItemSpawnBatch p near s)"
proof (rule sends_sent [OF inv sendItemSpawnBatch_eq])
  show "length (members (svItemSectors s) near) < 32768"
    using inv near few items_members [of "svItems s" "svItemSectors s" "svItemUniqueID s" near]
    by (auto simp: field_inv_def)
  show "\<forall>(k, m) \<in> set (batchPackets (svNow s) (plSeqID p) ITEM_SPAWN_BATCH (chunksOf 352
      (map (\<lambda>k. itemFields (the (map_of (svItems s) k))) (members (svItemSectors s) near)))).
      framed k m"
    by (auto simp: itemFields_def intro!: batchPackets_framed [where sz = 17 and n = 352])
qed (use inv in simp)

lemmas sends_rules = sends_broadcastSpawn sends_broadcastDespawn sends_broadcastMoveStart
  sends_broadcastMoveStop sends_broadcastPlayerAttack sends_broadcastCharacterDamaged
  sends_broadcastMonsterDamaged sends_broadcastMonsterMoveStart sends_broadcastMonsterMoveStop
  sends_broadcastMonsterAttack sends_broadcastMonsterSpawn sends_broadcastMonsterDespawn
  sends_broadcastItemSpawn sends_broadcastItemDespawn sends_sendLootRes sends_sendDespawnBatch
  sends_sendMonsterDespawnBatch sends_sendItemDespawnBatch sends_sendSpawnBatch
  sends_sendMonsterSpawnBatch sends_sendItemSpawnBatch

end
