(* ===== verification/Progress.thy ===== *)
theory Progress
  imports FieldInv
begin

text \<open>
  Steps of the field thread, and what they may consume. Every operation between two polls of the
  queues keeps the set of players and monsters; it can lengthen the database queue, issue item
  numbers and add items, by at most the number \<open>n\<close> of hits, requests and jobs it processes.
  \<open>okn n s r\<close> says that an operation succeeds, keeps the invariant and consumes at most \<open>n\<close>; the
  rules compose it along the code.
\<close>

text \<open>The message queue of a player is only taken from, and no player is sent to another field.\<close>

definition rq :: "server \<Rightarrow> int \<Rightarrow> message list" where
  "rq s k = (case map_of (svObjs s) k of None \<Rightarrow> [] | Some p \<Rightarrow> plRecvQ p)"

definition nextField :: "server \<Rightarrow> int \<Rightarrow> int option" where
  "nextField s k = map_option plNextFieldID (map_of (svObjs s) k)"

definition shrinks :: "server \<Rightarrow> server \<Rightarrow> bool" where
  "shrinks s s' \<longleftrightarrow> (\<forall>k. nextField s' k = nextField s k \<and> (\<exists>j. rq s' k = drop j (rq s k)))"

definition keeps :: "player \<Rightarrow> player \<Rightarrow> bool" where
  "keeps p p' \<longleftrightarrow> plCurrentSector p' = plCurrentSector p \<and> plNextFieldID p' = plNextFieldID p \<and>
     (\<exists>j. plRecvQ p' = drop j (plRecvQ p))"

lemma keeps_same [simp]:
  "plCurrentSector p' = plCurrentSector p \<Longrightarrow> plNextFieldID p' = plNextFieldID p \<Longrightarrow> plRecvQ p' = plRecvQ p \<Longrightarrow>
   keeps p p'"
  by (auto simp: keeps_def intro: exI [of _ 0])

lemma keeps_sector: "keeps p p' \<Longrightarrow> plCurrentSector p' = plCurrentSector p"
  by (simp add: keeps_def)

lemma shrinks_same [simp]: "svObjs s' = svObjs s \<Longrightarrow> shrinks s s'"
  by (auto simp: shrinks_def rq_def nextField_def intro: exI [of _ 0])

lemma shrinks_trans: "shrinks s s' \<Longrightarrow> shrinks s' s'' \<Longrightarrow> shrinks s s''"
  unfolding shrinks_def by (metis drop_drop)

lemma shrinks_put:
  assumes "keeps (theP s k) p'" "svObjs s' = alUpd k p' (svObjs s)" "map_of (svObjs s) k \<noteq> None"
  shows "shrinks s s'"
proof -
  have "nextField s' i = nextField s i \<and> (\<exists>j. rq s' i = drop j (rq s i))" for i
  proof (cases "i = k")
    case True
    then show ?thesis using assms by (auto simp: rq_def nextField_def keeps_def theP_def)
  next
    case False
    then show ?thesis using assms(2) by (auto simp: rq_def nextField_def intro: exI [of _ 0])
  qed
  then show ?thesis by (simp add: shrinks_def)
qed

lemma shrinks_le: "shrinks s s' \<Longrightarrow> length (rq s' k) \<le> length (rq s k) \<and> set (rq s' k) \<subseteq> set (rq s k)"
  unfolding shrinks_def by (metis diff_le_self length_drop set_drop_subset)

definition evolve :: "nat \<Rightarrow> server \<Rightarrow> server \<Rightarrow> bool" where
  "evolve n s s' \<longleftrightarrow> svNow s' = svNow s \<and> svOn s' = svOn s \<and> svCharacterID s' = svCharacterID s \<and>
     svUnAuth s' = svUnAuth s \<and> svAccounts s' = svAccounts s \<and> svAuthPlayers s' = svAuthPlayers s \<and>
     svMsgQ s' = svMsgQ s \<and> svNotifyQ s' = svNotifyQ s \<and> svDBResQ s' = svDBResQ s \<and>
     svPlayers s' = svPlayers s \<and> svPlayerCnt s' = svPlayerCnt s \<and>
     map fst (svMonsters s') = map fst (svMonsters s) \<and> fst ` set (svObjs s') = fst ` set (svObjs s) \<and>
     shrinks s s' \<and>
     (\<exists>ms. svOut s' = svOut s @ ms) \<and> (\<exists>ds. svDiscon s' = svDiscon s @ ds) \<and>
     (\<exists>js. svDBReqQ s' = svDBReqQ s @ js \<and> length js \<le> n) \<and>
     svItemUniqueID s' \<le> svItemUniqueID s + int n \<and> length (svItems s') \<le> length (svItems s) + n"

text \<open>The room that is left: in the queue to the database, in item numbers, in items.\<close>

definition room :: "nat \<Rightarrow> server \<Rightarrow> bool" where
  "room n s \<longleftrightarrow> length (svDBReqQ s) + n \<le> PTR_CAP \<and> svItemUniqueID s + int n < 2 ^ 62 \<and>
     length (svItems s) + n < 32768"

definition okf :: "bool \<Rightarrow> nat \<Rightarrow> server \<Rightarrow> server res \<Rightarrow> bool" where
  "okf b n s r \<longleftrightarrow> (b \<and> r = Inl DebugBreak) \<or> (\<exists>s'. r = Inr s' \<and> field_inv s' \<and> evolve n s s')"

text \<open>Without and with the chance of the stop that a client far out of step provokes.\<close>

abbreviation okn :: "nat \<Rightarrow> server \<Rightarrow> server res \<Rightarrow> bool" where "okn \<equiv> okf False"
abbreviation okd :: "nat \<Rightarrow> server \<Rightarrow> server res \<Rightarrow> bool" where "okd \<equiv> okf True"

lemma evolve_refl [simp]: "evolve n s s"
  by (simp add: evolve_def)

lemma evolve_mono: "evolve n s s' \<Longrightarrow> n \<le> m \<Longrightarrow> evolve m s s'"
  unfolding evolve_def by fastforce

lemma evolve_trans:
  assumes "evolve n s s'" "evolve m s' s''"
  shows "evolve (n + m) s s''"
proof -
  obtain ms ms' ds ds' js js' where
      "svOut s' = svOut s @ ms" "svOut s'' = svOut s' @ ms'"
      "svDiscon s' = svDiscon s @ ds" "svDiscon s'' = svDiscon s' @ ds'"
      and js: "svDBReqQ s' = svDBReqQ s @ js" "length js \<le> n"
      "svDBReqQ s'' = svDBReqQ s' @ js'" "length js' \<le> m"
    using assms by (auto simp: evolve_def)
  then have "svOut s'' = svOut s @ (ms @ ms')" "svDiscon s'' = svDiscon s @ (ds @ ds')"
      "svDBReqQ s'' = svDBReqQ s @ (js @ js') \<and> length (js @ js') \<le> n + m" by simp_all
  then have "\<exists>ms. svOut s'' = svOut s @ ms" "\<exists>ds. svDiscon s'' = svDiscon s @ ds"
      "\<exists>js. svDBReqQ s'' = svDBReqQ s @ js \<and> length js \<le> n + m" by blast+
  then show ?thesis using assms shrinks_trans [of s s' s''] unfolding evolve_def by simp
qed

lemma evolve_players: "evolve n s s' \<Longrightarrow> svPlayers s' = svPlayers s"
  by (simp add: evolve_def)

lemma evolve_monsters: "evolve n s s' \<Longrightarrow> map fst (svMonsters s') = map fst (svMonsters s)"
  by (simp add: evolve_def)

lemma evolve_monster:
  "evolve n s s' \<Longrightarrow> map_of (svMonsters s) k \<noteq> None \<Longrightarrow> map_of (svMonsters s') k \<noteq> None"
  by (metis evolve_monsters in_keys_iff set_map)

lemma evolve_obj:
  "evolve n s s' \<Longrightarrow> map_of (svObjs s) k \<noteq> None \<Longrightarrow> map_of (svObjs s') k \<noteq> None"
  unfolding evolve_def by (metis in_keys_iff)

lemma room_evolve: "room (n + m) s \<Longrightarrow> evolve n s s' \<Longrightarrow> room m s'"
  by (auto simp: room_def evolve_def)

lemma room_mono: "room n s \<Longrightarrow> m \<le> n \<Longrightarrow> room m s"
  by (auto simp: room_def)

lemma quiet_evolve: "quiet s s' \<Longrightarrow> evolve n s s'"
  by (auto simp: quiet_def evolve_def)

lemma okn_sends: "sends s r \<Longrightarrow> okf b n s r"
  using quiet_evolve by (auto simp: sends_def okf_def)

lemma sendsE:
  assumes "sends s r"
  obtains s' where "r = Inr s'" "quiet s s'" "field_inv s'"
  using assms by (auto simp: sends_def)

lemma okn_Inr: "field_inv s' \<Longrightarrow> evolve n s s' \<Longrightarrow> okf b n s (Inr s')"
  by (simp add: okf_def)

lemma okn_okf: "okn n s r \<Longrightarrow> okf b n s r"
  by (simp add: okf_def)

lemma okn_mono: "okf b n s r \<Longrightarrow> n \<le> m \<Longrightarrow> okf b m s r"
  using evolve_mono by (auto simp: okf_def)

lemma okn_bind:
  assumes "okf b n s r" "\<And>s'. r = Inr s' \<Longrightarrow> field_inv s' \<Longrightarrow> evolve n s s' \<Longrightarrow> okf b m s' (f s')"
  shows "okf b (n + m) s (bindR r f)"
proof (cases "\<exists>s'. r = Inr s'")
  case True
  then obtain s' where s': "r = Inr s'" "field_inv s'" "evolve n s s'" using assms(1) by (auto simp: okf_def)
  then show ?thesis using assms(2) [OF s'] evolve_trans by (fastforce simp: okf_def)
next
  case False
  then show ?thesis using assms(1) by (auto simp: okf_def)
qed

lemma okn_bind0:
  assumes "sends s r" "\<And>s'. quiet s s' \<Longrightarrow> field_inv s' \<Longrightarrow> okf b n s' (f s')"
  shows "okf b n s (bindR r f)"
proof -
  obtain s' where s': "r = Inr s'" "quiet s s'" "field_inv s'" using assms(1) by (rule sendsE)
  show ?thesis using s'(1) assms(2) [OF s'(2,3)] evolve_trans [OF quiet_evolve [OF s'(2), of 0], of n]
    by (auto simp: okf_def)
qed

text \<open>The step before the rest of an operation, when it is an update of the state.\<close>

lemma okn_from:
  assumes "okf b n s' r" "evolve 0 s s'"
  shows "okf b n s r"
  using assms(1) evolve_trans [OF assms(2), of n] by (auto simp: okf_def)

text \<open>A loop over the players or the monsters, each iteration consuming at most \<open>n\<close>.\<close>

lemma okn_loop:
  assumes "field_inv s" "room (n * length ks) s"
    and "\<And>k s'. k \<in> set ks \<Longrightarrow> field_inv s' \<Longrightarrow> evolve (n * length ks) s s' \<Longrightarrow> room n s' \<Longrightarrow> okf b n s' (f k s')"
  shows "okf b (n * length ks) s (foldR f ks s)"
proof -
  have "okf b (n * length ks2) s1 (foldR f ks2 s1)"
    if "ks = ks1 @ ks2" "field_inv s1" "evolve (n * length ks1) s s1" for ks1 ks2 s1
    using that
  proof (induction ks2 arbitrary: ks1 s1)
    case Nil
    then show ?case by (simp add: okn_Inr)
  next
    case (Cons k ks2)
    have le: "n * length ks1 \<le> n * length ks" using Cons.prems(1) by (simp add: algebra_simps)
    have "room (n * length ks1 + n * length (k # ks2)) s"
      using assms(2) Cons.prems(1) by (simp add: algebra_simps)
    then have "room (n * length (k # ks2)) s1" using Cons.prems(3) by (rule room_evolve)
    then have "room n s1" by (rule room_mono) simp
    then have step: "okf b n s1 (f k s1)"
      using assms(3) Cons.prems evolve_mono [OF Cons.prems(3) le] by simp
    have "okf b (n + n * length ks2) s1 (bindR (f k s1) (foldR f ks2))"
    proof (rule okn_bind [OF step])
      fix s' assume s': "field_inv s'" "evolve n s1 s'"
      then have "evolve (n * length (ks1 @ [k])) s s'"
        using evolve_trans [OF Cons.prems(3) s'(2)] by (simp add: algebra_simps)
      then show "okf b (n * length ks2) s' (foldR f ks2 s')"
        using Cons.IH [of "ks1 @ [k]" s'] Cons.prems(1) s'(1) by simp
    qed
    then show ?case by simp
  qed
  from this [of "[]" ks s] assms(1) show ?thesis by simp
qed

subsection \<open>Updates of one object\<close>

lemma evolve_putP:
  assumes "map_of (svObjs s) (plSeqID p) \<noteq> None" "keeps (theP s (plSeqID p)) p"
  shows "evolve n s (putP p s)"
proof -
  have "shrinks s (putP p s)" using assms by (intro shrinks_put) (auto simp: putP_def)
  then show ?thesis using assms(1) by (auto simp: evolve_def putP_def keys_alUpd_Some simp flip: set_map)
qed

lemma evolve_putM: "map_of (svMonsters s) (mnMonsterID m) \<noteq> None \<Longrightarrow> evolve n s (putM m s)"
  by (auto simp: evolve_def putM_def keys_alUpd_Some)

lemma field_inv_putP:
  assumes "field_inv s" "k \<in> set (svPlayers s)" "player_good k p'"
    and "keeps (theP s k) p'"
  shows "field_inv (putP p' s)" "evolve n s (putP p' s)"
proof -
  have ip: "inv_players (svObjs s) (svPlayers s) (svSectors s)" using assms(1) by (simp add: field_inv_def)
  have k: "map_of (svObjs s) k = Some (theP s k)" "plSeqID p' = k"
    using inv_player [OF ip assms(2)] assms(3) by (simp_all add: player_good_def)
  then show "field_inv (putP p' s)" using assms inv_players_put [OF ip k(1) assms(3) keeps_sector [OF assms(4)]]
    by (simp add: field_inv_def putP_def)
  show "evolve n s (putP p' s)" using k assms(4) by (intro evolve_putP) simp_all
qed

lemma field_inv_putM:
  assumes "field_inv s" "map_of (svMonsters s) k = Some m" "monster_good k m'" "mnSector m' = mnSector m"
  shows "field_inv (putM m' s)" "evolve n s (putM m' s)"
proof -
  have im: "inv_monsters (svMonsters s) (svMonsterSectors s)" using assms(1) by (simp add: field_inv_def)
  have k: "mnMonsterID m' = k" using assms(3) by (simp add: monster_good_def)
  then show "field_inv (putM m' s)" using assms inv_monsters_put [OF im assms(2-4)]
    by (simp add: field_inv_def putM_def)
  show "evolve n s (putM m' s)" using k assms(2) by (intro evolve_putM) simp
qed

lemma field_inv_player:
  assumes "field_inv s" "k \<in> set (svPlayers s)"
  shows "map_of (svObjs s) k = Some (theP s k)" "player_good k (theP s k)"
  using inv_player assms by (auto simp: field_inv_def)

lemma field_inv_monster:
  "field_inv s \<Longrightarrow> map_of (svMonsters s) k = Some m \<Longrightarrow> monster_good k m"
  using inv_monster by (auto simp: field_inv_def)

lemma field_inv_item:
  "field_inv s \<Longrightarrow> map_of (svItems s) k = Some it \<Longrightarrow> item_good k it \<and> 0 < k \<and> k \<le> svItemUniqueID s"
  using inv_item by (auto simp: field_inv_def)

lemma field_inv_findPlayer:
  "field_inv s \<Longrightarrow> findPlayer k s = (if k \<in> set (svPlayers s) then Some (theP s k) else None)"
  using findPlayer_inv by (auto simp: field_inv_def)

end
