(* ===== verification/CombatInv.thy ===== *)
theory CombatInv
  imports Progress
begin

text \<open>
  What the operations of theory \<open>Combat\<close> do: drops, hits by monsters, hits by players; each
  succeeds from a state of the invariant and keeps it.
\<close>

lemma rng_fair_shift: "rng_fair g \<Longrightarrow> rng_fair (\<lambda>k. g (Suc (n + k)))"
  unfolding rng_fair_def
proof
  fix m assume "\<forall>n. \<exists>k. g (n + k) < 32700"
  then obtain k where "g (Suc (n + m) + k) < 32700" by blast
  then show "\<exists>k. g (Suc (n + (m + k))) < 32700" by (auto simp: add.assoc)
qed

lemma rng_fair_rand: "rng_fair g \<Longrightarrow> rand g = (v, g') \<Longrightarrow> rng_fair g'"
  using rng_fair_shift [of g 0] by (auto simp: rand_def)

text \<open>Everything but the items, the random numbers and the messages stays.\<close>

definition drops :: "server \<Rightarrow> server \<Rightarrow> bool" where
  "drops s s' \<longleftrightarrow> (\<exists>g u its grid ms cnt. s' = s\<lparr>svRng := g, svItemUniqueID := u, svItems := its,
     svItemSectors := grid, svOut := svOut s @ ms, svSendCount := cnt\<rparr>)"

lemma drops_frame:
  assumes "drops s s'"
  shows "svObjs s' = svObjs s" "svPlayers s' = svPlayers s" "svSectors s' = svSectors s"
    "svMonsters s' = svMonsters s" "svMonsterSectors s' = svMonsterSectors s" "svDBReqQ s' = svDBReqQ s"
    "svDiscon s' = svDiscon s" "svNow s' = svNow s"
  using assms by (auto simp: drops_def)

lemma drops_evolve:
  assumes "drops s s'" "svItemUniqueID s' \<le> svItemUniqueID s + 1" "length (svItems s') \<le> length (svItems s) + 1"
    and "length js \<le> 1"
  shows "evolve 1 s (s'\<lparr>svDBReqQ := svDBReqQ s @ js\<rparr>)"
  using assms by (auto simp: drops_def evolve_def)

lemma evolve_0: "evolve 0 s s' \<Longrightarrow> evolve n s' s'' \<Longrightarrow> evolve n s s''"
  using evolve_trans [of 0 s s' n s''] by simp

lemma quiet_out: "quiet s s' \<Longrightarrow> \<exists>ms. svOut s' = svOut s @ ms"
  by (auto simp: quiet_def)

lemma dropItem_ok:
  assumes inv: "field_inv s" and pos: "in_map (mnPos m)" and uid: "svItemUniqueID s + 1 < 2 ^ 62"
  shows "\<exists>s' it. dropItem m s = Inr s' \<and> field_inv s' \<and> drops s s' \<and>
    svItemUniqueID s' = svItemUniqueID s + 1 \<and>
    svItems s' = svItems s @ [(svItemUniqueID s + 1, it)] \<and> itPos it = mnPos m \<and> itLifeFrame it = 0 \<and>
    (itItemId it, itCount it) \<in> {(Gold, 1), (Gold, 5), (Gold, 10), (Potion, 1)}"
proof -
  have "\<exists>n. svRng s n < 32700" using inv by (auto simp: field_inv_def rng_fair_def)
  then obtain i c n where r: "rollDrop (svRng s) = Inr (Some (i, c), \<lambda>k. svRng s (Suc (n + k)))"
    and ic: "(i, c) \<in> {(Gold, 1), (Gold, 5), (Gold, 10), (Potion, 1)}"
    using rollDrop_ok by blast
  obtain d where d: "calcSector (mnPos m) = Inr d" "sector_ok d" using calcSector_ok [OF pos] by blast
  have ii: "inv_items (svItems s) (svItemSectors s) (svItemUniqueID s)" using inv by (simp add: field_inv_def)
  have "0 \<le> svItemUniqueID s" using ii by (simp add: inv_items_def)
  then have u: "wrap64 (svItemUniqueID s + 1) = svItemUniqueID s + 1" using uid by (intro wrap64_id) simp_all
  define it where "it = (newFieldItem (svItemUniqueID s + 1) i c (mnPos m))\<lparr>itSector := d\<rparr>"
  define s1 where "s1 = s\<lparr>svRng := \<lambda>k. svRng s (Suc (n + k)), svItemUniqueID := svItemUniqueID s + 1,
    svItems := mapIns (svItemUniqueID s + 1) it (svItems s),
    svItemSectors := insSector d (svItemUniqueID s + 1) (svItemSectors s)\<rparr>"
  have new: "map_of (svItems s) (svItemUniqueID s + 1) = None"
    using inv_item [OF ii, of "svItemUniqueID s + 1"] by (cases "map_of (svItems s) (svItemUniqueID s + 1)") auto
  have good: "item_good (svItemUniqueID s + 1) it" using pos d(2)
    by (simp add: item_good_def it_def newFieldItem_def)
  have "inv_items (svItems s1) (svItemSectors s1) (svItemUniqueID s1)"
    unfolding s1_def using inv_items_add [OF ii uid good, of d] by (simp add: it_def)
  then have inv1: "field_inv s1" using inv rng_fair_shift by (simp add: field_inv_def s1_def)
  have "dropItem m s = broadcastItemSpawn it (aroundOf d) s1"
    using r d by (simp add: dropItem_def Let_def u getAroundSectors_eq s1_def it_def)
  moreover obtain s' where "broadcastItemSpawn it (aroundOf d) s1 = Inr s'" "quiet s1 s'" "field_inv s'"
    by (rule sendsE [OF sends_broadcastItemSpawn [OF inv1]])
  moreover have "drops s s'" if q: "quiet s1 s'" for s'
  proof -
    obtain ms cnt where e: "s' = s1\<lparr>svOut := svOut s1 @ ms, svSendCount := cnt\<rparr>"
      using q by (auto simp: quiet_def)
    show ?thesis unfolding drops_def
      by (rule exI [of _ "svRng s1"], rule exI [of _ "svItemUniqueID s1"], rule exI [of _ "svItems s1"],
          rule exI [of _ "svItemSectors s1"], rule exI [of _ ms], rule exI [of _ cnt]) (simp add: e s1_def)
  qed
  moreover have "svItems s1 = svItems s @ [(svItemUniqueID s + 1, it)]" "svItemUniqueID s1 = svItemUniqueID s + 1"
    using new by (simp_all add: s1_def mapIns_def)
  moreover have "itPos it = mnPos m" "itLifeFrame it = 0" "itItemId it = i" "itCount it = c"
    by (simp_all add: it_def newFieldItem_def)
  ultimately show ?thesis using ic quiet_frame [of s1 s']
    by (intro exI [of _ s'] exI [of _ it]) simp
qed

lemma enqDBReq_ok:
  "length (svDBReqQ s) < PTR_CAP \<Longrightarrow> enqDBReq 0 job s = Inr (s\<lparr>svDBReqQ := svDBReqQ s @ [job]\<rparr>)"
  by (simp add: enqDBReq_def CONFIG_FIELD_SIZE_def enqPtr_def)

lemma field_inv_DBReqQ [simp]: "field_inv (s\<lparr>svDBReqQ := q\<rparr>) \<longleftrightarrow> field_inv s"
  by (simp add: field_inv_def)

subsection \<open>A monster strikes\<close>

text \<open>
  What the loop has found among \<open>ks\<close>: \<open>dead\<close> and \<open>dist\<close> are those of the players. A player
  at a distance that is not a number is never chosen.
\<close>

definition closest_of :: "(int \<Rightarrow> bool) \<Rightarrow> (int \<Rightarrow> f32) \<Rightarrow> f32 \<Rightarrow> int list \<Rightarrow> int option \<times> f32 \<Rightarrow> bool" where
  "closest_of dead dist r ks acc \<longleftrightarrow> (case fst acc of
       None \<Rightarrow> snd acc = r \<and> (\<forall>j \<in> set ks. dead j \<or> \<not> f_le (dist j) r)
     | Some k \<Rightarrow> k \<in> set ks \<and> \<not> dead k \<and> snd acc = dist k \<and> f_le (dist k) r \<and>
         (\<forall>j \<in> set ks. dead j \<or> f_nan (dist j) \<or> f_le (dist k) (dist j)))"

lemma closest_of_keep:
  assumes "closest_of dead dist r ks acc" "dead k \<or> \<not> f_le (dist k) (snd acc)"
  shows "closest_of dead dist r (ks @ [k]) acc"
proof (cases "fst acc")
  case None
  then show ?thesis using assms by (auto simp: closest_of_def)
next
  case (Some j)
  have "f_nan (dist k) \<or> f_le (dist j) (dist k)" if "\<not> f_le (dist k) (dist j)" "f_le (dist j) r"
    using that by (auto simp: f_le_def)
  then show ?thesis using assms Some by (auto simp: closest_of_def)
qed

lemma closest_of_take:
  assumes acc: "closest_of dead dist r ks acc" and k: "\<not> dead k" "f_le (dist k) (snd acc)"
  shows "closest_of dead dist r (ks @ [k]) (Some k, dist k)"
proof -
  have refl: "f_le (dist k) (dist k)" using k(2) by (auto simp: f_le_def)
  show ?thesis
  proof (cases "fst acc")
    case None
    have "f_le (dist k) (dist j)" if "\<not> f_le (dist j) r" "\<not> f_nan (dist j)" "f_le (dist k) r" for j
      using that by (auto simp: f_le_def)
    then show ?thesis using acc k None refl by (auto simp: closest_of_def)
  next
    case (Some i)
    then have "f_le (dist k) (dist i)" using acc k by (auto simp: closest_of_def)
    then show ?thesis using acc k Some refl f_le_trans [of "dist k" "dist i"] by (fastforce simp: closest_of_def)
  qed
qed

lemma closestPlayer_spec:
  assumes live: "live near s"
  shows "\<exists>acc. closestPlayer m near s = Inr acc \<and>
    closest_of (\<lambda>k. IsDead (theP s k)) (\<lambda>k. pos_dist (mnPos m) (plPos (theP s k))) MONSTER_ATTACK_RANGE
      (members (svSectors s) near) acc"
proof -
  define dead dist where "dead k = IsDead (theP s k)" and "dist k = pos_dist (mnPos m) (plPos (theP s k))" for k
  define R where "R = closest_of dead dist MONSTER_ATTACK_RANGE"
  have step: "R (ks @ [k]) (closestStep m (theP s k) acc)" if "R ks acc" "plSeqID (theP s k) = k" for ks k acc
    using that closest_of_keep [of dead dist MONSTER_ATTACK_RANGE ks acc k]
      closest_of_take [of dead dist MONSTER_ATTACK_RANGE ks acc k]
    by (auto simp: R_def closestStep_def Let_def dead_def dist_def)
  have loop: "\<exists>acc'. foldR (\<lambda>k acc. derefP k s (\<lambda>p. Inr (closestStep m p acc))) ks acc = Inr acc' \<and> R (pre @ ks) acc'"
    if "R pre acc" "\<forall>k \<in> set ks. \<exists>p. map_of (svObjs s) k = Some p \<and> plSeqID p = k" for pre ks acc
    using that
  proof (induction ks arbitrary: pre acc)
    case (Cons k ks)
    then obtain p where p: "map_of (svObjs s) k = Some p" "plSeqID p = k" by auto
    then have tp: "theP s k = p" by (simp add: theP_def)
    have "R (pre @ [k]) (closestStep m p acc)" using step [of pre acc k] Cons.prems(1) p tp by simp
    from Cons.IH [OF this] Cons.prems(2) show ?case using p by (simp add: derefP_def)
  qed simp
  have "R [] (None, MONSTER_ATTACK_RANGE)" by (simp add: R_def closest_of_def)
  from loop [OF this, of "members (svSectors s) near"] live show ?thesis
    by (simp add: closestPlayer_def live_def R_def dead_def [abs_def] dist_def [abs_def])
qed


lemma player_good_members:
  assumes "field_inv s" "k \<in> set (members (svSectors s) near)"
  shows "k \<in> set (svPlayers s)"
  using members_players assms by (auto simp: field_inv_def)

text \<open>
  A monster's strike: with nobody alive in reach nothing happens; otherwise the closest such player
  takes the damage, and every player around it gets the packet.
\<close>

lemma processMonsterAttackHit_ok:
  assumes inv: "field_inv s" and m: "monster_good k m"
  shows "\<exists>s'. processMonsterAttackHit m s = Inr s' \<and> field_inv s' \<and> evolve 0 s s' \<and>
    svMonsters s' = svMonsters s \<and> svMonsterSectors s' = svMonsterSectors s \<and> svItems s' = svItems s \<and>
    (\<exists>acc. closest_of (\<lambda>k. IsDead (theP s k)) (\<lambda>k. pos_dist (mnPos m) (plPos (theP s k)))
       MONSTER_ATTACK_RANGE (members (svSectors s) (aroundOf (mnSector m))) acc \<and>
       (case fst acc of
          None \<Rightarrow> s' = s
        | Some j \<Rightarrow> \<exists>p. Player.takeDamage MONSTER_ATTACK_DAMAGE (mnPos m) (mnDirection m) (theP s j) = Inr p \<and>
            svObjs s' = alUpd j p (svObjs s) \<and>
            broadcastCharacterDamaged p m (aroundOf (plCurrentSector p)) (putP p s) = Inr s'))"
proof -
  have near: "getAroundSectors (mnSector m) = Inr (aroundOf (mnSector m))"
    using m by (simp add: getAroundSectors_eq monster_good_def)
  obtain acc where acc: "closestPlayer m (aroundOf (mnSector m)) s = Inr acc"
    and cl: "closest_of (\<lambda>k. IsDead (theP s k)) (\<lambda>k. pos_dist (mnPos m) (plPos (theP s k)))
       MONSTER_ATTACK_RANGE (members (svSectors s) (aroundOf (mnSector m))) acc"
    using closestPlayer_spec [OF field_inv_live [OF inv]] by blast
  show ?thesis
  proof (cases "fst acc")
    case None
    then have "processMonsterAttackHit m s = Inr s"
      using near acc by (cases acc) (simp add: processMonsterAttackHit_def)
    moreover have "\<exists>acc. closest_of (\<lambda>k. IsDead (theP s k)) (\<lambda>k. pos_dist (mnPos m) (plPos (theP s k)))
       MONSTER_ATTACK_RANGE (members (svSectors s) (aroundOf (mnSector m))) acc \<and> fst acc = None"
      using None cl by blast
    ultimately show ?thesis using inv by (intro exI [of _ s]) force
  next
    case (Some j)
    then have j: "j \<in> set (svPlayers s)"
      using cl player_good_members [OF inv] by (auto simp: closest_of_def)
    note pj = field_inv_player [OF inv j]
    obtain p where p: "Player.takeDamage MONSTER_ATTACK_DAMAGE (mnPos m) (mnDirection m) (theP s j) = Inr p"
        "player_wf p" "player_placed p" and fr: "plSeqID p = plSeqID (theP s j)"
        "plCurrentSector p = plCurrentSector (theP s j)" "plDestSector p = plDestSector (theP s j)"
        "plCurrentFieldID p = plCurrentFieldID (theP s j)" "plRecvQ p = plRecvQ (theP s j)" "plNextFieldID p = plNextFieldID (theP s j)"
      using player_takeDamage_ok [of "theP s j" "mnDirection m" MONSTER_ATTACK_DAMAGE "mnPos m"] pj(2) m
      by (auto simp: player_good_def monster_good_def monster_wf_def MONSTER_ATTACK_DAMAGE_def)
    have good: "player_good j p" "keeps (theP s j) p"
      using fr p(2,3) pj(2) by (simp_all add: player_good_def)
    note put = field_inv_putP [OF inv j good]
    have sec: "getAroundSectors (plCurrentSector p) = Inr (aroundOf (plCurrentSector p))"
      using good(1) by (simp add: getAroundSectors_eq player_good_def)
    obtain s' where s': "broadcastCharacterDamaged p m (aroundOf (plCurrentSector p)) (putP p s) = Inr s'"
        "quiet (putP p s) s'" "field_inv s'"
      by (rule sendsE [OF sends_broadcastCharacterDamaged [OF put(1)]])
    have run: "processMonsterAttackHit m s = Inr s'"
      using near acc Some pj(1) p(1) sec s'(1) by (cases acc) (simp add: processMonsterAttackHit_def derefP_def)
    have "evolve 0 s s'" using evolve_trans [OF put(2) [of 0] quiet_evolve [OF s'(2), of 0]] by simp
    moreover have "svMonsters s' = svMonsters s" "svMonsterSectors s' = svMonsterSectors s" "svItems s' = svItems s"
        "svObjs s' = alUpd j p (svObjs s)"
      using quiet_frame [OF s'(2)] good(1) by (simp_all add: putP_def player_good_def)
    moreover have "\<exists>acc. closest_of (\<lambda>k. IsDead (theP s k)) (\<lambda>k. pos_dist (mnPos m) (plPos (theP s k)))
       MONSTER_ATTACK_RANGE (members (svSectors s) (aroundOf (mnSector m))) acc \<and> fst acc = Some j"
      using Some cl by blast
    ultimately show ?thesis using run s' p(1) by (intro exI [of _ s']) fastforce
  qed
qed

subsection \<open>A player strikes\<close>

text \<open>The targets: only known monsters that are neither dead nor returning, nearest first.\<close>

lemma set_insBy: "set (insBy lt x xs) = insert x (set xs)"
  by (induction xs) auto

lemma set_sortBy: "set (sortBy lt xs) = set xs"
  by (induction xs) (simp_all add: sortBy_def set_insBy)

lemma length_insBy: "length (insBy lt x xs) = Suc (length xs)"
  by (induction xs) auto

lemma length_sortBy: "length (sortBy lt xs) = length xs"
  by (induction xs) (simp_all add: sortBy_def length_insBy)

text \<open>One hit: the monster takes the damage; the blow that kills drops one item and counts one kill.\<close>

lemma hitMonster_ok:
  assumes inv: "field_inv s" and m: "map_of (svMonsters s) k = Some m" "mnState m \<noteq> MDead"
    and p: "dir_ok (plDirection p)" "plAttackPower p = PLAYER_ATTACK_DAMAGE" and room: "room 1 s"
  shows "\<exists>s' m'. hitMonster p 0 m s = Inr s' \<and> field_inv s' \<and> evolve 1 s s' \<and>
    svObjs s' = svObjs s \<and> svPlayers s' = svPlayers s \<and> svSectors s' = svSectors s \<and>
    svMonsters s' = alUpd k m' (svMonsters s) \<and> mnHp m' = max (mnHp m - PLAYER_ATTACK_DAMAGE) 0 \<and>
    (if mnHp m \<le> PLAYER_ATTACK_DAMAGE
     then mnState m' = MDead \<and>
       svDBReqQ s' = svDBReqQ s @ [DBKillCountUpdate (plSeqID p) (plAccountNo p) (plNickname p) 1] \<and>
       (\<exists>it. svItems s' = svItems s @ [(svItemUniqueID s + 1, it)] \<and> itPos it = mnPos m')
     else mnState m' = MStun \<and> mnTargetPlayerID m' = plSeqID p \<and>
       svDBReqQ s' = svDBReqQ s \<and> svItems s' = svItems s)"
proof -
  have mg: "monster_good k m" by (rule field_inv_monster [OF inv m(1)])
  obtain m' where m': "Monster.takeDamage (plAttackPower p) (plPos p) (plDirection p) (plSeqID p) m = Inr m'"
      "monster_wf m'" "mnHp m' = max (mnHp m - PLAYER_ATTACK_DAMAGE) 0"
      "if mnHp m \<le> PLAYER_ATTACK_DAMAGE then mnState m' = MDead
       else mnState m' = MStun \<and> mnTargetPlayerID m' = plSeqID p"
      and fr: "mnMonsterID m' = mnMonsterID m" "mnSector m' = mnSector m" "mnDestSector m' = mnDestSector m"
    using takeDamage_ok [of m "plDirection p" PLAYER_ATTACK_DAMAGE "plPos p" "plSeqID p"] mg p m(2)
    by (cases "mnHp m \<le> PLAYER_ATTACK_DAMAGE") (auto simp: monster_good_def PLAYER_ATTACK_DAMAGE_def)
  have good: "monster_good k m'" "mnSector m' = mnSector m"
    using fr m'(2) mg by (simp_all add: monster_good_def)
  note put = field_inv_putM [OF inv m(1) good]
  have mons: "svMonsters (putM m' s) = alUpd k m' (svMonsters s)"
    using good(1) by (simp add: putM_def monster_good_def)
  have near: "getAroundSectors (mnSector m') = Inr (aroundOf (mnSector m'))"
    using good(1) by (simp add: getAroundSectors_eq monster_good_def)
  obtain s1 where s1: "broadcastMonsterDamaged m' (aroundOf (mnSector m')) (putM m' s) = Inr s1"
      "quiet (putM m' s) s1" "field_inv s1"
    by (rule sendsE [OF sends_broadcastMonsterDamaged [OF put(1)]])
  have ev1: "evolve 0 s s1" using evolve_trans [OF put(2) [of 0] quiet_evolve [OF s1(2), of 0]] by simp
  have same: "svObjs s1 = svObjs s" "svPlayers s1 = svPlayers s" "svSectors s1 = svSectors s"
      "svMonsters s1 = alUpd k m' (svMonsters s)" "svDBReqQ s1 = svDBReqQ s" "svItems s1 = svItems s"
      "svItemUniqueID s1 = svItemUniqueID s"
    using quiet_frame [OF s1(2)] mons by (simp_all add: putM_def)
  have run: "hitMonster p 0 m s = (if mnState m' = MDead
      then bindR (dropItem m' s1) (requestKillCountUpdate 0 p 1) else Inr s1)"
    using m'(1) near s1(1) by (simp add: hitMonster_def Let_def)
  show ?thesis
  proof (cases "mnHp m \<le> PLAYER_ATTACK_DAMAGE")
    case False
    then have st: "mnState m' = MStun" "mnTargetPlayerID m' = plSeqID p" using m'(4) by simp_all
    have "evolve 1 s s1" using ev1 evolve_mono by fastforce
    then show ?thesis using run st same s1(3) m'(3) False
      by (intro exI [of _ s1] exI [of _ m']) simp
  next
    case True
    then have st: "mnState m' = MDead" using m'(4) by simp
    have pos: "in_map (mnPos m')" using m'(2) by (simp add: monster_wf_def)
    have uid: "svItemUniqueID s1 + 1 < 2 ^ 62" using room same by (simp add: room_def)
    obtain s2 it where s2: "dropItem m' s1 = Inr s2" "field_inv s2" "drops s1 s2"
        "svItemUniqueID s2 = svItemUniqueID s1 + 1"
        "svItems s2 = svItems s1 @ [(svItemUniqueID s1 + 1, it)]" "itPos it = mnPos m'"
      using dropItem_ok [OF s1(3) pos uid] by blast
    define job where "job = DBKillCountUpdate (plSeqID p) (plAccountNo p) (plNickname p) 1"
    have q: "svDBReqQ s2 = svDBReqQ s" using drops_frame [OF s2(3)] same by simp
    then have "length (svDBReqQ s2) < PTR_CAP" using room by (simp add: room_def)
    from enqDBReq_ok [OF this] have "hitMonster p 0 m s = Inr (s2\<lparr>svDBReqQ := svDBReqQ s @ [job]\<rparr>)"
      using run st s2(1) q by (simp add: requestKillCountUpdate_def job_def)
    moreover have "evolve 1 s (s2\<lparr>svDBReqQ := svDBReqQ s @ [job]\<rparr>)"
      using evolve_0 [OF ev1 drops_evolve [OF s2(3), of "[job]"]] s2(4,5) same by simp
    ultimately show ?thesis using s2 st same True m'(3)
      by (intro exI [of _ "s2\<lparr>svDBReqQ := svDBReqQ s @ [job]\<rparr>"] exI [of _ m'])
        (auto simp: drops_frame [OF s2(3)] job_def)
  qed
qed

text \<open>With one target to hit, the loop hits the first one in range of the list.\<close>

definition inReach :: "player \<Rightarrow> f32 \<Rightarrow> server \<Rightarrow> int \<Rightarrow> bool" where
  "inReach p r s k \<longleftrightarrow> (case map_of (svMonsters s) k of None \<Rightarrow> False
     | Some m \<Rightarrow> f_le (pos_dist (plPos p) (mnPos m)) r)"

lemma hitTargets_one:
  "hitTargets p f r ks 1 s =
     (case find (inReach p r s) ks of None \<Rightarrow> Inr s
      | Some k \<Rightarrow> hitMonster p f (the (map_of (svMonsters s) k)) s)"
proof (induction ks)
  case (Cons k ks)
  have w: "wrap16 0 = 0" by (simp add: wrap16_def)
  have "bindR x Inr = x" for x :: "server res" by (cases x) simp_all
  then show ?case using Cons
    by (simp add: inReach_def isInAttackRange_def w split: option.split)
qed simp

lemma insBy_cong:
  "(\<And>a. a \<in> set xs \<Longrightarrow> lt a x = lt' a x) \<Longrightarrow> insBy lt x xs = insBy lt' x xs"
  by (induction xs) auto

lemma sortBy_cong:
  "(\<And>a b. a \<in> set xs \<Longrightarrow> b \<in> set xs \<Longrightarrow> lt a b = lt' a b) \<Longrightarrow> sortBy lt xs = sortBy lt' xs"
proof (induction xs)
  case (Cons x xs)
  have "sortBy lt (x # xs) = insBy lt x (sortBy lt xs)" "sortBy lt' (x # xs) = insBy lt' x (sortBy lt' xs)"
    by (simp_all add: sortBy_def)
  moreover have "insBy lt x (sortBy lt' xs) = insBy lt' x (sortBy lt' xs)"
    using Cons.prems by (intro insBy_cong) (simp add: set_sortBy)
  ultimately show ?case using Cons by simp
qed (simp add: sortBy_def)

definition byDist :: "(int \<Rightarrow> int) \<Rightarrow> int \<Rightarrow> int \<Rightarrow> bool" where
  "byDist d a b \<longleftrightarrow> d a < d b \<or> (d a = d b \<and> a \<le> b)"

lemma sorted_insBy:
  "sorted_wrt (byDist d) xs \<Longrightarrow> sorted_wrt (byDist d) (insBy (\<lambda>a b. \<not> byDist d b a) x xs)"
proof (induction xs)
  case (Cons y ys)
  then show ?case by (auto simp: set_insBy byDist_def)
qed simp

lemma sorted_sortBy: "sorted_wrt (byDist d) (sortBy (\<lambda>a b. \<not> byDist d b a) xs)"
  by (induction xs) (simp_all add: sortBy_def sorted_insBy)

lemma find_first_sorted:
  assumes "sorted_wrt R xs" "find P xs = Some k" "j \<in> set xs" "P j"
  shows "j = k \<or> R k j"
  using assms by (induction xs) (auto split: if_splits)

lemma validTarget_cases:
  assumes "validTarget s k"
  obtains m where "map_of (svMonsters s) k = Some m" "mnState m \<noteq> MDead" "mnState m \<noteq> MReturn"
  using assms by (auto simp: validTarget_def split: option.splits)

lemma targetLess_byDist:
  assumes inv: "field_inv s" and p: "in_map (plPos p)" and v: "validTarget s a" "validTarget s b"
  shows "targetLess p s a b = (\<not> byDist (\<lambda>k. key (targetDist p s k)) b a)"
proof -
  have nn: "\<not> f_nan (targetDist p s k)" if vk: "validTarget s k" for k
  proof -
    obtain m where m: "map_of (svMonsters s) k = Some m" using vk by (rule validTarget_cases)
    have "in_map (mnPos m)" using field_inv_monster [OF inv m] by (simp add: monster_good_def monster_wf_def)
    then show ?thesis using m p by (simp add: targetDist_def pos_dist_not_nan)
  qed
  from nn [OF v(1)] nn [OF v(2)] show ?thesis
    by (auto simp: targetLess_def byDist_def f_eq_def f_lt_def)
qed

text \<open>
  The strike of a player: of the requested targets that are alive, not on their way home and in
  range, the nearest one (of several the one of the smallest number) is hit, and no other.
\<close>

lemma processPlayerAttackHit_ok:
  assumes inv: "field_inv s" and k: "k \<in> set (svPlayers s)" and room: "room 1 s"
    and skill: "plPendingAttackSkillId (theP s k) = 0"
  defines "p \<equiv> theP s k"
  defines "C \<equiv> {j \<in> set (plPendingAttackTargets p). validTarget s j \<and> inReach p (f_of_int 160) s j}"
  defines "s1 \<equiv> putP (p\<lparr>plPendingAttackTargets := sortBy (targetLess p s)
                      (filter (validTarget s) (plPendingAttackTargets p))\<rparr>) s"
  shows "\<exists>s'. processPlayerAttackHit p 0 s = Inr s' \<and> field_inv s' \<and> evolve 1 s s' \<and> field_inv s1 \<and> evolve 0 s s1 \<and>
    (if C = {} then s' = s1
     else \<exists>j \<in> C. (\<forall>i \<in> C. byDist (\<lambda>j. key (targetDist p s j)) j i) \<and>
       hitMonster (theP s1 k) 0 (the (map_of (svMonsters s) j)) s1 = Inr s')"
proof -
  define ts where "ts = sortBy (targetLess p s) (filter (validTarget s) (plPendingAttackTargets p))"
  define q where "q = p\<lparr>plPendingAttackTargets := ts\<rparr>"
  note pk = field_inv_player [OF inv k]
  have good: "player_good k q" "keeps p q"
    using pk(2) by (simp_all add: q_def p_def player_good_def player_wf_def player_placed_def)
  note put = field_inv_putP [OF inv k good [unfolded p_def]]
  have s1: "s1 = putP q s" by (simp add: s1_def q_def ts_def)
  have mons: "svMonsters s1 = svMonsters s" by (simp add: s1 putP_def)
  have tq: "theP s1 k = q" using good(1) by (simp add: s1 putP_def theP_def player_good_def)
  have pos: "in_map (plPos p)" using pk(2) by (simp add: p_def player_good_def player_placed_def)
  have ts: "ts = sortBy (\<lambda>a b. \<not> byDist (\<lambda>k. key (targetDist p s k)) b a)
      (filter (validTarget s) (plPendingAttackTargets p))"
    unfolding ts_def by (rule sortBy_cong) (auto intro!: targetLess_byDist [OF inv pos])
  have srt: "sorted_wrt (byDist (\<lambda>k. key (targetDist p s k))) ts" unfolding ts by (rule sorted_sortBy)
  have set: "set ts = {j \<in> set (plPendingAttackTargets p). validTarget s j}" by (auto simp: ts set_sortBy)
  have reach: "inReach q r s1 = inReach p r s" for r
    by (auto simp: inReach_def mons q_def fun_eq_iff split: option.split)
  have run: "processPlayerAttackHit p 0 s = hitTargets q 0 (f_of_int 160) ts 1 s1"
    using skill by (simp add: processPlayerAttackHit_def getSkillConfig_def Let_def s1 q_def ts_def p_def)
  show ?thesis
  proof (cases "find (inReach p (f_of_int 160) s) ts")
    case None
    then have "C = {}" using set by (auto simp: C_def find_None_iff)
    then show ?thesis using run None put [folded s1] by (simp add: hitTargets_one reach)
  next
    case (Some j)
    then have j: "j \<in> C" using set by (auto simp: C_def find_Some_iff)
    then obtain m where m: "map_of (svMonsters s1) j = Some m" "mnState m \<noteq> MDead"
      using mons by (auto simp: C_def elim: validTarget_cases)
    have near: "byDist (\<lambda>j. key (targetDist p s j)) j i" if "i \<in> C" for i
      using find_first_sorted [OF srt Some, of i] that set by (auto simp: C_def byDist_def)
    have room1: "room 1 s1" using room by (simp add: room_def s1 putP_def)
    have dir: "dir_ok (plDirection q)" "plAttackPower q = PLAYER_ATTACK_DAMAGE"
      using good(1) by (simp_all add: player_good_def player_wf_def player_placed_def)
    obtain s' where s': "hitMonster q 0 m s1 = Inr s'" "field_inv s'" "evolve 1 s1 s'"
      using hitMonster_ok [OF put(1) [folded s1] m dir room1] by blast
    have "evolve 1 s s'" using evolve_0 [OF put(2) [of 0, folded s1] s'(3)] .
    then show ?thesis using run Some s' j near tq mons m put [folded s1]
      by (intro exI [of _ s']) (auto simp: hitTargets_one reach intro!: bexI [of _ j])
  qed
qed

lemma processPlayerAttackHit_okn:
  assumes "field_inv s" "k \<in> set (svPlayers s)" "room 1 s"
  shows "okn 1 s (processPlayerAttackHit (theP s k) 0 s)"
proof (cases "plPendingAttackSkillId (theP s k) = 0")
  case True
  show ?thesis using processPlayerAttackHit_ok [OF assms True] by (auto simp: okf_def)
next
  case False
  then show ?thesis using assms by (simp add: processPlayerAttackHit_def getSkillConfig_def okn_Inr)
qed

end
