(* ===== verification/Handlers.thy ===== *)
theory Handlers
  imports CombatInv
begin

text \<open>
  The packets of a player that is in the field: the handlers of \<open>FieldServer.cpp\<close> for
  \<open>MOVE_START\<close>, \<open>MOVE_STOP\<close>, \<open>PLAYER_ATTACK_REQ\<close>, \<open>LOOT_REQ\<close> and \<open>RANKING_REQ\<close>, and
  their dispatcher. What they write to the server's monitor (delays, queue counters) is left out.
\<close>

subsection \<open>Helpers\<close>

definition disconnectSession :: "int \<Rightarrow> server \<Rightarrow> server" where
  "disconnectSession seqID s = s\<lparr>svDiscon := svDiscon s @ [seqID]\<rparr>"

definition disconnectSync :: "int \<Rightarrow> server \<Rightarrow> server" where
  "disconnectSync seqID s = disconnectSession seqID (s\<lparr>svDisconnectSync := svDisconnectSync s + 1\<rparr>)"

text \<open>
  The comparison of the position in a movement packet with the server's: the excess over
  \<open>syncDistance\<close> is added to the player's account (a conversion to \<open>uint64_t\<close>), a packet within
  it takes 10 off. The flag says that the account has passed its limit.
\<close>

definition syncCheck :: "f32 \<Rightarrow> player \<Rightarrow> (bool \<times> player) res" where
  "syncCheck distance p =
     (if f_lt syncDistance distance
      then bindR (f_to_u64 (f_sub distance syncDistance)) (\<lambda>d.
           let p = p\<lparr>plSyncCnt := u64 (plSyncCnt p + d)\<rparr>
           in Inr (CONFIG_SINK_MAXCOUNT < plSyncCnt p, p))
      else Inr (False, if 10 < plSyncCnt p then p\<lparr>plSyncCnt := plSyncCnt p - 10\<rparr> else p))"

subsection \<open>\<open>MOVE_START\<close>\<close>

definition moveStartBody :: "position \<Rightarrow> eDirection \<Rightarrow> f32 \<Rightarrow> int \<Rightarrow> player \<Rightarrow> server \<Rightarrow> server res" where
  "moveStartBody packetPos direction speed seqID p s =
     bindR (syncCheck (pos_dist (plPos p) packetPos) p) (\<lambda>(over, p).
     assertR (\<not> over)
       (bindR (Player.changeState PMove (p\<lparr>plPos := packetPos, plDirection := direction\<rparr>)) (\<lambda>p.
        assertR (f_eq (plSpeed p) speed)
          (bindR (getAroundSectors (plCurrentSector p)) (\<lambda>near.
           broadcastMoveStart p near (putP p s))))))"

definition handleMoveStart :: "message \<Rightarrow> int \<Rightarrow> server \<Rightarrow> server res" where
  "handleMoveStart msg seqID s =
     bindR (getS 8 msg) (\<lambda>(characterId, msg).
     bindR (getF msg) (\<lambda>(x, msg).
     bindR (getF msg) (\<lambda>(y, msg).
     bindR (getS 1 msg) (\<lambda>(direction, msg).
     bindR (getF msg) (\<lambda>(speed, msg).
     the_or_break (findPlayer seqID s) (\<lambda>p.
       case plState p of
         PStun \<Rightarrow> Inr s
       | PDead \<Rightarrow> Inr s
       | PAttack \<Rightarrow>
           (let rest = wrap32 (PLAYER_ATTACK_TOTAL_FRAME - plAnimFrame p) in
            if ALLOW_DELAY_FRAME \<le> rest
            then let p = p\<lparr>plSyncCnt := u64 (plSyncCnt p + rest)\<rparr>; s = putP p s
                 in if CONFIG_SINK_MAXCOUNT < plSyncCnt p then Inr (disconnectSync seqID s) else Inr s
            else moveStartBody (Position x y) direction speed seqID p s)
       | PMove \<Rightarrow> Inr s
       | PIdle \<Rightarrow> moveStartBody (Position x y) direction speed seqID p s))))))"

subsection \<open>\<open>MOVE_STOP\<close>\<close>

definition moveStopBody :: "position \<Rightarrow> eDirection \<Rightarrow> int \<Rightarrow> player \<Rightarrow> server \<Rightarrow> server res" where
  "moveStopBody packetPos direction seqID p s =
     assertR (f_le (f_of_int 0) (posX packetPos))
     (assertR (f_le (f_of_int 0) (posY packetPos))
     (assertR (f_le (posX packetPos) MAP_W)
     (assertR (f_le (posY packetPos) MAP_H)
       (bindR (syncCheck (pos_dist (plPos p) packetPos) p) (\<lambda>(over, p).
        if over then Inr (disconnectSync seqID (putP p s))
        else let p = p\<lparr>plPos := packetPos, plDirection := direction\<rparr>
             in bindR (if plState p \<noteq> PIdle then Player.changeState PIdle p else Inr p) (\<lambda>p.
                bindR (getAroundSectors (plCurrentSector p)) (\<lambda>near.
                broadcastMoveStop p near (putP p s))))))))"

definition handleMoveStop :: "message \<Rightarrow> int \<Rightarrow> server \<Rightarrow> server res" where
  "handleMoveStop msg seqID s =
     bindR (getS 8 msg) (\<lambda>(characterId, msg).
     bindR (getF msg) (\<lambda>(x, msg).
     bindR (getF msg) (\<lambda>(y, msg).
     bindR (getS 1 msg) (\<lambda>(direction, msg).
     the_or_break (findPlayer seqID s) (\<lambda>p.
       if plState p = PAttack \<or> plState p = PDead \<or> plState p = PStun then Inr s
       else moveStopBody (Position x y) direction seqID p s)))))"

subsection \<open>\<open>PLAYER_ATTACK_REQ\<close>\<close>

fun readTargets :: "nat \<Rightarrow> message \<Rightarrow> int list res" where
  "readTargets 0 msg = Inr []"
| "readTargets (Suc n) msg =
     bindR (getS 8 msg) (\<lambda>(k, msg). bindR (readTargets n msg) (\<lambda>ks. Inr (k # ks)))"

definition handleAttackReq :: "message \<Rightarrow> int \<Rightarrow> server \<Rightarrow> server res" where
  "handleAttackReq msg seqID s =
     bindR (getS 1 msg) (\<lambda>(skillId, msg).
     bindR (getS 2 msg) (\<lambda>(targetCnt, msg).
     case getSkillConfig skillId of
       None \<Rightarrow> Inr (disconnectSession seqID s)
     | Some (rangeLen, maxTargetCnt) \<Rightarrow>
         if maxTargetCnt < targetCnt then Inr (disconnectSession seqID s)
         else the_or_break (findPlayer seqID s) (\<lambda>p.
           if plState p = PDead \<or> plState p = PAttack \<or> plState p = PStun then Inr s
           else bindR (getAroundSectors (plCurrentSector p)) (\<lambda>near.
                bindR (if plState p \<noteq> PAttack then Player.changeState PAttack p
                       else Inr (p\<lparr>plAnimFrame := 0\<rparr>)) (\<lambda>p.
                let p = p\<lparr>plPendingAttackSkillId := skillId\<rparr>
                in bindR (broadcastPlayerAttack p near (putP p s)) (\<lambda>s.
                   bindR (readTargets (nat targetCnt) msg) (\<lambda>ks.
                   Inr (putP (p\<lparr>plPendingAttackTargets := ks\<rparr>) s))))))))"

subsection \<open>\<open>LOOT_REQ\<close>\<close>

text \<open>\<open>mInventory[itemId] += count\<close>: a missing entry counts as 0.\<close>

definition addItem :: "int \<Rightarrow> int \<Rightarrow> (int \<times> int) list \<Rightarrow> (int \<times> int) list" where
  "addItem i n items = alUpd i (wrap32 ((case map_of items i of None \<Rightarrow> 0 | Some c \<Rightarrow> c) + n)) items"

definition handleLootReq :: "message \<Rightarrow> int \<Rightarrow> server \<Rightarrow> server res" where
  "handleLootReq msg seqID s =
     bindR (getS 8 msg) (\<lambda>(itemUniqueId, msg).
     the_or_break (findPlayer seqID s) (\<lambda>p.
       case map_of (svItems s) itemUniqueId of
         None \<Rightarrow> sendLootRes p False None 0 s
       | Some it \<Rightarrow>
           if f_lt LOOT_RANGE (pos_dist (plPos p) (itPos it)) then sendLootRes p False None 0 s
           else let p = p\<lparr>plInventory := addItem (itemByte (itItemId it)) (itCount it) (plInventory p)\<rparr>;
                    s = putP p s
                in bindR (getAroundSectors (itSector it)) (\<lambda>near.
                   bindR (broadcastItemDespawn it near s) (\<lambda>s.
                   bindR (sendLootRes p True (Some (itItemId it)) (itCount it) s) (\<lambda>s.
                   let s = s\<lparr>svLootCount := svLootCount s + 1\<rparr>
                   in assertR (itItemUniqueId it \<in> set (svItemSectors s (itSector it)))
                        (Inr (s\<lparr>svItemSectors := delSector (itSector it) (itItemUniqueId it) (svItemSectors s),
                                svItems := alDel itemUniqueId (svItems s)\<rparr>)))))))"

subsection \<open>\<open>RANKING_REQ\<close> and the dispatcher\<close>

definition handleRankingReq :: "message \<Rightarrow> int \<Rightarrow> server \<Rightarrow> server res" where
  "handleRankingReq msg seqID s =
     the_or_break (findPlayer seqID s) (\<lambda>p. requestRankingQuery (plCurrentFieldID p) p s)"

definition fieldContentsPacketProc :: "message \<Rightarrow> server \<Rightarrow> server res" where
  "fieldContentsPacketProc msg s =
     (let seqID = mOwnerID msg in
      bindR (getS 2 msg) (\<lambda>(type, msg).
      bindR (RecordRecv type s) (\<lambda>s.
      if type = MOVE_START then handleMoveStart msg seqID s
      else if type = MOVE_STOP then handleMoveStop msg seqID s
      else if type = PLAYER_ATTACK_REQ then handleAttackReq msg seqID s
      else if type = LOOT_REQ then handleLootReq msg seqID s
      else if type = RANKING_REQ then handleRankingReq msg seqID s
      else Inr (disconnectSession seqID s))))"

end
