(* ===== verification/HandlersInv.thy ===== *)
theory HandlersInv
  imports Handlers
begin

text \<open>
  What the handlers of theory \<open>Handlers\<close> do. First how each decodes its packet: a handler is a
  function of the fields at fixed offsets, and a packet that is too short raises \<open>HasNotData\<close>.
  Then, for packets a client of the game sends, every branch succeeds and keeps the invariant.
\<close>

subsection \<open>Reading a packet\<close>

definition adv :: "nat \<Rightarrow> message \<Rightarrow> message" where
  "adv n m = m\<lparr>mFront := mFront m + n\<rparr>"

definition readable :: "message \<Rightarrow> bool" where
  "readable m \<longleftrightarrow> mFront m \<le> length (mBuf m)"

lemma adv_simps [simp]: "mOwnerID (adv n m) = mOwnerID m" "unread (adv n m) = drop n (unread m)"
  "adv k (adv n m) = adv (n + k) m"
  by (simp_all add: adv_def unread_def add.commute add.assoc)

lemma readable_adv [simp]: "readable m \<Longrightarrow> n \<le> length (unread m) \<Longrightarrow> readable (adv n m)"
  by (simp add: adv_def readable_def unread_def)

lemma getVal_eq:
  "readable m \<Longrightarrow> getVal n m = (if n \<le> length (unread m) then Inr (take n (unread m), adv n m) else Inl HasNotData)"
  by (auto simp: getVal_def readable_def unread_def adv_def mRear_def)

lemma getS_eq:
  "readable m \<Longrightarrow> getS n m = (if n \<le> length (unread m) then Inr (decS (take n (unread m)), adv n m) else Inl HasNotData)"
  by (simp add: getS_def getVal_eq)

lemma getF_eq:
  "readable m \<Longrightarrow> getF m = (if 4 \<le> length (unread m) then Inr (decF (take 4 (unread m)), adv 4 m) else Inl HasNotData)"
  by (simp add: getF_def getVal_eq)

text \<open>The fields of a body at their offsets.\<close>

definition fS :: "nat \<Rightarrow> nat \<Rightarrow> byte list \<Rightarrow> int" where "fS off n bs = decS (take n (drop off bs))"
definition fF :: "nat \<Rightarrow> byte list \<Rightarrow> f32" where "fF off bs = decF (take 4 (drop off bs))"
definition fPos :: "byte list \<Rightarrow> position" where "fPos bs = Position (fF 8 bs) (fF 12 bs)"

lemma handleMoveStart_eq:
  assumes "readable msg"
  shows "handleMoveStart msg k s =
    (if length (unread msg) < 21 then Inl HasNotData
     else the_or_break (findPlayer k s) (\<lambda>p.
       case plState p of
         PStun \<Rightarrow> Inr s
       | PDead \<Rightarrow> Inr s
       | PAttack \<Rightarrow>
           (let rest = wrap32 (PLAYER_ATTACK_TOTAL_FRAME - plAnimFrame p) in
            if ALLOW_DELAY_FRAME \<le> rest
            then let p = p\<lparr>plSyncCnt := u64 (plSyncCnt p + rest)\<rparr>; s = putP p s
                 in if CONFIG_SINK_MAXCOUNT < plSyncCnt p then Inr (disconnectSync k s) else Inr s
            else moveStartBody (fPos (unread msg)) (fS 16 1 (unread msg)) (fF 17 (unread msg)) k p s)
       | PMove \<Rightarrow> Inr s
       | PIdle \<Rightarrow> moveStartBody (fPos (unread msg)) (fS 16 1 (unread msg)) (fF 17 (unread msg)) k p s))"
proof (cases "length (unread msg) < 21")
  case True
  then show ?thesis using assms
    by (cases "8 \<le> length (unread msg)"; cases "12 \<le> length (unread msg)"; cases "16 \<le> length (unread msg)";
        cases "17 \<le> length (unread msg)") (simp_all add: handleMoveStart_def getS_eq getF_eq)
next
  case False
  then obtain m where "length (unread msg) = 21 + m" by (metis le_Suc_ex not_less)
  then show ?thesis using assms unfolding fPos_def fS_def fF_def One_nat_def
    by (simp add: handleMoveStart_def getS_eq getF_eq)
qed

lemma handleMoveStop_eq:
  assumes "readable msg"
  shows "handleMoveStop msg k s =
    (if length (unread msg) < 17 then Inl HasNotData
     else the_or_break (findPlayer k s) (\<lambda>p.
       if plState p = PAttack \<or> plState p = PDead \<or> plState p = PStun then Inr s
       else moveStopBody (fPos (unread msg)) (fS 16 1 (unread msg)) k p s))"
proof (cases "length (unread msg) < 17")
  case True
  then show ?thesis using assms
    by (cases "8 \<le> length (unread msg)"; cases "12 \<le> length (unread msg)"; cases "16 \<le> length (unread msg)")
      (simp_all add: handleMoveStop_def getS_eq getF_eq)
next
  case False
  then obtain m where "length (unread msg) = 17 + m" by (metis le_Suc_ex not_less)
  then show ?thesis using assms unfolding fPos_def fS_def fF_def One_nat_def
    by (simp add: handleMoveStop_def getS_eq getF_eq)
qed

lemma readTargets_eq:
  "readable msg \<Longrightarrow> 8 * n \<le> length (unread msg) \<Longrightarrow>
   readTargets n msg = Inr (map (\<lambda>i. fS (8 * i) 8 (unread msg)) [0..<n])"
proof (induction n arbitrary: msg)
  case (Suc n)
  have "map (\<lambda>i. fS (8 * i) 8 (unread msg)) [0..<Suc n] =
      fS 0 8 (unread msg) # map (\<lambda>i. fS (8 * i) 8 (drop 8 (unread msg))) [0..<n]"
    by (simp add: upt_conv_Cons map_Suc_upt [symmetric] fS_def comp_def add.commute del: upt_Suc)
  then show ?case using Suc.IH [of "adv 8 msg"] Suc.prems
    by (simp add: getS_eq fS_def del: upt_Suc)
qed simp

lemma handleAttackReq_eq:
  assumes "readable msg" "3 \<le> length (unread msg)"
  shows "handleAttackReq msg k s =
    (let skill = fS 0 1 (unread msg); cnt = fS 1 2 (unread msg) in
     if skill \<noteq> 0 \<or> 1 < cnt then Inr (disconnectSession k s)
     else the_or_break (findPlayer k s) (\<lambda>p.
       if plState p = PDead \<or> plState p = PAttack \<or> plState p = PStun then Inr s
       else bindR (getAroundSectors (plCurrentSector p)) (\<lambda>near.
            bindR (if plState p \<noteq> PAttack then Player.changeState PAttack p
                   else Inr (p\<lparr>plAnimFrame := 0\<rparr>)) (\<lambda>p.
            let p = p\<lparr>plPendingAttackSkillId := skill\<rparr>
            in bindR (broadcastPlayerAttack p near (putP p s)) (\<lambda>s.
               bindR (readTargets (nat cnt) (adv 3 msg)) (\<lambda>ks.
               Inr (putP (p\<lparr>plPendingAttackTargets := ks\<rparr>) s)))))))"
proof -
  have "adv (Suc (Suc (Suc 0))) = adv 3" by (simp add: numeral_3_eq_3)
  moreover obtain m where "length (unread msg) = 3 + m" using assms(2) le_Suc_ex by blast
  ultimately show ?thesis using assms unfolding fS_def One_nat_def
    by (simp add: handleAttackReq_def getS_eq getSkillConfig_def Let_def)
qed

lemma handleLootReq_eq:
  assumes "readable msg"
  shows "handleLootReq msg k s =
    (if length (unread msg) < 8 then Inl HasNotData
     else the_or_break (findPlayer k s) (\<lambda>p.
       case map_of (svItems s) (fS 0 8 (unread msg)) of
         None \<Rightarrow> sendLootRes p False None 0 s
       | Some it \<Rightarrow>
           if f_lt LOOT_RANGE (pos_dist (plPos p) (itPos it)) then sendLootRes p False None 0 s
           else let p = p\<lparr>plInventory := addItem (itemByte (itItemId it)) (itCount it) (plInventory p)\<rparr>;
                    s = putP p s
                in bindR (getAroundSectors (itSector it)) (\<lambda>near.
                   bindR (broadcastItemDespawn it near s) (\<lambda>s.
                   bindR (sendLootRes p True (Some (itItemId it)) (itCount it) s) (\<lambda>s.
                   let s = s\<lparr>svLootCount := svLootCount s + 1\<rparr>
                   in assertR (itItemUniqueId it \<in> set (svItemSectors s (itSector it)))
                        (Inr (s\<lparr>svItemSectors := delSector (itSector it) (itItemUniqueId it) (svItemSectors s),
                                svItems := alDel (fS 0 8 (unread msg)) (svItems s)\<rparr>)))))))"
  using assms unfolding fS_def drop_0 by (simp add: handleLootReq_def getS_eq)

subsection \<open>Movement\<close>

definition syncAfter :: "player \<Rightarrow> position \<Rightarrow> int" where
  "syncAfter p q =
     (if f_lt syncDistance (pos_dist (plPos p) q)
      then u64 (plSyncCnt p + f_trunc (f_sub (pos_dist (plPos p) q) syncDistance))
      else if 10 < plSyncCnt p then plSyncCnt p - 10 else plSyncCnt p)"

definition tooFar :: "player \<Rightarrow> position \<Rightarrow> bool" where
  "tooFar p q \<longleftrightarrow> f_lt syncDistance (pos_dist (plPos p) q) \<and> CONFIG_SINK_MAXCOUNT < syncAfter p q"

lemma syncCheck_eq:
  assumes "in_map (plPos p)" "in_map q"
  shows "syncCheck (pos_dist (plPos p) q) p = Inr (tooFar p q, p\<lparr>plSyncCnt := syncAfter p q\<rparr>)"
proof (cases "f_lt syncDistance (pos_dist (plPos p) q)")
  case True
  obtain d where d: "f_to_u64 (f_sub (pos_dist (plPos p) q) syncDistance) = Inr d"
    using sync_excess_ok [OF assms True] by blast
  then have "d = f_trunc (f_sub (pos_dist (plPos p) q) syncDistance)"
    by (auto simp: f_to_u64_def split: if_splits)
  then show ?thesis using True d by (simp add: syncCheck_def tooFar_def syncAfter_def Let_def)
next
  case False
  then show ?thesis by (auto simp: syncCheck_def tooFar_def syncAfter_def)
qed

text \<open>The player after an accepted movement packet.\<close>

definition moved :: "ePlayerState \<Rightarrow> position \<Rightarrow> eDirection \<Rightarrow> player \<Rightarrow> player" where
  "moved t q d p = p\<lparr>plSyncCnt := syncAfter p q, plPos := q, plDirection := d, plState := t,
     plAnimFrame := 0, plStartMovePos := q\<rparr>"

lemma moved_good:
  assumes "player_good k p" "in_map q" "dir_ok d" "plState p \<noteq> PDead" "t \<noteq> PDead"
  shows "player_good k (moved t q d p)" "keeps p (moved t q d p)"
  using assms by (simp_all add: moved_def player_good_def player_wf_def player_placed_def)

lemma moveStartBody_eq:
  assumes "player_good k p" "in_map q" "f_eq (plSpeed p) sp" "plState p \<noteq> PMove"
  shows "moveStartBody q d sp k p s =
    (if tooFar p q then Inl DebugBreak
     else broadcastMoveStart (moved PMove q d p) (aroundOf (plCurrentSector p)) (putP (moved PMove q d p) s))"
  using assms
  by (simp add: moveStartBody_def syncCheck_eq player_good_def player_placed_def Player.changeState_def
      Player.resetAnimStart_def getAroundSectors_eq moved_def)

lemma in_map_of_int_0: "in_map q \<Longrightarrow> f_le (f_of_int 0) (posX q) \<and> f_le (f_of_int 0) (posY q)"
proof -
  have "f_of_int 0 = f_lit 0 1" by code_simp
  then show "in_map q \<Longrightarrow> ?thesis" by (simp add: in_map_def)
qed

lemma moveStopBody_eq:
  assumes "player_good k p" "in_map q" "plState p = PIdle \<or> plState p = PMove"
  shows "moveStopBody q d k p s =
    (if tooFar p q then Inr (disconnectSync k (putP (p\<lparr>plSyncCnt := syncAfter p q\<rparr>) s))
     else let p' = (if plState p = PMove then moved PIdle q d p
                    else p\<lparr>plSyncCnt := syncAfter p q, plPos := q, plDirection := d\<rparr>)
          in broadcastMoveStop p' (aroundOf (plCurrentSector p)) (putP p' s))"
  using assms in_map_of_int_0 [OF assms(2)]
  by (auto simp: moveStopBody_def syncCheck_eq player_good_def player_placed_def Player.changeState_def
      Player.resetAnimStart_def getAroundSectors_eq moved_def Let_def in_map_def)

subsection \<open>Every branch succeeds\<close>

text \<open>
  A packet as a client of the game sends it: its type is a number of the protocol, it is as long as
  its type asks for, positions are on the map, directions are one of the eight, the speed is the
  speed of players.
\<close>

definition movement_ok :: "byte list \<Rightarrow> bool" where
  "movement_ok u \<longleftrightarrow> 17 \<le> length u \<and> in_map (fPos u) \<and> dir_ok (fS 16 1 u)"

definition packet_ok :: "message \<Rightarrow> bool" where
  "packet_ok msg \<longleftrightarrow> readable msg \<and> 2 \<le> length (unread msg) \<and>
     (let t = fS 0 2 (unread msg); u = drop 2 (unread msg) in
      0 \<le> t \<and> t < kTableSize \<and>
      (t = MOVE_START \<longrightarrow> movement_ok u \<and> 21 \<le> length u \<and> fF 17 u = f_lit 45 10) \<and>
      (t = MOVE_STOP \<longrightarrow> movement_ok u) \<and>
      (t = PLAYER_ATTACK_REQ \<longrightarrow> 3 \<le> length u \<and> 3 + 8 * nat (fS 1 2 u) \<le> length u) \<and>
      (t = LOOT_REQ \<longrightarrow> 8 \<le> length u))"

lemma field_inv_disconnect [simp]:
  "field_inv (disconnectSession k s) = field_inv s" "field_inv (disconnectSync k s) = field_inv s"
  by (simp_all add: disconnectSync_def disconnectSession_def field_inv_def)

lemma evolve_disconnect [simp]:
  "evolve n s (disconnectSession k s)" "evolve n s (disconnectSync k s)"
  by (simp_all add: disconnectSync_def disconnectSession_def evolve_def)

lemma okn_put:
  assumes "field_inv s" "k \<in> set (svPlayers s)" "player_good k p'" "keeps (theP s k) p'"
    and "field_inv (putP p' s) \<Longrightarrow> okf b n (putP p' s) r"
  shows "okf b n s r"
  using okn_from [OF assms(5) field_inv_putP(2)] field_inv_putP(1) assms(1-4) by blast

lemma handleMoveStart_okf:
  assumes inv: "field_inv s" and k: "k \<in> set (svPlayers s)" and msg: "readable msg" "21 \<le> length (unread msg)"
    and u: "movement_ok (unread msg)" "fF 17 (unread msg) = f_lit 45 10"
  shows "okf (tooFar (theP s k) (fPos (unread msg))) 0 s (handleMoveStart msg k s)"
proof -
  define p far where "p = theP s k" and "far = tooFar (theP s k) (fPos (unread msg))"
  have g: "player_good k p" using field_inv_player [OF inv k] by (simp add: p_def)
  have f: "findPlayer k s = Some p" using field_inv_findPlayer [OF inv] k by (simp add: p_def)
  have sp: "f_eq (plSpeed p) (f_lit 45 10)"
  proof -
    have "f_eq (f_lit 45 10) (f_lit 45 10)" by code_simp
    then show ?thesis using g by (simp add: player_good_def player_wf_def)
  qed
  have body: "okf far 0 s (moveStartBody (fPos (unread msg)) (fS 16 1 (unread msg)) (f_lit 45 10) k p s)"
    if "plState p \<noteq> PMove" "plState p \<noteq> PDead"
  proof -
    define p' where "p' = moved PMove (fPos (unread msg)) (fS 16 1 (unread msg)) p"
    have p': "player_good k p'" "keeps (theP s k) p'"
      using moved_good [OF g, of "fPos (unread msg)" "fS 16 1 (unread msg)" PMove] u(1) that
      by (simp_all add: p'_def movement_ok_def p_def)
    have "okf far 0 s (broadcastMoveStart p' (aroundOf (plCurrentSector p)) (putP p' s))"
      by (rule okn_put [OF inv k p']) (intro okn_sends sends_rules)
    then show ?thesis using u(1) that sp
      by (subst moveStartBody_eq [OF g]) (auto simp: movement_ok_def okf_def p'_def far_def p_def)
  qed
  have sync: "player_good k (p\<lparr>plSyncCnt := c\<rparr>)" "keeps (theP s k) (p\<lparr>plSyncCnt := c\<rparr>)" for c
    using g by (simp_all add: p_def player_good_def player_wf_def player_placed_def)
  have stay: "okf far 0 s (Inr s)" using inv by (simp add: okn_Inr)
  have "okf far 0 s (if c then Inr (disconnectSync k (putP (p\<lparr>plSyncCnt := n\<rparr>) s)) else Inr (putP (p\<lparr>plSyncCnt := n\<rparr>) s))" for c n
    by (rule okn_put [OF inv k sync [of n]]) (simp add: okn_Inr)
  then show ?thesis using stay body msg u(2) f unfolding far_def [symmetric]
    by (cases "plState p") (auto simp: handleMoveStart_eq Let_def)
qed

lemma handleMoveStop_okn:
  assumes inv: "field_inv s" and k: "k \<in> set (svPlayers s)" and msg: "readable msg"
    and u: "movement_ok (unread msg)"
  shows "okn 0 s (handleMoveStop msg k s)"
proof -
  define p where "p = theP s k"
  have g: "player_good k p" using field_inv_player [OF inv k] by (simp add: p_def)
  have f: "findPlayer k s = Some p" using field_inv_findPlayer [OF inv] k by (simp add: p_def)
  have len: "\<not> length (unread msg) < 17" and pos: "in_map (fPos (unread msg))" and d: "dir_ok (fS 16 1 (unread msg))"
    using u by (auto simp: movement_ok_def)
  have stay: "okn 0 s (Inr s)" using inv by (simp add: okn_Inr)
  have "okn 0 s (moveStopBody (fPos (unread msg)) (fS 16 1 (unread msg)) k p s)"
    if st: "plState p = PIdle \<or> plState p = PMove"
  proof -
    define p' where "p' = (if plState p = PMove then moved PIdle (fPos (unread msg)) (fS 16 1 (unread msg)) p
      else p\<lparr>plSyncCnt := syncAfter p (fPos (unread msg)), plPos := fPos (unread msg), plDirection := fS 16 1 (unread msg)\<rparr>)"
    have p': "player_good k p'" "keeps (theP s k) p'"
      using st moved_good [OF g pos d, of PIdle] g pos d
      by (auto simp: p'_def p_def player_good_def player_wf_def player_placed_def)
    have sync: "player_good k (p\<lparr>plSyncCnt := c\<rparr>)" "keeps (theP s k) (p\<lparr>plSyncCnt := c\<rparr>)" for c
      using g by (simp_all add: p_def player_good_def player_wf_def player_placed_def)
    have "okn 0 s (Inr (disconnectSync k (putP (p\<lparr>plSyncCnt := n\<rparr>) s)))" for n
      by (rule okn_put [OF inv k sync [of n]]) (simp add: okn_Inr)
    moreover have "okn 0 s (broadcastMoveStop p' (aroundOf (plCurrentSector p)) (putP p' s))"
      by (rule okn_put [OF inv k p']) (intro okn_sends sends_rules)
    ultimately show ?thesis
      by (subst moveStopBody_eq [OF g pos st]) (simp add: p'_def Let_def)
  qed
  then show ?thesis using stay msg f len
    by (cases "plState p") (auto simp: handleMoveStop_eq)
qed

lemma handleAttackReq_okn:
  assumes inv: "field_inv s" and k: "k \<in> set (svPlayers s)" and msg: "readable msg" "3 \<le> length (unread msg)"
    "3 + 8 * nat (fS 1 2 (unread msg)) \<le> length (unread msg)"
  shows "okn 0 s (handleAttackReq msg k s)"
proof -
  define p where "p = theP s k"
  have g: "player_good k p" using field_inv_player [OF inv k] by (simp add: p_def)
  have f: "findPlayer k s = Some p" using field_inv_findPlayer [OF inv] k by (simp add: p_def)
  have near: "getAroundSectors (plCurrentSector p) = Inr (aroundOf (plCurrentSector p))"
    using g by (simp add: getAroundSectors_eq player_good_def)
  have dis: "okn 0 s (Inr (disconnectSession k s))" and stay: "okn 0 s (Inr s)"
    using inv by (simp_all add: okn_Inr)
  define n where "n = nat (fS 1 2 (unread msg))"
  have rt: "\<exists>ks. readTargets n (adv 3 msg) = Inr ks"
    using msg readTargets_eq [of "adv 3 msg" n] by (auto simp: n_def)
  have "okn 0 s (bindR (Player.changeState PAttack p) (\<lambda>p.
      let p = p\<lparr>plPendingAttackSkillId := skill\<rparr>
      in bindR (broadcastPlayerAttack p (aroundOf (plCurrentSector (theP s k))) (putP p s)) (\<lambda>s.
         bindR (readTargets n (adv 3 msg)) (\<lambda>ks. Inr (putP (p\<lparr>plPendingAttackTargets := ks\<rparr>) s)))))"
    if st: "plState p = PIdle \<or> plState p = PMove" for skill
  proof -
    obtain p1 where p1: "Player.changeState PAttack p = Inr p1" by (simp add: Player.changeState_def assertR_def) (use st in auto)
    define p2 where "p2 = p1\<lparr>plPendingAttackSkillId := skill\<rparr>"
    have g2: "player_good k (p2\<lparr>plPendingAttackTargets := ks\<rparr>)" "player_good k p2"
        "keeps (theP s k) p2" for ks
      using p1 g st by (auto simp: p2_def Player.changeState_def Player.resetAnimStart_def assertR_def p_def
          player_good_def player_wf_def player_placed_def split: if_splits)
    obtain ks where ks: "readTargets n (adv 3 msg) = Inr ks" using rt ..
    have "okn 0 s (bindR (broadcastPlayerAttack p2 (aroundOf (plCurrentSector (theP s k))) (putP p2 s)) (\<lambda>s.
         Inr (putP (p2\<lparr>plPendingAttackTargets := ks\<rparr>) s)))"
    proof (rule okn_put [OF inv k g2(2,3)], rule okn_bind0, rule sends_broadcastPlayerAttack, assumption)
      fix s' assume q: "quiet (putP p2 s) s'" and inv': "field_inv s'"
      have pl: "svPlayers s' = svPlayers s" "theP s' k = p2"
        using quiet_frame(10,23) [OF q] g2(2) by (simp_all add: putP_def theP_def player_good_def)
      show "okn 0 s' (Inr (putP (p2\<lparr>plPendingAttackTargets := ks\<rparr>) s'))"
        using field_inv_putP [OF inv' _ g2(1)] pl k by (intro okn_Inr) auto
    qed
    then show ?thesis using p1 ks by (simp add: p2_def Let_def)
  qed
  then show ?thesis using msg f near dis stay
    by (cases "plState p") (auto simp: handleAttackReq_eq Let_def n_def p_def)
qed

lemma evolve_delItem:
  "evolve n s (s\<lparr>svItemSectors := g, svItems := alDel i (svItems s)\<rparr>)"
  using length_delete_le [of i "svItems s"] by (auto simp: evolve_def)

lemma okn_item_gone:
  assumes inv: "field_inv s" and i: "map_of (svItems s) i = Some it"
  shows "okf b 0 s (Inr (s\<lparr>svItemSectors := delSector (itSector it) i (svItemSectors s), svItems := alDel i (svItems s)\<rparr>))"
proof -
  have "inv_items (alDel i (svItems s)) (delSector (itSector it) i (svItemSectors s)) (svItemUniqueID s)"
    using inv i by (intro inv_items_remove) (auto simp: field_inv_def)
  then show ?thesis using inv evolve_delItem by (intro okn_Inr) (simp_all add: field_inv_def)
qed

text \<open>
  Looting: a request for an item that is not there, or out of reach, is answered with a failure and
  changes nothing; otherwise the item goes to the player, everybody around is told, the player gets
  the answer, and the item is gone.
\<close>

definition lootBody :: "int \<Rightarrow> player \<Rightarrow> fieldItem \<Rightarrow> server \<Rightarrow> server res" where
  "lootBody i p it s =
     (let p = p\<lparr>plInventory := addItem (itemByte (itItemId it)) (itCount it) (plInventory p)\<rparr>; s = putP p s
      in bindR (getAroundSectors (itSector it)) (\<lambda>near.
         bindR (broadcastItemDespawn it near s) (\<lambda>s.
         bindR (sendLootRes p True (Some (itItemId it)) (itCount it) s) (\<lambda>s.
         let s = s\<lparr>svLootCount := svLootCount s + 1\<rparr>
         in assertR (itItemUniqueId it \<in> set (svItemSectors s (itSector it)))
              (Inr (s\<lparr>svItemSectors := delSector (itSector it) (itItemUniqueId it) (svItemSectors s),
                      svItems := alDel i (svItems s)\<rparr>))))))"

lemma lootBody_ok:
  assumes inv: "field_inv s" and k: "k \<in> set (svPlayers s)" and i: "map_of (svItems s) i = Some it"
  shows "\<exists>s'. lootBody i (theP s k) it s = Inr s' \<and> field_inv s' \<and> evolve 0 s s' \<and>
    svItems s' = alDel i (svItems s) \<and> svLootCount s' = svLootCount s + 1 \<and>
    theP s' k = (theP s k)\<lparr>plInventory := addItem (itemByte (itItemId it)) (itCount it) (plInventory (theP s k))\<rparr> \<and>
    svOut s' = svOut s @ toMembers (aroundOf (itSector it)) ITEM_DESPAWN (enc 8 i) (\<lambda>_. False) s @
      [(k, packet (svNow s) k LOOT_RES (enc 1 0 @ enc 1 (itemByte (itItemId it)) @ enc 4 (itCount it)))]"
proof -
  define p' where "p' = (theP s k)\<lparr>plInventory := addItem (itemByte (itItemId it)) (itCount it) (plInventory (theP s k))\<rparr>"
  have g: "player_good k p'" "keeps (theP s k) p'"
    using field_inv_player [OF inv k] by (simp_all add: p'_def player_good_def player_wf_def player_placed_def)
  note put = field_inv_putP [OF inv k g]
  have ig: "item_good i it" using field_inv_item [OF inv i] by simp
  have near: "getAroundSectors (itSector it) = Inr (aroundOf (itSector it))"
    using ig by (simp add: getAroundSectors_eq item_good_def)
  define s1 where "s1 = putP p' s"
  define s2 where "s2 = sent ITEM_DESPAWN (toMembers (aroundOf (itSector it)) ITEM_DESPAWN (enc 8 i) (\<lambda>_. False) s1) s1"
  define s3 where "s3 = sent LOOT_RES [(k, packet (svNow s) k LOOT_RES
      (enc 1 0 @ enc 1 (itemByte (itItemId it)) @ enc 4 (itCount it)))] s2"
  have id: "itItemUniqueId it = i" using ig by (simp add: item_good_def)
  have b: "broadcastItemDespawn it (aroundOf (itSector it)) s1 = Inr s2"
    using broadcastItemDespawn_eq [OF field_inv_live [OF put(1)]] by (simp add: s1_def s2_def id)
  have now: "svNow s2 = svNow s" by (simp add: s2_def s1_def putP_def)
  have l: "sendLootRes p' True (Some (itItemId it)) (itCount it) s2 = Inr s3"
    using g(1) by (simp add: sendLootRes_eq s3_def now player_good_def del: enc.simps)
  have inv2: "field_inv s2" "quiet s1 s2"
    using sendsE [OF sends_broadcastItemDespawn [OF put(1) [folded s1_def], of it "aroundOf (itSector it)"]] b by auto
  have inv3: "field_inv s3" "quiet s2 s3"
    using sendsE [OF sends_sendLootRes [OF inv2(1), of p' True "Some (itItemId it)" "itCount it"]] l by auto
  define s4 where "s4 = s3\<lparr>svLootCount := svLootCount s3 + 1\<rparr>"
  have same: "svItems s4 = svItems s" "svItemSectors s4 = svItemSectors s" "svObjs s4 = alUpd k p' (svObjs s)"
      "svLootCount s4 = svLootCount s + 1"
    using g(1) by (simp_all add: s4_def s3_def s2_def s1_def putP_def player_good_def)
  have inv4: "field_inv s4" using inv3(1) by (simp add: s4_def field_inv_def)
  have ev4: "evolve 0 s s4"
  proof -
    have "evolve 0 s s3"
      using evolve_trans [OF put(2) [of 0, folded s1_def] evolve_trans [OF quiet_evolve [OF inv2(2), of 0]
          quiet_evolve [OF inv3(2), of 0]]] by simp
    moreover have "evolve 0 s3 s4" by (simp add: s4_def evolve_def)
    ultimately show ?thesis by (rule evolve_0)
  qed
  have mem: "i \<in> set (svItemSectors s4 (itSector it))"
    using inv i by (simp add: same field_inv_def inv_items_def)
  have run: "lootBody i (theP s k) it s = Inr (s4\<lparr>svItemSectors := delSector (itSector it) i (svItemSectors s4),
      svItems := alDel i (svItems s4)\<rparr>)" (is "_ = Inr ?s5")
    using near b l mem by (simp add: lootBody_def Let_def p'_def [symmetric] s1_def [symmetric] s4_def id)
  have "okn 0 s4 (Inr ?s5)" using okn_item_gone [OF inv4] i same by simp
  then have "field_inv ?s5" "evolve 0 s ?s5" using evolve_0 [OF ev4] by (auto simp: okf_def)
  moreover have "toMembers near t bd P s1 = toMembers near t bd P s" for near t bd P
    by (simp add: toMembers_def s1_def putP_def)
  ultimately show ?thesis using run same
    by (intro exI [of _ ?s5]) (simp add: theP_def p'_def s4_def s3_def s2_def s1_def putP_def del: enc.simps)
qed

lemma handleLootReq_body:
  assumes "readable msg" "8 \<le> length (unread msg)" "findPlayer k s = Some p"
  shows "handleLootReq msg k s =
    (case map_of (svItems s) (fS 0 8 (unread msg)) of
       None \<Rightarrow> sendLootRes p False None 0 s
     | Some it \<Rightarrow> if f_lt LOOT_RANGE (pos_dist (plPos p) (itPos it)) then sendLootRes p False None 0 s
                  else lootBody (fS 0 8 (unread msg)) p it s)"
  using assms unfolding lootBody_def by (simp add: handleLootReq_eq)

lemma handleLootReq_okn:
  assumes inv: "field_inv s" and k: "k \<in> set (svPlayers s)" and msg: "readable msg" "8 \<le> length (unread msg)"
  shows "okn 0 s (handleLootReq msg k s)"
proof -
  have f: "findPlayer k s = Some (theP s k)" using field_inv_findPlayer [OF inv] k by simp
  have fail: "okn 0 s (sendLootRes p False None 0 s)" for p
    by (intro okn_sends sends_rules inv)
  have "okn 0 s (lootBody i (theP s k) it s)" if "map_of (svItems s) i = Some it" for i it
    using lootBody_ok [OF inv k that] by (auto simp: okf_def)
  then show ?thesis using handleLootReq_body [OF msg f] fail by (simp split: option.split)
qed

lemma handleRankingReq_okn:
  assumes inv: "field_inv s" and k: "k \<in> set (svPlayers s)" and room: "room 1 s"
  shows "handleRankingReq msg k s = Inr (s\<lparr>svDBReqQ := svDBReqQ s @
      [DBRankingQuery k (plAccountNo (theP s k)) (plNickname (theP s k))]\<rparr>)"
    "okn 1 s (handleRankingReq msg k s)"
proof -
  have f: "findPlayer k s = Some (theP s k)" using field_inv_findPlayer [OF inv] k by simp
  have g: "plCurrentFieldID (theP s k) = 0" "plSeqID (theP s k) = k"
    using field_inv_player [OF inv k] by (simp_all add: player_good_def)
  show e: "handleRankingReq msg k s = Inr (s\<lparr>svDBReqQ := svDBReqQ s @
      [DBRankingQuery k (plAccountNo (theP s k)) (plNickname (theP s k))]\<rparr>)"
    using f g enqDBReq_ok [of s] room by (simp add: handleRankingReq_def requestRankingQuery_def room_def)
  show "okn 1 s (handleRankingReq msg k s)" unfolding e
    using inv by (intro okn_Inr) (simp_all add: evolve_def)
qed

text \<open>The dispatcher: at most one job for the database for each packet.\<close>

text \<open>
  Only a \<open>MOVE_START\<close> stops the server, and only one so far from the server's position of the player that the
  account of deviations passes its limit.
\<close>

lemma fieldContentsPacketProc_far:
  assumes inv: "field_inv s" and k: "mOwnerID msg \<in> set (svPlayers s)" and ok: "packet_ok msg" and room: "room 1 s"
  shows "okf (fS 0 2 (unread msg) = MOVE_START \<and> tooFar (theP s (mOwnerID msg)) (fPos (drop 2 (unread msg)))) 1 s
    (fieldContentsPacketProc msg s)"
proof -
  define t where "t = fS 0 2 (unread msg)"
  define k m where "k = mOwnerID msg" and "m = adv 2 msg"
  define s1 where "s1 = s\<lparr>svRecvCount := (svRecvCount s)(t := svRecvCount s t + 1)\<rparr>"
  have r: "readable msg" "2 \<le> length (unread msg)" "0 \<le> t" "t < kTableSize"
    using ok by (auto simp: packet_ok_def Let_def t_def)
  have m: "readable m" "unread m = drop 2 (unread msg)" using r by (simp_all add: m_def)
  have inv1: "field_inv s1" "svPlayers s1 = svPlayers s" "room 1 s1"
    using inv room by (simp_all add: s1_def field_inv_def room_def)
  have k1: "k \<in> set (svPlayers s1)" using k inv1 by (simp add: k_def)
  have run: "fieldContentsPacketProc msg s =
      (if t = MOVE_START then handleMoveStart m k s1
       else if t = MOVE_STOP then handleMoveStop m k s1
       else if t = PLAYER_ATTACK_REQ then handleAttackReq m k s1
       else if t = LOOT_REQ then handleLootReq m k s1
       else if t = RANKING_REQ then handleRankingReq m k s1
       else Inr (disconnectSession k s1))"
    using r by (simp add: fieldContentsPacketProc_def getS_eq RecordRecv_def t_def fS_def k_def m_def s1_def)
  note b = okn_mono [OF _ zero_le_one, of _ s1]
  have p1: "theP s1 k = theP s k" by (simp add: s1_def theP_def)
  have "okf (t = MOVE_START \<and> tooFar (theP s k) (fPos (unread m))) 1 s1 (fieldContentsPacketProc msg s)"
  proof -
    consider "t = MOVE_START" | "t = MOVE_STOP" | "t = PLAYER_ATTACK_REQ" | "t = LOOT_REQ" | "t = RANKING_REQ"
      | "t \<notin> {MOVE_START, MOVE_STOP, PLAYER_ATTACK_REQ, LOOT_REQ, RANKING_REQ}" by blast
    then show ?thesis
    proof cases
      case 1
      then have "okf (tooFar (theP s1 k) (fPos (unread m))) 0 s1 (handleMoveStart m k s1)"
        using ok m r by (intro handleMoveStart_okf [OF inv1(1) k1]) (auto simp: packet_ok_def Let_def t_def)
      then show ?thesis using 1 run b p1 by simp
    next
      case 2
      then have "okn 0 s1 (handleMoveStop m k s1)"
        using ok m r by (intro handleMoveStop_okn [OF inv1(1) k1]) (auto simp: packet_ok_def Let_def t_def packet_defs)
      then show ?thesis using 2 run b okn_okf by (simp add: packet_defs)
    next
      case 3
      then have "okn 0 s1 (handleAttackReq m k s1)"
        using ok m r by (intro handleAttackReq_okn [OF inv1(1) k1]) (auto simp: packet_ok_def Let_def t_def packet_defs)
      then show ?thesis using 3 run b okn_okf by (simp add: packet_defs)
    next
      case 4
      then have "okn 0 s1 (handleLootReq m k s1)"
        using ok m r by (intro handleLootReq_okn [OF inv1(1) k1]) (auto simp: packet_ok_def Let_def t_def packet_defs)
      then show ?thesis using 4 run b okn_okf by (simp add: packet_defs)
    next
      case 5
      then show ?thesis using run okn_okf handleRankingReq_okn(2) [OF inv1(1) k1 inv1(3)] by (simp add: packet_defs)
    next
      case 6
      then show ?thesis using run inv1(1) by (simp add: okn_Inr)
    qed
  qed
  moreover have "evolve 0 s s1" by (simp add: s1_def evolve_def)
  ultimately show ?thesis unfolding t_def k_def m(2) by (rule okn_from)
qed

lemma fieldContentsPacketProc_okf:
  assumes "field_inv s" "mOwnerID msg \<in> set (svPlayers s)" "packet_ok msg" "room 1 s"
  shows "okf (fS 0 2 (unread msg) = MOVE_START) 1 s (fieldContentsPacketProc msg s)"
  using fieldContentsPacketProc_far [OF assms] by (auto simp: okf_def)

end
