(* ===== verification/FieldLoop.thy ===== *)
theory FieldLoop
  imports HandlersInv
begin

text \<open>
  The thread of a field (\<open>FieldServer::fieldThread\<close>): the monsters it starts with, the update of a
  frame, the packets of its players, the announcements of what the monsters did, the players that
  enter and leave, and the answers of the database thread. One field exists; its number is 0, that of
  the authentication thread, which shares \<open>checkDisConnectedAndLeavePlayer\<close>, is -1.
\<close>

subsection \<open>Monsters at the start\<close>

text \<open>\<open>srand(5)\<close> fixes the sequence \<open>rand()\<close> will answer, which is the parameter \<open>svRng\<close>.\<close>

definition spawnMonster :: "int \<Rightarrow> int \<Rightarrow> int \<times> server \<Rightarrow> (int \<times> server) res" where
  "spawnMonster row col acc =
     (case acc of (monsterId, s) \<Rightarrow>
      let (rx, g) = rand (svRng s);
          (ry, g) = rand g;
          pos = Position (f_of_int (col * SECTOR_WORLD_W + rx mod SECTOR_WORLD_W))
                         (f_of_int (row * SECTOR_WORLD_H + ry mod SECTOR_WORLD_H))
      in bindR (calcSector pos) (\<lambda>c.
         let m = (newMonster monsterId pos 0)\<lparr>mnSector := c, mnDestSector := c\<rparr>
         in Inr (monsterId + 1, s\<lparr>svRng := g, svMonsters := mapIns monsterId m (svMonsters s),
                                 svMonsterSectors := insSector c monsterId (svMonsterSectors s)\<rparr>)))"

definition spawnSector :: "int \<Rightarrow> int \<Rightarrow> int \<times> server \<Rightarrow> (int \<times> server) res" where
  "spawnSector row col acc =
     (case acc of (monsterId, s) \<Rightarrow>
      let (r, g) = rand (svRng s); cnt = r mod 2
      in foldR (\<lambda>i. spawnMonster row col) [0..cnt - 1] (monsterId, s\<lparr>svRng := g\<rparr>))"

definition spawnMonsters :: "server \<Rightarrow> server res" where
  "spawnMonsters s =
     bindR (foldR (\<lambda>row. foldR (spawnSector row) [0..SECTOR_COL_CNT - 1]) [0..SECTOR_ROW_CNT - 1] (0, s))
       (\<lambda>(n, s). Inr s)"

subsection \<open>The update of a frame\<close>

definition tickPlayer :: "int \<Rightarrow> int \<Rightarrow> server \<Rightarrow> server res" where
  "tickPlayer fieldIdx k s =
     derefP k s (\<lambda>p.
     bindR (Player.update p) (\<lambda>p.
     let s = putP p s in
     bindR (if plState p = PAttack \<and> plAnimFrame p = PLAYER_ATTACK_AWINDUP_FRAME
            then processPlayerAttackHit p fieldIdx s else Inr s) (\<lambda>s.
     derefP k s (\<lambda>p.
     bindR (updateSectorChechk p) (\<lambda>p.
     Inr (putP p s))))))"

definition crossPlayer :: "int \<Rightarrow> server \<Rightarrow> server res" where
  "crossPlayer k s =
     derefP k s (\<lambda>p.
     if plCurrentSector p = plDestSector p then Inr s
     else assertR (plSeqID p \<in> set (svSectors s (plCurrentSector p)))
       (bindR (calcDespawnAndSpawnSector p) (\<lambda>(spawnSector, despawnSector).
        bindR (broadcastSpawn p spawnSector s) (\<lambda>s.
        bindR (sendSpawnBatch p spawnSector s) (\<lambda>s.
        bindR (sendMonsterSpawnBatch p spawnSector s) (\<lambda>s.
        bindR (sendItemSpawnBatch p spawnSector s) (\<lambda>s.
        bindR (broadcastDespawn p despawnSector s) (\<lambda>s.
        bindR (sendDespawnBatch p despawnSector s) (\<lambda>s.
        bindR (sendMonsterDespawnBatch p despawnSector s) (\<lambda>s.
        bindR (sendItemDespawnBatch p despawnSector s) (\<lambda>s.
        Inr (putP (p\<lparr>plCurrentSector := plDestSector p\<rparr>)
              (s\<lparr>svSectors := insSector (plDestSector p) (plSeqID p)
                  (delSector (plCurrentSector p) (plSeqID p) (svSectors s))\<rparr>)))))))))))))"

definition tickMonster :: "int \<Rightarrow> server \<Rightarrow> server res" where
  "tickMonster k s =
     derefM k s (\<lambda>m.
     let m = m\<lparr>mnBeforeState := mnState m, mnBeforeDirection := mnDirection m\<rparr> in
     bindR (if mnState m = MChase
            then (case possibleChasePlayer (mnTargetPlayerID m) s of
                    None \<Rightarrow> giveUpChase m
                  | Some pos \<Rightarrow> Inr (m\<lparr>mnTargetPos := pos\<rparr>))
            else Inr m) (\<lambda>m.
     bindR (Monster.Update m (svRng s)) (\<lambda>(m, g).
     let s = putM m (s\<lparr>svRng := g\<rparr>) in
     bindR (if mnState m = MAttack \<and> mnAnimFrame m = MONSTER_ATTACK_WINDUP_FRAME
            then processMonsterAttackHit m s else Inr s) (\<lambda>s.
     bindR (updateMonsterSectorCheck m) (\<lambda>m.
     Inr (putM m s))))))"

definition crossMonster :: "int \<Rightarrow> server \<Rightarrow> server res" where
  "crossMonster k s =
     derefM k s (\<lambda>m.
     if mnBeforeState m \<noteq> MDead \<and> mnSector m \<noteq> mnDestSector m
     then assertR (mnMonsterID m \<in> set (svMonsterSectors s (mnSector m)))
       (bindR (calcMonsterDespawnAndSpawnSector m) (\<lambda>(spawnSector, despawnSector).
        bindR (broadcastMonsterSpawn m spawnSector s) (\<lambda>s.
        bindR (broadcastMonsterDespawn m despawnSector s) (\<lambda>s.
        Inr (putM (m\<lparr>mnSector := mnDestSector m\<rparr>)
              (s\<lparr>svMonsterSectors := insSector (mnDestSector m) (mnMonsterID m)
                  (delSector (mnSector m) (mnMonsterID m) (svMonsterSectors s))\<rparr>))))))
     else Inr s)"

text \<open>The loop over the items steps an iterator past each one, or to what follows an erased one.\<close>

definition tickItem :: "int \<Rightarrow> server \<Rightarrow> server res" where
  "tickItem i s =
     derefI i s (\<lambda>it.
     let it = itemUpdate it; s = putI it s in
     if IsExpired it
     then bindR (getAroundSectors (itSector it)) (\<lambda>near.
          bindR (broadcastItemDespawn it near s) (\<lambda>s.
          Inr (s\<lparr>svItemSectors := delSector (itSector it) (itItemUniqueId it) (svItemSectors s),
                 svItems := alDel i (svItems s)\<rparr>)))
     else Inr s)"

definition fieldUpdate :: "int \<Rightarrow> server \<Rightarrow> server res" where
  "fieldUpdate fieldIdx s =
     bindR (foldR (tickPlayer fieldIdx) (svPlayers s) s) (\<lambda>s.
     bindR (foldR crossPlayer (svPlayers s) s) (\<lambda>s.
     bindR (foldR tickMonster (map fst (svMonsters s)) s) (\<lambda>s.
     bindR (foldR crossMonster (map fst (svMonsters s)) s) (\<lambda>s.
     foldR tickItem (map fst (svItems s)) s))))"

subsection \<open>The packets of the players\<close>

text \<open>
  \<open>while (msg = player.DeQueueMsgOrNull())\<close>. After a packet the player's clock is set and the loop
  ends if the player is to change fields.
\<close>

partial_function (option) playerMsgs :: "int \<Rightarrow> int \<Rightarrow> int \<Rightarrow> server \<Rightarrow> server res option" where
  "playerMsgs fieldIdx startTime k s =
     (case map_of (svObjs s) k of
        None \<Rightarrow> Some (Inl UndefinedBehaviour)
      | Some p \<Rightarrow>
          (case DeQueueMsgOrNull p of
             (None, p) \<Rightarrow> Some (Inr (putP p s))
           | (Some msg, p) \<Rightarrow>
               (case fieldContentsPacketProc msg (putP p s) of
                  Inl e \<Rightarrow> Some (Inl e)
                | Inr s \<Rightarrow>
                    (case map_of (svObjs s) k of
                       None \<Rightarrow> Some (Inl UndefinedBehaviour)
                     | Some p \<Rightarrow>
                         let p = p\<lparr>plSendMsgCnt := plSendMsgCnt p - 1, plLastTime := startTime\<rparr>; s = putP p s
                         in if plNextFieldID p \<noteq> fieldIdx then Some (Inr s)
                            else playerMsgs fieldIdx startTime k s))))"

definition playerProc :: "int \<Rightarrow> int \<Rightarrow> server \<Rightarrow> server res" where
  "playerProc fieldIdx startTime s =
     foldR (\<lambda>k s.
       bindR (case playerMsgs fieldIdx startTime k s of None \<Rightarrow> Inl NoReturn | Some r \<Rightarrow> r) (\<lambda>s.
       derefP k s (\<lambda>p. if svOn s then Inr s else Inr (putP (p\<lparr>plBConnect := False\<rparr>) s)))) (svPlayers s) s"

subsection \<open>The announcements of the monsters\<close>

definition announce :: "monster \<Rightarrow> server \<Rightarrow> server res" where
  "announce m s =
     (case mnState m of
        MAttack \<Rightarrow>
          bindR (getAroundSectors (mnSector m)) (\<lambda>near.
          bindR (broadcastMonsterMoveStop m near s) (broadcastMonsterAttack m near))
      | MIdle \<Rightarrow>
          if mnBeforeState m = MDead
          then bindR (getAroundSectors (mnSector m)) (\<lambda>oldNear.
               bindR (broadcastMonsterDespawn m oldNear s) (\<lambda>s.
               bindR (if mnSector m \<noteq> mnDestSector m
                      then assertR (mnMonsterID m \<in> set (svMonsterSectors s (mnSector m)))
                        (Inr (m\<lparr>mnSector := mnDestSector m\<rparr>,
                              s\<lparr>svMonsterSectors := insSector (mnDestSector m) (mnMonsterID m)
                                  (delSector (mnSector m) (mnMonsterID m) (svMonsterSectors s))\<rparr>))
                      else Inr (m, s)) (\<lambda>(m, s).
               bindR (getAroundSectors (mnSector m)) (\<lambda>newNear.
               broadcastMonsterSpawn m newNear (putM m s)))))
          else bindR (getAroundSectors (mnSector m)) (\<lambda>near. broadcastMonsterMoveStop m near s)
      | MStun \<Rightarrow> Inr s
      | MDead \<Rightarrow> Inr s
      | _ \<Rightarrow>
          bindR (getAroundSectors (mnSector m)) (\<lambda>near.
          if mnBeforeState m \<in> {MMove, MChase, MReturn}
          then bindR (broadcastMonsterMoveStop m near s) (broadcastMonsterMoveStart m near)
          else broadcastMonsterMoveStart m near s))"

definition monsterProc :: "server \<Rightarrow> server res" where
  "monsterProc s =
     foldR (\<lambda>k s. derefM k s (\<lambda>m.
       if mnState m = mnBeforeState m \<and> mnDirection m = mnBeforeDirection m then Inr s
       else bindR (announce m s) (\<lambda>s. derefM k s (\<lambda>m.
            Inr (putM (m\<lparr>mnBeforeState := mnState m, mnBeforeDirection := mnDirection m\<rparr>) s)))))
       (map fst (svMonsters s)) s"

subsection \<open>Entering the field\<close>

text \<open>
  The body of \<open>REGISTER_PLAYER\<close> is the pointer of the player, 8 bytes that stand for its session
  number here.
\<close>

definition handleRegisterPlayer :: "int \<Rightarrow> message \<Rightarrow> server \<Rightarrow> server res" where
  "handleRegisterPlayer fieldIdx msg s =
     bindR (GetData 8 msg) (\<lambda>(bs, msg).
     derefP (decS bs) s (\<lambda>p.
     assertR (plSeqID p \<notin> set (svPlayers s))
       (let s = s\<lparr>svPlayers := svPlayers s @ [plSeqID p]\<rparr>
        in bindR (enterSector (p\<lparr>plCurrentFieldID := fieldIdx\<rparr>) s) (\<lambda>s.
           derefP (plSeqID p) s (\<lambda>p.
           bindR (getAroundSectors (plCurrentSector p)) (\<lambda>near.
           bindR (broadcastSpawn p near s) (\<lambda>s.
           bindR (sendSpawnBatch p near s) (\<lambda>s.
           bindR (sendMonsterSpawnBatch p near s) (\<lambda>s.
           sendItemSpawnBatch p near s)))))))))"

definition fieldPacketProc :: "int \<Rightarrow> message \<Rightarrow> server \<Rightarrow> server res" where
  "fieldPacketProc fieldIdx msg s =
     bindR (getS 2 msg) (\<lambda>(type, msg).
     assertR (type = REGISTER_PLAYER) (handleRegisterPlayer fieldIdx msg s))"

end
