(* ===== verification/FieldLoopInv.thy ===== *)
theory FieldLoopInv
  imports FieldLoop
begin

text \<open>
  A frame of the field keeps the invariant: the lemmas for the passes of \<open>fieldUpdate\<close>, for
  \<open>monsterProc\<close> and \<open>playerProc\<close>, and for the registration of a player.
\<close>

subsection \<open>The pass over the players\<close>

lemma updateSectorChechk_ok:
  assumes "player_good k p"
  shows "\<exists>c. sector_ok c \<and> calcSector (plPos p) = Inr c \<and>
    updateSectorChechk p = Inr (if c = plCurrentSector p then p else p\<lparr>plDestSector := c\<rparr>)"
proof -
  have "in_map (plPos p)" using assms by (simp add: player_good_def player_placed_def)
  then obtain c where "calcSector (plPos p) = Inr c" "sector_ok c" using calcSector_ok by blast
  then show ?thesis by (simp add: updateSectorChechk_def)
qed

lemma theP_putP: "plSeqID p = k \<Longrightarrow> theP (putP p s) k = p"
  by (simp add: theP_def putP_def)

lemma tickPlayer_okn:
  assumes inv: "field_inv s" and k: "k \<in> set (svPlayers s)" and room: "room 1 s"
  shows "okn 1 s (tickPlayer 0 k s)"
proof -
  note pk = field_inv_player [OF inv k]
  obtain p where p: "Player.update (theP s k) = Inr p" "player_wf p" "player_placed p" "same_place (theP s k) p"
    using player_update_ok [of "theP s k"] pk(2) by (auto simp: player_good_def)
  have g: "player_good k p" "keeps (theP s k) p"
    using p(2-4) pk(2) by (simp_all add: player_good_def same_place_def)
  note put = field_inv_putP [OF inv k g]
  define s1 where "s1 = putP p s"
  have k1: "k \<in> set (svPlayers s1)" using k by (simp add: s1_def putP_def)
  have p1: "theP s1 k = p" using g(1) by (simp add: s1_def theP_putP player_good_def)
  have room1: "room 1 s1" using room by (simp add: s1_def room_def putP_def)
  have hit: "okn 1 s1 (if plState p = PAttack \<and> plAnimFrame p = PLAYER_ATTACK_AWINDUP_FRAME
      then processPlayerAttackHit p 0 s1 else Inr s1)"
    using processPlayerAttackHit_okn [OF put(1) [folded s1_def] k1 room1] put(1) p1 by (simp add: okn_Inr s1_def)
  have "okn (1 + 0) s1 (bindR (if plState p = PAttack \<and> plAnimFrame p = PLAYER_ATTACK_AWINDUP_FRAME
      then processPlayerAttackHit p 0 s1 else Inr s1) (\<lambda>s.
      derefP k s (\<lambda>p. bindR (updateSectorChechk p) (\<lambda>p. Inr (putP p s)))))"
  proof (rule okn_bind [OF hit])
    fix s2 assume s2: "field_inv s2" "evolve 1 s1 s2"
    then have k2: "k \<in> set (svPlayers s2)" using k1 evolve_players by auto
    note q = field_inv_player [OF s2(1) k2]
    obtain c where c: "sector_ok c" "updateSectorChechk (theP s2 k) =
        Inr (if c = plCurrentSector (theP s2 k) then theP s2 k else (theP s2 k)\<lparr>plDestSector := c\<rparr>)" (is "_ = Inr ?p")
      using updateSectorChechk_ok [OF q(2)] by blast
    have "player_good k ?p" "keeps (theP s2 k) ?p"
      using q(2) c(1) by (simp_all add: player_good_def player_wf_def player_placed_def)
    from field_inv_putP [OF s2(1) k2 this]
    show "okn 0 s2 (derefP k s2 (\<lambda>p. bindR (updateSectorChechk p) (\<lambda>p. Inr (putP p s2))))"
      using c(2) q(1) by (simp add: derefP_def okn_Inr)
  qed
  moreover have "tickPlayer 0 k s = bindR (if plState p = PAttack \<and> plAnimFrame p = PLAYER_ATTACK_AWINDUP_FRAME
      then processPlayerAttackHit p 0 s1 else Inr s1) (\<lambda>s.
      derefP k s (\<lambda>p. bindR (updateSectorChechk p) (\<lambda>p. Inr (putP p s))))"
    using pk(1) p(1) by (simp add: tickPlayer_def derefP_def [of _ s] s1_def Let_def)
  ultimately have "okn 1 s1 (tickPlayer 0 k s)" by simp
  then show ?thesis by (rule okn_from) (simp add: put s1_def)
qed

text \<open>The sectors that come into sight and those that go out of it.\<close>

lemma calcDespawnAndSpawnSector_eq:
  "sector_ok (plCurrentSector p) \<Longrightarrow> sector_ok (plDestSector p) \<Longrightarrow> calcDespawnAndSpawnSector p =
    Inr (filter (\<lambda>c. c \<notin> set (aroundOf (plCurrentSector p))) (aroundOf (plDestSector p)),
         filter (\<lambda>c. c \<notin> set (aroundOf (plDestSector p))) (aroundOf (plCurrentSector p)))"
  by (simp add: calcDespawnAndSpawnSector_def getAroundSectors_eq eraseCommon_eq distinct_aroundOf)

lemma calcMonsterDespawnAndSpawnSector_eq:
  "sector_ok (mnSector m) \<Longrightarrow> sector_ok (mnDestSector m) \<Longrightarrow> calcMonsterDespawnAndSpawnSector m =
    Inr (filter (\<lambda>c. c \<notin> set (aroundOf (mnSector m))) (aroundOf (mnDestSector m)),
         filter (\<lambda>c. c \<notin> set (aroundOf (mnDestSector m))) (aroundOf (mnSector m)))"
  by (simp add: calcMonsterDespawnAndSpawnSector_def getAroundSectors_eq eraseCommon_eq distinct_aroundOf)

lemma player_moved_ok:
  assumes inv: "field_inv s" and k: "k \<in> set (svPlayers s)" and d: "sector_ok d"
  defines "s' \<equiv> putP ((theP s k)\<lparr>plCurrentSector := d\<rparr>)
      (s\<lparr>svSectors := insSector d k (delSector (plCurrentSector (theP s k)) k (svSectors s))\<rparr>)"
  shows "field_inv s'" "evolve 0 s s'"
proof -
  note pk = field_inv_player [OF inv k]
  have g: "player_good k ((theP s k)\<lparr>plCurrentSector := d\<rparr>)" "plSeqID (theP s k) = k"
    using pk(2) d by (simp_all add: player_good_def player_wf_def player_placed_def)
  have "inv_players (svObjs s) (svPlayers s) (svSectors s)" using inv by (simp add: field_inv_def)
  from inv_players_move [OF this pk(1) k g(1), of d "plCurrentSector (theP s k)"]
  show "field_inv s'" using inv g(2) by (simp add: s'_def field_inv_def putP_def)
  have "shrinks s s'"
  proof -
    have "nextField s' i = nextField s i \<and> (\<exists>j. rq s' i = drop j (rq s i))" for i
      using pk(1) g(2) by (auto simp: rq_def nextField_def s'_def putP_def intro: exI [of _ 0])
    then show ?thesis by (simp add: shrinks_def)
  qed
  then show "evolve 0 s s'" using pk(1) g(2)
    by (auto simp: s'_def evolve_def putP_def keys_alUpd_Some simp flip: set_map)
qed

lemma crossPlayer_okn:
  assumes inv: "field_inv s" and k: "k \<in> set (svPlayers s)" and room: "room 0 s"
  shows "okn 0 s (crossPlayer k s)"
proof -
  define p where "p = theP s k"
  note pk = field_inv_player [OF inv k, folded p_def]
  define sp de where "sp = filter (\<lambda>c. c \<notin> set (aroundOf (plCurrentSector p))) (aroundOf (plDestSector p))"
    and "de = filter (\<lambda>c. c \<notin> set (aroundOf (plDestSector p))) (aroundOf (plCurrentSector p))"
  have calc: "calcDespawnAndSpawnSector p = Inr (sp, de)"
    using pk(2) by (simp add: calcDespawnAndSpawnSector_eq player_good_def sp_def de_def)
  have dist: "distinct sp" "distinct de" by (simp_all add: sp_def de_def distinct_aroundOf)
  have nick: "length (plNickname p) = 20" using pk(2) by (simp add: player_good_def player_wf_def)
  have mem: "plSeqID p \<in> set (svSectors s (plCurrentSector p))"
    using inv k pk by (auto simp: field_inv_def inv_players_def player_good_def)
  have few: "length (svItems s') < 32768" if "quiet s s'" for s'
    using room quiet_frame(12) [OF that] by (simp add: room_def)
  define fin :: "server \<Rightarrow> server res" where "fin s = Inr (putP (p\<lparr>plCurrentSector := plDestSector p\<rparr>)
      (s\<lparr>svSectors := insSector (plDestSector p) (plSeqID p) (delSector (plCurrentSector p) (plSeqID p) (svSectors s))\<rparr>))"
    for s :: server
  have tell: "sends s (bindR (broadcastSpawn p sp s) (\<lambda>s. bindR (sendSpawnBatch p sp s) (\<lambda>s.
      bindR (sendMonsterSpawnBatch p sp s) (sendItemSpawnBatch p sp))))"
  proof (rule sends_bind, rule sends_broadcastSpawn [OF inv nick])
    fix s1 assume 1: "quiet s s1" "field_inv s1"
    show "sends s1 (bindR (sendSpawnBatch p sp s1) (\<lambda>s. bindR (sendMonsterSpawnBatch p sp s) (sendItemSpawnBatch p sp)))"
    proof (rule sends_bind, rule sends_sendSpawnBatch [OF 1(2) dist(1)])
      fix s2 assume 2: "quiet s1 s2" "field_inv s2"
      show "sends s2 (bindR (sendMonsterSpawnBatch p sp s2) (sendItemSpawnBatch p sp))"
      proof (rule sends_bind, rule sends_sendMonsterSpawnBatch [OF 2(2) dist(1)])
        fix s3 assume 3: "quiet s2 s3" "field_inv s3"
        have "quiet s s3" using quiet_trans 1(1) 2(1) 3(1) by blast
        then show "sends s3 (sendItemSpawnBatch p sp s3)"
          by (intro sends_sendItemSpawnBatch 3(2) dist few)
      qed
    qed
  qed
  have "okn 0 s (bindR (bindR (broadcastSpawn p sp s) (\<lambda>s. bindR (sendSpawnBatch p sp s) (\<lambda>s.
      bindR (sendMonsterSpawnBatch p sp s) (sendItemSpawnBatch p sp)))) (\<lambda>s.
      bindR (bindR (broadcastDespawn p de s) (\<lambda>s. bindR (sendDespawnBatch p de s) (\<lambda>s.
      bindR (sendMonsterDespawnBatch p de s) (sendItemDespawnBatch p de)))) fin))"
  proof (rule okn_bind0 [OF tell], rule okn_bind0)
    fix s4 assume 4: "quiet s s4" "field_inv s4"
    show "sends s4 (bindR (broadcastDespawn p de s4) (\<lambda>s. bindR (sendDespawnBatch p de s) (\<lambda>s.
      bindR (sendMonsterDespawnBatch p de s) (sendItemDespawnBatch p de))))"
      by (intro sends_bind sends_rules 4(2))
    fix s5 assume 5: "quiet s4 s5" "field_inv s5"
    have q: "quiet s s5" using quiet_trans 4(1) 5(1) by blast
    have k5: "k \<in> set (svPlayers s5)" "theP s5 k = p" "plSeqID p = k" "sector_ok (plDestSector p)"
      using k quiet_frame(10,23) [OF q] pk(2) by (simp_all add: p_def player_good_def)
    show "okn 0 s5 (fin s5)"
      using player_moved_ok [OF 5(2) k5(1,4)] k5 by (simp add: fin_def okn_Inr)
  qed
  then show ?thesis using pk(1) inv calc mem
    by (simp add: crossPlayer_def derefP_def fin_def [abs_def] bindR_assoc okn_Inr)
qed

subsection \<open>The pass over the monsters\<close>

lemma Update_rng:
  assumes "Monster.Update m g = Inr (m', g')"
  shows "\<exists>n. g' = (\<lambda>k. g (n + k))"
proof -
  define later where "later g' \<longleftrightarrow> (\<exists>n. g' = (\<lambda>k. g (n + k)))" for g'
  have l: "later g" "later (\<lambda>k. g (Suc k))" "later (\<lambda>k. g (Suc (Suc k)))"
    unfolding later_def by (rule exI [of _ 0], simp, rule exI [of _ 1], simp, rule exI [of _ 2], simp)
  have "later g'" using assms l unfolding Monster.Update_def Let_def
    by (cases "mnState m") (auto simp: Inr_iffs idleUpdate_def patrolUpdate_def rand_def Let_def split: if_splits)
  then show ?thesis by (simp add: later_def)
qed

lemma rng_fair_drop: "rng_fair g \<Longrightarrow> rng_fair (\<lambda>k. g (n + k))"
  unfolding rng_fair_def by (metis add.assoc)

lemma giveUpChase_ok:
  assumes "monster_wf m" "mnState m = MChase"
  shows "\<exists>m'. giveUpChase m = Inr m' \<and> monster_wf m'"
  using changeState_ok [OF assms(1), of MReturn] changeState_ok [OF assms(1), of MIdle] assms(2)
  by (auto simp: giveUpChase_def)

lemma updateMonsterSectorCheck_ok:
  assumes "monster_good k m"
  shows "\<exists>m'. updateMonsterSectorCheck m = Inr m' \<and> monster_good k m' \<and> mnSector m' = mnSector m"
proof -
  have "in_map (mnPos m)" using assms by (simp add: monster_good_def monster_wf_def)
  then obtain c where "calcSector (mnPos m) = Inr c" "sector_ok c" using calcSector_ok by blast
  then show ?thesis using assms by (auto simp: updateMonsterSectorCheck_def monster_good_def monster_wf_def)
qed

text \<open>Where the update of a monster starts: with the position of its prey, or without prey.\<close>

definition aimed :: "server \<Rightarrow> monster \<Rightarrow> monster res" where
  "aimed s m =
     (if mnState m = MChase
      then (case possibleChasePlayer (mnTargetPlayerID m) s of
              None \<Rightarrow> giveUpChase m | Some pos \<Rightarrow> Inr (m\<lparr>mnTargetPos := pos\<rparr>))
      else Inr m)"

lemma aimed_ok:
  assumes "monster_wf m"
  shows "\<exists>m'. aimed s m = Inr m' \<and> monster_wf m' \<and> same_home m m'"
  using assms giveUpChase_ok [OF assms] giveUpChase_home [of m]
  by (auto simp: aimed_def monster_wf_def split: option.split)

lemma tickMonster_okn:
  assumes inv: "field_inv s" and k: "map_of (svMonsters s) k \<noteq> None"
  shows "okn 0 s (tickMonster k s)"
proof -
  obtain m0 where m0: "map_of (svMonsters s) k = Some m0" using k by auto
  define m where "m = m0\<lparr>mnBeforeState := mnState m0, mnBeforeDirection := mnDirection m0\<rparr>"
  have g0: "monster_good k m0" by (rule field_inv_monster [OF inv m0])
  then have wf: "monster_wf m" by (simp add: m_def monster_good_def monster_wf_def)
  obtain m1 where m1: "aimed s m = Inr m1" "monster_wf m1" "same_home m m1" using aimed_ok [OF wf] by blast
  obtain m2 g where m2: "Monster.Update m1 (svRng s) = Inr (m2, g)" "monster_wf m2"
    using Update_tick [OF m1(2), of "svRng s"] by (auto simp: tick_ok_def)
  have home: "same_home m m2" using same_home_trans [OF m1(3) Update_home [OF m2(1)]] .
  have g2: "monster_good k m2" "mnSector m2 = mnSector m0"
    using home m2(2) g0 by (simp_all add: same_home_def m_def monster_good_def)
  have rng: "rng_fair g" using Update_rng [OF m2(1)] rng_fair_drop inv by (auto simp: field_inv_def)
  define s0 where "s0 = s\<lparr>svRng := g\<rparr>"
  have inv0: "field_inv s0" and ev0: "evolve 0 s s0" and ms0: "svMonsters s0 = svMonsters s"
    using inv rng by (simp_all add: s0_def field_inv_def evolve_def)
  have m00: "map_of (svMonsters s0) k = Some m0" using m0 ms0 by simp
  note put = field_inv_putM [OF inv0 m00 g2]
  define s1 where "s1 = putM m2 s0"
  have m1k: "map_of (svMonsters s1) k = Some m2" using g2(1) by (simp add: s1_def putM_def monster_good_def)
  obtain s2 where s2: "(if mnState m2 = MAttack \<and> mnAnimFrame m2 = MONSTER_ATTACK_WINDUP_FRAME
      then processMonsterAttackHit m2 s1 else Inr s1) = Inr s2" "field_inv s2" "evolve 0 s1 s2"
      "svMonsters s2 = svMonsters s1"
  proof (cases "mnState m2 = MAttack \<and> mnAnimFrame m2 = MONSTER_ATTACK_WINDUP_FRAME")
    case True
    then show ?thesis using processMonsterAttackHit_ok [OF put(1) [folded s1_def] g2(1)] that by auto
  next
    case False
    then show ?thesis using that [of s1] put(1) [folded s1_def] by auto
  qed
  obtain m3 where m3: "updateMonsterSectorCheck m2 = Inr m3" "monster_good k m3" "mnSector m3 = mnSector m2"
    using updateMonsterSectorCheck_ok [OF g2(1)] by blast
  have "map_of (svMonsters s2) k = Some m2" using s2(4) m1k by simp
  note put3 = field_inv_putM [OF s2(2) this m3(2,3)]
  have "evolve 0 s (putM m3 s2)"
    using evolve_0 [OF ev0 evolve_0 [OF put(2) [of 0, folded s1_def] evolve_0 [OF s2(3) put3(2)]]] .
  moreover have "tickMonster k s = Inr (putM m3 s2)"
    using m0 m1(1) m2(1) s2(1) m3(1)
    by (simp add: tickMonster_def derefM_def m_def [symmetric] aimed_def [symmetric] s0_def [symmetric]
        s1_def [symmetric])
  ultimately show ?thesis using put3(1) by (simp add: okn_Inr)
qed

lemma monster_moved_ok:
  assumes inv: "field_inv s" and m: "map_of (svMonsters s) k = Some m" and d: "sector_ok d"
  defines "s' \<equiv> putM (m\<lparr>mnSector := d\<rparr>)
      (s\<lparr>svMonsterSectors := insSector d k (delSector (mnSector m) k (svMonsterSectors s))\<rparr>)"
  shows "field_inv s'" "evolve 0 s s'"
proof -
  have g: "monster_good k (m\<lparr>mnSector := d\<rparr>)" "mnMonsterID m = k"
    using field_inv_monster [OF inv m] d by (simp_all add: monster_good_def monster_wf_def)
  have "inv_monsters (svMonsters s) (svMonsterSectors s)" using inv by (simp add: field_inv_def)
  from inv_monsters_move [OF this m g(1), of d "mnSector m"]
  show "field_inv s'" using inv g(2) by (simp add: s'_def field_inv_def putM_def)
  show "evolve 0 s s'" using m g(2) by (auto simp: s'_def evolve_def putM_def keys_alUpd_Some)
qed

lemma crossMonster_okn:
  assumes inv: "field_inv s" and k: "map_of (svMonsters s) k \<noteq> None"
  shows "okn 0 s (crossMonster k s)"
proof -
  obtain m where m: "map_of (svMonsters s) k = Some m" using k by auto
  note g = field_inv_monster [OF inv m]
  define sp de where "sp = filter (\<lambda>c. c \<notin> set (aroundOf (mnSector m))) (aroundOf (mnDestSector m))"
    and "de = filter (\<lambda>c. c \<notin> set (aroundOf (mnDestSector m))) (aroundOf (mnSector m))"
  have calc: "calcMonsterDespawnAndSpawnSector m = Inr (sp, de)"
    using g by (simp add: calcMonsterDespawnAndSpawnSector_eq monster_good_def sp_def de_def)
  have mem: "mnMonsterID m \<in> set (svMonsterSectors s (mnSector m))"
    using inv m g by (auto simp: field_inv_def inv_monsters_def monster_good_def)
  have "okn 0 s (bindR (broadcastMonsterSpawn m sp s) (\<lambda>s. bindR (broadcastMonsterDespawn m de s) (\<lambda>s.
        Inr (putM (m\<lparr>mnSector := mnDestSector m\<rparr>)
              (s\<lparr>svMonsterSectors := insSector (mnDestSector m) (mnMonsterID m)
                  (delSector (mnSector m) (mnMonsterID m) (svMonsterSectors s))\<rparr>)))))"
  proof (rule okn_bind0, rule sends_broadcastMonsterSpawn [OF inv], rule okn_bind0,
      rule sends_broadcastMonsterDespawn, assumption)
    fix s1 s2 assume q: "quiet s s1" "quiet s1 s2" and inv2: "field_inv s2"
    have m2: "map_of (svMonsters s2) k = Some m" "mnMonsterID m = k" "sector_ok (mnDestSector m)"
      using m g quiet_frame(11) [OF q(1)] quiet_frame(11) [OF q(2)] by (simp_all add: monster_good_def)
    show "okn 0 s2 (Inr (putM (m\<lparr>mnSector := mnDestSector m\<rparr>)
              (s2\<lparr>svMonsterSectors := insSector (mnDestSector m) (mnMonsterID m)
                  (delSector (mnSector m) (mnMonsterID m) (svMonsterSectors s2))\<rparr>)))"
      using monster_moved_ok [OF inv2 m2(1,3)] m2 by (simp add: okn_Inr)
  qed
  then show ?thesis using m calc mem inv by (simp add: crossMonster_def derefM_def okn_Inr)
qed

subsection \<open>The pass over the items\<close>

text \<open>
  An item lives for \<open>ITEM_DESPAWN_FRAME\<close> frames: before that a frame only counts, then it is
  announced as gone and removed.
\<close>

lemma tickItem_eq:
  assumes inv: "field_inv s" and i: "map_of (svItems s) i = Some it"
  shows "tickItem i s =
    (if itLifeFrame it < 1499 then Inr (putI (it\<lparr>itLifeFrame := itLifeFrame it + 1\<rparr>) s)
     else bindR (broadcastItemDespawn (it\<lparr>itLifeFrame := 1500\<rparr>) (aroundOf (itSector it))
            (putI (it\<lparr>itLifeFrame := 1500\<rparr>) s)) (\<lambda>s.
          Inr (s\<lparr>svItemSectors := delSector (itSector it) i (svItemSectors s), svItems := alDel i (svItems s)\<rparr>)))"
proof -
  have g: "item_good i it" using field_inv_item [OF inv i] by simp
  then have "wrap32 (itLifeFrame it + 1) = itLifeFrame it + 1" by (intro wrap32_id) (simp_all add: item_good_def)
  moreover have "itLifeFrame it = 1499" if "\<not> itLifeFrame it < 1499" using that g by (simp add: item_good_def)
  ultimately show ?thesis using i g
    by (cases "itLifeFrame it < 1499") (simp_all add: tickItem_def derefI_def itemUpdate_def IsExpired_def
        ITEM_DESPAWN_FRAME_def Let_def item_good_def getAroundSectors_eq)
qed

lemma alDel_alUpd: "alDel i (alUpd i x xs) = alDel i xs"
  by (induction xs) (auto simp: AList.delete_eq)

lemma putI_ok:
  assumes inv: "field_inv s" and i: "map_of (svItems s) i = Some it" and g: "item_good i it'" "itSector it' = itSector it"
  shows "field_inv (putI it' s)" "evolve 0 s (putI it' s)"
proof -
  have id: "itItemUniqueId it' = i" using g by (simp add: item_good_def)
  have "inv_items (svItems s) (svItemSectors s) (svItemUniqueID s)" using inv by (simp add: field_inv_def)
  from inv_items_put [OF this i g] show "field_inv (putI it' s)" using inv id by (simp add: putI_def field_inv_def)
  show "evolve 0 s (putI it' s)" using i id by (simp add: putI_def evolve_def length_alUpd_same)
qed

lemma tickItem_okn:
  assumes inv: "field_inv s" and i: "map_of (svItems s) i \<noteq> None"
  shows "okn 0 s (tickItem i s) \<and> (\<forall>s' j. tickItem i s = Inr s' \<and> j \<noteq> i \<and> map_of (svItems s) j \<noteq> None \<longrightarrow> map_of (svItems s') j \<noteq> None)"
proof -
  obtain it where it: "map_of (svItems s) i = Some it" using i by auto
  note g = field_inv_item [OF inv it]
  show ?thesis
  proof (cases "itLifeFrame it < 1499")
    case True
    have "item_good i (it\<lparr>itLifeFrame := itLifeFrame it + 1\<rparr>)" using g True by (simp add: item_good_def)
    from putI_ok [OF inv it this] show ?thesis using True
      by (auto simp: tickItem_eq [OF inv it] okn_Inr putI_def)
  next
    case False
    define it' where "it' = it\<lparr>itLifeFrame := 1500\<rparr>"
    have id: "itItemUniqueId it' = i" using g by (simp add: item_good_def it'_def)
    define s1 where "s1 = putI it' s"
    text \<open>Until it is removed the item is one frame over its life, so the items are looked at apart.\<close>
    have live: "live near s1" for near
      using field_inv_live [OF inv, of near] by (simp add: live_def s1_def putI_def)
    obtain ms where b: "broadcastItemDespawn it' (aroundOf (itSector it)) s1 = Inr (sent ITEM_DESPAWN ms s1)"
        "ms = toMembers (aroundOf (itSector it)) ITEM_DESPAWN (enc 8 i) (\<lambda>_. False) s1"
      using broadcastItemDespawn_eq [OF live] id by simp
    have ms: "\<forall>(k, m) \<in> set ms. framed k m" unfolding b(2) using toMembers_framed [of "enc 8 i"] by (auto simp del: enc.simps)
    define s2 where "s2 = sent ITEM_DESPAWN ms s\<lparr>svItemSectors := delSector (itSector it) i (svItemSectors s), svItems := alDel i (svItems s)\<rparr>"
    have inv2: "field_inv (sent ITEM_DESPAWN ms s)" by (rule sent_inv [OF inv ms])
    have "okn 0 (sent ITEM_DESPAWN ms s) (Inr s2)"
      using okn_item_gone [OF inv2, of i it False] it by (simp add: s2_def)
    then have ok: "okn 0 s (Inr s2)" by (rule okn_from) (rule quiet_evolve, rule quiet_sent)
    have del: "alDel i (alUpd i it' (svItems s)) = alDel i (svItems s)" by (rule alDel_alUpd)
    have "tickItem i s = Inr s2"
      using False b(1) id by (simp add: tickItem_eq [OF inv it] it'_def [symmetric] s1_def [symmetric] s2_def)
        (simp add: s1_def putI_def del sent_def)
    then show ?thesis using ok by (auto simp: s2_def)
  qed
qed

subsection \<open>A whole frame\<close>

lemma room_le: "room n s \<Longrightarrow> evolve 0 s s' \<Longrightarrow> room n s'"
  using room_evolve [of 0 n s s'] by simp

lemma evolve_key: "k \<in> set (map fst (svMonsters s)) \<Longrightarrow> evolve n s s' \<Longrightarrow> map_of (svMonsters s') k \<noteq> None"
  by (metis evolve_monsters in_keys_iff set_map)

lemma okn_loop0:
  assumes "field_inv s" "room 0 s"
    and "\<And>k s'. k \<in> set ks \<Longrightarrow> field_inv s' \<Longrightarrow> evolve 0 s s' \<Longrightarrow> room 0 s' \<Longrightarrow> okf b 0 s' (f k s')"
  shows "okf b 0 s (foldR f ks s)"
  using okn_loop [of s 0 ks b f] assms by simp

lemma tickItems_okn:
  "field_inv s \<Longrightarrow> distinct ks \<Longrightarrow> \<forall>i \<in> set ks. map_of (svItems s) i \<noteq> None \<Longrightarrow> okn 0 s (foldR tickItem ks s)"
proof (induction ks arbitrary: s)
  case Nil
  then show ?case by (simp add: okn_Inr)
next
  case (Cons i ks)
  note t = tickItem_okn [OF Cons.prems(1), of i]
  have ok: "okn 0 s (tickItem i s)" using t Cons.prems(3) by simp
  have "okn (0 + 0) s (bindR (tickItem i s) (foldR tickItem ks))"
  proof (rule okn_bind [OF ok])
    fix s' assume run: "tickItem i s = Inr s'" and inv': "field_inv s'"
    have "map_of (svItems s') j \<noteq> None" if "j \<in> set ks" for j
      using t run that Cons.prems(2,3) by auto
    then show "okn 0 s' (foldR tickItem ks s')" using Cons.IH [OF inv'] Cons.prems(2) by simp
  qed
  then show ?case by simp
qed

text \<open>
  A frame of \<open>n\<close> players: the update succeeds and keeps the invariant; it sends at most one job per
  player to the database and drops at most one item per player.
\<close>

lemma fieldUpdate_okn:
  assumes inv: "field_inv s" and room: "room (length (svPlayers s)) s"
  shows "okn (length (svPlayers s)) s (fieldUpdate 0 s)"
proof -
  define n where "n = length (svPlayers s)"
  have p1: "okn (1 * n) s (foldR (tickPlayer 0) (svPlayers s) s)" unfolding n_def
  proof (rule okn_loop [OF inv])
    show "room (1 * length (svPlayers s)) s" using room by simp
    fix k s' assume "k \<in> set (svPlayers s)" "field_inv s'" "evolve (1 * length (svPlayers s)) s s'" "room 1 s'"
    then show "okn 1 s' (tickPlayer 0 k s')" using evolve_players by (intro tickPlayer_okn) auto
  qed
  have "okn (1 * n + 0) s (bindR (foldR (tickPlayer 0) (svPlayers s) s) (\<lambda>s.
     bindR (foldR crossPlayer (svPlayers s) s) (\<lambda>s.
     bindR (foldR tickMonster (map fst (svMonsters s)) s) (\<lambda>s.
     bindR (foldR crossMonster (map fst (svMonsters s)) s) (\<lambda>s.
     foldR tickItem (map fst (svItems s)) s)))))"
  proof (rule okn_bind [OF p1])
    fix s1 assume 1: "field_inv s1" "evolve (1 * n) s s1"
    have r1: "room 0 s1" using room_evolve [of "1 * n" 0 s s1] room 1(2) by (simp add: n_def)
    have p2: "okn 0 s1 (foldR crossPlayer (svPlayers s1) s1)"
      using r1 by (intro okn_loop0 [OF 1(1)] crossPlayer_okn) (auto simp: evolve_players)
    have "okn (0 + 0) s1 (bindR (foldR crossPlayer (svPlayers s1) s1) (\<lambda>s.
       bindR (foldR tickMonster (map fst (svMonsters s)) s) (\<lambda>s.
       bindR (foldR crossMonster (map fst (svMonsters s)) s) (\<lambda>s.
       foldR tickItem (map fst (svItems s)) s))))"
    proof (rule okn_bind [OF p2])
      fix s2 assume 2: "field_inv s2" "evolve 0 s1 s2"
      note r2 = room_le [OF r1 2(2)]
      have p3: "okn 0 s2 (foldR tickMonster (map fst (svMonsters s2)) s2)"
        by (rule okn_loop0 [OF 2(1) r2], rule tickMonster_okn, assumption, rule evolve_key)
      have "okn (0 + 0) s2 (bindR (foldR tickMonster (map fst (svMonsters s2)) s2) (\<lambda>s.
         bindR (foldR crossMonster (map fst (svMonsters s)) s) (\<lambda>s.
         foldR tickItem (map fst (svItems s)) s)))"
      proof (rule okn_bind [OF p3])
        fix s3 assume 3: "field_inv s3" "evolve 0 s2 s3"
        note r3 = room_le [OF r2 3(2)]
        have p4: "okn 0 s3 (foldR crossMonster (map fst (svMonsters s3)) s3)"
          by (rule okn_loop0 [OF 3(1) r3], rule crossMonster_okn, assumption, rule evolve_key)
        have "okn (0 + 0) s3 (bindR (foldR crossMonster (map fst (svMonsters s3)) s3) (\<lambda>s.
           foldR tickItem (map fst (svItems s)) s))"
        proof (rule okn_bind [OF p4])
          fix s4 assume 4: "field_inv s4"
          then have "distinct (map fst (svItems s4))" by (simp add: field_inv_def inv_items_def)
          then show "okn 0 s4 (foldR tickItem (map fst (svItems s4)) s4)"
            by (intro tickItems_okn 4) (auto simp: map_of_eq_None_iff)
        qed
        then show "okn 0 s3 (bindR (foldR crossMonster (map fst (svMonsters s3)) s3) (\<lambda>s.
           foldR tickItem (map fst (svItems s)) s))" by simp
      qed
      then show "okn 0 s2 (bindR (foldR tickMonster (map fst (svMonsters s2)) s2) (\<lambda>s.
         bindR (foldR crossMonster (map fst (svMonsters s)) s) (\<lambda>s.
         foldR tickItem (map fst (svItems s)) s)))" by simp
    qed
    then show "okn 0 s1 (bindR (foldR crossPlayer (svPlayers s1) s1) (\<lambda>s.
       bindR (foldR tickMonster (map fst (svMonsters s)) s) (\<lambda>s.
       bindR (foldR crossMonster (map fst (svMonsters s)) s) (\<lambda>s.
       foldR tickItem (map fst (svItems s)) s))))" by simp
  qed
  then show ?thesis by (simp add: fieldUpdate_def n_def)
qed

subsection \<open>The announcements of the monsters\<close>

lemma announce_okn:
  assumes inv: "field_inv s" and m: "map_of (svMonsters s) k = Some m"
  shows "okn 0 s (announce m s)"
proof -
  note g = field_inv_monster [OF inv m]
  have near: "getAroundSectors (mnSector m) = Inr (aroundOf (mnSector m))"
      "getAroundSectors (mnDestSector m) = Inr (aroundOf (mnDestSector m))"
    using g by (simp_all add: getAroundSectors_eq monster_good_def)
  have id: "mnMonsterID m = k" "sector_ok (mnDestSector m)" using g by (simp_all add: monster_good_def)
  have mv: "okn 0 s (bindR (broadcastMonsterMoveStop m (aroundOf (mnSector m)) s) (broadcastMonsterMoveStart m (aroundOf (mnSector m))))"
      "okn 0 s (bindR (broadcastMonsterMoveStop m (aroundOf (mnSector m)) s) (broadcastMonsterAttack m (aroundOf (mnSector m))))"
      "okn 0 s (broadcastMonsterMoveStop m (aroundOf (mnSector m)) s)"
      "okn 0 s (broadcastMonsterMoveStart m (aroundOf (mnSector m)) s)"
    by (intro okn_sends sends_bind sends_rules inv; assumption)+
  have respawn: "okn 0 s (bindR (broadcastMonsterDespawn m (aroundOf (mnSector m)) s) (\<lambda>s.
               bindR (if mnSector m \<noteq> mnDestSector m
                      then assertR (mnMonsterID m \<in> set (svMonsterSectors s (mnSector m)))
                        (Inr (m\<lparr>mnSector := mnDestSector m\<rparr>,
                              s\<lparr>svMonsterSectors := insSector (mnDestSector m) (mnMonsterID m)
                                  (delSector (mnSector m) (mnMonsterID m) (svMonsterSectors s))\<rparr>))
                      else Inr (m, s)) (\<lambda>(m, s).
               bindR (getAroundSectors (mnSector m)) (\<lambda>newNear.
               broadcastMonsterSpawn m newNear (putM m s)))))"
  proof (rule okn_bind0, rule sends_broadcastMonsterDespawn [OF inv])
    fix s1 assume q: "quiet s s1" and inv1: "field_inv s1"
    have m1: "map_of (svMonsters s1) k = Some m" using m quiet_frame(11) [OF q] by simp
    have mem: "k \<in> set (svMonsterSectors s1 (mnSector m))"
      using inv1 m1 by (auto simp: field_inv_def inv_monsters_def)
    define s2 where "s2 = putM (m\<lparr>mnSector := mnDestSector m\<rparr>)
        (s1\<lparr>svMonsterSectors := insSector (mnDestSector m) k (delSector (mnSector m) k (svMonsterSectors s1))\<rparr>)"
    have s2: "field_inv s2" "evolve 0 s1 s2"
      using monster_moved_ok [OF inv1 m1 id(2)] by (simp_all add: s2_def)
    have "okn 0 s1 (broadcastMonsterSpawn m' (aroundOf (mnDestSector m)) s2)" for m'
      by (rule okn_from [OF okn_sends [OF sends_broadcastMonsterSpawn [OF s2(1)]] s2(2)])
    moreover have "okn 0 s1 (broadcastMonsterSpawn m (aroundOf (mnSector m)) (putM m s1))"
      using field_inv_putM [OF inv1 m1 g refl]
      by (intro okn_from [OF okn_sends [OF sends_broadcastMonsterSpawn]]) simp_all
    ultimately show "okn 0 s1 (bindR (if mnSector m \<noteq> mnDestSector m
                      then assertR (mnMonsterID m \<in> set (svMonsterSectors s1 (mnSector m)))
                        (Inr (m\<lparr>mnSector := mnDestSector m\<rparr>,
                              s1\<lparr>svMonsterSectors := insSector (mnDestSector m) (mnMonsterID m)
                                  (delSector (mnSector m) (mnMonsterID m) (svMonsterSectors s1))\<rparr>))
                      else Inr (m, s1)) (\<lambda>(m, s).
               bindR (getAroundSectors (mnSector m)) (\<lambda>newNear.
               broadcastMonsterSpawn m newNear (putM m s))))"
      using mem near id by (auto simp: s2_def)
  qed
  show ?thesis using mv respawn near inv
    by (cases "mnState m") (simp_all add: announce_def okn_Inr)
qed

lemma monsterProc_okn:
  assumes inv: "field_inv s" and room: "room 0 s"
  shows "okn 0 s (monsterProc s)"
  unfolding monsterProc_def
proof (rule okn_loop0 [OF inv room])
  fix k s1 assume k: "k \<in> set (map fst (svMonsters s))" and 1: "field_inv s1" "evolve 0 s s1"
  have "map_of (svMonsters s1) k \<noteq> None" by (rule evolve_key [OF k 1(2)])
  then obtain m where m: "map_of (svMonsters s1) k = Some m" by auto
  have "okn (0 + 0) s1 (bindR (announce m s1) (\<lambda>s. derefM k s (\<lambda>m.
            Inr (putM (m\<lparr>mnBeforeState := mnState m, mnBeforeDirection := mnDirection m\<rparr>) s))))"
  proof (rule okn_bind [OF announce_okn [OF 1(1) m]])
    fix s2 assume 2: "field_inv s2" "evolve 0 s1 s2"
    then obtain m2 where m2: "map_of (svMonsters s2) k = Some m2" using evolve_monster [OF 2(2), of k] m by auto
    have "monster_good k (m2\<lparr>mnBeforeState := mnState m2, mnBeforeDirection := mnDirection m2\<rparr>)"
      using field_inv_monster [OF 2(1) m2] by (simp add: monster_good_def monster_wf_def)
    from field_inv_putM [OF 2(1) m2 this]
    show "okn 0 s2 (derefM k s2 (\<lambda>m. Inr (putM (m\<lparr>mnBeforeState := mnState m, mnBeforeDirection := mnDirection m\<rparr>) s2)))"
      using m2 by (simp add: derefM_def okn_Inr)
  qed
  then show "okn 0 s1 (derefM k s1 (\<lambda>m.
       if mnState m = mnBeforeState m \<and> mnDirection m = mnBeforeDirection m then Inr s1
       else bindR (announce m s1) (\<lambda>s. derefM k s (\<lambda>m.
            Inr (putM (m\<lparr>mnBeforeState := mnState m, mnBeforeDirection := mnDirection m\<rparr>) s)))))"
    using m 1(1) by (simp add: derefM_def okn_Inr)
qed

subsection \<open>The packets of the players\<close>

text \<open>What may be queued; without the flag, no \<open>MOVE_START\<close>, the one packet that can stop the server.\<close>

definition queue_ok :: "bool \<Rightarrow> server \<Rightarrow> int \<Rightarrow> bool" where
  "queue_ok b s k \<longleftrightarrow> (\<forall>m \<in> set (rq s k). packet_ok m \<and> mOwnerID m \<in> set (svPlayers s) \<and>
     (b \<or> fS 0 2 (unread m) \<noteq> MOVE_START))"

lemma queue_ok_evolve: "queue_ok b s k \<Longrightarrow> evolve n s s' \<Longrightarrow> queue_ok b s' k"
  using shrinks_le [of s s' k] by (auto simp: queue_ok_def evolve_def)

lemma rq_theP: "field_inv s \<Longrightarrow> k \<in> set (svPlayers s) \<Longrightarrow> rq s k = plRecvQ (theP s k)"
  using field_inv_player [of s k] by (simp add: rq_def)

lemma rq_putP: "plSeqID p = k \<Longrightarrow> rq (putP p s) k = plRecvQ p"
  by (simp add: rq_def putP_def)

text \<open>
  The loop over one queue ends, whatever the packets do: they are at most as many as were queued.
\<close>

lemma playerMsgs_okf:
  assumes "field_inv s" "k \<in> set (svPlayers s)" "queue_ok b s k" "room (length (rq s k)) s"
  shows "\<exists>r. playerMsgs 0 t k s = Some r \<and> okf b (length (rq s k)) s r"
  using assms
proof (induction "length (rq s k)" arbitrary: s rule: less_induct)
  case less
  note inv = less.prems(1) and k = less.prems(2)
  define p where "p = theP s k"
  note pk = field_inv_player [OF inv k, folded p_def]
  have same: "okf b n s (Inr (putP p s))" for n
    using field_inv_putP [OF inv k pk(2)] by (intro okn_Inr) (simp_all add: p_def)
  show ?case
  proof (cases "plBConnect p \<and> plRecvQ p \<noteq> []")
    case False
    then have "DeQueueMsgOrNull p = (None, p)" by (auto simp: DeQueueMsgOrNull_def split: list.split)
    then show ?thesis using pk(1) same by (subst playerMsgs.simps) simp
  next
    case True
    then obtain m q where q: "plRecvQ p = m # q" by (cases "plRecvQ p") auto
    define p1 where "p1 = p\<lparr>plRecvQ := q\<rparr>"
    have deq: "DeQueueMsgOrNull p = (Some m, p1)" using True q by (simp add: DeQueueMsgOrNull_def p1_def)
    have rqs: "rq s k = m # q" using rq_theP [OF inv k] q by (simp add: p_def)
    have g1: "player_good k p1" using pk(2) q by (simp add: p1_def player_good_def player_wf_def player_placed_def)
    have keep: "keeps p p1" using q by (auto simp: keeps_def p1_def intro: exI [of _ 1])
    note put = field_inv_putP [OF inv k g1 keep [unfolded p_def]]
    define s1 where "s1 = putP p1 s"
    have pl1: "svPlayers s1 = svPlayers s" by (simp add: s1_def putP_def)
    have rq1: "rq s1 k = q" using g1 by (simp add: s1_def rq_putP player_good_def) (simp add: p1_def)
    have m: "packet_ok m" "mOwnerID m \<in> set (svPlayers s1)" "b \<or> fS 0 2 (unread m) \<noteq> MOVE_START"
      using less.prems(3) rqs pl1 by (simp_all add: queue_ok_def)
    have room1: "room (1 + length q) s1" using less.prems(4) rqs by (simp add: room_def s1_def putP_def)
    have step: "okf b 1 s1 (fieldContentsPacketProc m s1)"
      using fieldContentsPacketProc_okf [OF put(1) [folded s1_def] m(2,1) room_mono [OF room1]] m(3) by (auto simp: okf_def)
    have run: "playerMsgs 0 t k s = (case fieldContentsPacketProc m s1 of Inl e \<Rightarrow> Some (Inl e)
        | Inr s \<Rightarrow> (case map_of (svObjs s) k of None \<Rightarrow> Some (Inl UndefinedBehaviour)
                    | Some p \<Rightarrow> let p = p\<lparr>plSendMsgCnt := plSendMsgCnt p - 1, plLastTime := t\<rparr>; s = putP p s
                        in if plNextFieldID p \<noteq> 0 then Some (Inr s) else playerMsgs 0 t k s))"
      using pk(1) deq by (subst playerMsgs.simps) (simp add: s1_def)
    show ?thesis
    proof (cases "fieldContentsPacketProc m s1")
      case (Inl e)
      then show ?thesis using run step by (auto simp: okf_def)
    next
      case (Inr s2)
      then have 2: "field_inv s2" "evolve 1 s1 s2" using step by (auto simp: okf_def)
      have k2: "k \<in> set (svPlayers s2)" using k pl1 evolve_players [OF 2(2)] by simp
      note pk2 = field_inv_player [OF 2(1) k2]
      define p3 where "p3 = (theP s2 k)\<lparr>plSendMsgCnt := plSendMsgCnt (theP s2 k) - 1, plLastTime := t\<rparr>"
      have g3: "player_good k p3" "keeps (theP s2 k) p3"
        using pk2(2) by (simp_all add: p3_def player_good_def player_wf_def player_placed_def)
      note put3 = field_inv_putP [OF 2(1) k2 g3]
      define s3 where "s3 = putP p3 s2"
      have ev: "evolve 1 s s3"
        using evolve_0 [OF put(2) [of 0, folded s1_def] evolve_trans [OF 2(2) put3(2) [of 0, folded s3_def]]] by simp
      have rq3: "rq s3 k = rq s2 k"
        using g3(1) rq_theP [OF 2(1) k2] by (simp add: s3_def rq_putP player_good_def) (simp add: p3_def)
      have len: "length (rq s3 k) \<le> length q"
        using shrinks_le [of s1 s2 k] 2(2) rq1 rq3 by (simp add: evolve_def)
      have k3: "k \<in> set (svPlayers s3)" using k evolve_players [OF ev] by simp
      have room3: "room (length (rq s3 k)) s3"
        using room_evolve [of 1 "length q" s s3] less.prems(4) ev rqs room_mono [OF _ len] by simp
      obtain r where r: "playerMsgs 0 t k s3 = Some r" "okf b (length (rq s3 k)) s3 r"
        using less.hyps [of s3] len rqs put3(1) k3 queue_ok_evolve [OF less.prems(3) ev] room3
        by (auto simp: s3_def)
      have "okf b (1 + length q) s r"
        using r(2) ev evolve_trans [OF ev] evolve_mono [OF _ len] len
        by (auto simp: okf_def intro: evolve_mono)
      moreover have "okf b (1 + length q) s (Inr s3)"
        using put3(1) evolve_mono [OF ev] by (intro okn_Inr) (simp_all add: s3_def)
      moreover have "playerMsgs 0 t k s = (if plNextFieldID p3 \<noteq> 0 then Some (Inr s3) else Some r)"
        using run Inr pk2(1) r(1) by (simp add: p3_def [symmetric] s3_def [symmetric] Let_def)
      ultimately show ?thesis using rqs by auto
    qed
  qed
qed

definition queued :: "server \<Rightarrow> int list \<Rightarrow> nat" where
  "queued s ks = sum_list (map (\<lambda>k. length (rq s k)) ks)"

lemma queued_evolve: "evolve n s s' \<Longrightarrow> queued s' ks \<le> queued s ks"
  unfolding queued_def by (intro sum_list_mono) (auto simp: evolve_def dest: shrinks_le)

lemma playerProc_okf:
  assumes inv: "field_inv s" and q: "\<forall>k \<in> set (svPlayers s). queue_ok b s k"
    and room: "room (queued s (svPlayers s)) s"
  shows "okf b (queued s (svPlayers s)) s (playerProc 0 t s)"
proof -
  define body where "body k s = bindR (case playerMsgs 0 t k s of None \<Rightarrow> Inl NoReturn | Some r \<Rightarrow> r) (\<lambda>s.
       derefP k s (\<lambda>p. if svOn s then Inr s else Inr (putP (p\<lparr>plBConnect := False\<rparr>) s)))" for k s
  have body: "okf b (length (rq s k)) s (body k s)"
    if inv: "field_inv s" and k: "k \<in> set (svPlayers s)" and qk: "queue_ok b s k" and rk: "room (length (rq s k)) s" for s k
  proof -
    obtain r where r: "playerMsgs 0 t k s = Some r" "okf b (length (rq s k)) s r"
      using playerMsgs_okf [OF inv k qk rk] by blast
    have "okf b (length (rq s k) + 0) s (bindR r (\<lambda>s.
       derefP k s (\<lambda>p. if svOn s then Inr s else Inr (putP (p\<lparr>plBConnect := False\<rparr>) s))))"
    proof (rule okn_bind [OF r(2)])
      fix s' assume s': "field_inv s'" "evolve (length (rq s k)) s s'"
      then have k': "k \<in> set (svPlayers s')" using k evolve_players by auto
      note pk = field_inv_player [OF s'(1) k']
      have "player_good k ((theP s' k)\<lparr>plBConnect := False\<rparr>)"
        using pk(2) by (simp add: player_good_def player_wf_def player_placed_def)
      from field_inv_putP [OF s'(1) k' this]
      show "okf b 0 s' (derefP k s' (\<lambda>p. if svOn s' then Inr s' else Inr (putP (p\<lparr>plBConnect := False\<rparr>) s')))"
        using pk(1) s'(1) by (simp add: derefP_def okn_Inr)
    qed
    then show ?thesis using r(1) by (simp add: body_def)
  qed
  have "okf b (queued s ks) s (foldR body ks s)"
    if "field_inv s" "set ks \<subseteq> set (svPlayers s)" "\<forall>k \<in> set ks. queue_ok b s k" "room (queued s ks) s" for s ks
    using that
  proof (induction ks arbitrary: s)
    case Nil
    then show ?case by (simp add: okn_Inr)
  next
    case (Cons k ks)
    have sum: "queued s (k # ks) = length (rq s k) + queued s ks" by (simp add: queued_def)
    have step: "okf b (length (rq s k)) s (body k s)"
      using Cons.prems room_mono [OF Cons.prems(4), of "length (rq s k)"] sum by (intro body) auto
    have "okf b (length (rq s k) + queued s ks) s (bindR (body k s) (foldR body ks))"
    proof (rule okn_bind [OF step])
      fix s' assume s': "field_inv s'" "evolve (length (rq s k)) s s'"
      note le = queued_evolve [OF s'(2), of ks]
      have "room (queued s ks) s'" using room_evolve [OF _ s'(2)] Cons.prems(4) sum by simp
      then have "okf b (queued s' ks) s' (foldR body ks s')"
        using Cons.prems s' queue_ok_evolve [OF _ s'(2)] evolve_players [OF s'(2)] room_mono [OF _ le]
        by (intro Cons.IH) auto
      then show "okf b (queued s ks) s' (foldR body ks s')" using le by (rule okn_mono)
    qed
    then show ?case using sum by simp
  qed
  from this [OF inv order_refl q room] show ?thesis
    by (simp add: playerProc_def body_def [abs_def])
qed

subsection \<open>A player enters\<close>

lemma others_insSector:
  "filter (\<lambda>i. i \<noteq> k) (members (insSector c k grid) near) = filter (\<lambda>i. i \<noteq> k) (members grid near)"
  by (induction near) (simp_all add: members_def insSector_def setIns_def)

lemma others_absent: "inv_players objs ks grid \<Longrightarrow> k \<notin> set ks \<Longrightarrow>
    filter (\<lambda>i. i \<noteq> k) (members grid near) = members grid near"
  using members_players by (auto simp: filter_id_conv)

text \<open>What a player that enters sector \<open>c\<close> of the field \<open>s\<close> makes known, and gets to know.\<close>

definition registered :: "player \<Rightarrow> sector \<Rightarrow> server \<Rightarrow> (int \<times> message) list" where
  "registered q c s =
     toMembers (aroundOf c) OTHER_CHARACTER_SPAWN (spawnBody q) (\<lambda>_. False) s @
     batchPackets (svNow s) (plSeqID q) OTHER_CHARACTER_SPAWN_BATCH (chunksOf 127
       (map (\<lambda>i. spawnFields (theP s i)) (members (svSectors s) (aroundOf c)))) @
     batchPackets (svNow s) (plSeqID q) MONSTER_SPAWN_BATCH (chunksOf 221
       (map (\<lambda>i. monsterFields (the (map_of (svMonsters s) i))) (members (svMonsterSectors s) (aroundOf c)))) @
     batchPackets (svNow s) (plSeqID q) ITEM_SPAWN_BATCH (chunksOf 352
       (map (\<lambda>i. itemFields (the (map_of (svItems s) i))) (members (svItemSectors s) (aroundOf c))))"

lemma register_tell:
  assumes inv: "field_inv s" and g: "player_good k q" "k \<in> set (svPlayers s)" and room: "room 0 s"
    and same: "svNow s0 = svNow s" "svMonsters s0 = svMonsters s" "svMonsterSectors s0 = svMonsterSectors s"
      "svItems s0 = svItems s" "svItemSectors s0 = svItemSectors s"
      "filter (\<lambda>i. i \<noteq> k) (members (svSectors s) (aroundOf c)) = members (svSectors s0) (aroundOf c)"
      "\<And>i. i \<noteq> k \<Longrightarrow> theP s i = theP s0 i"
  shows "\<exists>s'. bindR (broadcastSpawn q (aroundOf c) s) (\<lambda>s. bindR (sendSpawnBatch q (aroundOf c) s) (\<lambda>s.
      bindR (sendMonsterSpawnBatch q (aroundOf c) s) (sendItemSpawnBatch q (aroundOf c)))) = Inr s' \<and>
    field_inv s' \<and> quiet s s' \<and> svOut s' = svOut s @ registered q c s0"
proof -
  have q: "plSeqID q = k" "length (plNickname q) = 20" using g(1) by (simp_all add: player_good_def player_wf_def)
  define s1 where "s1 = sent OTHER_CHARACTER_SPAWN
      (toMembers (aroundOf c) OTHER_CHARACTER_SPAWN (spawnBody q) (\<lambda>i. i = k) s) s"
  have 1: "broadcastSpawn q (aroundOf c) s = Inr s1"
    using broadcastSpawn_eq [OF field_inv_live [OF inv] q(2)] q(1) by (simp add: s1_def)
  have i1: "field_inv s1" "quiet s s1" using sendsE [OF sends_broadcastSpawn [OF inv q(2), of "aroundOf c"]] 1 by auto
  note d = distinct_aroundOf [of c]
  have ip: "inv_players (svObjs s1) (svPlayers s1) (svSectors s1)" using i1 by (simp add: field_inv_def)
  have nick: "\<forall>i \<in> set (members (svSectors s1) (aroundOf c)). length (plNickname (theP s1 i)) = 20"
    using inv_player [OF ip members_players [OF ip]] by (auto simp: player_good_def player_wf_def)
  obtain s2 where 2: "sendSpawnBatch q (aroundOf c) s1 = Inr s2" "quiet s1 s2" "field_inv s2"
    by (rule sendsE [OF sends_sendSpawnBatch [OF i1(1) d]])
  obtain s3 where 3: "sendMonsterSpawnBatch q (aroundOf c) s2 = Inr s3" "quiet s2 s3" "field_inv s3"
    by (rule sendsE [OF sends_sendMonsterSpawnBatch [OF 2(3) d]])
  have qs: "quiet s s2" "quiet s s3" using quiet_trans i1(2) 2(2) 3(2) by blast+
  have few: "length (svItems s3) < 32768" using room quiet_frame(12) [OF qs(2)] by (simp add: room_def)
  obtain s4 where 4: "sendItemSpawnBatch q (aroundOf c) s3 = Inr s4" "quiet s3 s4" "field_inv s4"
    by (rule sendsE [OF sends_sendItemSpawnBatch [OF 3(3) d few]])
  have o1: "svOut s1 = svOut s @ toMembers (aroundOf c) OTHER_CHARACTER_SPAWN (spawnBody q) (\<lambda>_. False) s0"
    using same(1,6) by (simp add: s1_def toMembers_def)
  have "map (\<lambda>i. spawnFields (theP s1 i)) (filter (\<lambda>i. i \<noteq> k) (members (svSectors s1) (aroundOf c))) =
      map (\<lambda>i. spawnFields (theP s0 i)) (members (svSectors s0) (aroundOf c))"
    using same(6,7) quiet_frame(13,23) [OF i1(2)] by (auto simp flip: same(6))
  then have o2: "svOut s2 = svOut s1 @ batchPackets (svNow s0) k OTHER_CHARACTER_SPAWN_BATCH (chunksOf 127
       (map (\<lambda>i. spawnFields (theP s0 i)) (members (svSectors s0) (aroundOf c))))"
    using sendSpawnBatch_eq [OF field_inv_live [OF i1(1)] nick players_members(2) [OF ip d], of q] 2(1) q(1)
      quiet_frame(1) [OF i1(2)] same(1) by auto
  have "length (members (svMonsterSectors s2) (aroundOf c)) < 32768"
    using monsters_members(2) [OF _ d] 2(3) by (auto simp: field_inv_def)
  then have o3: "svOut s3 = svOut s2 @ batchPackets (svNow s0) k MONSTER_SPAWN_BATCH (chunksOf 221
       (map (\<lambda>i. monsterFields (the (map_of (svMonsters s0) i))) (members (svMonsterSectors s0) (aroundOf c))))"
    using sendMonsterSpawnBatch_eq [OF field_inv_liveM [OF 2(3)], of "aroundOf c" q] 3(1) q(1)
      quiet_frame(1,11,14) [OF qs(1)] same by auto
  have "length (members (svItemSectors s3) (aroundOf c)) < 32768"
    using items_members(2) [OF _ d, of "svItems s3" "svItemSectors s3"] 3(3) few by (fastforce simp: field_inv_def)
  then have o4: "svOut s4 = svOut s3 @ batchPackets (svNow s0) k ITEM_SPAWN_BATCH (chunksOf 352
       (map (\<lambda>i. itemFields (the (map_of (svItems s0) i))) (members (svItemSectors s0) (aroundOf c))))"
    using sendItemSpawnBatch_eq [OF field_inv_liveI [OF 3(3)], of "aroundOf c" q] 4(1) q(1)
      quiet_frame(1,12,15) [OF qs(2)] same by auto
  have "quiet s s4" using quiet_trans [OF qs(2) 4(2)] .
  then show ?thesis using 1 2(1) 3(1) 4(1,3) o1 o2 o3 o4 q(1) by (simp add: registered_def)
qed

lemma handleRegister_ok:
  assumes inv: "field_inv s" and msg: "readable msg" "8 \<le> length (unread msg)" "fS 0 8 (unread msg) = k"
    and p: "map_of (svObjs s) k = Some p" "player_good k (p\<lparr>plCurrentFieldID := 0\<rparr>)"
    and new: "k \<notin> set (svPlayers s)" and few: "length (svPlayers s) < 32767" and room: "room 0 s"
  shows "\<exists>s' c q. handleRegisterPlayer 0 msg s = Inr s' \<and> field_inv s' \<and> calcSector (plPos p) = Inr c \<and>
    svPlayers s' = svPlayers s @ [k] \<and> q = p\<lparr>plCurrentFieldID := 0, plDestSector := c, plCurrentSector := c\<rparr> \<and>
    theP s' k = q \<and> (\<forall>d. k \<in> set (svSectors s' d) \<longleftrightarrow> d = c) \<and> svOut s' = svOut s @ registered q c s \<and>
    quiet (putP q (s\<lparr>svPlayers := svPlayers s @ [k], svSectors := insSector c k (svSectors s)\<rparr>)) s'"
proof -
  have "in_map (plPos p)" using p(2) by (simp add: player_good_def player_placed_def)
  then obtain c where c: "calcSector (plPos p) = Inr c" "sector_ok c" using calcSector_ok by blast
  define q where "q = p\<lparr>plCurrentFieldID := 0, plDestSector := c, plCurrentSector := c\<rparr>"
  have q: "player_good k q" "plSeqID p = k" "plSeqID q = k" "plCurrentSector q = c"
    using p(2) c(2) by (simp_all add: q_def player_good_def player_wf_def player_placed_def)
  have ip: "inv_players (svObjs s) (svPlayers s) (svSectors s)" using inv by (simp add: field_inv_def)
  have absent: "k \<notin> set (svSectors s d)" for d using ip new by (auto simp: inv_players_def)
  define s1 where "s1 = putP q (s\<lparr>svPlayers := svPlayers s @ [k], svSectors := insSector c k (svSectors s)\<rparr>)"
  have inv1: "field_inv s1"
    using inv inv_players_add [OF ip new few q(1,4)] q(3) by (simp add: s1_def putP_def field_inv_def)
  have k1: "k \<in> set (svPlayers s1)" "map_of (svObjs s1) k = Some q"
    using q(3) by (simp_all add: s1_def putP_def)
  have room1: "room 0 s1" using room by (simp add: s1_def putP_def room_def)
  have mem: "filter (\<lambda>i. i \<noteq> k) (members (svSectors s1) (aroundOf c)) = members (svSectors s) (aroundOf c)"
    using others_absent [OF ip new] by (simp add: s1_def putP_def others_insSector)
  have oth: "theP s1 i = theP s i" if "i \<noteq> k" for i
    using that q(3) by (simp add: s1_def putP_def theP_def)
  obtain s' where s': "bindR (broadcastSpawn q (aroundOf c) s1) (\<lambda>s. bindR (sendSpawnBatch q (aroundOf c) s) (\<lambda>s.
      bindR (sendMonsterSpawnBatch q (aroundOf c) s) (sendItemSpawnBatch q (aroundOf c)))) = Inr s'"
      "field_inv s'" "quiet s1 s'" "svOut s' = svOut s1 @ registered q c s"
    using register_tell [OF inv1 q(1) k1(1) room1 _ _ _ _ _ mem oth] by (auto simp: s1_def putP_def)
  have "handleRegisterPlayer 0 msg s = Inr s'"
    using msg p(1) new q c s'(1) k1(2) absent unfolding fS_def
    by (simp add: handleRegisterPlayer_def getVal_GetData [symmetric] getVal_eq derefP_def enterSector_def
        getAroundSectors_eq q_def [symmetric] s1_def [symmetric])
  moreover have "svPlayers s' = svPlayers s @ [k]" "theP s' k = q"
    "k \<in> set (svSectors s' d) \<longleftrightarrow> d = c" "svOut s1 = svOut s" for d
    using quiet_frame(10,13,23) [OF s'(3)] k1 absent
    by (simp_all add: s1_def putP_def theP_def set_insSector)
  ultimately show ?thesis using s' c(1) by (intro exI [of _ s'] exI [of _ c] exI [of _ q]) (simp add: q_def s1_def)
qed

end
