(* ===== verification/SpawnInv.thy ===== *)
theory SpawnInv
  imports FieldLoopInv
begin

text \<open>
  The start of the field thread: \<open>spawnMonsters\<close> puts at most one monster into every sector of the map,
  numbers them in order and leaves the invariant of the field established.
\<close>

text \<open>Small integers are exact, and in their order.\<close>

lemma f_of_int_small:
  assumes "0 \<le> n" "n < 16777216"
  shows "f_of_int n = signed_bits False (pack n 0)" "0 \<le> pack n 0" "pack n 0 \<le> 2139095040"
proof -
  have "bitlenI n \<le> 24"
  proof (cases "n = 0")
    case True
    then show ?thesis by (simp add: bitlenI.simps)
  next
    case False
    then show ?thesis using assms by (intro bitlenI_le) simp_all
  qed
  then show "f_of_int n = signed_bits False (pack n 0)"
    using assms by (simp add: f_of_int_def f_round_def roundM_def round_shift_def Let_def)
  show "0 \<le> pack n 0" "pack n 0 \<le> 2139095040" using pack_nonneg [of 0 n] pack_le_inf by simp_all
qed

lemma pack_0_mono:
  assumes "0 \<le> a" "a \<le> b" "b < 16777216"
  shows "pack a 0 \<le> pack b 0"
proof (cases "a = 0")
  case True
  then show ?thesis using pack_nonneg [of 0 b] by (simp add: pack_def)
next
  case False
  then have a: "0 < a" "0 < b" using assms by simp_all
  define x y where "x = bitlenI a" and "y = bitlenI b"
  have x: "0 < x" "pow2 (x - 1) \<le> a" "a < pow2 x" "x \<le> 24"
    using bitlenI_bounds [OF a(1)] bitlenI_le [of a 24] a assms by (simp_all add: x_def)
  have y: "0 < y" "pow2 (y - 1) \<le> b" "b < pow2 y" "y \<le> 24"
    using bitlenI_bounds [OF a(2)] bitlenI_le [of b 24] a assms by (simp_all add: y_def)
  have "pow2 (x - 1) < pow2 y" using x(2) y(3) assms(2) by linarith
  then have xy: "x \<le> y" using pow2_less_iff [of "x - 1" y] x(1) y(1) by simp
  define A B where "A = (149 - (24 - x)) * 8388608 + a * pow2 (24 - x)"
    and "B = (149 - (24 - y)) * 8388608 + b * pow2 (24 - y)"
  have pk: "pack a 0 = min A 2139095040" "pack b 0 = min B 2139095040"
    using a x y by (simp_all add: pack_def Let_def A_def B_def x_def y_def min_def max_def)
  have "A \<le> B"
  proof (cases "x = y")
    case True
    then show ?thesis using assms(2) by (simp add: A_def B_def mult_right_mono)
  next
    case False
    then have lt: "x + 1 \<le> y" using xy by simp
    have "a * pow2 (24 - x) \<le> pow2 x * pow2 (24 - x)" using x(3) by (intro mult_right_mono) simp_all
    also have "\<dots> = pow2 24" using x by (subst pow2_add [symmetric]) simp_all
    finally have 1: "a * pow2 (24 - x) \<le> 16777216" by simp
    have "pow2 23 = pow2 (y - 1) * pow2 (24 - y)" using y by (subst pow2_add [symmetric]) simp_all
    also have "\<dots> \<le> b * pow2 (24 - y)" using y(2) by (intro mult_right_mono) simp_all
    finally have 2: "8388608 \<le> b * pow2 (24 - y)" by simp
    show ?thesis using 1 2 lt by (simp add: A_def B_def)
  qed
  then show ?thesis by (simp add: pk)
qed

lemma f_of_int_between:
  assumes "0 \<le> a" "a \<le> b" "b < 16777216"
  shows "f_le (f_lit 0 1) (f_of_int a)" "f_le (f_of_int a) (f_of_int b)"
proof -
  have k: "key (f_of_int n) = pack n 0 \<and> \<not> f_nan (f_of_int n)" if "0 \<le> n" "n < 16777216" for n
    using f_of_int_small [OF that] by (simp add: key_def f_mag_signed_bits f_sign_signed_bits f_nan_signed_bits)
  have z: "\<not> f_nan (f_lit 0 1)" using map_facts(1) by (auto simp: f_le_def)
  show "f_le (f_lit 0 1) (f_of_int a)"
    using k [of a] assms z map_facts(5) f_of_int_small(2) [of a] by (simp add: f_le_def)
  show "f_le (f_of_int a) (f_of_int b)"
    using k [of a] k [of b] assms pack_0_mono by (simp add: f_le_def)
qed

lemma spawnPos_in_map:
  assumes "0 \<le> col" "col < 20" "0 \<le> row" "row < 20"
  shows "in_map (Position (f_of_int (col * SECTOR_WORLD_W + x mod SECTOR_WORLD_W))
                          (f_of_int (row * SECTOR_WORLD_H + y mod SECTOR_WORLD_H)))"
proof -
  have x: "0 \<le> x mod 320" "x mod 320 < 320" "0 \<le> y mod 235" "y mod 235 < 235" by simp_all
  have b: "0 \<le> col * 320 + x mod 320" "col * 320 + x mod 320 \<le> 6400"
    "0 \<le> row * 235 + y mod 235" "row * 235 + y mod 235 \<le> 4700" using assms x by (simp, linarith, simp, linarith)
  then show ?thesis
    using f_of_int_between [of "col * 320 + x mod 320" 6400] f_of_int_between [of "row * 235 + y mod 235" 4700]
    by (simp add: in_map_def SECTOR_WORLD_W_def SECTOR_WORLD_H_def MAP_W_def MAP_H_def SECTOR_COL_CNT_def SECTOR_ROW_CNT_def)
qed

lemma bitlenI_eq: "0 < n \<Longrightarrow> 0 < k \<Longrightarrow> pow2 (k - 1) \<le> n \<Longrightarrow> n < pow2 k \<Longrightarrow> bitlenI n = k"
proof -
  assume n: "0 < n" "0 < k" "pow2 (k - 1) \<le> n" "n < pow2 k"
  note b = bitlenI_bounds [OF n(1)]
  have "pow2 (k - 1) < pow2 (bitlenI n)" "pow2 (bitlenI n - 1) < pow2 k" using b n by linarith+
  then show "bitlenI n = k" using b n(2) pow2_less_iff [of "k - 1" "bitlenI n"] pow2_less_iff [of "bitlenI n - 1" k] by simp
qed

lemma frac_fields: "0 \<le> r \<Longrightarrow> r < 8388608 \<Longrightarrow> (c * 8388608 + r) div 8388608 = (c :: int) \<and> (c * 8388608 + r) mod 8388608 = r"
  by simp

text \<open>The fields of a small positive integer.\<close>

lemma f_of_int_fields:
  assumes "0 < n" "n < 16777216"
  defines "L \<equiv> 24 - bitlenI n"
  shows "0 \<le> L" "L \<le> 23" "8388608 \<le> n * pow2 L" "n * pow2 L < 16777216" "mant (f_of_int n) = n * pow2 L" "expo (f_of_int n) = - L"
    "f_fin (f_of_int n)" "0 < f_mag (f_of_int n)" "\<not> f_sign (f_of_int n)"
proof -
  note b = bitlenI_bounds [OF assms(1)]
  have l24: "bitlenI n \<le> 24" using assms by (intro bitlenI_le) simp_all
  then show L: "0 \<le> L" "L \<le> 23" using b by (simp_all add: L_def)
  have "pow2 (bitlenI n - 1) * pow2 L \<le> n * pow2 L" "n * pow2 L < pow2 (bitlenI n) * pow2 L"
    using b by (intro mult_right_mono, simp_all)
  moreover have "pow2 (bitlenI n - 1) * pow2 L = pow2 23" "pow2 (bitlenI n) * pow2 L = pow2 24"
    using b L by (simp_all add: L_def flip: pow2_add)
  ultimately show v: "8388608 \<le> n * pow2 L" "n * pow2 L < 16777216" by simp_all
  define r where "r = n * pow2 L - 8388608"
  have r: "0 \<le> r" "r < 8388608" using v by (simp_all add: r_def)
  have p: "pack n 0 = (150 - L) * 8388608 + r"
  proof -
    have "(150 - L) * 8388608 + r \<le> 2139095040" using r L by simp
    then show ?thesis using assms(1) L l24 by (simp add: pack_def Let_def L_def [symmetric] r_def algebra_simps)
  qed
  have big: "8388608 \<le> pack n 0" "pack n 0 < 2139095040" using p r L by simp_all
  have m: "f_mag (f_of_int n) = pack n 0" "\<not> f_sign (f_of_int n)"
    using f_of_int_small [of n] assms(1,2) by (simp_all add: f_mag_signed_bits f_sign_signed_bits)
  have "pack n 0 div 8388608 = 150 - L" "pack n 0 mod 8388608 = r" using frac_fields [OF r, of "150 - L"] unfolding p by blast+
  then show "mant (f_of_int n) = n * pow2 L" "expo (f_of_int n) = - L"
    using big by (simp_all add: m mantM_def expoM_def r_def)
  show "f_fin (f_of_int n)" "0 < f_mag (f_of_int n)" "\<not> f_sign (f_of_int n)" using big by (simp_all add: m f_fin_def)
qed

lemma trunc_pack:
  assumes q: "8388608 \<le> q" "q \<le> 16777216" and s: "1 \<le> s" "s \<le> 100"
  shows "f_trunc (signed_bits False (pack q (- s))) = q div pow2 s" "f_fin (signed_bits False (pack q (- s)))"
proof -
  define v where "v = (149 - s) * 8388608 + q"
  have "24 \<le> bitlenI q"
  proof (cases "q = 16777216")
    case True
    then have "bitlenI q = 25" by (intro bitlenI_eq) simp_all
    then show ?thesis by simp
  next
    case False
    then have "bitlenI q = 24" using q by (intro bitlenI_eq) simp_all
    then show ?thesis by simp
  qed
  then have p: "pack q (- s) = v" using q s by (simp add: pack_def Let_def v_def)
  have v: "8388608 \<le> v" "v < 2139095040" using q s by (simp_all add: v_def)
  have mag: "f_mag (signed_bits False v) = v" "\<not> f_sign (signed_bits False v)" using v by (simp_all add: f_mag_signed_bits f_sign_signed_bits)
  show "f_fin (signed_bits False (pack q (- s)))" using v by (simp add: p f_fin_def mag)
  show "f_trunc (signed_bits False (pack q (- s))) = q div pow2 s"
  proof (cases "q = 16777216")
    case True
    then have "v = (151 - s) * 8388608" by (simp add: v_def)
    then have e: "mantM v = 8388608" "expoM v = 1 - s" using v by (simp_all add: mantM_def expoM_def)
    have "pow2 s = 2 * pow2 (s - 1)" using pow2_add [of 1 "s - 1"] s by simp
    then have "q div pow2 s = 8388608 div pow2 (s - 1)" using True by simp
    then show ?thesis using s by (simp add: p f_trunc_def mag e)
  next
    case False
    define r where "r = q - 8388608"
    have r: "0 \<le> r" "r < 8388608" "v = (150 - s) * 8388608 + r" using q False by (simp_all add: r_def v_def)
    have "v mod 8388608 = r" "v div 8388608 = 150 - s" using frac_fields [OF r(1,2), of "150 - s"] unfolding r(3) by blast+
    then have e: "mantM v = q" "expoM v = - s" using v by (simp_all add: mantM_def expoM_def r_def)
    then show ?thesis using s by (simp add: p f_trunc_def mag)
  qed
qed


lemma le_div_iff: "0 < b \<Longrightarrow> c \<le> x div b \<longleftrightarrow> c * b \<le> (x :: int)"
proof
  assume b: "0 < b" and c: "c \<le> x div b"
  then have "c * b \<le> x div b * b" by (simp add: mult_right_mono)
  also have "\<dots> \<le> x" using div_mult_mod_eq [of x b] pos_mod_sign [OF b, of x] by linarith
  finally show "c * b \<le> x" .
next
  assume b: "0 < b" and "c * b \<le> x"
  then show "c \<le> x div b" using zdiv_mono1 [of "c * b" x b] by simp
qed

text \<open>Where a correctly rounded quotient of small integers is cut off, the exact one is.\<close>

lemma div_trunc:
  assumes n: "0 < n" "n < 8192" and B: "0 < B" "B < 8192"
  shows "f_to_i32 (f_div (f_of_int n) (f_of_int B)) = Inr (n div B)"
proof -
  define L K where "L = 24 - bitlenI n" and "K = 24 - bitlenI B"
  note fn = f_of_int_fields [of n, folded L_def] and fB = f_of_int_fields [of B, folded K_def]
  have nn: "n < 16777216" "B < 16777216" using n B by simp_all
  note fn = fn [OF n(1) nn(1)] and fB = fB [OF B(1) nn(2)]
  have "bitlenI n \<le> 13" using n by (intro bitlenI_le) simp_all
  then have L: "11 \<le> L" by (simp add: L_def)
  have bm: "bitlenI (B * pow2 K) = 24" using fB(3,4) B by (intro bitlenI_eq) simp_all
  define x where "x = n * pow2 L * pow2 50"
  define N where "N = x div (B * pow2 K)"
  define st where "st = (x mod (B * pow2 K) \<noteq> 0)"
  have mb: "0 < B * pow2 K" using B by simp
  have run: "f_div (f_of_int n) (f_of_int B) = f_round False N st (- L + K - 50)"
    using fn fB by (simp add: f_div_def Let_def bm x_def N_def st_def f_fin_cases)
  have Nlo: "pow2 49 \<le> N" using fn(3) fB(4) by (simp add: N_def le_div_iff [OF mb] x_def)
  have "\<not> pow2 51 \<le> N" using fn(4) fB(3) by (simp add: N_def le_div_iff [OF mb] x_def)
  then have Nhi: "N < pow2 51" by simp
  have N0: "0 < N" using Nlo by simp
  define k where "k = bitlenI N - 24"
  have "bitlenI N = 50 \<or> bitlenI N = 51"
    using bitlenI_eq [OF N0, of 50] bitlenI_eq [OF N0, of 51] Nlo Nhi by fastforce
  then have k: "k = 26 \<or> k = 27" by (auto simp: k_def)
  define s where "s = L - K + 50 - k"
  have s: "1 \<le> s" "s \<le> 100" using L fB(2) fn(2) k fB(1) by (auto simp: s_def)
  define q where "q = round_quot N st k"
  have q: "q = N div pow2 k \<or> q = N div pow2 k + 1" by (simp add: q_def round_quot_def Let_def)
  have kN: "pow2 (k + 23) \<le> N" "N < pow2 (k + 24)" using bitlenI_bounds [OF N0] by (simp_all add: k_def)
  have M: "8388608 \<le> N div pow2 k" "\<not> 16777216 \<le> N div pow2 k"
    using kN k by (auto simp: le_div_iff)
  then have q24: "8388608 \<le> q" "q \<le> 16777216" using q by auto
  have rs: "round_shift N (- L + K - 50) = k" using s fB(2) k by (auto simp: round_shift_def k_def s_def)
  have "f_div (f_of_int n) (f_of_int B) = signed_bits False (pack q (- s))"
    using k unfolding run f_round_def roundM_def Let_def rs by (auto simp: q_def s_def)
  then have t: "f_trunc (f_div (f_of_int n) (f_of_int B)) = q div pow2 s" "f_fin (f_div (f_of_int n) (f_of_int B))"
    using trunc_pack [OF q24 s] by simp_all
  have xe: "x = n * pow2 (L + 50)" using L by (simp add: x_def pow2_add)
  have be: "B * pow2 K * pow2 k * pow2 s = B * pow2 (L + 50)"
  proof -
    have "pow2 K * pow2 k * pow2 s = pow2 (K + k + s)" using fB(1) s k pow2_add [of K k] pow2_add [of "K + k" s] by auto
    then show ?thesis by (simp add: mult.assoc s_def)
  qed
  define M where "M = N div pow2 k"
  define t where "t = n div B"
  have Mx: "M = x div (B * pow2 K * pow2 k)" by (simp add: M_def N_def zdiv_zmult2_eq)
  have "M div pow2 s = x div (B * pow2 K * pow2 k * pow2 s)" by (simp add: Mx flip: zdiv_zmult2_eq)
  then have Mt: "M div pow2 s = t" unfolding be xe t_def by simp
  have "M * (B * pow2 K * pow2 k) \<le> x" using le_div_iff [of "B * pow2 K * pow2 k" M x] mb by (simp add: Mx)
  have "n < B * (t + 1)" using le_div_iff [OF B(1), of "t + 1" n] by (simp add: t_def mult.commute)
  have D: "0 < B * pow2 K * pow2 k" "B * pow2 K * pow2 k < pow2 (L + 50)"
  proof -
    have "B * pow2 K * pow2 k < 16777216 * pow2 27"
      using fB(4) k mb by (intro mult_less_le_imp_less) (auto simp: pow2_mono)
    also have "\<dots> \<le> pow2 (L + 50)" using pow2_mono [of 51 "L + 50"] L by simp
    finally show "B * pow2 K * pow2 k < pow2 (L + 50)" .
  qed (use B in simp)
  have less: "\<not> (t + 1) * pow2 s \<le> M + 1"
  proof
    assume "(t + 1) * pow2 s \<le> M + 1"
    then have "(t + 1) * pow2 s * (B * pow2 K * pow2 k) \<le> (M + 1) * (B * pow2 K * pow2 k)" using D(1) by (intro mult_right_mono) simp_all
    then have "(t + 1) * (B * pow2 (L + 50)) \<le> (M + 1) * (B * pow2 K * pow2 k)" unfolding be [symmetric] by (simp add: algebra_simps)
    also have "\<dots> < n * pow2 (L + 50) + pow2 (L + 50)" using \<open>M * (B * pow2 K * pow2 k) \<le> x\<close> D(2) by (simp add: xe algebra_simps)
    also have "\<dots> = (n + 1) * pow2 (L + 50)" by (simp add: algebra_simps)
    also have "\<dots> \<le> B * (t + 1) * pow2 (L + 50)" using \<open>n < B * (t + 1)\<close> by (intro mult_right_mono) simp_all
    finally show False by (simp add: algebra_simps)
  qed
  have "t * pow2 s \<le> M" using le_div_iff [of "pow2 s" t M] Mt by simp
  then have "t \<le> (M + 1) div pow2 s" "\<not> t + 1 \<le> (M + 1) div pow2 s" using less by (simp_all add: le_div_iff)
  then have "(M + 1) div pow2 s = t" by simp
  then have "q div pow2 s = n div B" using q Mt by (auto simp: M_def t_def)
  moreover have "0 \<le> n div B" "\<not> 8192 \<le> n div B" using n B by (simp_all add: pos_imp_zdiv_nonneg_iff le_div_iff)
  ultimately show ?thesis using t n by (simp add: f_to_i32_def)
qed

lemma div_trunc_0: "f_to_i32 (f_div (f_of_int 0) (f_of_int SECTOR_WORLD_W)) = Inr 0"
  "f_to_i32 (f_div (f_of_int 0) (f_of_int SECTOR_WORLD_H)) = Inr 0"
  by code_simp+

text \<open>So a monster that is put into sector \<open>(col, row)\<close> stands in it.\<close>

lemma spawnPos_sector:
  assumes "0 \<le> col" "col < 20" "0 \<le> row" "row < 20"
  shows "calcSector (Position (f_of_int (col * SECTOR_WORLD_W + x mod SECTOR_WORLD_W))
                          (f_of_int (row * SECTOR_WORLD_H + y mod SECTOR_WORLD_H))) = Inr (Sector col row)"
proof -
  have r: "0 \<le> x mod 320" "x mod 320 < 320" "0 \<le> y mod 235" "y mod 235 < 235" by simp_all
  have b: "0 \<le> col * 320 + x mod 320" "col * 320 + x mod 320 < 8192" "0 \<le> row * 235 + y mod 235" "row * 235 + y mod 235 < 8192"
    using assms r by (simp, linarith, simp, linarith)
  have d: "(col * 320 + x mod 320) div 320 = col" "(row * 235 + y mod 235) div 235 = row" by simp_all
  have c: "f_to_i32 (f_div (f_of_int (col * 320 + x mod 320)) (f_of_int 320)) = Inr col"
    using div_trunc [of "col * 320 + x mod 320" 320] b(1,2) div_trunc_0(1) d(1)
    by (cases "col * 320 + x mod 320 = 0") (simp_all add: SECTOR_WORLD_W_def)
  have w: "f_to_i32 (f_div (f_of_int (row * 235 + y mod 235)) (f_of_int 235)) = Inr row"
    using div_trunc [of "row * 235 + y mod 235" 235] b(3,4) div_trunc_0(2) d(2)
    by (cases "row * 235 + y mod 235 = 0") (simp_all add: SECTOR_WORLD_H_def)
  show ?thesis using c w assms
    by (simp add: calcSector_def SECTOR_WORLD_W_def SECTOR_WORLD_H_def clampI_def SECTOR_COL_CNT_def SECTOR_ROW_CNT_def)
qed

text \<open>
  The invariant of the spawning loops, when the first \<open>mx\<close> sectors, row by row, have had their turn: monsters
  numbered in order, each idle where it was put, at most one in a sector and none in a sector still to come.
\<close>

definition spawned :: "server \<Rightarrow> int \<Rightarrow> int \<times> server \<Rightarrow> bool" where
  "spawned s0 mx acc \<longleftrightarrow> (case acc of (n, s) \<Rightarrow> 0 \<le> n \<and> n \<le> mx \<and> field_inv s \<and> rng_ok (svRng s) \<and>
     svOut s = svOut s0 \<and> map fst (svMonsters s) = [0..n - 1] \<and>
     (\<forall>m \<in> snd ` set (svMonsters s). mnState m = MIdle \<and> mnHp m = MONSTER_MAX_HP \<and>
        calcSector (mnPos m) = Inr (mnSector m)) \<and>
     (\<forall>c. length (svMonsterSectors s c) \<le> 1 \<and> (svMonsterSectors s c \<noteq> [] \<longrightarrow> 20 * secY c + secX c < mx)))"

lemma spawnMonster_ok:
  assumes sp: "spawned s0 mx (n, s)" and mx: "mx = 20 * row + col" and rc: "0 \<le> col" "col < 20" "0 \<le> row" "row < 20"
  shows "\<exists>acc. spawnMonster row col (n, s) = Inr acc \<and> spawned s0 (mx + 1) acc"
proof -
  have inv: "field_inv s" and keys: "map fst (svMonsters s) = [0..n - 1]" and n: "0 \<le> n" "n \<le> mx"
    using sp by (auto simp: spawned_def)
  have mx4: "mx < 400" using mx rc by simp
  define pos where "pos = Position (f_of_int (col * SECTOR_WORLD_W + svRng s 0 mod SECTOR_WORLD_W))
      (f_of_int (row * SECTOR_WORLD_H + svRng s 1 mod SECTOR_WORLD_H))"
  have pos: "in_map pos" unfolding pos_def by (rule spawnPos_in_map [OF rc])
  define c where "c = Sector col row"
  have c: "calcSector pos = Inr c" unfolding pos_def c_def by (rule spawnPos_sector [OF rc])
  then have cok: "sector_ok c" by (rule calcSector_range)
  have empty: "svMonsterSectors s c = []" using sp mx by (force simp: spawned_def c_def)
  define m where "m = (newMonster n pos 0)\<lparr>mnSector := c, mnDestSector := c\<rparr>"
  have g: "monster_good n m" "mnSector m = c"
    using newMonster_wf [OF pos, of n 0] cok by (simp_all add: m_def monster_good_def monster_wf_def newMonster_def)
  have "set (map fst (svMonsters s)) = {0..n - 1}" using keys by (metis set_upto)
  then have nm: "n \<notin> fst ` set (svMonsters s)" by simp
  then have new: "map_of (svMonsters s) n = None" by (simp add: map_of_eq_None_iff)
  define tab where "tab = svMonsters s @ [(n, m)]"
  have mo: "map_of tab = (map_of (svMonsters s))(n \<mapsto> m)"
    using new by (auto simp: tab_def map_add_def fun_eq_iff split: option.splits)
  have tab: "map fst tab = map fst (svMonsters s) @ [n]" "length tab = Suc (length (svMonsters s))"
    "distinct (map fst tab) = distinct (map fst (svMonsters s))"
    "snd ` set tab = insert m (snd ` set (svMonsters s))"
    using nm by (auto simp: tab_def)
  define s' where "s' = s\<lparr>svRng := \<lambda>k. svRng s (Suc (Suc k)), svMonsters := tab,
      svMonsterSectors := insSector c n (svMonsterSectors s)\<rparr>"
  have run: "spawnMonster row col (n, s) = Inr (n + 1, s')"
    using c new by (simp add: spawnMonster_def rand_def Let_def pos_def [symmetric, simplified] s'_def m_def mapIns_def tab_def)
  have "length (map fst (svMonsters s)) = nat n" using keys n by (metis diff_add_cancel length_upto minus_diff_eq diff_0_right uminus_add_conv_diff diff_zero)
  then have len: "length (svMonsters s) = nat n" by simp
  have im: "inv_monsters (svMonsters s) (svMonsterSectors s)" using inv by (simp add: field_inv_def)
  have "inv_monsters (svMonsters s') (svMonsterSectors s')"
    using im new nm g len n mx4 unfolding inv_monsters_alt s'_def
    by (auto simp: grid_simps mo tab)
  then have "field_inv s'" using inv rng_fair_drop [of "svRng s" 2] by (simp add: field_inv_def s'_def)
  moreover have "rng_ok (svRng s')" using sp by (simp add: spawned_def rng_ok_def s'_def)
  moreover have "[0..n] = [0..n - 1] @ [n]" using n by (simp add: upto_rec2)
  moreover have "mnState m = MIdle \<and> mnHp m = MONSTER_MAX_HP \<and> calcSector (mnPos m) = Inr (mnSector m)"
    using c by (simp add: m_def newMonster_def)
  then have "\<forall>m \<in> snd ` set tab. mnState m = MIdle \<and> mnHp m = MONSTER_MAX_HP \<and> calcSector (mnPos m) = Inr (mnSector m)"
    using sp unfolding tab(4) spawned_def by simp
  moreover have "svMonsters s' = tab" "svOut s' = svOut s0" "map fst tab = [0..n - 1] @ [n]"
    using sp tab keys by (simp_all add: s'_def spawned_def)
  moreover have "length (svMonsterSectors s' d) \<le> 1 \<and> (svMonsterSectors s' d \<noteq> [] \<longrightarrow> 20 * secY d + secX d < mx + 1)" for d
    using sp empty mx by (cases "d = c") (auto simp: s'_def insSector_def setIns_def spawned_def c_def)
  ultimately have "spawned s0 (mx + 1) (n + 1, s')" using n by (simp add: spawned_def)
  with run show ?thesis by blast
qed

text \<open>A loop with an invariant that counts its iterations.\<close>

lemma foldR_count:
  assumes "P i s" and "\<And>k x a. x \<in> set xs \<Longrightarrow> P k a \<Longrightarrow> k < i + length xs \<Longrightarrow> \<exists>b. f x a = Inr b \<and> P (Suc k) b"
  shows "\<exists>b. foldR f xs s = Inr b \<and> P (i + length xs) b"
  using assms
proof (induction xs arbitrary: i s)
  case (Cons x xs)
  obtain b where b: "f x s = Inr b" "P (Suc i) b" using Cons.prems(2) [of x i s] Cons.prems(1) by auto
  have "\<exists>c. foldR f xs b = Inr c \<and> P (Suc i + length xs) c"
    by (rule Cons.IH [OF b(2)]) (use Cons.prems(2) in auto)
  then show ?case using b by simp
qed simp

text \<open>A loop over the first numbers, with an invariant that says how far it is.\<close>

lemma foldR_index:
  assumes "P 0 s" "\<And>k a. k < n \<Longrightarrow> P k a \<Longrightarrow> \<exists>b. f (int k) a = Inr b \<and> P (Suc k) b"
  shows "\<exists>b. foldR f (map int [0..<n]) s = Inr b \<and> P n b"
  using assms
proof (induction n)
  case (Suc n)
  obtain b where b: "foldR f (map int [0..<n]) s = Inr b" "P n b" using Suc by auto
  obtain c where "f (int n) b = Inr c" "P (Suc n) c" using Suc.prems(2) [OF _ b(2)] by auto
  then show ?case using b(1) by (auto simp: foldR_append)
qed simp

lemma spawned_mono: "spawned s0 mx acc \<Longrightarrow> mx \<le> my \<Longrightarrow> spawned s0 my acc"
  by (cases acc) (fastforce simp: spawned_def)

lemma spawnSector_ok:
  assumes sp: "spawned s0 mx acc" and mx: "mx = 20 * row + col" and rc: "0 \<le> col" "col < 20" "0 \<le> row" "row < 20"
  shows "\<exists>acc'. spawnSector row col acc = Inr acc' \<and> spawned s0 (mx + 1) acc'"
proof -
  obtain n s where acc: "acc = (n, s)" by (cases acc)
  have sp': "spawned s0 mx (n, s\<lparr>svRng := \<lambda>k. svRng s (Suc k)\<rparr>)"
    using sp acc rng_fair_drop [of "svRng s" 1] by (auto simp: spawned_def rng_ok_def field_inv_def)
  have "svRng s 0 mod 2 = 0 \<or> svRng s 0 mod 2 = 1" by linarith
  then show ?thesis
  proof
    assume "svRng s 0 mod 2 = 0"
    then show ?thesis using spawned_mono [OF sp'] acc by (simp add: spawnSector_def rand_def Let_def)
  next
    assume "svRng s 0 mod 2 = 1"
    then show ?thesis using spawnMonster_ok [OF sp' mx rc] acc
      by (auto simp: spawnSector_def rand_def Let_def upto.simps)
  qed
qed

lemma numbers_20: "[0..SECTOR_COL_CNT - 1] = map int [0..<20]" "[0..SECTOR_ROW_CNT - 1] = map int [0..<20]"
  by code_simp+

lemma spawnRow_ok:
  assumes row: "0 \<le> row" "row < 20" and sp: "spawned s0 (20 * row) acc"
  shows "\<exists>acc'. foldR (spawnSector row) [0..SECTOR_COL_CNT - 1] acc = Inr acc' \<and> spawned s0 (20 * (row + 1)) acc'"
proof -
  have "\<exists>b. foldR (spawnSector row) (map int [0..<20]) acc = Inr b \<and> spawned s0 (20 * row + int 20) b"
  proof (rule foldR_index [where P = "\<lambda>k. spawned s0 (20 * row + int k)"])
    fix k a assume k: "k < (20 :: nat)" and a: "spawned s0 (20 * row + int k) a"
    show "\<exists>b. spawnSector row (int k) a = Inr b \<and> spawned s0 (20 * row + int (Suc k)) b"
      using spawnSector_ok [OF a refl] k row by (simp add: ac_simps)
  qed (use sp in simp)
  then show ?thesis by (simp add: numbers_20(1) algebra_simps)
qed

lemma spawnMonsters_ok:
  assumes "field_inv s" "svMonsters s = []" "rng_ok (svRng s)"
  shows "\<exists>s' n. spawnMonsters s = Inr s' \<and> spawned s 400 (n, s')"
proof -
  have "svMonsterSectors s c = []" for c
    using assms(1,2) by (cases "svMonsterSectors s c") (fastforce simp: field_inv_def inv_monsters_def)+
  then have s0: "spawned s (20 * int 0) (0, s)" using assms by (simp add: spawned_def)
  have "\<exists>acc. foldR (\<lambda>row. foldR (spawnSector row) [0..SECTOR_COL_CNT - 1]) (map int [0..<20]) (0, s) = Inr acc \<and>
      spawned s (20 * int 20) acc"
  proof (rule foldR_index [where P = "\<lambda>k. spawned s (20 * int k)"])
    fix k a assume k: "k < (20 :: nat)" and a: "spawned s (20 * int k) a"
    show "\<exists>b. foldR (spawnSector (int k)) [0..SECTOR_COL_CNT - 1] a = Inr b \<and> spawned s (20 * int (Suc k)) b"
      using spawnRow_ok [OF _ _ a] k by (simp add: ac_simps)
  qed (rule s0)
  then obtain n s' where "foldR (\<lambda>row. foldR (spawnSector row) [0..SECTOR_COL_CNT - 1]) [0..SECTOR_ROW_CNT - 1] (0, s) = Inr (n, s')"
      "spawned s 400 (n, s')" unfolding numbers_20(2) by fastforce
  then show ?thesis by (auto simp: spawnMonsters_def)
qed

end
