(* ===== verification/Samples.thy ===== *)
theory Samples
  imports SpawnInv
begin

text \<open>
  A small concrete field on which the properties of the field are applied: two players, a monster and
  an item in the first sector, with room in every table.
\<close>

definition samplePlayer :: "int \<Rightarrow> player" where
  "samplePlayer k = (newPlayer k)\<lparr>plAccountNo := 10 + k, plCharacterID := 100 + k, plCurrentFieldID := 0,
     plNextFieldID := 0, plPos := Position (f_lit 100 1) (f_lit 100 1),
     plStartMovePos := Position (f_lit 100 1) (f_lit 100 1)\<rparr>"

definition fieldMonster :: monster where
  "fieldMonster = newMonster 5 (Position (f_lit 110 1) (f_lit 100 1)) 0"

definition sampleItem :: fieldItem where
  "sampleItem = newFieldItem 1 Gold 5 (Position (f_lit 100 1) (f_lit 100 1))"

definition oneSector :: "int list \<Rightarrow> sector \<Rightarrow> int list" where
  "oneSector ks = (\<lambda>_. [])(Sector 0 0 := ks)"

definition sampleField :: server where
  "sampleField = (newServer 1000 (\<lambda>_. 0))\<lparr>
     svObjs := [(1, samplePlayer 1), (2, samplePlayer 2)], svPlayers := [1, 2], svSectors := oneSector [1, 2],
     svMonsters := [(5, fieldMonster)], svMonsterSectors := oneSector [5],
     svItems := [(1, sampleItem)], svItemSectors := oneSector [1], svItemUniqueID := 1\<rparr>"

lemma sample_in_map: "in_map (Position (f_lit 100 1) (f_lit 100 1))" "in_map (Position (f_lit 110 1) (f_lit 100 1))"
  by code_simp+

lemma samplePlayer_simps [simp]:
  "plSeqID (samplePlayer k) = k" "plCurrentSector (samplePlayer k) = Sector 0 0" "plDestSector (samplePlayer k) = Sector 0 0"
  "plState (samplePlayer k) = PIdle" "plPos (samplePlayer k) = Position (f_lit 100 1) (f_lit 100 1)"
  "plCharacterID (samplePlayer k) = 100 + k" "plAccountNo (samplePlayer k) = 10 + k" "plSyncCnt (samplePlayer k) = 0"
  "plBConnect (samplePlayer k)" "plRecvQ (samplePlayer k) = []" "plSpeed (samplePlayer k) = f_lit 45 10"
  "plNickname (samplePlayer k) = replicate 20 0" "plInventory (samplePlayer k) = []" "plHp (samplePlayer k) = 100"
  "plPendingAttackSkillId (samplePlayer k) = 0" "plPendingAttackTargets (samplePlayer k) = []"
  "plDBRequestCnt (samplePlayer k) = 0" "plNextFieldID (samplePlayer k) = 0" "plCurrentFieldID (samplePlayer k) = 0"
  by (simp_all add: samplePlayer_def newPlayer_def PLAYER_MAX_HP_def)

lemma fieldMonster_simps [simp]:
  "mnMonsterID fieldMonster = 5" "mnSector fieldMonster = Sector 0 0" "mnDestSector fieldMonster = Sector 0 0"
  "mnState fieldMonster = MIdle" "mnPos fieldMonster = Position (f_lit 110 1) (f_lit 100 1)" "mnHp fieldMonster = 100"
  by (simp_all add: fieldMonster_def newMonster_def MONSTER_MAX_HP_def)

lemma sampleItem_simps [simp]:
  "itItemUniqueId sampleItem = 1" "itSector sampleItem = Sector 0 0" "itItemId sampleItem = Gold" "itCount sampleItem = 5"
  "itPos sampleItem = Position (f_lit 100 1) (f_lit 100 1)" "itLifeFrame sampleItem = 0"
  by (simp_all add: sampleItem_def newFieldItem_def)

lemma samplePlayer_good: "player_good k (samplePlayer k)"
  by (simp add: player_good_def player_wf_def player_placed_def samplePlayer_def newPlayer_def sample_in_map
      PLAYER_MAX_HP_def PLAYER_HIT_STUN_FRAME_def dir_ok_def sector_ok_def SECTOR_COL_CNT_def SECTOR_ROW_CNT_def PTR_CAP_def)

lemma fieldMonster_good: "monster_good 5 fieldMonster"
  by (simp add: monster_good_def monster_wf_def fieldMonster_def newMonster_def sample_in_map dir_ok_def
      MONSTER_MAX_HP_def MONSTER_HIT_STUN_FRAME_def sector_ok_def SECTOR_COL_CNT_def SECTOR_ROW_CNT_def)

lemma sampleField_inv: "field_inv sampleField"
proof -
  have p: "inv_players (svObjs sampleField) (svPlayers sampleField) (svSectors sampleField)"
    using samplePlayer_good
    by (auto simp: inv_players_def sampleField_def oneSector_def)
  have m: "inv_monsters (svMonsters sampleField) (svMonsterSectors sampleField)"
    using fieldMonster_good
    by (auto simp: inv_monsters_def sampleField_def oneSector_def)
  have i: "inv_items (svItems sampleField) (svItemSectors sampleField) (svItemUniqueID sampleField)"
    by (auto simp: inv_items_def sampleField_def oneSector_def item_good_def
        sample_in_map sector_ok_def SECTOR_COL_CNT_def SECTOR_ROW_CNT_def)
  show ?thesis using p m i by (simp add: field_inv_def) (simp add: sampleField_def newServer_def rng_fair_def)
qed

lemma sampleField_room: "n \<le> 1000 \<Longrightarrow> room n sampleField"
  by (simp add: room_def sampleField_def newServer_def PTR_CAP_def)

lemma sampleField_simps [simp]:
  "svPlayers sampleField = [1, 2]" "svNow sampleField = 1000" "svOut sampleField = []" "svDBReqQ sampleField = []"
  "theP sampleField 1 = samplePlayer 1" "theP sampleField 2 = samplePlayer 2"
  "map_of (svMonsters sampleField) 5 = Some fieldMonster" "map_of (svItems sampleField) 1 = Some sampleItem"
  "svSectors sampleField = oneSector [1, 2]" "svMonsterSectors sampleField = oneSector [5]"
  "svItemSectors sampleField = oneSector [1]" "svMonsters sampleField = [(5, fieldMonster)]"
  "svItems sampleField = [(1, sampleItem)]" "svObjs sampleField = [(1, samplePlayer 1), (2, samplePlayer 2)]"
  by (simp_all add: sampleField_def newServer_def theP_def)

lemma oneSector_simps [simp]: "oneSector ks (Sector 0 0) = ks" "c \<noteq> Sector 0 0 \<Longrightarrow> oneSector ks c = []"
  by (simp_all add: oneSector_def)

lemma newServer_inv:
  assumes "rng_fair g"
  shows "field_inv (newServer now g)"
  using assms
  by (simp add: field_inv_def inv_players_def inv_monsters_def inv_items_def newServer_def)

end
