(* ===== verification/QueueEnds.thy ===== *)
theory QueueEnds
  imports FieldLoopInv
begin

text \<open>
  The loop over the queue of a player ends whatever the packets are: nothing is asked of them, nor of the state
  beyond that every player is stored under its own number. No handler adds to a queue or takes from one, and
  none of them is a loop that can fail to end, so every round of the loop takes one packet off.
\<close>

subsection \<open>What the handlers keep\<close>

definition keyed :: "server \<Rightarrow> bool" where
  "keyed s \<longleftrightarrow> (\<forall>k p. map_of (svObjs s) k = Some p \<longrightarrow> plSeqID p = k)"

definition kept :: "server \<Rightarrow> server \<Rightarrow> bool" where
  "kept s0 s \<longleftrightarrow> keyed s \<and> rq s = rq s0"

definition tame :: "server \<Rightarrow> server res \<Rightarrow> bool" where
  "tame s0 r \<longleftrightarrow> r \<noteq> Inl NoReturn \<and> (\<forall>s. r = Inr s \<longrightarrow> kept s0 s)"

definition ends :: "'a res \<Rightarrow> bool" where
  "ends r \<longleftrightarrow> r \<noteq> Inl NoReturn"

lemma ends_Inr [simp]: "ends (Inr x)"
  by (simp add: ends_def)

lemma tame_simps [simp]: "tame s0 (Inr s) \<longleftrightarrow> kept s0 s" "tame s0 (Inl e) \<longleftrightarrow> e \<noteq> NoReturn"
  by (simp_all add: tame_def)

lemma tame_bind: "tame s0 r \<Longrightarrow> (\<And>s. kept s0 s \<Longrightarrow> tame s0 (f s)) \<Longrightarrow> tame s0 (bindR r f)"
  by (cases r) (auto simp: tame_def)

lemma tame_get: "ends r \<Longrightarrow> (\<And>x. r = Inr x \<Longrightarrow> tame s0 (f x)) \<Longrightarrow> tame s0 (bindR r f)"
  by (cases r) (auto simp: tame_def ends_def)

lemma tame_assert: "(b \<Longrightarrow> tame s0 r) \<Longrightarrow> tame s0 (assertR b r)"
  by (cases b) auto

lemma tame_foldR: "kept s0 s \<Longrightarrow> (\<And>x s. kept s0 s \<Longrightarrow> tame s0 (f x s)) \<Longrightarrow> tame s0 (foldR f xs s)"
  by (induction xs arbitrary: s) (auto intro!: tame_bind)

lemma kept_fields [simp]:
  "kept s0 (s\<lparr>svDBReqQ := q\<rparr>) \<longleftrightarrow> kept s0 s" "kept s0 (s\<lparr>svDiscon := d\<rparr>) \<longleftrightarrow> kept s0 s"
  "kept s0 (s\<lparr>svDisconnectSync := n\<rparr>) \<longleftrightarrow> kept s0 s" "kept s0 (s\<lparr>svLootCount := n\<rparr>) \<longleftrightarrow> kept s0 s"
  "kept s0 (s\<lparr>svItemSectors := g\<rparr>) \<longleftrightarrow> kept s0 s" "kept s0 (s\<lparr>svItems := i\<rparr>) \<longleftrightarrow> kept s0 s"
  "kept s0 (s\<lparr>svOut := out\<rparr>) \<longleftrightarrow> kept s0 s" "kept s0 (s\<lparr>svSendCount := c\<rparr>) \<longleftrightarrow> kept s0 s"
  "kept s0 (s\<lparr>svRecvCount := c\<rparr>) \<longleftrightarrow> kept s0 s"
  by (simp_all add: kept_def keyed_def rq_def fun_eq_iff)

lemma kept_putP: "kept s0 s \<Longrightarrow> plRecvQ p = rq s0 (plSeqID p) \<Longrightarrow> kept s0 (putP p s)"
  by (auto simp: kept_def keyed_def rq_def putP_def fun_eq_iff)

lemma kept_found: "kept s0 s \<Longrightarrow> findPlayer k s = Some p \<Longrightarrow> plSeqID p = k \<and> plRecvQ p = rq s0 k"
proof -
  assume "kept s0 s" "findPlayer k s = Some p"
  then have "rq s0 k = rq s k" "map_of (svObjs s) k = Some p" "plSeqID p = k"
    by (auto simp: kept_def keyed_def findPlayer_def split: if_splits)
  then show ?thesis by (simp add: rq_def)
qed

subsection \<open>The pieces\<close>

lemma ends_reads [simp, intro]: "ends (getS n m)" "ends (getF m)" "ends (getAroundSectors c)"
  "ends (f_to_u64 a)" "ends (startMsg now k len)" "ends (enqPtr x q)"
  by (auto simp: ends_def getS_def getF_def getVal_def getAroundSectors_eq f_to_u64_def startMsg_def PutData_def enqPtr_def)

lemma ends_putAll [simp, intro]: "ends (putAll cs m)"
proof (induction cs arbitrary: m)
  case (Cons c cs)
  then show ?case by (auto simp: ends_def PutData_def putAll_def putVal_def Resize_def Let_def bindR_def assertR_def split: if_splits sum.splits)
qed (simp add: ends_def putAll_def)

lemma tame_record: "kept s0 s \<Longrightarrow> tame s0 (RecordSend i s)" "kept s0 s \<Longrightarrow> tame s0 (RecordRecv i s)"
  unfolding RecordSend_def RecordRecv_def by (intro tame_assert, simp)+

lemma tame_sendMsg: "kept s0 s \<Longrightarrow> tame s0 (sendMsg t len flds k s)"
  unfolding sendMsg_def by (intro tame_get tame_record) (auto simp: sendPost_def)

lemma tame_forPlayers:
  "kept s0 s \<Longrightarrow> (\<And>p s. kept s0 s \<Longrightarrow> tame s0 (f p s)) \<Longrightarrow> tame s0 (forPlayers near f s)"
  unfolding forPlayers_def by (auto intro!: tame_foldR simp: derefP_def split: option.splits)

lemma tame_broadcasts:
  assumes "kept s0 s"
  shows "tame s0 (broadcastMoveStart p near s)" "tame s0 (broadcastMoveStop p near s)"
    "tame s0 (broadcastPlayerAttack p near s)" "tame s0 (broadcastItemDespawn it near s)" "tame s0 (sendLootRes p b i n s)"
  unfolding broadcastMoveStart_def broadcastMoveStop_def broadcastPlayerAttack_def broadcastItemDespawn_def sendLootRes_def
  using assms by (auto intro!: tame_forPlayers tame_sendMsg)

lemma kept_disconnect: "kept s0 s \<Longrightarrow> kept s0 (disconnectSession k s)" "kept s0 s \<Longrightarrow> kept s0 (disconnectSync k s)"
  unfolding disconnectSync_def disconnectSession_def by simp_all

text \<open>What a handler does to the player it found.\<close>

definition same_queue :: "player \<Rightarrow> player \<Rightarrow> bool" where
  "same_queue p q \<longleftrightarrow> plSeqID q = plSeqID p \<and> plRecvQ q = plRecvQ p"

lemma changeState_queue: "ends (Player.changeState t p)" "Player.changeState t p = Inr q \<Longrightarrow> same_queue p q"
  by (auto simp: Player.changeState_def Player.resetAnimStart_def ends_def same_queue_def assertR_def split: if_splits)

lemma syncCheck_queue: "ends (syncCheck d p)" "syncCheck d p = Inr (b, q) \<Longrightarrow> same_queue p q"
  by (auto simp: syncCheck_def ends_def same_queue_def f_to_u64_def Let_def split: if_splits)

lemma same_queue_simps: "same_queue p q \<Longrightarrow> plSeqID q = plSeqID p" "same_queue p q \<Longrightarrow> plRecvQ q = plRecvQ p"
  by (simp_all add: same_queue_def)

subsection \<open>The handlers\<close>

lemma tame_found: "kept s0 s \<Longrightarrow> (\<And>p. plSeqID p = k \<Longrightarrow> plRecvQ p = rq s0 k \<Longrightarrow> tame s0 (f p)) \<Longrightarrow>
    tame s0 (the_or_break (findPlayer k s) f)"
  using kept_found [of s0 s k] by (cases "findPlayer k s") auto

lemma tame_moveStartBody:
  assumes "kept s0 s" "plRecvQ p = rq s0 (plSeqID p)"
  shows "tame s0 (moveStartBody pos dir speed k p s)"
  unfolding moveStartBody_def
  by (auto intro!: tame_get tame_assert tame_broadcasts kept_putP syncCheck_queue(1) changeState_queue(1)
      simp: assms dest!: syncCheck_queue(2) changeState_queue(2) simp: same_queue_def)

lemma tame_moveStopBody:
  assumes "kept s0 s" "plRecvQ p = rq s0 (plSeqID p)"
  shows "tame s0 (moveStopBody pos dir k p s)"
  unfolding moveStopBody_def Let_def
  by (auto intro!: tame_get tame_assert tame_broadcasts kept_putP kept_disconnect syncCheck_queue(1) changeState_queue(1)
      simp: assms ends_def dest!: syncCheck_queue(2) changeState_queue(2) simp: same_queue_def)

lemma tame_handleMoveStart: "kept s0 s \<Longrightarrow> tame s0 (handleMoveStart msg k s)"
  unfolding handleMoveStart_def Let_def
  by (auto intro!: tame_get tame_found tame_moveStartBody kept_disconnect kept_putP split: ePlayerState.splits)

lemma tame_handleMoveStop: "kept s0 s \<Longrightarrow> tame s0 (handleMoveStop msg k s)"
  unfolding handleMoveStop_def Let_def
  by (auto intro!: tame_get tame_found tame_moveStopBody)

lemma ends_readTargets: "ends (readTargets n msg)"
proof (induction n arbitrary: msg)
  case (Suc n)
  then show ?case using ends_reads(1) [of 8 msg] by (auto simp: ends_def bindR_def split: sum.splits)
qed (simp add: ends_def)

lemma tame_handleAttackReq: "kept s0 s \<Longrightarrow> tame s0 (handleAttackReq msg k s)"
  unfolding handleAttackReq_def Let_def
  by (auto intro!: tame_get tame_bind tame_found tame_broadcasts kept_disconnect kept_putP changeState_queue(1) ends_readTargets
      dest!: changeState_queue(2) simp: same_queue_def split: option.splits)

lemma tame_handleLootReq: "kept s0 s \<Longrightarrow> tame s0 (handleLootReq msg k s)"
  unfolding handleLootReq_def Let_def
  by (auto intro!: tame_get tame_bind tame_assert tame_found tame_broadcasts kept_putP split: option.splits)

lemma tame_handleRankingReq: "kept s0 s \<Longrightarrow> tame s0 (handleRankingReq msg k s)"
  unfolding handleRankingReq_def requestRankingQuery_def enqDBReq_def
  by (auto intro!: tame_found tame_get)

lemma fieldContentsPacketProc_tame: "kept s0 s \<Longrightarrow> tame s0 (fieldContentsPacketProc msg s)"
  unfolding fieldContentsPacketProc_def Let_def
  by (auto intro!: tame_get tame_bind tame_record tame_handleMoveStart tame_handleMoveStop tame_handleAttackReq
      tame_handleLootReq tame_handleRankingReq kept_disconnect)

subsection \<open>The loops\<close>

text \<open>Where the loop over one queue ends: at its end, or where the player is to change fields or is disconnected.\<close>

definition stops :: "int \<Rightarrow> int \<Rightarrow> server \<Rightarrow> bool" where
  "stops fieldIdx k s \<longleftrightarrow> (\<exists>p. map_of (svObjs s) k = Some p \<and>
     (plRecvQ p = [] \<or> plNextFieldID p \<noteq> fieldIdx \<or> \<not> plBConnect p))"

definition takes :: "int list \<Rightarrow> server \<Rightarrow> server \<Rightarrow> bool" where
  "takes ks s s' \<longleftrightarrow> keyed s' \<and> (\<forall>i. (\<exists>j. rq s' i = drop j (rq s i)) \<and> (i \<notin> set ks \<longrightarrow> rq s' i = rq s i))"

lemma takes_refl: "keyed s \<Longrightarrow> takes ks s s"
  by (auto simp: takes_def intro: exI [of _ 0])

lemma takes_trans: "takes ks s s' \<Longrightarrow> takes ls s' s'' \<Longrightarrow> takes (ks @ ls) s s''"
  unfolding takes_def by (metis drop_drop Un_iff set_append)

lemma takes_same: "keyed s' \<Longrightarrow> rq s' = rq s \<Longrightarrow> takes ks s s'"
  by (auto simp: takes_def intro: exI [of _ 0])

lemma keyed_kept: "keyed s \<Longrightarrow> kept s s"
  by (simp add: kept_def)

lemma putP_takes:
  assumes "keyed s" "plSeqID p = k" "plRecvQ p = drop j (rq s k)"
  shows "takes [k] s (putP p s)"
proof -
  have "rq (putP p s) i = (if i = k then plRecvQ p else rq s i)" for i using assms(2) by (simp add: rq_def putP_def)
  moreover have "keyed (putP p s)" using assms(1,2) by (simp add: keyed_def putP_def)
  ultimately show ?thesis using assms(3) by (auto simp: takes_def intro: exI [of _ 0])
qed

lemma playerMsgs_ends:
  assumes "keyed s"
  shows "\<exists>r. playerMsgs f t k s = Some r \<and> r \<noteq> Inl NoReturn \<and> (\<forall>s'. r = Inr s' \<longrightarrow> takes [k] s s' \<and> stops f k s')"
  using assms
proof (induction "length (rq s k)" arbitrary: s rule: less_induct)
  case less
  show ?case
  proof (cases "map_of (svObjs s) k")
    case None
    then show ?thesis by (subst playerMsgs.simps) simp
  next
    case (Some p)
    then have p: "plSeqID p = k" "rq s k = plRecvQ p" using less.prems by (auto simp: keyed_def rq_def)
    show ?thesis
    proof (cases "plBConnect p \<and> plRecvQ p \<noteq> []")
      case False
      then have "DeQueueMsgOrNull p = (None, p)" by (auto simp: DeQueueMsgOrNull_def split: list.splits)
      then have "playerMsgs f t k s = Some (Inr (putP p s))" using Some by (subst playerMsgs.simps) simp
      moreover have "takes [k] s (putP p s)" using putP_takes [OF less.prems p(1), of 0] p(2) by simp
      moreover have "stops f k (putP p s)" using False p(1) by (auto simp: stops_def putP_def)
      ultimately show ?thesis by simp
    next
      case True
      then obtain m q where q: "plRecvQ p = m # q" by (auto simp: neq_Nil_conv)
      define s1 where "s1 = putP (p\<lparr>plRecvQ := q\<rparr>) s"
      have s1: "takes [k] s s1" unfolding s1_def using p q by (intro putP_takes [of _ _ _ 1] less.prems) simp_all
      then have k1: "kept s1 s1" by (simp add: takes_def kept_def)
      have rq1: "rq s1 k = q" using p(1) by (simp add: s1_def rq_def putP_def)
      have step: "tame s1 (fieldContentsPacketProc m s1)" by (rule fieldContentsPacketProc_tame [OF k1])
      have run: "playerMsgs f t k s = (case fieldContentsPacketProc m s1 of Inl e \<Rightarrow> Some (Inl e)
          | Inr s \<Rightarrow> (case map_of (svObjs s) k of None \<Rightarrow> Some (Inl UndefinedBehaviour)
             | Some p \<Rightarrow> let p = p\<lparr>plSendMsgCnt := plSendMsgCnt p - 1, plLastTime := t\<rparr>; s = putP p s
                         in if plNextFieldID p \<noteq> f then Some (Inr s) else playerMsgs f t k s))"
        using Some True q by (subst playerMsgs.simps) (simp add: DeQueueMsgOrNull_def s1_def)
      show ?thesis
      proof (cases "fieldContentsPacketProc m s1")
        case (Inl e)
        then show ?thesis using run step by simp
      next
        case (Inr s2)
        then have k2: "keyed s2" "rq s2 = rq s1" using step by (simp_all add: kept_def)
        show ?thesis
        proof (cases "map_of (svObjs s2) k")
          case None
          then show ?thesis using run Inr by simp
        next
          case p2: (Some p2)
          define p3 where "p3 = p2\<lparr>plSendMsgCnt := plSendMsgCnt p2 - 1, plLastTime := t\<rparr>"
          define s3 where "s3 = putP p3 s2"
          have "plSeqID p3 = k" "plRecvQ p3 = drop 0 (rq s2 k)" using p2 k2(1) by (auto simp: p3_def keyed_def rq_def)
          note p3 = this putP_takes [OF k2(1) this, folded s3_def]
          have rq3: "rq s3 k = q" using p3(1,2) k2(2) rq1 by (simp add: s3_def rq_def putP_def)
          have t3: "takes [k] s s3"
            using takes_trans [OF takes_trans [OF s1 takes_same [OF k2(1,2), of "[]"]] p3(3)] by (simp add: takes_def)
          have run: "playerMsgs f t k s = (if plNextFieldID p3 \<noteq> f then Some (Inr s3) else playerMsgs f t k s3)"
            using run Inr p2 by (simp add: p3_def s3_def Let_def)
          have "length (rq s3 k) < length (rq s k)" "keyed s3" using rq3 p(2) q t3 by (simp_all add: takes_def)
          from less.hyps [OF this] obtain r where r: "playerMsgs f t k s3 = Some r" "r \<noteq> Inl NoReturn"
              "\<And>s'. r = Inr s' \<Longrightarrow> takes [k] s3 s' \<and> stops f k s'" by blast
          have "takes [k] s s'" if "takes [k] s3 s'" for s' using takes_trans [OF t3 that] by (simp add: takes_def)
          moreover have "stops f k s3" if "plNextFieldID p3 \<noteq> f" using that p3(1) by (auto simp: stops_def s3_def putP_def)
          ultimately show ?thesis using run r t3 by (cases "plNextFieldID p3 = f") auto
        qed
      qed
    qed
  qed
qed

lemma playerProc_ends:
  assumes "keyed s"
  shows "playerProc f t s \<noteq> Inl NoReturn \<and> (\<forall>s'. playerProc f t s = Inr s' \<longrightarrow> takes (svPlayers s) s s')"
proof -
  define body where "body k s = bindR (case playerMsgs f t k s of None \<Rightarrow> Inl NoReturn | Some r \<Rightarrow> r) (\<lambda>s.
       derefP k s (\<lambda>p. if svOn s then Inr s else Inr (putP (p\<lparr>plBConnect := False\<rparr>) s)))" for k s
  have body: "body k s \<noteq> Inl NoReturn \<and> (\<forall>s'. body k s = Inr s' \<longrightarrow> takes [k] s s')" if ks: "keyed s" for k s
  proof -
    obtain r where r: "playerMsgs f t k s = Some r" "r \<noteq> Inl NoReturn" "\<And>s'. r = Inr s' \<Longrightarrow> takes [k] s s'"
      using playerMsgs_ends [OF ks] by blast
    have "takes [k] s (putP (p\<lparr>plBConnect := False\<rparr>) s')" if "takes [k] s s'" "map_of (svObjs s') k = Some p" for s' p
    proof -
      have k: "keyed s'" using that(1) by (simp add: takes_def)
      then have "plSeqID p = k" "plRecvQ p = drop 0 (rq s' k)" using that(2) by (auto simp: keyed_def rq_def)
      then have "takes [k] s' (putP (p\<lparr>plBConnect := False\<rparr>) s')" by (intro putP_takes [OF k, where j = 0]) simp_all
      from takes_trans [OF that(1) this] show ?thesis by (simp add: takes_def)
    qed
    then show ?thesis using r by (cases r) (auto simp: body_def derefP_def split: option.splits)
  qed
  have "foldR body ks s \<noteq> Inl NoReturn \<and> (\<forall>s'. foldR body ks s = Inr s' \<longrightarrow> takes ks s s')" if "keyed s" for ks s
    using that
  proof (induction ks arbitrary: s)
    case (Cons k ks)
    show ?case
    proof (cases "body k s")
      case (Inr s1)
      then have 1: "takes [k] s s1" using body [OF Cons.prems] by simp
      then have "keyed s1" by (simp add: takes_def)
      then show ?thesis using Inr Cons.IH [of s1] takes_trans [OF 1] by auto
    qed (use body [OF Cons.prems] in auto)
  qed (simp add: takes_refl)
  from this [OF assms] show ?thesis by (simp add: playerProc_def body_def [abs_def])
qed

end
