(* ===== verification/FieldProps.thy ===== *)
theory FieldProps
  imports Samples QueueEnds
begin

text \<open>
  The properties of the field: the grid and who sees whom, the frames and the packets that keep the
  invariant of the field, combat, items. Each is followed by its application to the sample field.
\<close>

subsection \<open>The grid\<close>

text \<open>
  The cache of neighbourhoods that the constructor fills answers every sector of the map with the
  three by three sectors around it that lie in the map, each once; any other sector stops the server.
\<close>

theorem around_sectors:
  "nearSectorInitalization = Inr mAroundSectorCache \<and>
   getAroundSectors c = (if sector_ok c then Inr (aroundOf c) else Inl DebugBreak) \<and>
   distinct (aroundOf c) \<and>
   set (aroundOf c) = {d. sector_ok d \<and> \<bar>secX d - secX c\<bar> \<le> 1 \<and> \<bar>secY d - secY c\<bar> \<le> 1}"
  by (simp only: nearSectorInitalization_eq getAroundSectors_eq distinct_aroundOf set_aroundOf simp_thms)

text \<open>
  The nested erase loops of a player that changes sectors leave exactly the sectors that come into
  sight and those that go out of sight, each once.
\<close>

theorem crossing_sectors:
  assumes "sector_ok (plCurrentSector p)" "sector_ok (plDestSector p)"
  shows "\<exists>spawn despawn. calcDespawnAndSpawnSector p = Inr (spawn, despawn) \<and> distinct spawn \<and> distinct despawn \<and>
    set spawn = set (aroundOf (plDestSector p)) - set (aroundOf (plCurrentSector p)) \<and>
    set despawn = set (aroundOf (plCurrentSector p)) - set (aroundOf (plDestSector p))"
  using assms by (auto simp: calcDespawnAndSpawnSector_eq distinct_aroundOf)

lemma crossing_sectors_witness:
  "\<exists>spawn. calcDespawnAndSpawnSector ((samplePlayer 1)\<lparr>plDestSector := Sector 1 0\<rparr>) = Inr (spawn, []) \<and>
     set spawn = {Sector 2 0, Sector 2 1}"
proof -
  define p where "p = (samplePlayer 1)\<lparr>plDestSector := Sector 1 0\<rparr>"
  have c: "plCurrentSector p = Sector 0 0" "plDestSector p = Sector 1 0" by (simp_all add: p_def)
  have "aroundOf (Sector 0 0) = [Sector 0 0, Sector 0 1, Sector 1 0, Sector 1 1]"
    "aroundOf (Sector 1 0) = [Sector 0 0, Sector 0 1, Sector 1 0, Sector 1 1, Sector 2 0, Sector 2 1]"
    by code_simp+
  then show ?thesis
    using crossing_sectors [of p] unfolding p_def [symmetric] c
    by (auto simp: sector_ok_def SECTOR_COL_CNT_def SECTOR_ROW_CNT_def)
qed

subsection \<open>The frames of the field\<close>

text \<open>
  C32. From the empty server, for any sequence of numbers that \<open>rand\<close> can give (and, for the drops to come, that is
  not for ever among the 68 highest, which their table draws again), the start of the field puts down at
  most one monster per sector, numbered from 0, idle, with full health, registered in the sector it
  stands in; this establishes the invariant of the field.
\<close>

theorem spawn_establishes:
  assumes "rng_ok g" "rng_fair g"
  shows "\<exists>s n. spawnMonsters (newServer now g) = Inr s \<and> field_inv s \<and> 0 \<le> n \<and> n \<le> 400 \<and>
    map fst (svMonsters s) = [0..n - 1] \<and> svOut s = [] \<and> (\<forall>c. length (svMonsterSectors s c) \<le> 1) \<and>
    (\<forall>(k, m) \<in> set (svMonsters s). mnState m = MIdle \<and> mnHp m = MONSTER_MAX_HP \<and>
       calcSector (mnPos m) = Inr (mnSector m) \<and> k \<in> set (svMonsterSectors s (mnSector m)))"
proof -
  have e: "svMonsters (newServer now g) = []" "svRng (newServer now g) = g" "svOut (newServer now g) = []"
    by (simp_all add: newServer_def)
  obtain s n where s: "spawnMonsters (newServer now g) = Inr s" "spawned (newServer now g) 400 (n, s)"
    using spawnMonsters_ok [OF newServer_inv [OF assms(2), of now]] e assms(1) by auto
  have im: "inv_monsters (svMonsters s) (svMonsterSectors s)" using s(2) by (simp add: spawned_def field_inv_def)
  have k: "k \<in> set (svMonsterSectors s (mnSector m))" if "(k, m) \<in> set (svMonsters s)" for k m
    using im that by (auto simp: inv_monsters_def)
  have f: "mnState m = MIdle \<and> mnHp m = MONSTER_MAX_HP \<and> calcSector (mnPos m) = Inr (mnSector m)"
    if "(k, m) \<in> set (svMonsters s)" for k m
  proof -
    have "\<forall>x \<in> set (svMonsters s). mnState (snd x) = MIdle \<and> mnHp (snd x) = MONSTER_MAX_HP \<and>
        calcSector (mnPos (snd x)) = Inr (mnSector (snd x))"
      using s(2) by (simp add: spawned_def)
    from bspec [OF this that] show ?thesis by simp
  qed
  have "\<forall>(k, m) \<in> set (svMonsters s). mnState m = MIdle \<and> mnHp m = MONSTER_MAX_HP \<and>
      calcSector (mnPos m) = Inr (mnSector m) \<and> k \<in> set (svMonsterSectors s (mnSector m))"
    using k f by blast
  moreover have "field_inv s" "0 \<le> n" "n \<le> 400" "map fst (svMonsters s) = [0..n - 1]" "svOut s = []"
    "\<forall>c. length (svMonsterSectors s c) \<le> 1"
    using s(2) e(3) by (simp_all add: spawned_def)
  ultimately show ?thesis using s(1) by blast
qed

lemma spawn_establishes_witness:
  "\<exists>s n. spawnMonsters (newServer 0 (\<lambda>_. 1)) = Inr s \<and> field_inv s \<and> n \<le> 400 \<and>
     map fst (svMonsters s) = [0..n - 1] \<and> (\<forall>c. length (svMonsterSectors s c) \<le> 1)"
  using spawn_establishes [of "\<lambda>_. 1" 0] by (auto simp: rng_ok_def rng_fair_def)

text \<open>
  C1. A frame of the field (\<open>fieldUpdate\<close>: players, sectors, monsters, items) never fails and keeps
  the invariant, when there is room for one job and one drop per player.
\<close>

theorem frame_keeps_inv:
  assumes "field_inv s" "room (length (svPlayers s)) s"
  shows "\<exists>s'. fieldUpdate 0 s = Inr s' \<and> field_inv s' \<and> evolve (length (svPlayers s)) s s'"
  using fieldUpdate_okn [OF assms] by (simp add: okf_def)

lemma frame_keeps_inv_witness: "\<exists>s'. fieldUpdate 0 sampleField = Inr s' \<and> field_inv s' \<and> svPlayers s' = [1, 2]"
proof -
  have "room (length (svPlayers sampleField)) sampleField" by (rule sampleField_room) simp
  from frame_keeps_inv [OF sampleField_inv this] show ?thesis using evolve_players by fastforce
qed

text \<open>The announcements of what the monsters did never fail and keep the invariant.\<close>

theorem announcements_keep_inv:
  assumes "field_inv s" "room 0 s"
  shows "\<exists>s'. monsterProc s = Inr s' \<and> field_inv s' \<and> evolve 0 s s'"
  using monsterProc_okn [OF assms] by (simp add: okf_def)

lemma announcements_keep_inv_witness: "\<exists>s'. monsterProc sampleField = Inr s' \<and> field_inv s' \<and> svPlayers s' = [1, 2]"
  using announcements_keep_inv [OF sampleField_inv sampleField_room] evolve_players by fastforce

subsection \<open>The packets of the players\<close>

text \<open>
  C11. A packet that is whole and says something possible (\<open>packet_ok\<close>: its fields are there, a position
  in the map, a direction of the table, the speed of the game) keeps the invariant. It stops the server
  only if it is a \<open>MOVE_START\<close>.
\<close>

theorem packet_keeps_inv:
  assumes "field_inv s" "mOwnerID msg \<in> set (svPlayers s)" "packet_ok msg" "room 1 s"
  shows "(\<exists>s'. fieldContentsPacketProc msg s = Inr s' \<and> field_inv s' \<and> evolve 1 s s') \<or>
    fS 0 2 (unread msg) = MOVE_START \<and> fieldContentsPacketProc msg s = Inl DebugBreak"
  using fieldContentsPacketProc_okf [OF assms] by (auto simp: okf_def)

definition sampleMsg :: "int \<Rightarrow> byte list \<Rightarrow> message" where
  "sampleMsg k bs = (InitMessage 0 k 0)\<lparr>mBuf := bs\<rparr>"

lemma sampleMsg_simps [simp]:
  "unread (sampleMsg k bs) = bs" "mOwnerID (sampleMsg k bs) = k" "readable (sampleMsg k bs)"
  by (simp_all add: sampleMsg_def InitMessage_def unread_def readable_def)

definition lootPacket :: "int \<Rightarrow> message" where
  "lootPacket k = sampleMsg k (enc 2 LOOT_REQ @ enc 8 1)"

lemma lootPacket_ok: "packet_ok (lootPacket k)" "mOwnerID (lootPacket k) = k" "fS 0 2 (unread (lootPacket k)) = LOOT_REQ"
proof -
  have t: "fS 0 2 (enc 2 LOOT_REQ @ enc 8 1) = LOOT_REQ" by code_simp
  show "packet_ok (lootPacket k)" by (simp add: packet_ok_def Let_def lootPacket_def t kTableSize_def) (simp add: packet_defs)
  show "mOwnerID (lootPacket k) = k" "fS 0 2 (unread (lootPacket k)) = LOOT_REQ" using t by (simp_all add: lootPacket_def)
qed

lemma packet_keeps_inv_witness:
  "\<exists>s'. fieldContentsPacketProc (lootPacket 1) sampleField = Inr s' \<and> field_inv s'"
  using packet_keeps_inv [OF sampleField_inv, of "lootPacket 1"] sampleField_room [of 1]
  by (auto simp: lootPacket_ok) (simp add: packet_defs)

text \<open>
  The pass over the queues of all players keeps the invariant, or stops at the assertion of \<open>MOVE_START\<close>,
  which it cannot when no such packet is queued.
\<close>

theorem player_packets_keep_inv:
  assumes inv: "field_inv s" and q: "\<forall>k \<in> set (svPlayers s). queue_ok b s k" and room: "room (queued s (svPlayers s)) s"
  shows "b \<and> playerProc 0 t s = Inl DebugBreak \<or>
    (\<exists>s'. playerProc 0 t s = Inr s' \<and> field_inv s' \<and> evolve (queued s (svPlayers s)) s s')"
  using playerProc_okf [OF inv q room] by (auto simp: okf_def)

definition sampleQueued :: server where
  "sampleQueued = putP ((samplePlayer 1)\<lparr>plRecvQ := [lootPacket 1, lootPacket 1]\<rparr>) sampleField"

lemma sampleQueued_inv: "field_inv sampleQueued"
proof -
  have "player_good 1 ((samplePlayer 1)\<lparr>plRecvQ := [lootPacket 1, lootPacket 1]\<rparr>)"
    using samplePlayer_good [of 1] by (simp add: player_good_def player_wf_def player_placed_def PTR_CAP_def)
  then have "inv_players (alUpd 1 ((samplePlayer 1)\<lparr>plRecvQ := [lootPacket 1, lootPacket 1]\<rparr>) (svObjs sampleField))
      (svPlayers sampleField) (svSectors sampleField)"
    using sampleField_inv unfolding field_inv_def by (intro inv_players_put) auto
  then show ?thesis using sampleField_inv by (simp add: field_inv_def sampleQueued_def putP_def)
qed

lemma player_packets_keep_inv_witness:
  "\<exists>s'. playerProc 0 7 sampleQueued = Inr s' \<and> field_inv s'"
proof -
  have q: "rq sampleQueued 1 = [lootPacket 1, lootPacket 1]" "rq sampleQueued 2 = []" "svPlayers sampleQueued = [1, 2]"
    by (simp_all add: rq_def sampleQueued_def putP_def)
  have "\<forall>k \<in> set (svPlayers sampleQueued). queue_ok False sampleQueued k" by (simp add: queue_ok_def q lootPacket_ok packet_defs)
  moreover have "room (queued sampleQueued (svPlayers sampleQueued)) sampleQueued"
    using sampleField_room [of 2] by (simp add: queued_def q) (simp add: room_def sampleQueued_def putP_def)
  ultimately show ?thesis using player_packets_keep_inv [OF sampleQueued_inv] by metis
qed

text \<open>
  C14. Whatever packets are queued, well-formed or not, and whatever else the state of the server is (every
  player is stored under its own number), the loop over the queue of a player returns: a packet may stop the
  server (\<open>Inl\<close>, a failed assertion or an exception that nothing catches), but it does not make the loop run
  for ever. When the loop comes to its end it has taken packets off the front of this queue, left every other
  queue alone, and stopped only because the queue is empty, the player is to change fields or is disconnected.
  The pass over all players returns likewise and touches no queue but theirs.
\<close>

theorem player_messages_return:
  assumes "keyed s"
  shows "(\<exists>r. playerMsgs f t k s = Some r \<and> r \<noteq> Inl NoReturn \<and> (\<forall>s'. r = Inr s' \<longrightarrow>
        (\<exists>j. rq s' k = drop j (rq s k)) \<and> (\<forall>i. i \<noteq> k \<longrightarrow> rq s' i = rq s i) \<and>
        (\<exists>p. map_of (svObjs s') k = Some p \<and> (plRecvQ p = [] \<or> plNextFieldID p \<noteq> f \<or> \<not> plBConnect p)))) \<and>
    playerProc f t s \<noteq> Inl NoReturn \<and>
    (\<forall>s'. playerProc f t s = Inr s' \<longrightarrow> (\<forall>i. \<exists>j. rq s' i = drop j (rq s i)) \<and>
        (\<forall>i. i \<notin> set (svPlayers s) \<longrightarrow> rq s' i = rq s i))"
proof -
  obtain r where r: "playerMsgs f t k s = Some r" "r \<noteq> Inl NoReturn" "\<And>s'. r = Inr s' \<Longrightarrow> takes [k] s s' \<and> stops f k s'"
    using playerMsgs_ends [OF assms] by blast
  show ?thesis using r playerProc_ends [OF assms, of f t] unfolding takes_def stops_def by auto
qed

text \<open>The sample: a packet of one byte, which no handler can read, before a good one.\<close>

definition sampleGarbage :: server where
  "sampleGarbage = putP ((samplePlayer 1)\<lparr>plRecvQ := [sampleMsg 1 [0], lootPacket 1]\<rparr>) sampleField"

lemma player_messages_return_witness:
  "(\<exists>r. playerMsgs 0 7 1 sampleGarbage = Some r \<and> r \<noteq> Inl NoReturn) \<and> playerProc 0 7 sampleGarbage \<noteq> Inl NoReturn \<and>
   (\<exists>s' j. playerProc 0 7 sampleQueued = Inr s' \<and> rq s' 1 = drop j [lootPacket 1, lootPacket 1])"
proof -
  have k: "keyed sampleGarbage" "keyed sampleQueued"
    by (auto simp: keyed_def sampleGarbage_def sampleQueued_def putP_def)
  have "rq sampleQueued 1 = [lootPacket 1, lootPacket 1]" by (simp add: rq_def sampleQueued_def putP_def)
  then show ?thesis
    using player_messages_return [OF k(1), of 0 7 1] player_messages_return [OF k(2), of 0 7 1]
      player_packets_keep_inv_witness by metis
qed

end
