(* ===== verification/PacketProps.thy ===== *)
theory PacketProps
  imports FieldProps
begin

text \<open>
  What the packets of a player do: movement with the account of its deviations, attacks, loot, and the
  packets that a client may send but that the server does not survive.
\<close>

subsection \<open>Movement\<close>

text \<open>
  C34. A \<open>MOVE_START\<close> of a standing player, within the limit of deviations, puts the player where the
  packet says, walking, and every other player in the nine sectors around gets exactly one packet with
  its number, position, direction and speed. A dead, stunned or walking player's packet is ignored.
\<close>

theorem move_start_broadcast:
  assumes inv: "field_inv s" and k: "k \<in> set (svPlayers s)" and msg: "readable msg" "21 \<le> length (unread msg)"
    and u: "movement_ok (unread msg)" "fF 17 (unread msg) = f_lit 45 10"
  defines "p \<equiv> theP s k" and "q \<equiv> fPos (unread msg)"
  defines "p' \<equiv> moved PMove q (fS 16 1 (unread msg)) p"
  shows "(plState p = PIdle \<and> \<not> tooFar p q \<longrightarrow>
      handleMoveStart msg k s = Inr (sent MOVE_START
        (map (\<lambda>j. (j, packet (svNow s) j MOVE_START (moveBody p' @ encF (plSpeed p'))))
          (filter (\<lambda>j. j \<noteq> k) (members (svSectors s) (aroundOf (plCurrentSector p))))) (putP p' s))) \<and>
    (plState p \<in> {PDead, PStun, PMove} \<longrightarrow> handleMoveStart msg k s = Inr s)"
proof -
  note g = field_inv_player [OF inv k, folded p_def]
  have f: "findPlayer k s = Some p" using field_inv_findPlayer [OF inv, of k] k by (simp add: p_def)
  have seq: "plSeqID p' = k" using g(2) by (simp add: p'_def moved_def player_good_def)
  have q: "in_map q" "dir_ok (fS 16 1 (unread msg))" using u(1) by (simp_all add: movement_ok_def q_def)
  have sp: "f_eq (plSpeed p) (f_lit 45 10)"
  proof -
    have "f_eq (f_lit 45 10) (f_lit 45 10)" by code_simp
    then show ?thesis using g(2) by (simp add: player_good_def player_wf_def)
  qed
  have run: "handleMoveStart msg k s = Inr (sent MOVE_START
        (map (\<lambda>j. (j, packet (svNow s) j MOVE_START (moveBody p' @ encF (plSpeed p'))))
          (filter (\<lambda>j. j \<noteq> k) (members (svSectors s) (aroundOf (plCurrentSector p))))) (putP p' s))"
    if st: "plState p = PIdle" "\<not> tooFar p q"
  proof -
    have mg: "player_good k p'" "keeps p p'"
      unfolding p'_def using moved_good [OF g(2) q, where t = PMove] st by simp_all
    have "live near (putP p' s)" for near
      using field_inv_putP(1) [OF inv k mg(1)] mg(2) by (simp add: p_def)
    from broadcastMoveStart_eq [OF this, of p' "aroundOf (plCurrentSector p)"]
    have "broadcastMoveStart p' (aroundOf (plCurrentSector p)) (putP p' s) = Inr (sent MOVE_START
        (map (\<lambda>j. (j, packet (svNow s) j MOVE_START (moveBody p' @ encF (plSpeed p'))))
          (filter (\<lambda>j. j \<noteq> k) (members (svSectors s) (aroundOf (plCurrentSector p))))) (putP p' s))"
      by (simp add: toMembers_def seq putP_def)
    then show ?thesis
      using moveStartBody_eq [OF g(2) q(1) sp, of "fS 16 1 (unread msg)" s] st
      using msg(2) by (simp add: handleMoveStart_eq [OF msg(1)] f u(2) q_def [symmetric] p'_def [symmetric]
          not_less del: One_nat_def)
  qed
  show ?thesis using run msg by (auto simp: handleMoveStart_eq f)
qed

definition movePacket :: "int \<Rightarrow> int \<Rightarrow> f32 \<Rightarrow> eDirection \<Rightarrow> byte list" where
  "movePacket t k x d = enc 2 t @ enc 8 k @ encF x @ encF (f_lit 100 1) @ enc 1 d @ encF (f_lit 45 10)"

lemma movePacket_facts:
  "length (movePacket t k x d) = 23" "drop 2 (movePacket t k x d) = enc 8 k @ encF x @ encF (f_lit 100 1) @ enc 1 d @ encF (f_lit 45 10)"
  by (simp_all add: movePacket_def)

lemma fields_of_move:
  "fS 16 1 (enc 8 k @ encF x @ encF y @ enc 1 d @ encF v) = decS (enc 1 d)"
  "fF 17 (enc 8 k @ encF x @ encF y @ enc 1 d @ encF v) = decF (encF v)"
  "fPos (enc 8 k @ encF x @ encF y @ enc 1 d @ encF v) = Position (decF (encF x)) (decF (encF y))"
  by (simp_all add: fS_def fF_def fPos_def)

lemma move_start_broadcast_witness:
  "\<exists>p'. handleMoveStart (sampleMsg 1 (drop 2 (movePacket MOVE_START 101 (f_lit 104 1) DirRight))) 1 sampleField =
     Inr (sent MOVE_START [(2, packet 1000 2 MOVE_START (moveBody p' @ encF (plSpeed p')))] (putP p' sampleField)) \<and>
     plPos p' = Position (f_lit 104 1) (f_lit 100 1) \<and> plState p' = PMove"
proof -
  define u where "u = drop 2 (movePacket MOVE_START 101 (f_lit 104 1) DirRight)"
  have a: "aroundOf (Sector 0 0) = [Sector 0 0, Sector 0 1, Sector 1 0, Sector 1 1]" by code_simp
  have d: "decS (enc 1 DirRight) = DirRight" "dir_ok DirRight" "in_map (Position (f_lit 104 1) (f_lit 100 1))" by code_simp+
  have f: "fS 16 1 u = DirRight" "fF 17 u = f_lit 45 10" "fPos u = Position (f_lit 104 1) (f_lit 100 1)" "length u = 21"
    by (simp_all only: u_def movePacket_facts fields_of_move d) (simp_all add: decF_encF)
  have "\<not> f_lt syncDistance (pos_dist (Position (f_lit 100 1) (f_lit 100 1)) (Position (f_lit 104 1) (f_lit 100 1)))"
    by code_simp
  then have t: "\<not> tooFar (samplePlayer 1) (Position (f_lit 104 1) (f_lit 100 1))" by (simp add: tooFar_def)
  have "movement_ok u" using d(2,3) f by (simp add: movement_ok_def)
  then have "handleMoveStart (sampleMsg 1 u) 1 sampleField = Inr (sent MOVE_START
      [(2, packet 1000 2 MOVE_START (moveBody p' @ encF (plSpeed p')))] (putP p' sampleField))"
    if "p' = moved PMove (Position (f_lit 104 1) (f_lit 100 1)) DirRight (samplePlayer 1)" for p'
    using move_start_broadcast [OF sampleField_inv, of 1 "sampleMsg 1 u"] f t that
    by (simp add: a members_def)
  then show ?thesis unfolding u_def [symmetric] by (intro exI conjI, blast) (simp_all add: moved_def)
qed

text \<open>
  A \<open>MOVE_STOP\<close> of a walking player, within the limit of deviations, leaves it standing at the
  position of the packet, which everyone else around is told; one that is beyond the limit changes
  nothing but the account and has the session closed.
\<close>

theorem move_stop_broadcast:
  assumes inv: "field_inv s" and k: "k \<in> set (svPlayers s)" and msg: "readable msg" and u: "movement_ok (unread msg)"
    and st: "plState (theP s k) = PMove"
  defines "p \<equiv> theP s k" and "q \<equiv> fPos (unread msg)"
  defines "p' \<equiv> moved PIdle q (fS 16 1 (unread msg)) p"
  shows "handleMoveStop msg k s =
    (if tooFar p q
     then Inr ((putP (p\<lparr>plSyncCnt := syncAfter p q\<rparr>) s)\<lparr>svDiscon := svDiscon s @ [k],
                svDisconnectSync := svDisconnectSync s + 1\<rparr>)
     else Inr (sent MOVE_STOP
        (map (\<lambda>j. (j, packet (svNow s) j MOVE_STOP (moveBody p')))
          (filter (\<lambda>j. j \<noteq> k) (members (svSectors s) (aroundOf (plCurrentSector p))))) (putP p' s)))"
proof -
  note g = field_inv_player [OF inv k, folded p_def]
  have f: "findPlayer k s = Some p" using field_inv_findPlayer [OF inv, of k] k by (simp add: p_def)
  have seq: "plSeqID p' = k" using g(2) by (simp add: p'_def moved_def player_good_def)
  have q: "in_map q" "dir_ok (fS 16 1 (unread msg))" "17 \<le> length (unread msg)"
    using u by (simp_all add: movement_ok_def q_def)
  have st: "plState p = PMove" using st by (simp add: p_def)
  have mg: "player_good k p'" "keeps p p'"
    unfolding p'_def using moved_good [OF g(2) q(1,2), where t = PIdle] st by simp_all
  have "live near (putP p' s)" for near
    using field_inv_putP(1) [OF inv k mg(1)] mg(2) by (simp add: p_def)
  from broadcastMoveStop_eq [OF this, of p' "aroundOf (plCurrentSector p)"]
  have "broadcastMoveStop p' (aroundOf (plCurrentSector p)) (putP p' s) = Inr (sent MOVE_STOP
      (map (\<lambda>j. (j, packet (svNow s) j MOVE_STOP (moveBody p')))
        (filter (\<lambda>j. j \<noteq> k) (members (svSectors s) (aroundOf (plCurrentSector p))))) (putP p' s))"
    by (simp add: toMembers_def seq putP_def)
  then show ?thesis
    using moveStopBody_eq [OF g(2) q(1), of "fS 16 1 (unread msg)" s] st q(3)
    by (simp add: handleMoveStop_eq [OF msg] f q_def [symmetric] p'_def [symmetric] not_less
        disconnectSync_def Handlers.disconnectSession_def putP_def del: One_nat_def)
qed

definition sampleWalking :: server where
  "sampleWalking = putP ((samplePlayer 1)\<lparr>plState := PMove\<rparr>) sampleField"

lemma sampleWalking_inv: "field_inv sampleWalking"
proof -
  have "player_good 1 ((samplePlayer 1)\<lparr>plState := PMove\<rparr>)"
    using samplePlayer_good [of 1] by (simp add: player_good_def player_wf_def player_placed_def)
  then show ?thesis
    unfolding sampleWalking_def by (intro field_inv_putP(1) [OF sampleField_inv, of 1]) simp_all
qed

lemma move_stop_broadcast_witness:
  "\<exists>s'. handleMoveStop (sampleMsg 1 (take 17 (drop 2 (movePacket MOVE_STOP 101 (f_lit 600 1) DirRight)))) 1 sampleWalking = Inr s' \<and>
     svDiscon s' = [1] \<and> svDisconnectSync s' = 1"
proof -
  define u where "u = take 17 (drop 2 (movePacket MOVE_STOP 101 (f_lit 600 1) DirRight))"
  have d: "decS (enc 1 DirRight) = DirRight" "dir_ok DirRight" "in_map (Position (f_lit 600 1) (f_lit 100 1))" by code_simp+
  have "u = enc 8 101 @ encF (f_lit 600 1) @ encF (f_lit 100 1) @ enc 1 DirRight"
    by (simp add: u_def movePacket_facts)
  then have f: "fS 16 1 u = DirRight" "fPos u = Position (f_lit 600 1) (f_lit 100 1)" "length u = 17"
    by (simp_all add: fS_def fPos_def fF_def d(1) del: One_nat_def)
  have w: "theP sampleWalking 1 = (samplePlayer 1)\<lparr>plState := PMove\<rparr>" "svPlayers sampleWalking = [1, 2]"
    "svDiscon sampleWalking = []" "svDisconnectSync sampleWalking = 0"
    by (simp_all add: sampleWalking_def theP_putP) (simp_all add: putP_def sampleField_def newServer_def)
  have "f_lt syncDistance (pos_dist (Position (f_lit 100 1) (f_lit 100 1)) (Position (f_lit 600 1) (f_lit 100 1))) \<and>
    u64 (0 + f_trunc (f_sub (pos_dist (Position (f_lit 100 1) (f_lit 100 1)) (Position (f_lit 600 1) (f_lit 100 1))) syncDistance)) = 400"
    by code_simp
  then have t: "tooFar (theP sampleWalking 1) (fPos u)"
    by (simp add: tooFar_def syncAfter_def w f CONFIG_SINK_MAXCOUNT_def)
  have "movement_ok u" using d(2,3) f by (simp add: movement_ok_def)
  then show ?thesis
    using move_stop_broadcast [OF sampleWalking_inv, of 1 "sampleMsg 1 u"] f t
    by (simp add: u_def [symmetric] w)
qed

subsection \<open>Loot\<close>

text \<open>
  C4. An item is looted once: the player in reach who asks first has it added to the inventory, the
  item disappears from the table and from its sector, and whoever asks afterwards is refused and gets
  nothing.
\<close>

theorem loot_once:
  assumes inv: "field_inv s" and k: "k \<in> set (svPlayers s)" "j \<in> set (svPlayers s)"
    and i: "map_of (svItems s) i = Some it"
    and near: "\<not> f_lt LOOT_RANGE (pos_dist (plPos (theP s k)) (itPos it))"
    and a: "readable msg" "8 \<le> length (unread msg)" "fS 0 8 (unread msg) = i"
    and b: "readable msg'" "8 \<le> length (unread msg')" "fS 0 8 (unread msg') = i"
  shows "\<exists>s1 s2. handleLootReq msg k s = Inr s1 \<and> field_inv s1 \<and> svItems s1 = alDel i (svItems s) \<and>
    i \<notin> set (svItemSectors s1 (itSector it)) \<and>
    plInventory (theP s1 k) = addItem (itemByte (itItemId it)) (itCount it) (plInventory (theP s k)) \<and>
    handleLootReq msg' j s1 = Inr s2 \<and> svItems s2 = svItems s1 \<and> svObjs s2 = svObjs s1 \<and>
    svOut s2 = svOut s1 @ [(j, packet (svNow s1) j LOOT_RES (enc 1 1 @ enc 1 2 @ enc 4 0))]"
proof -
  have fk: "findPlayer k s = Some (theP s k)" using field_inv_findPlayer [OF inv] k by simp
  obtain s1 where s1: "lootBody i (theP s k) it s = Inr s1" "field_inv s1" "evolve 0 s s1"
      "svItems s1 = alDel i (svItems s)"
      "theP s1 k = (theP s k)\<lparr>plInventory := addItem (itemByte (itItemId it)) (itCount it) (plInventory (theP s k))\<rparr>"
    using lootBody_ok [OF inv k(1) i] by blast
  have run: "handleLootReq msg k s = Inr s1"
    using handleLootReq_body [OF a(1,2) fk] i near s1(1) a(3) by simp
  have gone: "map_of (svItems s1) i = None" using s1(4) by simp
  have "i \<notin> set (svItemSectors s1 (itSector it))"
    using s1(2) gone by (auto simp: field_inv_def inv_items_alt)
  moreover have j: "j \<in> set (svPlayers s1)" using k evolve_players [OF s1(3)] by simp
  have fj: "findPlayer j s1 = Some (theP s1 j)" using field_inv_findPlayer [OF s1(2)] j by simp
  have seq: "plSeqID (theP s1 j) = j" using field_inv_player(2) [OF s1(2) j] by (simp add: player_good_def)
  have "handleLootReq msg' j s1 = Inr (sent LOOT_RES
      [(j, packet (svNow s1) j LOOT_RES (enc 1 1 @ enc 1 2 @ enc 4 0))] s1)"
    using handleLootReq_body [OF b(1,2) fj] gone b(3) by (simp add: sendLootRes_eq seq)
  ultimately show ?thesis using run s1 by simp
qed

lemma loot_once_witness:
  "\<exists>s1 s2. handleLootReq (sampleMsg 1 (enc 8 1)) 1 sampleField = Inr s1 \<and> svItems s1 = [] \<and>
     plInventory (theP s1 1) = [(0, 5)] \<and> handleLootReq (sampleMsg 2 (enc 8 1)) 2 s1 = Inr s2 \<and> svObjs s2 = svObjs s1"
proof -
  have e: "fS 0 8 (enc 8 1) = 1" by code_simp
  have n: "\<not> f_lt LOOT_RANGE (pos_dist (Position (f_lit 100 1) (f_lit 100 1)) (Position (f_lit 100 1) (f_lit 100 1)))"
    by code_simp
  have a: "addItem (itemByte Gold) 5 [] = [(0, 5)]" by code_simp
  show ?thesis
    using loot_once [OF sampleField_inv, of 1 2 1 sampleItem "sampleMsg 1 (enc 8 1)" "sampleMsg 2 (enc 8 1)"] e n a
    by auto
qed

subsection \<open>Items on the ground\<close>

text \<open>The frames of one item.\<close>

primrec itemTicks :: "nat \<Rightarrow> int \<Rightarrow> server \<Rightarrow> server res" where
  "itemTicks 0 i s = Inr s"
| "itemTicks (Suc n) i s = bindR (itemTicks n i s) (tickItem i)"

text \<open>
  C33. An item lies on the ground for 1500 frames from its drop: it is there after each of the first
  1499, and the 1500th takes it from the table and from its sector and tells the players around.
\<close>

theorem item_lifetime:
  assumes inv: "field_inv s" and i: "map_of (svItems s) i = Some it" and new: "itLifeFrame it = 0"
  shows "(\<forall>n < 1500. \<exists>s'. itemTicks n i s = Inr s' \<and> field_inv s' \<and>
      map_of (svItems s') i = Some (it\<lparr>itLifeFrame := int n\<rparr>) \<and> svOut s' = svOut s) \<and>
    (\<exists>s'. itemTicks 1500 i s = Inr s' \<and> field_inv s' \<and> map_of (svItems s') i = None \<and>
      i \<notin> set (svItemSectors s' (itSector it)) \<and>
      svOut s' = svOut s @ toMembers (aroundOf (itSector it)) ITEM_DESPAWN (enc 8 i) (\<lambda>_. False) s)"
proof -
  define same where "same s' \<longleftrightarrow> svOut s' = svOut s \<and> svSectors s' = svSectors s \<and> svNow s' = svNow s" for s' :: server
  have steps: "n < 1500 \<Longrightarrow> \<exists>s'. itemTicks n i s = Inr s' \<and> field_inv s' \<and>
      map_of (svItems s') i = Some (it\<lparr>itLifeFrame := int n\<rparr>) \<and> same s'" for n
  proof (induction n)
    case 0
    then show ?case using inv i new by (cases it) (simp add: same_def)
  next
    case (Suc n)
    then obtain s1 where s1: "itemTicks n i s = Inr s1" "field_inv s1"
        "map_of (svItems s1) i = Some (it\<lparr>itLifeFrame := int n\<rparr>)" "same s1" by auto
    define it1 where "it1 = it\<lparr>itLifeFrame := int (Suc n)\<rparr>"
    have g: "item_good i it1" using field_inv_item [OF inv i] Suc.prems by (simp add: item_good_def it1_def)
    have key: "itItemUniqueId it = i" using field_inv_item [OF inv i] by (simp add: item_good_def)
    have t: "tickItem i s1 = Inr (putI it1 s1)"
      using tickItem_eq [OF s1(2,3)] Suc.prems by (simp add: it1_def add.commute)
    have "field_inv (putI it1 s1)" by (rule putI_ok(1) [OF s1(2,3) g]) (simp add: it1_def)
    moreover have "map_of (svItems (putI it1 s1)) i = Some it1" by (simp add: putI_def it1_def key)
    moreover have "same (putI it1 s1)" using s1(4) by (simp add: same_def putI_def)
    ultimately show ?case using s1(1) t by (simp add: it1_def)
  qed
  obtain s1 where s1: "itemTicks 1499 i s = Inr s1" "field_inv s1"
      "map_of (svItems s1) i = Some (it\<lparr>itLifeFrame := 1499\<rparr>)" "same s1" using steps [of 1499] by auto
  define it1 where "it1 = it\<lparr>itLifeFrame := 1500\<rparr>"
  have key: "itItemUniqueId it1 = i" using field_inv_item [OF inv i] by (simp add: item_good_def it1_def)
  have lv: "live near (putI it1 s1)" for near using field_inv_live [OF s1(2)] by (simp add: live_def putI_def)
  have t: "tickItem i s1 = Inr ((sent ITEM_DESPAWN (toMembers (aroundOf (itSector it)) ITEM_DESPAWN (enc 8 i) (\<lambda>_. False) (putI it1 s1))
      (putI it1 s1))\<lparr>svItemSectors := delSector (itSector it) i (svItemSectors s1), svItems := alDel i (svItems s1)\<rparr>)"
    using tickItem_eq [OF s1(2,3)] broadcastItemDespawn_eq [OF lv, of it1] key
    by (simp add: it1_def [symmetric] putI_def alDel_alUpd)
  have "field_inv s'" if "tickItem i s1 = Inr s'" for s'
    using tickItem_okn [OF s1(2), of i] s1(3) that by (simp add: okf_def)
  then have inv': "\<exists>s'. tickItem i s1 = Inr s' \<and> field_inv s'" using t by blast
  have "itemTicks 1500 i s = tickItem i s1" using s1(1) itemTicks.simps(2) [of 1499 i s] by (simp del: itemTicks.simps)
  then show ?thesis using steps s1(4) inv' t
    by (auto simp: same_def toMembers_def putI_def delSector_def)
qed

lemma item_lifetime_witness:
  "(\<exists>s'. itemTicks 1499 1 sampleField = Inr s' \<and> map_of (svItems s') 1 \<noteq> None) \<and>
   (\<exists>s'. itemTicks 1500 1 sampleField = Inr s' \<and> map_of (svItems s') 1 = None)"
proof -
  have n: "(1499 :: nat) < 1500" by simp
  note r = item_lifetime [OF sampleField_inv, of 1 sampleItem, simplified]
  show ?thesis using r spec [OF conjunct1 [OF r], of 1499] n by fastforce
qed

subsection \<open>Packets the server does not survive\<close>

text \<open>
  A packet that ends before its fields makes the extraction throw, and nothing catches it: every
  prefix that is too short for its type ends in \<open>HasNotData\<close>.
\<close>

definition bodySize :: "int \<Rightarrow> nat" where
  "bodySize t = (if t = MOVE_START then 21 else if t = MOVE_STOP then 17 else if t = PLAYER_ATTACK_REQ then 3
     else if t = LOOT_REQ then 8 else 0)"

theorem short_packet_throws:
  assumes "readable msg" "length (unread msg) < 2 \<or> (0 \<le> t \<and> t < kTableSize \<and> length (unread msg) < 2 + bodySize t)"
    and "t = fS 0 2 (unread msg)"
  shows "fieldContentsPacketProc msg s = Inl HasNotData"
proof (cases "length (unread msg) < 2")
  case True
  then show ?thesis using assms(1) by (simp add: fieldContentsPacketProc_def getS_eq)
next
  case False
  define s1 where "s1 = s\<lparr>svRecvCount := (svRecvCount s)(t := svRecvCount s t + 1)\<rparr>"
  define m where "m = adv 2 msg"
  have m: "readable m" "length (unread m) = length (unread msg) - 2" using assms(1) False by (simp_all add: m_def)
  have t: "0 \<le> t" "t < kTableSize" "length (unread m) < bodySize t" using assms(2) False m(2) by auto
  have d: "t = decS (take 2 (unread msg))" using assms(3) by (simp add: fS_def)
  have run: "fieldContentsPacketProc msg s =
      (if t = MOVE_START then handleMoveStart m (mOwnerID msg) s1
       else if t = MOVE_STOP then handleMoveStop m (mOwnerID msg) s1
       else if t = PLAYER_ATTACK_REQ then handleAttackReq m (mOwnerID msg) s1
       else if t = LOOT_REQ then handleLootReq m (mOwnerID msg) s1
       else if t = RANKING_REQ then handleRankingReq m (mOwnerID msg) s1
       else Inr (Handlers.disconnectSession (mOwnerID msg) s1))"
    using assms(1) False t
    by (simp add: fieldContentsPacketProc_def getS_eq RecordRecv_def d [symmetric] m_def [symmetric] s1_def [symmetric])
  have "handleAttackReq m k s1 = Inl HasNotData" if "length (unread m) < 3" for k
    using m(1) that by (auto simp: handleAttackReq_def getS_eq)
  then show ?thesis using t(3) m(1) run
    by (auto simp: bodySize_def handleMoveStart_eq handleMoveStop_eq handleLootReq_eq split: if_splits)
qed

lemma short_packet_throws_witness:
  "fieldContentsPacketProc (sampleMsg 1 [0]) sampleField = Inl HasNotData \<and>
   fieldContentsPacketProc (sampleMsg 1 (enc 2 MOVE_START @ [1, 2, 3])) sampleField = Inl HasNotData"
proof
  have "fS 0 2 (enc 2 MOVE_START @ [1, 2, 3]) = 106" by code_simp
  then show "fieldContentsPacketProc (sampleMsg 1 (enc 2 MOVE_START @ [1, 2, 3])) sampleField = Inl HasNotData"
    by (intro short_packet_throws [of _ 106]) (simp_all add: bodySize_def kTableSize_def packet_defs)
qed (rule short_packet_throws, simp_all)

text \<open>Positions that are no number.\<close>

lemma int_mod_once: "m \<le> x \<Longrightarrow> x < 2 * m \<Longrightarrow> x mod m = x - m" for x m :: int
  using mod_pos_pos_trivial [of "x - m" m] by simp

lemma f_nan_quiet: "f_nan a \<Longrightarrow> f_nan (f_quiet a)"
proof -
  assume n: "f_nan a"
  show ?thesis
  proof (cases "uint a div 4194304 mod 2 = 1")
    case False
    have r: "uint a < 4294967296" using uint_lt2p [of a] by simp
    have m: "2139095040 < uint a mod 2147483648" using n by (simp add: f_nan_def f_mag_def)
    have "uint a + 4194304 < 4294967296 \<and> 2139095040 < (uint a + 4194304) mod 2147483648"
    proof (cases "uint a < 2147483648")
      case True
      then have "uint a div 4194304 = 510 \<or> uint a div 4194304 = 511" using m by auto
      then show ?thesis using False True m by auto
    next
      case big: False
      then have k: "uint a mod 2147483648 = uint a - 2147483648"
        using r int_mod_once [of 2147483648 "uint a"] by simp
      then have "uint a div 4194304 = 1022 \<or> uint a div 4194304 = 1023" using m r by auto
      then have "uint a < 4290772992" using False by auto
      then have "(uint a + 4194304) mod 2147483648 = uint a + 4194304 - 2147483648"
        using big int_mod_once [of 2147483648 "uint a + 4194304"] by simp
      then show ?thesis using m k \<open>uint a < 4290772992\<close> by simp
    qed
    moreover from this have "uint (a + 4194304) = uint a + 4194304" by (simp add: uint_word_ariths)
    ultimately show ?thesis using False by (simp add: f_quiet_def f_nan_def f_mag_def)
  qed (use n in \<open>simp add: f_quiet_def\<close>)
qed

lemma f_nan_ops:
  "f_nan b \<Longrightarrow> f_nan (f_sub a b)" "f_nan a \<Longrightarrow> f_nan (f_mul a b)" "f_nan a \<Longrightarrow> f_nan (f_add a b)"
  "f_nan a \<Longrightarrow> f_nan (f_sqrt a)" "f_nan a \<Longrightarrow> f_nan (f_clamp a lo hi)"
  by (simp_all add: f_sub_def f_mul_def f_add_def f_sqrt_def f_clamp_def f_lt_def f_nan_quiet Let_def)

lemma nan_distance: "f_nan (posX q) \<Longrightarrow> f_nan (pos_dist p q)"
  by (simp add: pos_dist_def f_nan_ops)

text \<open>
  C40. A \<open>MOVE_START\<close> with an abscissa that is no number passes the check of the position, whose
  comparison with a NaN is false, and the next frame converts the NaN to an integer, which is undefined.
\<close>

theorem nan_position_undefined:
  assumes inv: "field_inv s" and k: "k \<in> set (svPlayers s)" and msg: "readable msg" "21 \<le> length (unread msg)"
    and st: "plState (theP s k) = PIdle" "plBConnect (theP s k)" and nan: "f_nan (fF 8 (unread msg))"
    and u: "dir_ok (fS 16 1 (unread msg))" "fF 17 (unread msg) = f_lit 45 10"
  shows "\<exists>s'. handleMoveStart msg k s = Inr s' \<and> tickPlayer 0 k s' = Inl UndefinedBehaviour"
proof -
  define p q d where "p = theP s k" and "q = fPos (unread msg)" and "d = fS 16 1 (unread msg)"
  define p' where "p' = moved PMove q d p"
  note g = field_inv_player [OF inv k, folded p_def]
  have st: "plState p = PIdle" "plBConnect p" using st by (simp_all add: p_def)
  have f: "findPlayer k s = Some p" using field_inv_findPlayer [OF inv, of k] k by (simp add: p_def)
  have seq: "plSeqID p = k" "plSpeed p = f_lit 45 10" "sector_ok (plCurrentSector p)"
    using g(2) by (simp_all add: player_good_def player_wf_def)
  have sp: "f_eq (f_lit 45 10) (f_lit 45 10)" by code_simp
  have nq: "f_nan (posX q)" using nan by (simp add: q_def fPos_def)
  have nd: "\<not> f_lt syncDistance (pos_dist (plPos p) q)" using nan_distance [OF nq] by (simp add: f_lt_def)
  have body: "moveStartBody q d (f_lit 45 10) k p s = broadcastMoveStart p' (aroundOf (plCurrentSector p)) (putP p' s)"
    using nd st sp seq
    by (simp add: moveStartBody_def syncCheck_def Player.changeState_def Player.resetAnimStart_def getAroundSectors_eq
        p'_def moved_def syncAfter_def Let_def)
  have lv: "live near (putP p' s)" for near
    using field_inv_live [OF inv, of near] seq by (auto simp: live_def putP_def p'_def moved_def)
  obtain ms where run: "handleMoveStart msg k s = Inr (sent MOVE_START ms (putP p' s))"
    using body broadcastMoveStart_eq [OF lv] msg st u(2)
    by (simp add: handleMoveStart_eq [OF msg(1)] f q_def [symmetric] d_def [symmetric] not_less del: One_nat_def)
  have obj: "map_of (svObjs (sent MOVE_START ms (putP p' s))) k = Some p'"
    using seq by (simp add: putP_def p'_def moved_def)
  obtain v where v: "dirVector d = Inr v" using dirVector_ok [OF u(1)] unfolding d_def by blast
  obtain p2 where p2: "Player.update p' = Inr p2" "f_nan (posX (plPos p2))" "plState p2 = PMove" "plSeqID p2 = k"
    using v st(2) nq seq
    by (auto simp: Player.update_def Player.moveUpdate_def p'_def moved_def moveTo_def f_nan_ops Let_def)
  have "tickPlayer 0 k (sent MOVE_START ms (putP p' s)) = Inl UndefinedBehaviour"
    using obj p2 calcSector_nan [OF p2(2)]
    by (simp add: tickPlayer_def derefP_def updateSectorChechk_def putP_def)
  then show ?thesis using run by blast
qed

lemma nan_position_undefined_witness:
  "\<exists>s'. handleMoveStart (sampleMsg 1 (drop 2 (movePacket MOVE_START 101 f_default_nan DirRight))) 1 sampleField = Inr s' \<and>
     tickPlayer 0 1 s' = Inl UndefinedBehaviour"
proof -
  define u where "u = drop 2 (movePacket MOVE_START 101 f_default_nan DirRight)"
  have d: "decS (enc 1 DirRight) = DirRight" "dir_ok DirRight" "f_nan f_default_nan" by code_simp+
  have f: "fS 16 1 u = DirRight" "fF 17 u = f_lit 45 10" "fF 8 u = f_default_nan" "length u = 21"
    by (simp_all only: u_def movePacket_facts fields_of_move d) (simp_all add: decF_encF fF_def)
  show ?thesis unfolding u_def [symmetric]
    by (rule nan_position_undefined [OF sampleField_inv]) (use f d(2,3) in simp_all)
qed

text \<open>
  C40. The direction of a packet is not checked: a \<open>MOVE_START\<close> with a direction outside the table is
  taken, and the next frame reads the table out of its bounds.
\<close>

theorem bad_direction_undefined:
  assumes inv: "field_inv s" and k: "k \<in> set (svPlayers s)" and msg: "readable msg" "21 \<le> length (unread msg)"
    and st: "plState (theP s k) = PIdle" "plBConnect (theP s k)" and q: "in_map (fPos (unread msg))"
    and near: "\<not> tooFar (theP s k) (fPos (unread msg))"
    and u: "\<not> dir_ok (fS 16 1 (unread msg))" "fF 17 (unread msg) = f_lit 45 10"
  shows "\<exists>s'. handleMoveStart msg k s = Inr s' \<and> tickPlayer 0 k s' = Inl UndefinedBehaviour"
proof -
  define p q d where "p = theP s k" and "q = fPos (unread msg)" and "d = fS 16 1 (unread msg)"
  define p' where "p' = moved PMove q d p"
  note g = field_inv_player [OF inv k, folded p_def]
  have st: "plState p = PIdle" "plBConnect p" using st by (simp_all add: p_def)
  have f: "findPlayer k s = Some p" using field_inv_findPlayer [OF inv, of k] k by (simp add: p_def)
  have seq: "plSeqID p = k" "plSpeed p = f_lit 45 10" using g(2) by (simp_all add: player_good_def player_wf_def)
  have sp: "f_eq (plSpeed p) (f_lit 45 10)" unfolding seq by code_simp
  have body: "moveStartBody q d (f_lit 45 10) k p s = broadcastMoveStart p' (aroundOf (plCurrentSector p)) (putP p' s)"
    using moveStartBody_eq [OF g(2) _ sp, of q d s] assms(7) near st by (simp add: q_def p_def p'_def)
  have lv: "live near (putP p' s)" for near
    using field_inv_live [OF inv, of near] seq by (auto simp: live_def putP_def p'_def moved_def)
  obtain ms where run: "handleMoveStart msg k s = Inr (sent MOVE_START ms (putP p' s))"
    using body broadcastMoveStart_eq [OF lv] msg st u(2)
    by (simp add: handleMoveStart_eq [OF msg(1)] f q_def [symmetric] d_def [symmetric] not_less del: One_nat_def)
  have obj: "map_of (svObjs (sent MOVE_START ms (putP p' s))) k = Some p'"
    using seq by (simp add: putP_def p'_def moved_def)
  have "Player.update p' = Inl UndefinedBehaviour"
    using dirVector_bad u(1) st(2) by (simp add: Player.update_def Player.moveUpdate_def p'_def moved_def d_def Let_def)
  then have "tickPlayer 0 k (sent MOVE_START ms (putP p' s)) = Inl UndefinedBehaviour"
    using obj by (simp add: tickPlayer_def derefP_def)
  then show ?thesis using run by blast
qed

lemma bad_direction_undefined_witness:
  "\<exists>s'. handleMoveStart (sampleMsg 1 (drop 2 (movePacket MOVE_START 101 (f_lit 104 1) 100))) 1 sampleField = Inr s' \<and>
     tickPlayer 0 1 s' = Inl UndefinedBehaviour"
proof -
  define u where "u = drop 2 (movePacket MOVE_START 101 (f_lit 104 1) 100)"
  have d: "decS (enc 1 100) = 100" "in_map (Position (f_lit 104 1) (f_lit 100 1))" "\<not> dir_ok 100" by code_simp+
  have f: "fS 16 1 u = 100" "fF 17 u = f_lit 45 10" "fPos u = Position (f_lit 104 1) (f_lit 100 1)" "length u = 21"
    by (simp_all only: u_def movePacket_facts fields_of_move d) (simp_all add: decF_encF)
  have "\<not> f_lt syncDistance (pos_dist (Position (f_lit 100 1) (f_lit 100 1)) (Position (f_lit 104 1) (f_lit 100 1)))"
    by code_simp
  then have t: "\<not> tooFar (samplePlayer 1) (fPos u)" by (simp add: tooFar_def f)
  show ?thesis unfolding u_def [symmetric]
    by (rule bad_direction_undefined [OF sampleField_inv]) (use f d(2,3) t in simp_all)
qed

end
