(* ===== verification/CombatProps.thy ===== *)
theory CombatProps
  imports PacketProps
begin

text \<open>
  The properties of combat and of sight: who is struck, what a hit does, who is told what when a player
  enters the field or changes sectors, and what a client reads from the batches it is sent.
\<close>

subsection \<open>Attacks\<close>

text \<open>
  An attack request for an unknown skill or for more targets than the skill has closes the session;
  one of a dead, attacking or stunned player is ignored; otherwise the player goes into the attack, its
  targets are remembered for the frame of the hit, and everyone else around is told.
\<close>

theorem attack_request:
  assumes inv: "field_inv s" and k: "k \<in> set (svPlayers s)" and msg: "readable msg" "3 \<le> length (unread msg)"
  defines "p \<equiv> theP s k" and "cnt \<equiv> fS 1 2 (unread msg)"
  defines "p' \<equiv> p\<lparr>plState := PAttack, plAnimFrame := 0, plStartMovePos := plPos p, plPendingAttackSkillId := 0\<rparr>"
  defines "ts \<equiv> map (\<lambda>i. fS (3 + 8 * i) 8 (unread msg)) [0..<nat cnt]"
  shows "(fS 0 1 (unread msg) \<noteq> 0 \<or> 1 < cnt \<longrightarrow> handleAttackReq msg k s = Inr (s\<lparr>svDiscon := svDiscon s @ [k]\<rparr>)) \<and>
    (fS 0 1 (unread msg) = 0 \<and> cnt \<le> 1 \<and> plState p \<in> {PDead, PAttack, PStun} \<longrightarrow> handleAttackReq msg k s = Inr s) \<and>
    (fS 0 1 (unread msg) = 0 \<and> cnt \<le> 1 \<and> plState p \<in> {PIdle, PMove} \<and> 3 + 8 * nat cnt \<le> length (unread msg) \<longrightarrow>
      handleAttackReq msg k s = Inr (putP (p'\<lparr>plPendingAttackTargets := ts\<rparr>) (sent OTHER_CHARACTER_ATTACK
        (map (\<lambda>j. (j, packet (svNow s) j OTHER_CHARACTER_ATTACK (enc 8 (plCharacterID p))))
          (filter (\<lambda>j. j \<noteq> k) (members (svSectors s) (aroundOf (plCurrentSector p))))) (putP p' s))))"
proof -
  note g = field_inv_player [OF inv k, folded p_def]
  have f: "findPlayer k s = Some p" using field_inv_findPlayer [OF inv, of k] k by (simp add: p_def)
  have seq: "plSeqID p = k" "sector_ok (plCurrentSector p)" using g(2) by (simp_all add: player_good_def)
  have lv: "live near (putP p' s)" for near
    using field_inv_live [OF inv, of near] seq by (auto simp: live_def putP_def p'_def)
  have b: "broadcastPlayerAttack p' (aroundOf (plCurrentSector p)) (putP p' s) = Inr (sent OTHER_CHARACTER_ATTACK
        (map (\<lambda>j. (j, packet (svNow s) j OTHER_CHARACTER_ATTACK (enc 8 (plCharacterID p))))
          (filter (\<lambda>j. j \<noteq> k) (members (svSectors s) (aroundOf (plCurrentSector p))))) (putP p' s))"
    using broadcastPlayerAttack_eq [OF lv] seq by (simp add: toMembers_def putP_def) (simp add: p'_def)
  have r: "readTargets (nat cnt) (adv 3 msg) = Inr ts" if "3 + 8 * nat cnt \<le> length (unread msg)"
    using readTargets_eq [of "adv 3 msg" "nat cnt"] that msg by (simp add: ts_def fS_def add.commute)
  note run = handleAttackReq_eq [OF msg, of k s, folded cnt_def, unfolded f Let_def]
  have "handleAttackReq msg k s = Inr (putP (p'\<lparr>plPendingAttackTargets := ts\<rparr>) (sent OTHER_CHARACTER_ATTACK
        (map (\<lambda>j. (j, packet (svNow s) j OTHER_CHARACTER_ATTACK (enc 8 (plCharacterID p))))
          (filter (\<lambda>j. j \<noteq> k) (members (svSectors s) (aroundOf (plCurrentSector p))))) (putP p' s)))"
    if h: "fS 0 1 (unread msg) = 0" "cnt \<le> 1" "plState p = PIdle \<or> plState p = PMove" "3 + 8 * nat cnt \<le> length (unread msg)"
  proof -
    have "(if plState p \<noteq> PAttack then Player.changeState PAttack p else Inr (p\<lparr>plAnimFrame := 0\<rparr>)) =
        Inr (p\<lparr>plState := PAttack, plAnimFrame := 0, plStartMovePos := plPos p\<rparr>)"
      using h(3) by (auto simp: Player.changeState_def Player.resetAnimStart_def)
    moreover have "\<not> (plState p = PDead \<or> plState p = PAttack \<or> plState p = PStun)" using h(3) by auto
    ultimately show ?thesis
      using run h(1,2) seq(2) b r [OF h(4)] by (simp add: getAroundSectors_eq) (simp add: p'_def)
  qed
  moreover have "handleAttackReq msg k s = Inr (s\<lparr>svDiscon := svDiscon s @ [k]\<rparr>)" if "fS 0 1 (unread msg) \<noteq> 0 \<or> 1 < cnt"
    using run that by (simp add: Handlers.disconnectSession_def)
  moreover have "handleAttackReq msg k s = Inr s"
    if "fS 0 1 (unread msg) = 0" "cnt \<le> 1" "plState p = PDead \<or> plState p = PAttack \<or> plState p = PStun"
    using run that by simp
  ultimately show ?thesis by blast
qed

lemma attack_request_witness:
  "handleAttackReq (sampleMsg 1 [9, 0, 0]) 1 sampleField = Inr (sampleField\<lparr>svDiscon := [1]\<rparr>) \<and>
   (\<exists>s'. handleAttackReq (sampleMsg 1 ([0] @ enc 2 1 @ enc 8 5)) 1 sampleField = Inr s' \<and>
     plPendingAttackTargets (theP s' 1) = [5] \<and> plState (theP s' 1) = PAttack)"
proof -
  have f: "fS 0 1 [9, 0, 0] = 9" "fS 0 1 ([0] @ enc 2 1 @ enc 8 5) = 0" "fS 1 2 ([0] @ enc 2 1 @ enc 8 5) = 1"
    "fS (3 + 8 * 0) 8 ([0] @ enc 2 1 @ enc 8 5) = 5" "length ([0] @ enc 2 1 @ enc 8 5) = 11" by (code_simp | simp)+
  have d: "svDiscon sampleField = []" by (simp add: sampleField_def newServer_def)
  have a: "handleAttackReq (sampleMsg 1 [9, 0, 0]) 1 sampleField = Inr (sampleField\<lparr>svDiscon := [1]\<rparr>)"
    using attack_request [OF sampleField_inv, of 1 "sampleMsg 1 [9, 0, 0]"] f(1) d by simp
  define m where "m = sampleMsg 1 ([0] @ enc 2 1 @ enc 8 5)"
  have "unread m = [0] @ enc 2 1 @ enc 8 5" "readable m" by (simp_all only: m_def sampleMsg_simps)
  note b = attack_request [OF sampleField_inv, of 1 m, unfolded this(1), OF _ this(2)]
  have "\<exists>s'. handleAttackReq m 1 sampleField = Inr s' \<and> plPendingAttackTargets (theP s' 1) = [5] \<and>
      plState (theP s' 1) = PAttack"
    using b f(2-) by (auto simp: theP_putP)
  then show ?thesis using a unfolding m_def by blast
qed

text \<open>
  C31. A monster's strike hits the closest of the living players within its reach in the nine sectors
  around it (one whose distance no other undercuts), takes the damage off its health down to 0, and
  leaves every other player alone; without such a player nothing happens.
\<close>

theorem monster_strikes_closest:
  assumes inv: "field_inv s" and m: "map_of (svMonsters s) n = Some m"
  defines "dist k \<equiv> pos_dist (mnPos m) (plPos (theP s k))"
  defines "C \<equiv> {k \<in> set (members (svSectors s) (aroundOf (mnSector m))). \<not> IsDead (theP s k) \<and> f_le (dist k) MONSTER_ATTACK_RANGE}"
  shows "\<exists>s'. processMonsterAttackHit m s = Inr s' \<and> field_inv s' \<and> svMonsters s' = svMonsters s \<and>
    (if C = {} then s' = s
     else \<exists>j \<in> C. (\<forall>i \<in> C. f_le (dist j) (dist i)) \<and>
       plHp (theP s' j) = max (plHp (theP s j) - MONSTER_ATTACK_DAMAGE) 0 \<and> (\<forall>i. i \<noteq> j \<longrightarrow> theP s' i = theP s i))"
proof -
  have g: "monster_good n m" by (rule field_inv_monster [OF inv m])
  obtain s' acc where s': "processMonsterAttackHit m s = Inr s'" "field_inv s'" "svMonsters s' = svMonsters s"
      "closest_of (\<lambda>k. IsDead (theP s k)) dist MONSTER_ATTACK_RANGE (members (svSectors s) (aroundOf (mnSector m))) acc"
      "case fst acc of None \<Rightarrow> s' = s
        | Some j \<Rightarrow> \<exists>p. Player.takeDamage MONSTER_ATTACK_DAMAGE (mnPos m) (mnDirection m) (theP s j) = Inr p \<and>
            svObjs s' = alUpd j p (svObjs s) \<and>
            broadcastCharacterDamaged p m (aroundOf (plCurrentSector p)) (putP p s) = Inr s'"
    using processMonsterAttackHit_ok [OF inv g] unfolding dist_def by blast
  show ?thesis
  proof (cases "fst acc")
    case None
    then have "C = {}" using s'(4) by (auto simp: closest_of_def C_def)
    then show ?thesis using None s' by simp
  next
    case (Some j)
    have j: "j \<in> C" using Some s'(4) by (auto simp: closest_of_def C_def)
    have best: "\<forall>i \<in> C. f_le (dist j) (dist i)"
      using Some s'(4) by (auto simp: closest_of_def C_def f_le_def)
    obtain p where p: "Player.takeDamage MONSTER_ATTACK_DAMAGE (mnPos m) (mnDirection m) (theP s j) = Inr p"
        "svObjs s' = alUpd j p (svObjs s)" using Some s'(5) by auto
    have jp: "j \<in> set (svPlayers s)" using j player_good_members [OF inv] by (auto simp: C_def)
    note pg = field_inv_player(2) [OF inv jp]
    have d: "dir_ok (mnDirection m)" using g by (simp add: monster_good_def monster_wf_def)
    have "plHp p = max (plHp (theP s j) - MONSTER_ATTACK_DAMAGE) 0"
      using player_takeDamage_ok [of "theP s j" "mnDirection m" MONSTER_ATTACK_DAMAGE "mnPos m"] pg d p(1) j
      by (auto simp: player_good_def MONSTER_ATTACK_DAMAGE_def C_def)
    moreover have "theP s' j = p" "i \<noteq> j \<Longrightarrow> theP s' i = theP s i" for i
      using p(2) by (simp_all add: theP_def)
    ultimately show ?thesis using s'(1-3) j best by (auto intro!: bexI [of _ j])
  qed
qed

lemma monster_strikes_closest_witness:
  "\<exists>s' j. processMonsterAttackHit fieldMonster sampleField = Inr s' \<and> j \<in> {1, 2} \<and> plHp (theP s' j) = 90"
proof -
  have a: "aroundOf (Sector 0 0) = [Sector 0 0, Sector 0 1, Sector 1 0, Sector 1 1]" by code_simp
  have r: "f_le (pos_dist (Position (f_lit 110 1) (f_lit 100 1)) (Position (f_lit 100 1) (f_lit 100 1))) MONSTER_ATTACK_RANGE"
    by code_simp
  obtain s' where s': "processMonsterAttackHit fieldMonster sampleField = Inr s'"
      "\<exists>j \<in> {1, 2}. plHp (theP s' j) = max (plHp (theP sampleField j) - MONSTER_ATTACK_DAMAGE) 0"
    using monster_strikes_closest [OF sampleField_inv, of 5 fieldMonster] r
    by (auto simp: a members_def split: if_splits)
  then show ?thesis by (auto simp: MONSTER_ATTACK_DAMAGE_def)
qed

text \<open>
  C2. In the frame of its hit an attacking player strikes the nearest of its targets that exist, are
  neither dead nor returning and are in reach (of several at the same distance the one of smallest
  number). The monster loses the damage; if that kills it, one item lies where it fell and one job
  adds the kill to the player's account, otherwise it is stunned and turns on the player.
\<close>

theorem player_strikes_nearest:
  assumes inv: "field_inv s" and k: "k \<in> set (svPlayers s)" and room: "room 1 s"
    and skill: "plPendingAttackSkillId (theP s k) = 0"
  defines "p \<equiv> theP s k"
  defines "C \<equiv> {j \<in> set (plPendingAttackTargets p). validTarget s j \<and> inReach p (f_of_int 160) s j}"
  shows "\<exists>s'. processPlayerAttackHit p 0 s = Inr s' \<and> field_inv s' \<and>
    (if C = {} then svMonsters s' = svMonsters s \<and> svItems s' = svItems s \<and> svDBReqQ s' = svDBReqQ s
     else \<exists>j \<in> C. \<exists>m m'. map_of (svMonsters s) j = Some m \<and>
       (\<forall>i \<in> C. byDist (\<lambda>j. key (targetDist p s j)) j i) \<and>
       svMonsters s' = alUpd j m' (svMonsters s) \<and> mnHp m' = max (mnHp m - PLAYER_ATTACK_DAMAGE) 0 \<and>
       (if mnHp m \<le> PLAYER_ATTACK_DAMAGE
        then mnState m' = MDead \<and>
          svDBReqQ s' = svDBReqQ s @ [DBKillCountUpdate k (plAccountNo p) (plNickname p) 1] \<and>
          (\<exists>it. svItems s' = svItems s @ [(svItemUniqueID s + 1, it)] \<and> itPos it = mnPos m')
        else mnState m' = MStun \<and> mnTargetPlayerID m' = k \<and> svDBReqQ s' = svDBReqQ s \<and> svItems s' = svItems s))"
proof -
  define s1 where "s1 = putP (p\<lparr>plPendingAttackTargets := sortBy (targetLess p s)
                      (filter (validTarget s) (plPendingAttackTargets p))\<rparr>) s"
  obtain s' where s': "processPlayerAttackHit p 0 s = Inr s'" "field_inv s'" "field_inv s1" "evolve 0 s s1"
      "if C = {} then s' = s1
       else \<exists>j \<in> C. (\<forall>i \<in> C. byDist (\<lambda>j. key (targetDist p s j)) j i) \<and>
         hitMonster (theP s1 k) 0 (the (map_of (svMonsters s) j)) s1 = Inr s'"
    using processPlayerAttackHit_ok [OF inv k room skill] unfolding C_def s1_def p_def by blast
  have g: "player_good k p" using field_inv_player(2) [OF inv k] by (simp add: p_def)
  have f: "svMonsters s1 = svMonsters s" "svItems s1 = svItems s" "svDBReqQ s1 = svDBReqQ s" "svItemUniqueID s1 = svItemUniqueID s"
    by (simp_all add: s1_def putP_def)
  have q: "theP s1 k = p\<lparr>plPendingAttackTargets := sortBy (targetLess p s) (filter (validTarget s) (plPendingAttackTargets p))\<rparr>"
    unfolding s1_def using g by (intro theP_putP) (simp add: player_good_def)
  show ?thesis
  proof (cases "C = {}")
    case True
    then show ?thesis using s' f by simp
  next
    case False
    then obtain j where j: "j \<in> C" "\<forall>i \<in> C. byDist (\<lambda>j. key (targetDist p s j)) j i"
        "hitMonster (theP s1 k) 0 (the (map_of (svMonsters s) j)) s1 = Inr s'" using s'(5) by auto
    obtain m where m: "map_of (svMonsters s) j = Some m" "mnState m \<noteq> MDead" "mnState m \<noteq> MReturn"
      using j(1) by (auto simp: C_def elim: validTarget_cases)
    have room1: "room 1 s1" using room_le [OF room s'(4)] .
    have pd: "dir_ok (plDirection (theP s1 k))" "plAttackPower (theP s1 k) = PLAYER_ATTACK_DAMAGE"
      using g by (simp_all add: q player_good_def player_placed_def player_wf_def)
    have fields: "plSeqID (theP s1 k) = k" "plAccountNo (theP s1 k) = plAccountNo p" "plNickname (theP s1 k) = plNickname p"
      using g by (simp_all add: q player_good_def)
    obtain m' where m': "svMonsters s' = alUpd j m' (svMonsters s)" "mnHp m' = max (mnHp m - PLAYER_ATTACK_DAMAGE) 0"
        "if mnHp m \<le> PLAYER_ATTACK_DAMAGE
         then mnState m' = MDead \<and>
           svDBReqQ s' = svDBReqQ s @ [DBKillCountUpdate k (plAccountNo p) (plNickname p) 1] \<and>
           (\<exists>it. svItems s' = svItems s @ [(svItemUniqueID s + 1, it)] \<and> itPos it = mnPos m')
         else mnState m' = MStun \<and> mnTargetPlayerID m' = k \<and> svDBReqQ s' = svDBReqQ s \<and> svItems s' = svItems s"
    proof -
      have ms: "map_of (svMonsters s1) j = Some m" using m(1) by (simp add: f)
      have "hitMonster (theP s1 k) 0 m s1 = Inr s'" using j(3) m(1) by simp
      then show thesis
        using hitMonster_ok [OF s'(3) ms m(2) pd room1] that unfolding f fields by auto
    qed
    show ?thesis unfolding if_not_P [OF False] using s'(1,2) j(1,2) m(1) m' by blast
  qed
qed

definition sampleFight :: server where
  "sampleFight = putP ((samplePlayer 1)\<lparr>plPendingAttackTargets := [5, 9]\<rparr>)
     (putM (fieldMonster\<lparr>mnHp := 5\<rparr>) sampleField)"

lemma sampleFight_inv: "field_inv sampleFight"
proof -
  have m: "field_inv (putM (fieldMonster\<lparr>mnHp := 5\<rparr>) sampleField)"
  proof (rule field_inv_putM(1) [OF sampleField_inv])
    show "monster_good 5 (fieldMonster\<lparr>mnHp := 5\<rparr>)"
      using fieldMonster_good by (auto simp: monster_good_def monster_wf_def)
  qed auto
  show ?thesis unfolding sampleFight_def
  proof (rule field_inv_putP(1) [OF m])
    show "player_good 1 ((samplePlayer 1)\<lparr>plPendingAttackTargets := [5, 9]\<rparr>)"
      using samplePlayer_good [of 1] by (simp add: player_good_def player_wf_def player_placed_def)
    show "keeps (theP (putM (fieldMonster\<lparr>mnHp := 5\<rparr>) sampleField) 1) ((samplePlayer 1)\<lparr>plPendingAttackTargets := [5, 9]\<rparr>)"
      by (rule keeps_same) (simp_all add: theP_def putM_def)
  qed (simp add: putM_def)
qed

lemma player_strikes_nearest_witness:
  "\<exists>s' m'. processPlayerAttackHit (theP sampleFight 1) 0 sampleFight = Inr s' \<and> map_of (svMonsters s') 5 = Some m' \<and>
     mnState m' = MDead \<and> length (svItems s') = 2 \<and> svDBReqQ s' = [DBKillCountUpdate 1 11 (replicate 20 0) 1]"
proof -
  have w: "theP sampleFight 1 = (samplePlayer 1)\<lparr>plPendingAttackTargets := [5, 9]\<rparr>" "svPlayers sampleFight = [1, 2]"
    "svMonsters sampleFight = [(5, fieldMonster\<lparr>mnHp := 5\<rparr>)]" "svItems sampleFight = [(1, sampleItem)]" "svDBReqQ sampleFight = []"
    by (simp_all add: sampleFight_def theP_putP) (simp_all add: putP_def putM_def)
  have r: "f_le (pos_dist (Position (f_lit 100 1) (f_lit 100 1)) (Position (f_lit 110 1) (f_lit 100 1))) (f_of_int 160)"
    by code_simp
  have room: "room 1 sampleFight" using sampleField_room [of 1] by (simp add: room_def sampleFight_def putP_def putM_def)
  show ?thesis
    using player_strikes_nearest [OF sampleFight_inv _ room, of 1] r
    by (auto simp: w validTarget_def inReach_def PLAYER_ATTACK_DAMAGE_def split: if_splits)
qed

end
