(* ===== verification/SightProps.thy ===== *)
theory SightProps
  imports CombatProps
begin

text \<open>
  Who is told what when a player enters the field or changes sectors, and what a client reads from the
  batches it is sent.
\<close>

subsection \<open>Packets do not change what is seen\<close>

lemma sent_sight [simp]:
  "live near (sent t ms s) = live near s" "liveM near (sent t ms s) = liveM near s" "liveI near (sent t ms s) = liveI near s"
  "theP (sent t ms s) = theP s" "toMembers near u b P (sent t ms s) = toMembers near u b P s"
  by (simp_all add: live_def liveM_def liveI_def theP_def toMembers_def fun_eq_iff)

subsection \<open>Batches\<close>

text \<open>
  What a client reads from a batch: the count, then that many records of \<open>sz\<close> bytes.
\<close>

definition readBatch :: "nat \<Rightarrow> message \<Rightarrow> byte list list" where
  "readBatch sz m =
     (let body = drop 5 (mBuf m)
      in map (\<lambda>i. take sz (drop (2 + i * sz) body)) [0..<nat (decS (take 2 body))])"

lemma take_drop_concat:
  assumes "\<forall>r \<in> set rs. length r = sz" "i < length rs"
  shows "take sz (drop (i * sz) (concat rs)) = rs ! i"
  using assms
proof (induction rs arbitrary: i)
  case (Cons r rs)
  then show ?case by (cases i) (simp_all add: add.commute)
qed simp

lemma readBatch_packet:
  assumes "\<forall>r \<in> set c. length (concat r) = sz" "length c < 32768"
  shows "readBatch sz (packet now k t (batchBody c)) = map concat c"
proof -
  define n where "n = length c"
  have b: "drop 5 (mBuf (packet now k t (batchBody c))) = enc 2 (int n) @ concat (map concat c)"
    by (simp add: packet_def batchBody_def headerBytes_def n_def)
  have d: "decS (enc 2 (int n)) = int n" using assms(2) by (simp add: decS_enc n_def)
  have e: "take sz (drop (2 + i * sz) (enc 2 (int n) @ concat (map concat c))) = map concat c ! i" if "i < n" for i
    using take_drop_concat [of "map concat c" sz i] assms(1) that by (simp add: n_def)
  have "map (\<lambda>i. take sz (drop (2 + i * sz) (enc 2 (int n) @ concat (map concat c)))) [0..<n] = map concat c"
  proof (rule nth_equalityI)
    fix i assume "i < length (map (\<lambda>i. take sz (drop (2 + i * sz) (enc 2 (int n) @ concat (map concat c)))) [0..<n])"
    then have i: "i < n" by simp
    then have "map (\<lambda>i. take sz (drop (2 + i * sz) (enc 2 (int n) @ concat (map concat c)))) [0..<n] ! i =
        take sz (drop (2 + i * sz) (enc 2 (int n) @ concat (map concat c)))" by simp
    also have "\<dots> = map concat c ! i" by (rule e [OF i])
    finally show "map (\<lambda>i. take sz (drop (2 + i * sz) (enc 2 (int n) @ concat (map concat c)))) [0..<n] ! i = map concat c ! i" .
  qed (simp add: n_def)
  then show ?thesis unfolding readBatch_def Let_def b using d by simp
qed

text \<open>
  C25. However many players are in sight, the batches a player is sent are packets of at most 6000
  bytes whose header gives their length, addressed to it, and reading them one after the other gives
  the record of every other player in those sectors, once, in the order of the sectors.
\<close>

theorem spawn_batches_readable:
  assumes inv: "field_inv s" and near: "distinct near"
  shows "\<exists>ms. sendSpawnBatch p near s = Inr (sent OTHER_CHARACTER_SPAWN_BATCH ms s) \<and>
    (\<forall>(k, m) \<in> set ms. k = plSeqID p \<and> framed k m) \<and>
    concat (map (\<lambda>(k, m). readBatch 47 m) ms) =
      map (\<lambda>k. concat (spawnFields (theP s k))) (filter (\<lambda>k. k \<noteq> plSeqID p) (members (svSectors s) near))"
proof -
  have ip: "inv_players (svObjs s) (svPlayers s) (svSectors s)" using inv by (simp add: field_inv_def)
  have nick: "\<forall>k \<in> set (members (svSectors s) near). length (plNickname (theP s k)) = 20"
    using inv_player [OF ip members_players [OF ip]] by (auto simp: player_good_def player_wf_def)
  define rs where "rs = map (\<lambda>k. spawnFields (theP s k)) (filter (\<lambda>k. k \<noteq> plSeqID p) (members (svSectors s) near))"
  define ms where "ms = batchPackets (svNow s) (plSeqID p) OTHER_CHARACTER_SPAWN_BATCH (chunksOf 127 rs)"
  have sz: "\<forall>r \<in> set rs. length (concat r) = 47" using nick by (auto simp: rs_def spawnFields_def)
  have c: "\<forall>r \<in> set c. length (concat r) = 47" "length c \<le> 127" if "c \<in> set (chunksOf 127 rs)" for c
  proof -
    have "set c \<subseteq> set rs" using concat_chunksOf [of 127 rs] that by (metis UN_upper set_concat zero_less_numeral)
    then show "\<forall>r \<in> set c. length (concat r) = 47" using sz by blast
    show "length c \<le> 127" using length_chunksOf [OF _ that] by simp
  qed
  have "map (\<lambda>(k, m). readBatch 47 m) ms = map (map concat) (chunksOf 127 rs)"
    unfolding ms_def batchPackets_def using c by (auto intro!: readBatch_packet) force
  then have "concat (map (\<lambda>(k, m). readBatch 47 m) ms) = concat (map (map concat) (chunksOf 127 rs))" by simp
  also have "\<dots> = map concat (concat (chunksOf 127 rs))" by (simp add: map_concat)
  also have "\<dots> = map concat rs" by (simp add: concat_chunksOf)
  finally have r: "concat (map (\<lambda>(k, m). readBatch 47 m) ms) = map concat rs" .
  have "\<forall>(k, m) \<in> set ms. k = plSeqID p \<and> framed k m"
  proof
    fix x assume x: "x \<in> set ms"
    obtain k m where km: "x = (k, m)" by (cases x)
    have "k = plSeqID p" using x km by (auto simp: ms_def batchPackets_def)
    moreover have "framed k m"
      by (rule batchPackets_framed [where sz = 47 and n = 127 and rs = rs]) (use sz x km in \<open>auto simp: ms_def\<close>)
    ultimately show "case x of (k, m) \<Rightarrow> k = plSeqID p \<and> framed k m" using km by simp
  qed
  moreover have "sendSpawnBatch p near s = Inr (sent OTHER_CHARACTER_SPAWN_BATCH ms s)"
    using sendSpawnBatch_eq [OF field_inv_live [OF inv] nick players_members(2) [OF ip near]] by (simp add: ms_def rs_def)
  ultimately show ?thesis using r by (auto simp: rs_def comp_def)
qed

lemma chunksOf_one: "0 < n \<Longrightarrow> chunksOf n [x] = [[x]]"
  by (subst chunksOf.simps) simp

lemma spawn_batches_readable_witness:
  "\<exists>m. sendSpawnBatch (samplePlayer 1) [Sector 0 0] sampleField =
      Inr (sent OTHER_CHARACTER_SPAWN_BATCH [(1, m)] sampleField) \<and>
    readBatch 47 m = [concat (spawnFields (samplePlayer 2))]"
proof -
  obtain ms where ms: "sendSpawnBatch (samplePlayer 1) [Sector 0 0] sampleField = Inr (sent OTHER_CHARACTER_SPAWN_BATCH ms sampleField)"
      "concat (map (\<lambda>(k, m). readBatch 47 m) ms) = [concat (spawnFields (samplePlayer 2))]" "\<forall>(k, m) \<in> set ms. k = 1"
    using spawn_batches_readable [OF sampleField_inv, of "[Sector 0 0]" "samplePlayer 1"] by (auto simp: members_def)
  have "sendSpawnBatch (samplePlayer 1) [Sector 0 0] sampleField = Inr (sent OTHER_CHARACTER_SPAWN_BATCH
      (batchPackets 1000 1 OTHER_CHARACTER_SPAWN_BATCH (chunksOf 127 [spawnFields (samplePlayer 2)])) sampleField)"
    using sendSpawnBatch_eq [of "[Sector 0 0]" sampleField "samplePlayer 1"] field_inv_live [OF sampleField_inv]
    by (simp add: members_def)
  then have "sent OTHER_CHARACTER_SPAWN_BATCH ms sampleField = sent OTHER_CHARACTER_SPAWN_BATCH
      (batchPackets 1000 1 OTHER_CHARACTER_SPAWN_BATCH (chunksOf 127 [spawnFields (samplePlayer 2)])) sampleField"
    using ms(1) by simp
  from arg_cong [OF this, of svOut] have "length ms = 1" by (simp add: chunksOf_one)
  then obtain m where m: "ms = [(1, m)]" using ms(3) by (cases ms) auto
  show ?thesis using ms(1,2) unfolding m by (intro exI [of _ m] conjI) simp_all
qed

subsection \<open>Entering the field\<close>

text \<open>
  C26. The field thread takes over a player that the authentication thread hands to it: it stands in
  the one sector of its position, everyone around is told of it, and it is told of every player, monster
  and item around, itself excepted.
\<close>

theorem register_enters:
  assumes inv: "field_inv s" and msg: "readable msg" "8 \<le> length (unread msg)" "fS 0 8 (unread msg) = k"
    and p: "map_of (svObjs s) k = Some p" "player_good k (p\<lparr>plCurrentFieldID := 0\<rparr>)"
    and new: "k \<notin> set (svPlayers s)" and few: "length (svPlayers s) < 32767" and room: "room 0 s"
  shows "\<exists>s' c q. handleRegisterPlayer 0 msg s = Inr s' \<and> field_inv s' \<and> calcSector (plPos p) = Inr c \<and>
    svPlayers s' = svPlayers s @ [k] \<and> q = p\<lparr>plCurrentFieldID := 0, plDestSector := c, plCurrentSector := c\<rparr> \<and>
    theP s' k = q \<and> (\<forall>d. k \<in> set (svSectors s' d) \<longleftrightarrow> d = c) \<and> svOut s' = svOut s @ registered q c s"
  using handleRegister_ok [OF assms] by blast

definition sampleEntering :: server where
  "sampleEntering = sampleField\<lparr>svObjs := (3, samplePlayer 3) # svObjs sampleField\<rparr>"

lemma sampleEntering_inv: "field_inv sampleEntering"
proof -
  have "inv_players (svObjs sampleEntering) (svPlayers sampleEntering) (svSectors sampleEntering)"
    using samplePlayer_good by (auto simp: inv_players_def sampleEntering_def oneSector_def)
  then show ?thesis using sampleField_inv by (simp add: field_inv_def sampleEntering_def)
qed

lemma register_enters_witness:
  "\<exists>s'. handleRegisterPlayer 0 (sampleMsg 3 (enc 8 3)) sampleEntering = Inr s' \<and> svPlayers s' = [1, 2, 3] \<and>
     3 \<in> set (svSectors s' (Sector 0 0))"
proof -
  have e: "fS 0 8 (enc 8 3) = 3" "calcSector (Position (f_lit 100 1) (f_lit 100 1)) = Inr (Sector 0 0)" by code_simp+
  have "(samplePlayer 3)\<lparr>plCurrentFieldID := 0\<rparr> = samplePlayer 3" by (simp add: samplePlayer_def)
  then have g: "player_good 3 ((samplePlayer 3)\<lparr>plCurrentFieldID := 0\<rparr>)" using samplePlayer_good [of 3] by (simp only:)
  have f: "map_of (svObjs sampleEntering) 3 = Some (samplePlayer 3)" "svPlayers sampleEntering = [1, 2]" "room 0 sampleEntering"
    using sampleField_room [of 0] by (simp_all add: sampleEntering_def room_def)
  show ?thesis
    using register_enters [OF sampleEntering_inv _ _ _ f(1) g, of "sampleMsg 3 (enc 8 3)"] e f(2,3) by auto
qed

subsection \<open>Changing sectors\<close>

text \<open>What is sent when \<open>p\<close> crosses, with \<open>sp\<close> coming into sight and \<open>de\<close> going out of it.\<close>

definition crossing :: "nat \<Rightarrow> player \<Rightarrow> sector list \<Rightarrow> sector list \<Rightarrow> server \<Rightarrow> (int \<times> message) list" where
  "crossing j p sp de s =
     (let k = plSeqID p; pk = packet (svNow s) k in
      [toMembers sp OTHER_CHARACTER_SPAWN (spawnBody p) (\<lambda>i. i = k) s,
       batchPackets (svNow s) k OTHER_CHARACTER_SPAWN_BATCH (chunksOf 127
         (map (\<lambda>i. spawnFields (theP s i)) (filter (\<lambda>i. i \<noteq> k) (members (svSectors s) sp)))),
       batchPackets (svNow s) k MONSTER_SPAWN_BATCH (chunksOf 221
         (map (\<lambda>i. monsterFields (the (map_of (svMonsters s) i))) (members (svMonsterSectors s) sp))),
       batchPackets (svNow s) k ITEM_SPAWN_BATCH (chunksOf 352
         (map (\<lambda>i. itemFields (the (map_of (svItems s) i))) (members (svItemSectors s) sp))),
       toMembers de CHARACTER_DESPAWN (enc 8 (plCharacterID p)) (\<lambda>i. plCharacterID (theP s i) = plCharacterID p) s,
       map (\<lambda>i. (k, pk CHARACTER_DESPAWN (enc 8 (plCharacterID (theP s i)))))
         (filter (\<lambda>i. plCharacterID (theP s i) \<noteq> plCharacterID p) (members (svSectors s) de)),
       map (\<lambda>i. (k, pk MONSTER_DESPAWN (enc 8 (mnMonsterID (the (map_of (svMonsters s) i))))))
         (members (svMonsterSectors s) de),
       map (\<lambda>i. (k, pk ITEM_DESPAWN (enc 8 (itItemUniqueId (the (map_of (svItems s) i))))))
         (members (svItemSectors s) de)] ! j)"

definition crossed :: "player \<Rightarrow> sector list \<Rightarrow> sector list \<Rightarrow> server \<Rightarrow> (int \<times> message) list" where
  "crossed p sp de s = concat (map (\<lambda>j. crossing j p sp de s) [0, 1, 2, 3, 4, 5, 6, 7])"

text \<open>The eight senders, whatever has been sent before.\<close>

lemma crossing_steps:
  assumes inv: "field_inv s" and k: "k \<in> set (svPlayers s)" and few: "length (svItems s) < 32768"
    and q: "quiet s u" and d: "distinct sp"
  defines "p \<equiv> theP s k"
  shows "broadcastSpawn p sp u = Inr (sent OTHER_CHARACTER_SPAWN (crossing 0 p sp de s) u)"
    "sendSpawnBatch p sp u = Inr (sent OTHER_CHARACTER_SPAWN_BATCH (crossing 1 p sp de s) u)"
    "sendMonsterSpawnBatch p sp u = Inr (sent MONSTER_SPAWN_BATCH (crossing 2 p sp de s) u)"
    "sendItemSpawnBatch p sp u = Inr (sent ITEM_SPAWN_BATCH (crossing 3 p sp de s) u)"
    "broadcastDespawn p de u = Inr (sent CHARACTER_DESPAWN (crossing 4 p sp de s) u)"
    "sendDespawnBatch p de u = Inr (sent CHARACTER_DESPAWN (crossing 5 p sp de s) u)"
    "sendMonsterDespawnBatch p de u = Inr (sent MONSTER_DESPAWN (crossing 6 p sp de s) u)"
    "sendItemDespawnBatch p de u = Inr (sent ITEM_DESPAWN (crossing 7 p sp de s) u)"
proof -
  have nick0: "length (plNickname p) = 20"
    using field_inv_player [OF inv k, folded p_def] by (simp add: player_good_def player_wf_def)
  have ip: "inv_players (svObjs s) (svPlayers s) (svSectors s)" using inv by (simp add: field_inv_def)
  have nick: "\<forall>i \<in> set (members (svSectors s) sp). length (plNickname (theP s i)) = 20"
    using inv_player [OF ip members_players [OF ip]] by (auto simp: player_good_def player_wf_def)
  have len: "length (members (svSectors s) sp) < 32768" "length (members (svMonsterSectors s) sp) < 32768"
    "length (members (svItemSectors s) sp) < 32768"
    using players_members(2) [OF ip d] inv monsters_members(2) [OF _ d] few
      items_members(2) [of "svItems s" "svItemSectors s" "svItemUniqueID s" sp] d
    by (auto simp: field_inv_def intro: le_less_trans)
  have lv: "live near u" "liveM near u" "liveI near u" for near
    using quiet_frame [OF q] field_inv_live [OF inv, of near] field_inv_liveM [OF inv, of near]
      field_inv_liveI [OF inv, of near] by (simp_all add: live_def liveM_def liveI_def)
  note fr = quiet_frame [OF q]
  note at = crossing_def Let_def nth_Cons_0 nth_Cons_Suc nth_Cons_numeral toMembers_def fr
  have n: "\<forall>i \<in> set (members (svSectors u) sp). length (plNickname (theP u i)) = 20"
    "length (members (svSectors u) sp) < 32768" "length (members (svMonsterSectors u) sp) < 32768"
    "length (members (svItemSectors u) sp) < 32768"
    unfolding fr by (rule nick len)+
  show "broadcastSpawn p sp u = Inr (sent OTHER_CHARACTER_SPAWN (crossing 0 p sp de s) u)"
    unfolding broadcastSpawn_eq [OF lv(1) nick0] by (simp only: at)
  show "sendSpawnBatch p sp u = Inr (sent OTHER_CHARACTER_SPAWN_BATCH (crossing 1 p sp de s) u)"
    unfolding sendSpawnBatch_eq [OF lv(1) n(1,2)] by (simp only: at One_nat_def)
  show "sendMonsterSpawnBatch p sp u = Inr (sent MONSTER_SPAWN_BATCH (crossing 2 p sp de s) u)"
    unfolding sendMonsterSpawnBatch_eq [OF lv(2) n(3)] by (simp add: crossing_def fr Let_def)
  show "sendItemSpawnBatch p sp u = Inr (sent ITEM_SPAWN_BATCH (crossing 3 p sp de s) u)"
    unfolding sendItemSpawnBatch_eq [OF lv(3) n(4)] by (simp add: crossing_def fr Let_def)
  show "broadcastDespawn p de u = Inr (sent CHARACTER_DESPAWN (crossing 4 p sp de s) u)"
    unfolding broadcastDespawn_eq [OF lv(1)] by (simp add: crossing_def fr toMembers_def)
  show "sendDespawnBatch p de u = Inr (sent CHARACTER_DESPAWN (crossing 5 p sp de s) u)"
    unfolding sendDespawnBatch_eq [OF lv(1)] by (simp add: crossing_def fr Let_def)
  show "sendMonsterDespawnBatch p de u = Inr (sent MONSTER_DESPAWN (crossing 6 p sp de s) u)"
    unfolding sendMonsterDespawnBatch_eq [OF lv(2)] by (simp add: crossing_def fr Let_def)
  show "sendItemDespawnBatch p de u = Inr (sent ITEM_DESPAWN (crossing 7 p sp de s) u)"
    unfolding sendItemDespawnBatch_eq [OF lv(3)] by (simp add: crossing_def fr Let_def)
qed

lemma crossPlayer_sent:
  assumes inv: "field_inv s" and k: "k \<in> set (svPlayers s)" and few: "length (svItems s) < 32768"
    and moved: "plCurrentSector (theP s k) \<noteq> plDestSector (theP s k)"
  defines "p \<equiv> theP s k"
  defines "sp \<equiv> filter (\<lambda>c. c \<notin> set (aroundOf (plCurrentSector p))) (aroundOf (plDestSector p))"
  defines "de \<equiv> filter (\<lambda>c. c \<notin> set (aroundOf (plDestSector p))) (aroundOf (plCurrentSector p))"
  shows "\<exists>u. crossPlayer k s = Inr (putP (p\<lparr>plCurrentSector := plDestSector p\<rparr>)
      (u\<lparr>svSectors := insSector (plDestSector p) k (delSector (plCurrentSector p) k (svSectors s))\<rparr>)) \<and>
    quiet s u \<and> svOut u = svOut s @ crossed p sp de s"
proof -
  note g = field_inv_player [OF inv k, folded p_def]
  have seq: "plSeqID p = k" "sector_ok (plCurrentSector p)" "sector_ok (plDestSector p)"
    using g(2) by (simp_all add: player_good_def)
  have calc: "calcDespawnAndSpawnSector p = Inr (sp, de)"
    using seq by (simp add: calcDespawnAndSpawnSector_eq sp_def de_def)
  have d: "distinct sp" by (simp add: sp_def distinct_aroundOf)
  have mem: "k \<in> set (svSectors s (plCurrentSector p))"
    using inv k g by (auto simp: field_inv_def inv_players_def)
  define M where "M j = crossing j p sp de s" for j
  have q: "quiet s s" "\<And>t ms u. quiet s u \<Longrightarrow> quiet s (sent t ms u)"
    by (rule quiet_refl) (rule quiet_trans [OF _ quiet_sent])
  note steps = crossing_steps [OF inv k few _ d, where de = de, folded p_def, folded M_def]
  define u1 where "u1 = sent OTHER_CHARACTER_SPAWN (M 0) s"
  define u2 where "u2 = sent OTHER_CHARACTER_SPAWN_BATCH (M 1) u1"
  define u3 where "u3 = sent MONSTER_SPAWN_BATCH (M 2) u2"
  define u4 where "u4 = sent ITEM_SPAWN_BATCH (M 3) u3"
  define u5 where "u5 = sent CHARACTER_DESPAWN (M 4) u4"
  define u6 where "u6 = sent CHARACTER_DESPAWN (M 5) u5"
  define u7 where "u7 = sent MONSTER_DESPAWN (M 6) u6"
  define u where "u = sent ITEM_DESPAWN (M 7) u7"
  note us = u1_def u2_def u3_def u4_def u5_def u6_def u7_def u_def
  have 1: "quiet s u1" unfolding u1_def by (intro q)
  have 2: "quiet s u2" unfolding u2_def by (intro q 1)
  have 3: "quiet s u3" unfolding u3_def by (intro q 2)
  have 4: "quiet s u4" unfolding u4_def by (intro q 3)
  have 5: "quiet s u5" unfolding u5_def by (intro q 4)
  have 6: "quiet s u6" unfolding u6_def by (intro q 5)
  have 7: "quiet s u7" unfolding u7_def by (intro q 6)
  have 8: "quiet s u" unfolding u_def by (intro q 7)
  note chain = steps(1) [OF q(1), folded u1_def] steps(2) [OF 1, folded u2_def] steps(3) [OF 2, folded u3_def]
    steps(4) [OF 3, folded u4_def] steps(5) [OF 4, folded u5_def] steps(6) [OF 5, folded u6_def]
    steps(7) [OF 6, folded u7_def] steps(8) [OF 7, folded u_def]
  have "crossPlayer k s = Inr (putP (p\<lparr>plCurrentSector := plDestSector p\<rparr>)
      (u\<lparr>svSectors := insSector (plDestSector p) k (delSector (plCurrentSector p) k (svSectors s))\<rparr>))"
    using moved mem seq(1) unfolding crossPlayer_def derefP_def g(1) p_def [symmetric]
    by (simp add: calc chain quiet_frame(13) [OF 8])
  moreover have "svOut u = svOut s @ crossed p sp de s"
    by (simp add: us M_def crossed_def del: sent_sent)
  ultimately show ?thesis using 8 by blast
qed

text \<open>
  C13. A player that has crossed into another sector: those who come into its sight are told of it and
  it of them, those who go out of its sight are told that it is gone and it that they are, and the grid
  holds it in the new sector alone.
\<close>

theorem crossing_told:
  assumes inv: "field_inv s" and k: "k \<in> set (svPlayers s)" and few: "length (svItems s) < 32768"
    and moved: "plCurrentSector (theP s k) \<noteq> plDestSector (theP s k)"
  defines "p \<equiv> theP s k"
  defines "sp \<equiv> filter (\<lambda>c. c \<notin> set (aroundOf (plCurrentSector p))) (aroundOf (plDestSector p))"
  defines "de \<equiv> filter (\<lambda>c. c \<notin> set (aroundOf (plDestSector p))) (aroundOf (plCurrentSector p))"
  shows "\<exists>s'. crossPlayer k s = Inr s' \<and> theP s' k = p\<lparr>plCurrentSector := plDestSector p\<rparr> \<and>
    (\<forall>c. k \<in> set (svSectors s' c) \<longleftrightarrow> c = plDestSector p) \<and> svOut s' = svOut s @ crossed p sp de s"
proof -
  note g = field_inv_player [OF inv k, folded p_def]
  have "plSeqID p = k" "\<And>c. k \<in> set (svSectors s c) \<longleftrightarrow> c = plCurrentSector p"
    using inv k g by (auto simp: field_inv_def inv_players_def player_good_def)
  moreover obtain u where "crossPlayer k s = Inr (putP (p\<lparr>plCurrentSector := plDestSector p\<rparr>)
      (u\<lparr>svSectors := insSector (plDestSector p) k (delSector (plCurrentSector p) k (svSectors s))\<rparr>))"
    "svOut u = svOut s @ crossed p sp de s"
    using crossPlayer_sent [OF inv k few moved, folded p_def, folded sp_def de_def] by blast
  ultimately show ?thesis by (auto simp: theP_def putP_def set_insSector set_delSector)
qed

definition sampleCrossing :: server where
  "sampleCrossing = putP ((samplePlayer 1)\<lparr>plDestSector := Sector 9 9\<rparr>) sampleField"

lemma sampleCrossing_inv: "field_inv sampleCrossing"
proof -
  have "player_good 1 ((samplePlayer 1)\<lparr>plDestSector := Sector 9 9\<rparr>)"
    using samplePlayer_good [of 1]
    by (simp add: player_good_def player_wf_def player_placed_def sector_ok_def SECTOR_COL_CNT_def SECTOR_ROW_CNT_def)
  then show ?thesis unfolding sampleCrossing_def by (intro field_inv_putP(1) [OF sampleField_inv, of 1]) simp_all
qed

lemma crossing_told_witness:
  "\<exists>s'. crossPlayer 1 sampleCrossing = Inr s' \<and> 1 \<in> set (svSectors s' (Sector 9 9)) \<and>
     (2, packet 1000 2 CHARACTER_DESPAWN (enc 8 101)) \<in> set (svOut s')"
proof -
  have w: "theP sampleCrossing 1 = (samplePlayer 1)\<lparr>plDestSector := Sector 9 9\<rparr>" "svPlayers sampleCrossing = [1, 2]"
    "svItems sampleCrossing = [(1, sampleItem)]" "svSectors sampleCrossing = oneSector [1, 2]" "svNow sampleCrossing = 1000"
    "theP sampleCrossing 2 = samplePlayer 2"
    by (simp_all add: sampleCrossing_def theP_putP) (simp_all add: putP_def theP_def)
  have a: "aroundOf (Sector 0 0) = [Sector 0 0, Sector 0 1, Sector 1 0, Sector 1 1]"
    "Sector 0 0 \<notin> set (aroundOf (Sector 9 9))" by code_simp+
  obtain s' where s': "crossPlayer 1 sampleCrossing = Inr s'" "1 \<in> set (svSectors s' (Sector 9 9))"
      "svOut s' = svOut sampleCrossing @ crossed (theP sampleCrossing 1)
        (filter (\<lambda>c. c \<notin> set (aroundOf (Sector 0 0))) (aroundOf (Sector 9 9)))
        (filter (\<lambda>c. c \<notin> set (aroundOf (Sector 9 9))) (aroundOf (Sector 0 0))) sampleCrossing"
    using crossing_told [OF sampleCrossing_inv, of 1] w(1-3) by auto
  have "2 \<in> set (members (svSectors sampleCrossing) (filter (\<lambda>c. c \<notin> set (aroundOf (Sector 9 9))) (aroundOf (Sector 0 0))))"
    using a w(4) by (simp add: members_def)
  then have "(2, packet 1000 2 CHARACTER_DESPAWN (enc 8 101)) \<in> set (svOut s')"
    unfolding s'(3) crossed_def by (simp add: crossing_def toMembers_def w)
  then show ?thesis using s' by blast
qed

end
