(* ===== verification/Leave.thy ===== *)
theory Leave
  imports SpawnInv
begin

text \<open>
  Leaving a thread of the server: \<open>FieldServer::checkDisConnectedAndLeavePlayer\<close>, which the
  authentication thread (field number -1) and the field thread share, the notices it sends to the
  authentication thread, \<open>enterField\<close>, the heartbeat, the answers of the database thread, and the
  iteration of \<open>fieldThread\<close> that calls all of the field's work in its order.
\<close>

subsection \<open>The thread-local table of players\<close>

definition threadPlayers :: "int \<Rightarrow> server \<Rightarrow> int list" where
  "threadPlayers fieldIdx s = (if fieldIdx = CONFIG_AUTH_FIELD_IDX then svAuthPlayers s else svPlayers s)"

definition findIn :: "int \<Rightarrow> int \<Rightarrow> server \<Rightarrow> player option" where
  "findIn fieldIdx k s = (if k \<in> set (threadPlayers fieldIdx s) then map_of (svObjs s) k else None)"

definition erasePlayer :: "int \<Rightarrow> int \<Rightarrow> server \<Rightarrow> server" where
  "erasePlayer fieldIdx k s =
     (if fieldIdx = CONFIG_AUTH_FIELD_IDX then s\<lparr>svAuthPlayers := removeAll k (svAuthPlayers s)\<rparr>
      else s\<lparr>svPlayers := removeAll k (svPlayers s)\<rparr>)"

subsection \<open>Notices between the threads\<close>

text \<open>These messages stay inside the process: they have no header.\<close>

definition notify :: "int \<Rightarrow> byte list list \<Rightarrow> server \<Rightarrow> server res" where
  "notify fieldIdx flds s =
     bindR (putAll flds (InitMessage (svNow s) 0 0)) (\<lambda>msg.
     if 0 \<le> fieldIdx \<and> fieldIdx < CONFIG_FIELD_SIZE
     then bindR (enqPtr msg (svNotifyQ s)) (\<lambda>q. Inr (s\<lparr>svNotifyQ := q\<rparr>))
     else Inl UndefinedBehaviour)"

definition notifyDisconnect :: "int \<Rightarrow> int \<Rightarrow> server \<Rightarrow> server res" where
  "notifyDisconnect fieldIdx accountNo = notify fieldIdx [enc 2 PLAYER_DISCONNECTED, enc 8 accountNo]"

definition notifyMoveField :: "int \<Rightarrow> int \<Rightarrow> int \<Rightarrow> server \<Rightarrow> server res" where
  "notifyMoveField fieldIdx accountNo targetFieldIdx =
     notify fieldIdx [enc 2 PLAYER_MOVEFILED, enc 8 accountNo, enc 4 targetFieldIdx]"

text \<open>
  \<open>enterField\<close> hands a player to a field. It spins while the queue of the field is full; as a step
  of the model runs one thread, a full queue is the value \<open>NoReturn\<close>. A negative number passes the
  assertion and reads the table of queues before its start.
\<close>

definition enterField :: "int \<Rightarrow> player \<Rightarrow> int \<Rightarrow> server \<Rightarrow> server res" where
  "enterField fieldIdx p targetField s =
     assertR (targetField < CONFIG_FIELD_SIZE)
     (assertR (plSeqID p \<in> set (threadPlayers fieldIdx s))
       (let s = erasePlayer fieldIdx (plSeqID p) s in
        bindR (putVal (enc 2 REGISTER_PLAYER) (InitMessage (svNow s) (plSeqID p) 0)) (\<lambda>msg.
        bindR (PutData (enc 8 (plSeqID p)) msg) (\<lambda>msg.
        if targetField < 0 then Inl UndefinedBehaviour
        else case enqPtr msg (svMsgQ s) of
               Inl e \<Rightarrow> Inl NoReturn
             | Inr q \<Rightarrow> Inr (s\<lparr>svMsgQ := q\<rparr>)))))"

subsection \<open>\<open>checkDisConnectedAndLeavePlayer\<close>\<close>

text \<open>The scan stops when one of its two arrays is full.\<close>

fun scanLeavers :: "int \<Rightarrow> server \<Rightarrow> int list \<Rightarrow> int list \<times> int list \<Rightarrow> (int list \<times> int list) res" where
  "scanLeavers fieldIdx s [] acc = Inr acc"
| "scanLeavers fieldIdx s (k # ks) acc =
     derefP k s (\<lambda>p.
       let (ds, ls) = acc;
           acc = (if \<not> plBConnect p then (ds @ [plSeqID p], ls)
                  else if plNextFieldID p \<noteq> fieldIdx then (ds, ls @ [plSeqID p])
                  else (ds, ls))
       in if length (fst acc) = CONFIG_DISCONNECT_AND_LEAVE_CAP \<or>
             length (snd acc) = CONFIG_DISCONNECT_AND_LEAVE_CAP
          then Inr acc else scanLeavers fieldIdx s ks acc)"

function drainMsgs :: "player \<Rightarrow> player" where
  "drainMsgs p = (case DeQueueMsgOrNull p of (None, p) \<Rightarrow> p | (Some msg, p) \<Rightarrow> drainMsgs p)"
  by pat_completeness auto
termination
  by (relation "measure (\<lambda>p. length (plRecvQ p))")
    (auto simp: DeQueueMsgOrNull_def split: if_splits list.splits)

declare drainMsgs.simps [simp del]

definition dropPlayer :: "int \<Rightarrow> player \<Rightarrow> server \<Rightarrow> server res" where
  "dropPlayer k p s =
     (let s = (if plSeqID p \<in> set (svUnAuth s) then s\<lparr>svUnAuth := removeAll (plSeqID p) (svUnAuth s)\<rparr>
               else s\<lparr>svAccounts := alDel (plAccountNo p) (svAccounts s)\<rparr>);
          s = s\<lparr>svPlayerCnt := svPlayerCnt s - 1\<rparr>
      in bindR (deletePlayer (drainMsgs p)) (\<lambda>_.
         Inr (erasePlayer CONFIG_AUTH_FIELD_IDX k (s\<lparr>svObjs := alDel (plSeqID p) (svObjs s)\<rparr>))))"

definition leaveDisconnected :: "int \<Rightarrow> int \<Rightarrow> server \<Rightarrow> server res" where
  "leaveDisconnected fieldIdx k s =
     the_or_break (findIn fieldIdx k s) (\<lambda>p.
       if fieldIdx \<noteq> CONFIG_AUTH_FIELD_IDX
       then if and (plDBRequestCnt p) DB_POSITION_SAVE_PENDING_BIT \<noteq> 0 then Inr s
            else requestPositionSave fieldIdx p s
       else dropPlayer k p s)"

text \<open>The loop over the players that move on: it returns after the first that goes to another field.\<close>

fun leaveLoop :: "int \<Rightarrow> int list \<Rightarrow> server \<Rightarrow> server res" where
  "leaveLoop fieldIdx [] s = Inr s"
| "leaveLoop fieldIdx (k # ks) s =
     the_or_break (findIn fieldIdx k s) (\<lambda>p.
       if plDBRequestCnt p \<noteq> 0 then leaveLoop fieldIdx ks s
       else if fieldIdx \<noteq> CONFIG_AUTH_FIELD_IDX
       then bindR (getAroundSectors (plCurrentSector p)) (\<lambda>near.
            bindR (broadcastDespawn p near s) (\<lambda>s.
            bindR (removeFromSector p s) (\<lambda>s.
            if plNextFieldID p \<noteq> CONFIG_AUTH_FIELD_IDX
            then bindR (notifyMoveField fieldIdx (plAccountNo p) (plNextFieldID p) s) (\<lambda>s.
                 Inr (erasePlayer fieldIdx k s))
            else bindR (enterField fieldIdx p (plNextFieldID p) s) (leaveLoop fieldIdx ks))))
       else bindR (enterField fieldIdx p (plNextFieldID p) s) (leaveLoop fieldIdx ks))"

definition checkDisConnectedAndLeavePlayer :: "int \<Rightarrow> server \<Rightarrow> server res" where
  "checkDisConnectedAndLeavePlayer fieldIdx s =
     bindR (scanLeavers fieldIdx s (threadPlayers fieldIdx s) ([], [])) (\<lambda>(ds, ls).
     bindR (foldR (leaveDisconnected fieldIdx) ds s) (leaveLoop fieldIdx ls))"

subsection \<open>The heartbeat\<close>

text \<open>Only the authentication thread gets past the first line.\<close>

definition beat :: "int \<Rightarrow> server \<Rightarrow> server res" where
  "beat k s =
     derefP k s (\<lambda>p.
       if plBConnect p \<and> plLastTime p < svNow s \<and> CONFIG_UNAUTH_HEARTBEAT_TIMER \<le> svNow s - plLastTime p
       then let s = disconnectSession (plSeqID p) s;
                s = s\<lparr>svDisconnectHeartBeat := svDisconnectHeartBeat s + 1\<rparr>
            in assertR False (Inr s)
       else Inr s)"

definition heartBeatForUnAuthSession :: "int \<Rightarrow> server \<Rightarrow> server res" where
  "heartBeatForUnAuthSession fieldIdx s =
     (if fieldIdx \<noteq> CONFIG_AUTH_FIELD_IDX then Inr s
      else foldR beat (threadPlayers fieldIdx s) s)"

subsection \<open>Answers of the database thread\<close>

definition sendRanking :: "player \<Rightarrow> int \<Rightarrow> int \<Rightarrow> int \<Rightarrow> rankEntry list \<Rightarrow> server \<Rightarrow> server res" where
  "sendRanking p resTopCnt myRank myKillCount entries s =
     (let topCnt = wrap16 resTopCnt in
      bindR (startMsg (svNow s) (plSeqID p) (2 + 2 + topCnt * wrap16 (20 + 8) + 8 * 2)) (\<lambda>msg.
      bindR (putAll [enc 2 RANKING_RES, enc 2 topCnt] msg) (\<lambda>msg.
      bindR (foldR (\<lambda>idx msg.
                if nat idx < length entries
                then bindR (PutData (reNickname (entries ! nat idx)) msg)
                       (putVal (enc 8 (reKillCount (entries ! nat idx))))
                else Inl UndefinedBehaviour) [0..resTopCnt - 1] msg) (\<lambda>msg.
      bindR (putAll [enc 8 myRank, enc 8 myKillCount] msg) (\<lambda>msg.
      Inr (sendPost (plSeqID p) msg s))))))"

definition positionSaved :: "int \<Rightarrow> player \<Rightarrow> server \<Rightarrow> server res" where
  "positionSaved fieldIdx p s =
     (let p = p\<lparr>plDBRequestCnt := and (plDBRequestCnt p) (not DB_POSITION_SAVE_PENDING_BIT)\<rparr>;
          s = putP p s
      in bindR (notifyDisconnect fieldIdx (plAccountNo p) s) (\<lambda>s.
         bindR (removeFromSector p s) (\<lambda>s.
         Inr (erasePlayer fieldIdx (plSeqID p) s))))"

definition dbResultOne :: "int \<Rightarrow> dbResult \<Rightarrow> server \<Rightarrow> server res" where
  "dbResultOne fieldIdx result s =
     (let s = s\<lparr>svDBResQ := tl (svDBResQ s)\<rparr> in
      case result of
        DBPositionSaved seqID ok \<Rightarrow>
          (case findIn fieldIdx seqID s of None \<Rightarrow> Inr s | Some p \<Rightarrow> positionSaved fieldIdx p s)
      | DBKillCountUpdated seqID ok \<Rightarrow> Inr s
      | DBRankingResult seqID ok topCnt myRank myKillCount entries \<Rightarrow>
          (case findIn fieldIdx seqID s of
             None \<Rightarrow> Inr s
           | Some p \<Rightarrow> sendRanking p topCnt myRank myKillCount entries s))"

definition dbResultPacketProc :: "int \<Rightarrow> server \<Rightarrow> server res" where
  "dbResultPacketProc fieldIdx s = foldR (dbResultOne fieldIdx) (svDBResQ s) s"

subsection \<open>An iteration of the field thread\<close>

text \<open>
  The local variables of \<open>fieldThread\<close>; \<open>t1\<close> and \<open>t2\<close> are what the two calls of
  \<open>timeGetTime\<close> answer. The iteration ends the thread (None), or gives the time to sleep.
\<close>

record fieldClock =
  fcStart :: int
  fcNext :: int
  fcSecond :: int
  fcFrame :: int

definition clockStart :: "int \<Rightarrow> fieldClock" where
  "clockStart t = \<lparr> fcStart = t, fcNext = u32 (t + CONFIG_FRAME_INTERVAL), fcSecond = u32 (t + 1000), fcFrame = 0 \<rparr>"

definition fieldMessages :: "int \<Rightarrow> server \<Rightarrow> server res" where
  "fieldMessages fieldIdx s =
     foldR (\<lambda>msg s. fieldPacketProc fieldIdx msg (s\<lparr>svMsgQ := tl (svMsgQ s)\<rparr>)) (svMsgQ s) s"

definition fieldStep :: "int \<Rightarrow> int \<Rightarrow> int \<Rightarrow> fieldClock \<Rightarrow> server \<Rightarrow> ((fieldClock \<times> int) option \<times> server) res" where
  "fieldStep fieldIdx t1 t2 c s =
     (if svMsgQ s = [] \<and> svPlayers s = [] \<and> \<not> svOn s then Inr (None, s)
      else
        bindR (fieldMessages fieldIdx s) (\<lambda>s.
        let before = fcStart c;
            s = s\<lparr>svNow := t1\<rparr>;
            c = c\<lparr>fcStart := t1, fcFrame := wrap32 (fcFrame c + 1)\<rparr>;
            c = (if fcSecond c \<le> t1 then c\<lparr>fcSecond := u32 (fcSecond c + 1000), fcFrame := 0\<rparr> else c)
        in bindR (if fcNext c \<le> t1
                  then bindR (fieldUpdate fieldIdx s) (\<lambda>s.
                       bindR (playerProc fieldIdx before s) (\<lambda>s.
                       bindR (monsterProc s) (\<lambda>s.
                       Inr (c\<lparr>fcNext := u32 (fcNext c + CONFIG_FRAME_INTERVAL)\<rparr>, s))))
                  else Inr (c, s)) (\<lambda>(c, s).
           bindR (heartBeatForUnAuthSession fieldIdx s) (\<lambda>s.
           bindR (checkDisConnectedAndLeavePlayer fieldIdx s) (\<lambda>s.
           bindR (dbResultPacketProc fieldIdx s) (\<lambda>s.
           Inr (Some (c\<lparr>fcStart := t2\<rparr>, if t2 < fcNext c then fcNext c - t2 else 0), s\<lparr>svNow := t2\<rparr>)))))))"

end
