(* ===== verification/Cdb.thy ===== *)
theory Cdb
  imports Combat
begin

text \<open>
  The database wrapper \<open>CDB\<close> (\<open>_lib/CDB/CDB.cpp\<close>, \<open>framework.h\<close>): a failed call leaves a flag
  behind, and the next call throws unless \<open>ClearError\<close> took it back. The MySQL client library is
  not part of the repository: it is the parameter \<open>api\<close>, a record of the calls the wrapper makes,
  over a type \<open>'m\<close> of states of the library and of the database behind it.
\<close>

subsection \<open>Text\<close>

definition ascii :: "string \<Rightarrow> byte list" where "ascii s = map of_char s"

text \<open>The C string at the start of an array; without a terminator the read leaves the array.\<close>

definition cstr :: "byte list \<Rightarrow> byte list res" where
  "cstr bs = (if 0 \<in> set bs then Inr (takeWhile (\<lambda>b. b \<noteq> 0) bs) else Inl UndefinedBehaviour)"

fun showN :: "nat \<Rightarrow> byte list" where
  "showN n = (if n < 10 then [of_nat (48 + n)] else showN (n div 10) @ [of_nat (48 + n mod 10)])"

declare showN.simps [simp del]

definition showI :: "int \<Rightarrow> byte list" where
  "showI i = (if i < 0 then 45 # showN (nat (- i)) else showN (nat i))"

text \<open>\<open>%f\<close>: six decimals, the exact value rounded to the nearest, ties to even.\<close>

definition showF :: "f32 \<Rightarrow> byte list" where
  "showF a =
     (let sgn = (if f_sign a then [45] else [])
      in if f_nan a then (if a = f_default_nan then ascii ''-nan(ind)'' else sgn @ ascii ''nan'')
         else if f_inf a then sgn @ ascii ''inf''
         else let v = mant a * 1000000;
                  n = (if 0 \<le> expo a then v * pow2 (expo a) else round_quot v False (- expo a));
                  frac = showN (nat (n mod 1000000))
              in sgn @ showN (nat (n div 1000000)) @ ascii ''.'' @ replicate (6 - length frac) 48 @ frac)"

definition snprintf :: "nat \<Rightarrow> byte list \<Rightarrow> byte list" where
  "snprintf bufSize text = take (bufSize - 1) text"

text \<open>\<open>atoll\<close>: white space, a sign, digits; a number that does not fit is undefined.\<close>

definition isSpace :: "byte \<Rightarrow> bool" where "isSpace b \<longleftrightarrow> b = 32 \<or> 9 \<le> uint b \<and> uint b \<le> 13"
definition isDigit :: "byte \<Rightarrow> bool" where "isDigit b \<longleftrightarrow> 48 \<le> uint b \<and> uint b \<le> 57"
definition isAlpha :: "byte \<Rightarrow> bool" where
  "isAlpha b \<longleftrightarrow> 65 \<le> uint b \<and> uint b \<le> 90 \<or> 97 \<le> uint b \<and> uint b \<le> 122"

definition digitsVal :: "byte list \<Rightarrow> int" where
  "digitsVal ds = foldl (\<lambda>n b. 10 * n + (uint b - 48)) 0 ds"

definition atoll :: "byte list \<Rightarrow> int res" where
  "atoll bs =
     (let t = dropWhile isSpace bs;
          neg = (t \<noteq> [] \<and> hd t = 45);
          t = (if t \<noteq> [] \<and> (hd t = 45 \<or> hd t = 43) then tl t else t);
          n = digitsVal (takeWhile isDigit t);
          n = (if neg then - n else n)
      in if - (2 ^ 63) \<le> n \<and> n < 2 ^ 63 then Inr n else Inl UndefinedBehaviour)"

subsection \<open>The MySQL client library\<close>

text \<open>
  \<open>myInit\<close>: \<open>mysql_init\<close> gives a handle. \<open>myConnect\<close>: \<open>mysql_real_connect\<close> with host, user,
  password, database and port. \<open>myQuery\<close>: \<open>mysql_query\<close> answers 0. \<open>myStore\<close>:
  \<open>mysql_store_result\<close>, the names of the columns and the rows. \<open>myErrno\<close>, \<open>myError\<close>: the last error.
\<close>

type_synonym sqlRow = "byte list option list"

record 'm mysql =
  myInit :: bool
  myConnect :: "byte list \<Rightarrow> byte list \<Rightarrow> byte list \<Rightarrow> byte list \<Rightarrow> int \<Rightarrow> 'm \<Rightarrow> bool \<times> 'm"
  myQuery :: "byte list \<Rightarrow> 'm \<Rightarrow> bool \<times> 'm"
  myStore :: "'m \<Rightarrow> (byte list list \<times> sqlRow list) option \<times> 'm"
  myErrno :: "'m \<Rightarrow> int"
  myError :: "'m \<Rightarrow> byte list"

subsection \<open>\<open>stResultSet\<close>\<close>

record resultSet =
  rsRows :: "sqlRow list"
  rsRow :: "sqlRow option"
  rsColumnIndex :: "(byte list \<times> nat) list"

definition emptyResult :: resultSet where
  "emptyResult = \<lparr> rsRows = [], rsRow = None, rsColumnIndex = [] \<rparr>"

definition Fetch :: "resultSet \<Rightarrow> bool \<times> resultSet" where
  "Fetch rs = (case rsRows rs of
     [] \<Rightarrow> (False, rs\<lparr>rsRow := None\<rparr>)
   | r # rows \<Rightarrow> (True, rs\<lparr>rsRows := rows, rsRow := Some r\<rparr>))"

definition GetValue :: "byte list \<Rightarrow> resultSet \<Rightarrow> byte list option res" where
  "GetValue column rs =
     (case map_of (rsColumnIndex rs) column of
        None \<Rightarrow> Inr None
      | Some i \<Rightarrow> (case rsRow rs of
            None \<Rightarrow> Inl UndefinedBehaviour
          | Some r \<Rightarrow> if i < length r then Inr (r ! i) else Inl UndefinedBehaviour))"

subsection \<open>\<open>CDB\<close>\<close>

record 'm cdb =
  cdDb :: 'm
  cdConn :: bool
  cdBFailed :: bool
  cdLastErrNo :: int
  cdLastError :: "byte list"
  cdFilename :: "byte list"
  cdLog :: "(byte list \<times> int \<times> byte list) list"

definition newCDB :: "byte list \<Rightarrow> 'm \<Rightarrow> 'm cdb" where
  "newCDB fileName m =
     \<lparr> cdDb = m, cdConn = False, cdBFailed = False, cdLastErrNo = 0, cdLastError = [],
       cdFilename = fileName, cdLog = [] \<rparr>"

definition writeLog :: "byte list \<Rightarrow> 'm cdb \<Rightarrow> 'm cdb" where
  "writeLog fileName d = d\<lparr>cdLog := cdLog d @ [(fileName, cdLastErrNo d, cdLastError d)]\<rparr>"

definition throwIfFailed :: "'m cdb \<Rightarrow> 'a res \<Rightarrow> 'a res" where
  "throwIfFailed d k = (if cdBFailed d then Inl UncaughtException else k)"

definition fail :: "'m mysql \<Rightarrow> byte list \<Rightarrow> 'm cdb \<Rightarrow> 'm cdb" where
  "fail api context d =
     (let d = d\<lparr>cdBFailed := True, cdLastErrNo := myErrno api (cdDb d),
                cdLastError := snprintf 512 (ascii ''context : '' @ context @ [32, 32, 9] @
                  ascii '' errMsg : '' @ myError api (cdDb d) @ [32])\<rparr>
      in writeLog (cdFilename d) d)"

definition ClearError :: "'m cdb \<Rightarrow> 'm cdb" where
  "ClearError d = d\<lparr>cdBFailed := False\<rparr>"

definition Connect ::
    "'m mysql \<Rightarrow> byte list \<Rightarrow> byte list \<Rightarrow> byte list \<Rightarrow> byte list \<Rightarrow> int \<Rightarrow> 'm cdb \<Rightarrow> (bool \<times> 'm cdb) res" where
  "Connect api host user pass dbName port d =
     throwIfFailed d
       (assertR (myInit api)
         (case myConnect api host user pass dbName port (cdDb d) of (ok, m) \<Rightarrow>
            let d = d\<lparr>cdDb := m\<rparr> in
            if ok then Inr (True, d\<lparr>cdConn := True\<rparr>)
            else let context = snprintf 200 (ascii ''Connect(host='' @ host @ ascii '', port='' @ showI port @
                       ascii '', db='' @ dbName @ ascii '')'')
                 in Inr (False, (fail api context d)\<lparr>cdConn := False\<rparr>)))"

definition Disconnect :: "'m cdb \<Rightarrow> 'm cdb res" where
  "Disconnect d = (let d = d\<lparr>cdConn := False\<rparr> in throwIfFailed d (Inr d))"

definition Execute :: "'m mysql \<Rightarrow> byte list \<Rightarrow> 'm cdb \<Rightarrow> (bool \<times> 'm cdb) res" where
  "Execute api query d =
     throwIfFailed d
       (if \<not> cdConn d then Inl UndefinedBehaviour
        else case myQuery api query (cdDb d) of (ok, m) \<Rightarrow>
          let d = d\<lparr>cdDb := m\<rparr> in Inr (ok, if ok then d else fail api query d))"

definition Query :: "'m mysql \<Rightarrow> byte list \<Rightarrow> 'm cdb \<Rightarrow> (bool \<times> resultSet \<times> 'm cdb) res" where
  "Query api query d =
     throwIfFailed d
       (if \<not> cdConn d then Inl UndefinedBehaviour
        else case myQuery api query (cdDb d) of (ok, m) \<Rightarrow>
          let d = d\<lparr>cdDb := m\<rparr> in
          if \<not> ok then Inr (False, emptyResult, fail api query d)
          else case myStore api (cdDb d) of (res, m) \<Rightarrow>
            let d = d\<lparr>cdDb := m\<rparr> in
            case res of
              None \<Rightarrow> Inr (False, emptyResult, fail api query d)
            | Some (names, rows) \<Rightarrow>
                Inr (True, \<lparr> rsRows = rows, rsRow = None,
                  rsColumnIndex = fold (\<lambda>(i, name) t. mapIns name i t) (enumerate 0 names) [] \<rparr>, d))"

subsection \<open>The contract of the handle\<close>

text \<open>
  What the callers rely on: on a connected handle without a pending error every call answers, and
  it leaves an error pending exactly when it answers false; taking the error back makes the handle
  usable again; with an error pending every call throws.
\<close>

locale db_handle =
  fixes usable pending :: "'d \<Rightarrow> bool" and clear :: "'d \<Rightarrow> 'd"
    and exec :: "byte list \<Rightarrow> 'd \<Rightarrow> (bool \<times> 'd) res"
    and query :: "byte list \<Rightarrow> 'd \<Rightarrow> (bool \<times> 'r \<times> 'd) res"
  assumes usable_clear: "usable (clear d) = usable d"
    and clear_pending: "\<not> pending (clear d)"
    and exec_answers: "usable d \<Longrightarrow> \<not> pending d \<Longrightarrow>
      \<exists>ok d'. exec q d = Inr (ok, d') \<and> usable d' \<and> pending d' = (\<not> ok)"
    and query_answers: "usable d \<Longrightarrow> \<not> pending d \<Longrightarrow>
      \<exists>ok rs d'. query q d = Inr (ok, rs, d') \<and> usable d' \<and> pending d' = (\<not> ok)"
    and exec_throws: "pending d \<Longrightarrow> exec q d = Inl UncaughtException"
    and query_throws: "pending d \<Longrightarrow> query q d = Inl UncaughtException"
begin

text \<open>A call whose failure is taken back, the idiom of every caller.\<close>

lemma exec_cleared:
  assumes "usable d" "\<not> pending d"
  obtains ok d' where "exec q d = Inr (ok, d')" "usable (if ok then d' else clear d')"
    "\<not> pending (if ok then d' else clear d')"
  using exec_answers [OF assms, of q] usable_clear clear_pending that by (metis (full_types))

lemma query_cleared:
  assumes "usable d" "\<not> pending d"
  obtains ok rs d' where "query q d = Inr (ok, rs, d')" "usable (if ok then d' else clear d')"
    "\<not> pending (if ok then d' else clear d')"
  using query_answers [OF assms, of q] usable_clear clear_pending that by (metis (full_types))

text \<open>A failure that is not taken back stops the next call.\<close>

lemma exec_twice:
  assumes "usable d" "\<not> pending d" "exec q d = Inr (False, d')"
  shows "exec q' d' = Inl UncaughtException" "query q' d' = Inl UncaughtException"
  using exec_answers [OF assms(1,2), of q] assms(3) exec_throws query_throws by auto

end

interpretation cdb: db_handle cdConn cdBFailed ClearError "Execute api" "Query api" for api
  by unfold_locales
    (auto simp: ClearError_def Execute_def Query_def throwIfFailed_def fail_def writeLog_def Let_def
      split: prod.splits option.splits)

subsection \<open>Numbers as text\<close>

lemma isDigit_digit: "d < 10 \<Longrightarrow> isDigit (of_nat (48 + d))"
  by (simp add: isDigit_def uint_nat unat_of_nat del: of_nat_add)

lemma uint_digit: "d < 10 \<Longrightarrow> uint (of_nat (48 + d) :: byte) = 48 + int d"
  by (simp add: uint_nat unat_of_nat del: of_nat_add)

lemma showN_digits: "list_all isDigit (showN n) \<and> showN n \<noteq> []"
proof (induction n rule: showN.induct)
  case (1 n)
  then show ?case using isDigit_digit by (subst (1 2) showN.simps) (auto simp del: of_nat_add)
qed

lemma digitsVal_snoc: "digitsVal (ds @ [b]) = 10 * digitsVal ds + (uint b - 48)"
  by (simp add: digitsVal_def)

lemma digitsVal_showN: "digitsVal (showN n) = int n"
proof (induction n rule: showN.induct)
  case (1 n)
  show ?case
  proof (cases "n < 10")
    case True
    then show ?thesis by (subst showN.simps) (simp add: digitsVal_def uint_digit del: of_nat_add)
  next
    case False
    then have "digitsVal (showN (n div 10)) = int (n div 10)" using 1 by blast
    then show ?thesis using False uint_digit [of "n mod 10"]
      by (subst showN.simps) (simp add: digitsVal_snoc del: of_nat_add, presburger)
  qed
qed

lemma digit_first:
  assumes "isDigit b"
  shows "\<not> isSpace b" "b \<noteq> 45" "b \<noteq> 43"
  using assms by (auto simp: isDigit_def isSpace_def)

text \<open>What is printed with \<open>%lld\<close> is read back by \<open>atoll\<close>.\<close>

lemma atoll_showI:
  assumes "- (2 ^ 63) \<le> i" "i < 2 ^ 63"
  shows "atoll (showI i) = Inr i"
proof -
  obtain b bs where bs: "showN (nat \<bar>i\<bar>) = b # bs" "isDigit b"
    using showN_digits [of "nat \<bar>i\<bar>"] by (cases "showN (nat \<bar>i\<bar>)") auto
  have all: "takeWhile isDigit bs = bs"
    using showN_digits [of "nat \<bar>i\<bar>"] bs by (simp add: takeWhile_eq_all_conv list_all_iff)
  have val: "digitsVal (showN (nat \<bar>i\<bar>)) = \<bar>i\<bar>" by (simp add: digitsVal_showN)
  show ?thesis
  proof (cases "i < 0")
    case True
    then have "showI i = 45 # b # bs" using bs by (simp add: showI_def abs_if)
    moreover have "\<not> isSpace 45" by (simp add: isSpace_def)
    ultimately show ?thesis using True val bs assms by (simp add: atoll_def all)
  next
    case False
    then have "showI i = b # bs" using bs by (simp add: showI_def abs_if)
    then show ?thesis using False val bs digit_first [OF bs(2)] assms by (simp add: atoll_def all)
  qed
qed

end
