(* ===== verification/Auth.thy ===== *)
theory Auth
  imports Leave Cdb
begin

text \<open>
  The authentication thread of \<open>FieldServer.cpp\<close> and the three callbacks of the network library:
  \<open>onAccept\<close>, \<open>onRecv\<close>, \<open>onRelease\<close>, \<open>handleAuthReq\<close> with the checks of its input, the notices
  from the field, and the iteration of \<open>authThread\<close>. The database is the parameter \<open>api\<close> of theory
  \<open>Cdb\<close>; the conversion \<open>(float)atof(...)\<close> of a column is the parameter \<open>atof\<close>.
\<close>

subsection \<open>Callbacks of the network library\<close>

text \<open>\<open>session->SetPtr(player)\<close>: the session number leads to the player.\<close>

definition onAccept :: "int \<Rightarrow> server \<Rightarrow> server res" where
  "onAccept sessionID s =
     (if CONFIG_UNAUTH_MAX_SIZE \<le> length (svUnAuth s) then Inr (disconnectSession sessionID s)
      else let p = (newPlayer sessionID)\<lparr>plLastTime := svNow s\<rparr>
           in assertR (sessionID \<notin> set (svUnAuth s))
                (Inr (s\<lparr>svObjs := alUpd sessionID p (svObjs s),
                        svUnAuth := svUnAuth s @ [sessionID],
                        svPlayerCnt := svPlayerCnt s + 1\<rparr>)))"

definition onRecv :: "message \<Rightarrow> server \<Rightarrow> server res" where
  "onRecv msg s =
     (let sessionID = mOwnerID msg in
      the_or_break (map_of (svObjs s) sessionID) (\<lambda>p.
      bindR (EnQueueMsg msg p) (\<lambda>p.
      let p = p\<lparr>plSendMsgCnt := plSendMsgCnt p + 1\<rparr>;
          s = (if CONFIG_SESSION_SENDQ_CAPPACITY \<le> plSendMsgCnt p
               then let s = disconnectSession sessionID s
                    in s\<lparr>svDisconnectSendQ := svDisconnectSendQ s + 1\<rparr>
               else s)
      in Inr (putP (p\<lparr>plLastTime := svNow s\<rparr>) s))))"

definition onRelease :: "int \<Rightarrow> server \<Rightarrow> server" where
  "onRelease sessionID s =
     (case map_of (svObjs s) sessionID of
        None \<Rightarrow> s
      | Some p \<Rightarrow> putP (p\<lparr>plBConnect := False\<rparr>) s)"

subsection \<open>The input of a login\<close>

text \<open>
  \<open>escapeSqlString\<close> on the terminated array \<open>input\<close>: what it writes before the terminator, which goes
  to index \<open>outIdx\<close> plus the number of bytes written.
\<close>

fun escapeSqlString :: "byte list \<Rightarrow> nat \<Rightarrow> nat \<Rightarrow> byte list" where
  "escapeSqlString [] outIdx outputSize = []"
| "escapeSqlString (c # cs) outIdx outputSize =
     (if c = 0 \<or> \<not> outIdx + 2 < outputSize then []
      else if c = 39 \<or> c = 92 then 92 # c # escapeSqlString cs (outIdx + 2) outputSize
      else c # escapeSqlString cs (outIdx + 1) outputSize)"

definition isalnum :: "byte \<Rightarrow> bool" where "isalnum b \<longleftrightarrow> isDigit b \<or> isAlpha b"

fun allAlnum :: "byte list \<Rightarrow> bool" where
  "allAlnum [] = True"
| "allAlnum (c # cs) = (c = 0 \<or> (isalnum c \<and> allAlnum cs))"

definition isValidId :: "byte list \<Rightarrow> bool" where
  "isValidId bs = (case bs of [] \<Rightarrow> False | c # cs \<Rightarrow> c \<noteq> 0 \<and> allAlnum bs)"

subsection \<open>\<open>FIELD_AUTH_REQ\<close>\<close>

definition sendAuthFail :: "int \<Rightarrow> server \<Rightarrow> server res" where
  "sendAuthFail = sendMsg FIELD_AUTH_FAIL (2 + 1) [enc 1 0]"

definition selectQuery :: "byte list \<Rightarrow> byte list \<Rightarrow> byte list" where
  "selectQuery ident escapedPw = snprintf 384
     (ascii ''SELECT accountNo, x, y FROM Accounts WHERE id='' @ [39] @ ident @ [39] @
      ascii '' AND pw='' @ [39] @ escapedPw @ [39])"

definition insertQuery :: "byte list \<Rightarrow> byte list \<Rightarrow> byte list" where
  "insertQuery ident escapedPw = snprintf 384
     (ascii ''INSERT INTO Accounts (id, pw, x, y) VALUES ('' @ [39] @ ident @ [39] @ ascii '', '' @
      [39] @ escapedPw @ [39] @ ascii '', 0, 0)'')"

definition numberQuery :: "byte list \<Rightarrow> byte list" where
  "numberQuery ident = snprintf 128 (ascii ''SELECT accountNo FROM Accounts WHERE id='' @ [39] @ ident @ [39])"

text \<open>A column, as the conversions read it: they are given no null pointer.\<close>

definition column :: "string \<Rightarrow> resultSet \<Rightarrow> byte list res" where
  "column name rs =
     bindR (GetValue (ascii name) rs) (\<lambda>v. case v of None \<Rightarrow> Inl UndefinedBehaviour | Some bs \<Rightarrow> Inr bs)"

definition columnInt :: "string \<Rightarrow> resultSet \<Rightarrow> int res" where
  "columnInt name rs = bindR (column name rs) atoll"

definition columnFloat :: "(byte list \<Rightarrow> f32) \<Rightarrow> string \<Rightarrow> resultSet \<Rightarrow> f32 res" where
  "columnFloat atof name rs = bindR (column name rs) (\<lambda>bs. Inr (atof bs))"

definition lookupAccount ::
    "'m mysql \<Rightarrow> (byte list \<Rightarrow> f32) \<Rightarrow> byte list \<Rightarrow> byte list \<Rightarrow> 'm cdb \<Rightarrow> ((int \<times> f32 \<times> f32) option \<times> 'm cdb) res" where
  "lookupAccount api atof ident escapedPw db =
     bindR (Query api (selectQuery ident escapedPw) db) (\<lambda>(ok, rs, db).
     if ok
     then (case Fetch rs of (found, rs) \<Rightarrow>
       if found
       then bindR (columnInt ''accountNo'' rs) (\<lambda>accountNo.
            bindR (columnFloat atof ''x'' rs) (\<lambda>x.
            bindR (columnFloat atof ''y'' rs) (\<lambda>y.
            Inr (Some (accountNo, x, y), db))))
       else Inr (None, db))
     else Inr (None, ClearError db))"

definition createAccount ::
    "'m mysql \<Rightarrow> byte list \<Rightarrow> byte list \<Rightarrow> 'm cdb \<Rightarrow> ((int \<times> f32 \<times> f32) option \<times> 'm cdb) res" where
  "createAccount api ident escapedPw db =
     bindR (Execute api (insertQuery ident escapedPw) db) (\<lambda>(ok, db).
     if \<not> ok then Inr (None, ClearError db)
     else bindR (Query api (numberQuery ident) db) (\<lambda>(ok, rs, db).
       if \<not> ok then Inr (None, ClearError db)
       else case Fetch rs of (found, rs) \<Rightarrow>
         if \<not> found then Inr (None, ClearError db)
         else bindR (columnInt ''accountNo'' rs) (\<lambda>accountNo. Inr (Some (accountNo, 0, 0), db))))"

definition findAccount ::
    "'m mysql \<Rightarrow> (byte list \<Rightarrow> f32) \<Rightarrow> byte list \<Rightarrow> byte list \<Rightarrow> 'm cdb \<Rightarrow> ((int \<times> f32 \<times> f32) option \<times> 'm cdb) res" where
  "findAccount api atof ident escapedPw db =
     bindR (lookupAccount api atof ident escapedPw db) (\<lambda>(r, db).
     case r of Some a \<Rightarrow> Inr (Some a, db) | None \<Rightarrow> createAccount api ident escapedPw db)"

text \<open>The player leaves the table of the unauthenticated and gets its account, number and name.\<close>

definition admit :: "int \<Rightarrow> byte list \<Rightarrow> int \<Rightarrow> f32 \<Rightarrow> f32 \<Rightarrow> server \<Rightarrow> server res" where
  "admit sessionID nickname accountNo x y s =
     (if map_of (svAccounts s) accountNo \<noteq> None
      then (case map_of (svAccounts s) accountNo of
              None \<Rightarrow> Inr s
            | Some k \<Rightarrow> derefP k s (\<lambda>dup. sendAuthFail sessionID (disconnectSession (plSeqID dup) s)))
      else if sessionID \<notin> set (svUnAuth s) then Inr s
      else derefP sessionID s (\<lambda>p.
        let characterId = wrap64 (svCharacterID s + 1);
            p = InitPlayerInfo accountNo characterId 0 (SetPosition x y p);
            p = p\<lparr>plNickname := nickname\<rparr>;
            s = putP p (s\<lparr>svUnAuth := removeAll sessionID (svUnAuth s), svCharacterID := characterId,
                          svAccounts := mapIns accountNo sessionID (svAccounts s)\<rparr>)
        in sendMsg FIELD_AUTH_RES (2 + 8 + 4 + 4) [enc 8 characterId, encF x, encF y] sessionID s))"

definition handleAuthReq ::
    "'m mysql \<Rightarrow> (byte list \<Rightarrow> f32) \<Rightarrow> message \<Rightarrow> server \<times> 'm cdb \<Rightarrow> (server \<times> 'm cdb) res" where
  "handleAuthReq api atof msg sd =
     (case sd of (s, db) \<Rightarrow>
      bindR (GetData 20 msg) (\<lambda>(ident, msg).
      let ident = ident[19 := 0] in
      bindR (GetData 64 msg) (\<lambda>(pw, msg).
      let sessionID = mOwnerID msg in
      if \<not> isValidId ident then bindR (sendAuthFail sessionID s) (\<lambda>s. Inr (s, db))
      else let escapedPw = escapeSqlString (pw @ [0]) 0 129 in
           bindR (cstr ident) (\<lambda>idText.
           bindR (findAccount api atof idText escapedPw db) (\<lambda>(r, db).
           case r of
             None \<Rightarrow> bindR (sendAuthFail sessionID s) (\<lambda>s. Inr (s, db))
           | Some (accountNo, x, y) \<Rightarrow>
               bindR (admit sessionID ident accountNo x y s) (\<lambda>s. Inr (s, db)))))))"

definition authPacketProc ::
    "'m mysql \<Rightarrow> (byte list \<Rightarrow> f32) \<Rightarrow> message \<Rightarrow> server \<times> 'm cdb \<Rightarrow> (server \<times> 'm cdb) res" where
  "authPacketProc api atof msg sd =
     (case sd of (s, db) \<Rightarrow>
      bindR (getS 2 msg) (\<lambda>(type, msg).
      bindR (RecordRecv type s) (\<lambda>s.
      assertR (type = FIELD_AUTH_REQ) (handleAuthReq api atof msg (s, db)))))"

subsection \<open>Notices from the field\<close>

definition authNotifyPacketProc :: "message \<Rightarrow> server \<Rightarrow> server res" where
  "authNotifyPacketProc msg s =
     bindR (getS 2 msg) (\<lambda>(type, msg).
     if type = PLAYER_DISCONNECTED
     then bindR (getS 8 msg) (\<lambda>(accountNo, msg).
          the_or_break (map_of (svAccounts s) accountNo) (\<lambda>k.
          derefP k s (\<lambda>p.
          Inr (s\<lparr>svAuthPlayers := setIns (plSeqID p) (svAuthPlayers s),
                 svAccounts := alDel accountNo (svAccounts s)\<rparr>))))
     else if type = PLAYER_MOVEFILED
     then bindR (getS 8 msg) (\<lambda>(accountNo, msg).
          bindR (getS 4 msg) (\<lambda>(targetFieldIdx, msg).
          the_or_break (map_of (svAccounts s) accountNo) (\<lambda>k.
          derefP k s (\<lambda>p.
          Inr (s\<lparr>svAuthPlayers := setIns (plSeqID p) (svAuthPlayers s)\<rparr>)))))
     else Inl DebugBreak)"

subsection \<open>An iteration of the authentication thread\<close>

definition registerUnAuth :: "server \<Rightarrow> server" where
  "registerUnAuth s = s\<lparr>svAuthPlayers := fold setIns (svUnAuth s) (svAuthPlayers s)\<rparr>"

partial_function (option) authMsgs ::
    "'m mysql \<Rightarrow> (byte list \<Rightarrow> f32) \<Rightarrow> int \<Rightarrow> server \<times> 'm cdb \<Rightarrow> (server \<times> 'm cdb) res option" where
  "authMsgs api atof k sd =
     (case map_of (svObjs (fst sd)) k of
        None \<Rightarrow> Some (Inl UndefinedBehaviour)
      | Some p \<Rightarrow>
          (case DeQueueMsgOrNull p of
             (None, p) \<Rightarrow> Some (Inr (putP p (fst sd), snd sd))
           | (Some msg, p) \<Rightarrow>
               (case authPacketProc api atof msg (putP p (fst sd), snd sd) of
                  Inl e \<Rightarrow> Some (Inl e)
                | Inr sd \<Rightarrow>
                    (case map_of (svObjs (fst sd)) k of
                       None \<Rightarrow> Some (Inl UndefinedBehaviour)
                     | Some p \<Rightarrow>
                         let p = p\<lparr>plSendMsgCnt := plSendMsgCnt p - 1\<rparr>; sd = (putP p (fst sd), snd sd)
                         in if plNextFieldID p \<noteq> CONFIG_AUTH_FIELD_IDX then Some (Inr sd)
                            else authMsgs api atof k sd))))"

definition authPlayers ::
    "'m mysql \<Rightarrow> (byte list \<Rightarrow> f32) \<Rightarrow> server \<times> 'm cdb \<Rightarrow> (server \<times> 'm cdb) res" where
  "authPlayers api atof sd =
     foldR (\<lambda>k sd. derefP k (fst sd) (\<lambda>p.
       if plNextFieldID p \<noteq> CONFIG_AUTH_FIELD_IDX then Inr sd
       else case authMsgs api atof k sd of None \<Rightarrow> Inl NoReturn | Some r \<Rightarrow> r))
       (svAuthPlayers (fst sd)) sd"

definition authNotices :: "server \<Rightarrow> server res" where
  "authNotices s =
     foldR (\<lambda>msg s. authNotifyPacketProc msg (s\<lparr>svNotifyQ := tl (svNotifyQ s)\<rparr>)) (svNotifyQ s) s"

text \<open>The iteration ends the thread (the flag is off) when the server is stopped and no account is left.\<close>

definition authStep ::
    "'m mysql \<Rightarrow> (byte list \<Rightarrow> f32) \<Rightarrow> server \<times> 'm cdb \<Rightarrow> (bool \<times> server \<times> 'm cdb) res" where
  "authStep api atof sd =
     (if \<not> svOn (fst sd) \<and> svAccounts (fst sd) = [] then Inr (False, sd)
      else bindR (authPlayers api atof (registerUnAuth (fst sd), snd sd)) (\<lambda>(s, db).
           bindR (authNotices s) (\<lambda>s.
           bindR (checkDisConnectedAndLeavePlayer CONFIG_AUTH_FIELD_IDX s) (\<lambda>s.
           bindR (heartBeatForUnAuthSession CONFIG_AUTH_FIELD_IDX s) (\<lambda>s.
           Inr (True, s, db))))))"

definition authStart :: "'m mysql \<Rightarrow> 'm cdb \<Rightarrow> 'm cdb res" where
  "authStart api db =
     bindR (Connect api (ascii ''localhost'') (ascii ''root'') (ascii ''123123'') (ascii ''stoneage'') 3306 db) (\<lambda>(ok, db).
     if ok then Inr db else let db = ClearError db in assertR False (Inr db))"

end
