(* ===== verification/Db.thy ===== *)
theory Db
  imports Auth
begin

text \<open>
  The database thread \<open>FieldServer::dbThread\<close>, one job at a time: positions and kill counts go to
  the SQL database, kill counts and their times to Redis, and a ranking is read from Redis, its ties
  put in the order in which they were reached. The Redis client library is the parameter \<open>redis\<close>:
  what it answers to a command. \<open>stod\<close> and \<open>toI64\<close> are the conversions between text, \<open>double\<close> (a
  type \<open>'f\<close> with equality) and \<open>int64_t\<close>; \<open>epoch\<close> is what \<open>std::time\<close> answers.
\<close>

subsection \<open>The Redis client\<close>

text \<open>The commands of \<open>cpp_redis::client\<close> that are used, and the kinds of \<open>cpp_redis::reply\<close>.\<close>

datatype redisCmd =
    ZINCRBY "byte list" int "byte list"
  | ZREVRANGE "byte list" int int bool
  | ZREVRANK "byte list" "byte list"
  | ZSCORE "byte list" "byte list"
  | HSET "byte list" "byte list" "byte list"
  | HMGET "byte list" "byte list list"

datatype reply =
    RError "byte list"
  | RString "byte list"
  | RNull
  | RInteger int
  | RArray "reply list"

type_synonym 'r redis = "redisCmd \<Rightarrow> 'r \<Rightarrow> reply \<times> 'r"

text \<open>The header gives \<open>as_string\<close> and \<open>as_integer\<close> a meaning on replies of their kind only.\<close>

fun as_string :: "reply \<Rightarrow> byte list res" where
  "as_string (RError bs) = Inr bs"
| "as_string (RString bs) = Inr bs"
| "as_string _ = Inl UndefinedBehaviour"

fun as_integer :: "reply \<Rightarrow> int res" where
  "as_integer (RInteger n) = Inr n"
| "as_integer _ = Inl UndefinedBehaviour"

definition is_error :: "reply \<Rightarrow> bool" where
  "is_error r = (case r of RError _ \<Rightarrow> True | _ \<Rightarrow> False)"

definition ofOption :: "'a option \<Rightarrow> 'a res" where
  "ofOption x = (case x of None \<Rightarrow> Inl UncaughtException | Some v \<Rightarrow> Inr v)"

definition ZincrbySync :: "'r redis \<Rightarrow> byte list \<Rightarrow> int \<Rightarrow> byte list \<Rightarrow> 'r \<Rightarrow> bool \<times> 'r" where
  "ZincrbySync redis rkey incr member r =
     (case redis (ZINCRBY rkey (wrap32 incr) member) r of (a, r) \<Rightarrow> (\<not> is_error a, r))"

fun scorePairs :: "(byte list \<Rightarrow> 'f option) \<Rightarrow> reply list \<Rightarrow> (byte list \<times> 'f) list res" where
  "scorePairs stod (a # b # rest) =
     bindR (as_string a) (\<lambda>name.
     bindR (as_string b) (\<lambda>text.
     bindR (ofOption (stod text)) (\<lambda>score.
     bindR (scorePairs stod rest) (\<lambda>ps. Inr ((name, score) # ps)))))"
| "scorePairs stod _ = Inr []"

definition ZRevRangeWithScoresSync ::
    "'r redis \<Rightarrow> (byte list \<Rightarrow> 'f option) \<Rightarrow> byte list \<Rightarrow> int \<Rightarrow> 'r \<Rightarrow> ((byte list \<times> 'f) list \<times> 'r) res" where
  "ZRevRangeWithScoresSync redis stod rkey stop r =
     (case redis (ZREVRANGE rkey 0 stop True) r of (a, r) \<Rightarrow>
        (case a of
           RArray arr \<Rightarrow> bindR (scorePairs stod arr) (\<lambda>ps. Inr (ps, r))
         | _ \<Rightarrow> Inr ([], r)))"

definition ZRevRankSync :: "'r redis \<Rightarrow> byte list \<Rightarrow> byte list \<Rightarrow> 'r \<Rightarrow> (int \<times> 'r) res" where
  "ZRevRankSync redis rkey member r =
     (case redis (ZREVRANK rkey member) r of (a, r) \<Rightarrow>
        if a = RNull then Inr (- 1, r) else bindR (as_integer a) (\<lambda>n. Inr (n, r)))"

definition ZScoreSync ::
    "'r redis \<Rightarrow> (byte list \<Rightarrow> 'f option) \<Rightarrow> ('f \<Rightarrow> int) \<Rightarrow> byte list \<Rightarrow> byte list \<Rightarrow> 'r \<Rightarrow> (int \<times> 'r) res" where
  "ZScoreSync redis stod toI64 rkey member r =
     (case redis (ZSCORE rkey member) r of (a, r) \<Rightarrow>
        if a = RNull then Inr (0, r)
        else bindR (as_string a) (\<lambda>text. bindR (ofOption (stod text)) (\<lambda>score. Inr (toI64 score, r))))"

definition HSetSync :: "'r redis \<Rightarrow> byte list \<Rightarrow> byte list \<Rightarrow> byte list \<Rightarrow> 'r \<Rightarrow> bool \<times> 'r" where
  "HSetSync redis rkey field val r =
     (case redis (HSET rkey field val) r of (a, r) \<Rightarrow> (\<not> is_error a, r))"

definition HMGetSync :: "'r redis \<Rightarrow> byte list \<Rightarrow> byte list list \<Rightarrow> 'r \<Rightarrow> (byte list list \<times> 'r) res" where
  "HMGetSync redis rkey flds r =
     (case redis (HMGET rkey flds) r of (a, r) \<Rightarrow>
        (case a of
           RArray arr \<Rightarrow>
             bindR (foldR (\<lambda>x acc. if x = RNull then Inr (acc @ [[]])
                                   else bindR (as_string x) (\<lambda>v. Inr (acc @ [v]))) arr []) (\<lambda>vs. Inr (vs, r))
         | _ \<Rightarrow> Inr ([], r)))"

text \<open>\<open>std::stoll\<close>: no digits, or a number that does not fit, throws.\<close>

definition stoll :: "byte list \<Rightarrow> int res" where
  "stoll bs =
     (let t = dropWhile isSpace bs;
          t = (if t \<noteq> [] \<and> (hd t = 45 \<or> hd t = 43) then tl t else t)
      in if t = [] \<or> \<not> isDigit (hd t) then Inl UncaughtException
         else case atoll bs of Inl e \<Rightarrow> Inl UncaughtException | Inr n \<Rightarrow> Inr n)"

subsection \<open>The ranking\<close>

text \<open>The end \<open>j\<close> of the run of equal scores that starts at the head of the list.\<close>

definition tieRun :: "(byte list \<times> 'f) list \<Rightarrow> (byte list \<times> 'f) list" where
  "tieRun xs = (case xs of [] \<Rightarrow> [] | x # ys \<Rightarrow> x # takeWhile (\<lambda>y. snd y = snd x) ys)"

fun killTimes :: "byte list list \<Rightarrow> byte list list \<Rightarrow> (byte list \<times> int) list \<Rightarrow> (byte list \<times> int) list res" where
  "killTimes [] kts acc = Inr acc"
| "killTimes (m # ms) [] acc = Inl UndefinedBehaviour"
| "killTimes (m # ms) (t # ts) acc =
     bindR (if t = [] then Inr 0 else stoll t) (\<lambda>n. killTimes ms ts (alUpd m n acc))"

definition killTime :: "(byte list \<times> int) list \<Rightarrow> byte list \<Rightarrow> int" where
  "killTime kts name = (case map_of kts name of None \<Rightarrow> 0 | Some t \<Rightarrow> t)"

definition timeLess :: "(byte list \<times> int) list \<Rightarrow> byte list \<times> 'f \<Rightarrow> byte list \<times> 'f \<Rightarrow> bool" where
  "timeLess kts a b \<longleftrightarrow> killTime kts (fst a) < killTime kts (fst b)"

definition sortTie :: "'r redis \<Rightarrow> (byte list \<times> 'f) list \<Rightarrow> 'r \<Rightarrow> ((byte list \<times> 'f) list \<times> 'r) res" where
  "sortTie redis run r =
     (if 1 < length run
      then let tied = map fst run in
           bindR (HMGetSync redis (ascii ''ranking:lastkilltime'') tied r) (\<lambda>(kts, r).
           bindR (killTimes tied kts []) (\<lambda>lastKill.
           Inr (sortBy (timeLess lastKill) run, r)))
      else Inr (run, r))"

function sortTies :: "'r redis \<Rightarrow> (byte list \<times> 'f) list \<Rightarrow> 'r \<Rightarrow> ((byte list \<times> 'f) list \<times> 'r) res" where
  "sortTies redis xs r =
     (if xs = [] then Inr ([], r)
      else bindR (sortTie redis (tieRun xs) r) (\<lambda>(run, r).
           bindR (sortTies redis (drop (length (tieRun xs)) xs) r) (\<lambda>(rest, r).
           Inr (run @ rest, r))))"
  by pat_completeness auto
termination
  by (relation "measure (\<lambda>(redis, xs, r). length xs)") (auto simp: tieRun_def split: list.splits)

declare sortTies.simps [simp del]

definition MAX_TOP_ENTRY :: int where "MAX_TOP_ENTRY = 200"

definition rankEntryOf :: "('f \<Rightarrow> int) \<Rightarrow> byte list \<times> 'f \<Rightarrow> rankEntry" where
  "rankEntryOf toI64 e =
     (let name = take 19 (fst e)
      in \<lparr> reNickname = name @ replicate (20 - length name) 0, reKillCount = toI64 (snd e) \<rparr>)"

text \<open>The array of entries: 200 of them, zeroed; writing beyond is undefined.\<close>

definition rankTable :: "('f \<Rightarrow> int) \<Rightarrow> (byte list \<times> 'f) list \<Rightarrow> rankEntry list res" where
  "rankTable toI64 topList =
     (if int (length topList) \<le> MAX_TOP_ENTRY
      then Inr (map (rankEntryOf toI64) topList @
        replicate (200 - length topList) \<lparr> reNickname = replicate 20 0, reKillCount = 0 \<rparr>)
      else Inl UndefinedBehaviour)"

definition rankingJob ::
    "'r redis \<Rightarrow> (byte list \<Rightarrow> 'f option) \<Rightarrow> ('f \<Rightarrow> int) \<Rightarrow> int \<Rightarrow> byte list \<Rightarrow> 'r \<Rightarrow> (dbResult \<times> 'r) res" where
  "rankingJob redis stod toI64 seqID myNickname r =
     bindR (ZRevRangeWithScoresSync redis stod (ascii ''ranking:killcount'') (MAX_TOP_ENTRY - 1) r) (\<lambda>(topList, r).
     bindR (ZRevRankSync redis (ascii ''ranking:killcount'') myNickname r) (\<lambda>(myRankZeroBased, r).
     bindR (ZScoreSync redis stod toI64 (ascii ''ranking:killcount'') myNickname r) (\<lambda>(myKillCount, r).
     bindR (sortTies redis topList r) (\<lambda>(topList, r).
     let topCnt = wrap32 (int (length topList));
         myRank = (if myRankZeroBased = - 1 then - 1 else wrap64 (myRankZeroBased + 1))
     in bindR (rankTable toI64 topList) (\<lambda>entries.
        Inr (DBRankingResult seqID True topCnt myRank myKillCount entries, r))))))"

subsection \<open>Jobs\<close>

definition positionQuery :: "int \<Rightarrow> position \<Rightarrow> byte list" where
  "positionQuery accountNo pos = snprintf 256
     (ascii ''UPDATE Accounts SET x='' @ showF (posX pos) @ ascii '', y='' @ showF (posY pos) @
      ascii '' WHERE accountNo='' @ showI accountNo)"

definition killQuery :: "int \<Rightarrow> int \<Rightarrow> byte list" where
  "killQuery accountNo killCnt = snprintf 256
     (ascii ''UPDATE Accounts SET killCount = killCount + '' @ showI killCnt @
      ascii '', lastKillTime = NOW() WHERE accountNo='' @ showI accountNo)"

definition dbJobOne ::
    "'m mysql \<Rightarrow> 'r redis \<Rightarrow> (byte list \<Rightarrow> 'f option) \<Rightarrow> ('f \<Rightarrow> int) \<Rightarrow> int \<Rightarrow> dbJob \<Rightarrow> 'm cdb \<times> 'r \<Rightarrow>
     (dbResult \<times> 'm cdb \<times> 'r) res" where
  "dbJobOne api redis stod toI64 epoch job w =
     (case w of (db, r) \<Rightarrow>
      case job of
        DBPositionSave seqID accountNo pos \<Rightarrow>
          bindR (Execute api (positionQuery accountNo pos) db) (\<lambda>(ok, db).
          let db = (if \<not> ok then ClearError db else db)
          in Inr (DBPositionSaved seqID ok, db, r))
      | DBKillCountUpdate seqID accountNo nickname killCnt \<Rightarrow>
          bindR (Execute api (killQuery accountNo killCnt) db) (\<lambda>(dbOk, db).
          let db = (if \<not> dbOk then ClearError db else db)
          in bindR (cstr nickname) (\<lambda>nick.
             case ZincrbySync redis (ascii ''ranking:killcount'') killCnt nick r of (redisOk, r) \<Rightarrow>
             case HSetSync redis (ascii ''ranking:lastkilltime'') nick (showI epoch) r of (timeOk, r) \<Rightarrow>
             Inr (DBKillCountUpdated seqID (dbOk \<and> redisOk \<and> timeOk), db, r)))
      | DBRankingQuery seqID accountNo nickname \<Rightarrow>
          bindR (cstr nickname) (\<lambda>nick.
          bindR (rankingJob redis stod toI64 seqID nick r) (\<lambda>(result, r).
          Inr (result, db, r))))"

text \<open>
  The loop over the jobs: each is taken off the queue and its answer enqueued. \<open>finished\<close> says that
  the second of the two events the thread waits for was the one that woke it.
\<close>

definition dbStep ::
    "'m mysql \<Rightarrow> 'r redis \<Rightarrow> (byte list \<Rightarrow> 'f option) \<Rightarrow> ('f \<Rightarrow> int) \<Rightarrow> int \<Rightarrow> bool \<Rightarrow> server \<times> 'm cdb \<times> 'r \<Rightarrow>
     (bool \<times> server \<times> 'm cdb \<times> 'r) res" where
  "dbStep api redis stod toI64 epoch finished w =
     (if finished \<and> svDBReqQ (fst w) = [] then Inr (False, w)
      else bindR (foldR (\<lambda>job (s, w).
             let s = s\<lparr>svDBReqQ := tl (svDBReqQ s)\<rparr> in
             bindR (dbJobOne api redis stod toI64 epoch job w) (\<lambda>(result, w).
             bindR (enqPtr result (svDBResQ s)) (\<lambda>q.
             Inr (s\<lparr>svDBResQ := q\<rparr>, w)))) (svDBReqQ (fst w)) w) (\<lambda>w. Inr (True, w)))"

end
