(* ===== verification/DbProps.thy ===== *)
theory DbProps
  imports Db CombatInv "HOL-Library.Multiset"
begin

text \<open>
  The ranking: what Redis holds comes back in the order of the scores, and of those with the same
  score the one that reached it first is first.
\<close>

subsection \<open>Sorting\<close>

lemma mset_sortBy: "mset (sortBy lt xs) = mset xs"
proof (induction xs)
  case (Cons x xs)
  have "mset (insBy lt x ys) = add_mset x (mset ys)" for ys by (induction ys) auto
  then show ?case using Cons by (simp add: sortBy_def)
qed (simp add: sortBy_def)

lemma sorted_sortBy_key: "sorted_wrt (\<lambda>a b. f a \<le> f b) (sortBy (\<lambda>a b. f a < (f b :: int)) xs)"
proof (induction xs)
  case (Cons x xs)
  have "sorted_wrt (\<lambda>a b. f a \<le> f b) ys \<Longrightarrow>
      sorted_wrt (\<lambda>a b. f a \<le> f b) (insBy (\<lambda>a b. f a < f b) x ys)" for ys
    by (induction ys) (auto simp: set_insBy)
  then show ?case using Cons by (simp add: sortBy_def)
qed (simp add: sortBy_def)

lemma stoll_showI:
  assumes "- (2 ^ 63) \<le> t" "t < 2 ^ 63"
  shows "stoll (showI t) = Inr t"
proof -
  obtain b bs where b: "showN (nat \<bar>t\<bar>) = b # bs" "isDigit b"
    using showN_digits [of "nat \<bar>t\<bar>"] by (cases "showN (nat \<bar>t\<bar>)") auto
  then have "showI t = (if t < 0 then 45 # b # bs else b # bs)" by (cases "t < 0") (simp_all add: showI_def)
  moreover have "\<not> isSpace 45" by (simp add: isSpace_def)
  ultimately show ?thesis using b(2) digit_first [OF b(2)] atoll_showI [OF assms] by (auto simp: stoll_def Let_def)
qed

subsection \<open>What is relied on of Redis\<close>

text \<open>
  The documented answers of the five commands on a sorted set \<open>lead\<close> (members with their scores, highest
  first) and a hash \<open>tms\<close>; \<open>wr\<close> is how Redis writes a score, which \<open>stod\<close> reads back.
\<close>

abbreviation timeReply :: "(byte list \<Rightarrow> int option) \<Rightarrow> byte list \<Rightarrow> reply" where
  "timeReply tms m \<equiv> (case tms m of None \<Rightarrow> RNull | Some t \<Rightarrow> RString (showI t))"

definition redis_ranks ::
    "'rs redis \<Rightarrow> (byte list \<Rightarrow> 'f option) \<Rightarrow> ('f \<Rightarrow> byte list) \<Rightarrow> (byte list \<times> 'f) list \<Rightarrow>
     (byte list \<Rightarrow> int option) \<Rightarrow> 'rs \<Rightarrow> bool" where
  "redis_ranks redis stod wr lead tms r \<longleftrightarrow>
     (\<forall>s. stod (wr s) = Some s) \<and> (\<forall>m t. tms m = Some t \<longrightarrow> - (2 ^ 63) \<le> t \<and> t < 2 ^ 63) \<and>
     redis (ZREVRANGE (ascii ''ranking:killcount'') 0 199 True) r =
       (RArray (concat (map (\<lambda>(n, s). [RString n, RString (wr s)]) lead)), r) \<and>
     (\<forall>m. redis (ZREVRANK (ascii ''ranking:killcount'') m) r = (RNull, r) \<or>
       (\<exists>n. redis (ZREVRANK (ascii ''ranking:killcount'') m) r = (RInteger n, r))) \<and>
     (\<forall>m. redis (ZSCORE (ascii ''ranking:killcount'') m) r = (RNull, r) \<or>
       (\<exists>s. redis (ZSCORE (ascii ''ranking:killcount'') m) r = (RString (wr s), r))) \<and>
     (\<forall>ms. redis (HMGET (ascii ''ranking:lastkilltime'') ms) r = (RArray (map (timeReply tms) ms), r))"

lemma scorePairs_all:
  assumes "\<forall>s. stod (wr s) = Some s"
  shows "scorePairs stod (concat (map (\<lambda>(n, s). [RString n, RString (wr s)]) lead)) = Inr lead"
  by (induction lead) (auto simp: assms ofOption_def)

definition timeText :: "(byte list \<Rightarrow> int option) \<Rightarrow> byte list \<Rightarrow> byte list" where
  "timeText tms m = (case tms m of None \<Rightarrow> [] | Some t \<Rightarrow> showI t)"

definition timeOf :: "(byte list \<Rightarrow> int option) \<Rightarrow> byte list \<Rightarrow> int" where
  "timeOf tms m = (case tms m of None \<Rightarrow> 0 | Some t \<Rightarrow> t)"

lemma hmget_texts:
  "foldR (\<lambda>x acc. if x = RNull then Inr (acc @ [[]]) else bindR (as_string x) (\<lambda>v. Inr (acc @ [v])))
     (map (timeReply tms) ms) acc = Inr (acc @ map (timeText tms) ms)"
proof (induction ms arbitrary: acc)
  case (Cons m ms)
  have "timeText tms m = (if timeReply tms m = RNull then [] else showI (the (tms m)))"
    by (simp add: timeText_def split: option.split)
  then show ?case using Cons by (cases "tms m") (simp_all add: timeText_def)
qed simp

lemma showI_text: "showI t \<noteq> []"
  using showN_digits by (simp add: showI_def)

lemma killTimes_all:
  assumes "\<forall>m t. tms m = Some t \<longrightarrow> - (2 ^ 63) \<le> t \<and> t < 2 ^ 63"
  shows "\<exists>kts. killTimes ms (map (timeText tms) ms) acc = Inr kts \<and>
    (\<forall>m. killTime kts m = (if m \<in> set ms then timeOf tms m else killTime acc m))"
proof (induction ms arbitrary: acc)
  case (Cons m ms)
  have 1: "(if timeText tms m = [] then Inr 0 else stoll (timeText tms m)) = Inr (timeOf tms m)"
    using assms stoll_showI showI_text by (auto simp: timeText_def timeOf_def split: option.split)
  have "killTime (alUpd m (timeOf tms m) acc) x = (if x = m then timeOf tms m else killTime acc x)" for x
    by (simp add: killTime_def)
  then show ?case using Cons.IH [of "alUpd m (timeOf tms m) acc"] 1 by auto
qed simp

subsection \<open>Runs of ties\<close>

lemma sortTie_run:
  assumes red: "redis_ranks redis stod wr lead tms r"
  shows "\<exists>ys. sortTie redis run r = Inr (ys, r) \<and> mset ys = mset run \<and>
    sorted_wrt (\<lambda>a b. timeOf tms (fst a) \<le> timeOf tms (fst b)) ys"
proof (cases "1 < length run")
  case False
  then have "sorted_wrt (\<lambda>a b. timeOf tms (fst a) \<le> timeOf tms (fst b)) run" by (cases run) auto
  then show ?thesis using False by (simp add: sortTie_def)
next
  case True
  have t: "\<forall>m t. tms m = Some t \<longrightarrow> - (2 ^ 63) \<le> t \<and> t < 2 ^ 63"
    using red unfolding redis_ranks_def by blast
  have h: "HMGetSync redis (ascii ''ranking:lastkilltime'') (map fst run) r = Inr (map (timeText tms) (map fst run), r)"
    using red hmget_texts [of tms "map fst run" "[]"] by (simp add: redis_ranks_def HMGetSync_def)
  obtain kts where k: "killTimes (map fst run) (map (timeText tms) (map fst run)) [] = Inr kts"
      "\<forall>m. killTime kts m = (if m \<in> set (map fst run) then timeOf tms m else killTime [] m)"
    using killTimes_all [OF t] by blast
  have "sortBy (timeLess kts) run = sortBy (\<lambda>a b. timeOf tms (fst a) < timeOf tms (fst b)) run"
    by (rule sortBy_cong) (simp add: timeLess_def k(2))
  moreover have "sortTie redis run r = Inr (sortBy (timeLess kts) run, r)"
    using True h k(1) by (simp add: sortTie_def)
  ultimately show ?thesis
    using sorted_sortBy_key [where f = "timeOf tms \<circ> fst"] mset_sortBy by auto
qed

lemma tieRun_append: "tieRun xs @ drop (length (tieRun xs)) xs = xs"
  by (cases xs) (simp_all add: tieRun_def dropWhile_eq_drop [symmetric])

lemma tieRun_Nil: "tieRun xs = [] \<longleftrightarrow> xs = []"
  by (cases xs) (simp_all add: tieRun_def)

text \<open>With the scores falling, what comes after a run has a smaller score.\<close>

lemma tieRun_scores:
  fixes xs :: "(byte list \<times> 'f::linorder) list"
  assumes "sorted_wrt (\<lambda>a b. snd b \<le> snd a) xs" "a \<in> set (tieRun xs)"
  shows "b \<in> set (tieRun xs) \<Longrightarrow> snd a = snd b" "b \<in> set (drop (length (tieRun xs)) xs) \<Longrightarrow> snd b < snd a"
proof -
  obtain x ys where xs: "xs = x # ys" using assms(2) by (cases xs) (simp_all add: tieRun_def)
  define w where "w = takeWhile (\<lambda>y. snd y = snd x) ys"
  have run: "tieRun xs = x # w" by (simp add: xs tieRun_def w_def)
  have eq: "snd c = snd x" if "c \<in> set (tieRun xs)" for c
    using that set_takeWhileD [of c "\<lambda>y. snd y = snd x" ys] by (auto simp: run w_def)
  then show "b \<in> set (tieRun xs) \<Longrightarrow> snd a = snd b" using assms(2) by metis
  assume "b \<in> set (drop (length (tieRun xs)) xs)"
  then have b: "b \<in> set (dropWhile (\<lambda>y. snd y = snd x) ys)"
    by (simp add: run [unfolded xs] xs w_def dropWhile_eq_drop [symmetric])
  then obtain z zs where z: "dropWhile (\<lambda>y. snd y = snd x) ys = z # zs"
    by (cases "dropWhile (\<lambda>y. snd y = snd x) ys") auto
  have "snd z \<noteq> snd x" using z hd_dropWhile [of "\<lambda>y. snd y = snd x" ys] by simp
  moreover have split: "ys = w @ z # zs" using takeWhile_dropWhile_id [of "\<lambda>y. snd y = snd x" ys] by (simp add: z w_def)
  have "snd z \<le> snd x" "\<forall>c \<in> set zs. snd c \<le> snd z"
    using assms(1) unfolding xs split by (simp_all add: sorted_wrt_append)
  ultimately have "snd b < snd x" using b z by fastforce
  then show "snd b < snd a" using eq [OF assms(2)] by simp
qed

definition ranked :: "(byte list \<Rightarrow> int option) \<Rightarrow> (byte list \<times> 'f::linorder) list \<Rightarrow> bool" where
  "ranked tms = sorted_wrt (\<lambda>a b. snd b < snd a \<or> (snd a = snd b \<and> timeOf tms (fst a) \<le> timeOf tms (fst b)))"

lemma sortTies_ranked:
  fixes xs :: "(byte list \<times> 'f::linorder) list"
  assumes red: "redis_ranks redis stod wr lead tms r"
  shows "sorted_wrt (\<lambda>a b. snd b \<le> snd a) xs \<Longrightarrow>
    \<exists>ys. sortTies redis xs r = Inr (ys, r) \<and> mset ys = mset xs \<and> ranked tms ys"
proof (induction "length xs" arbitrary: xs rule: less_induct)
  case less
  show ?case
  proof (cases "xs = []")
    case True
    then show ?thesis by (simp add: sortTies.simps [of redis "[]"] ranked_def)
  next
    case False
    define rest where "rest = drop (length (tieRun xs)) xs"
    have xs: "xs = tieRun xs @ rest" by (simp add: rest_def tieRun_append)
    have shorter: "length rest < length xs" using False tieRun_Nil [of xs] by (simp add: rest_def)
    have sr: "sorted_wrt (\<lambda>a b. snd b \<le> snd a) rest" using less.prems xs by (metis sorted_wrt_append)
    obtain run where run: "sortTie redis (tieRun xs) r = Inr (run, r)" "mset run = mset (tieRun xs)"
        "sorted_wrt (\<lambda>a b. timeOf tms (fst a) \<le> timeOf tms (fst b)) run"
      using sortTie_run [OF red] by blast
    obtain ys where ys: "sortTies redis rest r = Inr (ys, r)" "mset ys = mset rest" "ranked tms ys"
      using less.hyps [OF shorter sr] by blast
    have sets: "set run = set (tieRun xs)" "set ys = set rest" using run(2) ys(2) by (metis set_mset_mset)+
    have "sorted_wrt (\<lambda>a b. snd b < snd a \<or> (snd a = snd b \<and> timeOf tms (fst a) \<le> timeOf tms (fst b))) run"
      using run(3) tieRun_scores(1) [OF less.prems] sets(1) by (intro sorted_wrt_mono_rel [OF _ run(3)]) metis
    then have "ranked tms (run @ ys)"
      using ys(3) tieRun_scores(2) [OF less.prems] sets by (auto simp: ranked_def sorted_wrt_append rest_def)
    moreover have "sortTies redis xs r = Inr (run @ ys, r)"
      using False run(1) ys(1) by (subst sortTies.simps) (simp add: rest_def)
    moreover have "mset (run @ ys) = mset xs" using run(2) ys(2) by (subst xs) simp
    ultimately show ?thesis by blast
  qed
qed

subsection \<open>The job\<close>

text \<open>
  C38. A ranking is answered, and its entries are those of Redis, all of them, by falling scores and, where
  scores are equal, by rising times of the last kill; the rest of the 200 places is empty. Names are cut
  to 19 bytes. The rank of the one who asked is the one of Redis, which does not know the times.
\<close>

theorem ranking_in_order:
  fixes lead :: "(byte list \<times> 'f::linorder) list"
  assumes red: "redis_ranks redis stod wr lead tms r" and few: "length lead \<le> 200"
    and falling: "sorted_wrt (\<lambda>a b. snd b \<le> snd a) lead"
  shows "\<exists>ys rank cnt. rankingJob redis stod toI64 k me r =
      Inr (DBRankingResult k True (int (length lead)) rank cnt (map (rankEntryOf toI64) ys @
        replicate (200 - length lead) \<lparr> reNickname = replicate 20 0, reKillCount = 0 \<rparr>), r) \<and>
    mset ys = mset lead \<and> ranked tms ys"
proof -
  obtain ys where ys: "sortTies redis lead r = Inr (ys, r)" "mset ys = mset lead" "ranked tms ys"
    using sortTies_ranked [OF red falling] by blast
  have len: "length ys = length lead" using ys(2) by (metis size_mset)
  have z: "ZRevRangeWithScoresSync redis stod (ascii ''ranking:killcount'') (MAX_TOP_ENTRY - 1) r = Inr (lead, r)"
    using red scorePairs_all [of stod wr lead] by (simp add: redis_ranks_def ZRevRangeWithScoresSync_def MAX_TOP_ENTRY_def)
  have stod: "stod (wr v) = Some v" for v using red unfolding redis_ranks_def by blast
  have "redis (ZREVRANK (ascii ''ranking:killcount'') me) r = (RNull, r) \<or>
      (\<exists>n. redis (ZREVRANK (ascii ''ranking:killcount'') me) r = (RInteger n, r))"
    using red unfolding redis_ranks_def by blast
  then obtain n where n: "ZRevRankSync redis (ascii ''ranking:killcount'') me r = Inr (n, r)"
    by (elim disjE exE) (simp_all add: ZRevRankSync_def)
  have "redis (ZSCORE (ascii ''ranking:killcount'') me) r = (RNull, r) \<or>
      (\<exists>v. redis (ZSCORE (ascii ''ranking:killcount'') me) r = (RString (wr v), r))"
    using red unfolding redis_ranks_def by blast
  then obtain c where c: "ZScoreSync redis stod toI64 (ascii ''ranking:killcount'') me r = Inr (c, r)"
    by (elim disjE exE) (simp_all add: ZScoreSync_def stod ofOption_def)
  have w: "wrap32 (int (length lead)) = int (length lead)" using few by (intro wrap32_id) simp_all
  show ?thesis
    using z n c ys few len w by (intro exI [of _ ys]) (simp add: rankingJob_def rankTable_def MAX_TOP_ENTRY_def Let_def)
qed

text \<open>Two players with five kills, the second of whom was there first.\<close>

definition sampleLead :: "(byte list \<times> nat) list" where
  "sampleLead = [(ascii ''ann'', 7), (ascii ''bob'', 5), (ascii ''cid'', 5)]"

definition sampleTimes :: "byte list \<Rightarrow> int option" where
  "sampleTimes = [ascii ''bob'' \<mapsto> 900, ascii ''cid'' \<mapsto> 800]"

fun sampleRedis :: "redisCmd \<Rightarrow> unit \<Rightarrow> reply \<times> unit" where
  "sampleRedis (ZREVRANGE rkey a b c) r = (RArray (concat (map (\<lambda>(n, s). [RString n, RString (showN s)]) sampleLead)), r)"
| "sampleRedis (HMGET rkey ms) r = (RArray (map (timeReply sampleTimes) ms), r)"
| "sampleRedis (ZREVRANK rkey m) r = (RInteger 0, r)"
| "sampleRedis _ r = (RNull, r)"

lemma sampleRedis_ranks: "redis_ranks sampleRedis (\<lambda>bs. Some (nat (digitsVal bs))) showN sampleLead sampleTimes ()"
  by (auto simp: redis_ranks_def digitsVal_showN sampleTimes_def split: if_splits)

lemma ranking_in_order_witness:
  "\<exists>ys rank cnt. rankingJob sampleRedis (\<lambda>bs. Some (nat (digitsVal bs))) int 3 (ascii ''ann'') () =
      Inr (DBRankingResult 3 True 3 rank cnt (map (rankEntryOf int) ys @
        replicate 197 \<lparr> reNickname = replicate 20 0, reKillCount = 0 \<rparr>), ()) \<and>
    mset ys = mset sampleLead \<and> ranked sampleTimes ys"
proof -
  have "length sampleLead = 3" "sorted_wrt (\<lambda>a b. snd b \<le> snd a) sampleLead" by (simp_all add: sampleLead_def)
  then show ?thesis using ranking_in_order [OF sampleRedis_ranks, of int 3 "ascii ''ann''"] by simp
qed

end
