(* ===== verification/LeaveInv.thy ===== *)
theory LeaveInv
  imports FieldLoopInv SpawnInv Leave
begin

text \<open>
  The rest of an iteration of the field thread keeps the invariant too: the players that are handed
  over, those that leave, the answers of the database; and the whole iteration \<open>fieldStep\<close>.
\<close>

subsection \<open>The answer to a request for the ranking\<close>

definition entryBytes :: "rankEntry \<Rightarrow> byte list" where
  "entryBytes e = reNickname e @ enc 8 (reKillCount e)"

definition rankBody :: "rankEntry list \<Rightarrow> int \<Rightarrow> int \<Rightarrow> byte list" where
  "rankBody es myRank myKillCount =
     enc 2 (int (length es)) @ concat (map entryBytes es) @ enc 8 myRank @ enc 8 myKillCount"

lemma length_entries:
  assumes "\<forall>e \<in> set es. length (reNickname e) = 20"
  shows "length (concat (map entryBytes es)) = 28 * length es"
  using assms by (induction es) (simp_all add: entryBytes_def)

lemma upto_int: "[0..int n - 1] = map int [0..<n]"
  by (induction n) (simp_all add: upto_rec2)

lemma putEntries:
  assumes "n \<le> length entries" "\<forall>e \<in> set entries. length (reNickname e) = 20" "mSize msg = 6000"
    "int (length (mBuf msg)) + 28 * int n \<le> 6000"
  shows "foldR (\<lambda>idx msg. if nat idx < length entries
      then bindR (PutData (reNickname (entries ! nat idx)) msg) (putVal (enc 8 (reKillCount (entries ! nat idx))))
      else Inl UndefinedBehaviour) (map int [0..<n]) msg =
    Inr (msg\<lparr>mBuf := mBuf msg @ concat (map entryBytes (take n entries))\<rparr>)"
  using assms
proof (induction n)
  case 0
  then show ?case by simp
next
  case (Suc n)
  have "\<forall>e \<in> set (take n entries). length (reNickname e) = 20" using Suc.prems(2) by (meson in_set_takeD)
  then have l: "length (concat (map entryBytes (take n entries))) = 28 * n"
    using length_entries [of "take n entries"] Suc.prems(1) by simp
  define e m1 where "e = entries ! n" and "m1 = msg\<lparr>mBuf := mBuf msg @ concat (map entryBytes (take n entries))\<rparr>"
  have e: "length (reNickname e) = 20" "n < length entries" using Suc.prems(1,2) by (simp_all add: e_def)
  have m1: "mSize m1 = 6000" "length (mBuf m1) + 28 \<le> 6000" using Suc.prems(3,4) l by (simp_all add: m1_def)
  have "PutData (reNickname e) m1 = Inr (m1\<lparr>mBuf := mBuf m1 @ reNickname e\<rparr>)"
    using m1 e by (simp add: PutData_def mRear_def)
  moreover have "putVal (enc 8 (reKillCount e)) (m1\<lparr>mBuf := mBuf m1 @ reNickname e\<rparr>) =
      Inr (m1\<lparr>mBuf := mBuf m1 @ entryBytes e\<rparr>)"
    using m1 e by (simp add: putVal_def mRear_def entryBytes_def Let_def del: enc.simps)
  ultimately have step: "bindR (PutData (reNickname e) m1) (putVal (enc 8 (reKillCount e))) = Inr (m1\<lparr>mBuf := mBuf m1 @ entryBytes e\<rparr>)"
    by simp
  have t: "take (Suc n) entries = take n entries @ [e]" using e(2) by (simp add: take_Suc_conv_app_nth e_def)
  have "m1\<lparr>mBuf := mBuf m1 @ entryBytes e\<rparr> = msg\<lparr>mBuf := mBuf msg @ concat (map entryBytes (take (Suc n) entries))\<rparr>"
    by (simp add: m1_def t)
  then show ?case using Suc.IH [folded m1_def] Suc.prems step e(2) by (simp add: foldR_append e_def [symmetric])
qed

text \<open>At most 200 entries are 5620 bytes and fit into a message.\<close>

lemma sendRanking_eq:
  assumes "0 \<le> topCnt" "topCnt \<le> 200" "length entries = 200" "\<forall>e \<in> set entries. length (reNickname e) = 20"
  shows "sendRanking p topCnt myRank myKillCount entries s =
    Inr (sendPost (plSeqID p) (packet (svNow s) (plSeqID p) RANKING_RES
      (rankBody (take (nat topCnt) entries) myRank myKillCount)) s)"
proof -
  define n where "n = nat topCnt"
  have n: "topCnt = int n" "n \<le> 200" using assms(1,2) by (simp_all add: n_def)
  define es where "es = take n entries"
  have "length es = n" "\<forall>e \<in> set es. length (reNickname e) = 20"
    using assms(3,4) n(2) unfolding es_def by (simp, meson in_set_takeD)
  then have es: "length es = n" "length (concat (map entryBytes es)) = 28 * n" using length_entries by simp_all
  define k where "k = plSeqID p"
  define h where "h = headerBytes \<lparr> hLen = int n * 28 + 20, hRandKey = 0 \<rparr>"
  have lh: "length h = 3" by (simp add: h_def)
  define M where "M b = (InitMessage (svNow s) k 0)\<lparr>mBuf := b\<rparr>" for b
  have M: "mSize (M b) = 6000" "mBuf (M b) = b" "mRear (M b) = length b" "(M b)\<lparr>mBuf := c\<rparr> = M c" for b c
    by (simp_all add: M_def InitMessage_def BufferSize_def mRear_def)
  define b1 where "b1 = h @ enc 2 RANKING_RES @ enc 2 topCnt"
  have l1: "length b1 = 7" by (simp add: b1_def lh)
  have w: "wrap16 topCnt = topCnt" "wrap16 (20 + 8) = 28" "wrap16 (int n * 28 + 20) = int n * 28 + 20"
    using n by (simp_all add: wrap16_id wrap16_def)
  have 1: "startMsg (svNow s) k (2 + 2 + topCnt * 28 + 8 * 2) = Inr (M h)"
  proof -
    have "2 + 2 + topCnt * 28 + 8 * 2 = int n * 28 + 20" using n(1) by simp
    then show ?thesis using w(3) by (simp only: startMsg_eq M_def h_def)
  qed
  have 2: "putAll [enc 2 RANKING_RES, enc 2 topCnt] (M h) = Inr (M b1)"
    using lh by (simp add: putAll_eq M BufferSize_def b1_def)
  have 3: "foldR (\<lambda>idx msg. if nat idx < length entries
      then bindR (PutData (reNickname (entries ! nat idx)) msg) (putVal (enc 8 (reKillCount (entries ! nat idx))))
      else Inl UndefinedBehaviour) (map int [0..<n]) (M b1) = Inr (M (b1 @ concat (map entryBytes es)))"
    using putEntries [of n entries "M b1"] assms(3,4) n(2) l1 by (simp add: M es_def)
  have 4: "putAll [enc 8 myRank, enc 8 myKillCount] (M (b1 @ concat (map entryBytes es))) =
      Inr (M (b1 @ concat (map entryBytes es) @ enc 8 myRank @ enc 8 myKillCount))"
    using l1 es(2) n(2) by (simp add: putAll_eq M BufferSize_def)
  have "int (2 + length (rankBody es myRank myKillCount)) = int n * 28 + 20"
    using es by (simp add: rankBody_def)
  then have 5: "M (b1 @ concat (map entryBytes es) @ enc 8 myRank @ enc 8 myKillCount) =
      packet (svNow s) k RANKING_RES (rankBody es myRank myKillCount)"
    using es(1) n(1) by (simp add: M_def packet_def InitMessage_def h_def b1_def rankBody_def add.commute)
  show ?thesis unfolding sendRanking_def w k_def [symmetric] n_def [symmetric] es_def [symmetric]
    using 1 2 3 4 5 n(1) by (simp add: upto_int w(2) Let_def)
qed

subsection \<open>Leaving\<close>

text \<open>No player of the field is on its way to another field.\<close>

definition all_stay :: "server \<Rightarrow> bool" where
  "all_stay s \<longleftrightarrow> (\<forall>k \<in> set (svPlayers s). nextField s k = Some 0)"

lemma all_stay_evolve: "all_stay s \<Longrightarrow> evolve n s s' \<Longrightarrow> all_stay s'"
  by (simp add: all_stay_def evolve_def shrinks_def)

lemma findIn_field: "field_inv s \<Longrightarrow> findIn 0 k s = (if k \<in> set (svPlayers s) then Some (theP s k) else None)"
  using field_inv_player [of s k] by (simp add: findIn_def threadPlayers_def CONFIG_AUTH_FIELD_IDX_def)

lemma scanLeavers_stay:
  assumes "field_inv s" "all_stay s" "set ks \<subseteq> set (svPlayers s)"
  shows "\<exists>ds'. scanLeavers 0 s ks (ds, []) = Inr (ds', []) \<and> set ds' \<subseteq> set ds \<union> set ks \<and> length ds' \<le> length ds + length ks"
  using assms(3)
proof (induction ks arbitrary: ds)
  case (Cons k ks)
  then have k: "k \<in> set (svPlayers s)" by simp
  note p = field_inv_player [OF assms(1) k]
  have n: "plNextFieldID (theP s k) = 0" using assms(2) k p(1) by (auto simp: all_stay_def nextField_def)
  define ds1 where "ds1 = (if \<not> plBConnect (theP s k) then ds @ [k] else ds)"
  have sub: "set ds1 \<subseteq> set ds \<union> set (k # ks)" "length ds1 \<le> Suc (length ds)" by (auto simp: ds1_def)
  have "scanLeavers 0 s (k # ks) (ds, []) =
      (if length ds1 = CONFIG_DISCONNECT_AND_LEAVE_CAP then Inr (ds1, []) else scanLeavers 0 s ks (ds1, []))"
    using p n by (simp add: derefP_def ds1_def player_good_def CONFIG_DISCONNECT_AND_LEAVE_CAP_def)
  then show ?case using Cons.IH [of ds1] Cons.prems sub by fastforce
qed simp

text \<open>A disconnected player has its position saved; the request is made once.\<close>

lemma leaveDisconnected_eq:
  assumes inv: "field_inv s" and k: "k \<in> set (svPlayers s)" and room: "length (svDBReqQ s) < PTR_CAP"
  defines "p \<equiv> theP s k"
  shows "leaveDisconnected 0 k s =
    Inr (if and (plDBRequestCnt p) DB_POSITION_SAVE_PENDING_BIT \<noteq> 0 then s
         else putP (p\<lparr>plDBRequestCnt := or (plDBRequestCnt p) DB_POSITION_SAVE_PENDING_BIT\<rparr>)
                (s\<lparr>svDBReqQ := svDBReqQ s @ [DBPositionSave k (plAccountNo p) (plPos p)]\<rparr>))"
  using findIn_field [OF inv] field_inv_player [OF inv k] k enqDBReq_ok [OF room]
  by (simp add: leaveDisconnected_def requestPositionSave_def p_def player_good_def CONFIG_AUTH_FIELD_IDX_def)

lemma leaveDisconnected_okn:
  assumes inv: "field_inv s" and k: "k \<in> set (svPlayers s)" and room: "room 1 s"
  shows "okn 1 s (leaveDisconnected 0 k s)"
proof -
  define p where "p = theP s k"
  note pk = field_inv_player [OF inv k, folded p_def]
  define p' where "p' = p\<lparr>plDBRequestCnt := or (plDBRequestCnt p) DB_POSITION_SAVE_PENDING_BIT\<rparr>"
  define s1 where "s1 = s\<lparr>svDBReqQ := svDBReqQ s @ [DBPositionSave k (plAccountNo p) (plPos p)]\<rparr>"
  have 1: "field_inv s1" "evolve 1 s s1" "theP s1 k = p"
    using inv by (simp_all add: s1_def field_inv_def evolve_def theP_def p_def)
  have "player_good k p'" "keeps (theP s1 k) p'" "k \<in> set (svPlayers s1)"
    using pk(2) k 1(3) by (simp_all add: p'_def player_good_def player_wf_def player_placed_def) (simp add: s1_def)
  from field_inv_putP [OF 1(1) this(3,1,2)] have 2: "field_inv (putP p' s1)" "evolve 0 s1 (putP p' s1)" by simp_all
  have "okn 1 s (Inr (putP p' s1))" using 2 evolve_trans [OF 1(2) 2(2)] by (intro okn_Inr) simp_all
  then show ?thesis using leaveDisconnected_eq [OF inv k] room inv
    by (auto simp: room_def p_def p'_def s1_def okn_Inr)
qed

lemma checkDisConnected_okn:
  assumes inv: "field_inv s" and stay: "all_stay s" and room: "room (length (svPlayers s)) s"
  shows "okn (length (svPlayers s)) s (checkDisConnectedAndLeavePlayer 0 s)"
proof -
  obtain ds where ds: "scanLeavers 0 s (svPlayers s) ([], []) = Inr (ds, [])" "set ds \<subseteq> set (svPlayers s)"
      "length ds \<le> length (svPlayers s)"
    using scanLeavers_stay [OF inv stay order_refl, of "[]"] by auto
  have "okn (1 * length ds) s (foldR (leaveDisconnected 0) ds s)"
  proof (rule okn_loop [OF inv])
    show "room (1 * length ds) s" using room_mono [OF room] ds(3) by simp
    fix k s' assume "k \<in> set ds" and s': "field_inv s'" "evolve (1 * length ds) s s'" "room 1 s'"
    then have "k \<in> set (svPlayers s')" using ds(2) evolve_players [OF s'(2)] by auto
    then show "okn 1 s' (leaveDisconnected 0 k s')" using leaveDisconnected_okn s' by blast
  qed
  from okn_mono [OF this, of "length (svPlayers s)"] have o: "okn (length (svPlayers s)) s (foldR (leaveDisconnected 0) ds s)"
    using ds(3) by simp
  have "leaveLoop 0 [] = Inr" by (rule ext) simp
  moreover have "bindR r Inr = r" for r :: "server res" by (cases r) simp_all
  moreover have "threadPlayers 0 s = svPlayers s" by (simp add: threadPlayers_def CONFIG_AUTH_FIELD_IDX_def)
  ultimately show ?thesis using o ds(1) by (simp add: checkDisConnectedAndLeavePlayer_def)
qed

subsection \<open>The answers of the database\<close>

definition result_ok :: "dbResult \<Rightarrow> bool" where
  "result_ok r = (case r of
     DBRankingResult seqID ok topCnt myRank myKillCount entries \<Rightarrow>
       0 \<le> topCnt \<and> topCnt \<le> 200 \<and> length entries = 200 \<and> (\<forall>e \<in> set entries. length (reNickname e) = 20)
   | _ \<Rightarrow> True)"

text \<open>The notice that goes to the authentication thread.\<close>

definition goneMsg :: "int \<Rightarrow> player \<Rightarrow> message" where
  "goneMsg now p = (InitMessage now 0 0)\<lparr>mBuf := enc 2 PLAYER_DISCONNECTED @ enc 8 (plAccountNo p)\<rparr>"

lemma positionSaved_ok:
  assumes inv: "field_inv s" and k: "k \<in> set (svPlayers s)" and room: "length (svNotifyQ s) < PTR_CAP"
  defines "p \<equiv> (theP s k)\<lparr>plDBRequestCnt := and (plDBRequestCnt (theP s k)) (not DB_POSITION_SAVE_PENDING_BIT)\<rparr>"
  defines "s' \<equiv> putP p (s\<lparr>svNotifyQ := svNotifyQ s @ [goneMsg (svNow s) p],
      svSectors := delSector (plCurrentSector p) k (svSectors s), svPlayers := removeAll k (svPlayers s)\<rparr>)"
  shows "positionSaved 0 (theP s k) s = Inr s'" "field_inv s'"
proof -
  note pk = field_inv_player [OF inv k]
  have pg: "player_good k p" "plSeqID p = k" "plCurrentSector p = plCurrentSector (theP s k)"
    using pk(2) by (simp_all add: p_def player_good_def player_wf_def player_placed_def)
  have ip: "inv_players (svObjs s) (svPlayers s) (svSectors s)" using inv by (simp add: field_inv_def)
  have here: "k \<in> set (svSectors s (plCurrentSector p))" using ip k pk(1) pg(3) by (auto simp: inv_players_def)
  have "notifyDisconnect 0 a t = Inr (t\<lparr>svNotifyQ := svNotifyQ t @
      [(InitMessage (svNow t) 0 0)\<lparr>mBuf := enc 2 PLAYER_DISCONNECTED @ enc 8 a\<rparr>]\<rparr>)"
    if "length (svNotifyQ t) < PTR_CAP" for a t
    using that by (simp add: notifyDisconnect_def notify_def putAll_eq InitMessage_def mRear_def BufferSize_def
        CONFIG_FIELD_SIZE_def enqPtr_def)
  from this [of "putP p s" "plAccountNo p"]
  show "positionSaved 0 (theP s k) s = Inr s'"
    using room here pg(2)
    by (simp add: positionSaved_def p_def [symmetric] removeFromSector_def erasePlayer_def CONFIG_AUTH_FIELD_IDX_def Let_def)
      (simp add: s'_def putP_def goneMsg_def removeFromSector_def erasePlayer_def CONFIG_AUTH_FIELD_IDX_def)
  have "inv_players (alUpd k p (svObjs s)) (svPlayers s) (svSectors s)"
    by (rule inv_players_put [OF ip pk(1) pg(1,3)])
  from inv_players_remove [OF this, of k p] show "field_inv s'"
    using inv pg(2) by (simp add: s'_def putP_def field_inv_def)
qed

text \<open>What the answers do to the server.\<close>

definition answered :: "nat \<Rightarrow> server \<Rightarrow> server \<Rightarrow> bool" where
  "answered n s s' \<longleftrightarrow> field_inv s' \<and> set (svPlayers s') \<subseteq> set (svPlayers s) \<and> svMsgQ s' = svMsgQ s \<and>
     svDBReqQ s' = svDBReqQ s \<and> svDBResQ s' = drop n (svDBResQ s) \<and> length (svNotifyQ s') \<le> length (svNotifyQ s) + n"

lemma dbResultOne_ok:
  assumes inv: "field_inv s" and r: "result_ok r" and room: "length (svNotifyQ s) < PTR_CAP"
  shows "\<exists>s'. dbResultOne 0 r s = Inr s' \<and> answered 1 s s'"
proof -
  define s1 where "s1 = s\<lparr>svDBResQ := tl (svDBResQ s)\<rparr>"
  have 1: "field_inv s1" "length (svNotifyQ s1) < PTR_CAP" "svPlayers s1 = svPlayers s" "answered 1 s s1" "theP s1 = theP s"
    using inv room by (simp_all add: s1_def field_inv_def answered_def drop_Suc theP_def fun_eq_iff)
  note f = findIn_field [OF 1(1)]
  show ?thesis
  proof (cases r)
    case (DBPositionSaved k ok)
    show ?thesis
    proof (cases "k \<in> set (svPlayers s)")
      case True
      from positionSaved_ok [OF 1(1) _ 1(2), of k] True 1(3,4,5)
      show ?thesis using DBPositionSaved f by (simp add: dbResultOne_def s1_def [symmetric] Let_def)
          (auto simp: answered_def putP_def s1_def)
    next
      case False
      then show ?thesis using DBPositionSaved f 1(3,4) by (simp add: dbResultOne_def s1_def [symmetric] Let_def)
    qed
  next
    case (DBKillCountUpdated k ok)
    then show ?thesis using 1(4) by (simp add: dbResultOne_def s1_def)
  next
    case (DBRankingResult k ok topCnt myRank kc entries)
    show ?thesis
    proof (cases "k \<in> set (svPlayers s)")
      case True
      define p where "p = theP s1 k"
      define m where "m = packet (svNow s1) (plSeqID p) RANKING_RES (rankBody (take (nat topCnt) entries) myRank kc)"
      have ok: "0 \<le> topCnt" "topCnt \<le> 200" "length entries = 200" "\<forall>e \<in> set entries. length (reNickname e) = 20"
        using r DBRankingResult by (simp_all add: result_ok_def)
      have "length (take (nat topCnt) entries) \<le> 200" "\<forall>e \<in> set (take (nat topCnt) entries). length (reNickname e) = 20"
        using ok by (simp, meson in_set_takeD)
      then have "int (length (rankBody (take (nat topCnt) entries) myRank kc)) \<le> 5995"
        using length_entries [of "take (nat topCnt) entries"] by (simp add: rankBody_def)
      from packet_framed [OF this] have fm: "framed (plSeqID p) m" by (simp add: m_def)
      have "dbResultOne 0 r s = Inr (sendPost (plSeqID p) m s1)"
        using DBRankingResult True f 1(3) sendRanking_eq [OF ok, of p myRank kc s1]
        by (simp add: dbResultOne_def s1_def [symmetric] p_def m_def Let_def)
      moreover have "answered 1 s (sendPost (plSeqID p) m s1)"
        using 1(1,4) fm by (simp add: answered_def sendPost_def field_inv_def)
      ultimately show ?thesis by blast
    next
      case False
      then show ?thesis using DBRankingResult f 1(3,4) by (simp add: dbResultOne_def s1_def [symmetric] Let_def)
    qed
  qed
qed

lemma dbResults_ok:
  assumes "field_inv s" "\<forall>r \<in> set (svDBResQ s). result_ok r" "length (svNotifyQ s) + length (svDBResQ s) \<le> PTR_CAP"
  shows "\<exists>s'. dbResultPacketProc 0 s = Inr s' \<and> answered (length (svDBResQ s)) s s'"
proof -
  have "\<exists>s'. foldR (dbResultOne 0) (svDBResQ s) s = Inr s' \<and> answered (0 + length (svDBResQ s)) s s'"
  proof (rule foldR_count)
    show "answered 0 s s" using assms(1) by (simp add: answered_def)
    fix k r a assume r: "r \<in> set (svDBResQ s)" and a: "answered k s a" "k < 0 + length (svDBResQ s)"
    have "field_inv a" "length (svNotifyQ a) < PTR_CAP" using a assms(3) by (simp_all add: answered_def)
    from dbResultOne_ok [OF this(1) _ this(2), of r] assms(2) r obtain b where b: "dbResultOne 0 r a = Inr b" "answered 1 a b"
      by blast
    have "answered (Suc k) s b" using a(1) b(2) by (auto simp: answered_def)
    then show "\<exists>b. dbResultOne 0 r a = Inr b \<and> answered (Suc k) s b" using b(1) by blast
  qed
  then show ?thesis by (simp add: dbResultPacketProc_def)
qed

end
