(* ===== verification/Iteration.thy ===== *)
theory Iteration
  imports LeaveInv SightProps
begin

text \<open>
  The whole iteration of the field thread: the players handed over, a frame, the packets, the
  announcements, the players that leave and the answers of the database, one after the other, keep the
  invariant of the field.
\<close>

subsection \<open>Players handed over\<close>

definition entryKey :: "message \<Rightarrow> int" where "entryKey msg = fS 2 8 (unread msg)"

text \<open>A message of the authentication thread: its player exists, is well-formed and is meant for this field.\<close>

definition register_ok :: "server \<Rightarrow> message \<Rightarrow> bool" where
  "register_ok s msg \<longleftrightarrow> readable msg \<and> 10 \<le> length (unread msg) \<and> fS 0 2 (unread msg) = REGISTER_PLAYER \<and>
     (\<exists>p. map_of (svObjs s) (entryKey msg) = Some p \<and> player_good (entryKey msg) (p\<lparr>plCurrentFieldID := 0\<rparr>) \<and>
        plNextFieldID p = 0)"

text \<open>What the passage of players from the queue into the field leaves alone.\<close>

definition handed :: "message list \<Rightarrow> server \<Rightarrow> server \<Rightarrow> bool" where
  "handed ms s s' \<longleftrightarrow> field_inv s' \<and> svPlayers s' = svPlayers s @ map entryKey ms \<and>
     rq s' = rq s \<and> nextField s' = nextField s \<and>
     svMsgQ s' = drop (length ms) (svMsgQ s) \<and> svNotifyQ s' = svNotifyQ s \<and> svDBReqQ s' = svDBReqQ s \<and>
     svDBResQ s' = svDBResQ s \<and> svItems s' = svItems s \<and> svItemUniqueID s' = svItemUniqueID s \<and> svOn s' = svOn s"

lemma handed_trans:
  "handed [m] s s1 \<Longrightarrow> handed ms s1 s2 \<Longrightarrow> handed (m # ms) s s2"
  by (simp add: handed_def drop_Suc)

lemma register_one:
  assumes inv: "field_inv s" and msg: "register_ok s msg" and new: "entryKey msg \<notin> set (svPlayers s)"
    and few: "length (svPlayers s) < 32767" and room: "room 0 s"
  shows "\<exists>s'. fieldPacketProc 0 msg (s\<lparr>svMsgQ := tl (svMsgQ s)\<rparr>) = Inr s' \<and> handed [msg] s s' \<and>
    (\<forall>k. k \<noteq> entryKey msg \<longrightarrow> map_of (svObjs s') k = map_of (svObjs s) k)"
proof -
  define s0 where "s0 = s\<lparr>svMsgQ := tl (svMsgQ s)\<rparr>"
  define k where "k = entryKey msg"
  obtain p where p: "map_of (svObjs s0) k = Some p" "player_good k (p\<lparr>plCurrentFieldID := 0\<rparr>)" "plNextFieldID p = 0"
    using msg by (auto simp: register_ok_def s0_def k_def)
  have m: "readable msg" "10 \<le> length (unread msg)" "fS 0 2 (unread msg) = REGISTER_PLAYER"
    using msg by (simp_all add: register_ok_def)
  have a: "readable (adv 2 msg)" "8 \<le> length (unread (adv 2 msg))" "fS 0 8 (unread (adv 2 msg)) = k"
    using m by (simp_all add: k_def entryKey_def fS_def)
  have s0: "field_inv s0" "k \<notin> set (svPlayers s0)" "length (svPlayers s0) < 32767" "room 0 s0"
    using inv new few room by (simp_all add: s0_def k_def field_inv_def room_def)
  obtain s' c q where s': "handleRegisterPlayer 0 (adv 2 msg) s0 = Inr s'" "field_inv s'"
      "q = p\<lparr>plCurrentFieldID := 0, plDestSector := c, plCurrentSector := c\<rparr>"
      "quiet (putP q (s0\<lparr>svPlayers := svPlayers s0 @ [k], svSectors := insSector c k (svSectors s0)\<rparr>)) s'"
    using handleRegister_ok [OF s0(1) a p(1,2) s0(2,3,4)] by blast
  have qk: "plSeqID q = k" "plRecvQ q = plRecvQ p" "plNextFieldID q = plNextFieldID p"
    using p(2) s'(3) by (simp_all add: player_good_def)
  have ob: "svObjs s' = alUpd k q (svObjs s)" using qk by (simp add: quiet_frame [OF s'(4)] putP_def s0_def)
  have ps: "map_of (svObjs s) k = Some p" using p(1) by (simp add: s0_def)
  have "fieldPacketProc 0 msg s0 = Inr s'"
    using s'(1) m by (simp add: fieldPacketProc_def getS_eq fS_def)
  moreover have "rq s' = rq s" "nextField s' = nextField s"
    using qk ps by (auto simp: ob rq_def nextField_def fun_eq_iff)
  then have "handed [msg] s s'"
    using s'(2) unfolding handed_def quiet_frame [OF s'(4)]
    by (simp add: putP_def s0_def k_def drop_Suc)
  ultimately show ?thesis using ob by (auto simp: s0_def k_def)
qed

lemma fieldMessages_ok:
  assumes "field_inv s" "\<forall>m \<in> set ms. register_ok s m" "distinct (svPlayers s @ map entryKey ms)"
    "length (svPlayers s) + length ms < 32768" "room 0 s"
  shows "\<exists>s'. foldR (\<lambda>msg s. fieldPacketProc 0 msg (s\<lparr>svMsgQ := tl (svMsgQ s)\<rparr>)) ms s = Inr s' \<and> handed ms s s'"
  using assms
proof (induction ms arbitrary: s)
  case Nil
  then show ?case by (simp add: handed_def)
next
  case (Cons m ms)
  obtain s1 where s1: "fieldPacketProc 0 m (s\<lparr>svMsgQ := tl (svMsgQ s)\<rparr>) = Inr s1" "handed [m] s s1"
      "\<forall>k. k \<noteq> entryKey m \<longrightarrow> map_of (svObjs s1) k = map_of (svObjs s) k"
    using register_one [OF Cons.prems(1), of m] Cons.prems by auto
  have h: "field_inv s1" "svPlayers s1 = svPlayers s @ [entryKey m]" "room 0 s1"
    using s1(2) Cons.prems(5) by (simp_all add: handed_def room_def)
  have "\<forall>m' \<in> set ms. register_ok s1 m'"
  proof
    fix m' assume m': "m' \<in> set ms"
    moreover have "entryKey m \<notin> entryKey ` set ms" using Cons.prems(3) by simp
    ultimately have "entryKey m' \<noteq> entryKey m" by (metis imageI)
    then show "register_ok s1 m'" using Cons.prems(2) m' s1(3) by (simp add: register_ok_def)
  qed
  from Cons.IH [OF h(1) this _ _ h(3)] h(2) Cons.prems(3,4)
  obtain s2 where "foldR (\<lambda>msg s. fieldPacketProc 0 msg (s\<lparr>svMsgQ := tl (svMsgQ s)\<rparr>)) ms s1 = Inr s2" "handed ms s1 s2"
    by auto
  then show ?case using s1(1) handed_trans [OF s1(2)] by auto
qed

subsection \<open>The iteration\<close>

text \<open>
  The state at the start of an iteration: the queues hold what the other threads put there, the
  packets are ones a client of the game sends (with the flag, \<open>MOVE_START\<close> among them), and the queue to
  the database has room for a job of every player and packet.
\<close>

definition own_ok :: "bool \<Rightarrow> server \<Rightarrow> int \<Rightarrow> bool" where
  "own_ok b s k \<longleftrightarrow> (\<forall>m \<in> set (rq s k). packet_ok m \<and> mOwnerID m = k \<and> (b \<or> fS 0 2 (unread m) \<noteq> MOVE_START))"

definition comers :: "server \<Rightarrow> int list" where
  "comers s = svPlayers s @ map entryKey (svMsgQ s)"

definition ready :: "bool \<Rightarrow> server \<Rightarrow> bool" where
  "ready b s \<longleftrightarrow> field_inv s \<and> all_stay s \<and> distinct (comers s) \<and> length (comers s) < 32768 \<and>
     (\<forall>m \<in> set (svMsgQ s). register_ok s m) \<and> (\<forall>k \<in> set (comers s). own_ok b s k) \<and>
     (\<forall>r \<in> set (svDBResQ s). result_ok r) \<and> length (svNotifyQ s) + length (svDBResQ s) \<le> PTR_CAP \<and>
     room (length (comers s) + queued s (comers s) + length (comers s)) s"

lemma handed_ready:
  assumes "ready b s" "handed (svMsgQ s) s s'"
  shows "svPlayers s' = comers s" "svMsgQ s' = []" "all_stay s'" "\<forall>k \<in> set (svPlayers s'). queue_ok b s' k"
    "queued s' (svPlayers s') = queued s (comers s)" "room n s' = room n s"
proof -
  show p: "svPlayers s' = comers s" "svMsgQ s' = []" "room n s' = room n s"
    using assms(2) by (simp_all add: handed_def comers_def room_def)
  have e: "nextField s' = nextField s" "rq s' = rq s" using assms(2) by (simp_all add: handed_def)
  have "nextField s (entryKey m) = Some 0" if "m \<in> set (svMsgQ s)" for m
  proof -
    have "register_ok s m" using assms(1) that by (simp add: ready_def)
    then show ?thesis by (auto simp: register_ok_def nextField_def)
  qed
  moreover have "all_stay s" using assms(1) by (simp add: ready_def)
  ultimately show "all_stay s'" unfolding all_stay_def e p(1) comers_def by auto
  have "\<forall>k \<in> set (comers s). own_ok b s k" using assms(1) by (simp add: ready_def)
  then show "\<forall>k \<in> set (svPlayers s'). queue_ok b s' k" unfolding own_ok_def queue_ok_def e p(1) by metis
  show "queued s' (svPlayers s') = queued s (comers s)"
    using assms(2) p(1) by (simp add: queued_def handed_def)
qed

definition frameWork :: "int \<Rightarrow> server \<Rightarrow> server res" where
  "frameWork t s = bindR (fieldUpdate 0 s) (\<lambda>s. bindR (playerProc 0 t s) monsterProc)"

lemma frameWork_okf:
  assumes "field_inv s" "\<forall>k \<in> set (svPlayers s). queue_ok b s k"
    "room (length (svPlayers s) + queued s (svPlayers s)) s"
  shows "okf b (length (svPlayers s) + queued s (svPlayers s)) s (frameWork t s)"
proof -
  define P Q where "P = length (svPlayers s)" and "Q = queued s (svPlayers s)"
  have "okf b (P + (Q + 0)) s (frameWork t s)" unfolding frameWork_def
  proof (rule okn_bind)
    show "okf b P s (fieldUpdate 0 s)" unfolding P_def
      by (rule okn_okf [OF fieldUpdate_okn [OF assms(1) room_mono [OF assms(3) le_add1]]])
    fix s1 assume 1: "field_inv s1" "evolve P s s1"
    have e: "svPlayers s1 = svPlayers s" by (rule evolve_players [OF 1(2)])
    have le: "queued s1 (svPlayers s1) \<le> Q" using queued_evolve [OF 1(2), of "svPlayers s"] e by (simp add: Q_def)
    have r: "room Q s1" using room_evolve [OF _ 1(2), of Q] assms(3) by (simp add: P_def Q_def)
    show "okf b (Q + 0) s1 (bindR (playerProc 0 t s1) monsterProc)"
    proof (rule okn_bind)
      have "\<forall>k \<in> set (svPlayers s1). queue_ok b s1 k" using assms(2) e queue_ok_evolve [OF _ 1(2)] by auto
      from playerProc_okf [OF 1(1) this room_mono [OF r le]] show "okf b Q s1 (playerProc 0 t s1)" using le by (rule okn_mono)
      fix s2 assume 2: "field_inv s2" "evolve Q s1 s2"
      have "room 0 s2" using room_evolve [OF _ 2(2), of 0] r by simp
      from monsterProc_okn [OF 2(1) this] show "okf b 0 s2 (monsterProc s2)" by (rule okn_okf)
    qed
  qed
  then show ?thesis by (simp add: P_def Q_def)
qed

text \<open>
  C5. An iteration of the field thread, with everything it does (players handed over by the authentication
  thread, the frame, all queued packets, the announcements of the monsters, the players that leave, the
  answers of the database), keeps the invariant of the field: it empties both its queues and lets in
  nobody but the players handed over. It can fail only at the assertion of \<open>MOVE_START\<close>, and only when
  such a packet is queued. Without players, messages and service it ends the thread.
\<close>

theorem iteration_keeps_inv:
  assumes "ready b s"
  shows "(b \<and> fieldStep 0 t1 t2 c s = Inl DebugBreak) \<or>
    (\<exists>r s'. fieldStep 0 t1 t2 c s = Inr (r, s') \<and> field_inv s' \<and>
       (if svMsgQ s = [] \<and> svPlayers s = [] \<and> \<not> svOn s then r = None \<and> s' = s
        else r \<noteq> None \<and> svMsgQ s' = [] \<and> svDBResQ s' = [] \<and> set (svPlayers s') \<subseteq> set (comers s)))"
proof (cases "svMsgQ s = [] \<and> svPlayers s = [] \<and> \<not> svOn s")
  case True
  then show ?thesis using assms by (simp add: fieldStep_def ready_def)
next
  case False
  define N where "N = length (comers s)"
  define Q where "Q = queued s (comers s)"
  have inv: "field_inv s" and rm: "room (N + Q + N) s" using assms by (simp_all add: ready_def N_def Q_def)
  have "foldR (\<lambda>msg s. fieldPacketProc 0 msg (s\<lparr>svMsgQ := tl (svMsgQ s)\<rparr>)) (svMsgQ s) s = fieldMessages 0 s"
    by (simp add: fieldMessages_def)
  then obtain s1 where s1: "fieldMessages 0 s = Inr s1" "handed (svMsgQ s) s s1"
    using fieldMessages_ok [OF inv, of "svMsgQ s"] assms room_mono [OF rm] by (auto simp: ready_def comers_def)
  note h = handed_ready [OF assms s1(2)]
  define s2 where "s2 = s1\<lparr>svNow := t1\<rparr>"
  have 2: "field_inv s2" "all_stay s2" "svPlayers s2 = comers s" "\<forall>k \<in> set (svPlayers s2). queue_ok b s2 k"
      "queued s2 (svPlayers s2) = Q" "room (N + Q + N) s2" "svMsgQ s2 = []" "svDBResQ s2 = svDBResQ s" "svNotifyQ s2 = svNotifyQ s"
  proof -
    have f: "svPlayers s2 = svPlayers s1" "rq s2 = rq s1" "nextField s2 = nextField s1" "field_inv s2 = field_inv s1"
        "room n s2 = room n s1" for n
      by (simp_all add: s2_def rq_def nextField_def fun_eq_iff field_inv_def room_def)
    then have "all_stay s2 = all_stay s1" "queue_ok b s2 = queue_ok b s1" "queued s2 = queued s1"
      by (simp_all add: all_stay_def queue_ok_def queued_def fun_eq_iff)
    then show "field_inv s2" "all_stay s2" "svPlayers s2 = comers s" "\<forall>k \<in> set (svPlayers s2). queue_ok b s2 k"
        "queued s2 (svPlayers s2) = Q" "room (N + Q + N) s2"
      using h s1(2) rm f by (simp_all add: Q_def handed_def)
    show "svMsgQ s2 = []" "svDBResQ s2 = svDBResQ s" "svNotifyQ s2 = svNotifyQ s"
      using h(2) s1(2) by (simp_all add: s2_def handed_def)
  qed
  define c1 where "c1 = c\<lparr>fcStart := t1, fcFrame := wrap32 (fcFrame c + 1)\<rparr>"
  define c2 where "c2 = (if fcSecond c1 \<le> t1 then c1\<lparr>fcSecond := u32 (fcSecond c1 + 1000), fcFrame := 0\<rparr> else c1)"
  define c3 where "c3 = (if fcNext c2 \<le> t1 then c2\<lparr>fcNext := u32 (fcNext c2 + CONFIG_FRAME_INTERVAL)\<rparr> else c2)"
  define W where "W = (if fcNext c2 \<le> t1 then frameWork (fcStart c) s2 else Inr s2)"
  have W: "okf b (N + Q) s2 W"
    using frameWork_okf [OF 2(1,4), of "fcStart c"] 2 room_mono [OF 2(6), of "N + Q"]
    by (auto simp: W_def N_def intro: okn_Inr)
  have step: "fieldStep 0 t1 t2 c s = bindR W (\<lambda>s. bindR (checkDisConnectedAndLeavePlayer 0 s) (\<lambda>s.
      bindR (dbResultPacketProc 0 s) (\<lambda>s.
      Inr (Some (c3\<lparr>fcStart := t2\<rparr>, if t2 < fcNext c3 then fcNext c3 - t2 else 0), s\<lparr>svNow := t2\<rparr>))))"
  proof -
    have hb: "heartBeatForUnAuthSession 0 s = Inr s" for s by (simp add: heartBeatForUnAuthSession_def CONFIG_AUTH_FIELD_IDX_def)
    show ?thesis
      unfolding fieldStep_def if_not_P [OF False] Let_def s1(1) bindR_simps c1_def [symmetric] c2_def [symmetric] s2_def [symmetric]
      by (cases "fcNext c2 \<le> t1") (simp_all add: W_def frameWork_def c3_def bindR_assoc hb)
  qed
  show ?thesis
  proof (cases W)
    case (Inl e)
    then show ?thesis using W step by (simp add: okf_def)
  next
    case (Inr s3)
    then have 3: "field_inv s3" "evolve (N + Q) s2 s3" using W by (simp_all add: okf_def)
    have p3: "svPlayers s3 = comers s" "all_stay s3" using evolve_players [OF 3(2)] all_stay_evolve [OF 2(2) 3(2)] 2(3) by simp_all
    have "okn N s3 (checkDisConnectedAndLeavePlayer 0 s3)"
      using checkDisConnected_okn [OF 3(1) p3(2)] room_evolve [OF 2(6) 3(2)] p3(1) by (simp add: N_def)
    then obtain s4 where 4: "checkDisConnectedAndLeavePlayer 0 s3 = Inr s4" "field_inv s4" "evolve N s3 s4"
      by (auto simp: okf_def)
    have e4: "svPlayers s4 = comers s" "svMsgQ s4 = []" "svDBResQ s4 = svDBResQ s" "svNotifyQ s4 = svNotifyQ s"
      using 3(2) 4(3) 2 p3(1) by (simp_all add: evolve_def)
    obtain s5 where 5: "dbResultPacketProc 0 s4 = Inr s5" "answered (length (svDBResQ s4)) s4 s5"
      using dbResults_ok [OF 4(2)] e4 assms by (auto simp: ready_def)
    have "field_inv (s5\<lparr>svNow := t2\<rparr>)" using 5(2) by (simp add: answered_def field_inv_def)
    then show ?thesis using step Inr 4(1) 5 e4 False by (auto simp: answered_def)
  qed
qed

text \<open>
  Player 3 is handed over, player 1 has a request for the item queued, and the position of player 2,
  who is leaving, has been saved.
\<close>

definition sampleIteration :: server where
  "sampleIteration = (putP ((samplePlayer 1)\<lparr>plRecvQ := [lootPacket 1, lootPacket 1]\<rparr>) sampleEntering)
     \<lparr>svMsgQ := [sampleMsg 0 (enc 2 REGISTER_PLAYER @ enc 8 3)], svDBResQ := [DBPositionSaved 2 True]\<rparr>"

lemma sampleIteration_comers: "comers sampleIteration = [1, 2, 3]" "svMsgQ sampleIteration \<noteq> []"
proof -
  have "entryKey (sampleMsg 0 (enc 2 REGISTER_PLAYER @ enc 8 3)) = 3" unfolding entryKey_def sampleMsg_simps by code_simp
  then show "comers sampleIteration = [1, 2, 3]"
    by (simp add: comers_def sampleIteration_def putP_def sampleEntering_def)
  show "svMsgQ sampleIteration \<noteq> []" by (simp add: sampleIteration_def)
qed

lemma sampleIteration_ready: "ready False sampleIteration"
proof -
  have "player_good 1 ((samplePlayer 1)\<lparr>plRecvQ := [lootPacket 1, lootPacket 1]\<rparr>)"
    using samplePlayer_good [of 1] by (simp add: player_good_def player_wf_def player_placed_def PTR_CAP_def)
  then have "inv_players (alUpd 1 ((samplePlayer 1)\<lparr>plRecvQ := [lootPacket 1, lootPacket 1]\<rparr>) (svObjs sampleEntering))
      (svPlayers sampleEntering) (svSectors sampleEntering)"
    using sampleEntering_inv unfolding field_inv_def by (intro inv_players_put) (auto simp: sampleEntering_def)
  then have inv: "field_inv sampleIteration"
    using sampleEntering_inv by (simp add: field_inv_def sampleIteration_def putP_def)
  define m where "m = sampleMsg 0 (enc 2 REGISTER_PLAYER @ enc 8 3)"
  have m: "entryKey m = 3" "fS 0 2 (unread m) = REGISTER_PLAYER" "readable m" "10 \<le> length (unread m)"
    unfolding entryKey_def m_def sampleMsg_simps by code_simp+
  have q: "svMsgQ sampleIteration = [m]" "svDBResQ sampleIteration = [DBPositionSaved 2 True]" "svPlayers sampleIteration = [1, 2]"
      "map_of (svObjs sampleIteration) 1 = Some ((samplePlayer 1)\<lparr>plRecvQ := [lootPacket 1, lootPacket 1]\<rparr>)"
      "map_of (svObjs sampleIteration) 2 = Some (samplePlayer 2)" "map_of (svObjs sampleIteration) 3 = Some (samplePlayer 3)"
      "svNotifyQ sampleIteration = []"
    by (simp_all add: sampleIteration_def m_def putP_def sampleEntering_def newServer_def sampleField_def)
  note c = sampleIteration_comers(1)
  have r: "rq sampleIteration 1 = [lootPacket 1, lootPacket 1]" "rq sampleIteration 2 = []" "rq sampleIteration 3 = []"
    by (simp_all add: rq_def q)
  have "(samplePlayer 3)\<lparr>plCurrentFieldID := 0\<rparr> = samplePlayer 3" by (simp add: samplePlayer_def)
  then have g: "player_good 3 ((samplePlayer 3)\<lparr>plCurrentFieldID := 0\<rparr>)" using samplePlayer_good [of 3] by (simp only:)
  have "register_ok sampleIteration m" unfolding register_ok_def m(1) q(6) using m(2-) g by simp
  moreover have "all_stay sampleIteration" by (simp add: all_stay_def nextField_def q)
  moreover have "\<forall>k \<in> set (comers sampleIteration). own_ok False sampleIteration k"
    by (simp add: c own_ok_def r lootPacket_ok packet_defs)
  moreover have "room (length (comers sampleIteration) + queued sampleIteration (comers sampleIteration) +
      length (comers sampleIteration)) sampleIteration"
    using sampleField_room [of 8] by (simp add: c queued_def r) (simp add: room_def sampleIteration_def putP_def sampleEntering_def)
  ultimately show ?thesis using inv by (simp add: ready_def c q(1,2,7) result_ok_def PTR_CAP_def)
qed

lemma iteration_keeps_inv_witness:
  "\<exists>r s'. fieldStep 0 20 21 (clockStart 0) sampleIteration = Inr (r, s') \<and> r \<noteq> None \<and> field_inv s' \<and> svMsgQ s' = [] \<and>
     set (svPlayers s') \<subseteq> {1, 2, 3}"
  using iteration_keeps_inv [OF sampleIteration_ready, of 20 21 "clockStart 0"] sampleIteration_comers by force

end
