(* ===== verification/LeaveProps.thy ===== *)
theory LeaveProps
  imports Iteration Db
begin

text \<open>
  How a player leaves, through all four threads: the field thread asks for its position to be saved, the
  database thread saves it, the field thread takes the player off the field and tells the authentication
  thread, which deletes it.
\<close>

lemma word_or_and: "and (or x b) b = (b :: 64 word)"
  by (rule bit_eqI) (auto simp: bit_simps)

lemma word_and_not: "and (and x (not b)) b = (0 :: 64 word)"
  by (rule bit_eqI) (auto simp: bit_simps)

lemma pending_bit_nonzero: "DB_POSITION_SAVE_PENDING_BIT \<noteq> 0"
  by (simp add: DB_POSITION_SAVE_PENDING_BIT_def)

text \<open>
  The position of a disconnected player is asked to be saved exactly once: the first pass over the
  leaving players enqueues one job and marks the player, every later pass finds the mark and does nothing
  until the answer has come.
\<close>

theorem position_saved_once:
  assumes inv: "field_inv s" and k: "k \<in> set (svPlayers s)" and room: "room 2 s"
    and new: "and (plDBRequestCnt (theP s k)) DB_POSITION_SAVE_PENDING_BIT = 0"
  shows "\<exists>s'. leaveDisconnected 0 k s = Inr s' \<and> field_inv s' \<and>
    svDBReqQ s' = svDBReqQ s @ [DBPositionSave k (plAccountNo (theP s k)) (plPos (theP s k))] \<and>
    svPlayers s' = svPlayers s \<and> leaveDisconnected 0 k s' = Inr s'"
proof -
  define p where "p = theP s k"
  define p' where "p' = p\<lparr>plDBRequestCnt := or (plDBRequestCnt p) DB_POSITION_SAVE_PENDING_BIT\<rparr>"
  define s' where "s' = putP p' (s\<lparr>svDBReqQ := svDBReqQ s @ [DBPositionSave k (plAccountNo p) (plPos p)]\<rparr>)"
  have r: "length (svDBReqQ s) + 1 < PTR_CAP" using room by (simp add: room_def)
  have e: "leaveDisconnected 0 k s = Inr s'"
    using leaveDisconnected_eq [OF inv k] new r by (simp add: p_def p'_def s'_def)
  have i: "field_inv s'" using leaveDisconnected_okn [OF inv k room_mono [OF room]] e by (auto simp: okf_def)
  have pk: "plSeqID p = k" using field_inv_player [OF inv k] by (simp add: p_def player_good_def)
  have f: "svPlayers s' = svPlayers s" "svDBReqQ s' = svDBReqQ s @ [DBPositionSave k (plAccountNo p) (plPos p)]" "theP s' k = p'"
    using pk by (simp_all add: s'_def p'_def putP_def theP_def)
  have "and (plDBRequestCnt (theP s' k)) DB_POSITION_SAVE_PENDING_BIT \<noteq> 0"
    using pending_bit_nonzero by (simp add: f(3) p'_def word_or_and)
  then have "leaveDisconnected 0 k s' = Inr s'"
    using leaveDisconnected_eq [OF i, of k] k f r by simp
  then show ?thesis using e i f by (auto simp: p_def)
qed

lemma position_saved_once_witness:
  "\<exists>s'. leaveDisconnected 0 2 sampleField = Inr s' \<and> length (svDBReqQ s') = 1 \<and> leaveDisconnected 0 2 s' = Inr s'"
proof -
  have "theP sampleField 2 = samplePlayer 2" by (simp add: theP_def)
  then show ?thesis using position_saved_once [OF sampleField_inv, of 2] sampleField_room [of 2] by fastforce
qed

subsection \<open>All the way out\<close>

lemma drainMsgs_gone: "\<not> plBConnect p \<Longrightarrow> drainMsgs p = p"
  by (subst drainMsgs.simps) (simp add: DeQueueMsgOrNull_def)

text \<open>The authentication thread reads the notice of the field thread.\<close>

lemma authNotify_gone:
  assumes "- (2 ^ 63) \<le> plAccountNo p" "plAccountNo p < 2 ^ 63" "map_of (svAccounts s) (plAccountNo p) = Some k"
    "map_of (svObjs s) k = Some q" "plSeqID q = k"
  shows "authNotifyPacketProc (goneMsg now p) s =
    Inr (s\<lparr>svAuthPlayers := setIns k (svAuthPlayers s), svAccounts := alDel (plAccountNo p) (svAccounts s)\<rparr>)"
proof -
  have d: "decS (enc 8 (plAccountNo p)) = plAccountNo p" using assms(1,2) by (intro decS_enc) simp_all
  have t: "decS (enc 2 PLAYER_DISCONNECTED) = PLAYER_DISCONNECTED" by (rule decS_enc) (simp_all add: packet_defs)
  have "readable (goneMsg now p)" "unread (goneMsg now p) = enc 2 PLAYER_DISCONNECTED @ enc 8 (plAccountNo p)"
    by (simp_all add: readable_def goneMsg_def InitMessage_def unread_def)
  then show ?thesis using d t assms(3-)
    by (simp add: authNotifyPacketProc_def getS_eq derefP_def del: enc.simps)
qed

text \<open>
  C6. A disconnected player gets out, whatever the database does: one job is enqueued for it; the database
  thread answers it (with success or failure) and is left usable; the answer takes the player out of the
  table and the grid of the field and tells the authentication thread; the notice moves the player to that
  thread and frees its account; and the next pass there deletes the player and counts it off. Nothing of
  it stays behind on the server. No client is told: nothing is sent on the whole way, so those who saw the
  player are not sent its \<open>CHARACTER_DESPAWN\<close>.
\<close>

theorem player_leaves:
  fixes api :: "'m mysql" and redis :: "'r redis"
  assumes inv: "field_inv s" and k: "k \<in> set (svPlayers s)" and gone: "\<not> plBConnect (theP s k)"
    and new: "and (plDBRequestCnt (theP s k)) DB_POSITION_SAVE_PENDING_BIT = 0"
    and room: "room 2 s" "length (svNotifyQ s) < PTR_CAP"
    and acc: "map_of (svAccounts s) a = Some k" "a = plAccountNo (theP s k)" "- (2 ^ 63) \<le> a" "a < 2 ^ 63" "k \<notin> set (svUnAuth s)"
    and db: "cdConn db" "\<not> cdBFailed db"
  shows "\<exists>s1 ok db' s2 notice s3 s4.
    leaveDisconnected 0 k s = Inr s1 \<and> svDBReqQ s1 = svDBReqQ s @ [DBPositionSave k a (plPos (theP s k))] \<and>
    dbJobOne api redis stod toI64 epoch (DBPositionSave k a (plPos (theP s k))) (db, r) =
      Inr (DBPositionSaved k ok, db', r) \<and> cdConn db' \<and> \<not> cdBFailed db' \<and>
    dbResultOne 0 (DBPositionSaved k ok) s1 = Inr s2 \<and> field_inv s2 \<and> k \<notin> set (svPlayers s2) \<and>
    (\<forall>c. k \<notin> set (svSectors s2 c)) \<and> svNotifyQ s2 = svNotifyQ s @ [notice] \<and>
    authNotifyPacketProc notice s2 = Inr s3 \<and> k \<in> set (svAuthPlayers s3) \<and> map_of (svAccounts s3) a = None \<and>
    leaveDisconnected CONFIG_AUTH_FIELD_IDX k s3 = Inr s4 \<and> map_of (svObjs s4) k = None \<and>
    k \<notin> set (svAuthPlayers s4) \<and> svPlayerCnt s4 = svPlayerCnt s - 1 \<and> svPlayers s4 = removeAll k (svPlayers s) \<and>
    svOut s4 = svOut s"
proof -
  define p where "p = theP s k"
  note pk = field_inv_player [OF inv k, folded p_def]
  have pid: "plSeqID p = k" using pk(2) by (simp add: player_good_def)
  define p1 where "p1 = p\<lparr>plDBRequestCnt := or (plDBRequestCnt p) DB_POSITION_SAVE_PENDING_BIT\<rparr>"
  define s1 where "s1 = putP p1 (s\<lparr>svDBReqQ := svDBReqQ s @ [DBPositionSave k a (plPos p)]\<rparr>)"
  have "length (svDBReqQ s) < PTR_CAP" using room(1) by (simp add: room_def)
  then have e1: "leaveDisconnected 0 k s = Inr s1"
    using leaveDisconnected_eq [OF inv k] new acc(2) by (simp add: p_def p1_def s1_def)
  have i1: "field_inv s1" using leaveDisconnected_okn [OF inv k room_mono [OF room(1)]] e1 by (auto simp: okf_def)
  have f1: "svPlayers s1 = svPlayers s" "svNotifyQ s1 = svNotifyQ s" "theP s1 k = p1" "svDBReqQ s1 = svDBReqQ s @ [DBPositionSave k a (plPos p)]"
    using pid by (simp_all add: s1_def p1_def putP_def theP_def)
  obtain ok db1 where q: "Execute api (positionQuery a (plPos p)) db = Inr (ok, db1)"
      "cdConn (if ok then db1 else ClearError db1)" "\<not> cdBFailed (if ok then db1 else ClearError db1)"
    using cdb.exec_cleared [OF db] by blast
  define db' where "db' = (if ok then db1 else ClearError db1)"
  have e2: "dbJobOne api redis stod toI64 epoch (DBPositionSave k a (plPos p)) (db, r) = Inr (DBPositionSaved k ok, db', r)"
    using q(1) by (simp add: dbJobOne_def db'_def Let_def)
  define t where "t = s1\<lparr>svDBResQ := tl (svDBResQ s1)\<rparr>"
  have it: "field_inv t" "k \<in> set (svPlayers t)" "length (svNotifyQ t) < PTR_CAP" "theP t k = p1"
    using i1 f1 k room(2) by (simp_all add: t_def field_inv_def theP_def)
  define p2 where "p2 = p1\<lparr>plDBRequestCnt := and (plDBRequestCnt p1) (not DB_POSITION_SAVE_PENDING_BIT)\<rparr>"
  define notice where "notice = goneMsg (svNow t) p2"
  define s2 where "s2 = putP p2 (t\<lparr>svNotifyQ := svNotifyQ t @ [notice],
      svSectors := delSector (plCurrentSector p2) k (svSectors t), svPlayers := removeAll k (svPlayers t)\<rparr>)"
  note ps = positionSaved_ok [OF it(1-3), unfolded it(4), folded p2_def, folded notice_def, folded s2_def]
  have e3: "dbResultOne 0 (DBPositionSaved k ok) s1 = Inr s2"
    using ps(1) findIn_field [OF it(1)] it(2,4) by (simp add: dbResultOne_def t_def [symmetric] Let_def)
  have p2: "plSeqID p2 = k" "plAccountNo p2 = a" "\<not> plBConnect p2"
    using pid gone acc(2) by (simp_all add: p2_def p1_def p_def)
  have f2: "svPlayers s2 = removeAll k (svPlayers s)" "svNotifyQ s2 = svNotifyQ s @ [notice]" "svAccounts s2 = svAccounts s"
      "map_of (svObjs s2) k = Some p2" "svUnAuth s2 = svUnAuth s" "svPlayerCnt s2 = svPlayerCnt s" "svAuthPlayers s2 = svAuthPlayers s"
      "svOut s2 = svOut s"
    using p2 f1 by (simp_all add: s2_def t_def putP_def s1_def)
  have off: "k \<notin> set (svSectors s2 c)" for c
  proof -
    have "inv_players (svObjs s2) (svPlayers s2) (svSectors s2)" using ps(2) by (simp add: field_inv_def)
    then show ?thesis using f2(1) by (auto simp: inv_players_def)
  qed
  define s3 where "s3 = s2\<lparr>svAuthPlayers := setIns k (svAuthPlayers s2), svAccounts := alDel a (svAccounts s2)\<rparr>"
  have e4: "authNotifyPacketProc notice s2 = Inr s3"
    using authNotify_gone [of p2 s2 k p2 "svNow t"] p2 acc(1,3,4) f2(3,4) by (simp add: notice_def s3_def)
  define s4 where "s4 = s3\<lparr>svAccounts := alDel a (svAccounts s3), svPlayerCnt := svPlayerCnt s3 - 1,
      svObjs := alDel k (svObjs s3), svAuthPlayers := removeAll k (svAuthPlayers s3)\<rparr>"
  have k3: "k \<in> set (svAuthPlayers s3)" by (simp add: s3_def setIns_def)
  have "deletePlayer p2 = Inr ()" using p2(3) by (simp add: deletePlayer_def DeQueueMsgOrNull_def)
  then have e5: "leaveDisconnected CONFIG_AUTH_FIELD_IDX k s3 = Inr s4"
    using k3 f2(4,5) p2 acc(5) drainMsgs_gone [OF p2(3)]
    by (simp add: leaveDisconnected_def findIn_def threadPlayers_def dropPlayer_def erasePlayer_def Let_def)
      (simp add: s3_def s4_def)
  show ?thesis
    by (intro exI [of _ s1] exI [of _ ok] exI [of _ db'] exI [of _ s2] exI [of _ notice] exI [of _ s3] exI [of _ s4] conjI)
      (use e1 f1(4) e2 q(2,3) e3 ps(2) f2 off e4 k3 e5 in \<open>simp_all add: p_def db'_def s3_def s4_def\<close>)
qed

text \<open>A database that refuses everything, and a field whose second player has been disconnected.\<close>

definition deadApi :: "unit mysql" where
  "deadApi = \<lparr> myInit = True, myConnect = (\<lambda>_ _ _ _ _ m. (True, m)), myQuery = (\<lambda>_ m. (False, m)),
     myStore = (\<lambda>m. (None, m)), myErrno = (\<lambda>_. 2006), myError = (\<lambda>_. ascii ''gone away'') \<rparr>"

definition sampleGone :: server where
  "sampleGone = (putP ((samplePlayer 2)\<lparr>plBConnect := False\<rparr>) sampleField)\<lparr>svAccounts := [(12, 2)]\<rparr>"

lemma sampleGone_inv: "field_inv sampleGone"
proof -
  have "player_good 2 ((samplePlayer 2)\<lparr>plBConnect := False\<rparr>)"
    using samplePlayer_good [of 2] by (simp add: player_good_def player_wf_def player_placed_def)
  then have "inv_players (alUpd 2 ((samplePlayer 2)\<lparr>plBConnect := False\<rparr>) (svObjs sampleField)) (svPlayers sampleField) (svSectors sampleField)"
    using sampleField_inv unfolding field_inv_def by (intro inv_players_put) auto
  then show ?thesis using sampleField_inv by (simp add: field_inv_def sampleGone_def putP_def)
qed

lemma player_leaves_witness:
  "\<exists>s1 ok db' s2 notice s3 s4. leaveDisconnected 0 2 sampleGone = Inr s1 \<and>
    dbJobOne deadApi (\<lambda>_ r. (RNull, r)) (\<lambda>_. None :: int option) (\<lambda>x. x) 0
      (DBPositionSave 2 12 (Position (f_lit 100 1) (f_lit 100 1))) ((newCDB [] ())\<lparr>cdConn := True\<rparr>, ()) =
        Inr (DBPositionSaved 2 ok, db', ()) \<and>
    dbResultOne 0 (DBPositionSaved 2 ok) s1 = Inr s2 \<and> authNotifyPacketProc notice s2 = Inr s3 \<and>
    leaveDisconnected CONFIG_AUTH_FIELD_IDX 2 s3 = Inr s4 \<and> svPlayers s4 = [1] \<and> map_of (svObjs s4) 2 = None"
proof -
  have f: "theP sampleGone 2 = (samplePlayer 2)\<lparr>plBConnect := False\<rparr>" "svPlayers sampleGone = [1, 2]" "svUnAuth sampleGone = []"
      "svAccounts sampleGone = [(12, 2)]" "svNotifyQ sampleGone = []" "room 2 sampleGone"
    using sampleField_room [of 2] by (simp_all add: sampleGone_def putP_def theP_def sampleField_def newServer_def room_def)
  have c: "cdConn ((newCDB [] ())\<lparr>cdConn := True\<rparr>)" "\<not> cdBFailed ((newCDB [] ())\<lparr>cdConn := True\<rparr>)" by (simp_all add: newCDB_def)
  define q where "q = theP sampleGone 2"
  have q: "\<not> plBConnect q" "and (plDBRequestCnt q) DB_POSITION_SAVE_PENDING_BIT = 0" "12 = plAccountNo q"
      "plPos q = Position (f_lit 100 1) (f_lit 100 1)"
    by (simp_all add: q_def f(1))
  have h: "2 \<in> set (svPlayers sampleGone)" "length (svNotifyQ sampleGone) < PTR_CAP" "map_of (svAccounts sampleGone) 12 = Some 2"
      "- (2 ^ 63) \<le> (12::int)" "(12::int) < 2 ^ 63" "2 \<notin> set (svUnAuth sampleGone)" "removeAll 2 (svPlayers sampleGone) = [1]"
    by (simp_all add: f PTR_CAP_def)
  from player_leaves [OF sampleGone_inv h(1) q(1,2) [unfolded q_def] f(6) h(2,3) q(3) [unfolded q_def] h(4-6) c,
    of deadApi "\<lambda>_ r. (RNull, r)" "\<lambda>_. None :: int option" "\<lambda>x. x" 0 "()", folded q_def, unfolded q(4) h(7)]
  show ?thesis by (elim exE conjE) (intro exI conjI; assumption)
qed

end
