(* ===== verification/AuthProps.thy ===== *)
theory AuthProps
  imports LeaveProps
begin

text \<open>
  Logging in: what the checks of the input let through, that nothing the client sends becomes SQL, that
  the handler of \<open>FIELD_AUTH_REQ\<close> answers whatever the database does, and that an account has one session.
\<close>

subsection \<open>The input\<close>

text \<open>The text of a C array: what comes before the first zero.\<close>

definition cText :: "byte list \<Rightarrow> byte list" where "cText bs = takeWhile (\<lambda>b. b \<noteq> 0) bs"

lemma cText_simps [simp]: "cText [] = []" "cText (b # bs) = (if b = 0 then [] else b # cText bs)"
  by (simp_all add: cText_def)

lemma allAlnum_cText: "allAlnum bs = list_all isalnum (cText bs)"
  by (induction bs) auto

text \<open>
  A name is accepted exactly when its text, up to the first zero, is not empty and has only letters
  and digits; so it has neither a quote nor a backslash.
\<close>

lemma valid_id: "isValidId bs = (cText bs \<noteq> [] \<and> list_all isalnum (cText bs))"
  by (cases bs) (auto simp: isValidId_def allAlnum_cText)

lemma isalnum_plain: "isalnum b \<Longrightarrow> b \<noteq> 39 \<and> b \<noteq> 92 \<and> b \<noteq> 0"
  by (auto simp: isalnum_def isDigit_def isAlpha_def)

lemma isValidId_plain: "isValidId bs \<Longrightarrow> \<forall>b \<in> set (cText bs). b \<noteq> 39 \<and> b \<noteq> 92"
  using isalnum_plain by (auto simp: valid_id list_all_iff)

subsection \<open>Escaping\<close>

lemma escape_length: "length (escapeSqlString bs i n) \<le> 2 * length bs"
  by (induction bs i n rule: escapeSqlString.induct) auto

lemma escape_bound: "i < n \<Longrightarrow> i + length (escapeSqlString bs i n) < n"
  by (induction bs i n rule: escapeSqlString.induct) auto

text \<open>
  The reader of string literals of the SQL server, a parameter: \<open>lit\<close> is given what follows the opening
  quote and answers the text and what follows the closing one. These are its documented laws that are
  used: a quote that no quote follows closes, a backslash takes the quote or backslash behind it as it is,
  any other character stands for itself.
\<close>

definition reads_literals :: "(byte list \<Rightarrow> (byte list \<times> byte list) option) \<Rightarrow> bool" where
  "reads_literals lit \<longleftrightarrow>
     (\<forall>rest. (rest = [] \<or> hd rest \<noteq> 39) \<longrightarrow> lit (39 # rest) = Some ([], rest)) \<and>
     (\<forall>c cs. c = 39 \<or> c = 92 \<longrightarrow> lit (92 # c # cs) = map_option (\<lambda>(t, r). (c # t, r)) (lit cs)) \<and>
     (\<forall>c cs. c \<noteq> 39 \<and> c \<noteq> 92 \<longrightarrow> lit (c # cs) = map_option (\<lambda>(t, r). (c # t, r)) (lit cs))"

lemma reads_laws:
  assumes "reads_literals lit"
  shows "rest = [] \<or> hd rest \<noteq> 39 \<Longrightarrow> lit (39 # rest) = Some ([], rest)"
    "c = 39 \<or> c = 92 \<Longrightarrow> lit (92 # c # cs) = map_option (\<lambda>(t, r). (c # t, r)) (lit cs)"
    "c \<noteq> 39 \<and> c \<noteq> 92 \<Longrightarrow> lit (c # cs) = map_option (\<lambda>(t, r). (c # t, r)) (lit cs)"
  using assms unfolding reads_literals_def by blast+

lemma literal_plain:
  assumes "reads_literals lit" "\<forall>b \<in> set bs. b \<noteq> 39 \<and> b \<noteq> 92" "rest = [] \<or> hd rest \<noteq> 39"
  shows "lit (bs @ 39 # rest) = Some (bs, rest)"
  using assms(2)
proof (induction bs)
  case Nil
  then show ?case using reads_laws(1) [OF assms(1,3)] by simp
next
  case (Cons b bs)
  then show ?case using reads_laws(3) [OF assms(1), of b "bs @ 39 # rest"] by simp
qed

lemma literal_escaped:
  assumes "reads_literals lit" "rest = [] \<or> hd rest \<noteq> 39" "i + 2 * length bs < n"
  shows "lit (escapeSqlString (bs @ [0]) i n @ 39 # rest) = Some (cText bs, rest)"
  using assms(3)
proof (induction bs arbitrary: i)
  case Nil
  then show ?case using reads_laws(1) [OF assms(1,2)] by simp
next
  case (Cons b bs)
  show ?case
  proof (cases "b = 0")
    case True
    then show ?thesis using reads_laws(1) [OF assms(1,2)] by simp
  next
    case False
    note q = reads_laws(2) [OF assms(1)] and o = reads_laws(3) [OF assms(1)]
    have "i + 2 < n" "i + 2 + 2 * length bs < n" "i + 1 + 2 * length bs < n" using Cons.prems by simp_all
    then show ?thesis using False Cons.IH [of "i + 2"] Cons.IH [of "i + 1"] q [of b] o [of b] by auto
  qed
qed


text \<open>A reader with these laws.\<close>

fun sampleLit :: "byte list \<Rightarrow> (byte list \<times> byte list) option" where
  "sampleLit [] = None"
| "sampleLit (c # cs) =
     (if c = 39 then Some ([], cs)
      else if c = 92 then (case cs of [] \<Rightarrow> None | d # ds \<Rightarrow> map_option (\<lambda>(t, r). (d # t, r)) (sampleLit ds))
      else map_option (\<lambda>(t, r). (c # t, r)) (sampleLit cs))"

lemma sampleLit_reads: "reads_literals sampleLit"
  by (auto simp: reads_literals_def)


subsection \<open>Accounts and sessions\<close>

text \<open>
  The tables of the authentication thread: who is unauthenticated has a player, and every account that is
  in use belongs to the player of one session, which is not among the unauthenticated.
\<close>

definition auth_inv :: "server \<Rightarrow> bool" where
  "auth_inv s \<longleftrightarrow>
     (\<forall>k \<in> set (svUnAuth s). \<exists>p. map_of (svObjs s) k = Some p \<and> plSeqID p = k) \<and>
     (\<forall>a k. map_of (svAccounts s) a = Some k \<longrightarrow>
        k \<notin> set (svUnAuth s) \<and> (\<exists>p. map_of (svObjs s) k = Some p \<and> plSeqID p = k \<and> plAccountNo p = a))"

lemma auth_inv_session:
  assumes "auth_inv s" "map_of (svAccounts s) a = Some k" "map_of (svAccounts s) b = Some k"
  shows "a = b"
proof -
  obtain p where "map_of (svObjs s) k = Some p" "plAccountNo p = a" using assms(1,2) unfolding auth_inv_def by blast
  moreover obtain q where "map_of (svObjs s) k = Some q" "plAccountNo q = b" using assms(1,3) unfolding auth_inv_def by blast
  ultimately show ?thesis by simp
qed

lemma auth_inv_sent: "auth_inv (sent t ms s) = auth_inv s" "auth_inv (disconnectSession k s) = auth_inv s"
  by (simp_all add: auth_inv_def sent_def disconnectSession_def)

definition failMsg :: "int \<Rightarrow> server \<Rightarrow> server" where
  "failMsg k s = sent FIELD_AUTH_FAIL [(k, packet (svNow s) k FIELD_AUTH_FAIL (enc 1 0))] s"

lemma sendAuthFail_eq: "sendAuthFail k s = Inr (failMsg k s)"
  unfolding sendAuthFail_def failMsg_def by (subst sendMsg_eq) (simp_all add: type_ok_def packet_defs kTableSize_def)

text \<open>The player and the server after a login.\<close>

definition admitted :: "byte list \<Rightarrow> int \<Rightarrow> f32 \<Rightarrow> f32 \<Rightarrow> int \<Rightarrow> player \<Rightarrow> player" where
  "admitted nickname accountNo x y characterId p =
     (InitPlayerInfo accountNo characterId 0 (SetPosition x y p))\<lparr>plNickname := nickname\<rparr>"

definition loggedIn :: "int \<Rightarrow> byte list \<Rightarrow> int \<Rightarrow> f32 \<Rightarrow> f32 \<Rightarrow> player \<Rightarrow> server \<Rightarrow> server" where
  "loggedIn k nickname accountNo x y p s =
     (let c = wrap64 (svCharacterID s + 1)
      in sent FIELD_AUTH_RES [(k, packet (svNow s) k FIELD_AUTH_RES (enc 8 c @ encF x @ encF y))]
           (putP (admitted nickname accountNo x y c p)
             (s\<lparr>svUnAuth := removeAll k (svUnAuth s), svCharacterID := c,
                svAccounts := mapIns accountNo k (svAccounts s)\<rparr>)))"

lemma admit_eq:
  assumes inv: "auth_inv s"
  shows "admit k nickname a x y s =
    Inr (case map_of (svAccounts s) a of
           Some j \<Rightarrow> failMsg k (disconnectSession j s)
         | None \<Rightarrow> if k \<notin> set (svUnAuth s) then s
                   else loggedIn k nickname a x y (theP s k) s)"
proof (cases "map_of (svAccounts s) a")
  case (Some j)
  then obtain p where "map_of (svObjs s) j = Some p" "plSeqID p = j" using inv unfolding auth_inv_def by blast
  then show ?thesis using Some by (simp add: admit_def derefP_def sendAuthFail_eq)
next
  case None
  show ?thesis
  proof (cases "k \<in> set (svUnAuth s)")
    case True
    then obtain p where p: "map_of (svObjs s) k = Some p" "plSeqID p = k" using inv unfolding auth_inv_def by blast
    have t: "theP s k = p" using p by (simp add: theP_def)
    have m: "sendMsg FIELD_AUTH_RES 18 [enc 8 c, encF x, encF y] k u =
        Inr (sent FIELD_AUTH_RES [(k, packet (svNow u) k FIELD_AUTH_RES (enc 8 c @ encF x @ encF y))] u)" for c u
      by (subst sendMsg_eq) (simp_all add: type_ok_def packet_defs kTableSize_def encF_def)
    show ?thesis using None True p
      unfolding admit_def loggedIn_def admitted_def t Let_def
      by (simp add: derefP_def m putP_def)
  next
    case False
    then show ?thesis using None by (simp add: admit_def)
  qed
qed

text \<open>The tables after a login, and the one packet that answers it.\<close>

lemma loggedIn_facts:
  fixes nickname x y
  assumes inv: "auth_inv s" and a: "map_of (svAccounts s) a = None" and k: "k \<in> set (svUnAuth s)"
  defines "s' \<equiv> loggedIn k nickname a x y (theP s k) s" and "c \<equiv> wrap64 (svCharacterID s + 1)"
  defines "p \<equiv> admitted nickname a x y c (theP s k)"
  shows "auth_inv s'" "svUnAuth s' = removeAll k (svUnAuth s)" "map_of (svAccounts s') = (map_of (svAccounts s))(a \<mapsto> k)"
    "map_of (svObjs s') = (map_of (svObjs s))(k \<mapsto> p)" "svDiscon s' = svDiscon s"
    "svOut s' = svOut s @ [(k, packet (svNow s) k FIELD_AUTH_RES (enc 8 c @ encF x @ encF y))]"
    "plAccountNo p = a" "plCharacterID p = c" "plPos p = Position x y" "plNickname p = nickname" "plNextFieldID p = 0"
proof -
  obtain q where q: "map_of (svObjs s) k = Some q" "plSeqID q = k" using inv k unfolding auth_inv_def by blast
  have t: "theP s k = q" using q by (simp add: theP_def)
  show p: "plAccountNo p = a" "plCharacterID p = c" "plPos p = Position x y" "plNickname p = nickname" "plNextFieldID p = 0"
    by (simp_all add: p_def admitted_def InitPlayerInfo_def SetPosition_def)
  have ps: "plSeqID p = k" using q(2) by (simp add: t p_def admitted_def InitPlayerInfo_def SetPosition_def)
  show f: "svUnAuth s' = removeAll k (svUnAuth s)" "map_of (svAccounts s') = (map_of (svAccounts s))(a \<mapsto> k)"
      "map_of (svObjs s') = (map_of (svObjs s))(k \<mapsto> p)" "svDiscon s' = svDiscon s"
      "svOut s' = svOut s @ [(k, packet (svNow s) k FIELD_AUTH_RES (enc 8 c @ encF x @ encF y))]"
    using a ps by (simp_all add: s'_def loggedIn_def c_def [symmetric] p_def [symmetric] putP_def Let_def sent_def)
  have other: "map_of (svAccounts s) b = Some j \<Longrightarrow> j \<noteq> k" for b j using inv k unfolding auth_inv_def by blast
  show "auth_inv s'" using inv p(1) ps other unfolding auth_inv_def f by (auto split: if_splits)
qed

lemma failMsg_facts: "auth_inv s \<Longrightarrow> auth_inv (failMsg k s)"
  "svOut (failMsg k s) = svOut s @ [(k, packet (svNow s) k FIELD_AUTH_FAIL (enc 1 0))]"
  "svOut (failMsg k (disconnectSession j s)) = svOut s @ [(k, packet (svNow s) k FIELD_AUTH_FAIL (enc 1 0))]"
  by (simp_all add: failMsg_def auth_inv_sent) (simp_all add: sent_def disconnectSession_def)

text \<open>
  C9. An account has one session. A login whose account is free gives the session the account, a new
  character number, the stored position and the name, takes it off the unauthenticated, and answers with
  number and position; a login whose account is in use is refused, and the session that has the account
  is disconnected; a session that has logged in already is left alone. The tables stay consistent.
\<close>

theorem admit_one_session:
  assumes inv: "auth_inv s"
  shows "\<exists>s'. admit k nickname a x y s = Inr s' \<and> auth_inv s' \<and>
    (case map_of (svAccounts s) a of
       Some j \<Rightarrow> svAccounts s' = svAccounts s \<and> svDiscon s' = svDiscon s @ [j] \<and>
         svOut s' = svOut s @ [(k, packet (svNow s) k FIELD_AUTH_FAIL (enc 1 0))]
     | None \<Rightarrow>
         if k \<notin> set (svUnAuth s) then s' = s
         else \<exists>p. map_of (svAccounts s') = (map_of (svAccounts s))(a \<mapsto> k) \<and> k \<notin> set (svUnAuth s') \<and>
           svDiscon s' = svDiscon s \<and> map_of (svObjs s') k = Some p \<and> plAccountNo p = a \<and>
           plCharacterID p = wrap64 (svCharacterID s + 1) \<and> plPos p = Position x y \<and> plNickname p = nickname \<and>
           plNextFieldID p = 0 \<and>
           svOut s' = svOut s @ [(k, packet (svNow s) k FIELD_AUTH_RES (enc 8 (plCharacterID p) @ encF x @ encF y))])"
proof (cases "map_of (svAccounts s) a")
  case (Some j)
  have "auth_inv (failMsg k (disconnectSession j s))" using inv by (simp add: failMsg_def auth_inv_sent)
  then show ?thesis using admit_eq [OF inv] Some
    by (simp add: failMsg_def sent_def disconnectSession_def)
next
  case None
  show ?thesis
  proof (cases "k \<in> set (svUnAuth s)")
    case True
    note f = loggedIn_facts [OF inv None True, of nickname x y]
    then show ?thesis using admit_eq [OF inv] None True by simp
  next
    case False
    then show ?thesis using admit_eq [OF inv] None inv by simp
  qed
qed

text \<open>Session 4 logs in to account 11, which session 1 has, and to account 14, which is free.\<close>

definition sampleLogin :: server where
  "sampleLogin = (newServer 0 (\<lambda>_. 0))\<lparr>svObjs := [(1, samplePlayer 1), (4, newPlayer 4)], svUnAuth := [4], svAccounts := [(11, 1)]\<rparr>"

lemma sampleLogin_inv: "auth_inv sampleLogin"
  by (auto simp: auth_inv_def sampleLogin_def newPlayer_def)

lemma admit_one_session_witness:
  "\<exists>s1 s2. admit 4 [97] 11 0 0 sampleLogin = Inr s1 \<and> svDiscon s1 = [1] \<and> svAccounts s1 = [(11, 1)] \<and>
     admit 4 [97] 14 0 0 sampleLogin = Inr s2 \<and> map_of (svAccounts s2) = [11 \<mapsto> 1, 14 \<mapsto> 4] \<and> svUnAuth sampleLogin = [4]"
proof -
  have f: "map_of (svAccounts sampleLogin) 11 = Some 1" "map_of (svAccounts sampleLogin) 14 = None" "svUnAuth sampleLogin = [4]"
      "svAccounts sampleLogin = [(11, 1)]" "svDiscon sampleLogin = []"
    by (simp_all add: sampleLogin_def newServer_def)
  show ?thesis
    using admit_one_session [OF sampleLogin_inv, of 4 "[97]" 11 0 0] admit_one_session [OF sampleLogin_inv, of 4 "[97]" 14 0 0] f by auto
qed

subsection \<open>The handler of a login\<close>

text \<open>
  What is relied on of the database: a row that it answers to the two queries has the columns that they
  name, without null, and the account number is a number of 64 bits.
\<close>

definition rows_ok :: "string list \<Rightarrow> resultSet \<Rightarrow> bool" where
  "rows_ok cols rs \<longleftrightarrow> (\<forall>rs'. Fetch rs = (True, rs') \<longrightarrow>
     (\<exists>n. columnInt ''accountNo'' rs' = Inr n) \<and> (\<forall>c \<in> set cols. \<exists>v. column c rs' = Inr v))"

definition answering :: "'m mysql \<Rightarrow> bool" where
  "answering api \<longleftrightarrow> (\<forall>ident pw d rs d'.
     (Query api (selectQuery ident pw) d = Inr (True, rs, d') \<longrightarrow> rows_ok [''x'', ''y''] rs) \<and>
     (Query api (numberQuery ident) d = Inr (True, rs, d') \<longrightarrow> rows_ok [] rs))"

abbreviation usable :: "'m cdb \<Rightarrow> bool" where "usable d \<equiv> cdConn d \<and> \<not> cdBFailed d"

lemma lookupAccount_ok:
  assumes "answering api" "usable d"
  shows "\<exists>r d'. lookupAccount api atof i e d = Inr (r, d') \<and> usable d'"
proof -
  obtain ok rs d1 where q: "Query api (selectQuery i e) d = Inr (ok, rs, d1)" "usable (if ok then d1 else ClearError d1)"
    using cdb.query_cleared [of d api "selectQuery i e"] assms(2) by blast
  show ?thesis
  proof (cases "ok \<and> fst (Fetch rs)")
    case True
    then obtain rs' where f: "Fetch rs = (True, rs')" by (cases "Fetch rs") auto
    have "rows_ok [''x'', ''y''] rs" using assms(1) q(1) True by (simp add: answering_def)
    then obtain n v w where "columnInt ''accountNo'' rs' = Inr n" "column ''x'' rs' = Inr v" "column ''y'' rs' = Inr w"
      using f by (auto simp: rows_ok_def)
    then show ?thesis using q f True by (simp add: lookupAccount_def columnFloat_def)
  next
    case False
    then show ?thesis using q by (cases "Fetch rs") (auto simp: lookupAccount_def)
  qed
qed

lemma createAccount_ok:
  assumes "answering api" "usable d"
  shows "\<exists>r d'. createAccount api i e d = Inr (r, d') \<and> usable d'"
proof -
  obtain ok d1 where x: "Execute api (insertQuery i e) d = Inr (ok, d1)" "usable (if ok then d1 else ClearError d1)"
    using cdb.exec_cleared [of d api "insertQuery i e"] assms(2) by blast
  show ?thesis
  proof (cases ok)
    case False
    then show ?thesis using x by (simp add: createAccount_def)
  next
    case True
    then have "usable d1" using x(2) by simp
    then obtain ok2 rs d2 where q: "Query api (numberQuery i) d1 = Inr (ok2, rs, d2)" "usable (if ok2 then d2 else ClearError d2)"
      using cdb.query_cleared [of d1 api "numberQuery i"] by blast
    show ?thesis
    proof (cases "ok2 \<and> fst (Fetch rs)")
      case ft: True
      then obtain rs' where f: "Fetch rs = (True, rs')" by (cases "Fetch rs") auto
      have "rows_ok [] rs" using assms(1) q(1) ft by (simp add: answering_def)
      then obtain n where "columnInt ''accountNo'' rs' = Inr n" using f by (auto simp: rows_ok_def)
      then show ?thesis using x True q f ft by (simp add: createAccount_def)
    next
      case False
      then show ?thesis using x True q by (cases "Fetch rs") (auto simp: createAccount_def ClearError_def)
    qed
  qed
qed

lemma findAccount_ok:
  assumes "answering api" "usable d"
  shows "\<exists>r d'. findAccount api atof i e d = Inr (r, d') \<and> usable d'"
proof -
  obtain r d1 where 1: "lookupAccount api atof i e d = Inr (r, d1)" "usable d1"
    using lookupAccount_ok [OF assms] by blast
  then show ?thesis using createAccount_ok [OF assms(1) 1(2), of i e] by (cases r) (auto simp: findAccount_def)
qed

text \<open>
  C24. The handler of a login answers, whether the database knows the account, has to create it, refuses, or fails
  at any of its three calls, as long as the rows that it does return have the columns the queries name, without null
  and with an account number of 64 bits (\<open>answering\<close>). It returns, leaves no error pending in the wrapper (the next
  login would throw) and keeps the tables consistent. A name that is not valid is refused without asking the
  database; an account that the database neither finds nor creates is refused; one that another session has is
  refused and that session disconnected; else the session is logged in. A session that was not yet logged in is sent
  exactly one packet, the refusal or its number and position; one that was and asks for a free account gets no answer.
\<close>

theorem login_answers:
  assumes "answering api" "usable db" and inv: "auth_inv s" and msg: "readable msg" "84 \<le> length (unread msg)"
  defines "k \<equiv> mOwnerID msg" and "ident \<equiv> (take 20 (unread msg))[19 := 0]"
    and "pw \<equiv> escapeSqlString (take 64 (drop 20 (unread msg)) @ [0]) 0 129"
  shows "\<exists>s' db'. handleAuthReq api atof msg (s, db) = Inr (s', db') \<and> usable db' \<and> auth_inv s' \<and>
    (if \<not> isValidId ident then db' = db \<and> s' = failMsg k s
     else \<exists>r. findAccount api atof (cText ident) pw db = Inr (r, db') \<and>
       (case r of
          None \<Rightarrow> s' = failMsg k s
        | Some (a, x, y) \<Rightarrow> (case map_of (svAccounts s) a of
              Some j \<Rightarrow> s' = failMsg k (disconnectSession j s)
            | None \<Rightarrow> if k \<notin> set (svUnAuth s) then s' = s
                else s' = loggedIn k ident a x y (theP s k) s \<and> map_of (svAccounts s') = (map_of (svAccounts s))(a \<mapsto> k)))) \<and>
    (k \<in> set (svUnAuth s) \<longrightarrow>
       svOut s' = svOut s @ [(k, packet (svNow s) k FIELD_AUTH_FAIL (enc 1 0))] \<or>
       (\<exists>x y. svOut s' = svOut s @ [(k, packet (svNow s) k FIELD_AUTH_RES
          (enc 8 (wrap64 (svCharacterID s + 1)) @ encF x @ encF y))]))"
proof -
  have g: "GetData 20 msg = Inr (take 20 (unread msg), adv 20 msg)"
      "GetData 64 (adv 20 msg) = Inr (take 64 (drop 20 (unread msg)), adv 84 msg)"
    using msg by (simp_all add: getVal_GetData [symmetric] getVal_eq)
  have c: "cstr ident = Inr (cText ident)"
    using msg(2) by (auto simp: cstr_def cText_def ident_def in_set_conv_nth intro!: exI [of _ 19])
  have run: "handleAuthReq api atof msg (s, db) =
      (if \<not> isValidId ident then Inr (failMsg k s, db)
       else bindR (findAccount api atof (cText ident) pw db) (\<lambda>(r, db).
         case r of None \<Rightarrow> Inr (failMsg k s, db)
         | Some (accountNo, x, y) \<Rightarrow> bindR (admit k ident accountNo x y s) (\<lambda>s. Inr (s, db))))"
    using g c [unfolded ident_def]
    by (auto simp: handleAuthReq_def ident_def k_def pw_def sendAuthFail_eq Let_def split: option.splits
        intro!: arg_cong2 [of _ _ _ _ bindR])
  have fm: "auth_inv (failMsg k s)" "\<And>j. auth_inv (failMsg k (disconnectSession j s))"
    using inv by (simp_all add: failMsg_facts(1) auth_inv_sent)
  show ?thesis
  proof (cases "isValidId ident")
    case False
    then show ?thesis using run fm assms(2) by (simp add: failMsg_facts(2))
  next
    case True
    obtain r d where r: "findAccount api atof (cText ident) pw db = Inr (r, d)" "usable d"
      using findAccount_ok [OF assms(1,2)] by blast
    show ?thesis
    proof (cases r)
      case None
      then show ?thesis using run r True fm by (simp add: failMsg_facts(2))
    next
      case (Some t)
      obtain a x y where t: "t = (a, x, y)" by (cases t)
      define s' where "s' = (case map_of (svAccounts s) a of Some j \<Rightarrow> failMsg k (disconnectSession j s)
         | None \<Rightarrow> if k \<notin> set (svUnAuth s) then s else loggedIn k ident a x y (theP s k) s)"
      have h: "handleAuthReq api atof msg (s, db) = Inr (s', d)"
        using run r True Some t admit_eq [OF inv, of k ident a x y] by (simp add: s'_def)
      show ?thesis
      proof (cases "map_of (svAccounts s) a")
        case (Some j)
        then show ?thesis using h r True \<open>r = Some t\<close> t fm by (simp add: s'_def failMsg_facts(3))
      next
        case None
        note l = loggedIn_facts [OF inv None, of k ident x y]
        show ?thesis using h r True Some t inv None l(1,3,6) by (auto simp: s'_def)
      qed
    qed
  qed
qed

text \<open>
  A database that answers every query with the row 14, 5, 6; session 4 logs in with a name, session 1's
  message has an empty name.
\<close>

definition rowApi :: "unit mysql" where
  "rowApi = \<lparr> myInit = True, myConnect = (\<lambda>_ _ _ _ _ m. (True, m)), myQuery = (\<lambda>_ m. (True, m)),
     myStore = (\<lambda>m. (Some ([ascii ''accountNo'', ascii ''x'', ascii ''y''], [map (Some \<circ> ascii) [''14'', ''5'', ''6'']]), m)),
     myErrno = (\<lambda>_. 0), myError = (\<lambda>_. []) \<rparr>"

definition rowResult :: resultSet where
  "rowResult = \<lparr> rsRows = [map (Some \<circ> ascii) [''14'', ''5'', ''6'']], rsRow = None,
     rsColumnIndex = fold (\<lambda>(i, name) t. mapIns name i t) (enumerate 0 [ascii ''accountNo'', ascii ''x'', ascii ''y'']) [] \<rparr>"

lemma rowApi_query: "Query rowApi q d = Inr (True, rs, d') \<Longrightarrow> rs = rowResult"
  by (auto simp: Query_def rowApi_def throwIfFailed_def rowResult_def Let_def split: if_splits)

lemma rowResult_ok: "rows_ok [''x'', ''y''] rowResult"
proof -
  have "columnInt ''accountNo'' (snd (Fetch rowResult)) = Inr 14" "column ''x'' (snd (Fetch rowResult)) = Inr (ascii ''5'')"
    "column ''y'' (snd (Fetch rowResult)) = Inr (ascii ''6'')"
    by code_simp+
  then show ?thesis by (auto simp: rows_ok_def)
qed

lemma rowApi_answering: "answering rowApi"
  using rowResult_ok unfolding answering_def by (auto dest!: rowApi_query simp: rows_ok_def)

definition loginPacket :: message where
  "loginPacket = sampleMsg 4 (ascii ''abc'' @ replicate 81 0)"

definition namelessPacket :: message where
  "namelessPacket = sampleMsg 1 (replicate 84 0)"

lemma login_answers_witness:
  "(\<exists>s' db' x y. handleAuthReq rowApi (\<lambda>_. 0) loginPacket (sampleLogin, (newCDB [] ())\<lparr>cdConn := True\<rparr>) = Inr (s', db') \<and>
     \<not> cdBFailed db' \<and> auth_inv s' \<and> (svOut s' = [(4, packet 0 4 FIELD_AUTH_FAIL (enc 1 0))] \<or>
       svOut s' = [(4, packet 0 4 FIELD_AUTH_RES (enc 8 1 @ encF x @ encF y))])) \<and>
   (\<exists>s' db'. handleAuthReq rowApi (\<lambda>_. 0) namelessPacket (sampleLogin, (newCDB [] ())\<lparr>cdConn := True\<rparr>) = Inr (s', db') \<and>
     s' = failMsg 1 sampleLogin)"
proof -
  have d: "usable ((newCDB [] ())\<lparr>cdConn := True\<rparr>)" by (simp add: newCDB_def)
  have m: "readable loginPacket" "84 \<le> length (unread loginPacket)" "readable namelessPacket" "84 \<le> length (unread namelessPacket)"
      "mOwnerID namelessPacket = 1" "mOwnerID loginPacket = 4"
    by (simp_all add: loginPacket_def namelessPacket_def ascii_def)
  have o: "svOut sampleLogin = []" "svNow sampleLogin = 0" "svUnAuth sampleLogin = [4]" "wrap64 (svCharacterID sampleLogin + 1) = 1"
    by (simp_all add: sampleLogin_def newServer_def wrap64_def)
  have "\<not> isValidId ((take 20 (unread namelessPacket))[19 := 0])"
    unfolding namelessPacket_def sampleMsg_simps by code_simp
  then show ?thesis
    using login_answers [OF rowApi_answering d sampleLogin_inv m(1,2), of "\<lambda>_. 0"]
      login_answers [OF rowApi_answering d sampleLogin_inv m(3,4), of "\<lambda>_. 0"] unfolding m(5,6) o by fastforce
qed

end
