(* ===== verification/Session.thy ===== *)
theory Session
  imports Message MyRingBuffer
begin

text \<open>
  The network library (\<open>_lib/AcceptEx_IOCP_NetworkLib\<close>): sessions (\<open>Session.cpp\<close>), their life from
  the accepted connection to the release and the reuse of their slot, the reassembly of packets from
  the byte stream, and the queue of messages to send (\<open>AcceptEx_IOCP_NetworkLib.cpp\<close>).

  Sockets and the completion port belong to the operating system: \<open>nlOs\<close> is what its calls answer
  (0, or the error code), \<open>nlPending\<close> the overlapped operations it has accepted, \<open>nlPosted\<close> the
  packets the library posts to itself. The application above is the parameter \<open>app\<close>: what a callback
  makes of the application's state, and the calls it makes of the library.
\<close>

subsection \<open>Session numbers\<close>

text \<open>\<open>SeqAndIdx\<close>: 17 bits of slot index, 47 bits of sequence number.\<close>

definition seqAndIdx :: "nat \<Rightarrow> int \<Rightarrow> int" where
  "seqAndIdx idx seq = wrap64 (int idx + seq * 131072)"

definition seqIdx :: "int \<Rightarrow> int" where
  "seqIdx v = (v + 65536) mod 131072 - 65536"

definition CONFIG_SESSION_MAX :: nat where "CONFIG_SESSION_MAX = 7000"
definition CONFIG_SEND_MESSAGE_MAXCOUNT :: int where "CONFIG_SEND_MESSAGE_MAXCOUNT = 500"
definition RELEASE_IOCOUNT :: int where "RELEASE_IOCOUNT = 16384"

subsection \<open>State\<close>

datatype eComplete = COMPLETE_ACCEPT | COMPLETE_RECV | COMPLETE_SEND | COMPLETE_RELEASE | NONE

record session =
  seSessionID :: int
  seIOcnt :: int
  seLive :: bool
  seSendFlag :: bool
  seAccepted :: bool
  seRecvBuffer :: ring
  seSendQ :: "message list"
  seSenqQSize :: int
  seSendMsgs :: "message list"

definition newSession :: session where
  "newSession = \<lparr> seSessionID = 0, seIOcnt = 0, seLive = False, seSendFlag = False, seAccepted = False,
     seRecvBuffer = ring_init, seSendQ = [], seSenqQSize = 0, seSendMsgs = [] \<rparr>"

record 'a netlib =
  nlOn :: bool
  nlSessions :: "nat \<Rightarrow> session"
  nlStack :: "nat list"
  nlSeqID :: int
  nlNow :: int
  nlOs :: "nat \<Rightarrow> int"
  nlPending :: "(nat \<times> eComplete) list"
  nlPosted :: "(nat \<times> eComplete) list"
  nlAcceptCnt :: int
  nlSendCnt :: int
  nlRecvCnt :: int
  nlDisConnect :: int
  nlSessionCnt :: int
  nlActiveSlotCnt :: int
  nlApp :: 'a

datatype netEvent = OnAccept int | OnRecv message | OnSend message | OnRelease int

datatype netRequest = ReqDisconnect int | ReqSend int message

type_synonym 'a app = "netEvent \<Rightarrow> 'a \<Rightarrow> (netRequest list \<times> 'a) res"

abbreviation sess :: "'a netlib \<Rightarrow> nat \<Rightarrow> session" where "sess n i \<equiv> nlSessions n i"

definition putS :: "nat \<Rightarrow> session \<Rightarrow> 'a netlib \<Rightarrow> 'a netlib" where
  "putS i x n = n\<lparr>nlSessions := (nlSessions n)(i := x)\<rparr>"

definition post :: "nat \<Rightarrow> eComplete \<Rightarrow> 'a netlib \<Rightarrow> 'a netlib" where
  "post i c n = n\<lparr>nlPosted := nlPosted n @ [(i, c)]\<rparr>"

definition pend :: "nat \<Rightarrow> eComplete \<Rightarrow> 'a netlib \<Rightarrow> 'a netlib" where
  "pend i c n = n\<lparr>nlPending := nlPending n @ [(i, c)]\<rparr>"

text \<open>The next answer of the operating system.\<close>

definition ask :: "'a netlib \<Rightarrow> int \<times> 'a netlib" where
  "ask n = (nlOs n 0, n\<lparr>nlOs := \<lambda>k. nlOs n (Suc k)\<rparr>)"

subsection \<open>The count of operations\<close>

text \<open>\<open>mIOcnt\<close> is a \<open>short\<close>; its bit 14 says that the session is being released.\<close>

definition incIO :: "nat \<Rightarrow> 'a netlib \<Rightarrow> 'a netlib" where
  "incIO i n = putS i ((sess n i)\<lparr>seIOcnt := wrap16 (seIOcnt (sess n i) + 1)\<rparr>) n"

definition decIO :: "nat \<Rightarrow> 'a netlib \<Rightarrow> 'a netlib" where
  "decIO i n = putS i ((sess n i)\<lparr>seIOcnt := wrap16 (seIOcnt (sess n i) - 1)\<rparr>) n"

definition releasing :: "int \<Rightarrow> bool" where
  "releasing cnt \<longleftrightarrow> cnt div RELEASE_IOCOUNT mod 2 = 1"

text \<open>\<open>InterlockedCompareExchange16(&mIOcnt, RELEASE_IOCOUNT, 0)\<close> and what follows.\<close>

definition tryRelease :: "nat \<Rightarrow> 'a netlib \<Rightarrow> 'a netlib" where
  "tryRelease i n =
     (if seIOcnt (sess n i) = 0
      then post i COMPLETE_RELEASE (putS i ((sess n i)\<lparr>seIOcnt := RELEASE_IOCOUNT\<rparr>) n)
      else n)"

definition sessionLock :: "int \<Rightarrow> 'a netlib \<Rightarrow> (bool \<times> 'a netlib) res" where
  "sessionLock sessionID n =
     (if seqIdx sessionID < 0 \<or> int CONFIG_SESSION_MAX \<le> seqIdx sessionID then Inl UndefinedBehaviour
      else let i = nat (seqIdx sessionID); n = incIO i n in
           if releasing (seIOcnt (sess n i)) then Inr (False, n)
           else if seSessionID (sess n i) \<noteq> sessionID then Inr (False, tryRelease i (decIO i n))
           else Inr (True, n))"

definition sessionUnLock :: "int \<Rightarrow> 'a netlib \<Rightarrow> 'a netlib" where
  "sessionUnLock sessionID n =
     (let i = nat (seqIdx sessionID); n = decIO i n in
      if seIOcnt (sess n i) = 0 then tryRelease i n else n)"

definition FindSessionOrNull :: "int \<Rightarrow> 'a netlib \<Rightarrow> nat option res" where
  "FindSessionOrNull seqId n =
     (if int CONFIG_SESSION_MAX < seqIdx seqId then Inr None
      else assertR (seqIdx seqId < int CONFIG_SESSION_MAX)
        (if seqIdx seqId < 0 then Inl UndefinedBehaviour
         else if seSessionID (sess n (nat (seqIdx seqId))) \<noteq> seqId then Inr None
         else Inr (Some (nat (seqIdx seqId)))))"

definition disconnectSession :: "int \<Rightarrow> bool \<Rightarrow> 'a netlib \<Rightarrow> 'a netlib res" where
  "disconnectSession sessionID isNetworklib n =
     bindR (sessionLock sessionID n) (\<lambda>(locked, n).
     if \<not> locked then Inr n
     else let i = nat (seqIdx sessionID);
              n = sessionUnLock sessionID (putS i ((sess n i)\<lparr>seLive := False\<rparr>) n)
          in Inr (if isNetworklib then n else n\<lparr>nlDisConnect := nlDisConnect n + 1\<rparr>))"

definition checkAndHandleIoError :: "nat \<Rightarrow> int \<Rightarrow> 'a netlib \<Rightarrow> 'a netlib" where
  "checkAndHandleIoError i lastError n =
     (if lastError \<in> {10038, 10053, 10054}
      then decIO i (putS i ((sess n i)\<lparr>seLive := False\<rparr>) n)
      else n)"

text \<open>
  An overlapped call on a counted session: the operating system takes it on when it answers 0 or
  \<open>WSA_IO_PENDING\<close> (997).
\<close>

definition issue :: "nat \<Rightarrow> eComplete \<Rightarrow> 'a netlib \<Rightarrow> 'a netlib" where
  "issue i c n =
     (case ask (incIO i n) of (err, n) \<Rightarrow>
        let n = (if err = 0 \<or> err = 997 then pend i c n else n)
        in if err \<noteq> 0 then checkAndHandleIoError i err n else n)"

subsection \<open>Sending\<close>

definition EnQueueMsg :: "message \<Rightarrow> session \<Rightarrow> session" where
  "EnQueueMsg msg x = x\<lparr>seSendQ := seSendQ x @ [msg], seSenqQSize := wrap16 (seSenqQSize x + 1)\<rparr>"

definition DeQueueMsgOrNull :: "session \<Rightarrow> message option \<times> session" where
  "DeQueueMsgOrNull x =
     (case seSendQ x of
        [] \<Rightarrow> (None, x)
      | msg # q \<Rightarrow> (Some msg, x\<lparr>seSendQ := q, seSenqQSize := wrap16 (seSenqQSize x - 1)\<rparr>))"

definition sendPost :: "int \<Rightarrow> message \<Rightarrow> 'a netlib \<Rightarrow> 'a netlib res" where
  "sendPost sessionID msg n =
     bindR (sessionLock sessionID n) (\<lambda>(locked, n).
     if \<not> locked then Inr n
     else let i = nat (seqIdx sessionID);
              n = putS i (EnQueueMsg msg (sess n i)) n;
              n = (if \<not> seSendFlag (sess n i)
                   then post i COMPLETE_SEND (incIO i (putS i ((sess n i)\<lparr>seSendFlag := True\<rparr>) n))
                   else n)
          in Inr (sessionUnLock sessionID n))"

text \<open>The messages of one \<open>WSASend\<close>, taken off the queue.\<close>

fun takeSends :: "nat \<Rightarrow> session \<Rightarrow> session res" where
  "takeSends 0 x = Inr x"
| "takeSends (Suc k) x =
     (case DeQueueMsgOrNull x of
        (None, x) \<Rightarrow> Inl DebugBreak
      | (Some msg, x) \<Rightarrow>
          assertR (mOwnerID msg = seSessionID x)
            (takeSends k (x\<lparr>seSendMsgs := seSendMsgs x @ [msg]\<rparr>)))"

definition sendBatchCnt :: "session \<Rightarrow> int" where
  "sendBatchCnt x = (if CONFIG_SEND_MESSAGE_MAXCOUNT < seSenqQSize x then CONFIG_SEND_MESSAGE_MAXCOUNT else seSenqQSize x)"

definition registerSend :: "nat \<Rightarrow> 'a netlib \<Rightarrow> 'a netlib res" where
  "registerSend i n =
     (let x = sess n i; msgCnt = sendBatchCnt x in
      if msgCnt = 0
      then (if seSendFlag x
            then let x = x\<lparr>seSendFlag := False\<rparr>; n = putS i x n in
                 if sendBatchCnt x \<noteq> 0 \<and> \<not> seSendFlag x
                 then Inr (post i COMPLETE_SEND (incIO i (putS i (x\<lparr>seSendFlag := True\<rparr>) n)))
                 else Inr n
            else Inr n)
      else bindR (takeSends (nat msgCnt) (x\<lparr>seSendMsgs := []\<rparr>)) (\<lambda>x.
           let n = putS i x n
           in if seLive x then Inr (issue i COMPLETE_SEND n) else Inr n))"

subsection \<open>Callbacks\<close>

definition request :: "netRequest \<Rightarrow> 'a netlib \<Rightarrow> 'a netlib res" where
  "request r n = (case r of
     ReqDisconnect sid \<Rightarrow> disconnectSession sid False n
   | ReqSend sid msg \<Rightarrow> sendPost sid msg n)"

definition callback :: "'a app \<Rightarrow> netEvent \<Rightarrow> 'a netlib \<Rightarrow> 'a netlib res" where
  "callback app ev n =
     bindR (app ev (nlApp n)) (\<lambda>(rs, a). foldR request rs (n\<lparr>nlApp := a\<rparr>))"

subsection \<open>Receiving\<close>

text \<open>The one or two buffers of a \<open>WSARecv\<close>, and the bytes the operating system fills them with.\<close>

definition recvBufs :: "ring \<Rightarrow> (nat \<times> nat) list" where
  "recvBufs q =
     (let f = rgFront q; r = rgRear q; freeSize = GetFreeSize f r; len0 = GetDirectFreeSize f r
      in (r, nat len0) # (if freeSize - len0 \<noteq> 0 then [(0, nat (freeSize - len0))] else []))"

fun fillBufs :: "(nat \<times> nat) list \<Rightarrow> byte list \<Rightarrow> byte list \<Rightarrow> byte list res" where
  "fillBufs [] bs buf = (if bs = [] then Inr buf else Inl UndefinedBehaviour)"
| "fillBufs ((off, len) # rest) bs buf =
     bindR (copyIn buf off (take len bs)) (fillBufs rest (drop len bs))"

definition received :: "byte list \<Rightarrow> ring \<Rightarrow> ring res" where
  "received bs q = bindR (fillBufs (recvBufs q) bs (rgBuffer q)) (\<lambda>buf. Inr (q\<lparr>rgBuffer := buf\<rparr>))"

definition registerRecv :: "nat \<Rightarrow> 'a netlib \<Rightarrow> 'a netlib res" where
  "registerRecv i n =
     (let q = seRecvBuffer (sess n i) in
      if GetFreeSize (rgFront q) (rgRear q) = 0 then disconnectSession (seSessionID (sess n i)) False n
      else if seLive (sess n i) then Inr (issue i COMPLETE_RECV n) else Inr n)"

text \<open>The payload goes into the message in one piece, or in two around the end of the array.\<close>

definition copyPayload :: "int \<Rightarrow> ring \<Rightarrow> message \<Rightarrow> message res" where
  "copyPayload len q msg =
     (let deqSize = GetDirectUseSize (rgFront q) (rgRear q) in
      if deqSize < len
      then bindR (copyOut (rgBuffer q) (rgFront q) (nat deqSize)) (\<lambda>bs.
           bindR (PutData bs msg) (\<lambda>msg.
           bindR (copyOut (rgBuffer q) 0 (nat (len - deqSize))) (\<lambda>bs.
           PutData bs msg)))
      else bindR (copyOut (rgBuffer q) (rgFront q) (nat len)) (\<lambda>bs. PutData bs msg))"

text \<open>
  One message off the ring, its header left behind: None when no whole message is there, else the
  rest of the ring with the message, or without one when the header lies about the length.
\<close>

definition takeMessage :: "int \<Rightarrow> int \<Rightarrow> ring \<Rightarrow> (message option \<times> ring) option res" where
  "takeMessage now sessionID q =
     (let useSize = GetUseSize (rgFront q) (rgRear q) in
      if \<not> 3 < useSize then Inr None
      else bindR (MyRingBuffer.Peek 3 q) (\<lambda>(hb, q).
        case hb of
          None \<Rightarrow> Inl UndefinedBehaviour
        | Some hb \<Rightarrow>
            let h = headerOf hb in
            if hLen h \<le> 0 then Inr (Some (None, q))
            else if \<not> hLen h + 3 \<le> useSize then Inr None
            else bindR (Dequeue 3 q) (\<lambda>(hb, q).
                 bindR (copyPayload (hLen h) q (InitMessage now sessionID (hRandKey h))) (\<lambda>msg.
                 Inr (Some (Some msg, MoveFront (hLen h) q))))))"

text \<open>The \<open>while\<close> loop; the flag says that it was left by \<open>return\<close>.\<close>

partial_function (option) recvLoop :: "'a app \<Rightarrow> nat \<Rightarrow> 'a netlib \<Rightarrow> (bool \<times> 'a netlib) res option" where
  "recvLoop app i n =
     (case takeMessage (nlNow n) (seSessionID (sess n i)) (seRecvBuffer (sess n i)) of
        Inl e \<Rightarrow> Some (Inl e)
      | Inr None \<Rightarrow> Some (Inr (False, n))
      | Inr (Some (None, q)) \<Rightarrow>
          Some (bindR (disconnectSession (seSessionID (sess n i)) False (putS i ((sess n i)\<lparr>seRecvBuffer := q\<rparr>) n))
                  (\<lambda>n. Inr (True, n)))
      | Inr (Some (Some msg, q)) \<Rightarrow>
          (case callback app (OnRecv msg) (putS i ((sess n i)\<lparr>seRecvBuffer := q\<rparr>) n) of
             Inl e \<Rightarrow> Some (Inl e)
           | Inr n \<Rightarrow> recvLoop app i (n\<lparr>nlRecvCnt := nlRecvCnt n + 1\<rparr>)))"

text \<open>\<open>bs\<close> are the bytes the completed operation has put into the buffers.\<close>

definition completeRecv :: "'a app \<Rightarrow> nat \<Rightarrow> byte list \<Rightarrow> 'a netlib \<Rightarrow> 'a netlib res" where
  "completeRecv app i bs n =
     bindR (received bs (seRecvBuffer (sess n i))) (\<lambda>q.
     bindR (MoveRear (int (length bs)) q) (\<lambda>q.
     bindR (case recvLoop app i (putS i ((sess n i)\<lparr>seRecvBuffer := q\<rparr>) n) of
              None \<Rightarrow> Inl NoReturn | Some r \<Rightarrow> r) (\<lambda>(returned, n).
     if returned then Inr n else registerRecv i n)))"

definition completeSend :: "'a app \<Rightarrow> nat \<Rightarrow> 'a netlib \<Rightarrow> 'a netlib res" where
  "completeSend app i n =
     (let n = n\<lparr>nlSendCnt := nlSendCnt n + int (length (seSendMsgs (sess n i)))\<rparr>
      in bindR (foldR (\<lambda>msg. callback app (OnSend msg)) (seSendMsgs (sess n i)) n) (\<lambda>n.
         registerSend i (putS i ((sess n i)\<lparr>seSendMsgs := []\<rparr>) n)))"

subsection \<open>Accepting and releasing\<close>

definition registerAcceptEx :: "'a netlib \<Rightarrow> 'a netlib" where
  "registerAcceptEx n =
     (case nlStack n of
        [] \<Rightarrow> n
      | slot # rest \<Rightarrow>
          let n = n\<lparr>nlStack := rest\<rparr> in
          if \<not> nlOn n then n
          else let n = n\<lparr>nlSeqID := wrap64 (nlSeqID n + 1)\<rparr>;
                   n = putS slot ((sess n slot)\<lparr>seSessionID := seqAndIdx slot (nlSeqID n)\<rparr>) n
               in case ask n of (err, n) \<Rightarrow>
                    if err \<noteq> 0 \<and> err \<noteq> 997 then n\<lparr>nlStack := slot # nlStack n\<rparr>
                    else let n = pend slot COMPLETE_ACCEPT (putS slot ((sess n slot)\<lparr>seIOcnt := 1\<rparr>) n)
                         in n\<lparr>nlActiveSlotCnt := nlActiveSlotCnt n + 1\<rparr>)"

definition completeAcceptEx :: "'a app \<Rightarrow> nat \<Rightarrow> 'a netlib \<Rightarrow> 'a netlib res" where
  "completeAcceptEx app i n =
     (if \<not> nlOn n then Inr n
      else let n = n\<lparr>nlAcceptCnt := nlAcceptCnt n + 1, nlSessionCnt := nlSessionCnt n + 1\<rparr>;
               n = putS i ((sess n i)\<lparr>seLive := True, seAccepted := True\<rparr>) n
           in assertR (seSendMsgs (sess n i) = [])
                (bindR (callback app (OnAccept (seSessionID (sess n i))) n) (registerRecv i)))"

definition ReleaseSession :: "session \<Rightarrow> session" where
  "ReleaseSession x = x\<lparr>seSendQ := [], seSenqQSize := wrap16 (seSenqQSize x - int (length (seSendQ x))),
     seSendMsgs := [], seSendFlag := False, seRecvBuffer := ClearBuffer (seRecvBuffer x), seAccepted := False\<rparr>"

definition completeRelease :: "'a app \<Rightarrow> nat \<Rightarrow> 'a netlib \<Rightarrow> 'a netlib res" where
  "completeRelease app i n =
     bindR (if seAccepted (sess n i)
            then bindR (callback app (OnRelease (seSessionID (sess n i))) n) (\<lambda>n.
                 let n = n\<lparr>nlSessionCnt := nlSessionCnt n - 1\<rparr>
                 in assertR (0 \<le> nlSessionCnt n) (Inr n))
            else Inr n) (\<lambda>n.
     let n = n\<lparr>nlActiveSlotCnt := nlActiveSlotCnt n - 1\<rparr>; x = ReleaseSession (sess n i)
     in assertR (seSenqQSize x = 0)
          (let n = putS i x n
           in Inr (registerAcceptEx (n\<lparr>nlStack := nat (seqIdx (seSessionID x)) # nlStack n\<rparr>))))"

subsection \<open>A turn of a worker\<close>

text \<open>
  The packet \<open>(i, c)\<close> has been taken off the completion port; for a receive, \<open>bs\<close> is what arrived,
  and nothing means that the client has closed.
\<close>

definition worker :: "'a app \<Rightarrow> nat \<Rightarrow> eComplete \<Rightarrow> byte list \<Rightarrow> 'a netlib \<Rightarrow> 'a netlib res" where
  "worker app i c bs n =
     (if c = COMPLETE_RELEASE then completeRelease app i n
      else bindR (case c of
            COMPLETE_ACCEPT \<Rightarrow> completeAcceptEx app i n
          | COMPLETE_RECV \<Rightarrow>
              if bs = [] then Inr (putS i ((sess n i)\<lparr>seLive := False\<rparr>) n)
              else completeRecv app i bs n
          | COMPLETE_SEND \<Rightarrow> completeSend app i n
          | _ \<Rightarrow> Inl DebugBreak) (\<lambda>n.
        let n = decIO i n
        in Inr (if seIOcnt (sess n i) = 0 then tryRelease i n else n)))"

definition newNetlib :: "int \<Rightarrow> (nat \<Rightarrow> int) \<Rightarrow> 'a \<Rightarrow> 'a netlib" where
  "newNetlib now os a =
     fold (\<lambda>idx n. registerAcceptEx (n\<lparr>nlStack := idx # nlStack n\<rparr>)) [0..<CONFIG_SESSION_MAX]
       \<lparr> nlOn = True, nlSessions = (\<lambda>_. newSession), nlStack = [], nlSeqID = - 1, nlNow = now, nlOs = os,
         nlPending = [], nlPosted = [], nlAcceptCnt = 0, nlSendCnt = 0, nlRecvCnt = 0, nlDisConnect = 0,
         nlSessionCnt = 0, nlActiveSlotCnt = 0, nlApp = a \<rparr>"

end
