(* ===== verification/NetStream.thy ===== *)
theory NetStream
  imports Session
begin

text \<open>
  From bytes to packets: what \<open>NetworkLib::completeRecv\<close> makes of the stream. \<open>deframe\<close> is the
  specification on plain byte lists; the lemmas show that the loop over the ring implements it, and
  that how the stream was cut into pieces does not matter.
\<close>

subsection \<open>The specification\<close>

text \<open>The flag says that a header with a length of 0 or less was met; no packet is taken from there on.\<close>

function deframe :: "byte list \<Rightarrow> bool \<times> (int \<times> byte list) list \<times> byte list" where
  "deframe bs =
     (if length bs \<le> 3 then (False, [], bs)
      else let h = headerOf bs in
           if hLen h \<le> 0 then (True, [], bs)
           else if length bs < 3 + nat (hLen h) then (False, [], bs)
           else case deframe (drop (3 + nat (hLen h)) bs) of (bad, ms, rest) \<Rightarrow>
                  (bad, (hRandKey h, take (nat (hLen h)) (drop 3 bs)) # ms, rest))"
  by pat_completeness auto
termination
  by (relation "measure length") auto

declare deframe.simps [simp del]

lemma headerOf_append: "3 \<le> length bs \<Longrightarrow> headerOf (bs @ cs) = headerOf bs"
  by (simp add: headerOf_def)

lemma headerOf_take: "3 \<le> length bs \<Longrightarrow> headerOf (take 3 bs) = headerOf bs"
  by (simp add: headerOf_def drop_take)

text \<open>The cut between two pieces of the stream does not matter, wherever it falls.\<close>

lemma deframe_append:
  "deframe (a @ b) = (case deframe a of (bad, ms, rest) \<Rightarrow>
     if bad then (True, ms, rest @ b)
     else case deframe (rest @ b) of (bad, ms', rest') \<Rightarrow> (bad, ms @ ms', rest'))"
proof (induction a rule: deframe.induct)
  case (1 a)
  define L where "L = nat (hLen (headerOf a))"
  consider "length a \<le> 3" | "3 < length a" "hLen (headerOf a) \<le> 0"
    | "3 < length a" "0 < hLen (headerOf a)" "length a < 3 + L"
    | (full) "3 < length a" "0 < hLen (headerOf a)" "3 + L \<le> length a" by linarith
  then show ?case
  proof cases
    case full
    then have ih: "deframe (drop (3 + L) a @ b) = (case deframe (drop (3 + L) a) of (bad, ms, rest) \<Rightarrow>
        if bad then (True, ms, rest @ b)
        else case deframe (rest @ b) of (bad, ms', rest') \<Rightarrow> (bad, ms @ ms', rest'))"
      using 1 by (simp add: L_def)
    have h: "headerOf (a @ b) = headerOf a" using full(1) by (simp add: headerOf_append)
    have lhs: "deframe (a @ b) = (case deframe (drop (3 + L) a @ b) of (bad, ms, rest) \<Rightarrow>
        (bad, (hRandKey (headerOf a), take L (drop 3 a)) # ms, rest))"
      using full by (subst deframe.simps) (simp add: h L_def Let_def)
    have rhs: "deframe a = (case deframe (drop (3 + L) a) of (bad, ms, rest) \<Rightarrow>
        (bad, (hRandKey (headerOf a), take L (drop 3 a)) # ms, rest))"
      using full by (subst deframe.simps) (simp add: L_def Let_def)
    show ?thesis unfolding lhs rhs ih by (auto split: prod.splits if_splits)
  next
    case 2
    then have "deframe a = (True, [], a)" by (subst deframe.simps) simp
    moreover have "deframe (a @ b) = (True, [], a @ b)"
      using 2 by (subst deframe.simps) (simp add: headerOf_append)
    ultimately show ?thesis by simp
  qed (subst (2) deframe.simps; simp add: L_def)+
qed

text \<open>What the sender framed comes out again, packet by packet.\<close>

definition frame :: "int \<times> byte list \<Rightarrow> byte list" where
  "frame m = headerBytes \<lparr> hLen = int (length (snd m)), hRandKey = fst m \<rparr> @ snd m"

lemma deframe_frame:
  assumes "snd m \<noteq> []" "length (snd m) < 32768" "- 128 \<le> fst m" "fst m < 128"
  shows "deframe (frame m @ bs) = (case deframe bs of (bad, ms, rest) \<Rightarrow> (bad, m # ms, rest))"
proof -
  have ok: "header_ok \<lparr> hLen = int (length (snd m)), hRandKey = fst m \<rparr>"
    using assms by (simp add: header_ok_def)
  have h: "headerOf (frame m @ bs) = \<lparr> hLen = int (length (snd m)), hRandKey = fst m \<rparr>"
    using headerOf_headerBytes [OF ok] by (simp add: frame_def del: headerBytes_def)
  have l: "length (headerBytes \<lparr> hLen = int (length (snd m)), hRandKey = fst m \<rparr>) = 3"
    by (simp add: headerBytes_def del: enc.simps)
  show ?thesis using assms l h
    by (subst deframe.simps) (simp add: Let_def, simp add: frame_def)
qed

lemma deframe_length: "length (snd (snd (deframe bs))) \<le> length bs"
proof (induction bs rule: deframe.induct)
  case (1 bs)
  show ?case
  proof (cases "length bs \<le> 3 \<or> hLen (headerOf bs) \<le> 0 \<or> length bs < 3 + nat (hLen (headerOf bs))")
    case True
    then show ?thesis by (subst deframe.simps) (auto simp: Let_def)
  next
    case False
    then have "length (snd (snd (deframe (drop (3 + nat (hLen (headerOf bs))) bs)))) \<le> length bs"
      using 1 [OF _ refl] by (simp add: le_diff_conv)
    then show ?thesis using False by (subst deframe.simps) (auto simp: Let_def split: prod.splits)
  qed
qed

lemma deframe_frames:
  assumes "\<forall>m \<in> set ms. snd m \<noteq> [] \<and> length (snd m) < 32768 \<and> - 128 \<le> fst m \<and> fst m < 128"
  shows "deframe (concat (map frame ms)) = (False, ms, [])"
  using assms
proof (induction ms)
  case Nil
  then show ?case by (subst deframe.simps) simp
next
  case (Cons m ms)
  then show ?case by (simp add: deframe_frame)
qed

subsection \<open>The ring\<close>

lemma received_content:
  assumes "ring_wf q" "length (content q) + length bs \<le> capacity"
  shows "\<exists>q'. bindR (received bs q) (MoveRear (int (length bs))) = Inr q' \<and> ring_wf q' \<and>
    content q' = content q @ bs"
proof -
  have fr: "int (length bs) \<le> GetFreeSize (rgFront q) (rgRear q)"
    using assms freeSize_content [OF assms(1)] by simp
  have d: "0 \<le> GetDirectFreeSize (rgFront q) (rgRear q)"
    using assms(1) by (auto simp: GetDirectFreeSize_def ring_wf_def)
  have "Enqueue bs (int (length bs)) q = bindR (received bs q) (MoveRear (int (length bs)))"
  proof (cases "int (length bs) \<le> GetDirectFreeSize (rgFront q) (rgRear q)")
    case True
    then have "length bs \<le> nat (GetDirectFreeSize (rgFront q) (rgRear q))" by simp
    then show ?thesis using True fr
      by (cases "copyIn (rgBuffer q) (rgRear q) bs")
        (auto simp: Enqueue_def received_def recvBufs_def Let_def bindR_def)
  next
    case False
    then have "GetFreeSize (rgFront q) (rgRear q) \<noteq> GetDirectFreeSize (rgFront q) (rgRear q)"
      and l: "length bs \<le> nat (GetDirectFreeSize (rgFront q) (rgRear q)) +
        nat (GetFreeSize (rgFront q) (rgRear q) - GetDirectFreeSize (rgFront q) (rgRear q))"
      using fr d by auto
    moreover have "nat (int (length bs) - GetDirectFreeSize (rgFront q) (rgRear q)) =
        length bs - nat (GetDirectFreeSize (rgFront q) (rgRear q))" using d by (simp add: nat_diff_distrib)
    ultimately show ?thesis using False fr d
      by (auto simp: Enqueue_def received_def recvBufs_def Let_def bindR_assoc bindR_def split: sum.splits)
  qed
  then show ?thesis using Enqueue_content [OF assms] by simp
qed

text \<open>One message off the ring.\<close>

definition theMessage :: "int \<Rightarrow> int \<Rightarrow> int \<times> byte list \<Rightarrow> message" where
  "theMessage now sid m = (InitMessage now sid (fst m))\<lparr>mBuf := snd m\<rparr>"

lemma putData_two:
  "bindR (PutData a m) (PutData b) = PutData (a @ b) m"
  by (auto simp: PutData_def mRear_def)

lemma copyPayload_eq:
  assumes "ring_wf q" "n \<le> length (content q)"
  shows "copyPayload (int n) q msg = PutData (take n (content q)) msg"
proof (cases "GetDirectUseSize (rgFront q) (rgRear q) < int n")
  case True
  then obtain xs ys where xy:
      "copyOut (rgBuffer q) (rgFront q) (nat (GetDirectUseSize (rgFront q) (rgRear q))) = Inr xs"
      "copyOut (rgBuffer q) 0 (nat (int n - GetDirectUseSize (rgFront q) (rgRear q))) = Inr ys"
      "xs @ ys = take n (content q)"
    using take_content [OF assms] by (auto simp: copyFront_def bindR_Inr_iff)
  then show ?thesis using True putData_two [of xs _ ys] by (simp add: copyPayload_def Let_def flip: xy(3))
next
  case False
  then show ?thesis using take_content [OF assms] by (simp add: copyPayload_def copyFront_def Let_def)
qed

lemma takeMessage_spec:
  fixes q
  defines "bs \<equiv> content q"
  assumes wf: "ring_wf q"
  shows "takeMessage now sid q =
    (if length bs \<le> 3 then Inr None
     else let h = headerOf bs in
          if hLen h \<le> 0 then Inr (Some (None, q))
          else if length bs < 3 + nat (hLen h) then Inr None
          else if 6000 < hLen h then Inl NotEnoughSpace
          else Inr (Some (Some (theMessage now sid (hRandKey h, take (nat (hLen h)) (drop 3 bs))),
                 MoveFront (hLen h) (MoveFront 3 q))))"
    and "3 \<le> length bs \<Longrightarrow> 0 \<le> l \<Longrightarrow> 3 + nat l \<le> length bs \<Longrightarrow>
      ring_wf (MoveFront l (MoveFront 3 q)) \<and> content (MoveFront l (MoveFront 3 q)) = drop (3 + nat l) bs"
proof -
  have use: "GetUseSize (rgFront q) (rgRear q) = int (length bs)"
    using useSize_content [OF wf] by (simp add: bs_def)
  show 2: "ring_wf (MoveFront l (MoveFront 3 q)) \<and> content (MoveFront l (MoveFront 3 q)) = drop (3 + nat l) bs"
    if "3 \<le> length bs" "0 \<le> l" "3 + nat l \<le> length bs" for l
    using drop_content [OF wf, of 3] drop_content [of "MoveFront 3 q" "nat l"] that
    by (simp add: bs_def add.commute)
  show "takeMessage now sid q = (if length bs \<le> 3 then Inr None else let h = headerOf bs in
      if hLen h \<le> 0 then Inr (Some (None, q))
      else if length bs < 3 + nat (hLen h) then Inr None
      else if 6000 < hLen h then Inl NotEnoughSpace
      else Inr (Some (Some (theMessage now sid (hRandKey h, take (nat (hLen h)) (drop 3 bs))),
             MoveFront (hLen h) (MoveFront 3 q))))"
  proof (cases "length bs \<le> 3")
    case False
    define h where "h = headerOf bs"
    have hb: "headerOf (take 3 bs) = h" using False by (simp add: headerOf_take h_def)
    have pk: "MyRingBuffer.Peek 3 q = Inr (Some (take 3 bs), q)"
      using Peek_content [OF wf, of 3] False by (simp add: bs_def)
    have dq: "Dequeue 3 q = Inr (take 3 bs, MoveFront 3 q)"
      using take_content [OF wf, of 3] use False by (simp add: Dequeue_def bs_def Let_def)
    note q3 = drop_content [OF wf, of 3]
    show ?thesis
    proof (cases "0 < hLen h \<and> 3 + nat (hLen h) \<le> length bs")
      case True
      define n where "n = nat (hLen h)"
      define q' where "q' = MoveFront 3 q"
      have n: "hLen h = int n" "0 < n" "3 + n \<le> length bs" using True by (simp_all add: n_def)
      have wf': "ring_wf q'" and c': "content q' = drop 3 bs"
        using q3 False by (simp_all add: q'_def bs_def)
      have put: "PutData (take n (drop 3 bs)) (InitMessage now sid r) =
          (if 6000 < int n then Inl NotEnoughSpace else Inr (theMessage now sid (r, take n (drop 3 bs))))" for r
        using n by (auto simp: PutData_def InitMessage_def mRear_def BufferSize_def theMessage_def min_def)
      have body: "copyPayload (int n) q' msg = PutData (take n (drop 3 bs)) msg" for msg
        using copyPayload_eq [OF wf', of n] n c' by simp
      show ?thesis using False True n body put
        by (simp add: takeMessage_def use pk hb dq h_def [symmetric] q'_def [symmetric] Let_def)
    next
      case no: False
      have "int (length bs) < hLen h + 3" if "0 < hLen h" using no that by linarith
      then show ?thesis using False no
        by (auto simp: takeMessage_def use pk hb h_def [symmetric] Let_def)
    qed
  qed (simp add: takeMessage_def use)
qed

subsection \<open>The loop\<close>

text \<open>What receiving leaves alone: the ring and the number of every session, the application, the clock.\<close>

definition same_rings :: "'a netlib \<Rightarrow> 'a netlib \<Rightarrow> bool" where
  "same_rings n n' \<longleftrightarrow> nlApp n' = nlApp n \<and> nlNow n' = nlNow n \<and>
     (\<forall>j. seRecvBuffer (sess n' j) = seRecvBuffer (sess n j) \<and> seSessionID (sess n' j) = seSessionID (sess n j))"

lemma same_rings_trans: "same_rings a b \<Longrightarrow> same_rings b c \<Longrightarrow> same_rings a c"
  by (simp add: same_rings_def)

lemma same_rings_basic [simp]:
  "same_rings n n" "same_rings n (incIO i n)" "same_rings n (decIO i n)" "same_rings n (tryRelease i n)"
  "same_rings n (post i c n)" "same_rings n (pend i c n)" "same_rings n (snd (ask n))"
  "same_rings n (putS i ((sess n i)\<lparr>seLive := b\<rparr>) n)"
  by (auto simp: same_rings_def incIO_def decIO_def tryRelease_def post_def pend_def putS_def ask_def)

lemma same_rings_unlock [simp]: "same_rings n (sessionUnLock k n)"
proof -
  have "same_rings n (tryRelease i (decIO i n))" for i
    by (rule same_rings_trans [of _ "decIO i n"]) simp_all
  then show ?thesis by (simp add: sessionUnLock_def Let_def)
qed

definition slot_ok :: "'a netlib \<Rightarrow> nat \<Rightarrow> bool" where
  "slot_ok n i \<longleftrightarrow> i < CONFIG_SESSION_MAX \<and> ring_wf (seRecvBuffer (sess n i)) \<and>
     seqIdx (seSessionID (sess n i)) = int i"

lemma slot_ok_same: "slot_ok n i \<Longrightarrow> same_rings n n' \<Longrightarrow> slot_ok n' i"
  by (simp add: slot_ok_def same_rings_def)

lemma lock_returns:
  assumes "0 \<le> seqIdx k" "seqIdx k < int CONFIG_SESSION_MAX"
  shows "\<exists>b n'. sessionLock k n = Inr (b, n') \<and> same_rings n n'"
proof -
  define i where "i = nat (seqIdx k)"
  have 1: "same_rings n (incIO i n)" by simp
  have 2: "same_rings n (tryRelease i (decIO i (incIO i n)))"
    using same_rings_trans [OF 1 same_rings_trans [OF same_rings_basic(3) [of "incIO i n" i] same_rings_basic(4)]] .
  show ?thesis using assms 1 2 by (auto simp: sessionLock_def Let_def i_def [symmetric])
qed

lemma disconnect_returns:
  assumes "0 \<le> seqIdx k" "seqIdx k < int CONFIG_SESSION_MAX"
  shows "\<exists>n'. disconnectSession k b n = Inr n' \<and> same_rings n n'"
proof -
  obtain l n1 where l: "sessionLock k n = Inr (l, n1)" "same_rings n n1" using lock_returns [OF assms] by blast
  define n2 where "n2 = putS (nat (seqIdx k)) ((sess n1 (nat (seqIdx k)))\<lparr>seLive := False\<rparr>) n1"
  have "same_rings n1 n2" by (simp add: n2_def)
  then have "same_rings n (sessionUnLock k n2)"
    using same_rings_trans [OF l(2) same_rings_trans [OF _ same_rings_unlock]] by blast
  moreover have "same_rings m (m\<lparr>nlDisConnect := c\<rparr>)" for m :: "'a netlib" and c by (simp add: same_rings_def)
  ultimately show ?thesis using l same_rings_trans [of n "sessionUnLock k n2"]
    by (auto simp: disconnectSession_def Let_def n2_def [symmetric])
qed

lemma issue_same [simp]: "same_rings n (issue i c n)"
proof -
  define n1 where "n1 = snd (ask (incIO i n))"
  have 1: "same_rings n n1" unfolding n1_def by (rule same_rings_trans [OF same_rings_basic(2) same_rings_basic(7)])
  have 2: "same_rings n (pend i c n1)" by (rule same_rings_trans [OF 1 same_rings_basic(6)])
  have 3: "same_rings m (checkAndHandleIoError i e m)" for e and m :: "'a netlib"
    unfolding checkAndHandleIoError_def using same_rings_trans [OF same_rings_basic(8) same_rings_basic(3)] by auto
  show ?thesis using 1 2 same_rings_trans [OF 1 3] same_rings_trans [OF 2 3]
    by (simp add: issue_def case_prod_unfold Let_def n1_def [symmetric])
qed

lemma registerRecv_returns:
  assumes "slot_ok n i"
  shows "\<exists>n'. registerRecv i n = Inr n' \<and> same_rings n n'"
  using assms disconnect_returns [of "seSessionID (sess n i)" False n]
  by (auto simp: registerRecv_def slot_ok_def Let_def)

text \<open>
  An application that makes no calls: any function of the events. \<open>deliver\<close> is the server after the
  packets have been handed to it.
\<close>

definition pureApp :: "(netEvent \<Rightarrow> 'a \<Rightarrow> 'a) \<Rightarrow> 'a app" where
  "pureApp f = (\<lambda>ev a. Inr ([], f ev a))"

definition deliver :: "(netEvent \<Rightarrow> 'a \<Rightarrow> 'a) \<Rightarrow> 'a netlib \<Rightarrow> nat \<Rightarrow> (int \<times> byte list) list \<Rightarrow> 'a \<Rightarrow> 'a" where
  "deliver f n i ms a = fold (\<lambda>m. f (OnRecv (theMessage (nlNow n) (seSessionID (sess n i)) m))) ms a"

lemma callback_pure: "callback (pureApp f) ev n = Inr (n\<lparr>nlApp := f ev (nlApp n)\<rparr>)"
  by (simp add: callback_def pureApp_def)

text \<open>The loop ends, with the packets of the specification delivered and its rest in the ring.\<close>

lemma recvLoop_deframe:
  assumes "slot_ok n i" "deframe (content (seRecvBuffer (sess n i))) = (False, ms, rest)"
    "\<forall>m \<in> set ms. length (snd m) \<le> 6000"
  shows "\<exists>n'. recvLoop (pureApp f) i n = Some (Inr (False, n')) \<and> slot_ok n' i \<and>
    nlApp n' = deliver f n i ms (nlApp n) \<and> content (seRecvBuffer (sess n' i)) = rest \<and>
    nlNow n' = nlNow n \<and> seSessionID (sess n' i) = seSessionID (sess n i)"
  using assms
proof (induction "content (seRecvBuffer (sess n i))" arbitrary: n ms rule: deframe.induct)
  case 1
  define q where "q = seRecvBuffer (sess n i)"
  define bs where "bs = content q"
  define h where "h = headerOf bs"
  have wf: "ring_wf q" using 1(2) by (simp add: slot_ok_def q_def)
  note step = takeMessage_spec(1) [OF wf, of "nlNow n" "seSessionID (sess n i)"]
  have df: "deframe bs = (False, ms, rest)" using 1(3) by (simp add: bs_def q_def)
  show ?case
  proof (cases "3 < length bs \<and> 0 < hLen h \<and> 3 + nat (hLen h) \<le> length bs")
    case False
    then have "deframe bs = (3 < length bs \<and> hLen h \<le> 0, [], bs)"
      by (subst deframe.simps) (auto simp: h_def Let_def)
    with df have r: "ms = []" "rest = bs" "\<not> (3 < length bs \<and> hLen h \<le> 0)" by auto
    then have "takeMessage (nlNow n) (seSessionID (sess n i)) q = Inr None"
      using step False by (auto simp: bs_def [symmetric] h_def [symmetric] Let_def)
    then have "recvLoop (pureApp f) i n = Some (Inr (False, n))"
      by (subst recvLoop.simps) (simp add: q_def)
    then show ?thesis using r 1(2) by (simp add: deliver_def bs_def q_def)
  next
    case True
    define L where "L = nat (hLen h)"
    define m where "m = (hRandKey h, take L (drop 3 bs))"
    define q' where "q' = MoveFront (hLen h) (MoveFront 3 q)"
    obtain ms' where ms': "ms = m # ms'" "deframe (drop (3 + L) bs) = (False, ms', rest)"
      using df True by (subst (asm) deframe.simps) (auto simp: h_def [symmetric] L_def m_def Let_def split: prod.splits)
    have "L \<le> length bs - 3" using True unfolding L_def by linarith
    then have "length (snd m) = L" by (simp add: m_def)
    then have small: "hLen h \<le> 6000" using 1(4) ms'(1) by (simp add: L_def nat_le_iff)
    have tk: "takeMessage (nlNow n) (seSessionID (sess n i)) q =
        Inr (Some (Some (theMessage (nlNow n) (seSessionID (sess n i)) m), q'))"
      using step True small by (auto simp: bs_def [symmetric] h_def [symmetric] L_def m_def q'_def Let_def)
    have q': "ring_wf q'" "content q' = drop (3 + L) bs"
      using takeMessage_spec(2) [OF wf, of "hLen h"] True by (simp_all add: q'_def bs_def L_def)
    define n1 where "n1 = putS i ((sess n i)\<lparr>seRecvBuffer := q'\<rparr>) n"
    define n2 where "n2 = n1\<lparr>nlApp := f (OnRecv (theMessage (nlNow n) (seSessionID (sess n i)) m)) (nlApp n),
        nlRecvCnt := nlRecvCnt n1 + 1\<rparr>"
    have n2: "slot_ok n2 i" "seRecvBuffer (sess n2 i) = q'" "nlNow n2 = nlNow n"
      "seSessionID (sess n2 i) = seSessionID (sess n i)"
      using 1(2) q'(1) by (simp_all add: n2_def n1_def putS_def slot_ok_def)
    have "recvLoop (pureApp f) i n = recvLoop (pureApp f) i n2"
      using tk by (subst recvLoop.simps) (simp add: q_def callback_pure n1_def n2_def putS_def)
    moreover have "\<exists>n'. recvLoop (pureApp f) i n2 = Some (Inr (False, n')) \<and> slot_ok n' i \<and>
        nlApp n' = deliver f n2 i ms' (nlApp n2) \<and> content (seRecvBuffer (sess n' i)) = rest \<and>
        nlNow n' = nlNow n2 \<and> seSessionID (sess n' i) = seSessionID (sess n2 i)"
      by (rule 1(1) [OF _ refl _ _ _ n2(1)])
        (use True q' ms' n2(2) 1(4) in \<open>simp_all add: h_def [symmetric] bs_def [symmetric] q_def [symmetric] L_def\<close>)
    ultimately show ?thesis
      using n2 ms'(1) by (auto simp: deliver_def n2_def)
  qed
qed

subsection \<open>A stream in pieces\<close>

lemma completeRecv_deframe:
  assumes "slot_ok n i" "length (content (seRecvBuffer (sess n i))) + length bs \<le> capacity"
    "deframe (content (seRecvBuffer (sess n i)) @ bs) = (False, ms, rest)"
    "\<forall>m \<in> set ms. length (snd m) \<le> 6000"
  shows "\<exists>n'. completeRecv (pureApp f) i bs n = Inr n' \<and> slot_ok n' i \<and>
    nlApp n' = deliver f n i ms (nlApp n) \<and> content (seRecvBuffer (sess n' i)) = rest \<and>
    nlNow n' = nlNow n \<and> seSessionID (sess n' i) = seSessionID (sess n i)"
proof -
  have wf: "ring_wf (seRecvBuffer (sess n i))" using assms(1) by (simp add: slot_ok_def)
  obtain q0 q where q: "received bs (seRecvBuffer (sess n i)) = Inr q0" "MoveRear (int (length bs)) q0 = Inr q"
      "ring_wf q" "content q = content (seRecvBuffer (sess n i)) @ bs"
    using received_content [OF wf assms(2)] by (auto simp: bindR_Inr_iff)
  define n1 where "n1 = putS i ((sess n i)\<lparr>seRecvBuffer := q\<rparr>) n"
  have n1: "slot_ok n1 i" "seRecvBuffer (sess n1 i) = q" "nlNow n1 = nlNow n" "nlApp n1 = nlApp n"
    "seSessionID (sess n1 i) = seSessionID (sess n i)"
    using assms(1) q(3) by (simp_all add: n1_def putS_def slot_ok_def)
  have d: "deframe (content (seRecvBuffer (sess n1 i))) = (False, ms, rest)" using assms(3) q(4) n1 by simp
  obtain n2 where n2: "recvLoop (pureApp f) i n1 = Some (Inr (False, n2))" "slot_ok n2 i"
      "nlApp n2 = deliver f n1 i ms (nlApp n1)" "content (seRecvBuffer (sess n2 i)) = rest"
      "nlNow n2 = nlNow n1" "seSessionID (sess n2 i) = seSessionID (sess n1 i)"
    using recvLoop_deframe [OF n1(1) d assms(4)] by blast
  obtain n3 where n3: "registerRecv i n2 = Inr n3" "same_rings n2 n3" using registerRecv_returns [OF n2(2)] by blast
  have "completeRecv (pureApp f) i bs n = Inr n3"
    using q n2(1) n3(1) by (simp add: completeRecv_def n1_def [symmetric])
  then show ?thesis using n1 n2 n3(2) slot_ok_same [OF n2(2) n3(2)]
    by (auto simp: deliver_def same_rings_def)
qed

text \<open>The pieces fit: no completion brings more than the ring has room for.\<close>

fun fitting :: "byte list \<Rightarrow> byte list list \<Rightarrow> bool" where
  "fitting rest [] = True"
| "fitting rest (p # ps) \<longleftrightarrow> length rest + length p \<le> capacity \<and> fitting (snd (snd (deframe (rest @ p)))) ps"

lemma deframe_rest: "deframe bs = (False, ms, rest) \<Longrightarrow> deframe rest = (False, [], rest)"
proof (induction bs arbitrary: ms rule: deframe.induct)
  case (1 bs)
  show ?case
  proof (cases "3 < length bs \<and> 0 < hLen (headerOf bs) \<and> 3 + nat (hLen (headerOf bs)) \<le> length bs")
    case True
    then obtain ms' where "deframe (drop (3 + nat (hLen (headerOf bs))) bs) = (False, ms', rest)"
      using 1(2) by (subst (asm) deframe.simps) (auto simp: Let_def split: prod.splits)
    then show ?thesis using 1(1) [OF _ refl] True by auto
  next
    case False
    then have "deframe bs = (3 < length bs \<and> hLen (headerOf bs) \<le> 0, [], bs)"
      by (subst deframe.simps) (auto simp: Let_def)
    then show ?thesis using 1(2) by auto
  qed
qed

lemma deframe_split:
  assumes "deframe (a @ b) = (False, ms, rest)"
  obtains ms1 r1 ms2 where "deframe a = (False, ms1, r1)" "deframe (r1 @ b) = (False, ms2, rest)" "ms = ms1 @ ms2"
  using assms deframe_append [of a b] by (auto split: prod.splits if_splits)

lemma pieces_deframe:
  assumes "slot_ok n i" "content (seRecvBuffer (sess n i)) = c" "deframe c = (False, [], c)" "fitting c pieces"
    "deframe (c @ concat pieces) = (False, ms, rest)" "\<forall>m \<in> set ms. length (snd m) \<le> 6000"
  shows "\<exists>n'. foldR (completeRecv (pureApp f) i) pieces n = Inr n' \<and> slot_ok n' i \<and>
    nlApp n' = deliver f n i ms (nlApp n) \<and> content (seRecvBuffer (sess n' i)) = rest"
  using assms
proof (induction pieces arbitrary: n c ms)
  case Nil
  then show ?case by (simp add: deliver_def)
next
  case (Cons p ps)
  obtain ms1 r1 ms2 where d: "deframe (c @ p) = (False, ms1, r1)"
      "deframe (r1 @ concat ps) = (False, ms2, rest)" "ms = ms1 @ ms2"
    by (rule deframe_split [of "c @ p" "concat ps" ms rest]) (use Cons.prems(5) in simp_all)
  have small: "\<forall>m \<in> set ms1. length (snd m) \<le> 6000" "\<forall>m \<in> set ms2. length (snd m) \<le> 6000"
    using Cons.prems(6) d(3) by simp_all
  have fit: "length (content (seRecvBuffer (sess n i))) + length p \<le> capacity" "fitting r1 ps"
    using Cons.prems(2,4) d(1) by simp_all
  obtain n1 where n1: "completeRecv (pureApp f) i p n = Inr n1" "slot_ok n1 i"
      "nlApp n1 = deliver f n i ms1 (nlApp n)" "content (seRecvBuffer (sess n1 i)) = r1"
      "nlNow n1 = nlNow n" "seSessionID (sess n1 i) = seSessionID (sess n i)"
    using completeRecv_deframe [OF Cons.prems(1) fit(1) _ small(1), of r1 f] d(1) Cons.prems(2) by auto
  obtain n2 where "foldR (completeRecv (pureApp f) i) ps n1 = Inr n2" "slot_ok n2 i"
      "nlApp n2 = deliver f n1 i ms2 (nlApp n1)" "content (seRecvBuffer (sess n2 i)) = rest"
    using Cons.IH [OF n1(2,4) deframe_rest [OF d(1)] fit(2) d(2) small(2)] by blast
  then show ?case using n1 d(3) by (auto simp: deliver_def)
qed

end
