(* ===== verification/NetLife.thy ===== *)
theory NetLife
  imports NetStream
begin

text \<open>
  The life of the sessions of the network library under every order of completions and calls: a step
  relation whose steps are the turns of the workers and the calls of the other threads, and the
  invariant of the counts of operations by which a slot is released once and only when nothing of the
  operating system refers to it any more.
\<close>

subsection \<open>Operations outstanding\<close>

definition opCnt :: "eComplete \<Rightarrow> nat \<Rightarrow> 'a netlib \<Rightarrow> nat" where
  "opCnt c i n = count_list (nlPending n) (i, c) + count_list (nlPosted n) (i, c)"

definition freeCnt :: "nat \<Rightarrow> 'a netlib \<Rightarrow> nat" where
  "freeCnt i n = count_list (nlStack n) i"

lemma count_list_snoc [simp]: "count_list (xs @ [x]) y = count_list xs y + (if x = y then 1 else 0)"
  by (induction xs) auto

lemma count_list_remove1: "x \<in> set xs \<Longrightarrow> count_list (remove1 x xs) y = count_list xs y - (if x = y then 1 else 0)"
  by (induction xs) (auto simp: count_list_0_iff)

lemma sess_putS [simp]: "sess (putS i x n) j = (if j = i then x else sess n j)"
  by (simp add: putS_def)

lemma sess_frames [simp]:
  "sess (post i c n) j = sess n j" "sess (pend i c n) j = sess n j" "sess (snd (ask n)) j = sess n j"
  by (simp_all add: post_def pend_def ask_def)

lemma opCnt_frames [simp]:
  "opCnt c i (putS j x n) = opCnt c i n" "opCnt c i (snd (ask n)) = opCnt c i n"
  "opCnt c i (post j d n) = opCnt c i n + (if (j, d) = (i, c) then 1 else 0)"
  "opCnt c i (pend j d n) = opCnt c i n + (if (j, d) = (i, c) then 1 else 0)"
  by (simp_all add: opCnt_def putS_def ask_def post_def pend_def)

lemma freeCnt_frames [simp]:
  "freeCnt i (putS j x n) = freeCnt i n" "freeCnt i (snd (ask n)) = freeCnt i n"
  "freeCnt i (post j d n) = freeCnt i n" "freeCnt i (pend j d n) = freeCnt i n"
  by (simp_all add: freeCnt_def putS_def ask_def post_def pend_def)

text \<open>What a step on slot \<open>i\<close> leaves alone.\<close>

definition only :: "nat \<Rightarrow> 'a netlib \<Rightarrow> 'a netlib \<Rightarrow> bool" where
  "only i n n' \<longleftrightarrow> (\<forall>j. j \<noteq> i \<longrightarrow> sess n' j = sess n j \<and> (\<forall>c. opCnt c j n' = opCnt c j n) \<and>
     freeCnt j n' = freeCnt j n)"

lemma only_trans: "only i a b \<Longrightarrow> only i b c \<Longrightarrow> only i a c"
  by (simp add: only_def)

lemma only_basic [simp]:
  "only i n n" "only i n (putS i x n)" "only i n (post i c n)" "only i n (pend i c n)"
  "only i n (snd (ask n))" "only i n (incIO i n)" "only i n (decIO i n)" "only i n (tryRelease i n)"
  by (auto simp: only_def incIO_def decIO_def tryRelease_def)

subsection \<open>The invariant of a slot\<close>

text \<open>
  \<open>R\<close> and \<open>S\<close> are 1 while the receiving (or accepting) and the sending side of the session hold a
  count, \<open>H\<close> is what threads at work hold. An operation that the operating system has refused with an
  error the library does not know keeps its count for ever, so there may be less outstanding than is
  counted.
\<close>

definition in_use :: "nat \<Rightarrow> 'a netlib \<Rightarrow> nat \<Rightarrow> nat \<Rightarrow> nat \<Rightarrow> bool" where
  "in_use i n R S H \<longleftrightarrow>
     seqIdx (seSessionID (sess n i)) = int i \<and> ring_wf (seRecvBuffer (sess n i)) \<and>
     seIOcnt (sess n i) = int (R + S + H) \<and> R \<le> 1 \<and> S \<le> 1 \<and> H \<le> 2 \<and>
     opCnt COMPLETE_ACCEPT i n + opCnt COMPLETE_RECV i n \<le> R \<and> opCnt COMPLETE_SEND i n \<le> S \<and>
     opCnt COMPLETE_RELEASE i n = 0 \<and> freeCnt i n = 0 \<and>
     (\<not> seSendFlag (sess n i) \<longrightarrow> S = 0 \<and> seSendMsgs (sess n i) = []) \<and>
     (\<not> seAccepted (sess n i) \<longrightarrow> \<not> seSendFlag (sess n i) \<and> seSendQ (sess n i) = []) \<and>
     (opCnt COMPLETE_ACCEPT i n = 1 \<longrightarrow> \<not> seAccepted (sess n i)) \<and>
     seSenqQSize (sess n i) = int (length (seSendQ (sess n i))) \<and> length (seSendQ (sess n i)) < 32768 \<and>
     (\<forall>msg \<in> set (seSendQ (sess n i)). mOwnerID msg = seSessionID (sess n i)) \<and>
     (\<forall>msg \<in> set (seSendMsgs (sess n i)). mOwnerID msg = seSessionID (sess n i))"

definition released :: "nat \<Rightarrow> 'a netlib \<Rightarrow> nat \<Rightarrow> bool" where
  "released i n z \<longleftrightarrow>
     seqIdx (seSessionID (sess n i)) = int i \<and> ring_wf (seRecvBuffer (sess n i)) \<and>
     16384 \<le> seIOcnt (sess n i) \<and> seIOcnt (sess n i) < 32768 \<and>
     opCnt COMPLETE_ACCEPT i n = 0 \<and> opCnt COMPLETE_RECV i n = 0 \<and> opCnt COMPLETE_SEND i n = 0 \<and>
     opCnt COMPLETE_RELEASE i n + freeCnt i n = z \<and>
     (freeCnt i n = 1 \<longrightarrow> \<not> seSendFlag (sess n i) \<and> seSendMsgs (sess n i) = [] \<and> seSendQ (sess n i) = [] \<and>
        \<not> seAccepted (sess n i)) \<and>
     seSenqQSize (sess n i) = int (length (seSendQ (sess n i))) \<and> length (seSendQ (sess n i)) < 32768"

definition slot_inv :: "nat \<Rightarrow> 'a netlib \<Rightarrow> bool" where
  "slot_inv i n \<longleftrightarrow> (\<exists>R S. 0 < R + S \<and> in_use i n R S 0) \<or> released i n 1"

lemma slot_inv_only: "slot_inv j n \<Longrightarrow> only i n n' \<Longrightarrow> j \<noteq> i \<Longrightarrow> slot_inv j n'"
  by (simp add: slot_inv_def in_use_def released_def only_def)

lemma in_use_slot: "in_use i n R S H \<Longrightarrow> i < CONFIG_SESSION_MAX \<Longrightarrow> slot_ok n i"
  by (simp add: in_use_def slot_ok_def)

subsection \<open>Counting\<close>

lemma incIO_in_use:
  assumes "in_use i n R S H" "H < 2"
  shows "in_use i (incIO i n) R S (Suc H)" "\<not> releasing (seIOcnt (sess (incIO i n) i))"
proof -
  have "wrap16 (seIOcnt (sess n i) + 1) = int (R + S + Suc H)"
    using assms by (simp add: in_use_def wrap16_id)
  then show "in_use i (incIO i n) R S (Suc H)" using assms by (simp add: in_use_def incIO_def)
  show "\<not> releasing (seIOcnt (sess (incIO i n) i))"
    using assms \<open>wrap16 _ = _\<close> by (simp add: in_use_def incIO_def releasing_def RELEASE_IOCOUNT_def)
qed

lemma decIO_in_use:
  assumes "in_use i n R S (Suc H)"
  shows "in_use i (decIO i n) R S H" "seIOcnt (sess (decIO i n) i) = int (R + S + H)"
proof -
  have w: "wrap16 (seIOcnt (sess n i) - 1) = int (R + S + H)"
    using assms by (simp add: in_use_def wrap16_id)
  then show "in_use i (decIO i n) R S H" "seIOcnt (sess (decIO i n) i) = int (R + S + H)"
    using assms by (simp_all add: in_use_def decIO_def)
qed

text \<open>The end of a turn or of a call: the slot stays in use, or its release is posted, once.\<close>

lemma tryRelease_inv:
  assumes "in_use i n R S 0"
  shows "slot_inv i (tryRelease i n)"
proof (cases "R + S = 0")
  case True
  then have "released i (tryRelease i n) 1"
    using assms by (simp add: in_use_def released_def tryRelease_def RELEASE_IOCOUNT_def)
  then show ?thesis by (simp add: slot_inv_def)
next
  case False
  then have "seIOcnt (sess n i) \<noteq> 0" using assms unfolding in_use_def by linarith
  then have "tryRelease i n = n" by (simp add: tryRelease_def)
  then show ?thesis using False assms unfolding slot_inv_def by (metis neq0_conv)
qed

lemma unlock_in_use:
  assumes "in_use i n R S (Suc H)" "i = nat (seqIdx k)" "0 < R + S + H"
  shows "sessionUnLock k n = decIO i n"
proof -
  have "seIOcnt (sess (decIO i n) i) \<noteq> 0" using decIO_in_use(2) [OF assms(1)] assms(3) by linarith
  then show ?thesis by (simp add: sessionUnLock_def assms(2) [symmetric] Let_def)
qed

lemma unlock_inv:
  assumes "in_use i n R S 1" "i = nat (seqIdx k)"
  shows "slot_inv i (sessionUnLock k n)"
proof -
  have u: "in_use i (decIO i n) R S 0" "seIOcnt (sess (decIO i n) i) = int (R + S)"
    using decIO_in_use [of i n R S 0] assms(1) by simp_all
  show ?thesis
  proof (cases "R + S = 0")
    case True
    then show ?thesis using u assms(2) tryRelease_inv [OF u(1)] by (simp add: sessionUnLock_def Let_def)
  next
    case False
    then show ?thesis using u assms(2) by (auto simp: sessionUnLock_def Let_def slot_inv_def)
  qed
qed

subsection \<open>Turns\<close>

text \<open>
  What holds between the state before and after a part of a turn on slot \<open>i\<close>: the other slots are
  as they were, and the number of sessions goes with the flag \<open>mAccepted\<close> of the slot.
\<close>

definition turn :: "nat \<Rightarrow> 'a netlib \<Rightarrow> 'a netlib \<Rightarrow> bool" where
  "turn i n n' \<longleftrightarrow> only i n n' \<and> nlOn n' = nlOn n \<and>
     nlSessionCnt n' - of_bool (seAccepted (sess n' i)) = nlSessionCnt n - of_bool (seAccepted (sess n i))"

lemma turn_refl [simp]: "turn i n n"
  by (simp add: turn_def)

lemma turn_trans: "turn i a b \<Longrightarrow> turn i b c \<Longrightarrow> turn i a c"
  using only_trans [of i a b c] by (simp add: turn_def)

lemma turn_basic [simp]:
  "turn i n (post i c n)" "turn i n (pend i c n)" "turn i n (snd (ask n))" "turn i n (incIO i n)"
  "turn i n (decIO i n)" "turn i n (tryRelease i n)"
  by (simp_all add: turn_def, simp_all add: post_def pend_def ask_def incIO_def decIO_def tryRelease_def putS_def)

lemma turn_putS [simp]: "seAccepted x = seAccepted (sess n i) \<Longrightarrow> turn i n (putS i x n)"
  by (simp add: turn_def) (simp add: putS_def)

lemma turn_counters [simp]:
  "turn i m (n\<lparr>nlApp := a\<rparr>) = turn i m n" "turn i m (n\<lparr>nlDisConnect := c\<rparr>) = turn i m n"
  "turn i m (n\<lparr>nlRecvCnt := c\<rparr>) = turn i m n" "turn i m (n\<lparr>nlSendCnt := c\<rparr>) = turn i m n"
  "turn i m (n\<lparr>nlAcceptCnt := c\<rparr>) = turn i m n"
  by (simp_all add: turn_def only_def opCnt_def freeCnt_def)

subsection \<open>Calls from other threads\<close>

lemma released_inc:
  assumes "released i n z" "seIOcnt (sess n i) + 1 < 32768"
  shows "released i (incIO i n) z" "releasing (seIOcnt (sess (incIO i n) i))"
proof -
  have w: "wrap16 (seIOcnt (sess n i) + 1) = seIOcnt (sess n i) + 1"
    using assms by (simp add: released_def wrap16_id)
  then show "released i (incIO i n) z" using assms by (simp add: released_def incIO_def)
  have "(seIOcnt (sess n i) + 1) div 16384 = 1"
    by (rule int_div_pos_eq [of _ _ _ "seIOcnt (sess n i) - 16383"]) (use assms in \<open>simp_all add: released_def\<close>)
  then show "releasing (seIOcnt (sess (incIO i n) i))"
    by (simp add: incIO_def w releasing_def RELEASE_IOCOUNT_def)
qed

text \<open>The three outcomes of \<open>sessionLock\<close>.\<close>

lemma sessionLock_cases:
  assumes inv: "slot_inv i n" and k: "seqIdx k = int i" "i < CONFIG_SESSION_MAX"
    and room: "seIOcnt (sess n i) + 1 < 32768"
  obtains (locked) R S where "sessionLock k n = Inr (True, incIO i n)" "in_use i (incIO i n) R S 1"
      "0 < R + S" "seSessionID (sess n i) = k"
    | (refused) n' where "sessionLock k n = Inr (False, n')" "slot_inv i n'" "turn i n n'"
proof -
  have lk: "sessionLock k n = (if releasing (seIOcnt (sess (incIO i n) i)) then Inr (False, incIO i n)
      else if seSessionID (sess (incIO i n) i) \<noteq> k then Inr (False, tryRelease i (decIO i (incIO i n)))
      else Inr (True, incIO i n))"
    using k by (simp add: sessionLock_def Let_def)
  have id: "seSessionID (sess (incIO i n) i) = seSessionID (sess n i)" by (simp add: incIO_def)
  consider R S where "0 < R + S" "in_use i n R S 0" | "released i n 1" using inv by (auto simp: slot_inv_def)
  then show ?thesis
  proof cases
    case 1
    note up = incIO_in_use [OF 1(2)]
    show ?thesis
    proof (cases "seSessionID (sess n i) = k")
      case True
      then show ?thesis using lk up id 1 locked by auto
    next
      case False
      have "in_use i (decIO i (incIO i n)) R S 0" using up decIO_in_use(1) by simp
      then have "slot_inv i (tryRelease i (decIO i (incIO i n)))" by (rule tryRelease_inv)
      moreover have "turn i n (tryRelease i (decIO i (incIO i n)))"
        by (rule turn_trans [OF turn_basic(4) turn_trans [OF turn_basic(5) turn_basic(6)]])
      ultimately show ?thesis using lk up id False refused by auto
    qed
  next
    case 2
    then show ?thesis using lk released_inc [OF 2 room] refused [of "incIO i n"] by (auto simp: slot_inv_def)
  qed
qed

lemma counters_inv:
  "slot_inv i (n\<lparr>nlDisConnect := c\<rparr>) = slot_inv i n"
  by (simp_all add: slot_inv_def in_use_def released_def only_def opCnt_def freeCnt_def)

lemma disconnect_inv:
  assumes "slot_inv i n" "seqIdx k = int i" "i < CONFIG_SESSION_MAX" "seIOcnt (sess n i) + 1 < 32768"
  shows "\<exists>n'. disconnectSession k b n = Inr n' \<and> slot_inv i n' \<and> turn i n n'"
  using assms
proof (cases rule: sessionLock_cases)
  case (locked R S)
  have i: "nat (seqIdx k) = i" using assms(2) by simp
  define m where "m = putS i ((sess (incIO i n) i)\<lparr>seLive := False\<rparr>) (incIO i n)"
  have m: "in_use i m R S 1" using locked(2) by (simp add: m_def in_use_def)
  have om: "turn i n m" unfolding m_def by (rule turn_trans [OF turn_basic(4) turn_putS]) simp
  have "sessionUnLock k m = decIO i m"
    by (rule unlock_in_use [of i m R S 0]) (use m locked(3) i in simp_all)
  then have "turn i m (sessionUnLock k m)" by simp
  moreover have "slot_inv i (sessionUnLock k m)" by (rule unlock_inv [OF m]) (simp add: i)
  moreover have "disconnectSession k b n = Inr (if b then sessionUnLock k m
      else (sessionUnLock k m)\<lparr>nlDisConnect := nlDisConnect (sessionUnLock k m) + 1\<rparr>)"
    using locked(1) by (simp add: disconnectSession_def i m_def Let_def)
  ultimately show ?thesis using turn_trans [OF om, of "sessionUnLock k m"] by (cases b) (simp_all add: counters_inv)
next
  case (refused n')
  then show ?thesis by (auto simp: disconnectSession_def)
qed

lemma sendPost_inv:
  assumes inv: "slot_inv i n" and k: "seqIdx k = int i" "i < CONFIG_SESSION_MAX"
    and room: "seIOcnt (sess n i) + 1 < 32768"
    and acc: "seSessionID (sess n i) = k \<Longrightarrow> seAccepted (sess n i)"
    and msg: "mOwnerID msg = k" "length (seSendQ (sess n i)) < 32767"
  shows "\<exists>n'. sendPost k msg n = Inr n' \<and> slot_inv i n' \<and> turn i n n'"
  using inv k room
proof (cases rule: sessionLock_cases)
  case (locked R S)
  have i: "nat (seqIdx k) = i" using k by simp
  define x where "x = EnQueueMsg msg (sess (incIO i n) i)"
  define m where "m = putS i x (incIO i n)"
  have sz: "wrap16 (int (length (seSendQ (sess n i))) + 1) = int (length (seSendQ (sess n i))) + 1"
    using msg(2) by (intro wrap16_id) simp_all
  have f: "seSendQ (sess (incIO i n) i) = seSendQ (sess n i)" "seSessionID (sess (incIO i n) i) = k"
      "seAccepted (sess (incIO i n) i)"
    using acc locked(4) by (simp_all add: incIO_def)
  have m: "in_use i m R S 1" using locked(2) msg sz f unfolding in_use_def m_def x_def
    by (simp add: EnQueueMsg_def)
  have om: "turn i n m" unfolding m_def by (rule turn_trans [OF turn_basic(4) turn_putS]) (simp add: x_def EnQueueMsg_def)
  define p where "p = (if \<not> seSendFlag (sess m i)
      then post i COMPLETE_SEND (incIO i (putS i ((sess m i)\<lparr>seSendFlag := True\<rparr>) m)) else m)"
  have "\<exists>S'. in_use i p R S' 1 \<and> 0 < R + S'" "turn i m p"
  proof -
    show "turn i m p" unfolding p_def
      using turn_trans [OF turn_putS turn_trans [OF turn_basic(4) turn_basic(1)],
        of "(sess m i)\<lparr>seSendFlag := True\<rparr>" m i COMPLETE_SEND] by auto
    show "\<exists>S'. in_use i p R S' 1 \<and> 0 < R + S'"
    proof (cases "seSendFlag (sess m i)")
      case True
      then show ?thesis using m locked(3) by (auto simp: p_def)
    next
      case False
      then have "S = 0" using m by (simp add: in_use_def)
      moreover have w: "wrap16 (seIOcnt (sess m i) + 1) = int (R + S + 2)"
        using m by (simp add: in_use_def wrap16_id)
      moreover have "seAccepted (sess m i)" using acc locked(4) by (simp add: m_def x_def EnQueueMsg_def incIO_def)
      ultimately have "in_use i p R 1 1" using False m by (simp add: p_def in_use_def incIO_def)
      then show ?thesis by auto
    qed
  qed
  then obtain S' where p: "in_use i p R S' 1" "0 < R + S'" "turn i m p" by blast
  have "sessionUnLock k p = decIO i p"
    by (rule unlock_in_use [of i p R S' 0]) (use p(1) p(2) i in simp_all)
  then have "turn i p (sessionUnLock k p)" by simp
  moreover have "slot_inv i (sessionUnLock k p)" by (rule unlock_inv [OF p(1)]) (simp add: i)
  moreover have "sendPost k msg n = Inr (sessionUnLock k p)"
    using locked(1) by (simp add: sendPost_def i m_def x_def p_def Let_def)
  ultimately show ?thesis using turn_trans [OF turn_trans [OF om p(3)]] by blast
next
  case (refused n')
  then show ?thesis by (auto simp: sendPost_def)
qed

lemma in_use_counters [simp]:
  "in_use i (n\<lparr>nlApp := a\<rparr>) R S H = in_use i n R S H" "in_use i (n\<lparr>nlDisConnect := c\<rparr>) R S H = in_use i n R S H"
  "in_use i (n\<lparr>nlRecvCnt := c\<rparr>) R S H = in_use i n R S H" "in_use i (n\<lparr>nlSendCnt := c\<rparr>) R S H = in_use i n R S H"
  "in_use i (n\<lparr>nlAcceptCnt := c\<rparr>) R S H = in_use i n R S H"
  by (simp_all add: in_use_def opCnt_def freeCnt_def)

text \<open>A result that is a state of \<open>P\<close>, or one of the faults of \<open>F\<close>.\<close>

definition fine :: "fault set \<Rightarrow> ('a \<Rightarrow> bool) \<Rightarrow> 'a res \<Rightarrow> bool" where
  "fine F P r = (case r of Inl e \<Rightarrow> e \<in> F | Inr x \<Rightarrow> P x)"

lemma fine_simps [simp]: "fine F P (Inl e) = (e \<in> F)" "fine F P (Inr x) = P x"
  by (simp_all add: fine_def)

lemma fine_bind: "fine F P r \<Longrightarrow> (\<And>x. r = Inr x \<Longrightarrow> P x \<Longrightarrow> fine F Q (f x)) \<Longrightarrow> fine F Q (bindR r f)"
  by (cases r) auto

lemma fine_mono: "fine F P r \<Longrightarrow> F \<subseteq> G \<Longrightarrow> (\<And>x. P x \<Longrightarrow> Q x) \<Longrightarrow> fine G Q r"
  by (cases r) auto

text \<open>A disconnection of its own session by the thread that is at work on it.\<close>

lemma disconnect_held:
  assumes n: "in_use i n R S 1" and k: "seSessionID (sess n i) = k" and i: "i < CONFIG_SESSION_MAX"
  shows "\<exists>n'. disconnectSession k b n = Inr n' \<and> in_use i n' R S 1 \<and> turn i n n' \<and>
    seSessionID (sess n' i) = k \<and> seSendFlag (sess n' i) = seSendFlag (sess n i) \<and>
    seRecvBuffer (sess n' i) = seRecvBuffer (sess n i) \<and> seAccepted (sess n' i) = seAccepted (sess n i)"
proof -
  have id: "seqIdx k = int i" "nat (seqIdx k) = i" using n k by (simp_all add: in_use_def)
  note up = incIO_in_use [OF n, simplified]
  define m where "m = putS i ((sess (incIO i n) i)\<lparr>seLive := False\<rparr>) (incIO i n)"
  have m: "in_use i m R S (Suc (Suc 0))" using up(1) by (simp add: m_def in_use_def)
  have u: "sessionUnLock k m = decIO i m" by (rule unlock_in_use [OF m]) (simp_all add: id)
  have d: "in_use i (decIO i m) R S 1" using decIO_in_use(1) [OF m] by simp
  have "turn i n (incIO i n)" "turn i (incIO i n) m" "turn i m (decIO i m)" by (simp_all add: m_def)
  then have t: "turn i n (decIO i m)" using turn_trans by blast
  have "sessionLock k n = Inr (True, incIO i n)"
    using up i id k by (simp add: sessionLock_def Let_def) (simp add: incIO_def)
  then have "disconnectSession k b n = Inr (if b then decIO i m else (decIO i m)\<lparr>nlDisConnect := nlDisConnect (decIO i m) + 1\<rparr>)"
    by (simp add: disconnectSession_def id(2) m_def [symmetric] Let_def u)
  moreover have "seSessionID (sess (decIO i m) i) = k" "seSendFlag (sess (decIO i m) i) = seSendFlag (sess n i)"
    "seRecvBuffer (sess (decIO i m) i) = seRecvBuffer (sess n i)" "seAccepted (sess (decIO i m) i) = seAccepted (sess n i)"
    using k by (simp_all add: m_def decIO_def incIO_def)
  ultimately show ?thesis using d t by (cases b) simp_all
qed

text \<open>An application that, while it is called back, disconnects no session but the one it is called for.\<close>

fun evOwner :: "netEvent \<Rightarrow> int" where
  "evOwner (OnAccept k) = k"
| "evOwner (OnRecv msg) = mOwnerID msg"
| "evOwner (OnSend msg) = mOwnerID msg"
| "evOwner (OnRelease k) = k"

definition app_faults :: "'a app \<Rightarrow> fault set" where
  "app_faults app = {e. \<exists>ev a. app ev a = Inl e}"

text \<open>What a part of a turn on a held slot leaves: the slot held, with \<open>R\<close> and \<open>S\<close> on its two sides.\<close>

definition held :: "nat \<Rightarrow> 'a netlib \<Rightarrow> nat \<Rightarrow> nat \<Rightarrow> 'a netlib \<Rightarrow> bool" where
  "held i n R S n' \<longleftrightarrow> in_use i n' R S 1 \<and> turn i n n' \<and> seSessionID (sess n' i) = seSessionID (sess n i) \<and>
     seSendFlag (sess n' i) = seSendFlag (sess n i) \<and> seAccepted (sess n' i) = seAccepted (sess n i)"

lemma held_trans: "held i a R S b \<Longrightarrow> held i b R' S' c \<Longrightarrow> held i a R' S' c"
  using turn_trans [of i a b c] by (simp add: held_def)

locale network_app =
  fixes app :: "'a app"
  assumes own_requests: "app ev a = Inr (rs, a') \<Longrightarrow> set rs \<subseteq> {ReqDisconnect (evOwner ev)}"
    and release_quiet: "app (OnRelease k) a = Inr (rs, a') \<Longrightarrow> rs = []"
begin

lemma callback_held:
  assumes "in_use i n R S 1" "seSessionID (sess n i) = evOwner ev" "i < CONFIG_SESSION_MAX"
  shows "fine (app_faults app) (\<lambda>n'. held i n R S n' \<and> seRecvBuffer (sess n' i) = seRecvBuffer (sess n i)) (callback app ev n)"
proof (cases "app ev (nlApp n)")
  case (Inl e)
  then show ?thesis by (auto simp: callback_def app_faults_def)
next
  case (Inr r)
  obtain rs a where r: "r = (rs, a)" by (cases r)
  have sub: "set rs \<subseteq> {ReqDisconnect (evOwner ev)}" using own_requests Inr r by blast
  define P where "P m \<longleftrightarrow> held i n R S m \<and> seRecvBuffer (sess m i) = seRecvBuffer (sess n i)" for m
  have "\<exists>m. foldR request rs (n\<lparr>nlApp := a\<rparr>) = Inr m \<and> P m"
  proof (rule foldR_total)
    show "P (n\<lparr>nlApp := a\<rparr>)" using assms(1) by (simp add: P_def held_def)
    fix q m assume q: "q \<in> set rs" and m: "P m"
    have "in_use i m R S 1" "seSessionID (sess m i) = evOwner ev" using m assms(2) by (simp_all add: P_def held_def)
    from disconnect_held [OF this assms(3), of False]
    obtain m' where "disconnectSession (evOwner ev) False m = Inr m'" "held i m R S m'"
        "seRecvBuffer (sess m' i) = seRecvBuffer (sess m i)"
      using m assms(2) by (auto simp: held_def P_def)
    then show "\<exists>m'. request q m = Inr m' \<and> P m'"
      using q sub m held_trans [of i n R S m R S m'] by (auto simp: request_def P_def)
  qed
  then show ?thesis using Inr r by (auto simp: callback_def P_def)
qed

end

end
