(* ===== verification/NetSafe.thy ===== *)
theory NetSafe
  imports NetLife
begin

text \<open>
  The turns of the workers keep the invariant of the sessions, and the step relation of the network
  library: whatever the operating system completes and the threads call, in whatever order, a slot is
  released once, and only when no operation on it is outstanding.
\<close>

subsection \<open>Issuing operations\<close>

text \<open>An operation is taken on, refused with an error that takes the count back, or refused otherwise.\<close>

lemma issue_cases:
  assumes "in_use i n R S 1"
  obtains m where "in_use i m R S 2" "turn i n m" "seSessionID (sess m i) = seSessionID (sess n i)"
    "seSendFlag (sess m i) = seSendFlag (sess n i)" "seAccepted (sess m i) = seAccepted (sess n i)"
    "issue i c n = pend i c m \<or> issue i c n = m \<or> held i n R S (issue i c n)"
proof -
  define m where "m = snd (ask (incIO i n))"
  define d where "d = decIO i (putS i ((sess m i)\<lparr>seLive := False\<rparr>) m)"
  have m: "in_use i m R S 2"
    using incIO_in_use(1) [OF assms] by (simp add: m_def in_use_def numeral_2_eq_2)
  have t: "turn i n m" unfolding m_def by (rule turn_trans [OF turn_basic(4) turn_basic(3)])
  have f: "seSessionID (sess m i) = seSessionID (sess n i)"
    "seSendFlag (sess m i) = seSendFlag (sess n i)" "seAccepted (sess m i) = seAccepted (sess n i)"
    by (simp_all add: m_def incIO_def)
  have "in_use i (putS i ((sess m i)\<lparr>seLive := False\<rparr>) m) R S (Suc 1)"
    using m by (simp add: in_use_def)
  then have "in_use i d R S 1" unfolding d_def by (rule decIO_in_use(1))
  moreover have "turn i m d" unfolding d_def by (rule turn_trans [OF turn_putS turn_basic(5)]) simp
  ultimately have d: "held i n R S d"
    using f turn_trans [OF t] by (simp add: held_def) (simp add: d_def decIO_def)
  have "issue i c n = pend i c m \<or> issue i c n = m \<or> issue i c n = d"
    by (simp add: issue_def ask_def m_def d_def checkAndHandleIoError_def Let_def)
  then show ?thesis using that m t f d by metis
qed

lemma recv_issue_held:
  assumes "in_use i n 0 S 1"
  shows "\<exists>R. held i n R S (issue i COMPLETE_RECV n)"
proof (rule issue_cases [OF assms, of COMPLETE_RECV])
  fix m assume m: "in_use i m 0 S 2" "turn i n m" "seSessionID (sess m i) = seSessionID (sess n i)"
    "seSendFlag (sess m i) = seSendFlag (sess n i)" "seAccepted (sess m i) = seAccepted (sess n i)"
    and iss: "issue i COMPLETE_RECV n = pend i COMPLETE_RECV m \<or> issue i COMPLETE_RECV n = m \<or>
      held i n 0 S (issue i COMPLETE_RECV n)"
  have "held i n 1 S m" "held i n 1 S (pend i COMPLETE_RECV m)"
    using m turn_trans [OF m(2) turn_basic(2)] by (simp_all add: held_def in_use_def)
  then show ?thesis using iss by metis
qed

lemma send_issue_held:
  assumes "in_use i n R 0 1" "seSendFlag (sess n i)"
  shows "\<exists>S. held i n R S (issue i COMPLETE_SEND n)"
proof (rule issue_cases [OF assms(1), of COMPLETE_SEND])
  fix m assume m: "in_use i m R 0 2" "turn i n m" "seSessionID (sess m i) = seSessionID (sess n i)"
    "seSendFlag (sess m i) = seSendFlag (sess n i)" "seAccepted (sess m i) = seAccepted (sess n i)"
    and iss: "issue i COMPLETE_SEND n = pend i COMPLETE_SEND m \<or> issue i COMPLETE_SEND n = m \<or>
      held i n R 0 (issue i COMPLETE_SEND n)"
  have "held i n R 1 m" "held i n R 1 (pend i COMPLETE_SEND m)"
    using m assms(2) turn_trans [OF m(2) turn_basic(2)] by (auto simp: held_def in_use_def)
  then show ?thesis using iss by metis
qed

lemma registerRecv_held:
  assumes "in_use i n 0 S 1" "i < CONFIG_SESSION_MAX"
  shows "\<exists>n' R. registerRecv i n = Inr n' \<and> held i n R S n'"
  using disconnect_held [OF assms(1) refl assms(2), of False] recv_issue_held [OF assms(1)] assms(1)
  by (auto simp: registerRecv_def Let_def held_def)

subsection \<open>Receiving\<close>

lemma received_fits:
  assumes "received bs q = Inr q'" "ring_wf q"
  shows "length (content q) + length bs \<le> capacity"
proof -
  have d: "0 \<le> GetDirectFreeSize (rgFront q) (rgRear q)"
      "GetDirectFreeSize (rgFront q) (rgRear q) \<le> GetFreeSize (rgFront q) (rgRear q)"
    using assms(2) by (auto simp: GetDirectFreeSize_def GetFreeSize_def ring_wf_def)
  have "length bs \<le> nat (GetFreeSize (rgFront q) (rgRear q))"
    using assms(1) d by (auto simp: received_def recvBufs_def Let_def bindR_Inr_iff split: if_splits)
  then show ?thesis using freeSize_content [OF assms(2)] content_length_le [OF assms(2)] by auto
qed

lemma takeMessage_shrinks:
  assumes "takeMessage now k q = Inr (Some (Some msg, q'))" "ring_wf q"
  shows "ring_wf q' \<and> mOwnerID msg = k \<and> length (content q') < length (content q)"
proof -
  define h where "h = headerOf (content q)"
  have c: "3 < length (content q)" "0 < hLen h" "3 + nat (hLen h) \<le> length (content q)"
    "msg = theMessage now k (hRandKey h, take (nat (hLen h)) (drop 3 (content q)))"
    "q' = MoveFront (hLen h) (MoveFront 3 q)"
    using assms(1) takeMessage_spec(1) [OF assms(2), of now k]
    by (auto simp: h_def [symmetric] Let_def split: if_splits)
  then show ?thesis using takeMessage_spec(2) [OF assms(2), of "hLen h"]
    by (simp add: theMessage_def InitMessage_def)
qed

lemma takeMessage_other:
  assumes "takeMessage now k q = Inr (Some (None, q'))" "ring_wf q"
  shows "q' = q"
  using assms(1) takeMessage_spec(1) [OF assms(2), of now k] by (auto simp: Let_def split: if_splits)

lemma takeMessage_faults:
  assumes "takeMessage now k q = Inl e" "ring_wf q"
  shows "e = NotEnoughSpace"
  using assms(1) takeMessage_spec(1) [OF assms(2), of now k] by (auto simp: Let_def split: if_splits)

lemma ring_held:
  "in_use i n R S 1 \<Longrightarrow> ring_wf q \<Longrightarrow> held i n R S (putS i ((sess n i)\<lparr>seRecvBuffer := q\<rparr>) n)"
  by (simp add: held_def in_use_def)

text \<open>A turn fails when the application does, or when a packet of more than 6000 bytes arrives.\<close>

definition net_faults :: "'a app \<Rightarrow> fault set" where
  "net_faults app = insert NotEnoughSpace (app_faults app)"

context network_app
begin

text \<open>The faults of a turn that are not the application's: a packet too long for a message.\<close>

lemma recvLoop_held:
  assumes "in_use i n 0 S 1" "i < CONFIG_SESSION_MAX"
  shows "\<exists>r. recvLoop app i n = Some r \<and> fine (net_faults app) (\<lambda>(b, n'). held i n 0 S n') r"
  using assms(1)
proof (induction "length (content (seRecvBuffer (sess n i)))" arbitrary: n rule: less_induct)
  case less
  define q where "q = seRecvBuffer (sess n i)"
  define k where "k = seSessionID (sess n i)"
  have wf: "ring_wf q" using less.prems by (simp add: in_use_def q_def)
  note unf = recvLoop.simps [of app i n, folded q_def k_def]
  show ?case
  proof (cases "takeMessage (nlNow n) k q")
    case (Inl e)
    then show ?thesis using takeMessage_faults [OF Inl wf] by (subst unf) (simp add: net_faults_def)
  next
    case (Inr o1)
    show ?thesis
    proof (cases o1)
      case None
      then show ?thesis using Inr less.prems by (subst unf) (simp add: held_def)
    next
      case (Some mq)
      obtain mo q' where mq: "mq = (mo, q')" by (cases mq)
      show ?thesis
      proof (cases mo)
        case None
        then have "q' = q" using Inr Some mq takeMessage_other [OF _ wf] by simp
        then have r: "held i n 0 S (putS i ((sess n i)\<lparr>seRecvBuffer := q'\<rparr>) n)"
          using ring_held [OF less.prems, of q] wf by simp
        define m where "m = putS i ((sess n i)\<lparr>seRecvBuffer := q'\<rparr>) n"
        have m: "in_use i m 0 S 1" "seSessionID (sess m i) = k" using r by (simp_all add: held_def m_def k_def)
        obtain n' where "disconnectSession k False m = Inr n'" "held i m 0 S n'"
          using disconnect_held [OF m assms(2), of False] m(2) by (auto simp: held_def)
        moreover have "recvLoop app i n = Some (bindR (disconnectSession k False m) (\<lambda>n. Inr (True, n)))"
          using Inr Some mq None by (subst unf) (simp add: m_def)
        ultimately show ?thesis using held_trans [OF r [folded m_def]] by simp
      next
        case (Some msg)
        have tk: "takeMessage (nlNow n) k q = Inr (Some (Some msg, q'))" using Inr \<open>o1 = Some mq\<close> mq Some by simp
        note sh = takeMessage_shrinks [OF tk wf]
        define m where "m = putS i ((sess n i)\<lparr>seRecvBuffer := q'\<rparr>) n"
        have r: "held i n 0 S m" using ring_held [OF less.prems] sh by (simp add: m_def)
        have m: "in_use i m 0 S 1" "seSessionID (sess m i) = evOwner (OnRecv msg)" "seRecvBuffer (sess m i) = q'"
          using r sh by (simp_all add: held_def m_def k_def)
        have cb: "fine (app_faults app) (\<lambda>n'. held i m 0 S n' \<and> seRecvBuffer (sess n' i) = q') (callback app (OnRecv msg) m)"
          using callback_held [OF m(1,2) assms(2)] m(3) by simp
        show ?thesis
        proof (cases "callback app (OnRecv msg) m")
          case (Inl e)
          then show ?thesis using cb tk by (subst unf) (simp add: m_def [symmetric] net_faults_def)
        next
          case (Inr n1)
          define n2 where "n2 = n1\<lparr>nlRecvCnt := nlRecvCnt n1 + 1\<rparr>"
          have n1: "held i m 0 S n1" "seRecvBuffer (sess n1 i) = q'" using cb Inr by simp_all
          then have n2: "held i m 0 S n2" "seRecvBuffer (sess n2 i) = q'" by (simp_all add: n2_def held_def)
          have "length (content (seRecvBuffer (sess n2 i))) < length (content (seRecvBuffer (sess n i)))"
            using sh n2(2) by (simp add: q_def)
          moreover have "in_use i n2 0 S 1" using n2(1) by (simp add: held_def)
          ultimately obtain r where r': "recvLoop app i n2 = Some r" "fine (net_faults app) (\<lambda>(b, n'). held i n2 0 S n') r"
            using less.hyps by blast
          have "recvLoop app i n = recvLoop app i n2"
            using tk Inr by (subst unf) (simp add: m_def [symmetric] n2_def)
          moreover have "held i n 0 S x" if "held i n2 0 S x" for x
            using held_trans [OF r held_trans [OF n2(1) that]] .
          ultimately show ?thesis using r' fine_mono [OF r'(2), of "net_faults app" "\<lambda>(b, n'). held i n 0 S n'"]
            by auto
        qed
      qed
    qed
  qed
qed

text \<open>The bytes come from the operating system, which writes no more than the buffers have room for.\<close>

lemma completeRecv_held:
  assumes "in_use i n 0 S 1" "i < CONFIG_SESSION_MAX" "length (content (seRecvBuffer (sess n i))) + length bs \<le> capacity"
  shows "fine (net_faults app) (\<lambda>n'. \<exists>R. held i n R S n') (completeRecv app i bs n)"
proof -
  have wf: "ring_wf (seRecvBuffer (sess n i))" using assms(1) by (simp add: in_use_def)
  obtain q0 q where Inr: "received bs (seRecvBuffer (sess n i)) = Inr q0"
      and q: "MoveRear (int (length bs)) q0 = Inr q" "ring_wf q"
    using received_content [OF wf assms(3)] by (auto simp: bindR_Inr_iff)
  define m where "m = putS i ((sess n i)\<lparr>seRecvBuffer := q\<rparr>) n"
  have m: "held i n 0 S m" using ring_held [OF assms(1) q(2)] by (simp add: m_def)
  then have im: "in_use i m 0 S 1" by (simp add: held_def)
  obtain r where r: "recvLoop app i m = Some r" "fine (net_faults app) (\<lambda>(b, n'). held i m 0 S n') r"
    using recvLoop_held [OF im assms(2)] by blast
  have "fine (net_faults app) (\<lambda>n'. \<exists>R. held i n R S n') (bindR r (\<lambda>(b, n). if b then Inr n else registerRecv i n))"
  proof (rule fine_bind [OF r(2)], clarify)
    fix b m' assume m': "held i m 0 S m'"
    then have "in_use i m' 0 S 1" by (simp add: held_def)
    from registerRecv_held [OF this assms(2)] obtain n' R where n': "registerRecv i m' = Inr n'" "held i m' R S n'" by blast
    show "fine (net_faults app) (\<lambda>n'. \<exists>R. held i n R S n') (if b then Inr m' else registerRecv i m')"
      using n' held_trans [OF m held_trans [OF m' n'(2)]] held_trans [OF m m'] by auto
  qed
  then show ?thesis using Inr q r(1) by (auto simp: completeRecv_def m_def [symmetric] elim: fine_mono)
qed

lemma completeAcceptEx_held:
  assumes "in_use i n 0 S 1" "\<not> seAccepted (sess n i)" "i < CONFIG_SESSION_MAX" "nlOn n"
  shows "fine (app_faults app) (\<lambda>n'. \<exists>R. in_use i n' R S 1 \<and> turn i n n' \<and> seAccepted (sess n' i)) (completeAcceptEx app i n)"
proof -
  define m0 where "m0 = n\<lparr>nlAcceptCnt := nlAcceptCnt n + 1, nlSessionCnt := nlSessionCnt n + 1\<rparr>"
  define m where "m = putS i ((sess m0 i)\<lparr>seLive := True, seAccepted := True\<rparr>) m0"
  have S: "S = 0" "seSendMsgs (sess n i) = []" using assms(1,2) by (simp_all add: in_use_def)
  have m: "in_use i m 0 S 1" "seSessionID (sess m i) = seSessionID (sess n i)" "seAccepted (sess m i)" "seSendMsgs (sess m i) = []"
    using assms(1) S by (simp_all add: m_def m0_def in_use_def opCnt_def freeCnt_def, simp_all add: putS_def)
  have t: "turn i n m" using assms(2)
    by (simp add: turn_def m_def m0_def only_def opCnt_def freeCnt_def) (simp add: putS_def)
  have "fine (app_faults app) (\<lambda>n'. held i m 0 S n') (callback app (OnAccept (seSessionID (sess m i))) m)"
    using fine_mono [OF callback_held [OF m(1) _ assms(3)]] by simp
  then have "fine (app_faults app) (\<lambda>n'. \<exists>R. in_use i n' R S 1 \<and> turn i n n' \<and> seAccepted (sess n' i))
      (bindR (callback app (OnAccept (seSessionID (sess m i))) m) (registerRecv i))"
  proof (rule fine_bind)
    fix n1 assume n1: "held i m 0 S n1"
    then have "in_use i n1 0 S 1" by (simp add: held_def)
    from registerRecv_held [OF this assms(3)] obtain n' R where n': "registerRecv i n1 = Inr n'" "held i n1 R S n'" by blast
    then have "held i m R S n'" using held_trans [OF n1] by blast
    then show "fine (app_faults app) (\<lambda>n'. \<exists>R. in_use i n' R S 1 \<and> turn i n n' \<and> seAccepted (sess n' i)) (registerRecv i n1)"
      using n'(1) m(3) turn_trans [OF t] by (auto simp: held_def)
  qed
  moreover have "completeAcceptEx app i n = assertR (seSendMsgs (sess m i) = [])
      (bindR (callback app (OnAccept (seSessionID (sess m i))) m) (registerRecv i))"
    using assms(4) by (simp add: completeAcceptEx_def m_def m0_def Let_def)
  ultimately show ?thesis using m(4) by simp
qed

end

subsection \<open>Sending\<close>

lemma takeSends_ok:
  assumes "k \<le> length (seSendQ x)" "seSenqQSize x = int (length (seSendQ x))" "length (seSendQ x) < 32768"
    "\<forall>msg \<in> set (seSendQ x). mOwnerID msg = seSessionID x"
  shows "takeSends k x = Inr (x\<lparr>seSendQ := drop k (seSendQ x), seSenqQSize := int (length (seSendQ x)) - int k,
    seSendMsgs := seSendMsgs x @ take k (seSendQ x)\<rparr>)"
  using assms
proof (induction k arbitrary: x)
  case 0
  then show ?case by simp
next
  case (Suc k)
  obtain msg q where q: "seSendQ x = msg # q" using Suc.prems(1) by (cases "seSendQ x") auto
  have w: "wrap16 (seSenqQSize x - 1) = int (length q)"
    using Suc.prems(2,3) q by (simp add: wrap16_id)
  show ?case using Suc.IH [of "x\<lparr>seSendQ := q, seSenqQSize := int (length q), seSendMsgs := seSendMsgs x @ [msg]\<rparr>"]
      Suc.prems q w by (simp add: DeQueueMsgOrNull_def)
qed

lemma registerSend_held:
  assumes n: "in_use i n R 0 1" and f: "seSendFlag (sess n i)" and e: "seSendMsgs (sess n i) = []"
  shows "\<exists>n' S. registerSend i n = Inr n' \<and> in_use i n' R S 1 \<and> turn i n n' \<and> seAccepted (sess n' i) = seAccepted (sess n i)"
proof -
  define x where "x = sess n i"
  have sz: "seSenqQSize x = int (length (seSendQ x))" "length (seSendQ x) < 32768"
    "\<forall>msg \<in> set (seSendQ x). mOwnerID msg = seSessionID x"
    using n by (simp_all add: in_use_def x_def)
  show ?thesis
  proof (cases "seSendQ x = []")
    case True
    then have "sendBatchCnt x = 0" using sz by (simp add: sendBatchCnt_def CONFIG_SEND_MESSAGE_MAXCOUNT_def)
    moreover have "sendBatchCnt (x\<lparr>seSendFlag := False\<rparr>) = sendBatchCnt x" by (simp add: sendBatchCnt_def)
    ultimately have "registerSend i n = Inr (putS i (x\<lparr>seSendFlag := False\<rparr>) n)"
      using f by (simp add: registerSend_def x_def [symmetric] Let_def)
    moreover have "in_use i (putS i (x\<lparr>seSendFlag := False\<rparr>) n) R 0 1"
      using n e True by (simp add: in_use_def x_def)
    ultimately show ?thesis by (auto simp: x_def)
  next
    case False
    define k where "k = nat (sendBatchCnt x)"
    have k: "sendBatchCnt x \<noteq> 0" "k \<le> length (seSendQ x)"
      using False sz by (auto simp: sendBatchCnt_def CONFIG_SEND_MESSAGE_MAXCOUNT_def k_def)
    define y where "y = x\<lparr>seSendQ := drop k (seSendQ x), seSenqQSize := int (length (seSendQ x)) - int k,
        seSendMsgs := take k (seSendQ x)\<rparr>"
    have ts: "takeSends k (x\<lparr>seSendMsgs := []\<rparr>) = Inr y"
      using takeSends_ok [of k "x\<lparr>seSendMsgs := []\<rparr>"] k sz by (simp add: y_def)
    define m where "m = putS i y n"
    have m: "in_use i m R 0 1" "seSendFlag (sess m i)" "turn i n m" "seAccepted (sess m i) = seAccepted (sess n i)"
      using n f k sz by (auto simp: m_def in_use_def y_def x_def dest: in_set_dropD in_set_takeD)
    have "registerSend i n = Inr (if seLive y then issue i COMPLETE_SEND m else m)"
      using k ts by (simp add: registerSend_def x_def [symmetric] k_def [symmetric] m_def Let_def)
    then show ?thesis using m send_issue_held [OF m(1,2)] turn_trans [OF m(3)]
      by (auto simp: held_def)
  qed
qed

context network_app
begin

lemma completeSend_held:
  assumes n: "in_use i n R 0 1" and f: "seSendFlag (sess n i)" and i: "i < CONFIG_SESSION_MAX"
  shows "fine (app_faults app) (\<lambda>n'. \<exists>S. in_use i n' R S 1 \<and> turn i n n' \<and> seAccepted (sess n' i) = seAccepted (sess n i))
    (completeSend app i n)"
proof -
  have own: "\<forall>msg \<in> set (seSendMsgs (sess n i)). mOwnerID msg = seSessionID (sess n i)" using n by (simp add: in_use_def)
  define m where "m = n\<lparr>nlSendCnt := nlSendCnt n + int (length (seSendMsgs (sess n i)))\<rparr>"
  have m: "held i n R 0 m" using n by (simp add: m_def held_def)
  have "fine (app_faults app) (held i n R 0) (foldR (\<lambda>msg. callback app (OnSend msg)) ms m)"
    if "held i n R 0 m" "\<forall>msg \<in> set ms. mOwnerID msg = seSessionID (sess n i)" for ms m
    using that
  proof (induction ms arbitrary: m)
    case (Cons a ms)
    have m: "in_use i m R 0 1" "seSessionID (sess m i) = evOwner (OnSend a)" using Cons.prems by (simp_all add: held_def)
    have "fine (app_faults app) (held i n R 0) (callback app (OnSend a) m)"
      by (rule fine_mono [OF callback_held [OF m i]]) (use held_trans [OF Cons.prems(1)] in blast)+
    then have "fine (app_faults app) (held i n R 0) (bindR (callback app (OnSend a) m) (foldR (\<lambda>msg. callback app (OnSend msg)) ms))"
      by (rule fine_bind) (use Cons in simp)
    then show ?case by simp
  qed simp
  from this [OF m own] have "fine (app_faults app) (held i n R 0)
      (foldR (\<lambda>msg. callback app (OnSend msg)) (seSendMsgs (sess m i)) m)" by (simp add: m_def)
  then have "fine (app_faults app) (\<lambda>n'. \<exists>S. in_use i n' R S 1 \<and> turn i n n' \<and> seAccepted (sess n' i) = seAccepted (sess n i))
      (bindR (foldR (\<lambda>msg. callback app (OnSend msg)) (seSendMsgs (sess m i)) m)
        (\<lambda>n. registerSend i (putS i ((sess n i)\<lparr>seSendMsgs := []\<rparr>) n)))"
  proof (rule fine_bind)
    fix n1 assume n1: "held i n R 0 n1"
    define p where "p = putS i ((sess n1 i)\<lparr>seSendMsgs := []\<rparr>) n1"
    have "in_use i p R 0 1" "seSendFlag (sess p i)" "seSendMsgs (sess p i) = []"
      using n1 f by (auto simp: p_def held_def in_use_def)
    from registerSend_held [OF this] obtain n' S where n': "registerSend i p = Inr n'" "in_use i n' R S 1" "turn i p n'"
        "seAccepted (sess n' i) = seAccepted (sess p i)" by blast
    have "turn i n n1" "turn i n1 p" using n1 by (simp_all add: p_def held_def)
    then have "turn i n p" by (rule turn_trans)
    then have "turn i n n'" using n'(3) turn_trans by blast
    then show "fine (app_faults app) (\<lambda>n'. \<exists>S. in_use i n' R S 1 \<and> turn i n n' \<and> seAccepted (sess n' i) = seAccepted (sess n i))
        (registerSend i (putS i ((sess n1 i)\<lparr>seSendMsgs := []\<rparr>) n1))"
      using n' n1 by (auto simp: p_def held_def)
  qed
  then show ?thesis by (simp add: completeSend_def m_def [symmetric] Let_def)
qed

end

subsection \<open>Releasing\<close>

lemma seqIdx_seqAndIdx: "i < CONFIG_SESSION_MAX \<Longrightarrow> seqIdx (seqAndIdx i seq) = int i"
proof -
  assume i: "i < CONFIG_SESSION_MAX"
  have w: "wrap64 x mod 131072 = x mod 131072" for x
  proof -
    have "wrap64 x = x - 2 ^ 64 * ((x + 2 ^ 63) div 2 ^ 64)"
      unfolding wrap64_def by (simp add: minus_mult_div_eq_mod [symmetric])
    then have "wrap64 x - x = 131072 * - (140737488355328 * ((x + 2 ^ 63) div 2 ^ 64))" by simp
    then have "131072 dvd wrap64 x - x" by (rule dvdI)
    then show ?thesis by (simp add: mod_eq_dvd_iff)
  qed
  have "(seqAndIdx i seq + 65536) mod 131072 = (seqAndIdx i seq mod 131072 + 65536) mod 131072" by (simp add: mod_add_left_eq)
  also have "seqAndIdx i seq mod 131072 = int i mod 131072" by (simp add: seqAndIdx_def w)
  also have "(int i mod 131072 + 65536) mod 131072 = int i + 65536" using i by (simp add: CONFIG_SESSION_MAX_def)
  finally show ?thesis by (simp add: seqIdx_def)
qed

lemma registerAcceptEx_inv:
  assumes r: "released i n 0" and on: "nlOn n" and i: "i < CONFIG_SESSION_MAX"
    and x: "\<not> seSendFlag (sess n i)" "seSendMsgs (sess n i) = []" "seSendQ (sess n i) = []" "\<not> seAccepted (sess n i)"
  defines "m \<equiv> registerAcceptEx (n\<lparr>nlStack := i # nlStack n\<rparr>)"
  shows "slot_inv i m \<and> only i n m \<and> nlOn m \<and> nlSessionCnt m = nlSessionCnt n \<and> \<not> seAccepted (sess m i)"
proof -
  define a where "a = n\<lparr>nlSeqID := wrap64 (nlSeqID n + 1)\<rparr>"
  define b where "b = snd (ask (putS i ((sess a i)\<lparr>seSessionID := seqAndIdx i (nlSeqID a)\<rparr>) a))"
  have fb: "sess b j = (if j = i then (sess n i)\<lparr>seSessionID := seqAndIdx i (nlSeqID a)\<rparr> else sess n j)"
    "opCnt c j b = opCnt c j n" "freeCnt j b = freeCnt j n" "nlStack b = nlStack n" "nlOn b = nlOn n"
    "nlSessionCnt b = nlSessionCnt n" for j c
    by (simp_all add: b_def a_def ask_def opCnt_def freeCnt_def putS_def)
  define err where "err = nlOs n 0"
  have run: "m = (if err \<noteq> 0 \<and> err \<noteq> 997 then b\<lparr>nlStack := i # nlStack b\<rparr>
      else (pend i COMPLETE_ACCEPT (putS i ((sess b i)\<lparr>seIOcnt := 1\<rparr>) b))\<lparr>nlActiveSlotCnt := nlActiveSlotCnt b + 1\<rparr>)"
    using on by (simp add: m_def registerAcceptEx_def err_def b_def a_def ask_def putS_def Let_def pend_def)
  show ?thesis
  proof (cases "err \<noteq> 0 \<and> err \<noteq> 997")
    case True
    then have m: "m = b\<lparr>nlStack := i # nlStack b\<rparr>" by (simp add: run)
    have c: "opCnt d j m = opCnt d j n" "freeCnt j m = freeCnt j n + (if j = i then 1 else 0)" for d j
    proof -
      show "opCnt d j m = opCnt d j n" using fb(2) [of d j] by (simp add: m opCnt_def)
      show "freeCnt j m = freeCnt j n + (if j = i then 1 else 0)" using fb(3) [of j] by (simp add: m freeCnt_def)
    qed
    have "released i m 1"
      using r x i by (simp add: released_def c) (simp add: m fb seqIdx_seqAndIdx)
    moreover have "only i n m" by (simp add: only_def c) (simp add: m fb)
    ultimately show ?thesis using on x by (simp add: slot_inv_def m fb)
  next
    case False
    define p where "p = pend i COMPLETE_ACCEPT (putS i ((sess b i)\<lparr>seIOcnt := 1\<rparr>) b)"
    have m: "m = p\<lparr>nlActiveSlotCnt := nlActiveSlotCnt b + 1\<rparr>" unfolding run p_def by (rule if_not_P [OF False])
    have "in_use i p 1 0 0"
      using r x i by (simp add: p_def in_use_def released_def fb seqIdx_seqAndIdx)
    then have "in_use i m 1 0 0" by (simp add: m in_use_def opCnt_def freeCnt_def)
    moreover have "only i n m" by (simp add: m only_def) (simp add: p_def fb opCnt_def freeCnt_def pend_def putS_def b_def a_def ask_def)
    moreover have "\<not> seAccepted (sess m i)" "nlOn m" "nlSessionCnt m = nlSessionCnt n"
      using on x by (simp_all add: m p_def fb) (simp_all add: pend_def putS_def fb)
    ultimately show ?thesis by (auto simp: slot_inv_def)
  qed
qed

end
