(* ===== verification/NetReach.thy ===== *)
theory NetReach
  imports NetSafe
begin

text \<open>
  Every order of completions, posted packets and calls of other threads as a step relation on the
  network library, its invariant, and what holds in every reachable state.
\<close>

subsection \<open>Taking an operation off\<close>

definition takePending :: "nat \<Rightarrow> eComplete \<Rightarrow> 'a netlib \<Rightarrow> 'a netlib" where
  "takePending i c n = n\<lparr>nlPending := remove1 (i, c) (nlPending n)\<rparr>"

definition takePosted :: "nat \<Rightarrow> eComplete \<Rightarrow> 'a netlib \<Rightarrow> 'a netlib" where
  "takePosted i c n = n\<lparr>nlPosted := remove1 (i, c) (nlPosted n)\<rparr>"

lemma take_frames [simp]:
  "sess (takePending i c n) = sess n" "sess (takePosted i c n) = sess n"
  "nlOn (takePending i c n) = nlOn n" "nlOn (takePosted i c n) = nlOn n"
  "nlSessionCnt (takePending i c n) = nlSessionCnt n" "nlSessionCnt (takePosted i c n) = nlSessionCnt n"
  "freeCnt j (takePending i c n) = freeCnt j n" "freeCnt j (takePosted i c n) = freeCnt j n"
  by (simp_all add: takePending_def takePosted_def freeCnt_def)

lemma count_list_pos: "x \<in> set xs \<Longrightarrow> 0 < count_list xs x"
  by (induction xs) auto

lemma opCnt_take:
  "(i, c) \<in> set (nlPending n) \<Longrightarrow> opCnt d j (takePending i c n) = opCnt d j n - (if (i, c) = (j, d) then 1 else 0)"
  "(i, c) \<in> set (nlPosted n) \<Longrightarrow> opCnt d j (takePosted i c n) = opCnt d j n - (if (i, c) = (j, d) then 1 else 0)"
proof -
  note pos = count_list_pos
  show "(i, c) \<in> set (nlPending n) \<Longrightarrow> opCnt d j (takePending i c n) = opCnt d j n - (if (i, c) = (j, d) then 1 else 0)"
    using pos [of "(i, c)" "nlPending n"] by (auto simp: opCnt_def takePending_def count_list_remove1)
  show "(i, c) \<in> set (nlPosted n) \<Longrightarrow> opCnt d j (takePosted i c n) = opCnt d j n - (if (i, c) = (j, d) then 1 else 0)"
    using pos [of "(i, c)" "nlPosted n"] by (auto simp: opCnt_def takePosted_def count_list_remove1)
qed

lemma opCnt_pos: "(i, c) \<in> set (nlPending n) \<or> (i, c) \<in> set (nlPosted n) \<Longrightarrow> 0 < opCnt c i n"
  using count_list_pos [of "(i, c)" "nlPending n"] count_list_pos [of "(i, c)" "nlPosted n"] by (auto simp: opCnt_def)

text \<open>\<open>taken i c n m\<close>: one operation \<open>c\<close> of slot \<open>i\<close> has been taken off.\<close>

definition taken :: "nat \<Rightarrow> eComplete \<Rightarrow> 'a netlib \<Rightarrow> 'a netlib \<Rightarrow> bool" where
  "taken i c n m \<longleftrightarrow> sess m = sess n \<and> nlOn m = nlOn n \<and> nlSessionCnt m = nlSessionCnt n \<and>
     (\<forall>j. freeCnt j m = freeCnt j n) \<and> 0 < opCnt c i n \<and>
     (\<forall>d j. opCnt d j m = opCnt d j n - (if (i, c) = (j, d) then 1 else 0))"

lemma takenI:
  "(i, c) \<in> set (nlPending n) \<Longrightarrow> taken i c n (takePending i c n)"
  "(i, c) \<in> set (nlPosted n) \<Longrightarrow> taken i c n (takePosted i c n)"
  using opCnt_pos [of i c n] by (auto simp: taken_def opCnt_take)

lemma taken_turn: "taken i c n m \<Longrightarrow> turn i n m"
  by (simp add: taken_def turn_def only_def)

lemma taken_recv:
  assumes "taken i c n m" "slot_inv i n" "c = COMPLETE_ACCEPT \<or> c = COMPLETE_RECV"
  obtains S where "in_use i m 0 S 1" "c = COMPLETE_ACCEPT \<Longrightarrow> \<not> seAccepted (sess n i)"
proof -
  consider R S where "in_use i n R S 0" | "released i n 1" using assms(2) by (auto simp: slot_inv_def)
  then show thesis
  proof cases
    case 1
    then have R: "R = 1" using assms(1,3) by (auto simp: in_use_def taken_def)
    then have "in_use i m 0 S 1" using 1 assms(1,3) by (auto simp: in_use_def taken_def)
    moreover have "c = COMPLETE_ACCEPT \<Longrightarrow> \<not> seAccepted (sess n i)" using 1 R assms(1) by (auto simp: in_use_def taken_def)
    ultimately show thesis by (rule that)
  next
    case 2
    then show thesis using assms(1,3) by (auto simp: released_def taken_def)
  qed
qed

lemma taken_send:
  assumes "taken i COMPLETE_SEND n m" "slot_inv i n"
  obtains R where "in_use i m R 0 1" "seSendFlag (sess m i)"
proof -
  consider R S where "in_use i n R S 0" | "released i n 1" using assms(2) by (auto simp: slot_inv_def)
  then show thesis
  proof cases
    case 1
    then have S: "S = 1" "seSendFlag (sess n i)" using assms(1) by (auto simp: in_use_def taken_def)
    then have "in_use i m R 0 1" using 1 assms(1) by (auto simp: in_use_def taken_def)
    then show thesis using that S assms(1) by (simp add: taken_def)
  next
    case 2
    then show thesis using assms(1) by (auto simp: released_def taken_def)
  qed
qed

lemma taken_release:
  assumes "taken i COMPLETE_RELEASE n m" "slot_inv i n"
  shows "released i m 0" "freeCnt i m = 0"
proof -
  consider R S where "in_use i n R S 0" | "released i n 1" using assms(2) by (auto simp: slot_inv_def)
  then have "released i m 0 \<and> freeCnt i m = 0"
  proof cases
    case 1
    then show ?thesis using assms(1) by (simp add: in_use_def taken_def)
  next
    case 2
    then have "freeCnt i n = 0" using assms(1) by (auto simp: released_def taken_def)
    then show ?thesis using 2 assms(1) by (simp add: released_def taken_def)
  qed
  then show "released i m 0" "freeCnt i m = 0" by auto
qed

subsection \<open>The turns of the workers\<close>

lemma turn_end:
  assumes "in_use i n R S 1" "turn i n0 n"
  shows "slot_inv i (let n = decIO i n in if seIOcnt (sess n i) = 0 then tryRelease i n else n) \<and>
    turn i n0 (let n = decIO i n in if seIOcnt (sess n i) = 0 then tryRelease i n else n)"
proof -
  have d: "in_use i (decIO i n) R S 0" using decIO_in_use(1) [of i n R S 0] assms(1) by simp
  have e: "(let n = decIO i n in if seIOcnt (sess n i) = 0 then tryRelease i n else n) = tryRelease i (decIO i n)"
    by (simp add: Let_def tryRelease_def)
  have "turn i n0 (tryRelease i (decIO i n))"
    by (rule turn_trans [OF assms(2) turn_trans [OF turn_basic(5) turn_basic(6)]])
  then show ?thesis unfolding e using tryRelease_inv [OF d] by simp
qed

context network_app
begin

lemma completeRelease_inv:
  assumes r: "released i m 0" and on: "nlOn m" and i: "i < CONFIG_SESSION_MAX"
    and cnt: "seAccepted (sess m i) \<Longrightarrow> 1 \<le> nlSessionCnt m"
  shows "fine (app_faults app) (\<lambda>n'. slot_inv i n' \<and> turn i m n') (completeRelease app i m)"
proof -
  have rest: "fine (app_faults app) (\<lambda>n'. slot_inv i n' \<and> turn i m n')
      (let n = p\<lparr>nlActiveSlotCnt := nlActiveSlotCnt p - 1\<rparr>; x = ReleaseSession (sess n i)
       in assertR (seSenqQSize x = 0)
            (let n = putS i x n
             in Inr (registerAcceptEx (n\<lparr>nlStack := nat (seqIdx (seSessionID x)) # nlStack n\<rparr>))))"
    if p: "sess p = sess m" "nlOn p = nlOn m" "nlStack p = nlStack m" "nlPending p = nlPending m" "nlPosted p = nlPosted m"
      "nlSessionCnt p = nlSessionCnt m - of_bool (seAccepted (sess m i))" for p
  proof -
    define x where "x = ReleaseSession (sess p i)"
    define b where "b = putS i x (p\<lparr>nlActiveSlotCnt := nlActiveSlotCnt p - 1\<rparr>)"
    have sz: "seSenqQSize x = 0"
      using r by (simp add: x_def ReleaseSession_def released_def p(1) wrap16_def)
    have ix: "nat (seqIdx (seSessionID x)) = i" using r by (simp add: x_def ReleaseSession_def released_def p(1))
    have op: "opCnt c j b = opCnt c j m" "freeCnt j b = freeCnt j m" for c j
      using p by (simp_all add: b_def opCnt_def freeCnt_def putS_def)
    have wf: "ring_wf (ClearBuffer (seRecvBuffer (sess m i)))"
      using r by (intro ClearBuffer_wf) (simp add: released_def ring_wf_def)
    have rb: "released i b 0"
      using r wf by (simp add: released_def op) (simp add: b_def x_def ReleaseSession_def p(1) wrap16_def)
    have sb: "sess b i = x" "nlOn b" "nlSessionCnt b = nlSessionCnt p"
      using on p by (simp_all add: b_def) (simp_all add: putS_def)
    have ob: "only i m b" by (simp add: only_def op) (simp add: b_def p(1))
    have xf: "\<not> seSendFlag x" "seSendMsgs x = []" "seSendQ x = []" "\<not> seAccepted x"
      by (simp_all add: x_def ReleaseSession_def)
    note s = registerAcceptEx_inv [OF rb sb(2) i, unfolded sb(1), OF xf]
    have "turn i m (registerAcceptEx (b\<lparr>nlStack := i # nlStack b\<rparr>))"
      using s only_trans [OF ob] on sb(3) p(6) by (simp add: turn_def)
    then show ?thesis using s sz ix by (simp add: x_def [symmetric] b_def [symmetric] Let_def)
  qed
  show ?thesis
  proof (cases "seAccepted (sess m i)")
    case False
    then show ?thesis using rest [of m] by (simp add: completeRelease_def)
  next
    case True
    show ?thesis
    proof (cases "app (OnRelease (seSessionID (sess m i))) (nlApp m)")
      case (Inl e)
      then show ?thesis using True by (auto simp: completeRelease_def callback_def app_faults_def)
    next
      case (Inr ra)
      obtain rs a where ra: "ra = (rs, a)" by (cases ra)
      have "rs = []" using release_quiet Inr ra by blast
      then have c: "callback app (OnRelease (seSessionID (sess m i))) m = Inr (m\<lparr>nlApp := a\<rparr>)"
        using Inr ra by (simp add: callback_def)
      show ?thesis using True cnt rest [of "m\<lparr>nlApp := a, nlSessionCnt := nlSessionCnt m - 1\<rparr>"]
        by (simp add: completeRelease_def c Let_def)
    qed
  qed
qed

text \<open>A turn of a worker on an operation that has been taken off.\<close>

lemma worker_turn:
  assumes t: "taken i c n m" and inv: "slot_inv i n" and on: "nlOn n" and i: "i < CONFIG_SESSION_MAX" and c: "c \<noteq> NONE"
    and cnt: "seAccepted (sess n i) \<Longrightarrow> 1 \<le> nlSessionCnt n"
    and fits: "c = COMPLETE_RECV \<Longrightarrow> bs \<noteq> [] \<Longrightarrow> length (content (seRecvBuffer (sess n i))) + length bs \<le> capacity"
  shows "fine (net_faults app) (\<lambda>n'. slot_inv i n' \<and> turn i n n') (worker app i c bs m)"
proof -
  have tn: "turn i n m" by (rule taken_turn [OF t])
  have m: "nlOn m" "sess m = sess n" "nlSessionCnt m = nlSessionCnt n" using t on by (simp_all add: taken_def)
  have run: "fine (net_faults app) (\<lambda>n'. slot_inv i n' \<and> turn i n n')
      (bindR r (\<lambda>n. let n = decIO i n in Inr (if seIOcnt (sess n i) = 0 then tryRelease i n else n)))"
    if "fine (net_faults app) (\<lambda>n'. \<exists>R S. in_use i n' R S 1 \<and> turn i m n') r" for r
    using that
  proof (rule fine_bind)
    fix p assume "\<exists>R S. in_use i p R S 1 \<and> turn i m p"
    then obtain R S where "in_use i p R S 1" "turn i n p" using turn_trans [OF tn] by blast
    from turn_end [OF this] show "fine (net_faults app) (\<lambda>n'. slot_inv i n' \<and> turn i n n')
        (let n = decIO i p in Inr (if seIOcnt (sess n i) = 0 then tryRelease i n else n))" by (simp add: Let_def)
  qed
  consider "c = COMPLETE_ACCEPT" | "c = COMPLETE_RECV" | "c = COMPLETE_SEND" | "c = COMPLETE_RELEASE"
    using c by (cases c) auto
  then show ?thesis
  proof cases
    case 1
    from taken_recv [OF t inv] 1 obtain S where S: "in_use i m 0 S 1" "\<not> seAccepted (sess n i)" by blast
    have "fine (net_faults app) (\<lambda>n'. \<exists>R S. in_use i n' R S 1 \<and> turn i m n') (completeAcceptEx app i m)"
      by (rule fine_mono [OF completeAcceptEx_held [OF S(1) _ i m(1)]]) (use S(2) m(2) in \<open>auto simp: net_faults_def\<close>)
    from run [OF this] show ?thesis using 1 by (simp add: worker_def)
  next
    case 2
    from taken_recv [OF t inv] 2 obtain S where S: "in_use i m 0 S 1" by blast
    have "fine (net_faults app) (\<lambda>n'. \<exists>R S. in_use i n' R S 1 \<and> turn i m n')
        (if bs = [] then Inr (putS i ((sess m i)\<lparr>seLive := False\<rparr>) m) else completeRecv app i bs m)"
    proof (cases "bs = []")
      case True
      have "in_use i (putS i ((sess m i)\<lparr>seLive := False\<rparr>) m) 0 S 1" using S by (simp add: in_use_def)
      then show ?thesis using True by auto
    next
      case False
      have "fine (net_faults app) (\<lambda>n'. \<exists>R S. in_use i n' R S 1 \<and> turn i m n') (completeRecv app i bs m)"
        by (rule fine_mono [OF completeRecv_held [OF S i]]) (use fits [OF 2 False] m(2) in \<open>auto simp: held_def\<close>)
      then show ?thesis using False by simp
    qed
    from run [OF this] show ?thesis using 2 by (simp add: worker_def)
  next
    case 3
    obtain R where R: "in_use i m R 0 1" "seSendFlag (sess m i)" using taken_send t inv 3 by blast
    have "fine (net_faults app) (\<lambda>n'. \<exists>R S. in_use i n' R S 1 \<and> turn i m n') (completeSend app i m)"
      by (rule fine_mono [OF completeSend_held [OF R i]]) (auto simp: net_faults_def)
    from run [OF this] show ?thesis using 3 by (simp add: worker_def)
  next
    case 4
    then have r: "released i m 0" using taken_release t inv by blast
    have "fine (net_faults app) (\<lambda>n'. slot_inv i n' \<and> turn i n n') (completeRelease app i m)"
      by (rule fine_mono [OF completeRelease_inv [OF r m(1) i]]) (use m cnt turn_trans [OF tn] in \<open>auto simp: net_faults_def\<close>)
    then show ?thesis using 4 by (simp add: worker_def)
  qed
qed

end

subsection \<open>Steps\<close>

text \<open>
  A step: an operation the operating system has completed, a packet the library has posted to itself, a
  disconnection or a message from another thread, the application's own work, the clock. A receive
  completes with at most as many bytes as it had room for. Other threads name sessions by the numbers
  they were given; the bounds on the count of threads and on the queue are those of their 16 bits.
\<close>

inductive net_step :: "'a app \<Rightarrow> 'a netlib \<Rightarrow> 'a netlib \<Rightarrow> bool" for app where
  completed: "(i, c) \<in> set (nlPending n) \<Longrightarrow>
    (c = COMPLETE_RECV \<longrightarrow> length (content (seRecvBuffer (sess n i))) + length bs \<le> capacity) \<Longrightarrow>
    worker app i c bs (takePending i c n) = Inr n' \<Longrightarrow> net_step app n n'"
| posted: "(i, c) \<in> set (nlPosted n) \<Longrightarrow> worker app i c [] (takePosted i c n) = Inr n' \<Longrightarrow> net_step app n n'"
| disconnects: "seqIdx k = int i \<Longrightarrow> i < CONFIG_SESSION_MAX \<Longrightarrow> seIOcnt (sess n i) + 1 < 32768 \<Longrightarrow>
    disconnectSession k b n = Inr n' \<Longrightarrow> net_step app n n'"
| sends: "seqIdx k = int i \<Longrightarrow> i < CONFIG_SESSION_MAX \<Longrightarrow> seIOcnt (sess n i) + 1 < 32768 \<Longrightarrow>
    (seSessionID (sess n i) = k \<longrightarrow> seAccepted (sess n i)) \<Longrightarrow> mOwnerID msg = k \<Longrightarrow>
    length (seSendQ (sess n i)) < 32767 \<Longrightarrow> sendPost k msg n = Inr n' \<Longrightarrow> net_step app n n'"
| works: "net_step app n (n\<lparr>nlApp := a\<rparr>)"
| passes: "net_step app n (n\<lparr>nlNow := t\<rparr>)"

definition net_inv :: "'a netlib \<Rightarrow> bool" where
  "net_inv n \<longleftrightarrow> nlOn n \<and> (\<forall>i < CONFIG_SESSION_MAX. slot_inv i n) \<and>
     (\<forall>i \<ge> CONFIG_SESSION_MAX. \<forall>c. opCnt c i n = 0) \<and>
     nlSessionCnt n = (\<Sum>i < CONFIG_SESSION_MAX. of_bool (seAccepted (sess n i)))"

lemma net_inv_turn:
  assumes n: "net_inv n" and i: "i < CONFIG_SESSION_MAX" and t: "slot_inv i n'" "turn i n n'"
  shows "net_inv n'"
proof -
  have o: "only i n n'" "nlOn n'" using t(2) n by (simp_all add: turn_def net_inv_def)
  have "slot_inv j n'" if "j < CONFIG_SESSION_MAX" for j
    using slot_inv_only [OF _ o(1), of j] n that t(1) by (cases "j = i") (auto simp: net_inv_def)
  moreover have "\<forall>j \<ge> CONFIG_SESSION_MAX. \<forall>c. opCnt c j n' = 0"
    using o(1) n i by (auto simp: only_def net_inv_def)
  moreover have "nlSessionCnt n' = (\<Sum>j < CONFIG_SESSION_MAX. of_bool (seAccepted (sess n' j)))"
  proof -
    have split: "(\<Sum>j < CONFIG_SESSION_MAX. f j) = f i + (\<Sum>j \<in> {..<CONFIG_SESSION_MAX} - {i}. f j)" for f :: "nat \<Rightarrow> int"
      using i by (simp add: sum.remove)
    have "(\<Sum>j \<in> {..<CONFIG_SESSION_MAX} - {i}. of_bool (seAccepted (sess n' j)) :: int) =
        (\<Sum>j \<in> {..<CONFIG_SESSION_MAX} - {i}. of_bool (seAccepted (sess n j)))"
      using o(1) by (intro sum.cong) (auto simp: only_def)
    then show ?thesis using n t(2) split [of "\<lambda>j. of_bool (seAccepted (sess n j))"]
        split [of "\<lambda>j. of_bool (seAccepted (sess n' j))"] by (simp add: net_inv_def turn_def)
  qed
  ultimately show ?thesis using o(2) by (simp add: net_inv_def)
qed

lemma net_inv_count:
  assumes "net_inv n" "i < CONFIG_SESSION_MAX" "seAccepted (sess n i)"
  shows "1 \<le> nlSessionCnt n"
proof -
  have "of_bool (seAccepted (sess n i)) \<le> (\<Sum>j < CONFIG_SESSION_MAX. of_bool (seAccepted (sess n j)) :: int)"
    using assms(2) by (intro member_le_sum) auto
  then show ?thesis using assms by (simp add: net_inv_def)
qed

lemma net_inv_op:
  assumes "net_inv n" "0 < opCnt c i n"
  shows "i < CONFIG_SESSION_MAX"
proof (rule ccontr)
  assume "\<not> i < CONFIG_SESSION_MAX"
  then have "opCnt c i n = 0" using assms(1) unfolding net_inv_def by (meson not_less)
  then show False using assms(2) by simp
qed

lemma net_inv_counters: "net_inv (n\<lparr>nlApp := a\<rparr>) = net_inv n" "net_inv (n\<lparr>nlNow := t\<rparr>) = net_inv n"
  by (simp_all add: net_inv_def slot_inv_def in_use_def released_def opCnt_def freeCnt_def)

context network_app
begin

lemma worker_step:
  assumes n: "net_inv n" and t: "taken i c n m" and c: "c \<noteq> NONE"
    and fits: "c = COMPLETE_RECV \<Longrightarrow> bs \<noteq> [] \<Longrightarrow> length (content (seRecvBuffer (sess n i))) + length bs \<le> capacity"
  shows "fine (net_faults app) net_inv (worker app i c bs m)"
proof -
  have i: "i < CONFIG_SESSION_MAX" using t by (intro net_inv_op [OF n, of c i]) (simp add: taken_def)
  have inv: "slot_inv i n" "nlOn n" using n i by (simp_all add: net_inv_def)
  have "fine (net_faults app) (\<lambda>n'. slot_inv i n' \<and> turn i n n') (worker app i c bs m)"
    using worker_turn [OF t inv i c net_inv_count [OF n i] fits] by blast
  then show ?thesis by (rule fine_mono) (use net_inv_turn [OF n i] in auto)
qed

lemma net_step_inv: "net_step app n n' \<Longrightarrow> net_inv n \<Longrightarrow> net_inv n'"
proof (induction rule: net_step.induct)
  case (completed i c n bs n')
  moreover have "c \<noteq> NONE" using completed(3) by (auto simp: worker_def)
  ultimately show ?case using worker_step [OF completed(4) takenI(1), of i c bs] by simp
next
  case (posted i c n n')
  moreover have "c \<noteq> NONE" using posted(2) by (auto simp: worker_def)
  ultimately show ?case using worker_step [OF posted(3) takenI(2), of i c "[]"] by simp
next
  case (disconnects k i n b n')
  then show ?case using disconnect_inv [of i n k b] net_inv_turn [of n i] by (auto simp: net_inv_def)
next
  case (sends k i n msg n')
  then show ?case using sendPost_inv [of i n k msg] net_inv_turn [of n i] by (auto simp: net_inv_def)
qed (simp_all add: net_inv_counters)

lemma net_reachable_inv: "(net_step app)\<^sup>*\<^sup>* n n' \<Longrightarrow> net_inv n \<Longrightarrow> net_inv n'"
  by (induction rule: rtranclp_induct) (auto intro: net_step_inv)

end

subsection \<open>The start\<close>

definition startState :: "int \<Rightarrow> (nat \<Rightarrow> int) \<Rightarrow> 'a \<Rightarrow> nat \<Rightarrow> 'a netlib \<Rightarrow> bool" where
  "startState now os a k n \<longleftrightarrow> nlOn n \<and> nlApp n = a \<and> nlStack n = [] \<and> nlPosted n = [] \<and> nlOs n = (\<lambda>j. os (k + j)) \<and> nlSessionCnt n = 0 \<and>
     (\<forall>i < k. in_use i n 1 0 0 \<and> opCnt COMPLETE_ACCEPT i n = 1) \<and>
     (\<forall>i \<ge> k. sess n i = newSession \<and> (\<forall>c. opCnt c i n = 0)) \<and> (\<forall>i. \<not> seAccepted (sess n i) \<and> seRecvBuffer (sess n i) = ring_init)"

lemma startState_step:
  assumes s: "startState now os a k n" and k: "k < CONFIG_SESSION_MAX" and ok: "os k = 0 \<or> os k = 997"
  shows "startState now os a (Suc k) (registerAcceptEx (n\<lparr>nlStack := k # nlStack n\<rparr>))"
proof -
  define x where "x = newSession\<lparr>seSessionID := seqAndIdx k (wrap64 (nlSeqID n + 1)), seIOcnt := 1\<rparr>"
  define m where "m = registerAcceptEx (n\<lparr>nlStack := k # nlStack n\<rparr>)"
  have run: "m = n\<lparr>nlSeqID := wrap64 (nlSeqID n + 1), nlSessions := (nlSessions n)(k := x),
      nlOs := (\<lambda>j. os (Suc k + j)), nlPending := nlPending n @ [(k, COMPLETE_ACCEPT)],
      nlActiveSlotCnt := nlActiveSlotCnt n + 1\<rparr>"
    using s ok by (auto simp: m_def registerAcceptEx_def startState_def ask_def putS_def pend_def x_def Let_def)
  have f: "sess m = (sess n)(k := x)" "freeCnt j m = 0" "opCnt c j m = opCnt c j n + (if (k, COMPLETE_ACCEPT) = (j, c) then 1 else 0)" for c j
    using s by (simp_all add: run opCnt_def freeCnt_def startState_def fun_eq_iff)
  have u: "in_use k m 1 0 0 \<and> opCnt COMPLETE_ACCEPT k m = 1"
    using s k by (simp add: in_use_def f startState_def) (simp add: x_def newSession_def seqIdx_seqAndIdx)
  have "in_use i m 1 0 0 \<and> opCnt COMPLETE_ACCEPT i m = 1" if "i < k" for i
    using s that by (auto simp: startState_def in_use_def f)
  then have "\<forall>i < Suc k. in_use i m 1 0 0 \<and> opCnt COMPLETE_ACCEPT i m = 1" using u by (auto simp: less_Suc_eq)
  moreover have "\<forall>i \<ge> Suc k. sess m i = newSession \<and> (\<forall>c. opCnt c i m = 0)" "\<forall>i. \<not> seAccepted (sess m i) \<and> seRecvBuffer (sess m i) = ring_init"
    using s by (auto simp: f startState_def x_def newSession_def)
  moreover have "nlOn m" "nlApp m = a" "nlStack m = []" "nlPosted m = []" "nlOs m = (\<lambda>j. os (Suc k + j))" "nlSessionCnt m = 0"
    using s by (simp_all add: run startState_def)
  ultimately show ?thesis unfolding startState_def m_def [symmetric] by blast
qed

lemma newNetlib_start:
  assumes "\<forall>k < CONFIG_SESSION_MAX. os k = 0 \<or> os k = 997"
  shows "startState now os a CONFIG_SESSION_MAX (newNetlib now os a)"
proof -
  define n0 :: "'a netlib" where "n0 = \<lparr> nlOn = True, nlSessions = (\<lambda>_. newSession), nlStack = [], nlSeqID = - 1, nlNow = now, nlOs = os,
         nlPending = [], nlPosted = [], nlAcceptCnt = 0, nlSendCnt = 0, nlRecvCnt = 0, nlDisConnect = 0,
         nlSessionCnt = 0, nlActiveSlotCnt = 0, nlApp = a \<rparr>"
  have "k \<le> CONFIG_SESSION_MAX \<Longrightarrow>
      startState now os a k (fold (\<lambda>idx n. registerAcceptEx (n\<lparr>nlStack := idx # nlStack n\<rparr>)) [0..<k] n0)" for k
  proof (induction k)
    case 0
    then show ?case by (simp add: startState_def n0_def opCnt_def newSession_def)
  next
    case (Suc k)
    then show ?case using startState_step [of now os a k] assms by simp
  qed
  from this [of CONFIG_SESSION_MAX] show ?thesis unfolding newNetlib_def n0_def by simp
qed

lemma newNetlib_inv:
  assumes "\<forall>k < CONFIG_SESSION_MAX. os k = 0 \<or> os k = 997"
  shows "net_inv (newNetlib now os a)"
proof -
  note s = newNetlib_start [OF assms, of now a]
  have "slot_inv i (newNetlib now os a)" if "i < CONFIG_SESSION_MAX" for i
  proof -
    have "in_use i (newNetlib now os a) 1 0 0" using s that by (simp add: startState_def)
    then show ?thesis unfolding slot_inv_def by (intro disjI1 exI [of _ 1] exI [of _ 0]) simp
  qed
  then show ?thesis using s by (simp add: startState_def net_inv_def)
qed

end
