(* ===== verification/NetClose.thy ===== *)
theory NetClose
  imports NetReach
begin

text \<open>
  The end of a session whose client has closed: the turn that ends its last operation posts the release, and
  the turn of the release gives the slot to the next connection. A send in flight keeps the slot until it has
  completed; what is still queued is then put aside and not sent, because the session is no longer live.
\<close>

text \<open>Taking the packet of an operation, which the operating system has completed or the library has posted.\<close>

definition takeOp :: "nat \<Rightarrow> eComplete \<Rightarrow> 'a netlib \<Rightarrow> 'a netlib" where
  "takeOp i c n = (if (i, c) \<in> set (nlPending n) then takePending i c n else takePosted i c n)"

lemma takeOp_simps [simp]: "sess (takeOp i c n) = sess n" "nlOn (takeOp i c n) = nlOn n"
  "nlSessionCnt (takeOp i c n) = nlSessionCnt n" "nlApp (takeOp i c n) = nlApp n" "nlOs (takeOp i c n) = nlOs n"
  "nlSeqID (takeOp i c n) = nlSeqID n"
  by (simp_all add: takeOp_def takePending_def takePosted_def)

text \<open>What the release needs of a session that is closing.\<close>

definition closing :: "nat \<Rightarrow> session \<Rightarrow> bool" where
  "closing i x \<longleftrightarrow> seqIdx (seSessionID x) = int i \<and> ring_wf (seRecvBuffer x) \<and> seAccepted x \<and>
     seSenqQSize x = int (length (seSendQ x)) \<and> length (seSendQ x) < 32768"

text \<open>The last operation of a session posts its release.\<close>

lemma last_operation:
  assumes "seIOcnt (sess n i) = 1"
  shows "(let n = decIO i n in Inr (if seIOcnt (sess n i) = 0 then tryRelease i n else n)) =
    Inr (post i COMPLETE_RELEASE (putS i ((sess n i)\<lparr>seIOcnt := RELEASE_IOCOUNT\<rparr>) n))"
  using assms by (simp add: decIO_def tryRelease_def wrap16_def Let_def) (simp add: putS_def)

text \<open>The turn of the release.\<close>

lemma release_turn:
  assumes c: "closing i (sess n i)" and on: "nlOn n" "1 \<le> nlSessionCnt n" "nlOs n 0 = 0 \<or> nlOs n 0 = 997"
    and rel: "app (OnRelease (seSessionID (sess n i))) (nlApp n) = Inr ([], a)"
  shows "\<exists>n2. worker app i COMPLETE_RELEASE [] (takePosted i COMPLETE_RELEASE n) = Inr n2 \<and>
    nlApp n2 = a \<and> nlSessionCnt n2 = nlSessionCnt n - 1 \<and> (i, COMPLETE_ACCEPT) \<in> set (nlPending n2) \<and>
    seSessionID (sess n2 i) = seqAndIdx i (wrap64 (nlSeqID n + 1)) \<and> seIOcnt (sess n2 i) = 1 \<and>
    seSendQ (sess n2 i) = [] \<and> content (seRecvBuffer (sess n2 i)) = [] \<and> \<not> seAccepted (sess n2 i)"
proof -
  define x p where "x = sess n i" and "p = takePosted i COMPLETE_RELEASE n"
  have fr: "nlApp p = nlApp n" "nlSessionCnt p = nlSessionCnt n" "nlOn p" "nlOs p = nlOs n" "nlSeqID p = nlSeqID n" "sess p = sess n"
    using on by (simp_all add: p_def takePosted_def)
  have f: "seqIdx (seSessionID x) = int i" "ring_wf (seRecvBuffer x)" "seAccepted x" "seSenqQSize x = int (length (seSendQ x))"
    using c by (simp_all add: closing_def x_def)
  define y where "y = ReleaseSession x"
  define b where "b = (putS i y (p\<lparr>nlApp := a, nlSessionCnt := nlSessionCnt n - 1, nlActiveSlotCnt := nlActiveSlotCnt p - 1\<rparr>))
    \<lparr>nlStack := i # nlStack p\<rparr>"
  define n2 where "n2 = registerAcceptEx b"
  have y: "seSenqQSize y = 0" "seSessionID y = seSessionID x" using f by (simp_all add: y_def ReleaseSession_def wrap16_def)
  have "callback app (OnRelease (seSessionID x)) p = Inr (p\<lparr>nlApp := a\<rparr>)"
    using rel fr by (simp add: callback_def x_def)
  then have "completeRelease app i p = Inr n2"
    using on f y fr by (simp add: completeRelease_def x_def [symmetric] y_def [symmetric] Let_def) (simp add: n2_def b_def putS_def)
  then have w2: "worker app i COMPLETE_RELEASE [] p = Inr n2" by (simp add: worker_def)
  have b: "nlStack b = i # nlStack p" "nlOn b" "nlSeqID b = nlSeqID n" "nlOs b = nlOs n" "sess b i = y" "nlApp b = a"
      "nlSessionCnt b = nlSessionCnt n - 1"
    using fr by (simp_all add: b_def putS_def)
  have n2: "nlApp n2 = a" "nlSessionCnt n2 = nlSessionCnt n - 1" "(i, COMPLETE_ACCEPT) \<in> set (nlPending n2)"
      "sess n2 i = y\<lparr>seSessionID := seqAndIdx i (wrap64 (nlSeqID n + 1)), seIOcnt := 1\<rparr>"
    unfolding n2_def registerAcceptEx_def b(1) using b(2-) on by (auto simp: ask_def putS_def pend_def Let_def)
  have "content (ClearBuffer (seRecvBuffer x)) = []" using f by (simp add: content_def ClearBuffer_def)
  then show ?thesis using w2 n2 unfolding p_def [symmetric] by (simp add: y_def ReleaseSession_def)
qed

text \<open>A send that completes on a session that is no longer live issues no other.\<close>

lemma onSends_ok:
  assumes "\<And>m a. m \<in> set ms \<Longrightarrow> \<exists>a'. app (OnSend m) a = Inr ([], a')"
  shows "\<exists>a. foldR (\<lambda>msg. callback app (OnSend msg)) ms n = Inr (n\<lparr>nlApp := a\<rparr>)"
  using assms
proof (induction ms arbitrary: n)
  case Nil
  have "n = n\<lparr>nlApp := nlApp n\<rparr>" by simp
  then show ?case by (metis foldR.simps(1))
next
  case (Cons m ms)
  obtain a where a: "app (OnSend m) (nlApp n) = Inr ([], a)" using Cons.prems by auto
  obtain a' where "foldR (\<lambda>msg. callback app (OnSend msg)) ms (n\<lparr>nlApp := a\<rparr>) = Inr (n\<lparr>nlApp := a\<rparr>\<lparr>nlApp := a'\<rparr>)"
    using Cons.IH [of "n\<lparr>nlApp := a\<rparr>"] Cons.prems by auto
  moreover have "callback app (OnSend m) n = Inr (n\<lparr>nlApp := a\<rparr>)" using a by (simp add: callback_def)
  ultimately show ?case by auto
qed

lemma closing_send:
  assumes c: "closing i (sess n i)" "\<not> seLive (sess n i)" "seIOcnt (sess n i) = 1"
    and own: "\<forall>msg \<in> set (seSendQ (sess n i)). mOwnerID msg = seSessionID (sess n i)"
    and snd: "\<And>m a. m \<in> set (seSendMsgs (sess n i)) \<Longrightarrow> \<exists>a'. app (OnSend m) a = Inr ([], a')"
  shows "\<exists>n1. worker app i COMPLETE_SEND [] n = Inr n1 \<and> (i, COMPLETE_RELEASE) \<in> set (nlPosted n1) \<and>
    closing i (sess n1 i) \<and> seSessionID (sess n1 i) = seSessionID (sess n i) \<and> nlOn n1 = nlOn n \<and>
    nlSessionCnt n1 = nlSessionCnt n \<and> nlOs n1 = nlOs n \<and> nlSeqID n1 = nlSeqID n"
proof -
  define x where "x = sess n i"
  obtain a where a: "foldR (\<lambda>msg. callback app (OnSend msg)) (seSendMsgs x) (n\<lparr>nlSendCnt := nlSendCnt n + int (length (seSendMsgs x))\<rparr>) =
      Inr (n\<lparr>nlSendCnt := nlSendCnt n + int (length (seSendMsgs x)), nlApp := a\<rparr>)"
    using onSends_ok [of "seSendMsgs x" app "n\<lparr>nlSendCnt := nlSendCnt n + int (length (seSendMsgs x))\<rparr>"] snd by (auto simp: x_def)
  define p where "p = putS i (x\<lparr>seSendMsgs := []\<rparr>) (n\<lparr>nlSendCnt := nlSendCnt n + int (length (seSendMsgs x)), nlApp := a\<rparr>)"
  have cs: "completeSend app i n = registerSend i p" using a by (simp add: completeSend_def p_def x_def Let_def)
  have p: "sess p i = x\<lparr>seSendMsgs := []\<rparr>" by (simp add: p_def)
  have sz: "seSenqQSize x = int (length (seSendQ x))" "length (seSendQ x) < 32768" using c(1) by (simp_all add: closing_def x_def)
  define k where "k = min (nat CONFIG_SEND_MESSAGE_MAXCOUNT) (length (seSendQ x))"
  have k: "sendBatchCnt (x\<lparr>seSendMsgs := []\<rparr>) = int k" "sendBatchCnt (x\<lparr>seSendMsgs := [], seSendFlag := False\<rparr>) = int k"
    using sz by (simp_all add: sendBatchCnt_def k_def CONFIG_SEND_MESSAGE_MAXCOUNT_def)
  have "\<exists>y. registerSend i p = Inr (putS i y p) \<and> closing i y \<and> seIOcnt y = 1 \<and> seSessionID y = seSessionID x"
  proof (cases "k = 0")
    case True
    then have "registerSend i p = Inr (putS i (if seSendFlag x then x\<lparr>seSendMsgs := [], seSendFlag := False\<rparr> else x\<lparr>seSendMsgs := []\<rparr>) p)"
      using k p by (simp add: registerSend_def Let_def) (simp add: p_def putS_def)
    then show ?thesis using c by (intro exI [of _ "if seSendFlag x then x\<lparr>seSendMsgs := [], seSendFlag := False\<rparr> else x\<lparr>seSendMsgs := []\<rparr>"]) (simp add: closing_def x_def)
  next
    case False
    define y where "y = x\<lparr>seSendQ := drop k (seSendQ x), seSenqQSize := int (length (seSendQ x)) - int k,
        seSendMsgs := take k (seSendQ x)\<rparr>"
    have "takeSends k (x\<lparr>seSendMsgs := []\<rparr>) = Inr y"
      using takeSends_ok [of k "x\<lparr>seSendMsgs := []\<rparr>"] sz own by (simp add: y_def k_def x_def)
    then have "registerSend i p = Inr (putS i y p)"
      using False k p c(2) by (simp add: registerSend_def Let_def) (simp add: y_def x_def)
    then show ?thesis using c by (intro exI [of _ y]) (auto simp: y_def x_def closing_def k_def)
  qed
  then obtain y where y: "registerSend i p = Inr (putS i y p)" "closing i y" "seIOcnt y = 1" "seSessionID y = seSessionID x" by blast
  define n1 where "n1 = post i COMPLETE_RELEASE (putS i (y\<lparr>seIOcnt := RELEASE_IOCOUNT\<rparr>) (putS i y p))"
  have "worker app i COMPLETE_SEND [] n = Inr n1"
    using cs y(1) last_operation [of "putS i y p" i] y(3) by (simp add: worker_def n1_def)
  moreover have "sess n1 i = y\<lparr>seIOcnt := RELEASE_IOCOUNT\<rparr>" "(i, COMPLETE_RELEASE) \<in> set (nlPosted n1)" "nlOn n1 = nlOn n"
      "nlSessionCnt n1 = nlSessionCnt n" "nlOs n1 = nlOs n" "nlSeqID n1 = nlSeqID n"
    by (simp add: n1_def, simp_all add: n1_def post_def putS_def p_def)
  ultimately show ?thesis using y(2,4) by (intro exI [of _ n1]) (simp add: closing_def x_def)
qed

end
