(* ===== verification/NetProps.thy ===== *)
theory NetProps
  imports NetClose Db Samples
begin

text \<open>
  The properties of the network library, and the library with the callbacks of the field server: in
  every order of completions and calls a slot is released once, has one operation of each kind, is
  counted rightly, and packets come out of the stream however it is cut.
\<close>

subsection \<open>The field server as the application\<close>

text \<open>The sessions that a callback asks the library to disconnect.\<close>

definition requestsOf :: "server \<Rightarrow> server \<Rightarrow> netRequest list" where
  "requestsOf s s' = map ReqDisconnect (drop (length (svDiscon s)) (svDiscon s'))"

text \<open>\<open>onSend\<close> has an empty body.\<close>

definition serverApp :: "server app" where
  "serverApp ev s = (case ev of
     OnAccept k \<Rightarrow> bindR (onAccept k s) (\<lambda>s'. Inr (requestsOf s s', s'))
   | OnRecv msg \<Rightarrow> bindR (onRecv msg s) (\<lambda>s'. Inr (requestsOf s s', s'))
   | OnSend msg \<Rightarrow> Inr ([], s)
   | OnRelease k \<Rightarrow> Inr ([], onRelease k s))"

lemma onAccept_discon:
  "onAccept k s = Inr s' \<Longrightarrow> svDiscon s' = svDiscon s \<or> svDiscon s' = svDiscon s @ [k]"
  by (auto simp: onAccept_def Handlers.disconnectSession_def assertR_def Let_def split: if_splits)

lemma onRecv_discon:
  assumes "onRecv msg s = Inr s'"
  shows "svDiscon s' = svDiscon s \<or> svDiscon s' = svDiscon s @ [mOwnerID msg]"
proof (cases "map_of (svObjs s) (mOwnerID msg)")
  case None
  then show ?thesis using assms by (simp add: onRecv_def)
next
  case (Some p)
  then obtain q where "Player.EnQueueMsg msg p = Inr q" using assms by (auto simp: onRecv_def bindR_Inr_iff Let_def)
  then show ?thesis using assms Some
    by (cases "CONFIG_SESSION_SENDQ_CAPPACITY \<le> plSendMsgCnt q + 1")
      (auto simp: onRecv_def Handlers.disconnectSession_def putP_def Let_def)
qed

text \<open>The callbacks keep the contract of the library: they disconnect the session they are called for, or none.\<close>

interpretation field_app: network_app serverApp
proof
  show "set rs \<subseteq> {ReqDisconnect (evOwner ev)}" if "serverApp ev a = Inr (rs, a')" for ev a rs a'
    using that onAccept_discon [of _ a a'] onRecv_discon [of _ a a']
    by (cases ev) (fastforce simp: serverApp_def bindR_Inr_iff requestsOf_def)+
  show "rs = []" if "serverApp (OnRelease k) a = Inr (rs, a')" for k a rs a'
    using that by (simp add: serverApp_def)
qed

text \<open>An application that only records what happens.\<close>

interpretation pure_app: network_app "pureApp f" for f
  by unfold_locales (simp_all add: pureApp_def)

subsection \<open>Reachable states\<close>

definition net_reachable :: "'a app \<Rightarrow> 'a netlib \<Rightarrow> bool" where
  "net_reachable app n \<longleftrightarrow> (\<exists>now os a. (\<forall>k < CONFIG_SESSION_MAX. os k = 0 \<or> os k = 997) \<and>
     (net_step app)\<^sup>*\<^sup>* (newNetlib now os a) n)"

lemma net_reachable_net_inv:
  assumes "network_app app" "net_reachable app n"
  shows "net_inv n"
proof -
  obtain now os a where r: "\<forall>k < CONFIG_SESSION_MAX. os k = 0 \<or> os k = 997" "(net_step app)\<^sup>*\<^sup>* (newNetlib now os a) n"
    using assms(2) unfolding net_reachable_def by blast
  show ?thesis by (rule network_app.net_reachable_inv [OF assms(1) r(2) newNetlib_inv [OF r(1)]])
qed

lemma reachable_slot:
  "network_app app \<Longrightarrow> net_reachable app n \<Longrightarrow> i < CONFIG_SESSION_MAX \<Longrightarrow> slot_inv i n"
  using net_reachable_net_inv [of app n] unfolding net_inv_def by blast

definition netStart :: "server netlib" where
  "netStart = newNetlib 0 (\<lambda>_. 0) (newServer 0 (\<lambda>_. 0))"

lemma netStart_reachable: "net_reachable serverApp netStart"
proof -
  have "(net_step serverApp)\<^sup>*\<^sup>* (newNetlib 0 (\<lambda>_. 0) (newServer 0 (\<lambda>_. 0))) netStart"
    unfolding netStart_def by (rule rtranclp.rtrancl_refl)
  then show ?thesis unfolding net_reachable_def
    by (intro exI [of _ 0] exI [of _ "\<lambda>_. 0"] exI [of _ "newServer 0 (\<lambda>_. 0)"] conjI) simp_all
qed

lemma newNetlib_slot:
  fixes a
  assumes "i < CONFIG_SESSION_MAX"
  defines "n \<equiv> newNetlib 0 (\<lambda>_. 0) a"
  shows "in_use i n 1 0 0" "slot_ok n i" "content (seRecvBuffer (sess n i)) = []" "(i, COMPLETE_ACCEPT) \<in> set (nlPending n)"
    "\<not> seAccepted (sess n i)" "seRecvBuffer (sess n i) = ring_init" "nlApp n = a" "nlOs n = (\<lambda>_. 0)" "nlOn n"
proof -
  have "startState 0 (\<lambda>_. 0) a CONFIG_SESSION_MAX n" unfolding n_def by (rule newNetlib_start) simp
  then have u: "in_use i n 1 0 0" "\<not> seAccepted (sess n i)" "count_list (nlPending n) (i, COMPLETE_ACCEPT) = 1"
      "seRecvBuffer (sess n i) = ring_init" "nlApp n = a" "nlOs n = (\<lambda>_. 0)" "nlOn n"
    using assms by (auto simp: startState_def opCnt_def)
  then show "in_use i n 1 0 0" "\<not> seAccepted (sess n i)" "(i, COMPLETE_ACCEPT) \<in> set (nlPending n)"
    "seRecvBuffer (sess n i) = ring_init" "nlApp n = a" "nlOs n = (\<lambda>_. 0)" "nlOn n"
    using count_list_0_iff [of "nlPending n" "(i, COMPLETE_ACCEPT)"] by auto
  show "slot_ok n i" using u(1) assms(1) by (rule in_use_slot)
  show "content (seRecvBuffer (sess n i)) = []" using u(4) by (simp add: ring_init_def content_def)
qed

lemmas netStart_slot = newNetlib_slot [where a = "newServer 0 (\<lambda>_. 0)", folded netStart_def]

text \<open>
  C8. A slot of the session table is released at most once, and only when the operating system holds no
  operation of it any more; it never has two receives (or a receive and an accept), nor two sends,
  outstanding; a free slot has no operation at all. This holds in every state that any order of
  completions, posted packets, disconnections and messages from other threads reaches.
\<close>

theorem released_once:
  assumes "network_app app" "net_reachable app n" "i < CONFIG_SESSION_MAX"
  shows "opCnt COMPLETE_RELEASE i n + freeCnt i n \<le> 1 \<and>
    opCnt COMPLETE_ACCEPT i n + opCnt COMPLETE_RECV i n \<le> 1 \<and> opCnt COMPLETE_SEND i n \<le> 1 \<and>
    (0 < opCnt COMPLETE_RELEASE i n + freeCnt i n \<longrightarrow>
       opCnt COMPLETE_ACCEPT i n = 0 \<and> opCnt COMPLETE_RECV i n = 0 \<and> opCnt COMPLETE_SEND i n = 0)"
  using reachable_slot [OF assms] unfolding slot_inv_def in_use_def released_def by auto

lemma released_once_witness:
  "\<exists>n. net_step serverApp netStart n \<and>
     opCnt COMPLETE_RELEASE 3 n + freeCnt 3 n \<le> 1 \<and> opCnt COMPLETE_ACCEPT 3 n + opCnt COMPLETE_RECV 3 n \<le> 1"
proof -
  have u: "in_use 3 netStart 1 0 0" using netStart_slot(1) [of 3] by (simp add: CONFIG_SESSION_MAX_def)
  define k where "k = seSessionID (sess netStart 3)"
  have k: "seqIdx k = int 3" "3 < CONFIG_SESSION_MAX" "seIOcnt (sess netStart 3) + 1 < 32768"
    using u by (simp_all add: in_use_def k_def CONFIG_SESSION_MAX_def)
  have "slot_inv 3 netStart" using u unfolding slot_inv_def by force
  from disconnect_inv [OF this k] obtain n where n: "Session.disconnectSession k True netStart = Inr n" by blast
  have s: "net_step serverApp netStart n" by (rule net_step.disconnects [OF k n])
  then have "net_reachable serverApp n"
    using netStart_reachable unfolding net_reachable_def by (meson rtranclp.rtrancl_into_rtrancl)
  from released_once [OF field_app.network_app_axioms this k(2)] show ?thesis using s n by auto
qed

text \<open>
  C27. In every reachable state the counter \<open>mSessionCnt\<close> is the number of slots that hold an accepted
  connection: it is neither negative nor above the size of the table.
\<close>

theorem session_count:
  assumes "network_app app" "net_reachable app n"
  shows "nlSessionCnt n = int (card {i. i < CONFIG_SESSION_MAX \<and> seAccepted (sess n i)}) \<and>
    0 \<le> nlSessionCnt n \<and> nlSessionCnt n \<le> int CONFIG_SESSION_MAX"
proof -
  have c: "nlSessionCnt n = int (card {i. i < CONFIG_SESSION_MAX \<and> seAccepted (sess n i)})"
    using net_reachable_net_inv [OF assms] by (simp add: net_inv_def sum.If_cases of_bool_def Int_def)
  have "card {i. i < CONFIG_SESSION_MAX \<and> seAccepted (sess n i)} \<le> card {..<CONFIG_SESSION_MAX}"
    by (rule card_mono) auto
  then show ?thesis using c by simp
qed

lemma session_count_witness: "nlSessionCnt netStart = int (card {i. i < CONFIG_SESSION_MAX \<and> seAccepted (sess netStart i)})"
  using session_count [OF field_app.network_app_axioms netStart_reachable] by blast

text \<open>
  C28. Whatever operation a worker takes off in a reachable state, its turn ends in a state that keeps
  the invariant of the library. The only failure of the library itself is the exception
  \<open>NotEnoughSpace\<close> of a packet longer than a message; any other comes from a callback.
\<close>

theorem turns_answer:
  assumes "network_app app" "net_reachable app n" "(i, c) \<in> set (nlPending n)" "c \<noteq> NONE"
    "c = COMPLETE_RECV \<Longrightarrow> length (content (seRecvBuffer (sess n i))) + length bs \<le> capacity"
  shows "fine (insert NotEnoughSpace (app_faults app)) net_inv (worker app i c bs (takePending i c n))"
  using network_app.worker_step [OF assms(1) net_reachable_net_inv [OF assms(1,2)] takenI(1) [OF assms(3)] assms(4)] assms(5)
  by (simp add: net_faults_def)

lemma turns_answer_witness:
  "fine (insert NotEnoughSpace (app_faults serverApp)) net_inv
     (worker serverApp 7 COMPLETE_ACCEPT [] (takePending 7 COMPLETE_ACCEPT netStart))"
  by (rule turns_answer [OF field_app.network_app_axioms netStart_reachable netStart_slot(4)])
    (simp_all add: CONFIG_SESSION_MAX_def)

subsection \<open>The stream\<close>

text \<open>
  C7. Packets survive the stream: when a client sends framed packets of at most 6000 bytes, and they
  arrive cut into any pieces that the ring has room for (in the middle of a header, around the end of
  the ring), the receiving loop hands exactly these packets to the application, in their order, and
  leaves nothing behind in the ring.
\<close>

theorem stream_reassembled:
  assumes "slot_ok n i" "content (seRecvBuffer (sess n i)) = []"
    and ms: "\<forall>m \<in> set ms. snd m \<noteq> [] \<and> length (snd m) \<le> 6000 \<and> - 128 \<le> fst m \<and> fst m < 128"
    and "concat pieces = concat (map frame ms)" "fitting [] pieces"
  shows "\<exists>n'. foldR (completeRecv (pureApp f) i) pieces n = Inr n' \<and> slot_ok n' i \<and>
    nlApp n' = deliver f n i ms (nlApp n) \<and> content (seRecvBuffer (sess n' i)) = []"
proof (rule pieces_deframe [OF assms(1,2) _ assms(5)])
  have "\<forall>m \<in> set ms. snd m \<noteq> [] \<and> length (snd m) < 32768 \<and> - 128 \<le> fst m \<and> fst m < 128" using ms by force
  then show "deframe ([] @ concat pieces) = (False, ms, [])" using deframe_frames assms(4) by simp
  show "deframe [] = (False, [], [])" by (subst deframe.simps) simp
qed (use ms in blast)

text \<open>A stream of no more than the capacity of the ring fits in any pieces.\<close>

lemma fitting_small: "length rest + length (concat pieces) \<le> capacity \<Longrightarrow> fitting rest pieces"
proof (induction pieces arbitrary: rest)
  case (Cons p ps)
  then show ?case using deframe_length [of "rest @ p"] by simp
qed simp

text \<open>Two packets in three pieces; the first cut is in the header.\<close>

definition samplePieces :: "byte list list" where
  "samplePieces = (let x = frame (5, [1, 2, 3]) @ frame (0, [9]) in [take 2 x, take 5 (drop 2 x), drop 7 x])"

lemma stream_reassembled_witness:
  "\<exists>n' m1 m2. foldR (completeRecv (pureApp (#)) 4) samplePieces (newNetlib 0 (\<lambda>_. 0) []) = Inr n' \<and>
     nlApp n' = OnRecv m2 # OnRecv m1 # nlApp (newNetlib 0 (\<lambda>_. 0) []) \<and> mBuf m1 = [1, 2, 3] \<and> mBuf m2 = [9]"
proof -
  have p: "concat samplePieces = concat (map frame [(5, [1, 2, 3]), (0, [9])])" by code_simp
  have "length (concat samplePieces) = 10" by code_simp
  then have f: "fitting [] samplePieces" by (intro fitting_small) (simp add: capacity_def RINGBUFFER_SIZE_def)
  have "4 < CONFIG_SESSION_MAX" by (simp add: CONFIG_SESSION_MAX_def)
  note n = newNetlib_slot(2,3) [OF this, of "[]"]
  from stream_reassembled [OF n _ p f, of "(#)"] show ?thesis by (auto simp: deliver_def theMessage_def)
qed

text \<open>Disconnecting one's own session.\<close>

lemma disconnect_own:
  assumes n: "in_use i n R S 1" and i: "i < CONFIG_SESSION_MAX"
  shows "\<exists>n'. Session.disconnectSession (seSessionID (sess n i)) b n = Inr n' \<and> \<not> seLive (sess n' i) \<and>
    nlApp n' = nlApp n \<and> (\<forall>c j. opCnt c j n' = opCnt c j n) \<and> in_use i n' R S 1"
proof -
  define k where "k = seSessionID (sess n i)"
  have id: "seqIdx k = int i" "nat (seqIdx k) = i" using n by (simp_all add: in_use_def k_def)
  note up = incIO_in_use [OF n, simplified]
  define m where "m = putS i ((sess (incIO i n) i)\<lparr>seLive := False\<rparr>) (incIO i n)"
  have m: "in_use i m R S (Suc (Suc 0))" using up(1) by (simp add: m_def in_use_def)
  have u: "sessionUnLock k m = decIO i m" by (rule unlock_in_use [OF m]) (simp_all add: id)
  have d: "in_use i (decIO i m) R S 1" using decIO_in_use(1) [OF m] by simp
  have "sessionLock k n = Inr (True, incIO i n)"
    using up i id by (simp add: sessionLock_def Let_def) (simp add: incIO_def k_def)
  then have "Session.disconnectSession k b n = Inr (if b then decIO i m else (decIO i m)\<lparr>nlDisConnect := nlDisConnect (decIO i m) + 1\<rparr>)"
    by (simp add: Session.disconnectSession_def id(2) m_def [symmetric] Let_def u)
  moreover have "\<not> seLive (sess (decIO i m) i)" "nlApp (decIO i m) = nlApp n" "opCnt c j (decIO i m) = opCnt c j n" for c j
    by (simp_all add: m_def decIO_def incIO_def) (simp_all add: putS_def)
  ultimately show ?thesis using d by (cases b) (simp_all add: k_def opCnt_def)
qed

text \<open>
  A header whose length is 0 or negative ends the connection: the session is no longer live, no
  further receive is issued, and neither this packet nor anything behind it reaches the application.
\<close>

theorem bad_header_disconnects:
  assumes n: "in_use i n 0 S 1" and i: "i < CONFIG_SESSION_MAX"
    and room: "length (content (seRecvBuffer (sess n i))) + length bs \<le> capacity"
    and bs: "3 < length (content (seRecvBuffer (sess n i)) @ bs)" "hLen (headerOf (content (seRecvBuffer (sess n i)) @ bs)) \<le> 0"
  shows "\<exists>n'. completeRecv app i bs n = Inr n' \<and> nlApp n' = nlApp n \<and> \<not> seLive (sess n' i) \<and>
    opCnt COMPLETE_RECV i n' = opCnt COMPLETE_RECV i n"
proof -
  have wf: "ring_wf (seRecvBuffer (sess n i))" using n by (simp add: in_use_def)
  obtain q0 q where q: "received bs (seRecvBuffer (sess n i)) = Inr q0" "MoveRear (int (length bs)) q0 = Inr q"
      "ring_wf q" "content q = content (seRecvBuffer (sess n i)) @ bs"
    using received_content [OF wf room] by (auto simp: bindR_Inr_iff)
  define m where "m = putS i ((sess n i)\<lparr>seRecvBuffer := q\<rparr>) n"
  have m: "in_use i m 0 S 1" "sess m i = (sess n i)\<lparr>seRecvBuffer := q\<rparr>"
    using ring_held [OF n q(3)] by (simp_all add: m_def held_def)
  have t: "takeMessage now k q = Inr (Some (None, q))" for now k
    using takeMessage_spec(1) [OF q(3), of now k] bs q(4) by (simp add: Let_def)
  obtain n' where n': "Session.disconnectSession (seSessionID (sess m i)) False m = Inr n'" "\<not> seLive (sess n' i)"
      "nlApp n' = nlApp m" "opCnt COMPLETE_RECV i n' = opCnt COMPLETE_RECV i m"
    using disconnect_own [OF m(1) i] by blast
  have "putS i ((sess m i)\<lparr>seRecvBuffer := q\<rparr>) m = m" by (simp add: m_def putS_def)
  then have "recvLoop app i m = Some (Inr (True, n'))"
    using t n'(1) m(2) by (subst recvLoop.simps) simp
  then have "completeRecv app i bs n = Inr n'" using q by (simp add: completeRecv_def m_def [symmetric])
  moreover have "nlApp m = nlApp n" "opCnt COMPLETE_RECV i m = opCnt COMPLETE_RECV i n"
    by (simp_all add: m_def) (simp add: putS_def)
  ultimately show ?thesis using n' by simp
qed

lemma netStart_held:
  assumes "i < CONFIG_SESSION_MAX"
  shows "\<exists>S. in_use i (takePending i COMPLETE_ACCEPT netStart) 0 S 1"
proof -
  have "slot_inv i netStart" using netStart_slot(1) [OF assms] unfolding slot_inv_def by force
  from taken_recv [OF takenI(1) [OF netStart_slot(4) [OF assms]] this] show ?thesis by blast
qed

lemma bad_header_disconnects_witness:
  "\<exists>n'. completeRecv serverApp 2 [0, 0, 0, 9] (takePending 2 COMPLETE_ACCEPT netStart) = Inr n' \<and> \<not> seLive (sess n' 2)"
proof -
  have i: "2 < CONFIG_SESSION_MAX" by (simp add: CONFIG_SESSION_MAX_def)
  obtain S where S: "in_use 2 (takePending 2 COMPLETE_ACCEPT netStart) 0 S 1" using netStart_held [OF i] by blast
  have "hLen (headerOf [0, 0, 0, 9]) \<le> 0" by code_simp
  moreover have "4 \<le> capacity" by (simp add: capacity_def RINGBUFFER_SIZE_def)
  ultimately show ?thesis using bad_header_disconnects [OF S i, of "[0, 0, 0, 9]" serverApp] netStart_slot(3) [OF i] by auto
qed

text \<open>
  A header that announces more than 6000 bytes throws once they are there: they do not fit into a
  message, and the exception \<open>NotEnoughSpace\<close> leaves the worker, which has no handler for it.
\<close>

theorem oversize_throws:
  assumes n: "in_use i n 0 S 1"
    and room: "length (content (seRecvBuffer (sess n i))) + length bs \<le> capacity" and ne: "bs \<noteq> []"
    and x: "x = content (seRecvBuffer (sess n i)) @ bs" "6000 < hLen (headerOf x)" "3 + nat (hLen (headerOf x)) \<le> length x"
  shows "worker app i COMPLETE_RECV bs n = Inl NotEnoughSpace"
proof -
  have wf: "ring_wf (seRecvBuffer (sess n i))" using n by (simp add: in_use_def)
  obtain q0 q where q: "received bs (seRecvBuffer (sess n i)) = Inr q0" "MoveRear (int (length bs)) q0 = Inr q"
      "ring_wf q" "content q = x"
    using received_content [OF wf room] x(1) by (auto simp: bindR_Inr_iff)
  have "takeMessage now k q = Inl NotEnoughSpace" for now k
    using takeMessage_spec(1) [OF q(3), of now k] x(2,3) q(4) by (simp add: Let_def)
  then have "recvLoop app i (putS i ((sess n i)\<lparr>seRecvBuffer := q\<rparr>) n) = Some (Inl NotEnoughSpace)"
    by (subst recvLoop.simps) simp
  then show ?thesis using q ne by (simp add: worker_def completeRecv_def)
qed

lemma oversize_throws_witness:
  "worker serverApp 2 COMPLETE_RECV (enc 2 6001 @ [0] @ replicate 6001 7) (takePending 2 COMPLETE_ACCEPT netStart) = Inl NotEnoughSpace"
proof -
  define bs :: "byte list" where "bs = enc 2 6001 @ [0] @ replicate 6001 7"
  have i: "2 < CONFIG_SESSION_MAX" by (simp add: CONFIG_SESSION_MAX_def)
  obtain S where S: "in_use 2 (takePending 2 COMPLETE_ACCEPT netStart) 0 S 1" using netStart_held [OF i] by blast
  have "headerOf bs = headerOf (enc 2 6001 @ [0])" unfolding bs_def append_assoc [symmetric]
    by (rule headerOf_append) simp
  moreover have "hLen (headerOf (enc 2 6001 @ [0])) = 6001" by code_simp
  moreover have "6004 \<le> capacity" by (simp add: capacity_def RINGBUFFER_SIZE_def)
  moreover have "length bs = 6004" by (simp add: bs_def)
  moreover from this have "bs \<noteq> []" by auto
  ultimately show ?thesis unfolding bs_def [symmetric]
    using oversize_throws [OF S, of bs bs] netStart_slot(3) [OF i] by auto
qed

text \<open>
  C15. A session whose client has closed is recycled, with or without a send in flight: its receive completes
  with nothing, and if that was its last operation the turn posts the release; else the session waits for the
  send that is outstanding, whose turn issues no other, whatever is queued, and posts the release. The turn of
  the release tells the application, empties the queues of the slot, counts the session off and has the slot
  accept the next client under a new number. Two things are asked: that the count of the session is that of its
  receive and of its send outstanding (a call that the operating system has refused with an error the library
  does not know leaves its count behind for ever, and such a session is not released), and that the callbacks
  for the messages sent and for the release succeed and make no calls of their own.
\<close>

theorem closed_slot_reused:
  assumes app: "network_app app" "net_reachable app n" and i: "i < CONFIG_SESSION_MAX"
    and op: "(i, COMPLETE_RECV) \<in> set (nlPending n)" and acc: "seAccepted (sess n i)"
    and cnt: "seIOcnt (sess n i) = 1 + int (opCnt COMPLETE_SEND i n)"
    and rel: "\<And>a. \<exists>a'. app (OnRelease (seSessionID (sess n i))) a = Inr ([], a')"
    and snd: "\<And>m a. m \<in> set (seSendMsgs (sess n i)) \<Longrightarrow> \<exists>a'. app (OnSend m) a = Inr ([], a')"
    and os: "nlOs n 0 = 0 \<or> nlOs n 0 = 997"
  shows "\<exists>n0 n1 n2. worker app i COMPLETE_RECV [] (takePending i COMPLETE_RECV n) = Inr n0 \<and>
    (if opCnt COMPLETE_SEND i n = 0 then n1 = n0
     else (i, COMPLETE_RELEASE) \<notin> set (nlPosted n0) \<and> 0 < opCnt COMPLETE_SEND i n0 \<and>
       worker app i COMPLETE_SEND [] (takeOp i COMPLETE_SEND n0) = Inr n1) \<and>
    (i, COMPLETE_RELEASE) \<in> set (nlPosted n1) \<and>
    worker app i COMPLETE_RELEASE [] (takePosted i COMPLETE_RELEASE n1) = Inr n2 \<and>
    app (OnRelease (seSessionID (sess n i))) (nlApp n1) = Inr ([], nlApp n2) \<and>
    nlSessionCnt n2 = nlSessionCnt n - 1 \<and> (i, COMPLETE_ACCEPT) \<in> set (nlPending n2) \<and>
    seSessionID (sess n2 i) = seqAndIdx i (wrap64 (nlSeqID n + 1)) \<and> seIOcnt (sess n2 i) = 1 \<and>
    seSendQ (sess n2 i) = [] \<and> content (seRecvBuffer (sess n2 i)) = [] \<and> \<not> seAccepted (sess n2 i)"
proof -
  have inv: "net_inv n" by (rule net_reachable_net_inv [OF app])
  have sl: "slot_inv i n" and on: "nlOn n" using inv i by (simp_all add: net_inv_def)
  define x where "x = sess n i"
  have "0 < opCnt COMPLETE_RECV i n" using op by (intro opCnt_pos) simp
  then obtain R S where u: "in_use i n R S 0" using sl by (auto simp: slot_inv_def released_def)
  have x: "closing i x" "\<forall>msg \<in> set (seSendQ x). mOwnerID msg = seSessionID x" and s1: "opCnt COMPLETE_SEND i n \<le> 1"
      and r0: "opCnt COMPLETE_RELEASE i n = 0"
    using u acc by (simp_all add: in_use_def x_def closing_def)
  define m where "m = putS i (x\<lparr>seLive := False\<rparr>) (takePending i COMPLETE_RECV n)"
  have w: "worker app i COMPLETE_RECV [] (takePending i COMPLETE_RECV n) =
      (let n = decIO i m in Inr (if seIOcnt (sess n i) = 0 then tryRelease i n else n))"
    by (simp add: worker_def m_def x_def)
  have m: "sess m i = x\<lparr>seLive := False\<rparr>" "nlOn m" "nlSessionCnt m = nlSessionCnt n" "nlOs m = nlOs n" "nlSeqID m = nlSeqID n"
      "nlApp m = nlApp n" "opCnt c i m = (if c = COMPLETE_RECV then opCnt c i n - 1 else opCnt c i n)" for c
    using on opCnt_take(1) [OF op, of c i] by (simp_all add: m_def, simp_all add: putS_def takePending_def)
  have one: "1 \<le> nlSessionCnt n" by (rule net_inv_count [OF inv i acc])
  define k where "k = seSessionID x"
  have last: ?thesis if n1: "worker app i COMPLETE_RECV [] (takePending i COMPLETE_RECV n) = Inr n0"
      "if opCnt COMPLETE_SEND i n = 0 then n1 = n0
       else (i, COMPLETE_RELEASE) \<notin> set (nlPosted n0) \<and> 0 < opCnt COMPLETE_SEND i n0 \<and>
         worker app i COMPLETE_SEND [] (takeOp i COMPLETE_SEND n0) = Inr n1"
      "(i, COMPLETE_RELEASE) \<in> set (nlPosted n1)" "closing i (sess n1 i)" "seSessionID (sess n1 i) = k" "nlOn n1"
      "nlSessionCnt n1 = nlSessionCnt n" "nlOs n1 = nlOs n" "nlSeqID n1 = nlSeqID n" for n0 n1
  proof -
    obtain a where a: "app (OnRelease (seSessionID (sess n1 i))) (nlApp n1) = Inr ([], a)"
      using rel n1(5) by (auto simp: k_def x_def)
    have pre: "1 \<le> nlSessionCnt n1" "nlOs n1 0 = 0 \<or> nlOs n1 0 = 997" using one os n1(7,8) by simp_all
    from release_turn [where app = app, OF n1(4,6) pre a] obtain n2 where
      "worker app i COMPLETE_RELEASE [] (takePosted i COMPLETE_RELEASE n1) = Inr n2" "nlApp n2 = a"
      "nlSessionCnt n2 = nlSessionCnt n - 1" "(i, COMPLETE_ACCEPT) \<in> set (nlPending n2)"
      "seSessionID (sess n2 i) = seqAndIdx i (wrap64 (nlSeqID n + 1))" "seIOcnt (sess n2 i) = 1"
      "seSendQ (sess n2 i) = []" "content (seRecvBuffer (sess n2 i)) = []" "\<not> seAccepted (sess n2 i)"
      using n1(7,9) by auto
    then show ?thesis using n1(1,2,3,5) a by (intro exI [of _ n0] exI [of _ n1] exI [of _ n2]) (simp add: k_def x_def)
  qed
  show ?thesis
  proof (cases "opCnt COMPLETE_SEND i n = 0")
    case True
    then have "seIOcnt (sess m i) = 1" using cnt m by (simp add: x_def)
    note l = last_operation [OF this]
    define n1 where "n1 = post i COMPLETE_RELEASE (putS i ((sess m i)\<lparr>seIOcnt := RELEASE_IOCOUNT\<rparr>) m)"
    show ?thesis
      by (rule last [of n1 n1]) (use True w l x m in \<open>simp_all add: n1_def [symmetric]\<close>,
        simp_all add: n1_def closing_def k_def, simp_all add: post_def putS_def)
  next
    case False
    then have "seIOcnt (sess m i) = 2" "opCnt COMPLETE_SEND i n = 1" using cnt s1 m by (simp_all add: x_def)
    define n0 where "n0 = decIO i m"
    have n0: "sess n0 i = x\<lparr>seLive := False, seIOcnt := 1\<rparr>" "nlOn n0" "nlSessionCnt n0 = nlSessionCnt n" "nlOs n0 = nlOs n"
        "nlSeqID n0 = nlSeqID n" "opCnt c i n0 = opCnt c i m" for c
      using m \<open>seIOcnt (sess m i) = 2\<close> by (simp_all add: n0_def decIO_def wrap16_def) (simp_all add: putS_def)
    have w0: "worker app i COMPLETE_RECV [] (takePending i COMPLETE_RECV n) = Inr n0"
      using w n0(1) by (simp add: n0_def [symmetric] Let_def)
    have "opCnt COMPLETE_RELEASE i n0 = 0" "0 < opCnt COMPLETE_SEND i n0" using n0 m r0 False by simp_all
    then have n0': "(i, COMPLETE_RELEASE) \<notin> set (nlPosted n0)" "0 < opCnt COMPLETE_SEND i n0"
      using opCnt_pos [of i COMPLETE_RELEASE n0] by auto
    obtain n1 where n1: "worker app i COMPLETE_SEND [] (takeOp i COMPLETE_SEND n0) = Inr n1" "(i, COMPLETE_RELEASE) \<in> set (nlPosted n1)"
        "closing i (sess n1 i)" "seSessionID (sess n1 i) = k" "nlOn n1" "nlSessionCnt n1 = nlSessionCnt n" "nlOs n1 = nlOs n" "nlSeqID n1 = nlSeqID n"
      using closing_send [of i "takeOp i COMPLETE_SEND n0" app] x snd n0 by (auto simp: closing_def k_def x_def)
    show ?thesis by (rule last [OF w0 _ n1(2-8)]) (use False n0' n1(1) in simp)
  qed
qed

text \<open>The first client is accepted.\<close>

lemma first_accept:
  assumes i: "i < CONFIG_SESSION_MAX"
  shows "\<exists>n. net_step serverApp netStart n \<and> (i, COMPLETE_RECV) \<in> set (nlPending n) \<and> seAccepted (sess n i) \<and>
    \<not> seSendFlag (sess n i) \<and> seSendMsgs (sess n i) = [] \<and> seSendQ (sess n i) = [] \<and> seIOcnt (sess n i) = 1 \<and> nlOs n = (\<lambda>_. 0)"
proof -
  define x where "x = sess netStart i"
  note st = netStart_slot [OF i, folded x_def]
  have f: "seIOcnt x = 1" "\<not> seSendFlag x" "seSendMsgs x = []" "seSendQ x = []" using st(1,5) by (auto simp: in_use_def x_def)
  define m where "m = takePending i COMPLETE_ACCEPT netStart"
  have m: "sess m i = x" "nlApp m = newServer 0 (\<lambda>_. 0)" "nlOs m = (\<lambda>_. 0)" "nlOn m"
    using st by (simp_all add: m_def x_def takePending_def)
  have app: "\<exists>s'. serverApp (OnAccept k) (newServer 0 (\<lambda>_. 0)) = Inr ([], s')" for k
    by (simp add: serverApp_def onAccept_def newServer_def requestsOf_def CONFIG_UNAUTH_MAX_SIZE_def Let_def)
  have free: "GetFreeSize (rgFront ring_init) (rgRear ring_init) \<noteq> 0"
    by (simp add: GetFreeSize_def ring_init_def RINGBUFFER_SIZE_def)
  obtain n where "worker serverApp i COMPLETE_ACCEPT [] m = Inr n" "(i, COMPLETE_RECV) \<in> set (nlPending n)"
      "seAccepted (sess n i)" "\<not> seSendFlag (sess n i)" "seSendMsgs (sess n i) = []" "seSendQ (sess n i) = []"
      "seIOcnt (sess n i) = 1" "nlOs n = (\<lambda>_. 0)"
  proof -
    obtain s' where s': "serverApp (OnAccept (seSessionID x)) (newServer 0 (\<lambda>_. 0)) = Inr ([], s')" using app by blast
    define m1 where "m1 = (putS i (x\<lparr>seLive := True, seAccepted := True\<rparr>)
      (m\<lparr>nlAcceptCnt := nlAcceptCnt m + 1, nlSessionCnt := nlSessionCnt m + 1\<rparr>))\<lparr>nlApp := s'\<rparr>"
    have m1: "sess m1 i = x\<lparr>seLive := True, seAccepted := True\<rparr>" "nlOs m1 = (\<lambda>_. 0)" using m by (simp_all add: m1_def putS_def)
    have "completeAcceptEx serverApp i m = registerRecv i m1"
      using f(3) m s' by (simp add: completeAcceptEx_def callback_def m1_def putS_def)
    moreover define m2 where "m2 = pend i COMPLETE_RECV (snd (ask (incIO i m1)))"
    have "registerRecv i m1 = Inr m2"
      using free st(6) m1 by (simp add: registerRecv_def issue_def m2_def ask_def incIO_def putS_def)
    moreover have m2: "sess m2 i = x\<lparr>seLive := True, seAccepted := True, seIOcnt := 2\<rparr>" "nlOs m2 = (\<lambda>_. 0)"
        "(i, COMPLETE_RECV) \<in> set (nlPending m2)"
      using f(1) m1 by (simp add: m2_def incIO_def wrap16_def, simp_all add: m2_def pend_def ask_def incIO_def putS_def)
    ultimately have "worker serverApp i COMPLETE_ACCEPT [] m = Inr (decIO i m2)"
      using f(1) by (simp add: worker_def) (simp add: decIO_def wrap16_def)
    then show thesis using m2 f(2-) by (intro that [of "decIO i m2"]) (simp_all add: decIO_def wrap16_def, simp_all add: putS_def)
  qed
  then show ?thesis using net_step.completed [OF st(4), of "[]" serverApp n] by (auto simp: m_def)
qed

text \<open>A message for the client that has been accepted is posted and counted.\<close>

lemma first_send:
  assumes i: "i < CONFIG_SESSION_MAX"
  shows "\<exists>n. net_reachable serverApp n \<and> (i, COMPLETE_RECV) \<in> set (nlPending n) \<and> seAccepted (sess n i) \<and>
    opCnt COMPLETE_SEND i n = 1 \<and> seSendMsgs (sess n i) = [] \<and> seIOcnt (sess n i) = 2 \<and> nlOs n = (\<lambda>_. 0)"
proof -
  obtain n where n: "net_step serverApp netStart n" "(i, COMPLETE_RECV) \<in> set (nlPending n)" "seAccepted (sess n i)"
      "\<not> seSendFlag (sess n i)" "seSendMsgs (sess n i) = []" "seSendQ (sess n i) = []" "seIOcnt (sess n i) = 1" "nlOs n = (\<lambda>_. 0)"
    using first_accept [OF i] by blast
  have r: "net_reachable serverApp n"
    using n(1) netStart_reachable unfolding net_reachable_def by (meson rtranclp.rtrancl_into_rtrancl)
  have "slot_inv i n" by (rule reachable_slot [OF field_app.network_app_axioms r i])
  then obtain R S where u: "in_use i n R S 0" using n(7) by (auto simp: slot_inv_def released_def)
  define x k where "x = sess n i" and "k = seSessionID x"
  have u: "seqIdx k = int i" "nat (seqIdx k) = i" "opCnt COMPLETE_SEND i n = 0" using u n(4) by (simp_all add: in_use_def k_def x_def)
  have x: "seIOcnt x = 1" "seSendQ x = []" "seSendMsgs x = []" "\<not> seSendFlag x" "seSessionID x = k" "seAccepted x"
    using n by (simp_all add: x_def k_def)
  define msg where "msg = InitMessage 0 k 0"
  define n1 where "n1 = putS i (Session.EnQueueMsg msg (sess (incIO i n) i)) (incIO i n)"
  define n2 where "n2 = post i COMPLETE_SEND (incIO i (putS i ((sess n1 i)\<lparr>seSendFlag := True\<rparr>) n1))"
  have i1: "sess (incIO i n) i = x\<lparr>seIOcnt := 2\<rparr>" using x by (simp add: incIO_def wrap16_def x_def)
  have s1: "sess n1 i = Session.EnQueueMsg msg (x\<lparr>seIOcnt := 2\<rparr>)" by (simp add: n1_def i1)
  have s2: "sess n2 i = (Session.EnQueueMsg msg x)\<lparr>seIOcnt := 3, seSendFlag := True\<rparr>"
    using s1 by (simp add: n2_def incIO_def Session.EnQueueMsg_def wrap16_def)
  have s3: "sess (decIO i n2) i = (Session.EnQueueMsg msg x)\<lparr>seIOcnt := 2, seSendFlag := True\<rparr>"
    using s2 by (simp add: decIO_def wrap16_def)
  have "sessionLock k n = Inr (True, incIO i n)"
    using u i i1 x by (simp add: sessionLock_def Let_def releasing_def RELEASE_IOCOUNT_def)
  moreover have "sessionUnLock k n2 = decIO i n2"
    using u s3 by (simp add: sessionUnLock_def Session.EnQueueMsg_def Let_def)
  moreover have "\<not> seSendFlag (Session.EnQueueMsg msg (sess (incIO i n) i))" using i1 x by (simp add: Session.EnQueueMsg_def)
  ultimately have sp: "Session.sendPost k msg n = Inr (decIO i n2)"
    using u by (simp add: Session.sendPost_def n1_def [symmetric] n2_def [symmetric] Let_def)
  have "net_step serverApp n (decIO i n2)"
    by (rule net_step.sends [OF u(1) i _ _ _ _ sp]) (use x in \<open>simp_all add: x_def msg_def InitMessage_def\<close>)
  then have "net_reachable serverApp (decIO i n2)"
    using r unfolding net_reachable_def by (meson rtranclp.rtrancl_into_rtrancl)
  moreover have "opCnt COMPLETE_SEND i (decIO i n2) = 1" using u(3) by (simp add: n2_def n1_def incIO_def decIO_def)
  moreover have "(i, COMPLETE_RECV) \<in> set (nlPending (decIO i n2))" "nlOs (decIO i n2) = (\<lambda>_. 0)"
    using n(2,8) by (simp_all add: n2_def n1_def incIO_def decIO_def post_def putS_def)
  ultimately show ?thesis using s3 x by (intro exI [of _ "decIO i n2"]) (simp add: Session.EnQueueMsg_def)
qed

lemma closed_slot_reused_witness:
  "\<exists>n n0 n1 n2. net_reachable serverApp n \<and> worker serverApp 7 COMPLETE_RECV [] (takePending 7 COMPLETE_RECV n) = Inr n0 \<and>
     worker serverApp 7 COMPLETE_SEND [] (takeOp 7 COMPLETE_SEND n0) = Inr n1 \<and>
     worker serverApp 7 COMPLETE_RELEASE [] (takePosted 7 COMPLETE_RELEASE n1) = Inr n2 \<and>
     (7, COMPLETE_ACCEPT) \<in> set (nlPending n2)"
proof -
  have i: "7 < CONFIG_SESSION_MAX" by (simp add: CONFIG_SESSION_MAX_def)
  obtain n where n: "net_reachable serverApp n" "(7, COMPLETE_RECV) \<in> set (nlPending n)" "seAccepted (sess n 7)"
      "opCnt COMPLETE_SEND 7 n = 1" "seSendMsgs (sess n 7) = []" "seIOcnt (sess n 7) = 2" "nlOs n = (\<lambda>_. 0)"
    using first_send [OF i] by blast
  have c: "seIOcnt (sess n 7) = 1 + int (opCnt COMPLETE_SEND 7 n)" "nlOs n 0 = 0 \<or> nlOs n 0 = 997" using n by simp_all
  have a: "\<exists>a'. serverApp (OnRelease (seSessionID (sess n 7))) a = Inr ([], a')" for a by (simp add: serverApp_def)
  have b: "\<exists>a'. serverApp (OnSend m) a = Inr ([], a')" for m a by (simp add: serverApp_def)
  from closed_slot_reused [OF field_app.network_app_axioms n(1) i n(2,3) c(1) a b c(2)]
  show ?thesis using n(1,4) by (elim exE) (simp, blast)
qed

subsection \<open>Sending\<close>

lemma issue_sends [simp]:
  "seSendQ (sess (issue i c n) i) = seSendQ (sess n i)" "seSendMsgs (sess (issue i c n) i) = seSendMsgs (sess n i)"
  "seSendFlag (sess (issue i c n) i) = seSendFlag (sess n i)" "nlApp (issue i c n) = nlApp n"
  by (simp_all add: issue_def checkAndHandleIoError_def ask_def incIO_def decIO_def pend_def putS_def Let_def)

lemma onSends: "foldR (\<lambda>msg. callback (pureApp f) (OnSend msg)) ms n = Inr (n\<lparr>nlApp := fold (\<lambda>m. f (OnSend m)) ms (nlApp n)\<rparr>)"
  by (induction ms arbitrary: n) (simp_all add: callback_pure)

text \<open>
  C35. Sending is in order and nothing is lost or doubled: when a send completes, the application is told
  of exactly the messages of that send, and the next send takes those that have waited longest, at
  most \<open>CONFIG_SEND_MESSAGE_MAXCOUNT\<close> (500) of them; the flag of the sending side is
  given up exactly when nothing is waiting.
\<close>

theorem send_in_order:
  assumes n: "in_use i n R 0 1" and f: "seSendFlag (sess n i)"
  shows "\<exists>n'. completeSend (pureApp f) i n = Inr n' \<and>
    nlApp n' = fold (\<lambda>m. f (OnSend m)) (seSendMsgs (sess n i)) (nlApp n) \<and>
    seSendMsgs (sess n' i) @ seSendQ (sess n' i) = seSendQ (sess n i) \<and>
    length (seSendMsgs (sess n' i)) = min (nat CONFIG_SEND_MESSAGE_MAXCOUNT) (length (seSendQ (sess n i))) \<and>
    seSendFlag (sess n' i) = (seSendQ (sess n i) \<noteq> [])"
proof -
  define x where "x = sess n i"
  define a where "a = fold (\<lambda>m. f (OnSend m)) (seSendMsgs x) (nlApp n)"
  define p where "p = putS i (x\<lparr>seSendMsgs := []\<rparr>) (n\<lparr>nlSendCnt := nlSendCnt n + int (length (seSendMsgs x)), nlApp := a\<rparr>)"
  have c: "completeSend (pureApp f) i n = registerSend i p"
    by (simp add: completeSend_def onSends p_def x_def a_def Let_def)
  have p: "sess p i = x\<lparr>seSendMsgs := []\<rparr>" "nlApp p = a" by (simp_all add: p_def putS_def)
  have sz: "seSenqQSize x = int (length (seSendQ x))" "length (seSendQ x) < 32768"
    "\<forall>msg \<in> set (seSendQ x). mOwnerID msg = seSessionID x"
    using n by (simp_all add: in_use_def x_def)
  define k where "k = min (nat CONFIG_SEND_MESSAGE_MAXCOUNT) (length (seSendQ x))"
  have k: "sendBatchCnt (x\<lparr>seSendMsgs := []\<rparr>) = int k" "sendBatchCnt (x\<lparr>seSendMsgs := [], seSendFlag := False\<rparr>) = int k"
    using sz by (simp_all add: sendBatchCnt_def k_def CONFIG_SEND_MESSAGE_MAXCOUNT_def)
  show ?thesis
  proof (cases "seSendQ x = []")
    case True
    then have "k = 0" by (simp add: k_def)
    then have "registerSend i p = Inr (putS i (x\<lparr>seSendMsgs := [], seSendFlag := False\<rparr>) p)"
      using k f p by (simp add: registerSend_def x_def [symmetric] Let_def)
    then show ?thesis using c True p(2) \<open>k = 0\<close>
      by (simp add: x_def [symmetric] a_def [symmetric] k_def [symmetric]) (simp add: putS_def)
  next
    case False
    then have "k \<noteq> 0" by (simp add: k_def CONFIG_SEND_MESSAGE_MAXCOUNT_def)
    define y where "y = x\<lparr>seSendQ := drop k (seSendQ x), seSenqQSize := int (length (seSendQ x)) - int k,
        seSendMsgs := take k (seSendQ x)\<rparr>"
    have ts: "takeSends k (x\<lparr>seSendMsgs := []\<rparr>) = Inr y"
      using takeSends_ok [of k "x\<lparr>seSendMsgs := []\<rparr>"] sz by (simp add: y_def k_def)
    have "registerSend i p = Inr (if seLive y then issue i COMPLETE_SEND (putS i y p) else putS i y p)"
      using \<open>k \<noteq> 0\<close> ts k p by (simp add: registerSend_def Let_def)
    moreover have "seSendFlag y" "nlApp (putS i y p) = a" "seSendMsgs y @ seSendQ y = seSendQ x" "length (seSendMsgs y) = k"
      using f p by (simp_all add: y_def x_def k_def) (simp add: putS_def)
    ultimately show ?thesis using c False
      by (cases "seLive y") (simp_all add: x_def [symmetric] a_def [symmetric] k_def [symmetric])
  qed
qed

lemma send_in_order_witness:
  "\<exists>n n' m1 m2. seSendQ (sess n 7) = [m1, m2] \<and> completeSend serverApp 7 n = Inr n' \<and>
     seSendMsgs (sess n' 7) = [m1, m2] \<and> seSendFlag (sess n' 7)"
proof -
  have i: "7 < CONFIG_SESSION_MAX" by (simp add: CONFIG_SESSION_MAX_def)
  obtain S where m: "in_use 7 (takePending 7 COMPLETE_ACCEPT netStart) 0 S 1" using netStart_held [OF i] by blast
  define n0 where "n0 = takePending 7 COMPLETE_ACCEPT netStart"
  define k where "k = seSessionID (sess n0 7)"
  define ms where "ms = [InitMessage 0 k 0, InitMessage 1 k 0]"
  define n where "n = putS 7 ((sess n0 7)\<lparr>seAccepted := True, seSendFlag := True, seSendQ := ms, seSenqQSize := 2\<rparr>) n0"
  have ow: "\<forall>msg \<in> set ms. mOwnerID msg = k" by (simp add: ms_def InitMessage_def)
  have "\<not> seAccepted (sess n0 7)" using netStart_slot(5) [OF i] by (simp add: n0_def)
  moreover have "opCnt COMPLETE_ACCEPT 7 n0 = 0" using m by (simp add: in_use_def n0_def)
  moreover define y where "y = (sess n0 7)\<lparr>seAccepted := True, seSendFlag := True, seSendQ := ms, seSenqQSize := 2\<rparr>"
  have n: "sess n 7 = y" "opCnt c 7 n = opCnt c 7 n0" "freeCnt 7 n = freeCnt 7 n0" for c by (simp_all add: n_def y_def)
  have y: "seSessionID y = k" "seRecvBuffer y = seRecvBuffer (sess n0 7)" "seIOcnt y = seIOcnt (sess n0 7)" "seSendFlag y"
      "seAccepted y" "seSendQ y = ms" "seSenqQSize y = 2" "seSendMsgs y = seSendMsgs (sess n0 7)" "length ms = 2"
    by (simp_all add: y_def k_def ms_def)
  ultimately have u: "in_use 7 n 0 S 1" using m ow unfolding n0_def [symmetric] in_use_def n y k_def by auto
  have "S = 0" using m netStart_slot(5) [OF i] by (simp add: in_use_def)
  have f: "seSendFlag (sess n 7)" "seSendQ (sess n 7) = ms" by (simp_all add: n_def)
  have l: "min (nat CONFIG_SEND_MESSAGE_MAXCOUNT) (length ms) = 2" "ms \<noteq> []" by (simp_all add: ms_def CONFIG_SEND_MESSAGE_MAXCOUNT_def)
  obtain n' where n': "completeSend (pureApp (\<lambda>_ s. s)) 7 n = Inr n'" "seSendMsgs (sess n' 7) @ seSendQ (sess n' 7) = ms"
      "length (seSendMsgs (sess n' 7)) = 2" "seSendFlag (sess n' 7)"
    using send_in_order [OF u [unfolded \<open>S = 0\<close>] f(1), of "\<lambda>_ s. s"] unfolding f(2) l(1) using l(2) by blast
  then have "seSendMsgs (sess n' 7) = take 2 ms" by (metis append_eq_conv_conj)
  moreover have "callback serverApp (OnSend msg) = callback (pureApp (\<lambda>_ s. s)) (OnSend msg)" for msg
    by (rule ext) (simp add: callback_def serverApp_def pureApp_def)
  then have "completeSend serverApp 7 n = completeSend (pureApp (\<lambda>_ s. s)) 7 n" by (simp add: completeSend_def)
  ultimately show ?thesis using f(2) n' by (auto simp: ms_def)
qed

end
