(* ===== verification/Bot.thy ===== *)
theory Bot
  imports Cdb
begin

text \<open>
  The load generator, \<open>ClientBotProject\<close>: a bot's connection and its small mind (\<open>Session.cpp\<close>), the packets
  it posts (\<open>Packet.h\<close>), and its counters (\<open>PacketStats.cpp\<close>). The process is the record \<open>bots\<close>: clock,
  random numbers and counters; a method of \<open>Session\<close> works on a pair of a bot and the process. \<open>bsSock\<close> says
  that the bot has a socket, the buffers hold the bytes in use of \<open>mSendBuffer\<close> and \<open>mRecvBuffer\<close>.
\<close>

subsection \<open>State\<close>

datatype eBotState = BIdle | BMove | BChase | BAttack | BStun | BRoot | BDead

datatype eSessionState = DISCONNECTED | REQ_CONNECT | CONNECTED | AUTHED

record bot =
  bsSock :: bool
  bsSessionState :: eSessionState
  bsAccountNo :: int
  bsCharacterId :: int
  bsPos :: position
  bsStartMovePos :: position
  bsSpeed :: f32
  bsDirection :: eDirection
  bsConnectTime :: int
  bsAnimFrame :: int
  bsSendBuffer :: "byte list"
  bsRecvBuffer :: "byte list"
  bsLastTime :: int
  bsState :: eBotState
  bsTargetID :: int
  bsTargetPos :: position
  bsTargetItemID :: int
  bsTargetItemPos :: position
  bsHitStunFrame :: int
  bsLootRequested :: bool
  bsBMove :: bool
  bsDeadFrame :: int
  bsDisconnectTime :: int
  bsMonsterKillTime :: int
  bsHasDisconnectPos :: bool

record bots =
  clNow :: int
  clRng :: rng
  clSendCount :: "int \<Rightarrow> int"
  clRecvCount :: "int \<Rightarrow> int"
  clAuthWaitCount :: int
  clDisconnectCount :: int
  clReconnectDeadCount :: int
  clConnectedCount :: int
  clTotalConnectCount :: int
  clTotalRootItemCount :: int

definition SESSION_SEND_BUFFER_SIZE :: int where "SESSION_SEND_BUFFER_SIZE = 1024"
definition SESSION_RECV_BUFFER_SIZE :: int where "SESSION_RECV_BUFFER_SIZE = 40960"
definition changeDirFrame :: int where "changeDirFrame = 25"
definition kBotSpeed :: f32 where "kBotSpeed = f_lit 45 10"

definition newBot :: "int \<Rightarrow> bot" where
  "newBot accountNo =
     \<lparr> bsSock = False, bsSessionState = DISCONNECTED, bsAccountNo = accountNo, bsCharacterId = 0,
       bsPos = Position 0 0, bsStartMovePos = Position 0 0, bsSpeed = f_lit 45 10, bsDirection = DirDown,
       bsConnectTime = 0, bsAnimFrame = 0, bsSendBuffer = [], bsRecvBuffer = [], bsLastTime = 0,
       bsState = BIdle, bsTargetID = - 1, bsTargetPos = Position 0 0, bsTargetItemID = - 1,
       bsTargetItemPos = Position 0 0, bsHitStunFrame = 0, bsLootRequested = False, bsBMove = False,
       bsDeadFrame = 0, bsDisconnectTime = 0, bsMonsterKillTime = 0, bsHasDisconnectPos = False \<rparr>"

type_synonym botCtx = "bot \<times> bots"

subsection \<open>Counters\<close>

definition botRecordSend :: "int \<Rightarrow> bots \<Rightarrow> bots res" where
  "botRecordSend t c = assertR (0 \<le> t \<and> t < PACKET_MAX) (Inr (c\<lparr>clSendCount := (clSendCount c)(t := clSendCount c t + 1)\<rparr>))"

definition botRecordRecv :: "int \<Rightarrow> bots \<Rightarrow> bots res" where
  "botRecordRecv t c = assertR (0 \<le> t \<and> t < PACKET_MAX) (Inr (c\<lparr>clRecvCount := (clRecvCount c)(t := clRecvCount c t + 1)\<rparr>))"

definition GetTotalSendCount :: "bots \<Rightarrow> int" where
  "GetTotalSendCount c = sum_list (map (clSendCount c) [0 .. PACKET_MAX - 1])"

definition GetTotalRecvCount :: "bots \<Rightarrow> int" where
  "GetTotalRecvCount c = sum_list (map (clRecvCount c) [0 .. PACKET_MAX - 1])"

subsection \<open>The connection\<close>

definition Init :: "bot \<Rightarrow> bot res" where
  "Init b = assertR (\<not> bsSock b) (Inr (b\<lparr>bsSock := True, bsSendBuffer := [], bsRecvBuffer := [], bsDeadFrame := 0\<rparr>))"

text \<open>
  \<open>PostSend\<close>: \<open>ret\<close> is what \<open>send\<close> answers, \<open>wouldBlock\<close> says that the last error is \<open>WSAEWOULDBLOCK\<close>.
\<close>

definition PostSend :: "int \<Rightarrow> bool \<Rightarrow> bot \<Rightarrow> bot res" where
  "PostSend ret wouldBlock b =
     (if ret \<le> 0 then assertR (\<not> wouldBlock) (Inr b)
      else assertR (ret \<le> int (length (bsSendBuffer b))) (Inr (b\<lparr>bsSendBuffer := drop (nat ret) (bsSendBuffer b)\<rparr>)))"

text \<open>What \<open>recv\<close> answers: bytes, the end of the stream, or an error.\<close>

datatype recvRes = Received "byte list" | Finished | RecvError bool

definition Recv :: "recvRes \<Rightarrow> bot \<Rightarrow> (bool \<times> bot) res" where
  "Recv r b =
     assertR (0 < SESSION_RECV_BUFFER_SIZE - int (length (bsRecvBuffer b)))
       (case r of
          Finished \<Rightarrow> Inr (False, b)
        | RecvError wouldBlock \<Rightarrow> Inr (wouldBlock, b)
        | Received bs \<Rightarrow> Inr (True, b\<lparr>bsRecvBuffer := bsRecvBuffer b @ bs\<rparr>))"

definition EnqueueSend :: "byte list \<Rightarrow> botCtx \<Rightarrow> botCtx res" where
  "EnqueueSend data bc =
     (case bc of (b, c) \<Rightarrow>
      let b = b\<lparr>bsLastTime := clNow c\<rparr>
      in assertR (int (length (bsSendBuffer b)) + int (length data) \<le> SESSION_SEND_BUFFER_SIZE)
           (Inr (b\<lparr>bsSendBuffer := bsSendBuffer b @ data\<rparr>, c)))"

definition botDisconnect :: "int \<Rightarrow> bot \<Rightarrow> bot" where
  "botDisconnect currentTime b = b\<lparr>bsSock := False, bsSessionState := DISCONNECTED, bsDisconnectTime := currentTime\<rparr>"

definition ConnectComplete :: "botCtx \<Rightarrow> botCtx" where
  "ConnectComplete bc = (case bc of (b, c) \<Rightarrow> (b\<lparr>bsConnectTime := clNow c\<rparr>, c))"

subsection \<open>The packets\<close>

text \<open>A packet of \<open>Packet.h\<close>, packed: header, type and fields.\<close>

definition botPacket :: "int \<Rightarrow> int \<Rightarrow> byte list list \<Rightarrow> byte list" where
  "botPacket len type fs = headerBytes \<lparr> hLen = len, hRandKey = 0 \<rparr> @ enc 2 type @ concat fs"

definition botPost :: "int \<Rightarrow> int \<Rightarrow> byte list list \<Rightarrow> botCtx \<Rightarrow> botCtx res" where
  "botPost type len fs bc =
     bindR (EnqueueSend (botPacket len type fs) bc) (\<lambda>(b, c). bindR (botRecordSend type c) (\<lambda>c. Inr (b, c)))"

definition botPw :: "byte list" where
  "botPw = ascii ''botpass123''"

definition botName :: "int \<Rightarrow> byte list" where
  "botName accountNo = snprintf 20 (ascii ''bot'' @ showI accountNo)"

definition PostFieldAuthReq :: "botCtx \<Rightarrow> botCtx res" where
  "PostFieldAuthReq bc =
     (let name = botName (bsAccountNo (fst bc))
      in botPost FIELD_AUTH_REQ (2 + 20 + 64)
           [name @ replicate (20 - length name) 0, botPw @ replicate (64 - length botPw) 0] bc)"

definition postMoveStart :: "eDirection \<Rightarrow> botCtx \<Rightarrow> botCtx res" where
  "postMoveStart dir bc =
     bindR (botPost MOVE_START (2 + 8 + 4 + 4 + 1 + 4)
       [enc 8 (bsCharacterId (fst bc)), encF (posX (bsPos (fst bc))), encF (posY (bsPos (fst bc))), enc 1 dir, encF kBotSpeed] bc)
       (\<lambda>(b, c). Inr (b\<lparr>bsStartMovePos := bsPos b, bsDirection := dir, bsAnimFrame := 0\<rparr>, c))"

definition postMoveStop :: "botCtx \<Rightarrow> botCtx res" where
  "postMoveStop bc =
     bindR (botPost MOVE_STOP (2 + 8 + 4 + 4 + 1)
       [enc 8 (bsCharacterId (fst bc)), encF (posX (bsPos (fst bc))), encF (posY (bsPos (fst bc))), enc 1 (bsDirection (fst bc))] bc)
       (\<lambda>(b, c). Inr (b\<lparr>bsStartMovePos := bsPos b, bsAnimFrame := 0\<rparr>, c))"

definition postAttackReq :: "botCtx \<Rightarrow> botCtx res" where
  "postAttackReq bc = botPost PLAYER_ATTACK_REQ (2 + 1 + 2 + 8) [enc 1 0, enc 2 1, enc 8 (bsTargetID (fst bc))] bc"

definition postLootReq :: "botCtx \<Rightarrow> botCtx res" where
  "postLootReq bc = botPost LOOT_REQ (2 + 8) [enc 8 (bsTargetItemID (fst bc))] bc"

definition postHeartBeat :: "botCtx \<Rightarrow> botCtx" where
  "postHeartBeat bc = bc"

definition traceMove :: "bool \<Rightarrow> botCtx \<Rightarrow> botCtx" where
  "traceMove on bc = (case bc of (b, c) \<Rightarrow> (b\<lparr>bsBMove := on\<rparr>, c))"

subsection \<open>The mind\<close>

definition botResetAnim :: "bot \<Rightarrow> bot" where
  "botResetAnim b = b\<lparr>bsAnimFrame := 0, bsStartMovePos := bsPos b\<rparr>"

definition botChangeState :: "eBotState \<Rightarrow> botCtx \<Rightarrow> botCtx res" where
  "botChangeState mode bc =
     (case bc of (b, c) \<Rightarrow> assertR (mode \<noteq> bsState b) (Inr (botResetAnim (b\<lparr>bsState := mode\<rparr>), c)))"

definition botRand :: "bots \<Rightarrow> int \<times> bots" where
  "botRand c = (case rand (clRng c) of (r, g) \<Rightarrow> (r, c\<lparr>clRng := g\<rparr>))"

text \<open>The idiom \<open>if (mBMove) { postMoveStop(); traceMove(.., false); }\<close>.\<close>

definition stopIfMoving :: "botCtx \<Rightarrow> botCtx res" where
  "stopIfMoving bc = (if bsBMove (fst bc) then bindR (postMoveStop bc) (\<lambda>bc. Inr (traceMove False bc)) else Inr bc)"

text \<open>A monster that has not died for ten seconds is given up; the sum is one of \<open>uint32_t\<close>.\<close>

definition forgetTarget :: "botCtx \<Rightarrow> botCtx" where
  "forgetTarget bc =
     (case bc of (b, c) \<Rightarrow>
      if bsMonsterKillTime b \<noteq> 0 \<and> u32 (bsMonsterKillTime b + 10000) \<le> clNow c
      then (b\<lparr>bsTargetID := - 1, bsMonsterKillTime := 0\<rparr>, c) else (b, c))"

definition botIdle :: "botCtx \<Rightarrow> botCtx res" where
  "botIdle bc =
     (case forgetTarget bc of (b, c) \<Rightarrow>
      if bsTargetItemID b \<noteq> - 1 then botChangeState BRoot (b, c)
      else if bsTargetID b \<noteq> - 1 then botChangeState BChase (b, c)
      else case botRand c of (r, c) \<Rightarrow>
        if r mod 100 \<le> 5
        then case botRand c of (r, c) \<Rightarrow>
             bindR (postMoveStart (r mod DirMax) (b, c)) (\<lambda>bc.
             bindR (botChangeState BMove bc) (\<lambda>bc. Inr (traceMove True bc)))
        else Inr (b, c))"

definition botMove :: "botCtx \<Rightarrow> botCtx res" where
  "botMove bc =
     (case bc of (b, c) \<Rightarrow> case botRand c of (r, c) \<Rightarrow>
      let randNum = r mod 100 in
      if randNum = 0
      then bindR (postMoveStop (b, c)) (\<lambda>bc. bindR (botChangeState BIdle bc) (\<lambda>bc. Inr (traceMove False bc)))
      else if randNum = 1 \<and> changeDirFrame \<le> bsAnimFrame b
      then case botRand c of (r, c) \<Rightarrow>
           bindR (postMoveStop (b, c)) (\<lambda>bc.
           bindR (postMoveStart (r mod DirMax) (traceMove False bc)) (\<lambda>bc. Inr (traceMove True bc)))
      else Inr (b, c))"

definition botRange :: f32 where
  "botRange = (case getSkillConfig 0 of None \<Rightarrow> f_lit 0 1 | Some (rangeLen, _) \<Rightarrow> rangeLen)"

definition botChase :: "botCtx \<Rightarrow> botCtx res" where
  "botChase bc =
     (case bc of (b, c) \<Rightarrow>
      let dirToTarget = getDirectionTo (posX (bsPos b)) (posY (bsPos b)) (posX (bsTargetPos b)) (posY (bsTargetPos b)) in
      if isInAttackRange (posX (bsPos b)) (posY (bsPos b)) (posX (bsTargetPos b)) (posY (bsTargetPos b)) botRange
      then bindR (stopIfMoving (b, c)) (\<lambda>(b, c).
           let b = (if bsMonsterKillTime b = 0 then b\<lparr>bsMonsterKillTime := clNow c\<rparr> else b);
               b = b\<lparr>bsDirection := dirToTarget\<rparr>
           in bindR (postAttackReq (b, c)) (botChangeState BAttack))
      else if changeDirFrame \<le> bsAnimFrame b
      then bindR (stopIfMoving (b\<lparr>bsAnimFrame := 0\<rparr>, c)) (\<lambda>bc.
           bindR (postMoveStart dirToTarget bc) (\<lambda>bc. Inr (traceMove True bc)))
      else Inr (b, c))"

definition botAttack :: "botCtx \<Rightarrow> botCtx res" where
  "botAttack bc = (if bsAnimFrame (fst bc) = PLAYER_ATTACK_TOTAL_FRAME then botChangeState BIdle bc else Inr bc)"

definition botStun :: "botCtx \<Rightarrow> botCtx res" where
  "botStun bc = (if bsAnimFrame (fst bc) = PLAYER_HIT_STUN_FRAME then botChangeState BIdle bc else Inr bc)"

definition botRoot :: "botCtx \<Rightarrow> botCtx res" where
  "botRoot bc =
     (case bc of (b, c) \<Rightarrow>
      if bsTargetItemID b = - 1 then bindR (stopIfMoving (b, c)) (botChangeState BIdle)
      else if bsLootRequested b then Inr (b, c)
      else if f_lt LOOT_RANGE (pos_dist (bsPos b) (bsTargetItemPos b))
      then let dirToTarget = getDirectionTo (posX (bsPos b)) (posY (bsPos b)) (posX (bsTargetItemPos b)) (posY (bsTargetItemPos b))
           in if changeDirFrame \<le> bsAnimFrame b
              then bindR (stopIfMoving (b, c)) (\<lambda>bc.
                   bindR (postMoveStart dirToTarget bc) (\<lambda>bc. Inr (traceMove True bc)))
              else Inr (b, c)
      else bindR (stopIfMoving (b, c)) (\<lambda>bc.
           bindR (postLootReq bc) (\<lambda>(b, c). Inr (b\<lparr>bsLootRequested := True\<rparr>, c))))"

definition botDead :: "botCtx \<Rightarrow> botCtx res" where
  "botDead bc = (case bc of (b, c) \<Rightarrow> Inr (b\<lparr>bsDeadFrame := wrap32 (bsDeadFrame b + 1)\<rparr>, c))"

definition selectAction :: "botCtx \<Rightarrow> botCtx" where
  "selectAction bc = (if u32 (bsLastTime (fst bc) + 20000) \<le> clNow (snd bc) then postHeartBeat bc else bc)"

text \<open>The way of a moving bot, reckoned as the server reckons it.\<close>

definition botReckon :: "bot \<Rightarrow> bot res" where
  "botReckon b =
     (if bsBMove b
      then bindR (dirVector (bsDirection b)) (\<lambda>v.
           Inr (b\<lparr>bsPos := moveTo (bsStartMovePos b) v (bsSpeed b) (bsAnimFrame b)\<rparr>))
      else Inr b)"

definition botUpdate :: "botCtx \<Rightarrow> botCtx res" where
  "botUpdate bc =
     (case bc of (b, c) \<Rightarrow>
      bindR (botReckon b) (\<lambda>b.
      bindR (case bsState b of
          BIdle \<Rightarrow> botIdle (b, c)
        | BMove \<Rightarrow> botMove (b, c)
        | BChase \<Rightarrow> botChase (b, c)
        | BAttack \<Rightarrow> botAttack (b, c)
        | BStun \<Rightarrow> botStun (b, c)
        | BRoot \<Rightarrow> botRoot (b, c)
        | BDead \<Rightarrow> botDead (b, c)) (\<lambda>(b, c).
      Inr (selectAction (b\<lparr>bsAnimFrame := wrap64 (bsAnimFrame b + 1)\<rparr>, c)))))"

subsection \<open>What happens to a bot\<close>

definition ChaseTarget :: "int \<Rightarrow> position \<Rightarrow> bot \<Rightarrow> bot" where
  "ChaseTarget targetID targetPos b =
     (if bsTargetID b = targetID then b\<lparr>bsTargetPos := targetPos\<rparr>
      else if bsTargetID b = - 1 then b\<lparr>bsTargetID := targetID, bsTargetPos := targetPos\<rparr>
      else b)"

definition ChaseItem :: "int \<Rightarrow> position \<Rightarrow> bot \<Rightarrow> bot" where
  "ChaseItem targetID targetPos b =
     b\<lparr>bsTargetItemID := targetID, bsTargetItemPos := targetPos, bsLootRequested := False\<rparr>"

definition botTakeDamage :: "int \<Rightarrow> f32 \<Rightarrow> f32 \<Rightarrow> botCtx \<Rightarrow> botCtx res" where
  "botTakeDamage hp x y bc =
     (case bc of (b, c) \<Rightarrow>
      if bsState b = BDead then Inr (b, c)
      else let b = b\<lparr>bsMonsterKillTime := clNow c, bsPos := Position x y, bsStartMovePos := Position x y,
                     bsTargetPos := Position x y\<rparr>;
               bc = (if bsBMove b then traceMove False (b, c) else (b, c))
           in if hp \<le> 0 then botChangeState BDead bc
              else case bc of (b, c) \<Rightarrow>
                let b = b\<lparr>bsAnimFrame := 0, bsHitStunFrame := PLAYER_HIT_STUN_FRAME\<rparr>
                in if bsState b = BStun then Inr (botResetAnim b, c) else botChangeState BStun (b, c))"

definition MonsterChaseInit :: "bot \<Rightarrow> bot res" where
  "MonsterChaseInit b = assertR (bsTargetID b \<noteq> - 1) (Inr (b\<lparr>bsTargetID := - 1\<rparr>))"

definition ItemChaseInit :: "bot \<Rightarrow> bot res" where
  "ItemChaseInit b = assertR (bsTargetItemID b \<noteq> - 1) (Inr (b\<lparr>bsTargetItemID := - 1\<rparr>))"

end
