(* ===== verification/BotThread.thy ===== *)
theory BotThread
  imports Bot
begin

text \<open>
  The threads of the load generator (\<open>ClientBot.cpp\<close>): connecting, the round of \<open>select\<close>, the packets a bot
  takes from its stream and what it does about each. What the sockets answer is the environment, an argument.
\<close>

subsection \<open>What a bot does about a packet\<close>

definition fldS :: "nat \<Rightarrow> nat \<Rightarrow> byte list \<Rightarrow> int" where "fldS k n bs = decS (take n (drop k bs))"
definition fldF :: "nat \<Rightarrow> byte list \<Rightarrow> f32" where "fldF k bs = decF (take 4 (drop k bs))"
definition fldPos :: "nat \<Rightarrow> byte list \<Rightarrow> position" where "fldPos k bs = Position (fldF k bs) (fldF (k + 4) bs)"

text \<open>\<open>FieldAuthResPayload\<close>: number and position; on a second login the position must be near the last one.\<close>

definition handleFieldAuth :: "byte list \<Rightarrow> botCtx \<Rightarrow> botCtx res" where
  "handleFieldAuth res bc =
     (case bc of (b, c) \<Rightarrow>
      assertR (bsHasDisconnectPos b \<longrightarrow>
          f_le (pos_dist (bsPos b) (fldPos 10 res)) (f_mul (bsSpeed b) (f_of_int ALLOW_DELAY_FRAME)))
        (case ConnectComplete (b, c) of (b, c) \<Rightarrow>
         Inr (b\<lparr>bsCharacterId := fldS 2 8 res, bsPos := fldPos 10 res, bsSessionState := AUTHED, bsHasDisconnectPos := True\<rparr>,
              c\<lparr>clAuthWaitCount := clAuthWaitCount c - 1\<rparr>)))"

definition handleMonsterMoveStop :: "byte list \<Rightarrow> botCtx \<Rightarrow> botCtx res" where
  "handleMonsterMoveStop pkt bc =
     (case bc of (b, c) \<Rightarrow>
      Inr (if bsState b \<in> {BIdle, BChase, BAttack} then ChaseTarget (fldS 2 8 pkt) (fldPos 10 pkt) b else b, c))"

definition handleMonsterDamaged :: "byte list \<Rightarrow> botCtx \<Rightarrow> botCtx res" where
  "handleMonsterDamaged pkt bc =
     (case bc of (b, c) \<Rightarrow>
      if fldS 2 8 pkt = bsTargetID b \<and> fldS 10 4 pkt \<le> 0
      then bindR (MonsterChaseInit b) (\<lambda>b. Inr (b\<lparr>bsMonsterKillTime := 0\<rparr>, c))
      else Inr (b, c))"

definition handleCharecterDamaged :: "byte list \<Rightarrow> botCtx \<Rightarrow> botCtx res" where
  "handleCharecterDamaged pkt bc =
     (case bc of (b, c) \<Rightarrow>
      if fldS 2 8 pkt \<noteq> bsCharacterId b then Inr (b, c)
      else bindR (botTakeDamage (fldS 10 4 pkt) (fldF 14 pkt) (fldF 18 pkt) (b, c)) (\<lambda>(b, c).
           if bsState b = BDead then Inr (b, c)
           else Inr (ChaseTarget (fldS 23 8 pkt) (bsPos b) b, c)))"

definition handleItemSpawn :: "byte list \<Rightarrow> botCtx \<Rightarrow> botCtx res" where
  "handleItemSpawn pkt bc =
     (case bc of (b, c) \<Rightarrow>
      Inr (if bsTargetItemID b = - 1
           then ChaseItem (fldS 2 8 pkt) (fldPos 11 pkt) (b\<lparr>bsTargetItemID := fldS 2 8 pkt\<rparr>) else b, c))"

definition handleLootRes :: "byte list \<Rightarrow> botCtx \<Rightarrow> botCtx res" where
  "handleLootRes pkt bc =
     (case bc of (b, c) \<Rightarrow>
      let c = (if fldS 2 1 pkt = 0 then c\<lparr>clTotalRootItemCount := clTotalRootItemCount c + 1\<rparr> else c)
      in bindR (ItemChaseInit b) (\<lambda>b. Inr (b, c)))"

text \<open>
  \<open>payload\<close>: the bytes behind the header, the packet's first. A payload of one byte makes the code read the
  next byte of the buffer as half of the type; past the end of what was received the model gives it no value.
\<close>

definition botPacketProc :: "byte list \<Rightarrow> int \<Rightarrow> botCtx \<Rightarrow> botCtx res" where
  "botPacketProc payload len bc =
     (if length payload < 2 then Inl UndefinedBehaviour
      else case bc of (b, c) \<Rightarrow>
        let type = fldS 0 2 payload in
        bindR (botRecordRecv type c) (\<lambda>c.
        if type = FIELD_AUTH_RES then assertR (len = 2 + 8 + 4 + 4) (handleFieldAuth payload (b, c))
        else if type = FIELD_AUTH_FAIL then Inl DebugBreak
        else if type = MONSTER_MOVE_STOP then assertR (len = 2 + 8 + 4 + 4 + 1) (handleMonsterMoveStop payload (b, c))
        else if type = MONSTER_DAMAGED then assertR (len = 2 + 8 + 4 + 4 + 4 + 1) (handleMonsterDamaged payload (b, c))
        else if type = CHARACTER_DAMAGED then assertR (len = 2 + 8 + 4 + 4 + 4 + 1 + 8) (handleCharecterDamaged payload (b, c))
        else if type = ITEM_SPAWN then assertR (len = 2 + 8 + 1 + 4 + 4) (handleItemSpawn payload (b, c))
        else if type = LOOT_RES then assertR (len = 2 + 1 + 1 + 4) (handleLootRes payload (b, c))
        else Inr (b, c)))"

subsection \<open>The stream of a bot\<close>

function botPackets :: "byte list \<Rightarrow> botCtx \<Rightarrow> (byte list \<times> botCtx) res" where
  "botPackets bs bc =
     (if length bs < 3 then Inr (bs, bc)
      else let h = headerOf bs in
        if hLen h \<le> 0 then Inl DebugBreak
        else let packetSize = 3 + nat (hLen h) in
          if length bs < packetSize then Inr (bs, bc)
          else bindR (botPacketProc (drop 3 bs) (hLen h) bc) (\<lambda>bc. botPackets (drop packetSize bs) bc))"
  by pat_completeness auto
termination
  by (relation "measure (\<lambda>(bs, bc). length bs)") auto

declare botPackets.simps [simp del]

definition recvPacketProc :: "botCtx \<Rightarrow> botCtx res" where
  "recvPacketProc bc =
     bindR (botPackets (bsRecvBuffer (fst bc)) bc) (\<lambda>(bs, b, c). Inr (b\<lparr>bsRecvBuffer := bs\<rparr>, c))"

subsection \<open>Connecting\<close>

text \<open>
  \<open>ok\<close>: address, socket and \<open>ioctlsocket\<close> were fine; \<open>pending\<close>: \<open>connect\<close> answered 0 or would block.
\<close>

definition connectSession :: "bool \<Rightarrow> bool \<Rightarrow> botCtx \<Rightarrow> botCtx res" where
  "connectSession ok pending bc =
     (case bc of (b, c) \<Rightarrow>
      bindR (Init b) (\<lambda>b.
      assertR ok
        (let c = c\<lparr>clTotalConnectCount := clTotalConnectCount c + 1\<rparr>
         in assertR pending (Inr (b\<lparr>bsSessionState := REQ_CONNECT\<rparr>, c)))))"

text \<open>One entry of the environment per session: what \<open>connect\<close>, \<open>select\<close>, \<open>send\<close> and \<open>recv\<close> answer.\<close>

record botIo =
  ioSocket :: bool
  ioPending :: bool
  ioRead :: bool
  ioWrite :: bool
  ioExcept :: bool
  ioSend :: int
  ioWouldBlock :: bool
  ioRecv :: recvRes

fun mapBots :: "('e \<Rightarrow> botCtx \<Rightarrow> botCtx res) \<Rightarrow> 'e list \<Rightarrow> bot list \<Rightarrow> bots \<Rightarrow> (bot list \<times> bots) res" where
  "mapBots f (e # es) (b # bs) c =
     bindR (f e (b, c)) (\<lambda>(b, c). bindR (mapBots f es bs c) (\<lambda>(bs, c). Inr (b # bs, c)))"
| "mapBots f _ bs c = Inr (bs, c)"

definition connectSessions :: "botIo list \<Rightarrow> bot list \<Rightarrow> bots \<Rightarrow> (bot list \<times> bots) res" where
  "connectSessions = mapBots (\<lambda>e. connectSession (ioSocket e) (ioPending e))"

subsection \<open>A round of select\<close>

text \<open>The sets a socket is put in: read, write, except.\<close>

type_synonym interest = "bool \<times> bool \<times> bool"

definition registerBot :: "int \<Rightarrow> botIo \<Rightarrow> botCtx \<Rightarrow> (interest \<times> botCtx) res" where
  "registerBot currentTime e bc =
     (case bc of (b, c) \<Rightarrow>
      case bsSessionState b of
        REQ_CONNECT \<Rightarrow> Inr ((False, True, True), b, c)
      | DISCONNECTED \<Rightarrow>
          if 2 ^ 31 \<le> bsDisconnectTime b + 1000 then Inl UndefinedBehaviour
          else if bsDisconnectTime b + 1000 \<le> currentTime
          then bindR (connectSession (ioSocket e) (ioPending e) (b, c)) (\<lambda>bc. Inr ((False, True, True), bc))
          else Inr ((False, False, False), b, c)
      | _ \<Rightarrow>
          if bsState b = BDead \<and> 500 \<le> bsDeadFrame b
          then Inr ((False, False, False), botDisconnect currentTime b,
                 c\<lparr>clReconnectDeadCount := clReconnectDeadCount c + 1, clConnectedCount := clConnectedCount c - 1\<rparr>)
          else Inr ((True, bsSendBuffer b \<noteq> [], False), b, c))"

fun registerBots :: "int \<Rightarrow> botIo list \<Rightarrow> bot list \<Rightarrow> bots \<Rightarrow> (interest list \<times> bot list \<times> bots) res" where
  "registerBots t (e # es) (b # bs) c =
     bindR (registerBot t e (b, c)) (\<lambda>(i, b, c).
     bindR (registerBots t es bs c) (\<lambda>(is, bs, c). Inr (i # is, b # bs, c)))"
| "registerBots t _ bs c = Inr ([], bs, c)"

text \<open>What \<open>select\<close> left of the sets of a socket, and how many of them.\<close>

definition isReady :: "interest \<Rightarrow> botIo \<Rightarrow> interest" where
  "isReady i e = (case i of (rd, wr, ex) \<Rightarrow> (rd \<and> ioRead e, wr \<and> ioWrite e, ex \<and> ioExcept e))"

definition readyCnt :: "interest \<Rightarrow> int" where
  "readyCnt i = (case i of (rd, wr, ex) \<Rightarrow> of_bool rd + of_bool wr + of_bool ex)"

definition botReceive :: "int \<Rightarrow> recvRes \<Rightarrow> botCtx \<Rightarrow> botCtx res" where
  "botReceive currentTime r bc =
     (case bc of (b, c) \<Rightarrow>
      bindR (Recv r b) (\<lambda>(ok, b).
      if \<not> ok
      then let c = (if bsSessionState b = CONNECTED then c\<lparr>clAuthWaitCount := clAuthWaitCount c - 1\<rparr> else c);
               c = c\<lparr>clDisconnectCount := clDisconnectCount c + 1, clConnectedCount := clConnectedCount c - 1\<rparr>
           in Inr (botDisconnect currentTime b, c)
      else recvPacketProc (b, c)))"

definition serveBot :: "int \<Rightarrow> interest \<Rightarrow> botIo \<Rightarrow> int \<Rightarrow> botCtx \<Rightarrow> (int \<times> botCtx) res" where
  "serveBot currentTime ready e retCnt bc =
     (case ready of (rd, wr, ex) \<Rightarrow> case bc of (b, c) \<Rightarrow>
      case bsSessionState b of
        REQ_CONNECT \<Rightarrow>
          if ex then Inr (retCnt - 1, b\<lparr>bsSock := False, bsSessionState := DISCONNECTED\<rparr>, c)
          else if wr
          then bindR (PostFieldAuthReq (b\<lparr>bsSessionState := CONNECTED, bsState := BIdle\<rparr>, c)) (\<lambda>(b, c).
               Inr (retCnt - 1, b, c\<lparr>clAuthWaitCount := clAuthWaitCount c + 1, clConnectedCount := clConnectedCount c + 1\<rparr>))
          else Inr (retCnt, b, c)
      | DISCONNECTED \<Rightarrow> Inr (retCnt, b, c)
      | _ \<Rightarrow>
          bindR (if wr then bindR (PostSend (ioSend e) (ioWouldBlock e) b) (\<lambda>b. Inr (retCnt - 1, b)) else Inr (retCnt, b))
            (\<lambda>(retCnt, b).
          if rd then bindR (botReceive currentTime (ioRecv e) (b, c)) (\<lambda>bc. Inr (retCnt - 1, bc))
          else Inr (retCnt, b, c)))"

fun serveBots ::
    "int \<Rightarrow> interest list \<Rightarrow> botIo list \<Rightarrow> int \<Rightarrow> bot list \<Rightarrow> bots \<Rightarrow> (bot list \<times> bots) res" where
  "serveBots t (i # is) (e # es) retCnt (b # bs) c =
     (if retCnt = 0 then Inr (b # bs, c)
      else bindR (serveBot t i e retCnt (b, c)) (\<lambda>(retCnt, b, c).
           bindR (serveBots t is es retCnt bs c) (\<lambda>(bs, c). Inr (b # bs, c))))"
| "serveBots t _ _ retCnt bs c = Inr (bs, c)"

text \<open>\<open>failed\<close>: \<open>select\<close> itself answered an error; the round says whether the thread goes on.\<close>

definition selectLogic :: "bool \<Rightarrow> botIo list \<Rightarrow> bot list \<Rightarrow> bots \<Rightarrow> (bool \<times> bot list \<times> bots) res" where
  "selectLogic failed es bs c =
     (let currentTime = wrap32 (clNow c) in
      bindR (registerBots currentTime es bs c) (\<lambda>(is, bs, c).
      if failed then Inr (False, bs, c)
      else let ready = map2 isReady is es in
           bindR (serveBots currentTime ready es (sum_list (map readyCnt ready)) bs c) (\<lambda>(bs, c). Inr (True, bs, c))))"

subsection \<open>A thread\<close>

definition updateBots :: "bot list \<Rightarrow> bots \<Rightarrow> (bot list \<times> bots) res" where
  "updateBots bs c =
     mapBots (\<lambda>_ (b, c). if bsSessionState b = AUTHED then botUpdate (b, c) else Inr (b, c)) bs bs c"

text \<open>One pass of the endless loop; \<open>nextTime\<close> is when the next frame is due.\<close>

definition selectThread :: "bool \<Rightarrow> botIo list \<Rightarrow> int \<times> bot list \<times> bots \<Rightarrow> (bool \<times> int \<times> bot list \<times> bots) res" where
  "selectThread failed es st =
     (case st of (nextTime, bs, c) \<Rightarrow>
      bindR (if nextTime \<le> clNow c
             then bindR (updateBots bs c) (\<lambda>(bs, c). Inr (u32 (nextTime + 20), bs, c))
             else Inr (nextTime, bs, c)) (\<lambda>(nextTime, bs, c).
      bindR (selectLogic failed es bs c) (\<lambda>(go, bs, c). Inr (go, nextTime, bs, c))))"

subsection \<open>The threads\<close>

definition MAX_THREAD_CNT :: int where "MAX_THREAD_CNT = 20"

text \<open>The number of bots that the input takes, the threads, and how many bots each has.\<close>

definition startInput :: "int \<Rightarrow> bool" where
  "startInput userCnt \<longleftrightarrow> \<not> (1280 < userCnt \<or> 0 \<ge> userCnt)"

definition mThreadCnt :: "int \<Rightarrow> int" where "mThreadCnt userCnt = (userCnt - 1) div 64 + 1"

definition sessionCnts :: "int \<Rightarrow> int list" where
  "sessionCnts userCnt =
     map (\<lambda>i. if i = mThreadCnt userCnt - 1 then userCnt - 64 * i else 64) [0 .. mThreadCnt userCnt - 1]"

end
