(* ===== verification/BotInv.thy ===== *)
theory BotInv
  imports BotThread NetStream HandlersInv
begin

text \<open>
  What the mind of a bot keeps, and what it posts: every update succeeds, keeps the bot in the map, and
  puts only packets into the buffer that the server takes.
\<close>

subsection \<open>Invariant\<close>

definition bot_ok :: "bot \<Rightarrow> bool" where
  "bot_ok b \<longleftrightarrow> in_map (bsPos b) \<and> in_map (bsStartMovePos b) \<and> dir_ok (bsDirection b) \<and>
     bsSpeed b = kBotSpeed \<and> - (2 ^ 63) \<le> bsAnimFrame b \<and> bsAnimFrame b < 2 ^ 63"

definition posted :: "int \<Rightarrow> bots \<Rightarrow> bots" where
  "posted t c = c\<lparr>clSendCount := (clSendCount c)(t := clSendCount c t + 1)\<rparr>"

lemma posted_simps [simp]: "clNow (posted t c) = clNow c" "clRng (posted t c) = clRng c"
  by (simp_all add: posted_def)

text \<open>
  A payload that is a packet of a player in the field, whole and with possible contents, whatever message it
  arrives in.
\<close>

definition acceptable :: "byte list \<Rightarrow> bool" where
  "acceptable bs \<longleftrightarrow> packet_ok ((InitMessage 0 0 0)\<lparr>mBuf := bs\<rparr>) \<and>
     fS 0 2 bs \<in> {MOVE_START, MOVE_STOP, PLAYER_ATTACK_REQ, LOOT_REQ, RANKING_REQ}"

lemma acceptable_eq:
  "acceptable bs \<longleftrightarrow> 2 \<le> length bs \<and>
     (let t = fS 0 2 bs; u = drop 2 bs in
      0 \<le> t \<and> t < kTableSize \<and>
      (t = MOVE_START \<longrightarrow> movement_ok u \<and> 21 \<le> length u \<and> fF 17 u = f_lit 45 10) \<and>
      (t = MOVE_STOP \<longrightarrow> movement_ok u) \<and>
      (t = PLAYER_ATTACK_REQ \<longrightarrow> 3 \<le> length u \<and> 3 + 8 * nat (fS 1 2 u) \<le> length u) \<and>
      (t = LOOT_REQ \<longrightarrow> 8 \<le> length u)) \<and> fS 0 2 bs \<in> {MOVE_START, MOVE_STOP, PLAYER_ATTACK_REQ, LOOT_REQ, RANKING_REQ}"
  by (simp add: acceptable_def packet_ok_def InitMessage_def readable_def unread_def)

text \<open>
  What the field makes of a payload, from any of its players and in any state of its invariant: the handler of
  its type succeeds and keeps the invariant. The one exception is a \<open>MOVE_START\<close> from so far away that the account
  of deviations of the player passes its limit: the server stops at its assertion.
\<close>

definition field_takes :: "byte list \<Rightarrow> bool" where
  "field_takes bs \<longleftrightarrow> fS 0 2 bs \<in> {MOVE_START, MOVE_STOP, PLAYER_ATTACK_REQ, LOOT_REQ, RANKING_REQ} \<and>
     (\<forall>s msg. field_inv s \<and> room 1 s \<and> mOwnerID msg \<in> set (svPlayers s) \<and> readable msg \<and> unread msg = bs \<longrightarrow>
       (\<exists>s'. fieldContentsPacketProc msg s = Inr s' \<and> field_inv s') \<or>
       fS 0 2 bs = MOVE_START \<and> tooFar (theP s (mOwnerID msg)) (fPos (drop 2 bs)) \<and>
         fieldContentsPacketProc msg s = Inl DebugBreak)"

lemma acceptable_taken: "acceptable bs \<Longrightarrow> field_takes bs"
proof -
  assume a: "acceptable bs"
  have "packet_ok msg" if "readable msg" "unread msg = bs" for msg
    using a that unfolding acceptable_def by (simp add: packet_ok_def InitMessage_def unread_def)
  then show "field_takes bs"
    using a fieldContentsPacketProc_far unfolding field_takes_def acceptable_def okf_def by blast
qed

text \<open>The payloads of the packets.\<close>

definition stopBody :: "bot \<Rightarrow> byte list" where
  "stopBody b = enc 2 MOVE_STOP @ enc 8 (bsCharacterId b) @ encF (posX (bsPos b)) @ encF (posY (bsPos b)) @ enc 1 (bsDirection b)"
definition startBody :: "eDirection \<Rightarrow> bot \<Rightarrow> byte list" where
  "startBody d b = enc 2 MOVE_START @ enc 8 (bsCharacterId b) @ encF (posX (bsPos b)) @ encF (posY (bsPos b)) @ enc 1 d @ encF kBotSpeed"
definition attackBody :: "bot \<Rightarrow> byte list" where
  "attackBody b = enc 2 PLAYER_ATTACK_REQ @ enc 1 0 @ enc 2 1 @ enc 8 (bsTargetID b)"
definition lootBody :: "bot \<Rightarrow> byte list" where
  "lootBody b = enc 2 LOOT_REQ @ enc 8 (bsTargetItemID b)"

lemma body_lengths [simp]:
  "length (stopBody b) = 19" "length (startBody d b) = 23" "length (attackBody b) = 13" "length (lootBody b) = 10"
  by (simp_all add: stopBody_def startBody_def attackBody_def lootBody_def del: enc.simps)

lemma length_frame [simp]: "length (frame m) = 3 + length (snd m)"
  by (simp add: frame_def)

lemma drop_enc [simp]: "n \<le> k \<Longrightarrow> drop k (enc n v @ bs) = drop (k - n) bs" "4 \<le> k \<Longrightarrow> drop k (encF a @ bs) = drop (k - 4) bs"
  by simp_all

lemma dec_small: "decS (enc 2 t) = t" if "0 \<le> t" "t < 200" for t
  using that by (intro decS_enc) simp_all

lemma dec_dir: "dir_ok d \<Longrightarrow> decS (enc (Suc 0) d) = d"
  unfolding dir_ok_def by (rule decS_enc) simp_all

lemma stopBody_acceptable: "bot_ok b \<Longrightarrow> acceptable (stopBody b)"
  by (simp add: acceptable_eq stopBody_def fS_def dec_small packet_defs kTableSize_def movement_ok_def fPos_def fF_def
      bot_ok_def dec_dir del: enc.simps)

lemma startBody_acceptable: "bot_ok b \<Longrightarrow> dir_ok d \<Longrightarrow> acceptable (startBody d b)"
  by (simp add: acceptable_eq startBody_def fS_def dec_small packet_defs kTableSize_def movement_ok_def fPos_def fF_def
      bot_ok_def dec_dir kBotSpeed_def del: enc.simps)

lemma attackBody_acceptable: "acceptable (attackBody b)"
  by (simp add: acceptable_eq attackBody_def fS_def dec_small packet_defs kTableSize_def del: enc.simps)

lemma lootBody_acceptable: "acceptable (lootBody b)"
  by (simp add: acceptable_eq lootBody_def fS_def dec_small packet_defs kTableSize_def del: enc.simps)

lemmas acceptable_bodies = stopBody_acceptable startBody_acceptable attackBody_acceptable lootBody_acceptable

subsection \<open>Posting\<close>

lemma botPost_eq:
  assumes "length (bsSendBuffer b) + 3 + 2 + length (concat fs) \<le> 1024" "0 \<le> t" "t < PACKET_MAX" "len = int (2 + length (concat fs))"
  shows "botPost t len fs (b, c) = Inr (b\<lparr>bsLastTime := clNow c, bsSendBuffer := bsSendBuffer b @ frame (0, enc 2 t @ concat fs)\<rparr>, posted t c)"
  using assms
  by (simp add: botPost_def EnqueueSend_def SESSION_SEND_BUFFER_SIZE_def botPacket_def frame_def botRecordSend_def posted_def Let_def
      del: enc.simps)

definition put :: "byte list \<Rightarrow> bots \<Rightarrow> bot \<Rightarrow> bot" where
  "put bs c b = b\<lparr>bsLastTime := clNow c, bsSendBuffer := bsSendBuffer b @ frame (0, bs)\<rparr>"

lemma put_simps [simp]:
  "bsSendBuffer (put bs c b) = bsSendBuffer b @ frame (0, bs)" "bsState (put bs c b) = bsState b" "bsPos (put bs c b) = bsPos b"
  "bsTargetID (put bs c b) = bsTargetID b" "bsTargetItemID (put bs c b) = bsTargetItemID b" "bsBMove (put bs c b) = bsBMove b"
  "bsDirection (put bs c b) = bsDirection b" "bsStartMovePos (put bs c b) = bsStartMovePos b" "bsSpeed (put bs c b) = bsSpeed b"
  "bsAnimFrame (put bs c b) = bsAnimFrame b" "bsCharacterId (put bs c b) = bsCharacterId b"
  "bsMonsterKillTime (put bs c b) = bsMonsterKillTime b" "bsLootRequested (put bs c b) = bsLootRequested b"
  by (simp_all add: put_def)

lemma postMoveStart_eq:
  "length (bsSendBuffer b) \<le> 998 \<Longrightarrow> postMoveStart d (b, c) =
    Inr ((put (startBody d b) c b)\<lparr>bsStartMovePos := bsPos b, bsDirection := d, bsAnimFrame := 0\<rparr>, posted MOVE_START c)"
  by (simp add: postMoveStart_def botPost_eq packet_defs put_def startBody_def del: enc.simps)

lemma postMoveStop_eq:
  "length (bsSendBuffer b) \<le> 1002 \<Longrightarrow> postMoveStop (b, c) =
    Inr ((put (stopBody b) c b)\<lparr>bsStartMovePos := bsPos b, bsAnimFrame := 0\<rparr>, posted MOVE_STOP c)"
  by (simp add: postMoveStop_def botPost_eq packet_defs put_def stopBody_def del: enc.simps)

lemma postAttackReq_eq:
  "length (bsSendBuffer b) \<le> 1008 \<Longrightarrow> postAttackReq (b, c) = Inr (put (attackBody b) c b, posted PLAYER_ATTACK_REQ c)"
  by (simp add: postAttackReq_def botPost_eq packet_defs put_def attackBody_def del: enc.simps)

lemma postLootReq_eq:
  "length (bsSendBuffer b) \<le> 1011 \<Longrightarrow> postLootReq (b, c) = Inr (put (lootBody b) c b, posted LOOT_REQ c)"
  by (simp add: postLootReq_def botPost_eq packet_defs put_def lootBody_def del: enc.simps)

definition stopped :: "bots \<Rightarrow> bot \<Rightarrow> bot" where
  "stopped c b = (if bsBMove b then (put (stopBody b) c b)\<lparr>bsStartMovePos := bsPos b, bsAnimFrame := 0, bsBMove := False\<rparr> else b)"

lemma stopIfMoving_eq:
  "length (bsSendBuffer b) \<le> 1002 \<Longrightarrow> \<exists>c'. stopIfMoving (b, c) = Inr (stopped c b, c') \<and> clRng c' = clRng c \<and> clNow c' = clNow c"
  by (simp add: stopIfMoving_def postMoveStop_eq traceMove_def stopped_def)

subsection \<open>The states\<close>

text \<open>
  \<open>posts\<close>: the outcome is a bot of the invariant that has appended packets the server takes, at most 48 bytes
  of them, two packets of movement.
\<close>

definition posts :: "bot \<Rightarrow> botCtx res \<Rightarrow> bool" where
  "posts b r \<longleftrightarrow> (\<exists>b' c' ms. r = Inr (b', c') \<and> bot_ok b' \<and> rng_ok (clRng c') \<and>
     bsSendBuffer b' = bsSendBuffer b @ concat (map (\<lambda>m. frame (0, m)) ms) \<and>
     (\<forall>m \<in> set ms. acceptable m) \<and> length (concat (map (\<lambda>m. frame (0, m)) ms)) \<le> 48)"

lemma postsI:
  "r = Inr (b', c') \<Longrightarrow> bot_ok b' \<Longrightarrow> rng_ok (clRng c') \<Longrightarrow>
   bsSendBuffer b' = bsSendBuffer b @ concat (map (\<lambda>m. frame (0, m)) ms) \<Longrightarrow>
   (\<forall>m \<in> set ms. acceptable m) \<Longrightarrow> length (concat (map (\<lambda>m. frame (0, m)) ms)) \<le> 48 \<Longrightarrow> posts b r"
  unfolding posts_def by blast

lemma posts_quiet: "r = Inr (b', c') \<Longrightarrow> bot_ok b' \<Longrightarrow> rng_ok (clRng c') \<Longrightarrow> bsSendBuffer b' = bsSendBuffer b \<Longrightarrow> posts b r"
  by (erule postsI [where ms = "[]"]) simp_all

lemma posts_one:
  "r = Inr (b', c') \<Longrightarrow> bot_ok b' \<Longrightarrow> rng_ok (clRng c') \<Longrightarrow> bsSendBuffer b' = bsSendBuffer b @ frame (0, m) \<Longrightarrow>
   acceptable m \<Longrightarrow> length m \<le> 45 \<Longrightarrow> posts b r"
  by (erule postsI [where ms = "[m]"]) simp_all

lemma posts_two:
  "r = Inr (b', c') \<Longrightarrow> bot_ok b' \<Longrightarrow> rng_ok (clRng c') \<Longrightarrow> bsSendBuffer b' = bsSendBuffer b @ frame (0, m) @ frame (0, n) \<Longrightarrow>
   acceptable m \<Longrightarrow> acceptable n \<Longrightarrow> length m + length n \<le> 42 \<Longrightarrow> posts b r"
  by (erule postsI [where ms = "[m, n]"]) simp_all

lemma botRand_ok: "rng_ok (clRng c) \<Longrightarrow> \<exists>r c'. botRand c = (r, c') \<and> 0 \<le> r \<and> rng_ok (clRng c') \<and> clNow c' = clNow c"
  by (auto simp: botRand_def rand_def rng_ok_def)

lemma bot_ok_anim: "bot_ok b \<Longrightarrow> bot_ok (b\<lparr>bsAnimFrame := 0, bsStartMovePos := bsPos b\<rparr>)"
  by (simp add: bot_ok_def)

lemma dir_ok_mod: "dir_ok (r mod 8)"
  by (simp add: dir_ok_def)

lemma bot_ok_fields [simp]:
  "bot_ok (b\<lparr>bsState := st\<rparr>) = bot_ok b" "bot_ok (b\<lparr>bsTargetID := t\<rparr>) = bot_ok b"
  "bot_ok (b\<lparr>bsMonsterKillTime := k\<rparr>) = bot_ok b" "bot_ok (b\<lparr>bsBMove := mv\<rparr>) = bot_ok b"
  "bot_ok (put bs c b) = bot_ok b" "bot_ok (b\<lparr>bsLootRequested := l\<rparr>) = bot_ok b"
  "bot_ok (b\<lparr>bsDeadFrame := f\<rparr>) = bot_ok b" "bot_ok (b\<lparr>bsLastTime := f\<rparr>) = bot_ok b"
  by (simp_all add: bot_ok_def put_def)

lemma bot_ok_stopped: "bot_ok b \<Longrightarrow> bot_ok (stopped c b)"
  by (simp add: stopped_def bot_ok_def)

lemma stopped_frame [simp]:
  "bsState (stopped c b) = bsState b" "bsPos (stopped c b) = bsPos b" "bsTargetID (stopped c b) = bsTargetID b"
  "bsTargetItemID (stopped c b) = bsTargetItemID b" "bsBMove (stopped c b) = False"
  "bsMonsterKillTime (stopped c b) = bsMonsterKillTime b" "bsDirection (stopped c b) = bsDirection b"
  by (simp_all add: stopped_def)

text \<open>What stopping appends: nothing or one packet.\<close>

lemma stopped_buffer:
  assumes "bot_ok b"
  obtains ms where "bsSendBuffer (stopped c b) = bsSendBuffer b @ concat (map (\<lambda>m. frame (0, m)) ms)"
    "\<forall>m \<in> set ms. acceptable m" "length (concat (map (\<lambda>m. frame (0, m)) ms)) \<le> 22"
proof (cases "bsBMove b")
  case True
  then show ?thesis using that [of "[stopBody b]"] stopBody_acceptable [OF assms] by (simp add: stopped_def)
next
  case False
  then show ?thesis using that [of "[]"] by (simp add: stopped_def)
qed

text \<open>Stopping and then one more packet.\<close>

lemma posts_after_stop:
  assumes "bot_ok b" "r = Inr (b', c')" "bot_ok b'" "rng_ok (clRng c')" "bsSendBuffer b' = bsSendBuffer (stopped c b) @ frame (0, m)"
    "acceptable m" "length m \<le> 23"
  shows "posts b r"
proof -
  obtain ms where ms: "bsSendBuffer (stopped c b) = bsSendBuffer b @ concat (map (\<lambda>m. frame (0, m)) ms)"
    "\<forall>m \<in> set ms. acceptable m" "length (concat (map (\<lambda>m. frame (0, m)) ms)) \<le> 22"
    using stopped_buffer [OF assms(1)] by blast
  then show ?thesis using assms(2-) by (intro postsI [where ms = "ms @ [m]"]) auto
qed

definition roomy :: "bot \<Rightarrow> bool" where "roomy b \<longleftrightarrow> length (bsSendBuffer b) + 48 \<le> 1024"

lemma forgetTarget_ok:
  "\<exists>b'. forgetTarget (b, c) = (b', c) \<and> bot_ok b' = bot_ok b \<and> bsState b' = bsState b \<and>
     bsSendBuffer b' = bsSendBuffer b \<and> bsTargetItemID b' = bsTargetItemID b \<and> bsLootRequested b' = bsLootRequested b \<and>
     bsBMove b' = bsBMove b"
  by (cases "bsMonsterKillTime b \<noteq> 0 \<and> u32 (bsMonsterKillTime b + 10000) \<le> clNow c") (simp_all add: forgetTarget_def)

lemma botIdle_posts:
  assumes "bot_ok b" "rng_ok (clRng c)" "roomy b" "bsState b = BIdle"
  shows "posts b (botIdle (b, c))"
proof -
  obtain b1 where f: "forgetTarget (b, c) = (b1, c)" and b1: "bot_ok b1" "roomy b1" "bsState b1 = BIdle" "bsSendBuffer b1 = bsSendBuffer b"
    using forgetTarget_ok [of b c] assms unfolding roomy_def by metis
  obtain r c1 where r: "botRand c = (r, c1)" "rng_ok (clRng c1)" using botRand_ok [OF assms(2)] by blast
  obtain r' c2 where r': "botRand c1 = (r', c2)" "rng_ok (clRng c2)" using botRand_ok [OF r(2)] by blast
  have d: "dir_ok (r' mod 8)" by (rule dir_ok_mod)
  have len: "length (bsSendBuffer b1) \<le> 998" using b1(2) by (simp add: roomy_def)
  show ?thesis
  proof (cases "bsTargetItemID b1 = - 1 \<and> bsTargetID b1 = - 1")
    case False
    then show ?thesis using f b1 assms(2)
      by (auto simp: botIdle_def botChangeState_def botResetAnim_def bot_ok_def intro!: posts_quiet)
  next
    case True
    show ?thesis
    proof (cases "r mod 100 \<le> 5")
      case False
      then show ?thesis using f b1 r True by (auto simp: botIdle_def intro!: posts_quiet)
    next
      case walk: True
      then have "botIdle (b, c) = Inr (((put (startBody (r' mod 8) b1) c2 b1)\<lparr>bsStartMovePos := bsPos b1, bsDirection := r' mod 8,
          bsAnimFrame := 0, bsState := BMove, bsBMove := True\<rparr>), posted MOVE_START c2)"
        using True f b1 r r' postMoveStart_eq [OF len]
        by (simp add: botIdle_def botChangeState_def botResetAnim_def traceMove_def)
      then show ?thesis
        by (rule posts_one [where m = "startBody (r' mod 8) b1"]) (use b1 d r'(2) startBody_acceptable [OF b1(1) d] in \<open>simp_all add: bot_ok_def\<close>)
    qed
  qed
qed

lemma botMove_posts:
  assumes "bot_ok b" "rng_ok (clRng c)" "roomy b" "bsState b = BMove"
  shows "posts b (botMove (b, c))"
proof -
  obtain r c1 where r: "botRand c = (r, c1)" "rng_ok (clRng c1)" using botRand_ok [OF assms(2)] by blast
  obtain r' c2 where r': "botRand c1 = (r', c2)" "rng_ok (clRng c2)" using botRand_ok [OF r(2)] by blast
  have d: "dir_ok (r' mod 8)" by (rule dir_ok_mod)
  have len: "length (bsSendBuffer b) \<le> 1002" using assms(3) by (simp add: roomy_def)
  have st: "acceptable (stopBody b)" using assms(1) by (rule stopBody_acceptable)
  consider "r mod 100 = 0" | "r mod 100 = 1" "changeDirFrame \<le> bsAnimFrame b"
    | "r mod 100 \<noteq> 0" "\<not> (r mod 100 = 1 \<and> changeDirFrame \<le> bsAnimFrame b)" by blast
  then show ?thesis
  proof cases
    case 1
    then have "botMove (b, c) = Inr ((put (stopBody b) c1 b)\<lparr>bsStartMovePos := bsPos b, bsAnimFrame := 0, bsState := BIdle,
        bsBMove := False\<rparr>, posted MOVE_STOP c1)"
      using assms(4) r postMoveStop_eq [OF len] by (simp add: botMove_def botChangeState_def botResetAnim_def traceMove_def)
    then show ?thesis by (rule posts_one [where m = "stopBody b"]) (use assms(1) st r(2) in \<open>simp_all add: bot_ok_def\<close>)
  next
    case 2
    define b1 where "b1 = (put (stopBody b) c2 b)\<lparr>bsStartMovePos := bsPos b, bsAnimFrame := 0, bsBMove := False\<rparr>"
    have l1: "length (bsSendBuffer b1) \<le> 998" using assms(3) by (simp add: b1_def roomy_def)
    have k1: "bot_ok b1" using assms(1) by (simp add: b1_def bot_ok_def)
    have "botMove (b, c) = Inr ((put (startBody (r' mod 8) b1) (posted MOVE_STOP c2) b1)\<lparr>bsStartMovePos := bsPos b1,
        bsDirection := r' mod 8, bsAnimFrame := 0, bsBMove := True\<rparr>, posted MOVE_START (posted MOVE_STOP c2))"
      using 2 r r' postMoveStop_eq [OF len] postMoveStart_eq [OF l1] by (simp add: botMove_def traceMove_def b1_def)
    then show ?thesis
      by (rule posts_two [where m = "stopBody b" and n = "startBody (r' mod 8) b1"]) (use k1 d st r'(2) startBody_acceptable [OF k1 d] in \<open>simp_all add: bot_ok_def b1_def\<close>)
  next
    case 3
    then have "botMove (b, c) = Inr (b, c1)" using r by (auto simp: botMove_def)
    then show ?thesis using assms(1) r(2) by (auto intro!: posts_quiet)
  qed
qed

text \<open>A walk towards something: stop if moving, then start.\<close>

definition headFor :: "eDirection \<Rightarrow> botCtx \<Rightarrow> botCtx res" where
  "headFor d bc = bindR (stopIfMoving bc) (\<lambda>bc. bindR (postMoveStart d bc) (\<lambda>bc. Inr (traceMove True bc)))"

lemma headFor_posts:
  assumes "bot_ok b" "rng_ok (clRng c)" "roomy b" "dir_ok d"
  shows "posts b (headFor d (b, c))"
proof -
  obtain c1 where s: "stopIfMoving (b, c) = Inr (stopped c b, c1)" "clRng c1 = clRng c"
    using stopIfMoving_eq [of b c] assms(3) by (auto simp: roomy_def)
  have l: "length (bsSendBuffer (stopped c b)) \<le> 998" using assms(3) by (simp add: stopped_def roomy_def)
  define q where "q = stopped c b"
  have ok: "bot_ok q" using bot_ok_stopped [OF assms(1)] by (simp add: q_def)
  have "headFor d (b, c) = Inr ((put (startBody d q) c1 q)\<lparr>bsStartMovePos := bsPos q, bsDirection := d, bsAnimFrame := 0,
      bsBMove := True\<rparr>, posted MOVE_START c1)"
    using s postMoveStart_eq [OF l] by (simp add: headFor_def traceMove_def q_def)
  then show ?thesis
    by (rule posts_after_stop [OF assms(1), where m = "startBody d q" and c = c])
      (use ok assms(2,4) s(2) startBody_acceptable [OF ok assms(4)] in \<open>simp_all add: bot_ok_def q_def\<close>)
qed

lemma posts_anim: "posts (b\<lparr>bsAnimFrame := 0\<rparr>) r = posts b r"
  by (simp add: posts_def)

lemma botChase_posts:
  assumes "bot_ok b" "rng_ok (clRng c)" "roomy b" "bsState b = BChase"
  shows "posts b (botChase (b, c))"
proof -
  define d where "d = getDirectionTo (posX (bsPos b)) (posY (bsPos b)) (posX (bsTargetPos b)) (posY (bsTargetPos b))"
  have d: "dir_ok d" by (simp add: d_def)
  show ?thesis
  proof (cases "isInAttackRange (posX (bsPos b)) (posY (bsPos b)) (posX (bsTargetPos b)) (posY (bsTargetPos b)) botRange")
    case True
    obtain c1 where s: "stopIfMoving (b, c) = Inr (stopped c b, c1)" "clRng c1 = clRng c"
      using stopIfMoving_eq [of b c] assms(3) by (auto simp: roomy_def)
    define q where "q = (if bsMonsterKillTime b = 0 then (stopped c b)\<lparr>bsMonsterKillTime := clNow c1\<rparr> else stopped c b)\<lparr>bsDirection := d\<rparr>"
    have q: "bot_ok q" "bsSendBuffer q = bsSendBuffer (stopped c b)" "bsState q = BChase"
      using bot_ok_stopped [OF assms(1), of c] d assms(4) by (simp_all add: q_def bot_ok_def)
    have "length (bsSendBuffer (stopped c b)) \<le> 1008" using assms(3) by (simp add: stopped_def roomy_def)
    then have "botChase (b, c) = Inr ((put (attackBody q) c1 q)\<lparr>bsState := BAttack, bsAnimFrame := 0, bsStartMovePos := bsPos q\<rparr>,
        posted PLAYER_ATTACK_REQ c1)"
      using True s q postAttackReq_eq [of q c1]
      by (simp add: botChase_def Let_def d_def [symmetric] q_def [symmetric] botChangeState_def botResetAnim_def)
    then show ?thesis
      by (rule posts_after_stop [OF assms(1), where m = "attackBody q" and c = c])
        (use q assms(2) s(2) attackBody_acceptable in \<open>simp_all add: bot_ok_def\<close>)
  next
    case False
    show ?thesis
    proof (cases "changeDirFrame \<le> bsAnimFrame b")
      case True
      have "botChase (b, c) = headFor d (b\<lparr>bsAnimFrame := 0\<rparr>, c)"
        using True \<open>\<not> isInAttackRange _ _ _ _ _\<close> by (simp add: botChase_def headFor_def d_def Let_def)
      moreover have "posts (b\<lparr>bsAnimFrame := 0\<rparr>) (headFor d (b\<lparr>bsAnimFrame := 0\<rparr>, c))"
        using assms(1-3) by (intro headFor_posts d) (simp_all add: bot_ok_def roomy_def)
      ultimately show ?thesis by (simp add: posts_anim)
    next
      case False
      then have "botChase (b, c) = Inr (b, c)" using \<open>\<not> isInAttackRange _ _ _ _ _\<close> by (simp add: botChase_def Let_def)
      then show ?thesis using assms(1,2) by (auto intro!: posts_quiet)
    qed
  qed
qed

lemma botChangeState_posts:
  assumes "bot_ok b" "rng_ok (clRng c)" "st \<noteq> bsState b"
  shows "posts b (botChangeState st (b, c))"
  using assms by (intro posts_quiet [of _ "botResetAnim (b\<lparr>bsState := st\<rparr>)" c])
    (simp_all add: botChangeState_def botResetAnim_def bot_ok_def)

lemma botRoot_posts:
  assumes "bot_ok b" "rng_ok (clRng c)" "roomy b" "bsState b = BRoot"
  shows "posts b (botRoot (b, c))"
proof -
  obtain c1 where s: "stopIfMoving (b, c) = Inr (stopped c b, c1)" "clRng c1 = clRng c"
    using stopIfMoving_eq [of b c] assms(3) by (auto simp: roomy_def)
  have ok: "bot_ok (stopped c b)" using bot_ok_stopped [OF assms(1)] .
  obtain ms where ms: "bsSendBuffer (stopped c b) = bsSendBuffer b @ concat (map (\<lambda>m. frame (0, m)) ms)"
    "\<forall>m \<in> set ms. acceptable m" "length (concat (map (\<lambda>m. frame (0, m)) ms)) \<le> 22"
    using stopped_buffer [OF assms(1)] by blast
  consider (gone) "bsTargetItemID b = - 1" | (wait) "bsTargetItemID b \<noteq> - 1" "bsLootRequested b"
    | (far) "bsTargetItemID b \<noteq> - 1" "\<not> bsLootRequested b" "f_lt LOOT_RANGE (pos_dist (bsPos b) (bsTargetItemPos b))"
    | (near) "bsTargetItemID b \<noteq> - 1" "\<not> bsLootRequested b" "\<not> f_lt LOOT_RANGE (pos_dist (bsPos b) (bsTargetItemPos b))" by blast
  then show ?thesis
  proof cases
    case gone
    then have "botRoot (b, c) = Inr ((stopped c b)\<lparr>bsState := BIdle, bsAnimFrame := 0, bsStartMovePos := bsPos (stopped c b)\<rparr>, c1)"
      using s(1) assms(4) by (simp add: botRoot_def botChangeState_def botResetAnim_def)
    then show ?thesis by (rule postsI [where ms = ms]) (use ms ok assms(2) s(2) in \<open>simp_all add: bot_ok_def\<close>)
  next
    case wait
    then have "botRoot (b, c) = Inr (b, c)" by (simp add: botRoot_def)
    then show ?thesis using assms(1,2) by (auto intro!: posts_quiet)
  next
    case far
    show ?thesis
    proof (cases "changeDirFrame \<le> bsAnimFrame b")
      case True
      then have "botRoot (b, c) = headFor (getDirectionTo (posX (bsPos b)) (posY (bsPos b)) (posX (bsTargetItemPos b))
          (posY (bsTargetItemPos b))) (b, c)"
        using far by (simp add: botRoot_def headFor_def)
      then show ?thesis using headFor_posts [OF assms(1-3)] by simp
    next
      case False
      then have "botRoot (b, c) = Inr (b, c)" using far by (simp add: botRoot_def)
      then show ?thesis using assms(1,2) by (auto intro!: posts_quiet)
    qed
  next
    case near
    have "length (bsSendBuffer (stopped c b)) \<le> 1011" using assms(3) by (simp add: stopped_def roomy_def)
    then have "botRoot (b, c) = Inr ((put (lootBody (stopped c b)) c1 (stopped c b))\<lparr>bsLootRequested := True\<rparr>, posted LOOT_REQ c1)"
      using near s(1) postLootReq_eq [of "stopped c b" c1] by (simp add: botRoot_def)
    then show ?thesis
      by (rule posts_after_stop [OF assms(1), where m = "lootBody (stopped c b)" and c = c])
        (use ok assms(2) s(2) lootBody_acceptable in simp_all)
  qed
qed

subsection \<open>A frame of a bot\<close>

lemma moveTo_in_map_long:
  assumes "in_map s" "f_fin (f_mul (fst v) sp)" "f_fin (f_mul (snd v) sp)" "- (2 ^ 63) \<le> n" "n < 2 ^ 63"
  shows "in_map (moveTo s v sp n)"
proof -
  have "f_fin (f_of_int n)" using assms(4,5) by (intro f_of_int_fin) (simp add: pow2_def abs_le_iff)
  then show ?thesis using assms in_map_fin [OF assms(1)] by (simp add: moveTo_def clamp_in_map f_add_not_nan f_mul_not_nan)
qed

lemma botReckon_ok:
  assumes "bot_ok b"
  shows "\<exists>p. botReckon b = Inr (b\<lparr>bsPos := p\<rparr>) \<and> bot_ok (b\<lparr>bsPos := p\<rparr>)"
proof (cases "bsBMove b")
  case False
  then show ?thesis using assms by (intro exI [of _ "bsPos b"]) (simp add: botReckon_def)
next
  case True
  from assms have "dir_ok (bsDirection b)" by (simp add: bot_ok_def)
  then obtain v where v: "dirVector (bsDirection b) = Inr v"
    "f_fin (f_mul (fst v) (f_lit 45 10))" "f_fin (f_mul (snd v) (f_lit 45 10))" by (rule dirVector_cases)
  then show ?thesis using True assms
    by (auto simp: botReckon_def bot_ok_def kBotSpeed_def intro!: moveTo_in_map_long)
qed

lemma wrap64_range: "- (2 ^ 63) \<le> wrap64 x \<and> wrap64 x < 2 ^ 63"
  by (simp add: wrap64_def)

text \<open>The mind on its own: every state posts only what the server takes.\<close>

lemma mind_posts:
  assumes "bot_ok b" "rng_ok (clRng c)" "roomy b"
  shows "posts b (case bsState b of BIdle \<Rightarrow> botIdle (b, c) | BMove \<Rightarrow> botMove (b, c) | BChase \<Rightarrow> botChase (b, c)
    | BAttack \<Rightarrow> botAttack (b, c) | BStun \<Rightarrow> botStun (b, c) | BRoot \<Rightarrow> botRoot (b, c) | BDead \<Rightarrow> botDead (b, c))"
proof -
  have q: "posts b (Inr (b, c))" using assms(1,2) by (auto intro!: posts_quiet)
  show ?thesis
  proof (cases "bsState b")
    case BAttack
    then show ?thesis using q botChangeState_posts [OF assms(1,2)] by (simp add: botAttack_def)
  next
    case BStun
    then show ?thesis using q botChangeState_posts [OF assms(1,2)] by (simp add: botStun_def)
  next
    case BDead
    then show ?thesis using assms(1,2) by (auto simp: botDead_def intro!: posts_quiet)
  qed (use assms botIdle_posts botMove_posts botChase_posts botRoot_posts in simp_all)
qed

lemma botUpdate_posts:
  assumes "bot_ok b" "rng_ok (clRng c)" "roomy b"
  shows "posts b (botUpdate (b, c))"
proof -
  obtain p where p: "botReckon b = Inr (b\<lparr>bsPos := p\<rparr>)" "bot_ok (b\<lparr>bsPos := p\<rparr>)" using botReckon_ok [OF assms(1)] by blast
  define q where "q = b\<lparr>bsPos := p\<rparr>"
  have "posts q (case bsState q of BIdle \<Rightarrow> botIdle (q, c) | BMove \<Rightarrow> botMove (q, c) | BChase \<Rightarrow> botChase (q, c)
      | BAttack \<Rightarrow> botAttack (q, c) | BStun \<Rightarrow> botStun (q, c) | BRoot \<Rightarrow> botRoot (q, c) | BDead \<Rightarrow> botDead (q, c))"
    using p(2) assms(2,3) by (intro mind_posts) (simp_all add: q_def roomy_def)
  then obtain b' c' ms where m: "(case bsState q of BIdle \<Rightarrow> botIdle (q, c) | BMove \<Rightarrow> botMove (q, c) | BChase \<Rightarrow> botChase (q, c)
      | BAttack \<Rightarrow> botAttack (q, c) | BStun \<Rightarrow> botStun (q, c) | BRoot \<Rightarrow> botRoot (q, c) | BDead \<Rightarrow> botDead (q, c)) = Inr (b', c')"
    "bot_ok b'" "rng_ok (clRng c')" "bsSendBuffer b' = bsSendBuffer q @ concat (map (\<lambda>m. frame (0, m)) ms)"
    "\<forall>m \<in> set ms. acceptable m" "length (concat (map (\<lambda>m. frame (0, m)) ms)) \<le> 48"
    unfolding posts_def by blast
  have "botUpdate (b, c) = Inr (b'\<lparr>bsAnimFrame := wrap64 (bsAnimFrame b' + 1)\<rparr>, c')"
    using p(1) m(1) by (simp add: botUpdate_def q_def [symmetric] selectAction_def postHeartBeat_def)
  then show ?thesis
    by (rule postsI [where ms = ms])
      (use m(2-) wrap64_range [of "bsAnimFrame b' + 1"] in \<open>simp_all add: bot_ok_def q_def\<close>)
qed

end
