(* ===== verification/BotStream.thy ===== *)
theory BotStream
  imports BotInv
begin

text \<open>
  What a bot hears: its buffer cuts the stream into the packets of \<open>deframe\<close>, and each packet is read
  back as the server wrote it.
\<close>

subsection \<open>A packet alone\<close>

lemma fld_append:
  "k + n \<le> length m \<Longrightarrow> fldS k n (m @ r) = fldS k n m" "k + 4 \<le> length m \<Longrightarrow> fldF k (m @ r) = fldF k m"
  "k + 8 \<le> length m \<Longrightarrow> fldPos k (m @ r) = fldPos k m"
  by (simp_all add: fldS_def fldF_def fldPos_def)

lemma assertR_cong: "a = b \<Longrightarrow> (b \<Longrightarrow> x = y) \<Longrightarrow> assertR a x = assertR b y"
  by (cases b) simp_all

text \<open>What follows in the buffer does not matter.\<close>

lemma botPacketProc_append:
  assumes "2 \<le> length m"
  shows "botPacketProc (m @ r) (int (length m)) bc = botPacketProc m (int (length m)) bc"
proof -
  have t: "fldS 0 2 (m @ r) = fldS 0 2 m" using assms by (simp add: fld_append)
  have e: "assertR (int (length m) = 2 + 8 + 4 + 4) (handleFieldAuth (m @ r) x) =
      assertR (int (length m) = 2 + 8 + 4 + 4) (handleFieldAuth m x)"
    "assertR (int (length m) = 2 + 8 + 4 + 4 + 1) (handleMonsterMoveStop (m @ r) x) =
      assertR (int (length m) = 2 + 8 + 4 + 4 + 1) (handleMonsterMoveStop m x)"
    "assertR (int (length m) = 2 + 8 + 4 + 4 + 4 + 1) (handleMonsterDamaged (m @ r) x) =
      assertR (int (length m) = 2 + 8 + 4 + 4 + 4 + 1) (handleMonsterDamaged m x)"
    "assertR (int (length m) = 2 + 8 + 4 + 4 + 4 + 1 + 8) (handleCharecterDamaged (m @ r) x) =
      assertR (int (length m) = 2 + 8 + 4 + 4 + 4 + 1 + 8) (handleCharecterDamaged m x)"
    "assertR (int (length m) = 2 + 8 + 1 + 4 + 4) (handleItemSpawn (m @ r) x) =
      assertR (int (length m) = 2 + 8 + 1 + 4 + 4) (handleItemSpawn m x)"
    "assertR (int (length m) = 2 + 1 + 1 + 4) (handleLootRes (m @ r) x) =
      assertR (int (length m) = 2 + 1 + 1 + 4) (handleLootRes m x)" for x
    by (cases x, rule assertR_cong [OF refl], simp add: handleFieldAuth_def handleMonsterMoveStop_def handleMonsterDamaged_def
        handleCharecterDamaged_def handleItemSpawn_def handleLootRes_def fld_append cong: if_cong)+
  show ?thesis unfolding botPacketProc_def Let_def t e using assms by simp
qed

text \<open>No handler looks at the buffer.\<close>

definition setRecv :: "byte list \<Rightarrow> botCtx \<Rightarrow> botCtx" where
  "setRecv x bc = ((fst bc)\<lparr>bsRecvBuffer := x\<rparr>, snd bc)"

definition mapR :: "('a \<Rightarrow> 'b) \<Rightarrow> 'a res \<Rightarrow> 'b res" where
  "mapR f r = bindR r (\<lambda>x. Inr (f x))"

lemma mapR_simps [simp]: "mapR f (Inr x) = Inr (f x)" "mapR f (Inl e) = Inl e" "mapR f (assertR a r) = assertR a (mapR f r)"
  by (simp_all add: mapR_def assertR_def)

lemma handlers_setRecv:
  "handleFieldAuth m (setRecv x bc) = mapR (setRecv x) (handleFieldAuth m bc)"
  "handleMonsterMoveStop m (setRecv x bc) = mapR (setRecv x) (handleMonsterMoveStop m bc)"
  "handleMonsterDamaged m (setRecv x bc) = mapR (setRecv x) (handleMonsterDamaged m bc)"
  "handleItemSpawn m (setRecv x bc) = mapR (setRecv x) (handleItemSpawn m bc)"
  "handleLootRes m (setRecv x bc) = mapR (setRecv x) (handleLootRes m bc)"
  by (cases bc; simp add: handleFieldAuth_def handleMonsterMoveStop_def handleMonsterDamaged_def handleItemSpawn_def
      handleLootRes_def setRecv_def ConnectComplete_def ChaseTarget_def ChaseItem_def MonsterChaseInit_def ItemChaseInit_def
      Let_def mapR_def assertR_def)+

lemma handleCharecterDamaged_setRecv:
  "handleCharecterDamaged m (setRecv x bc) = mapR (setRecv x) (handleCharecterDamaged m bc)"
proof -
  have "botTakeDamage hp x' y (setRecv x bc) = mapR (setRecv x) (botTakeDamage hp x' y bc)" for hp x' y
    by (cases bc) (simp add: botTakeDamage_def setRecv_def traceMove_def botChangeState_def botResetAnim_def Let_def mapR_def assertR_def)
  then show ?thesis
    by (cases bc; cases "botTakeDamage (fldS 10 4 m) (fldF 14 m) (fldF 18 m) bc")
      (auto simp: handleCharecterDamaged_def setRecv_def ChaseTarget_def mapR_def)
qed

lemma botPacketProc_setRecv: "botPacketProc m len (setRecv x bc) = mapR (setRecv x) (botPacketProc m len bc)"
proof -
  obtain b c where bc: "bc = (b, c)" by (cases bc)
  have s: "setRecv x (b, c') = (b\<lparr>bsRecvBuffer := x\<rparr>, c')" for c' by (simp add: setRecv_def)
  note h = handlers_setRecv [where bc = "(b, c')" and x = x for c', unfolded s] handleCharecterDamaged_setRecv [where bc = "(b, c')" and x = x for c', unfolded s]
  show ?thesis
    by (cases "botRecordRecv (fldS 0 2 m) c") (simp_all add: botPacketProc_def bc s h Let_def if_distrib [where f = "mapR (setRecv x)"] cong: if_cong)
qed

subsection \<open>The stream\<close>

definition botHears :: "(int \<times> byte list) list \<Rightarrow> botCtx \<Rightarrow> botCtx res" where
  "botHears = foldR (\<lambda>m. botPacketProc (snd m) (int (length (snd m))))"

lemma botHears_append: "botHears (ms @ ns) bc = bindR (botHears ms bc) (botHears ns)"
proof (induction ms arbitrary: bc)
  case (Cons m ms)
  then have "botHears (ms @ ns) = (\<lambda>bc. bindR (botHears ms bc) (botHears ns))" by (simp add: fun_eq_iff)
  then show ?case by (simp add: botHears_def bindR_assoc)
qed (simp add: botHears_def)

lemma botHears_setRecv: "botHears ms (setRecv x bc) = mapR (setRecv x) (botHears ms bc)"
proof (induction ms arbitrary: bc)
  case (Cons m ms)
  then show ?case
    by (cases "botPacketProc (snd m) (int (length (snd m))) bc") (simp_all add: botHears_def botPacketProc_setRecv)
qed (simp add: botHears_def)

text \<open>The loop implements \<open>deframe\<close>.\<close>

lemma botPackets_deframe:
  "deframe bs = (False, ms, rest) \<Longrightarrow> length rest = 3 \<longrightarrow> 0 < hLen (headerOf rest) \<Longrightarrow> \<forall>m \<in> set ms. 2 \<le> length (snd m) \<Longrightarrow>
   botPackets bs bc = bindR (botHears ms bc) (\<lambda>bc. Inr (rest, bc))"
proof (induction bs arbitrary: ms bc rule: deframe.induct)
  case (1 bs)
  define h where "h = headerOf bs"
  define L where "L = nat (hLen h)"
  consider (small) "length bs \<le> 3" | (bad) "3 < length bs" "hLen h \<le> 0"
    | (part) "3 < length bs" "0 < hLen h" "length bs < 3 + L" | (full) "3 < length bs" "0 < hLen h" "3 + L \<le> length bs" by linarith
  then show ?case
  proof cases
    case small
    then have e: "ms = []" "rest = bs" using "1.prems"(1) by (simp_all add: deframe.simps [of bs])
    show ?thesis
    proof (cases "length bs < 3")
      case True
      then show ?thesis by (simp add: botPackets.simps [of bs] botHears_def e)
    next
      case False
      then have "length bs = 3" using small by simp
      then show ?thesis using "1.prems"(2) by (simp add: botPackets.simps [of bs] botHears_def e Let_def)
    qed
  next
    case bad
    then show ?thesis using "1.prems"(1) by (simp add: deframe.simps [of bs] h_def Let_def)
  next
    case part
    then have "ms = []" "rest = bs" using "1.prems"(1) by (simp_all add: deframe.simps [of bs] h_def L_def Let_def)
    then show ?thesis using part by (simp add: botPackets.simps [of bs] botHears_def h_def L_def Let_def)
  next
    case full
    define m where "m = take L (drop 3 bs)"
    obtain ms' where ms: "ms = (hRandKey h, m) # ms'" "deframe (drop (3 + L) bs) = (False, ms', rest)"
      using "1.prems"(1) full by (auto simp: deframe.simps [of bs] h_def [symmetric] L_def [symmetric] m_def Let_def split: prod.splits)
    have len: "length m = L" "int L = hLen h" "2 \<le> L" using full "1.prems"(3) ms(1) by (auto simp: m_def L_def)
    have ih: "botPackets (drop (3 + L) bs) bc = bindR (botHears ms' bc) (\<lambda>bc. Inr (rest, bc))" for bc
      using "1.IH" full ms "1.prems"(2,3) unfolding h_def L_def by auto
    have dr: "drop 3 bs = m @ drop (3 + L) bs" by (simp add: m_def flip: drop_drop add.commute [of L 3])
    have "botPackets bs bc = bindR (botPacketProc (drop 3 bs) (hLen h) bc) (botPackets (drop (3 + L) bs))"
      using full by (simp add: botPackets.simps [of bs] h_def L_def Let_def)
    also have "botPacketProc (drop 3 bs) (hLen h) bc = botPacketProc m (int (length m)) bc"
      using botPacketProc_append [of m "drop (3 + L) bs" bc] len by (simp add: dr)
    also have "botPackets (drop (3 + L) bs) = (\<lambda>bc. bindR (botHears ms' bc) (\<lambda>bc. Inr (rest, bc)))" using ih by (rule ext)
    finally show ?thesis by (simp add: ms(1) botHears_def bindR_assoc)
  qed
qed

text \<open>A piece of the stream, as \<open>recv\<close> gives it.\<close>

definition botTake :: "byte list \<Rightarrow> botCtx \<Rightarrow> botCtx res" where
  "botTake bs bc = bindR (Recv (Received bs) (fst bc)) (\<lambda>(ok, b). recvPacketProc (b, snd bc))"

lemma botTake_eq:
  assumes "length x + length p < 40960"
    and d: "deframe (x @ p) = (False, ms, rest)" "length rest = 3 \<longrightarrow> 0 < hLen (headerOf rest)" "\<forall>m \<in> set ms. 2 \<le> length (snd m)"
  shows "botTake p (setRecv x bc) = mapR (setRecv rest) (botHears ms bc)"
proof -
  have e: "Recv (Received p) (fst (setRecv x bc)) = Inr (True, fst (setRecv (x @ p) bc))"
    using assms(1) by (simp add: Recv_def SESSION_RECV_BUFFER_SIZE_def setRecv_def)
  have s: "(fst (setRecv (x @ p) bc), snd (setRecv x bc)) = setRecv (x @ p) bc" by (simp add: setRecv_def)
  have r: "bsRecvBuffer (fst (setRecv (x @ p) bc)) = x @ p" by (simp add: setRecv_def)
  have "botTake p (setRecv x bc) = recvPacketProc (setRecv (x @ p) bc)"
    unfolding botTake_def e by (simp add: s)
  also have "\<dots> = bindR (bindR (botHears ms (setRecv (x @ p) bc)) (\<lambda>bc. Inr (rest, bc))) (\<lambda>(bs, b, c). Inr (b\<lparr>bsRecvBuffer := bs\<rparr>, c))"
    unfolding recvPacketProc_def r botPackets_deframe [OF d] ..
  also have "\<dots> = mapR (setRecv rest) (botHears ms bc)"
    unfolding botHears_setRecv by (cases "botHears ms bc") (auto simp: setRecv_def)
  finally show ?thesis .
qed

lemma deframe_bad_header:
  assumes "length x = 3" "hLen (headerOf x) \<le> 0" "deframe (x @ y) = (False, ms, rest)"
  shows "y = []"
proof (rule ccontr)
  assume "y \<noteq> []"
  then have "deframe (x @ y) = (True, [], x @ y)"
    using assms(1,2) by (cases y) (simp_all add: deframe.simps [of "x @ _ # _"] headerOf_append Let_def)
  then show False using assms(3) by simp
qed

lemma botTakes:
  assumes "length x + length (concat pieces) < 40960"
    and "deframe (x @ concat pieces) = (False, ms, [])" "\<forall>m \<in> set ms. 2 \<le> length (snd m)" "pieces \<noteq> [] \<or> x = []"
  shows "foldR botTake pieces (setRecv x bc) = mapR (setRecv []) (botHears ms bc)"
  using assms
proof (induction pieces arbitrary: x ms bc)
  case Nil
  then show ?case by (auto simp: deframe.simps [of "[]"] botHears_def)
next
  case (Cons p ps)
  obtain bad ms1 x1 where d1: "deframe (x @ p) = (bad, ms1, x1)" by (metis prod_cases3)
  have app: "deframe ((x @ p) @ concat ps) = (False, ms, [])" using Cons.prems(2) by simp
  then have bad: "\<not> bad" using d1 unfolding deframe_append [of "x @ p"] by auto
  obtain ms2 where d2: "deframe (x1 @ concat ps) = (False, ms2, [])" "ms = ms1 @ ms2"
    using app d1 bad unfolding deframe_append [of "x @ p"] by (auto split: prod.splits)
  have short: "length x1 + length (concat ps) < 40960"
    using deframe_length [of "x @ p"] d1 Cons.prems(1) by simp
  have ok: "length x1 = 3 \<longrightarrow> 0 < hLen (headerOf x1)"
  proof (intro impI, rule ccontr)
    assume x1: "length x1 = 3" "\<not> 0 < hLen (headerOf x1)"
    have c: "concat ps = []" using x1(2) by (intro deframe_bad_header [OF x1(1) _ d2(1)]) simp
    have "deframe x1 = (False, ms2, [])" using d2(1) unfolding c append_Nil2 .
    then show False using x1(1) by (simp add: deframe.simps [of x1])
  qed
  have t: "botTake p (setRecv x bc) = mapR (setRecv x1) (botHears ms1 bc)"
    using botTake_eq [OF _ d1 [unfolded eq_False [THEN iffD2, OF bad]] ok] Cons.prems(1,3) d2(2) by simp
  have "deframe x1 = (False, [], x1)" using deframe_rest d1 bad by simp
  then have last: "ps \<noteq> [] \<or> x1 = []" using d2(1) by (cases ps) auto
  show ?case
    using t Cons.IH [OF short d2(1) _ last] Cons.prems(3)
    by (cases "botHears ms1 bc") (simp_all add: d2(2) botHears_append)
qed

end
