(* ===== verification/BotProps.thy ===== *)
theory BotProps
  imports BotStream AuthProps SightProps
begin

text \<open>
  Bots and server together: what a bot says the server understands, what the server says a bot understands,
  both reckon the same way, and the one silence a bot does not recover from.
\<close>

subsection \<open>A bot speaks\<close>

text \<open>
  C16. A frame of a bot in the map, with room for two packets in its buffer, never fails: no assertion of its
  state machine, no overflow. It stays in the map, and what it adds to its buffer is whole packets, at most 48
  bytes, each one of the five packets of a player in the field. The field takes each from any of its players
  (\<open>field_takes\<close>): in every state of its invariant with room for one more job and item the handler of that type succeeds
  and keeps the invariant, except that a \<open>MOVE_START\<close> whose position is so far from where the server has the player
  that the account of deviations passes its limit stops the server at its assertion.
\<close>

theorem bot_speaks_protocol:
  assumes "bot_ok b" "rng_ok (clRng c)" "length (bsSendBuffer b) + 48 \<le> 1024"
  shows "\<exists>b' c' ms. botUpdate (b, c) = Inr (b', c') \<and> bot_ok b' \<and> rng_ok (clRng c') \<and>
    bsSendBuffer b' = bsSendBuffer b @ concat (map (\<lambda>m. frame (0, m)) ms) \<and> (\<forall>m \<in> set ms. acceptable m \<and> field_takes m) \<and>
    length (bsSendBuffer b') \<le> length (bsSendBuffer b) + 48"
proof -
  have "posts b (botUpdate (b, c))" using assms by (intro botUpdate_posts) (simp_all add: roomy_def)
  then obtain b' c' ms where "botUpdate (b, c) = Inr (b', c')" "bot_ok b'" "rng_ok (clRng c')"
    "bsSendBuffer b' = bsSendBuffer b @ concat (map (\<lambda>m. frame (0, m)) ms)" "\<forall>m \<in> set ms. acceptable m"
    "length (concat (map (\<lambda>m. frame (0, m)) ms)) \<le> 48" unfolding posts_def by blast
  then show ?thesis by (intro exI [of _ b'] exI [of _ c'] exI [of _ ms]) (simp add: acceptable_taken)
qed

definition newBots :: "rng \<Rightarrow> bots" where
  "newBots g = \<lparr> clNow = 0, clRng = g, clSendCount = (\<lambda>_. 0), clRecvCount = (\<lambda>_. 0), clAuthWaitCount = 0,
     clDisconnectCount = 0, clReconnectDeadCount = 0, clConnectedCount = 0, clTotalConnectCount = 0, clTotalRootItemCount = 0 \<rparr>"

lemma newBot_ok: "bot_ok (newBot k)"
proof -
  have "in_map (Position 0 0)" by code_simp
  then show ?thesis by (simp add: bot_ok_def newBot_def kBotSpeed_def dir_ok_def)
qed

lemma bot_speaks_protocol_witness:
  "\<exists>b' c' ms. botUpdate (newBot 7, newBots (\<lambda>_. 4)) = Inr (b', c') \<and> bot_ok b' \<and>
     bsSendBuffer b' = concat (map (\<lambda>m. frame (0, m)) ms) \<and> (\<forall>m \<in> set ms. acceptable m \<and> field_takes m)"
proof -
  have "rng_ok (clRng (newBots (\<lambda>_. 4)))" "bsSendBuffer (newBot 7) = []"
    by (simp_all add: newBots_def rng_ok_def newBot_def)
  then show ?thesis using bot_speaks_protocol [OF newBot_ok, of "newBots (\<lambda>_. 4)" 7] by auto
qed

subsection \<open>A bot logs in\<close>

lemma isalnum_digit: "isDigit d \<Longrightarrow> isalnum d" by (simp add: isalnum_def)

lemma botName_alnum:
  assumes "0 \<le> a"
  shows "list_all isalnum (botName a)" "botName a \<noteq> []" "length (botName a) \<le> 19"
proof -
  have "list_all isalnum (ascii ''bot'')" by code_simp
  moreover have "list_all isalnum (showN (nat a))"
    using showN_digits [of "nat a"] isalnum_digit by (auto simp: list_all_iff)
  ultimately have "list_all isalnum (ascii ''bot'' @ showI a)" using assms by (simp add: showI_def)
  then show "list_all isalnum (botName a)" unfolding botName_def snprintf_def list_all_iff by (meson in_set_takeD)
  show "botName a \<noteq> []" "length (botName a) \<le> 19" by (simp_all add: botName_def snprintf_def ascii_def)
qed

lemma cText_padded:
  assumes "0 \<notin> set bs"
  shows "cText (bs @ replicate n 0) = bs"
  using assms unfolding cText_def by (induction bs) (cases n; simp)+

lemma alnum_no_zero: "list_all isalnum bs \<Longrightarrow> 0 \<notin> set bs"
  using isalnum_plain by (auto simp: list_all_iff)

lemma PostFieldAuthReq_eq:
  assumes "0 \<le> bsAccountNo b" "length (bsSendBuffer b) + 89 \<le> 1024"
  defines "name \<equiv> botName (bsAccountNo b)"
  defines "ident \<equiv> name @ replicate (20 - length name) 0" and "pw \<equiv> botPw @ replicate (64 - length botPw) 0"
  shows "PostFieldAuthReq (b, c) =
    Inr (b\<lparr>bsLastTime := clNow c, bsSendBuffer := bsSendBuffer b @ frame (0, enc 2 FIELD_AUTH_REQ @ ident @ pw)\<rparr>, posted FIELD_AUTH_REQ c)"
proof -
  have "length ident = 20" "length pw = 64"
    using botName_alnum(3) [OF assms(1)] by (simp_all add: ident_def pw_def name_def botPw_def ascii_def)
  then show ?thesis
    using botPost_eq [of b "[ident, pw]" FIELD_AUTH_REQ "2 + 20 + 64" c] assms(2)
    by (simp add: PostFieldAuthReq_def name_def [symmetric] ident_def [symmetric] pw_def [symmetric] packet_defs Let_def del: enc.simps)
qed

text \<open>
  The login a bot posts is one frame of the length the header says, whose 84 bytes the server accepts:
  the name is valid, it is ``bot'' and the digits of the account number (cut to 19 bytes), and the text of the
  password is the bots' password.
\<close>

theorem bot_login_accepted:
  assumes "0 \<le> bsAccountNo b" "length (bsSendBuffer b) + 89 \<le> 1024"
  shows "\<exists>b' c' ident pw. PostFieldAuthReq (b, c) = Inr (b', c') \<and>
    bsSendBuffer b' = bsSendBuffer b @ frame (0, enc 2 FIELD_AUTH_REQ @ ident @ pw) \<and> length ident = 20 \<and> length pw = 64 \<and>
    isValidId (ident[19 := 0]) \<and> cText (ident[19 := 0]) = botName (bsAccountNo b) \<and> cText (pw @ [0]) = botPw"
proof -
  define name where "name = botName (bsAccountNo b)"
  note n = botName_alnum [OF assms(1), folded name_def]
  define ident where "ident = name @ replicate (20 - length name) (0 :: byte)"
  define pw where "pw = botPw @ replicate (64 - length botPw) (0 :: byte)"
  have lp: "length botPw = 10" by (simp add: botPw_def ascii_def)
  have l: "length ident = 20" "length pw = 64" using n(3) by (simp_all add: ident_def pw_def lp)
  have "ident ! 19 = 0" using n(3) by (simp add: ident_def nth_append)
  then have i: "ident[19 := 0] = ident" by (metis list_update_id)
  have t: "cText ident = name" unfolding ident_def by (rule cText_padded [OF alnum_no_zero [OF n(1)]])
  have v: "isValidId (ident[19 := 0])" using n t by (simp add: i valid_id)
  have "replicate 54 0 @ [0] = replicate 55 (0 :: byte)" by code_simp
  then have "pw @ [0] = botPw @ replicate 55 0" unfolding pw_def lp by simp
  moreover have "0 \<notin> set botPw" by code_simp
  ultimately have "cText (pw @ [0]) = botPw" by (simp add: cText_padded)
  moreover note PostFieldAuthReq_eq [OF assms, of c, folded name_def, folded ident_def pw_def]
  ultimately show ?thesis using l v t i by (intro exI [of _ ident] exI [of _ pw] exI conjI) (auto simp: name_def)
qed

lemma bot_login_accepted_witness:
  "\<exists>b' c' ident pw. PostFieldAuthReq (newBot 42, newBots (\<lambda>_. 0)) = Inr (b', c') \<and>
     bsSendBuffer b' = frame (0, enc 2 FIELD_AUTH_REQ @ ident @ pw) \<and> isValidId (ident[19 := 0]) \<and>
     cText (ident[19 := 0]) = botName 42"
  using bot_login_accepted [of "newBot 42" "newBots (\<lambda>_. 0)"] by (auto simp: newBot_def)

subsection \<open>Threads\<close>

text \<open>
  Any number of bots that the input takes is spread over at most as many threads as there is room for;
  each thread has at least one bot and at most the 64 that its sets of sockets hold, and together they have all.
\<close>

theorem bots_per_thread:
  assumes "startInput userCnt"
  shows "mThreadCnt userCnt \<le> MAX_THREAD_CNT \<and> int (length (sessionCnts userCnt)) = mThreadCnt userCnt \<and>
    sum_list (sessionCnts userCnt) = userCnt \<and> (\<forall>n \<in> set (sessionCnts userCnt). 1 \<le> n \<and> n \<le> 64)"
proof -
  have u: "1 \<le> userCnt" "userCnt \<le> 1280" using assms by (simp_all add: startInput_def)
  define q where "q = (userCnt - 1) div 64"
  have q: "0 \<le> q" "q \<le> 19" "64 * q < userCnt" "userCnt \<le> 64 * q + 64" using u unfolding q_def by linarith+
  have up: "[0 .. q] = [0 .. q - 1] @ [q]" using q(1) by (rule upto_rec2)
  have "map (\<lambda>i. if i = q then userCnt - 64 * i else 64) [0 .. q - 1] = map (\<lambda>i. 64) [0 .. q - 1]"
    by (rule map_cong) auto
  then have cnts: "sessionCnts userCnt = map (\<lambda>i. 64) [0 .. q - 1] @ [userCnt - 64 * q]"
    by (simp add: sessionCnts_def mThreadCnt_def q_def [symmetric] up)
  have "sum_list (map (\<lambda>i. 64) [0 .. q - 1]) = 64 * q" using q(1) by (simp add: sum_list_triv)
  then show ?thesis
    using q by (auto simp: cnts mThreadCnt_def q_def [symmetric] MAX_THREAD_CNT_def)
qed

lemma bots_per_thread_witness: "mThreadCnt 100 \<le> MAX_THREAD_CNT \<and> sum_list (sessionCnts 100) = 100"
  using bots_per_thread [of 100] by (simp add: startInput_def)

subsection \<open>Reckoning\<close>

lemma bindR_Inr: "bindR m Inr = m" by (cases m) simp_all

lemma foldR_replicate_Suc: "foldR f (replicate (Suc n) ()) s = bindR (foldR f (replicate n ()) s) (f ())"
proof (induction n arbitrary: s)
  case 0
  have "foldR f [] = Inr" by (rule ext) simp
  then show ?case by (simp add: bindR_Inr)
next
  case (Suc n)
  have "foldR f (replicate (Suc (Suc n)) ()) s = bindR (f () s) (foldR f (replicate (Suc n) ()))" by simp
  also have "\<dots> = bindR (f () s) (\<lambda>s. bindR (foldR f (replicate n ()) s) (f ()))"
    by (rule arg_cong [where f = "bindR (f () s)"]) (rule ext, rule Suc)
  also have "\<dots> = bindR (foldR f (replicate (Suc n) ()) s) (f ())" by (simp add: bindR_assoc)
  finally show ?case .
qed

lemma server_walk:
  assumes p: "plBConnect p" "plState p = PMove" "plAnimFrame p = 0" and v: "dirVector (plDirection p) = Inr v" and n: "Suc n < 2 ^ 31"
  shows "foldR (\<lambda>_. update) (replicate (Suc n) ()) p =
    Inr (p\<lparr>plAnimFrame := int (Suc n), plPos := moveTo (plStartMovePos p) v (plSpeed p) (int (Suc n))\<rparr>)"
  using n
proof (induction n)
  case 0
  then show ?case using p v by (simp add: update_def Player.moveUpdate_def wrap32_def)
next
  case (Suc n)
  have w: "wrap32 (int (Suc n) + 1) = int (Suc (Suc n))" using Suc.prems by (simp add: wrap32_def)
  define q where "q = p\<lparr>plAnimFrame := int (Suc n), plPos := moveTo (plStartMovePos p) v (plSpeed p) (int (Suc n))\<rparr>"
  have ih: "foldR (\<lambda>_. update) (replicate (Suc n) ()) p = Inr q" using Suc by (simp add: q_def)
  have "update q = Inr (p\<lparr>plAnimFrame := int (Suc (Suc n)), plPos := moveTo (plStartMovePos p) v (plSpeed p) (int (Suc (Suc n)))\<rparr>)"
    using p v w by (simp add: q_def update_def Player.moveUpdate_def)
  then show ?case unfolding foldR_replicate_Suc [of _ "Suc n"] ih by simp
qed

lemma bot_walk:
  assumes b: "bsBMove b" "bsState b = BMove" "bsAnimFrame b = 0" and v: "dirVector (bsDirection b) = Inr v"
    and n: "n < 2 ^ 31" and g: "\<And>i. 2 \<le> clRng c i mod 100"
  shows "\<exists>c'. foldR (\<lambda>_. botUpdate) (replicate (Suc n) ()) (b, c) =
      Inr (b\<lparr>bsAnimFrame := int (Suc n), bsPos := moveTo (bsStartMovePos b) v (bsSpeed b) (int n)\<rparr>, c') \<and>
    (\<forall>i. 2 \<le> clRng c' i mod 100)"
proof -
  have one: "\<exists>c'. botUpdate (b', c) = Inr (b'\<lparr>bsAnimFrame := bsAnimFrame b' + 1, bsPos := moveTo (bsStartMovePos b') v (bsSpeed b') (bsAnimFrame b')\<rparr>, c') \<and>
      (\<forall>i. 2 \<le> clRng c' i mod 100)"
    if "bsBMove b'" "bsState b' = BMove" "dirVector (bsDirection b') = Inr v" "\<forall>i. 2 \<le> clRng c i mod 100"
      "0 \<le> bsAnimFrame b'" "bsAnimFrame b' < 2 ^ 31" for b' c
  proof -
    have r: "clRng c 0 mod 100 \<noteq> 0" "clRng c 0 mod 100 \<noteq> 1" using that(4) by (metis not_numeral_le_zero, metis one_less_numeral_iff semiring_norm(76) not_le)
    have "wrap64 (bsAnimFrame b' + 1) = bsAnimFrame b' + 1" using that(5,6) by (simp add: wrap64_def)
    then show ?thesis using that r
      by (simp add: botUpdate_def botReckon_def botMove_def botRand_def rand_def selectAction_def postHeartBeat_def)
  qed
  show ?thesis using n
  proof (induction n)
    case 0
    then show ?case using one [of b c] b v g by (auto simp: bindR_Inr bindR_def)
  next
    case (Suc n)
    then obtain c1 where c1: "foldR (\<lambda>_. botUpdate) (replicate (Suc n) ()) (b, c) =
        Inr (b\<lparr>bsAnimFrame := int (Suc n), bsPos := moveTo (bsStartMovePos b) v (bsSpeed b) (int n)\<rparr>, c1)"
      "\<forall>i. 2 \<le> clRng c1 i mod 100" by auto
    then show ?case
      using one [of "b\<lparr>bsAnimFrame := int (Suc n), bsPos := moveTo (bsStartMovePos b) v (bsSpeed b) (int n)\<rparr>" c1] b v Suc.prems
      by (simp add: foldR_replicate_Suc [of _ "Suc n"] del: replicate_Suc)
  qed
qed

text \<open>
  C23. Bot and server reckon alike: when a bot that walks (and whose die does not change its mind) and the
  server's player start at the same place in the same direction with the same speed, the bot is after
  \<open>n + 1\<close> of its frames exactly, bit for bit, where the server has the player after \<open>n\<close> frames.
\<close>

theorem bot_reckons_like_server:
  assumes p: "plBConnect p" "plState p = PMove" "plAnimFrame p = 0" and b: "bsBMove b" "bsState b = BMove" "bsAnimFrame b = 0"
    and same: "plStartMovePos p = bsStartMovePos b" "plDirection p = bsDirection b" "plSpeed p = bsSpeed b" "dir_ok (bsDirection b)"
    and n: "0 < n" "n < 2 ^ 31" and die: "\<And>i. 2 \<le> clRng c i mod 100"
  shows "\<exists>p' b' c'. foldR (\<lambda>_. update) (replicate n ()) p = Inr p' \<and>
    foldR (\<lambda>_. botUpdate) (replicate (Suc n) ()) (b, c) = Inr (b', c') \<and> bsPos b' = plPos p'"
proof -
  obtain v where v: "dirVector (bsDirection b) = Inr v" using same(4) dirVector_ok by blast
  obtain m where m: "n = Suc m" using n(1) by (cases n) auto
  have "foldR (\<lambda>_. update) (replicate n ()) p = Inr (p\<lparr>plAnimFrame := int n, plPos := moveTo (plStartMovePos p) v (plSpeed p) (int n)\<rparr>)"
    unfolding m using server_walk [OF p _ n(2) [unfolded m]] v same(2) by simp
  then show ?thesis using bot_walk [OF b v n(2) die] same by auto
qed

lemma bot_reckons_like_server_witness:
  "\<exists>p' b' c'. foldR (\<lambda>_. update) (replicate 9 ()) ((newPlayer 3)\<lparr>plState := PMove, plDirection := DirUpLeft\<rparr>) = Inr p' \<and>
    foldR (\<lambda>_. botUpdate) (replicate (Suc 9) ()) ((newBot 1)\<lparr>bsState := BMove, bsBMove := True, bsDirection := DirUpLeft\<rparr>,
      newBots (\<lambda>_. 50)) = Inr (b', c') \<and> bsPos b' = plPos p'"
  by (rule bot_reckons_like_server) (simp_all add: newPlayer_def newBot_def newBots_def dir_ok_def)

subsection \<open>A bot listens\<close>

text \<open>
  A stream of whole packets, cut into pieces anywhere, makes a bot do exactly what the packets one by one
  make it do, in their order (fault included), and leaves nothing in its buffer.
\<close>

theorem bot_stream_reassembled:
  assumes "bsRecvBuffer b = []" "concat pieces = concat (map frame ms)" "length (concat pieces) < 40960"
    and ms: "\<forall>m \<in> set ms. 2 \<le> length (snd m) \<and> length (snd m) < 32768 \<and> - 128 \<le> fst m \<and> fst m < 128"
  shows "foldR botTake pieces (b, c) = foldR (\<lambda>m. botPacketProc (snd m) (int (length (snd m)))) ms (b, c) \<and>
    (\<forall>b' c'. foldR botTake pieces (b, c) = Inr (b', c') \<longrightarrow> bsRecvBuffer b' = [])"
proof -
  have s: "setRecv [] (b, c) = (b, c)" using assms(1) by (simp add: setRecv_def)
  have "\<forall>m \<in> set ms. snd m \<noteq> [] \<and> length (snd m) < 32768 \<and> - 128 \<le> fst m \<and> fst m < 128" using ms by force
  then have d: "deframe ([] @ concat pieces) = (False, ms, [])" using deframe_frames assms(2) by simp
  have t: "foldR botTake pieces (b, c) = mapR (setRecv []) (botHears ms (b, c))"
    using botTakes [OF _ d, of "(b, c)"] assms(3) ms by (simp add: s)
  then have "foldR botTake pieces (b, c) = botHears ms (b, c)" using botHears_setRecv [of ms "[]" "(b, c)"] by (simp add: s)
  moreover have "bsRecvBuffer b' = []" if "foldR botTake pieces (b, c) = Inr (b', c')" for b' c'
    using that unfolding t by (cases "botHears ms (b, c)") (auto simp: setRecv_def)
  ultimately show ?thesis by (simp add: botHears_def)
qed

text \<open>A ranking and a loot answer, cut in the middle of the second header; the bot waits for the answer.\<close>

definition samplePackets :: "(int \<times> byte list) list" where
  "samplePackets = [(0, enc 2 RANKING_RES @ [7]), (0, enc 2 LOOT_RES @ [0, 1] @ enc 4 3)]"

lemma bot_stream_reassembled_witness:
  "foldR botTake [take 8 (concat (map frame samplePackets)), drop 8 (concat (map frame samplePackets))] (newBot 1, newBots (\<lambda>_. 0)) =
     foldR (\<lambda>m. botPacketProc (snd m) (int (length (snd m)))) samplePackets (newBot 1, newBots (\<lambda>_. 0))"
proof -
  have "\<forall>m \<in> set samplePackets. 2 \<le> length (snd m) \<and> length (snd m) < 32768 \<and> - 128 \<le> fst m \<and> fst m < 128"
    by (simp add: samplePackets_def del: enc.simps)
  moreover have "length (concat (map frame samplePackets)) < 40960" by (simp add: samplePackets_def del: enc.simps)
  ultimately show ?thesis
    using bot_stream_reassembled [of "newBot 1" "[take 8 (concat (map frame samplePackets)), drop 8 (concat (map frame samplePackets))]"
        samplePackets "newBots (\<lambda>_. 0)"] by (simp add: newBot_def)
qed

subsection \<open>An answer that never comes\<close>

definition awaits :: "int \<Rightarrow> bot \<Rightarrow> bool" where
  "awaits item b \<longleftrightarrow> bsLootRequested b \<and> bsTargetItemID b = item \<and> item \<noteq> - 1 \<and> \<not> bsBMove b"

lemma awaits_update:
  assumes "awaits item b" "bsState b = BIdle \<or> bsState b = BRoot"
  shows "\<exists>b' c'. botUpdate (b, c) = Inr (b', c') \<and> awaits item b' \<and> bsState b' = BRoot \<and> bsSendBuffer b' = bsSendBuffer b"
proof -
  have r: "botReckon b = Inr b" using assms(1) by (simp add: botReckon_def awaits_def)
  obtain q where q: "forgetTarget (b, c) = (q, c)" "bsTargetItemID q = bsTargetItemID b" "bsLootRequested q = bsLootRequested b"
    "bsBMove q = bsBMove b" "bsSendBuffer q = bsSendBuffer b" "bsState q = bsState b"
    using forgetTarget_ok [of b c] by blast
  show ?thesis
  proof (cases "bsState b = BRoot")
    case True
    then show ?thesis using r assms(1)
      by (simp add: botUpdate_def botRoot_def awaits_def selectAction_def postHeartBeat_def)
  next
    case False
    then have "bsState b = BIdle" using assms(2) by simp
    then show ?thesis using r q assms(1)
      by (simp add: botUpdate_def botIdle_def awaits_def botChangeState_def botResetAnim_def selectAction_def postHeartBeat_def)
  qed
qed

lemma awaits_updates:
  "awaits item b \<Longrightarrow> bsState b = BIdle \<or> bsState b = BRoot \<Longrightarrow>
   \<exists>b' c'. foldR (\<lambda>_. botUpdate) (replicate n ()) (b, c) = Inr (b', c') \<and> awaits item b' \<and>
     (bsState b' = BIdle \<or> bsState b' = BRoot) \<and> bsSendBuffer b' = bsSendBuffer b"
proof (induction n arbitrary: b c)
  case (Suc n)
  obtain b1 c1 where 1: "botUpdate (b, c) = Inr (b1, c1)" "awaits item b1" "bsState b1 = BRoot" "bsSendBuffer b1 = bsSendBuffer b"
    using awaits_update [OF Suc.prems] by blast
  then show ?case using Suc.IH [of b1 c1] by simp
qed simp

text \<open>
  C39. A bot whose connection ends between its \<open>LOOT_REQ\<close> and the answer is lost: nothing on the way of
  reconnecting and logging in again takes the mark of the request back, so from then on, however many frames it
  runs and though it is logged in, it waits for an answer nobody owes it and posts nothing.
\<close>

theorem lost_loot_answer:
  assumes b: "awaits item b"
    and conn: "connectSession True True (botDisconnect t b, c) = Inr (b1, c1)"
    and up: "serveBot now (False, True, False) e k (b1, c1) = Inr (k', b2, c2)"
    and login: "handleFieldAuth res (b2, c2) = Inr (b3, c3)"
  shows "bsSessionState b3 = AUTHED \<and>
    (\<exists>b' c'. foldR (\<lambda>_. botUpdate) (replicate n ()) (b3, c3) = Inr (b', c') \<and> awaits item b' \<and> bsSendBuffer b' = bsSendBuffer b3)"
proof -
  have 1: "awaits item b1" "bsSessionState b1 = REQ_CONNECT"
    using conn b by (auto simp: connectSession_def Init_def botDisconnect_def awaits_def)
  have p: "awaits item b'" "bsState b' = bsState q" if "botPost ty len fs (q, c) = Inr (b', c')" "awaits item q" for ty len fs q c b' c'
    using that by (auto simp: botPost_def EnqueueSend_def botRecordSend_def bindR_Inr_iff assertR_def awaits_def Let_def split: if_splits)
  have 2: "awaits item b2" "bsState b2 = BIdle"
    using up 1 p [of FIELD_AUTH_REQ "2 + 20 + 64" _ "b1\<lparr>bsSessionState := CONNECTED, bsState := BIdle\<rparr>"]
    by (auto simp: serveBot_def PostFieldAuthReq_def bindR_Inr_iff Let_def awaits_def)
  have 3: "awaits item b3" "bsState b3 = BIdle" "bsSessionState b3 = AUTHED"
    using login 2 by (auto simp: handleFieldAuth_def ConnectComplete_def awaits_def assertR_def split: if_splits)
  then show ?thesis using awaits_updates [OF 3(1)] by blast
qed

definition sampleWaiter :: bot where
  "sampleWaiter = (newBot 3)\<lparr>bsSock := True, bsSessionState := AUTHED, bsState := BRoot, bsTargetItemID := 5, bsLootRequested := True\<rparr>"

definition sampleIo :: botIo where
  "sampleIo = \<lparr> ioSocket = True, ioPending = True, ioRead = False, ioWrite = True, ioExcept = False, ioSend = 1,
     ioWouldBlock = False, ioRecv = Finished \<rparr>"

definition sampleWelcome :: "byte list" where
  "sampleWelcome = enc 2 FIELD_AUTH_RES @ enc 8 9 @ encF 0 @ encF 0"

lemma sampleWaiter_runs:
  "\<exists>b1 c1 k' b2 c2 b3 c3. connectSession True True (botDisconnect 0 sampleWaiter, newBots (\<lambda>_. 0)) = Inr (b1, c1) \<and>
     serveBot 0 (False, True, False) sampleIo 1 (b1, c1) = Inr (k', b2, c2) \<and> handleFieldAuth sampleWelcome (b2, c2) = Inr (b3, c3)"
proof -
  define b1 where "b1 = sampleWaiter\<lparr>bsSessionState := REQ_CONNECT, bsSendBuffer := [], bsRecvBuffer := [], bsDeadFrame := 0\<rparr>"
  define c1 where "c1 = (newBots (\<lambda>_. 0))\<lparr>clTotalConnectCount := 1\<rparr>"
  define q where "q = b1\<lparr>bsSessionState := CONNECTED, bsState := BIdle\<rparr>"
  have 1: "connectSession True True (botDisconnect 0 sampleWaiter, newBots (\<lambda>_. 0)) = Inr (b1, c1)"
    by (simp add: connectSession_def Init_def botDisconnect_def sampleWaiter_def newBot_def newBots_def b1_def c1_def Let_def)
  obtain x where 2: "PostFieldAuthReq (q, c1) = Inr (q\<lparr>bsLastTime := clNow c1, bsSendBuffer := x\<rparr>, posted FIELD_AUTH_REQ c1)"
    using PostFieldAuthReq_eq [of q c1] by (auto simp: q_def b1_def sampleWaiter_def newBot_def)
  have "\<exists>k' b2 c2. serveBot 0 (False, True, False) sampleIo 1 (b1, c1) = Inr (k', b2, c2) \<and> \<not> bsHasDisconnectPos b2"
    using 2 by (simp add: serveBot_def q_def b1_def sampleWaiter_def newBot_def)
  then obtain k' b2 c2 where 3: "serveBot 0 (False, True, False) sampleIo 1 (b1, c1) = Inr (k', b2, c2)" "\<not> bsHasDisconnectPos b2"
    by blast
  then have "\<exists>b3 c3. handleFieldAuth sampleWelcome (b2, c2) = Inr (b3, c3)" by (simp add: handleFieldAuth_def ConnectComplete_def)
  then show ?thesis using 1 3(1) by blast
qed

lemma lost_loot_answer_witness:
  "\<exists>b3 c3 b' c'. bsSessionState b3 = AUTHED \<and> foldR (\<lambda>_. botUpdate) (replicate 1000 ()) (b3, c3) = Inr (b', c') \<and>
     bsSendBuffer b' = bsSendBuffer b3"
proof -
  have a: "awaits 5 sampleWaiter" by (simp add: awaits_def sampleWaiter_def newBot_def)
  obtain b1 c1 k' b2 c2 b3 c3 where r: "connectSession True True (botDisconnect 0 sampleWaiter, newBots (\<lambda>_. 0)) = Inr (b1, c1)"
    "serveBot 0 (False, True, False) sampleIo 1 (b1, c1) = Inr (k', b2, c2)" "handleFieldAuth sampleWelcome (b2, c2) = Inr (b3, c3)"
    using sampleWaiter_runs by blast
  show ?thesis using lost_loot_answer [OF a r, of 1000] by blast
qed

subsection \<open>What the server says\<close>

definition heard :: "int \<Rightarrow> bots \<Rightarrow> bots" where
  "heard t c = c\<lparr>clRecvCount := (clRecvCount c)(t := clRecvCount c t + 1)\<rparr>"

lemma packet_frame: "mBuf (packet now k t body) = frame (0, enc 2 t @ body)"
  by (simp add: packet_def frame_def)

lemma botTake_packet:
  assumes "bsRecvBuffer b = []" "length body \<le> 100"
  shows "botTake (mBuf (packet now k t body)) (b, c) = botPacketProc (enc 2 t @ body) (int (2 + length body)) (b, c)"
proof -
  have s: "setRecv [] (b, c) = (b, c)" using assms(1) by (simp add: setRecv_def)
  have "deframe ([] @ concat [mBuf (packet now k t body)]) = (False, [(0, enc 2 t @ body)], [])"
    using deframe_frames [of "[(0, enc 2 t @ body)]"] assms(2) by (simp add: packet_frame numeral_2_eq_2)
  from botTakes [OF _ this, of "(b, c)"] assms(2)
  have "foldR botTake [mBuf (packet now k t body)] (b, c) = mapR (setRecv []) (botHears [(0, enc 2 t @ body)] (b, c))"
    by (simp add: packet_frame s)
  also have "\<dots> = botHears [(0, enc 2 t @ body)] (b, c)" using botHears_setRecv [of "[(0, enc 2 t @ body)]" "[]" "(b, c)"] by (simp add: s)
  finally show ?thesis by (cases "botTake (mBuf (packet now k t body)) (b, c)") (simp_all add: botHears_def bindR_Inr bindR_def split: sum.splits)
qed

lemmas bot_reads = botPacketProc_def botRecordRecv_def heard_def fldS_def fldF_def fldPos_def packet_defs Let_def

lemma dec_long: "- (2 ^ 63) \<le> i \<Longrightarrow> i < 2 ^ 63 \<Longrightarrow> decS (enc 8 i) = i"
  by (rule decS_enc) simp_all

lemma dec_hp: "0 \<le> i \<Longrightarrow> i < 2 ^ 31 \<Longrightarrow> decS (enc 4 i) = i"
  by (rule decS_enc) simp_all

lemma hears_monster_stop:
  assumes "- (2 ^ 63) \<le> mnMonsterID m" "mnMonsterID m < 2 ^ 63"
  shows "botPacketProc (enc 2 MONSTER_MOVE_STOP @ monsterMoveBody m) 19 (b, c) =
    Inr (if bsState b \<in> {BIdle, BChase, BAttack} then ChaseTarget (mnMonsterID m) (mnPos m) b else b, heard MONSTER_MOVE_STOP c)"
  using dec_long [OF assms] dec_small [of MONSTER_MOVE_STOP]
  by (simp add: bot_reads monsterMoveBody_def handleMonsterMoveStop_def del: enc.simps)

lemma hears_item_spawn:
  assumes "- (2 ^ 63) \<le> itItemUniqueId it" "itItemUniqueId it < 2 ^ 63"
  shows "botPacketProc (enc 2 ITEM_SPAWN @ concat (itemFields it)) 19 (b, c) =
    Inr (if bsTargetItemID b = - 1 then ChaseItem (itItemUniqueId it) (itPos it) b else b, heard ITEM_SPAWN c)"
  using dec_long [OF assms] dec_small [of ITEM_SPAWN]
  by (simp add: bot_reads itemFields_def handleItemSpawn_def ChaseItem_def del: enc.simps)

lemma hears_damage:
  assumes "- (2 ^ 63) \<le> plCharacterID p" "plCharacterID p < 2 ^ 63" "- (2 ^ 63) \<le> mnMonsterID m" "mnMonsterID m < 2 ^ 63"
    "0 \<le> plHp p" "plHp p < 2 ^ 31"
  shows "botPacketProc (enc 2 CHARACTER_DAMAGED @ enc 8 (plCharacterID p) @ enc 4 (plHp p) @ encF (posX (plPos p)) @
      encF (posY (plPos p)) @ enc 1 (plDirection p) @ enc 8 (mnMonsterID m)) 31 (b, c) =
    (if plCharacterID p \<noteq> bsCharacterId b then Inr (b, heard CHARACTER_DAMAGED c)
     else bindR (botTakeDamage (plHp p) (posX (plPos p)) (posY (plPos p)) (b, heard CHARACTER_DAMAGED c)) (\<lambda>(b, c).
          Inr (if bsState b = BDead then b else ChaseTarget (mnMonsterID m) (bsPos b) b, c)))"
  using dec_long [OF assms(1,2)] dec_long [OF assms(3,4)] dec_hp [OF assms(5,6)] dec_small [of CHARACTER_DAMAGED]
  by (auto simp: bot_reads handleCharecterDamaged_def simp del: enc.simps intro!: arg_cong2 [of _ _ _ _ bindR])

lemma told_bots:
  assumes "bc = Inr (sent t (toMembers near t body f s) s)" "\<And>k. botTake (mBuf (packet (svNow s) k t body)) x = r"
  shows "\<exists>s'. bc = Inr s' \<and> (\<forall>(k, msg) \<in> set (drop (length (svOut s)) (svOut s')). botTake (mBuf msg) x = r)"
  using assms by (auto simp: toMembers_def)

text \<open>
  C22. Server and bot agree on the packets: whatever the server sends around when a monster stops, an item
  drops or a player is hit, each bot that gets it takes it whole and reads back exactly what the server meant:
  it goes for that monster at its place, for that item at its place, and takes the damage if it is the one hit
  (and turns on the attacker if it lives).
\<close>

theorem bot_understands_server:
  assumes near: "live near s" and b: "bsRecvBuffer b = []"
    and m: "- (2 ^ 63) \<le> mnMonsterID m" "mnMonsterID m < 2 ^ 63"
    and it: "- (2 ^ 63) \<le> itItemUniqueId it" "itItemUniqueId it < 2 ^ 63"
    and p: "- (2 ^ 63) \<le> plCharacterID p" "plCharacterID p < 2 ^ 63" "0 \<le> plHp p" "plHp p < 2 ^ 31"
  shows "(\<exists>s'. broadcastMonsterMoveStop m near s = Inr s' \<and>
      (\<forall>(k, msg) \<in> set (drop (length (svOut s)) (svOut s')). botTake (mBuf msg) (b, c) =
        Inr (if bsState b \<in> {BIdle, BChase, BAttack} then ChaseTarget (mnMonsterID m) (mnPos m) b else b, heard MONSTER_MOVE_STOP c))) \<and>
    (\<exists>s'. broadcastItemSpawn it near s = Inr s' \<and>
      (\<forall>(k, msg) \<in> set (drop (length (svOut s)) (svOut s')). botTake (mBuf msg) (b, c) =
        Inr (if bsTargetItemID b = - 1 then ChaseItem (itItemUniqueId it) (itPos it) b else b, heard ITEM_SPAWN c))) \<and>
    (\<exists>s'. broadcastCharacterDamaged p m near s = Inr s' \<and>
      (\<forall>(k, msg) \<in> set (drop (length (svOut s)) (svOut s')). botTake (mBuf msg) (b, c) =
        (if plCharacterID p \<noteq> bsCharacterId b then Inr (b, heard CHARACTER_DAMAGED c)
         else bindR (botTakeDamage (plHp p) (posX (plPos p)) (posY (plPos p)) (b, heard CHARACTER_DAMAGED c)) (\<lambda>(b, c).
              Inr (if bsState b = BDead then b else ChaseTarget (mnMonsterID m) (bsPos b) b, c)))))"
proof -
  have l: "length (monsterMoveBody m) = 17" "length (concat (itemFields it)) = 17"
    by (simp_all add: monsterMoveBody_def itemFields_def del: enc.simps)
  have 1: "botTake (mBuf (packet (svNow s) k MONSTER_MOVE_STOP (monsterMoveBody m))) (b, c) =
      botPacketProc (enc 2 MONSTER_MOVE_STOP @ monsterMoveBody m) 19 (b, c)" for k
    using botTake_packet [OF b, of "monsterMoveBody m"] l by simp
  have 2: "botTake (mBuf (packet (svNow s) k ITEM_SPAWN (concat (itemFields it)))) (b, c) =
      botPacketProc (enc 2 ITEM_SPAWN @ concat (itemFields it)) 19 (b, c)" for k
    using botTake_packet [OF b, of "concat (itemFields it)"] l by simp
  define body where "body = enc 8 (plCharacterID p) @ enc 4 (plHp p) @ encF (posX (plPos p)) @ encF (posY (plPos p)) @
      enc 1 (plDirection p) @ enc 8 (mnMonsterID m)"
  have "length body = 29" by (simp add: body_def del: enc.simps)
  then have 3: "botTake (mBuf (packet (svNow s) k CHARACTER_DAMAGED body)) (b, c) =
      botPacketProc (enc 2 CHARACTER_DAMAGED @ body) 31 (b, c)" for k
    using botTake_packet [OF b, of body] by simp
  show ?thesis
    by (intro conjI told_bots [OF broadcastMonsterMoveStop_eq [OF near]] told_bots [OF broadcastItemSpawn_eq [OF near]]
          told_bots [OF broadcastCharacterDamaged_eq [OF near]])
      (simp_all only: 1 2 3 [unfolded body_def] hears_monster_stop [OF m] hears_item_spawn [OF it] hears_damage [OF p(1,2) m p(3,4)])
qed

lemma bot_understands_server_witness:
  "\<exists>s'. broadcastMonsterMoveStop sampleMonster [Sector 0 0] sampleField = Inr s' \<and>
     (\<forall>(k, msg) \<in> set (drop (length (svOut sampleField)) (svOut s')). botTake (mBuf msg) (newBot 1, newBots (\<lambda>_. 0)) =
        Inr (ChaseTarget 7 (Position (f_lit 3000 1) (f_lit 1000 1)) (newBot 1), heard MONSTER_MOVE_STOP (newBots (\<lambda>_. 0))))"
proof -
  have m: "mnMonsterID sampleMonster = 7" "mnPos sampleMonster = Position (f_lit 3000 1) (f_lit 1000 1)"
    by (simp_all add: sampleMonster_def newMonster_def)
  have b: "bsRecvBuffer (newBot 1) = []" "bsState (newBot 1) = BIdle" by (simp_all add: newBot_def)
  have i: "itItemUniqueId (newFieldItem 3 Gold 1 (Position 0 0)) = 3" by (simp add: newFieldItem_def)
  have p: "plCharacterID (newPlayer 0) = 0" "plHp (newPlayer 0) = 100" by (simp_all add: newPlayer_def frame_defs)
  show ?thesis
    using bot_understands_server [OF field_inv_live [OF sampleField_inv] b(1), of sampleMonster "newFieldItem 3 Gold 1 (Position 0 0)"
        "newPlayer 0" "[Sector 0 0]" "newBots (\<lambda>_. 0)"] m b(2) i p by simp
qed

end
