(* ===== verification/Animation.thy ===== *)
theory Animation
  imports GameConfig "HOL-Library.Signed_Division"
begin

text \<open>
  \<open>render::Animation\<close> of the game client (\<open>ClientProject/Render/Animation.cpp\<close>): which frame of a strip is
  shown, advanced tick by tick, or by many ticks at once when an actor comes into sight in the middle of an
  action. The picture behind it (atlas, texture, sampler) is not part of the model.
\<close>

subsection \<open>State\<close>

datatype eAnimationType = Loop | EndStop

record animation =
  anType :: eAnimationType
  anSpeed :: int
  anSpeedCnt :: int
  anCurrentFrame :: int
  anFrameCount :: int
  anCols :: int
  anFrameW :: int
  anFrameH :: int
  anStartRow :: int

definition newAnimation :: "eAnimationType \<Rightarrow> int \<Rightarrow> animation" where
  "newAnimation type speed =
     \<lparr> anType = type, anSpeed = speed, anSpeedCnt = 0, anCurrentFrame = 0, anFrameCount = 0, anCols = 0,
       anFrameW = 0, anFrameH = 0, anStartRow = 0 \<rparr>"

definition SetAtlas :: "int \<Rightarrow> int \<Rightarrow> int \<Rightarrow> int \<Rightarrow> int \<Rightarrow> animation \<Rightarrow> animation" where
  "SetAtlas frameCount cols frameW frameH startRow a =
     a\<lparr>anStartRow := startRow, anFrameCount := frameCount, anCols := cols, anFrameW := frameW, anFrameH := frameH\<rparr>"

subsection \<open>Ticks\<close>

text \<open>\<open>Run\<close> also answers whether the frame was due.\<close>

definition Run :: "animation \<Rightarrow> bool \<times> animation" where
  "Run a =
     (if anCurrentFrame a \<noteq> anFrameCount a
      then let a = a\<lparr>anSpeedCnt := wrap32 (anSpeedCnt a + 1)\<rparr>
           in if anSpeedCnt a = anSpeed a
              then let a = a\<lparr>anCurrentFrame := wrap32 (anCurrentFrame a + 1), anSpeedCnt := 0\<rparr>
                   in (True, if anCurrentFrame a = anFrameCount a
                             then a\<lparr>anCurrentFrame := (if anType a \<noteq> EndStop then 0 else anFrameCount a - 1)\<rparr>
                             else a)
              else (False, a)
      else (False, a))"

text \<open>Division and remainder truncate; a speed of 0 is a division by zero.\<close>

definition FastForward :: "int \<Rightarrow> animation \<Rightarrow> animation res" where
  "FastForward ticks a =
     assertR (anFrameCount a \<noteq> 0)
       (if anSpeed a = 0 then Inl UndefinedBehaviour
        else let frame = ticks sdiv anSpeed a
             in Inr (a\<lparr>anCurrentFrame := (if anType a = EndStop
                         then (if frame < anFrameCount a then frame else anFrameCount a - 1)
                         else frame smod anFrameCount a), anSpeedCnt := 0\<rparr>))"

definition Initialize :: "animation \<Rightarrow> animation" where
  "Initialize a = a\<lparr>anCurrentFrame := 0, anSpeedCnt := 0\<rparr>"

subsection \<open>Laws\<close>

text \<open>A strip as the actors make them, and the numbers its counters stay in.\<close>

definition anim_wf :: "animation \<Rightarrow> bool" where
  "anim_wf a \<longleftrightarrow> 0 < anSpeed a \<and> anSpeed a < 2 ^ 31 \<and> 0 < anFrameCount a \<and> anFrameCount a < 2 ^ 31 \<and>
     0 \<le> anSpeedCnt a \<and> anSpeedCnt a < anSpeed a \<and> 0 \<le> anCurrentFrame a \<and> anCurrentFrame a < anFrameCount a"

definition same_strip :: "animation \<Rightarrow> animation \<Rightarrow> bool" where
  "same_strip a b \<longleftrightarrow> anType b = anType a \<and> anSpeed b = anSpeed a \<and> anFrameCount b = anFrameCount a"

text \<open>One tick of a well-formed strip, without the wrap-around that its counters never reach.\<close>

definition nextFrame :: "animation \<Rightarrow> int" where
  "nextFrame a = (if anType a = EndStop then min (anCurrentFrame a + 1) (anFrameCount a - 1)
                  else (anCurrentFrame a + 1) mod anFrameCount a)"

lemma Run_eq:
  assumes "anim_wf a"
  shows "Run a = (anSpeedCnt a + 1 = anSpeed a,
    if anSpeedCnt a + 1 = anSpeed a then a\<lparr>anCurrentFrame := nextFrame a, anSpeedCnt := 0\<rparr>
    else a\<lparr>anSpeedCnt := anSpeedCnt a + 1\<rparr>)"
proof -
  have "wrap32 (anSpeedCnt a + 1) = anSpeedCnt a + 1" "wrap32 (anCurrentFrame a + 1) = anCurrentFrame a + 1"
    using assms by (intro wrap32_id; simp add: anim_wf_def)+
  moreover have "(anCurrentFrame a + 1) mod anFrameCount a = anCurrentFrame a + 1" if "anCurrentFrame a + 1 \<noteq> anFrameCount a"
    using assms that by (intro mod_pos_pos_trivial) (simp_all add: anim_wf_def)
  moreover have "eAnimationType.Loop = anType a" if "anType a \<noteq> EndStop" using that by (cases "anType a") simp_all
  ultimately show ?thesis using assms
    by (auto simp: Run_def anim_wf_def nextFrame_def Let_def min_def)
qed

lemma Run_wf: "anim_wf a \<Longrightarrow> anim_wf (snd (Run a)) \<and> same_strip a (snd (Run a))"
  by (auto simp: Run_eq same_strip_def) (auto simp: anim_wf_def nextFrame_def)

lemma Initialize_wf: "anim_wf a \<Longrightarrow> anim_wf (Initialize a) \<and> same_strip a (Initialize a)"
  by (simp add: anim_wf_def Initialize_def same_strip_def)

lemma sdiv_pos: "0 \<le> k \<Longrightarrow> 0 \<le> l \<Longrightarrow> k sdiv l = (k :: int) div l" "0 \<le> k \<Longrightarrow> 0 \<le> l \<Longrightarrow> k smod l = (k :: int) mod l"
  by (auto simp: signed_divide_int_def signed_modulo_int_def sgn_if)

lemma FastForward_eq:
  assumes "anim_wf a" "0 \<le> n"
  shows "FastForward n a = Inr (a\<lparr>anSpeedCnt := 0, anCurrentFrame :=
    (if anType a = EndStop then min (n div anSpeed a) (anFrameCount a - 1) else n div anSpeed a mod anFrameCount a)\<rparr>)"
proof -
  have "0 \<le> n div anSpeed a" using assms by (simp add: anim_wf_def pos_imp_zdiv_nonneg_iff)
  then show ?thesis using assms by (simp add: FastForward_def anim_wf_def sdiv_pos Let_def min_def)
qed

lemma FastForward_wf:
  assumes "anim_wf a" "0 \<le> n"
  shows "\<exists>b. FastForward n a = Inr b \<and> anim_wf b \<and> same_strip a b"
proof -
  have "0 \<le> n div anSpeed a" using assms by (simp add: anim_wf_def pos_imp_zdiv_nonneg_iff)
  then show ?thesis using assms by (simp add: FastForward_eq) (auto simp: anim_wf_def same_strip_def)
qed

definition runs :: "nat \<Rightarrow> animation \<Rightarrow> animation" where
  "runs n = ((\<lambda>a. snd (Run a)) ^^ n)"

text \<open>Where \<open>n\<close> ticks from the start lead.\<close>

lemma runs_Initialize:
  assumes "anim_wf a"
  shows "anim_wf (runs n (Initialize a)) \<and> same_strip a (runs n (Initialize a)) \<and>
    anSpeedCnt (runs n (Initialize a)) = int n mod anSpeed a \<and>
    anCurrentFrame (runs n (Initialize a)) =
      (if anType a = EndStop then min (int n div anSpeed a) (anFrameCount a - 1)
       else int n div anSpeed a mod anFrameCount a)"
proof (induction n)
  case 0
  then show ?case using Initialize_wf [OF assms] assms by (auto simp: runs_def Initialize_def anim_wf_def)
next
  case (Suc n)
  define b where "b = runs n (Initialize a)"
  have s: "runs (Suc n) (Initialize a) = snd (Run b)" by (simp add: runs_def b_def)
  have b: "anim_wf b" "same_strip a b" "anSpeedCnt b = int n mod anSpeed a"
    "anCurrentFrame b = (if anType a = EndStop then min (int n div anSpeed a) (anFrameCount a - 1)
       else int n div anSpeed a mod anFrameCount a)"
    using Suc unfolding b_def by simp_all
  have sp: "0 < anSpeed a" using assms by (simp add: anim_wf_def)
  define q where "q = int n div anSpeed a"
  define r where "r = int n mod anSpeed a"
  have n: "int n = anSpeed a * q + r" "0 \<le> r" "r < anSpeed a" using sp by (simp_all add: q_def r_def)
  show ?case
  proof (cases "r + 1 = anSpeed a")
    case True
    have n1: "int (Suc n) = (q + 1) * anSpeed a" using n True by (simp add: algebra_simps)
    then have d: "int (Suc n) div anSpeed a = q + 1" "int (Suc n) mod anSpeed a = 0"
      using sp unfolding n1 by simp_all
    have m: "(q mod anFrameCount a + 1) mod anFrameCount a = (q + 1) mod anFrameCount a" by (simp add: mod_simps)
    show ?thesis unfolding s d
      using Run_wf [OF b(1)] b True m by (auto simp: Run_eq [OF b(1)] same_strip_def nextFrame_def q_def [symmetric] r_def [symmetric])
  next
    case False
    have n1: "int (Suc n) = anSpeed a * q + (r + 1)" using n by simp
    have "int (Suc n) div anSpeed a = q" "int (Suc n) mod anSpeed a = r + 1"
      unfolding n1 using n False sp by (simp_all add: div_pos_pos_trivial mod_pos_pos_trivial)
    then show ?thesis unfolding s
      using Run_wf [OF b(1)] b False by (auto simp: Run_eq [OF b(1)] same_strip_def q_def [symmetric] r_def [symmetric])
  qed
qed

subsection \<open>Fast forward\<close>

text \<open>
  C37. To jump \<open>n\<close> ticks ahead shows the very frame that \<open>n\<close> single ticks from the start would show, for
  strips that loop and for those that stop at their last frame. (Within the frame the count restarts, so the
  next frame can come up to a frame's length later.)
\<close>

theorem fast_forward_runs:
  assumes "anim_wf a"
  shows "\<exists>b. FastForward (int n) a = Inr b \<and> anCurrentFrame b = anCurrentFrame (runs n (Initialize a)) \<and>
    anSpeedCnt b = 0 \<and> anSpeedCnt (runs n (Initialize a)) = int n mod anSpeed a"
  using FastForward_eq [OF assms, of "int n"] runs_Initialize [OF assms, of n] by simp

lemma fast_forward_runs_witness:
  "anCurrentFrame (runs 30 (Initialize (SetAtlas 12 19 128 128 0 (newAnimation EndStop 2)))) = 11"
proof -
  define a where "a = SetAtlas 12 19 128 128 0 (newAnimation EndStop 2)"
  have w: "anim_wf a" by (simp add: a_def anim_wf_def SetAtlas_def newAnimation_def)
  have "FastForward 30 a = Inr (a\<lparr>anCurrentFrame := 11\<rparr>)" unfolding a_def by code_simp
  then show ?thesis using fast_forward_runs [OF w, of 30] by (auto simp: a_def)
qed

end
