(* ===== verification/ClientNet.thy ===== *)
theory ClientNet
  imports NetStream
begin

text \<open>
  The connection of the game client (\<open>ClientProject/Network/Network.cpp\<close>) and the older copy of the byte ring
  it receives into (\<open>ClientProject/utility/MyRingBuffer.cpp\<close>): the calls that find too little room or too few
  bytes only set a flag there, and the next call stops the process. The client's \<open>utility::Message\<close> is the one of
  theory \<open>Message\<close>, but for the time stamp, which is 0 here.
\<close>

subsection \<open>The ring of the client\<close>

definition ringBufferFull :: byte where "ringBufferFull = 2"
definition ringBufferEmpty :: byte where "ringBufferEmpty = 4"
definition ringArgmentSizeInvalid :: byte where "ringArgmentSizeInvalid = 8"

text \<open>What is copied to the destination, or \<open>None\<close> when it is left alone.\<close>

definition ringPeek :: "int \<Rightarrow> ring \<Rightarrow> (byte list option \<times> ring) res" where
  "ringPeek n q =
     bindR (RINGBUFFER_ASSERT q) (\<lambda>q.
     if n < 0 then Inr (None, setFail ringArgmentSizeInvalid q)
     else let f = rgFront q; r = rgRear q
          in if GetUseSize f r < n then Inr (None, setFail ringBufferEmpty q)
             else bindR (copyFront (rgBuffer q) f (GetDirectUseSize f r) n) (\<lambda>xs. Inr (Some xs, q)))"

definition ringMoveFront :: "int \<Rightarrow> ring \<Rightarrow> ring" where
  "ringMoveFront move q =
     (if rgFail q \<noteq> 0 then q
      else if move < 0 then setFail ringArgmentSizeInvalid q
      else let f = rgFront q + nat move
           in if RINGBUFFER_SIZE \<le> f then q\<lparr>rgFront := f - RINGBUFFER_SIZE\<rparr> else q\<lparr>rgFront := f\<rparr>)"

definition ringMoveRear :: "int \<Rightarrow> ring \<Rightarrow> ring res" where
  "ringMoveRear move q =
     bindR (RINGBUFFER_ASSERT q) (\<lambda>q.
       if move < 0 then Inr (setFail ringArgmentSizeInvalid q)
       else let r = rgRear q + nat move
            in if RINGBUFFER_SIZE \<le> r then Inr (q\<lparr>rgRear := r - RINGBUFFER_SIZE\<rparr>) else Inr (q\<lparr>rgRear := r\<rparr>))"

definition ringEnqueue :: "byte list \<Rightarrow> int \<Rightarrow> ring \<Rightarrow> ring res" where
  "ringEnqueue src n q =
     bindR (RINGBUFFER_ASSERT q) (\<lambda>q.
     if n < 0 then Inr (setFail ringArgmentSizeInvalid q)
     else let f = rgFront q; r = rgRear q
          in if GetFreeSize f r < n then Inr (setFail ringBufferFull q)
             else if int (length src) < n then Inl UndefinedBehaviour
             else let directFreeSize = GetDirectFreeSize f r
                  in bindR
                       (if n \<le> directFreeSize then copyIn (rgBuffer q) r (take (nat n) src)
                        else bindR (copyIn (rgBuffer q) r (take (nat directFreeSize) src)) (\<lambda>buf.
                             copyIn buf 0 (take (nat (n - directFreeSize)) (drop (nat directFreeSize) src))))
                       (\<lambda>buf. ringMoveRear n (q\<lparr>rgBuffer := buf\<rparr>)))"

definition ringDequeue :: "int \<Rightarrow> ring \<Rightarrow> (byte list \<times> ring) res" where
  "ringDequeue n q =
     bindR (RINGBUFFER_ASSERT q) (\<lambda>q.
     if n < 0 then Inr ([], setFail ringArgmentSizeInvalid q)
     else let f = rgFront q; r = rgRear q
          in if GetUseSize f r < n then Inr ([], setFail ringBufferEmpty q)
             else bindR (copyFront (rgBuffer q) f (GetDirectUseSize f r) n) (\<lambda>out. Inr (out, ringMoveFront n q)))"

text \<open>On a ring without a flag, where the calls fit, they do what those of the server's ring do.\<close>

lemma ring_same:
  fixes xs :: "byte list"
  assumes "ring_wf q"
  shows "0 \<le> n \<Longrightarrow> ringMoveFront n q = MoveFront n q"
    and "0 \<le> n \<Longrightarrow> ringMoveRear n q = MoveRear n q"
    and "0 \<le> n \<Longrightarrow> n \<le> GetFreeSize (rgFront q) (rgRear q) \<Longrightarrow> ringEnqueue xs n q = Enqueue xs n q"
    and "0 \<le> n \<Longrightarrow> n \<le> GetUseSize (rgFront q) (rgRear q) \<Longrightarrow> ringDequeue n q = Dequeue n q"
    and "0 \<le> n \<Longrightarrow> n \<le> GetUseSize (rgFront q) (rgRear q) \<Longrightarrow> ringPeek n q = MyRingBuffer.Peek n q"
proof -
  have nf: "rgFail q = 0" "RINGBUFFER_ASSERT q = Inr q" using assms by (simp_all add: ring_wf_def RINGBUFFER_ASSERT_def)
  show mf: "0 \<le> n \<Longrightarrow> ringMoveFront n q = MoveFront n q" by (simp add: ringMoveFront_def MoveFront_def)
  have mr: "0 \<le> n \<Longrightarrow> rgFail q' = 0 \<Longrightarrow> ringMoveRear n q' = MoveRear n q'" for q'
    by (simp add: ringMoveRear_def MoveRear_def RINGBUFFER_ASSERT_def)
  then show "0 \<le> n \<Longrightarrow> ringMoveRear n q = MoveRear n q" using nf by simp
  show "0 \<le> n \<Longrightarrow> n \<le> GetFreeSize (rgFront q) (rgRear q) \<Longrightarrow> ringEnqueue xs n q = Enqueue xs n q"
    using nf mr by (simp add: ringEnqueue_def Enqueue_def Let_def)
  show "0 \<le> n \<Longrightarrow> n \<le> GetUseSize (rgFront q) (rgRear q) \<Longrightarrow> ringDequeue n q = Dequeue n q"
    using nf mf by (simp add: ringDequeue_def Dequeue_def Let_def)
  show "0 \<le> n \<Longrightarrow> n \<le> GetUseSize (rgFront q) (rgRear q) \<Longrightarrow> ringPeek n q = MyRingBuffer.Peek n q"
    using nf by (simp add: ringPeek_def MyRingBuffer.Peek_def Let_def)
qed

interpretation client_q: byte_fifo ring_wf content capacity ringEnqueue ringDequeue
proof
  fix q :: ring and xs :: "byte list" assume "ring_wf q" "length (content q) + length xs \<le> capacity"
  then show "\<exists>q'. ringEnqueue xs (int (length xs)) q = Inr q' \<and> ring_wf q' \<and> content q' = content q @ xs"
    using Enqueue_content [of q xs] freeSize_content [of q] by (simp add: ring_same(3))
next
  fix q n assume "ring_wf q" "n \<le> length (content q)"
  then show "\<exists>q'. ringDequeue (int n) q = Inr (take n (content q), q') \<and> ring_wf q' \<and> content q' = drop n (content q)"
    using Dequeue_content [of q n] useSize_content [of q] by (simp add: ring_same(4))
qed

subsection \<open>State\<close>

text \<open>
  \<open>ntSendRes\<close>: what the coming calls of \<open>send\<close> answer, success when it is used up; \<open>ntSent\<close>: what has been sent.
  The ring of pointers \<open>mPacketQueue\<close> is the list of the messages they point to.
\<close>

record network =
  ntSocket :: bool
  ntRecvThread :: bool
  ntRecvBuffer :: ring
  ntPacketQueue :: "message list"
  ntSent :: "byte list list"
  ntSendRes :: "bool list"

definition newNetwork :: "bool list \<Rightarrow> network" where
  "newNetwork answers = \<lparr> ntSocket = False, ntRecvThread = False, ntRecvBuffer = ring_init, ntPacketQueue = [],
     ntSent = [], ntSendRes = answers \<rparr>"

definition PopPacket :: "network \<Rightarrow> message option \<times> network" where
  "PopPacket n = (case ntPacketQueue n of [] \<Rightarrow> (None, n) | msg # msgs \<Rightarrow> (Some msg, n\<lparr>ntPacketQueue := msgs\<rparr>))"

text \<open>The loop of \<open>Disconnect\<close> that deletes what is still queued.\<close>

function popAll :: "network \<Rightarrow> network" where
  "popAll n = (case PopPacket n of (None, n) \<Rightarrow> n | (Some msg, n) \<Rightarrow> popAll n)"
  by pat_completeness auto
termination
  by (relation "measure (\<lambda>n. length (ntPacketQueue n))") (auto simp: PopPacket_def split: list.splits)

declare popAll.simps [simp del]

definition Disconnect :: "network \<Rightarrow> network" where
  "Disconnect n =
     (if \<not> ntSocket n then n
      else let n = n\<lparr>ntSocket := False, ntRecvThread := False\<rparr>;
               n = popAll (n\<lparr>ntRecvBuffer := ClearBuffer (ntRecvBuffer n)\<rparr>)
           in n\<lparr>ntPacketQueue := []\<rparr>)"

text \<open>
  \<open>ok\<close>: \<open>socket\<close> and \<open>connect\<close> succeeded. To assign to a thread that can still be joined ends the process.
\<close>

definition Connect :: "bool \<Rightarrow> network \<Rightarrow> (bool \<times> network) res" where
  "Connect ok n =
     (if ntSocket n then Inr (False, n)
      else if \<not> ok then Inr (False, n)
      else if ntRecvThread n then Inl UncaughtException
      else Inr (True, n\<lparr>ntSocket := True, ntRecvThread := True\<rparr>))"

definition Send :: "message \<Rightarrow> network \<Rightarrow> bool \<times> network" where
  "Send msg n =
     (if \<not> ntSocket n then (False, n)
      else let ok = (case ntSendRes n of [] \<Rightarrow> True | r # rs \<Rightarrow> r); n = n\<lparr>ntSendRes := tl (ntSendRes n)\<rparr>
           in if ok then (True, n\<lparr>ntSent := ntSent n @ [take (nat (Message.GetUseSize msg)) (drop (mFront msg) (mBuf msg))]\<rparr>)
              else (False, Disconnect n))"

subsection \<open>Receiving\<close>

text \<open>
  One pass of the loop of \<open>Unmarshal\<close>; \<open>None\<close>: it ends. A negative length makes \<open>PutData\<close> ask for gigabytes,
  one above 6000 overruns \<open>tempBuf\<close>.
\<close>

definition unmarshalOne :: "network \<Rightarrow> network option res" where
  "unmarshalOne n =
     (let useSize = GetUseSize (rgFront (ntRecvBuffer n)) (rgRear (ntRecvBuffer n)) in
      if useSize < 3 then Inr None
      else bindR (ringPeek 3 (ntRecvBuffer n)) (\<lambda>(hb, q).
        case hb of None \<Rightarrow> Inl UndefinedBehaviour
        | Some hb \<Rightarrow>
            let len = hLen (headerOf hb) in
            if useSize < 3 + len then Inr None
            else if PTR_CAP \<le> length (ntPacketQueue n) then Inr None
            else if 6000 < len then Inl UndefinedBehaviour
            else bindR (ringDequeue len (ringMoveFront 3 q)) (\<lambda>(bs, q).
              if len < 0 then Inl NotEnoughSpace
              else if int (length bs) < len then Inl UndefinedBehaviour
              else bindR (PutData bs (InitMessage 0 0 0)) (\<lambda>msg.
                   Inr (Some (n\<lparr>ntRecvBuffer := q, ntPacketQueue := ntPacketQueue n @ [msg]\<rparr>))))))"

partial_function (option) Unmarshal :: "network \<Rightarrow> network res option" where
  "Unmarshal n =
     (case unmarshalOne n of
        Inl e \<Rightarrow> Some (Inl e)
      | Inr None \<Rightarrow> Some (Inr n)
      | Inr (Some n) \<Rightarrow> Unmarshal n)"

text \<open>
  One pass of \<open>recvThread\<close>: \<open>bs\<close> is what \<open>recv\<close> brings, at most as much as it is given room for, and nothing at
  the end of the stream or for an error. The flag says whether the thread goes on.
\<close>

definition recvOne :: "byte list \<Rightarrow> network \<Rightarrow> (bool \<times> network) res" where
  "recvOne bs n =
     (let q = ntRecvBuffer n; directFreeSize = GetDirectFreeSize (rgFront q) (rgRear q) in
      assertR (directFreeSize \<noteq> 0)
        (if bs = [] then Inr (False, n)
         else if directFreeSize < int (length bs) then Inl UndefinedBehaviour
         else bindR (copyIn (rgBuffer q) (rgRear q) bs) (\<lambda>buf.
              bindR (ringMoveRear (int (length bs)) (q\<lparr>rgBuffer := buf\<rparr>)) (\<lambda>q.
              case Unmarshal (n\<lparr>ntRecvBuffer := q\<rparr>) of
                None \<Rightarrow> Inl NoReturn
              | Some r \<Rightarrow> bindR r (\<lambda>n. Inr (True, n))))))"

subsection \<open>Writing a packet\<close>

text \<open>The pattern of every sender: the header, the type, the fields.\<close>

definition clientMsg :: "int \<Rightarrow> int \<Rightarrow> byte list list \<Rightarrow> message res" where
  "clientMsg type len flds =
     bindR (PutData (headerBytes \<lparr> hLen = wrap16 len, hRandKey = 0 \<rparr>) (InitMessage 0 0 0)) (putAll (enc 2 type # flds))"

definition clientSend :: "int \<Rightarrow> int \<Rightarrow> byte list list \<Rightarrow> network \<Rightarrow> network res" where
  "clientSend type len flds n =
     bindR (clientMsg type len flds) (\<lambda>msg. case Send msg n of (ok, n) \<Rightarrow> assertR ok (Inr n))"

end
