(* ===== verification/ClientActor.thy ===== *)
theory ClientActor
  imports Animation ClientNet
begin

text \<open>
  The figures of the game client (\<open>ClientProject/Actors\<close>): the base class \<open>Actor\<close> with its strips of pictures,
  the players of others (\<open>RemotePlayer\<close>), monsters, items, and the player itself, whom the keys move. The classes
  are one record with a tag; the fields that only some of them have come last. What is drawn, and how, is left out.
\<close>

subsection \<open>State\<close>

datatype eActorState = AIdle | AMove | AAttack | AStun | ADown | AGuard

datatype actorKind = RemotePlayerKind | MonsterKind | FieldItemKind | PlayerKind

record actor =
  acKind :: actorKind
  acCharacterID :: int
  acState :: eActorState
  acDirection :: eDirection
  acBMove :: bool
  acSpeed :: f32
  acStartX :: f32
  acStartY :: f32
  acMoveFrame :: int
  acX :: f32
  acY :: f32
  acScale :: f32
  acSpriteSet :: "eActorState \<times> eDirection \<Rightarrow> animation option"
  acSprite :: "(eActorState \<times> eDirection) option"
  acType :: int
  acHp :: int
  acMaxHp :: int
  acHitTimer :: int
  acAttackFrame :: int
  acBaseY :: f32
  acBobTick :: int

definition newActor :: "actorKind \<Rightarrow> int \<Rightarrow> actor" where
  "newActor kind characterID =
     \<lparr> acKind = kind, acCharacterID = characterID, acState = AIdle, acDirection = DirDown, acBMove = False,
       acSpeed = f_lit 2 1, acStartX = f_lit 0 1, acStartY = f_lit 0 1, acMoveFrame = 0, acX = f_lit 0 1, acY = f_lit 0 1,
       acScale = f_lit 1 1, acSpriteSet = (\<lambda>_. None), acSprite = None, acType = 0, acHp = 0, acMaxHp = 0,
       acHitTimer = 0, acAttackFrame = 0, acBaseY = f_lit 0 1, acBobTick = 0 \<rparr>"

subsection \<open>Strips\<close>

text \<open>\<open>mSpriteSet[state][direction]\<close>: out of range, or where there is no strip, the access is undefined.\<close>

definition sprite :: "eActorState \<Rightarrow> eDirection \<Rightarrow> actor \<Rightarrow> animation res" where
  "sprite state direction a =
     (if dir_ok direction
      then (case acSpriteSet a (state, direction) of None \<Rightarrow> Inl UndefinedBehaviour | Some an \<Rightarrow> Inr an)
      else Inl UndefinedBehaviour)"

definition putSprite :: "eActorState \<Rightarrow> eDirection \<Rightarrow> animation \<Rightarrow> actor \<Rightarrow> actor" where
  "putSprite state direction an a = a\<lparr>acSpriteSet := (acSpriteSet a)((state, direction) := Some an)\<rparr>"

definition appendAnimationSprite ::
    "eAnimationType \<Rightarrow> eDirection \<Rightarrow> eActorState \<Rightarrow> int \<Rightarrow> int \<Rightarrow> int \<Rightarrow> int \<Rightarrow> int \<Rightarrow> int \<Rightarrow> actor \<Rightarrow> actor" where
  "appendAnimationSprite type direction state frameCnt colMax frameX frameY startRow speed =
     putSprite state direction (SetAtlas frameCnt colMax frameX frameY startRow (newAnimation type speed))"

definition changeAnimation :: "eDirection \<Rightarrow> eActorState \<Rightarrow> int \<Rightarrow> actor \<Rightarrow> actor res" where
  "changeAnimation direction state fastForwardTicks a =
     (case acSprite a of
        None \<Rightarrow> Inl UndefinedBehaviour
      | Some (state0, direction0) \<Rightarrow>
          bindR (sprite state0 direction0 a) (\<lambda>an.
          let a = putSprite state0 direction0 (Initialize an) a in
          bindR (sprite state direction a) (\<lambda>an.
          bindR (if 0 < fastForwardTicks then FastForward fastForwardTicks an else Inr an) (\<lambda>an.
          assertR (0 \<le> anCurrentFrame an)
            (Inr ((putSprite state direction an a)\<lparr>acSprite := Some (state, direction)\<rparr>))))))"

text \<open>\<open>createConstantBuffer\<close> chooses the first strip, and reads it.\<close>

definition createConstantBuffer :: "actor \<Rightarrow> actor res" where
  "createConstantBuffer a =
     bindR (sprite (acState a) (acDirection a) a) (\<lambda>_. Inr (a\<lparr>acSprite := Some (acState a, acDirection a)\<rparr>))"

text \<open>The directions in the order of the pictures; a strip is a state, a type, a length and a speed.\<close>

definition spriteDirections :: "eDirection list" where
  "spriteDirections = [DirDown, DirDownLeft, DirLeft, DirUpLeft, DirUp, DirUpRight, DirRight, DirDownRight]"

definition loadStrips :: "int \<Rightarrow> (eActorState \<times> eAnimationType \<times> int \<times> int) list \<Rightarrow> actor \<Rightarrow> actor" where
  "loadStrips colMax strips a =
     snd (fold (\<lambda>dir. fold (\<lambda>(state, type, len, speed) (offset, a).
         (offset + len, appendAnimationSprite type dir state len colMax 128 128 offset speed a)) strips)
       spriteDirections (0, a))"

definition Foo :: "actor \<Rightarrow> actor" where
  "Foo = loadStrips 19 [(AAttack, EndStop, 12, 2), (ADown, EndStop, 10, 4), (AStun, EndStop, 2, 4),
     (AGuard, EndStop, 1, 4), (AIdle, eAnimationType.Loop, 12, 4), (AMove, eAnimationType.Loop, 9, 4)]"

definition loadTorokoSprite :: "actor \<Rightarrow> actor" where
  "loadTorokoSprite = loadStrips 19 [(AAttack, EndStop, 12, 4), (ADown, EndStop, 10, 4), (AStun, EndStop, 2, 4),
     (AGuard, EndStop, 1, 4), (AIdle, eAnimationType.Loop, 12, 4), (AMove, eAnimationType.Loop, 9, 4)]"

definition loadMonsterSprite :: "actor \<Rightarrow> actor" where
  "loadMonsterSprite = loadStrips 16 [(AAttack, EndStop, 8, 4), (ADown, EndStop, 8, 4), (AStun, EndStop, 2, 4),
     (AGuard, EndStop, 1, 4), (AIdle, eAnimationType.Loop, 6, 4), (AMove, eAnimationType.Loop, 9, 4)]"

subsection \<open>Moving\<close>

text \<open>The edges of the tile map: 64 times 50 tiles at scale 2, and 47 times 100.\<close>

definition tileMapW :: f32 where "tileMapW = f_of_int (64 * 50 * 2)"
definition tileMapH :: f32 where "tileMapH = f_of_int (47 * 100)"

definition actorMoveUpdate :: "actor \<Rightarrow> actor res" where
  "actorMoveUpdate a =
     (let a = a\<lparr>acMoveFrame := wrap64 (acMoveFrame a + 1)\<rparr> in
      bindR (dirVector (acDirection a)) (\<lambda>(dx, dy).
      Inr (a\<lparr>acX := f_clamp (f_add (acStartX a) (f_mul (f_mul dx (acSpeed a)) (f_of_int (acMoveFrame a)))) (f_lit 0 1) tileMapW,
             acY := f_clamp (f_add (acStartY a) (f_mul (f_mul dy (acSpeed a)) (f_of_int (acMoveFrame a)))) (f_lit 0 1) tileMapH,
             acState := AMove\<rparr>)))"

definition MoveStart :: "eDirection \<Rightarrow> f32 \<Rightarrow> f32 \<Rightarrow> f32 \<Rightarrow> actor \<Rightarrow> actor res" where
  "MoveStart direction x y speed a =
     assertR (\<not> acBMove a)
       (let a = a\<lparr>acState := AMove, acStartX := x, acStartY := y, acDirection := direction, acBMove := True,
                  acSpeed := speed, acMoveFrame := 0\<rparr>
        in changeAnimation (acDirection a) (acState a) 0 a)"

definition MoveStop :: "eDirection \<Rightarrow> f32 \<Rightarrow> f32 \<Rightarrow> actor \<Rightarrow> actor res" where
  "MoveStop direction x y a =
     (let a = a\<lparr>acState := AIdle, acStartX := x, acStartY := y, acX := x, acY := y, acDirection := direction,
                acBMove := False, acMoveFrame := 0\<rparr>
      in changeAnimation (acDirection a) (acState a) 0 a)"

definition Attack :: "int \<Rightarrow> actor \<Rightarrow> actor res" where
  "Attack fastForwardTicks a =
     (let a = a\<lparr>acState := AAttack\<rparr> in changeAnimation (acDirection a) AAttack fastForwardTicks a)"

subsection \<open>Other players\<close>

definition newRemotePlayer :: "int \<Rightarrow> f32 \<Rightarrow> f32 \<Rightarrow> int \<Rightarrow> eDirection \<Rightarrow> actor res" where
  "newRemotePlayer characterId x y characterType direction =
     (let a = (newActor RemotePlayerKind characterId)\<lparr>acType := characterType, acHp := PLAYER_MAX_HP, acHitTimer := 0,
                acX := x, acY := y, acScale := f_lit 15 10, acDirection := direction\<rparr>
      in bindR (createConstantBuffer (loadTorokoSprite a)) (\<lambda>a. changeAnimation (acDirection a) (acState a) 0 a))"

definition remoteActorUpdate :: "actor \<Rightarrow> actor res" where
  "remoteActorUpdate a =
     (if 0 < acHitTimer a
      then let a = a\<lparr>acHitTimer := acHitTimer a - 1\<rparr>
           in if acHitTimer a = 0
              then changeAnimation (acDirection a) (if acBMove a then AMove else AIdle) 0 a else Inr a
      else if acBMove a then actorMoveUpdate a else Inr a)"

definition remoteOnDamaged :: "int \<Rightarrow> f32 \<Rightarrow> f32 \<Rightarrow> eDirection \<Rightarrow> int \<Rightarrow> actor \<Rightarrow> actor res" where
  "remoteOnDamaged hp x y direction fastForwardTicks a =
     (let a = a\<lparr>acHp := hp, acX := x, acY := y, acStartX := x, acStartY := y, acMoveFrame := 0,
                acDirection := direction, acBMove := False\<rparr>
      in if acHp a \<le> 0
         then changeAnimation (acDirection a) ADown fastForwardTicks (a\<lparr>acHitTimer := 0\<rparr>)
         else changeAnimation (acDirection a) AStun fastForwardTicks
                (a\<lparr>acHitTimer := max 0 (wrap32 (PLAYER_HIT_STUN_FRAME - fastForwardTicks))\<rparr>))"

subsection \<open>Monsters\<close>

definition newMonsterActor :: "int \<Rightarrow> f32 \<Rightarrow> f32 \<Rightarrow> int \<Rightarrow> eDirection \<Rightarrow> int \<Rightarrow> int \<Rightarrow> actor res" where
  "newMonsterActor monsterId x y monsterType direction hp animFrame =
     (let a = (newActor MonsterKind monsterId)\<lparr>acType := monsterType, acHp := hp, acHitTimer := 0, acX := x, acY := y,
                acScale := f_lit 15 10, acSpeed := f_lit 3 1, acDirection := direction\<rparr>
      in bindR (createConstantBuffer (loadMonsterSprite a)) (\<lambda>a.
         changeAnimation (acDirection a) (if 0 < acHp a then AIdle else ADown) animFrame a))"

definition monsterActorUpdate :: "actor \<Rightarrow> actor res" where
  "monsterActorUpdate a =
     (if 0 < acHitTimer a
      then let a = a\<lparr>acHitTimer := acHitTimer a - 1\<rparr>
           in if acHitTimer a = 0
              then changeAnimation (acDirection a) (if acBMove a then AMove else AIdle) 0 a else Inr a
      else if acBMove a then actorMoveUpdate a else Inr a)"

definition monsterOnDamaged :: "int \<Rightarrow> f32 \<Rightarrow> f32 \<Rightarrow> eDirection \<Rightarrow> actor \<Rightarrow> actor res" where
  "monsterOnDamaged hp x y direction a =
     (let a = a\<lparr>acHp := hp, acX := x, acY := y, acStartX := x, acStartY := y, acMoveFrame := 0,
                acDirection := direction, acBMove := False\<rparr>
      in if acHp a \<le> 0 then changeAnimation (acDirection a) ADown 0 (a\<lparr>acHitTimer := 0\<rparr>)
         else changeAnimation (acDirection a) AStun 0 (a\<lparr>acHitTimer := MONSTER_HIT_STUN_FRAME\<rparr>))"

definition IsAlive :: "actor \<Rightarrow> bool" where "IsAlive a \<longleftrightarrow> 0 < acHp a"

subsection \<open>Items\<close>

text \<open>\<open>kItemSpriteTable\<close>: width and height of the picture; any other number reads beyond the table.\<close>

definition kItemSpriteTable :: "(int \<times> int) list" where "kItemSpriteTable = [(24, 20), (24, 31)]"

definition loadItemSprite :: "int \<Rightarrow> actor \<Rightarrow> actor res" where
  "loadItemSprite itemId a =
     (if 0 \<le> itemId \<and> itemId < int (length kItemSpriteTable)
      then (case kItemSpriteTable ! nat itemId of (width, height) \<Rightarrow>
            Inr (appendAnimationSprite eAnimationType.Loop DirDown AIdle 1 1 width height 0 4 a))
      else Inl UndefinedBehaviour)"

definition newFieldItemActor :: "int \<Rightarrow> f32 \<Rightarrow> f32 \<Rightarrow> int \<Rightarrow> actor res" where
  "newFieldItemActor itemUniqueId x y itemId =
     (let a = (newActor FieldItemKind itemUniqueId)\<lparr>acBaseY := y, acBobTick := 0, acX := x, acY := y, acScale := f_lit 1 1\<rparr>
      in bindR (loadItemSprite itemId a) (\<lambda>a.
         bindR (createConstantBuffer a) (\<lambda>a.
         changeAnimation (acDirection a) (acState a) 0 a)))"

text \<open>Items bob up and down; \<open>sinf\<close> of the C library is a parameter.\<close>

definition itemActorUpdate :: "(f32 \<Rightarrow> f32) \<Rightarrow> actor \<Rightarrow> actor" where
  "itemActorUpdate sinf a =
     (let a = a\<lparr>acBobTick := wrap32 (acBobTick a + 1)\<rparr>
      in a\<lparr>acY := f_add (acBaseY a) (f_mul (sinf (f_mul (f_of_int (acBobTick a)) (f_lit 5 100))) (f_lit 3 1))\<rparr>)"

subsection \<open>Update\<close>

text \<open>\<open>mSprite->Run()\<close>, then what the class does.\<close>

definition runSprite :: "actor \<Rightarrow> actor res" where
  "runSprite a =
     (case acSprite a of
        None \<Rightarrow> Inl UndefinedBehaviour
      | Some (state, direction) \<Rightarrow>
          bindR (sprite state direction a) (\<lambda>an. Inr (putSprite state direction (snd (Run an)) a)))"

definition actorUpdate :: "(f32 \<Rightarrow> f32) \<Rightarrow> actor \<Rightarrow> actor res" where
  "actorUpdate sinf a =
     bindR (runSprite a) (\<lambda>a.
     case acKind a of
       RemotePlayerKind \<Rightarrow> remoteActorUpdate a
     | MonsterKind \<Rightarrow> monsterActorUpdate a
     | _ \<Rightarrow> Inr (itemActorUpdate sinf a))"

subsection \<open>The player itself\<close>

text \<open>
  \<open>newPlayerActor\<close>. The keys: whether the window is in front, and which keys and buttons are down.
\<close>

definition newPlayerActor :: "int \<Rightarrow> f32 \<Rightarrow> f32 \<Rightarrow> actor res" where
  "newPlayerActor characterID x y =
     createConstantBuffer (Foo ((newActor PlayerKind characterID)\<lparr>acAttackFrame := 0, acHp := PLAYER_MAX_HP,
       acMaxHp := PLAYER_MAX_HP, acHitTimer := 0, acScale := f_lit 15 10, acX := x, acY := y, acStartX := x, acStartY := y,
       acSpeed := f_lit 45 10\<rparr>))"

record keys =
  kyForeground :: bool
  kyA :: bool
  kyD :: bool
  kyW :: bool
  kyS :: bool
  kyLButton :: bool
  kyF :: bool
  kyR :: bool

definition sendMoveStartPacket :: "actor \<Rightarrow> network \<Rightarrow> network res" where
  "sendMoveStartPacket a =
     clientSend MOVE_START (2 + 8 + 4 + 4 + 1 + 4)
       [enc 8 (acCharacterID a), encF (acX a), encF (acY a), enc 1 (acDirection a), encF (acSpeed a)]"

definition sendMoveStopPacket :: "actor \<Rightarrow> network \<Rightarrow> network res" where
  "sendMoveStopPacket a =
     clientSend MOVE_STOP (2 + 8 + 4 + 4 + 1)
       [enc 8 (acCharacterID a), encF (acX a), encF (acY a), enc 1 (acDirection a)]"

text \<open>The direction that the keys give, and whether they move the player at all.\<close>

definition inputDirection :: "keys \<Rightarrow> eDirection \<Rightarrow> bool \<times> eDirection" where
  "inputDirection ks d0 =
     (if \<not> kyForeground ks then (False, d0)
      else let (bMove, d) = (if kyA ks then (True, DirLeft) else if kyD ks then (True, DirRight) else (False, d0))
           in if kyW ks
              then (True, if d = DirRight then DirUpRight else if d = DirLeft then DirUpLeft else DirUp)
              else if kyS ks
              then (True, if d = DirRight then DirDownRight else if d = DirLeft then DirDownLeft else DirDown)
              else (bMove, d))"

definition inputFunction :: "keys \<Rightarrow> actor \<times> network \<Rightarrow> (actor \<times> network) res" where
  "inputFunction ks an =
     (case an of (a, n) \<Rightarrow>
      let beforeDir = acDirection a; beforeState = acState a;
          (bMove, dir) = inputDirection ks (acDirection a);
          a = a\<lparr>acDirection := dir, acState := (if bMove then AMove else AIdle)\<rparr>
      in bindR
           (if acState a \<noteq> beforeState
            then let a = a\<lparr>acMoveFrame := 0, acStartX := acX a, acStartY := acY a\<rparr>
                 in bindR (if acState a = AMove then sendMoveStartPacket a n else sendMoveStopPacket a n) (\<lambda>n.
                    bindR (changeAnimation (acDirection a) (acState a) 0 a) (\<lambda>a. Inr (a, n)))
            else if acDirection a \<noteq> beforeDir \<and> bMove
            then let a = a\<lparr>acMoveFrame := 0, acStartX := acX a, acStartY := acY a\<rparr>
                 in bindR (sendMoveStopPacket a n) (\<lambda>n.
                    bindR (sendMoveStartPacket a n) (\<lambda>n.
                    bindR (changeAnimation (acDirection a) (acState a) 0 a) (\<lambda>a. Inr (a, n))))
            else Inr (a, n))
           (\<lambda>(a, n).
            if bMove then bindR (actorMoveUpdate a) (\<lambda>a. Inr (a, n))
            else Inr (a\<lparr>acState := AIdle, acBMove := False, acMoveFrame := 0, acStartX := acX a, acStartY := acY a\<rparr>, n)))"

definition playerOnDamaged :: "int \<Rightarrow> f32 \<Rightarrow> f32 \<Rightarrow> eDirection \<Rightarrow> actor \<Rightarrow> actor res" where
  "playerOnDamaged hp x y direction a =
     (let a = a\<lparr>acHp := hp, acX := x, acY := y, acStartX := x, acStartY := y, acMoveFrame := 0,
                acDirection := direction, acBMove := False\<rparr>
      in if acHp a \<le> 0 then changeAnimation (acDirection a) ADown 0 (a\<lparr>acHitTimer := 0, acState := ADown\<rparr>)
         else changeAnimation (acDirection a) AStun 0 (a\<lparr>acHitTimer := PLAYER_HIT_STUN_FRAME, acState := AStun\<rparr>))"

definition TryAttack :: "actor \<times> network \<Rightarrow> (bool \<times> actor \<times> network) res" where
  "TryAttack an =
     (case an of (a, n) \<Rightarrow>
      if acHp a \<le> 0 \<or> 0 < acHitTimer a then Inr (False, a, n)
      else if acState a = AAttack then Inr (False, a, n)
      else bindR
             (if acBMove a
              then bindR (sendMoveStopPacket a n) (\<lambda>n.
                   Inr (a\<lparr>acBMove := False, acMoveFrame := 0, acStartX := acX a, acStartY := acY a\<rparr>, n))
              else Inr (a, n))
             (\<lambda>(a, n). bindR (Attack 0 (a\<lparr>acAttackFrame := 0\<rparr>)) (\<lambda>a. Inr (True, a, n))))"

definition playerActorUpdate :: "keys \<Rightarrow> actor \<times> network \<Rightarrow> (actor \<times> network) res" where
  "playerActorUpdate ks an =
     (case an of (a, n) \<Rightarrow>
      bindR (runSprite a) (\<lambda>a.
      case acState a of
        AIdle \<Rightarrow> inputFunction ks (a, n)
      | AMove \<Rightarrow> inputFunction ks (a, n)
      | AAttack \<Rightarrow>
          (let a = a\<lparr>acAttackFrame := wrap32 (acAttackFrame a + 1)\<rparr>
           in if PLAYER_ATTACK_TOTAL_FRAME = acAttackFrame a
              then let a = a\<lparr>acState := AIdle\<rparr>
                   in bindR (changeAnimation (acDirection a) (acState a) 0 a) (\<lambda>a. Inr (a, n))
              else Inr (a, n))
      | AStun \<Rightarrow>
          (let a = a\<lparr>acHitTimer := wrap32 (acHitTimer a - 1)\<rparr>
           in if acHitTimer a = 0
              then let a = a\<lparr>acState := AIdle\<rparr>
                   in bindR (changeAnimation (acDirection a) (acState a) 0 a) (\<lambda>a. Inr (a, n))
              else Inr (a, n))
      | _ \<Rightarrow> Inr (a, n)))"

end
