(* ===== verification/ClientScene.thy ===== *)
theory ClientScene
  imports ClientActor Combat
begin

text \<open>
  The scenes of the game client (\<open>ClientProject/Scene\<close>): the field, which shows what the server's packets say
  and turns keys into packets (\<open>FieldScene.cpp\<close>); the login (\<open>LoginScene.cpp\<close>); and the manager that hands the
  received packets to the current scene and changes scenes (\<open>SceneManager.cpp\<close>), once per frame (\<open>main.cpp\<close>).
  Nothing catches the exception of a packet that is too short. A table of figures (\<open>std::unordered_map\<close>)
  is a list in the order of insertion.
\<close>

subsection \<open>The field\<close>

text \<open>What is written to the console.\<close>

datatype consoleLine =
    LootSuccess int int
  | LootFailure
  | RankingTop int
  | RankingEntry int "byte list" int
  | NoRank
  | MyRank int int

record fieldScene =
  fsActors :: "(int \<times> actor) list"
  fsMonsterActors :: "(int \<times> actor) list"
  fsItemActors :: "(int \<times> actor) list"
  fsLocalPlayer :: actor
  fsCameraX :: f32
  fsCameraY :: f32
  fsHpRate :: f32
  fsAttackKeyDown :: bool
  fsLootKeyDown :: bool
  fsRankingKeyDown :: bool
  fsConsole :: "consoleLine list"

definition newFieldScene :: "actor \<Rightarrow> fieldScene" where
  "newFieldScene player =
     \<lparr> fsActors = [], fsMonsterActors = [], fsItemActors = [], fsLocalPlayer = player, fsCameraX = f_lit 640 1,
       fsCameraY = f_lit 360 1, fsHpRate = f_lit 1 1, fsAttackKeyDown = False, fsLootKeyDown = False,
       fsRankingKeyDown = False, fsConsole = [] \<rparr>"

definition printLine :: "consoleLine \<Rightarrow> fieldScene \<Rightarrow> fieldScene" where
  "printLine l s = s\<lparr>fsConsole := fsConsole s @ [l]\<rparr>"

text \<open>A reader of one record, and a batch of them: \<open>for (int16_t i = 0; i < cnt; ++i)\<close>.\<close>

type_synonym reader = "message \<times> fieldScene \<Rightarrow> (message \<times> fieldScene) res"

definition onBatch :: "reader \<Rightarrow> message \<Rightarrow> fieldScene \<Rightarrow> fieldScene res" where
  "onBatch f msg s =
     bindR (getS 2 msg) (\<lambda>(cnt, msg).
     bindR (foldR (\<lambda>_. f) [0..<nat cnt] (msg, s)) (\<lambda>(msg, s). Inr s))"

definition onSingle :: "reader \<Rightarrow> message \<Rightarrow> fieldScene \<Rightarrow> fieldScene res" where
  "onSingle f msg s = bindR (f (msg, s)) (\<lambda>(msg, s). Inr s)"

subsection \<open>Players come and go\<close>

definition remoteIn :: "int \<Rightarrow> f32 \<Rightarrow> f32 \<Rightarrow> int \<Rightarrow> eDirection \<Rightarrow> f32 \<Rightarrow> actor \<Rightarrow> actor res" where
  "remoteIn state x y animFrame direction speed a =
     (if state = playerStateByte PMove then MoveStart direction x y speed a
      else if state = playerStateByte PAttack then Attack animFrame a
      else if state = playerStateByte PDead then remoteOnDamaged 0 x y direction animFrame a
      else if state = playerStateByte PStun then remoteOnDamaged 1 x y direction animFrame a
      else Inr a)"

definition spawnOther :: reader where
  "spawnOther ms =
     (case ms of (msg, s) \<Rightarrow>
      bindR (getS 8 msg) (\<lambda>(characterId, msg).
      bindR (getF msg) (\<lambda>(x, msg).
      bindR (getF msg) (\<lambda>(y, msg).
      bindR (getS 1 msg) (\<lambda>(state, msg).
      bindR (getS 1 msg) (\<lambda>(direction, msg).
      bindR (getF msg) (\<lambda>(speed, msg).
      bindR (getS 4 msg) (\<lambda>(animFrame, msg).
      bindR (getS 1 msg) (\<lambda>(characterType, msg).
      bindR (GetData 20 msg) (\<lambda>(nickname, msg).
      assertR (map_of (fsActors s) characterId = None)
        (bindR (newRemotePlayer characterId x y characterType direction) (\<lambda>a.
         bindR (remoteIn state x y animFrame direction speed a) (\<lambda>a.
         Inr (msg, s\<lparr>fsActors := mapIns characterId a (fsActors s)\<rparr>))))))))))))))"

definition onOtherCharacterSpawn :: "message \<Rightarrow> fieldScene \<Rightarrow> fieldScene res" where
  "onOtherCharacterSpawn = onSingle spawnOther"

definition onOtherCharacterSpawnBatch :: "message \<Rightarrow> fieldScene \<Rightarrow> fieldScene res" where
  "onOtherCharacterSpawnBatch = onBatch spawnOther"

definition onCharacterDespawn :: "message \<Rightarrow> fieldScene \<Rightarrow> fieldScene res" where
  "onCharacterDespawn msg s =
     bindR (getS 8 msg) (\<lambda>(characterId, msg). Inr (s\<lparr>fsActors := alDel characterId (fsActors s)\<rparr>))"

text \<open>\<open>mActors.find(characterId)->second\<close> of a player that is not there is undefined.\<close>

definition onCharacterMoveStart :: "message \<Rightarrow> fieldScene \<Rightarrow> fieldScene res" where
  "onCharacterMoveStart msg s =
     bindR (getS 8 msg) (\<lambda>(characterId, msg).
     bindR (getF msg) (\<lambda>(x, msg).
     bindR (getF msg) (\<lambda>(y, msg).
     bindR (getS 1 msg) (\<lambda>(direction, msg).
     bindR (getF msg) (\<lambda>(speed, msg).
     case map_of (fsActors s) characterId of
       None \<Rightarrow> Inl UndefinedBehaviour
     | Some a \<Rightarrow> bindR (MoveStart direction x y speed a) (\<lambda>a. Inr (s\<lparr>fsActors := alUpd characterId a (fsActors s)\<rparr>)))))))"

definition onCharacterMoveStop :: "message \<Rightarrow> fieldScene \<Rightarrow> fieldScene res" where
  "onCharacterMoveStop msg s =
     bindR (getS 8 msg) (\<lambda>(characterId, msg).
     bindR (getF msg) (\<lambda>(x, msg).
     bindR (getF msg) (\<lambda>(y, msg).
     bindR (getS 1 msg) (\<lambda>(direction, msg).
     assertR (characterId \<noteq> acCharacterID (fsLocalPlayer s))
       (the_or_break (map_of (fsActors s) characterId) (\<lambda>a.
        bindR (MoveStop direction x y a) (\<lambda>a. Inr (s\<lparr>fsActors := alUpd characterId a (fsActors s)\<rparr>))))))))"

definition onOtherCharacterAttack :: "message \<Rightarrow> fieldScene \<Rightarrow> fieldScene res" where
  "onOtherCharacterAttack msg s =
     bindR (getS 8 msg) (\<lambda>(characterId, msg).
     the_or_break (map_of (fsActors s) characterId) (\<lambda>a.
     bindR (Attack 0 a) (\<lambda>a. Inr (s\<lparr>fsActors := alUpd characterId a (fsActors s)\<rparr>))))"

definition onCharacterDamaged :: "message \<Rightarrow> fieldScene \<Rightarrow> fieldScene res" where
  "onCharacterDamaged msg s =
     bindR (getS 8 msg) (\<lambda>(characterId, msg).
     bindR (getS 4 msg) (\<lambda>(hp, msg).
     bindR (getF msg) (\<lambda>(x, msg).
     bindR (getF msg) (\<lambda>(y, msg).
     bindR (getS 1 msg) (\<lambda>(direction, msg).
     bindR (getS 8 msg) (\<lambda>(monsterId, msg).
     if characterId = acCharacterID (fsLocalPlayer s)
     then bindR (playerOnDamaged hp x y direction (fsLocalPlayer s)) (\<lambda>a. Inr (s\<lparr>fsLocalPlayer := a\<rparr>))
     else case map_of (fsActors s) characterId of
            None \<Rightarrow> Inr s
          | Some a \<Rightarrow> bindR (remoteOnDamaged hp x y direction 0 a) (\<lambda>a.
                      Inr (s\<lparr>fsActors := alUpd characterId a (fsActors s)\<rparr>))))))))"

subsection \<open>Monsters\<close>

definition monsterIn :: "int \<Rightarrow> f32 \<Rightarrow> f32 \<Rightarrow> eDirection \<Rightarrow> int \<Rightarrow> int \<Rightarrow> actor \<Rightarrow> actor res" where
  "monsterIn state x y direction hp animFrame a =
     (if state = monsterStateByte MMove \<or> state = monsterStateByte MChase \<or> state = monsterStateByte MReturn
      then MoveStart direction x y (acSpeed a) a
      else if state = monsterStateByte MStun then monsterOnDamaged hp x y direction a
      else if state = monsterStateByte MAttack then Attack animFrame a
      else Inr a)"

definition spawnMonsterActor :: reader where
  "spawnMonsterActor ms =
     (case ms of (msg, s) \<Rightarrow>
      bindR (getS 8 msg) (\<lambda>(monsterId, msg).
      bindR (getF msg) (\<lambda>(x, msg).
      bindR (getF msg) (\<lambda>(y, msg).
      bindR (getS 1 msg) (\<lambda>(state, msg).
      bindR (getS 1 msg) (\<lambda>(direction, msg).
      bindR (getS 4 msg) (\<lambda>(hp, msg).
      bindR (getS 1 msg) (\<lambda>(monsterType, msg).
      bindR (getS 4 msg) (\<lambda>(animFrame, msg).
      assertR (map_of (fsMonsterActors s) monsterId = None)
        (bindR (newMonsterActor monsterId x y monsterType direction hp animFrame) (\<lambda>a.
         bindR (monsterIn state x y direction hp animFrame a) (\<lambda>a.
         Inr (msg, s\<lparr>fsMonsterActors := mapIns monsterId a (fsMonsterActors s)\<rparr>)))))))))))))"

definition onMonsterSpawn :: "message \<Rightarrow> fieldScene \<Rightarrow> fieldScene res" where
  "onMonsterSpawn = onSingle spawnMonsterActor"

definition onMonsterSpawnBatch :: "message \<Rightarrow> fieldScene \<Rightarrow> fieldScene res" where
  "onMonsterSpawnBatch = onBatch spawnMonsterActor"

definition onMonsterDespawn :: "message \<Rightarrow> fieldScene \<Rightarrow> fieldScene res" where
  "onMonsterDespawn msg s =
     bindR (getS 8 msg) (\<lambda>(monsterId, msg). Inr (s\<lparr>fsMonsterActors := alDel monsterId (fsMonsterActors s)\<rparr>))"

definition onMonsterMoveStart :: "message \<Rightarrow> fieldScene \<Rightarrow> fieldScene res" where
  "onMonsterMoveStart msg s =
     bindR (getS 8 msg) (\<lambda>(monsterId, msg).
     bindR (getF msg) (\<lambda>(x, msg).
     bindR (getF msg) (\<lambda>(y, msg).
     bindR (getS 1 msg) (\<lambda>(direction, msg).
     bindR (getF msg) (\<lambda>(speed, msg).
     the_or_break (map_of (fsMonsterActors s) monsterId) (\<lambda>a.
     bindR (MoveStart direction x y speed a) (\<lambda>a.
     Inr (s\<lparr>fsMonsterActors := alUpd monsterId a (fsMonsterActors s)\<rparr>))))))))"

definition onMonsterMoveStop :: "message \<Rightarrow> fieldScene \<Rightarrow> fieldScene res" where
  "onMonsterMoveStop msg s =
     bindR (getS 8 msg) (\<lambda>(monsterId, msg).
     bindR (getF msg) (\<lambda>(x, msg).
     bindR (getF msg) (\<lambda>(y, msg).
     bindR (getS 1 msg) (\<lambda>(direction, msg).
     the_or_break (map_of (fsMonsterActors s) monsterId) (\<lambda>a.
     bindR (MoveStop direction x y a) (\<lambda>a.
     Inr (s\<lparr>fsMonsterActors := alUpd monsterId a (fsMonsterActors s)\<rparr>)))))))"

definition onMonsterDamaged :: "message \<Rightarrow> fieldScene \<Rightarrow> fieldScene res" where
  "onMonsterDamaged msg s =
     bindR (getS 8 msg) (\<lambda>(monsterId, msg).
     bindR (getS 4 msg) (\<lambda>(hp, msg).
     bindR (getF msg) (\<lambda>(x, msg).
     bindR (getF msg) (\<lambda>(y, msg).
     bindR (getS 1 msg) (\<lambda>(direction, msg).
     the_or_break (map_of (fsMonsterActors s) monsterId) (\<lambda>a.
     bindR (monsterOnDamaged hp x y direction a) (\<lambda>a.
     Inr (s\<lparr>fsMonsterActors := alUpd monsterId a (fsMonsterActors s)\<rparr>))))))))"

definition onMonsterAttack :: "message \<Rightarrow> fieldScene \<Rightarrow> fieldScene res" where
  "onMonsterAttack msg s =
     bindR (getS 8 msg) (\<lambda>(monsterId, msg).
     the_or_break (map_of (fsMonsterActors s) monsterId) (\<lambda>a.
     bindR (Attack 0 a) (\<lambda>a. Inr (s\<lparr>fsMonsterActors := alUpd monsterId a (fsMonsterActors s)\<rparr>))))"

subsection \<open>Items and answers\<close>

definition spawnItem :: reader where
  "spawnItem ms =
     (case ms of (msg, s) \<Rightarrow>
      bindR (getS 8 msg) (\<lambda>(itemUniqueId, msg).
      bindR (getS 1 msg) (\<lambda>(itemId, msg).
      bindR (getF msg) (\<lambda>(x, msg).
      bindR (getF msg) (\<lambda>(y, msg).
      assertR (map_of (fsItemActors s) itemUniqueId = None)
        (bindR (newFieldItemActor itemUniqueId x y itemId) (\<lambda>a.
         Inr (msg, s\<lparr>fsItemActors := mapIns itemUniqueId a (fsItemActors s)\<rparr>))))))))"

definition onItemSpawn :: "message \<Rightarrow> fieldScene \<Rightarrow> fieldScene res" where
  "onItemSpawn = onSingle spawnItem"

definition onItemSpawnBatch :: "message \<Rightarrow> fieldScene \<Rightarrow> fieldScene res" where
  "onItemSpawnBatch = onBatch spawnItem"

definition onItemDespawn :: "message \<Rightarrow> fieldScene \<Rightarrow> fieldScene res" where
  "onItemDespawn msg s =
     bindR (getS 8 msg) (\<lambda>(itemUniqueId, msg). Inr (s\<lparr>fsItemActors := alDel itemUniqueId (fsItemActors s)\<rparr>))"

definition onLootRes :: "message \<Rightarrow> fieldScene \<Rightarrow> fieldScene res" where
  "onLootRes msg s =
     bindR (getS 1 msg) (\<lambda>(result, msg).
     bindR (getS 1 msg) (\<lambda>(itemId, msg).
     bindR (getS 4 msg) (\<lambda>(cnt, msg).
     Inr (printLine (if result = 0 then LootSuccess itemId cnt else LootFailure) s))))"

definition onRankingRes :: "message \<Rightarrow> fieldScene \<Rightarrow> fieldScene res" where
  "onRankingRes msg s =
     bindR (getS 2 msg) (\<lambda>(topCnt, msg).
     bindR (foldR (\<lambda>i (msg, s).
         bindR (GetData 20 msg) (\<lambda>(nickname, msg).
         bindR (getS 8 msg) (\<lambda>(killCount, msg).
         Inr (msg, printLine (RankingEntry (int i + 1) nickname killCount) s))))
       [0..<nat topCnt] (msg, printLine (RankingTop topCnt) s)) (\<lambda>(msg, s).
     bindR (getS 8 msg) (\<lambda>(myRank, msg).
     bindR (getS 8 msg) (\<lambda>(myKillCount, msg).
     Inr (printLine (if myRank = - 1 then NoRank else MyRank myRank myKillCount) s)))))"

subsection \<open>The dispatcher of the field\<close>

definition fieldScenePacketProc :: "message \<Rightarrow> fieldScene \<Rightarrow> fieldScene res" where
  "fieldScenePacketProc msg s =
     bindR (getS 2 msg) (\<lambda>(type, msg).
     if type = OTHER_CHARACTER_SPAWN then onOtherCharacterSpawn msg s
     else if type = OTHER_CHARACTER_SPAWN_BATCH then onOtherCharacterSpawnBatch msg s
     else if type = CHARACTER_DESPAWN then onCharacterDespawn msg s
     else if type = MOVE_START then onCharacterMoveStart msg s
     else if type = MOVE_STOP then onCharacterMoveStop msg s
     else if type = OTHER_CHARACTER_ATTACK then onOtherCharacterAttack msg s
     else if type = MONSTER_SPAWN then onMonsterSpawn msg s
     else if type = MONSTER_SPAWN_BATCH then onMonsterSpawnBatch msg s
     else if type = MONSTER_DESPAWN then onMonsterDespawn msg s
     else if type = MONSTER_MOVE_START then onMonsterMoveStart msg s
     else if type = MONSTER_MOVE_STOP then onMonsterMoveStop msg s
     else if type = MONSTER_DAMAGED then onMonsterDamaged msg s
     else if type = MONSTER_ATTACK then onMonsterAttack msg s
     else if type = CHARACTER_DAMAGED then onCharacterDamaged msg s
     else if type = ITEM_SPAWN then onItemSpawn msg s
     else if type = ITEM_SPAWN_BATCH then onItemSpawnBatch msg s
     else if type = ITEM_DESPAWN then onItemDespawn msg s
     else if type = LOOT_RES then onLootRes msg s
     else if type = RANKING_RES then onRankingRes msg s
     else Inl DebugBreak)"

subsection \<open>Keys\<close>

text \<open>The loop for the targets of an attack: the first ones alive and in reach, as many as the skill takes.\<close>

fun candidates :: "f32 \<Rightarrow> f32 \<Rightarrow> f32 \<Rightarrow> int \<Rightarrow> (int \<times> actor) list \<Rightarrow> int list \<Rightarrow> int list" where
  "candidates x y rangeLen maxTargetCnt [] cs = cs"
| "candidates x y rangeLen maxTargetCnt ((k, m) # ms) cs =
     (if \<not> IsAlive m then candidates x y rangeLen maxTargetCnt ms cs
      else if isInAttackRange x y (acX m) (acY m) rangeLen
      then let cs = cs @ [acCharacterID m]
           in if maxTargetCnt \<le> wrap16 (int (length cs)) then cs else candidates x y rangeLen maxTargetCnt ms cs
      else candidates x y rangeLen maxTargetCnt ms cs)"

definition updateAttackInput :: "keys \<Rightarrow> fieldScene \<times> network \<Rightarrow> (fieldScene \<times> network) res" where
  "updateAttackInput ks sn =
     (case sn of (s, n) \<Rightarrow>
      let keyDown = kyForeground ks \<and> kyLButton ks in
      bindR
        (if keyDown \<and> \<not> fsAttackKeyDown s
         then bindR (TryAttack (fsLocalPlayer s, n)) (\<lambda>(ok, a, n).
              let s = s\<lparr>fsLocalPlayer := a\<rparr> in
              if ok
              then (case getSkillConfig 0 of
                      None \<Rightarrow> Inr (s, n)
                    | Some (rangeLen, maxTargetCnt) \<Rightarrow>
                        let cs = candidates (acX a) (acY a) rangeLen maxTargetCnt (fsMonsterActors s) []
                        in bindR (clientSend PLAYER_ATTACK_REQ (2 + 1 + 2 + 8 * int (length cs))
                             ([enc 1 0, enc 2 (wrap16 (int (length cs)))] @ map (enc 8) cs) n) (\<lambda>n. Inr (s, n)))
              else Inr (s, n))
         else Inr (s, n))
        (\<lambda>(s, n). Inr (s\<lparr>fsAttackKeyDown := keyDown\<rparr>, n)))"

text \<open>The loop for the nearest item in reach; of several at the same distance the last.\<close>

definition nearestItem :: "actor \<Rightarrow> (int \<times> actor) list \<Rightarrow> int option \<times> f32" where
  "nearestItem player items =
     fold (\<lambda>(k, it) (found, nearestDist).
         let dist = pos_dist (Position (acX it) (acY it)) (Position (acX player) (acY player))
         in if f_le dist nearestDist then (Some k, dist) else (found, nearestDist))
       items (None, LOOT_RANGE)"

definition updateLootInput :: "keys \<Rightarrow> fieldScene \<times> network \<Rightarrow> (fieldScene \<times> network) res" where
  "updateLootInput ks sn =
     (case sn of (s, n) \<Rightarrow>
      let keyDown = kyForeground ks \<and> kyF ks in
      bindR
        (if keyDown \<and> \<not> fsLootKeyDown s
         then (case fst (nearestItem (fsLocalPlayer s) (fsItemActors s)) of
                 None \<Rightarrow> Inr n
               | Some k \<Rightarrow> clientSend LOOT_REQ (2 + 8) [enc 8 k] n)
         else Inr n)
        (\<lambda>n. Inr (s\<lparr>fsLootKeyDown := keyDown\<rparr>, n)))"

definition updateRankingInput :: "keys \<Rightarrow> fieldScene \<times> network \<Rightarrow> (fieldScene \<times> network) res" where
  "updateRankingInput ks sn =
     (case sn of (s, n) \<Rightarrow>
      let keyDown = kyForeground ks \<and> kyR ks in
      bindR (if keyDown \<and> \<not> fsRankingKeyDown s then clientSend RANKING_REQ 2 [] n else Inr n)
        (\<lambda>n. Inr (s\<lparr>fsRankingKeyDown := keyDown\<rparr>, n)))"

subsection \<open>A frame of the field\<close>

definition updateActors :: "(f32 \<Rightarrow> f32) \<Rightarrow> (int \<times> actor) list \<Rightarrow> (int \<times> actor) list res" where
  "updateActors sinf = (\<lambda>as. foldR (\<lambda>(k, a) acc. bindR (actorUpdate sinf a) (\<lambda>a. Inr (acc @ [(k, a)]))) as [])"

text \<open>\<open>Camera::Update\<close> follows the player; \<open>HPBar::Update\<close> reads its health.\<close>

definition cameraUpdate :: "fieldScene \<Rightarrow> fieldScene" where
  "cameraUpdate s = s\<lparr>fsCameraX := acX (fsLocalPlayer s), fsCameraY := acY (fsLocalPlayer s)\<rparr>"

definition hpBarUpdate :: "fieldScene \<Rightarrow> fieldScene" where
  "hpBarUpdate s =
     (let currentHp = f_of_int (acHp (fsLocalPlayer s)); maxHp = f_of_int (acMaxHp (fsLocalPlayer s))
      in if f_le maxHp (f_lit 0 1) then s else s\<lparr>fsHpRate := f_div currentHp maxHp\<rparr>)"

definition fieldSceneUpdate :: "(f32 \<Rightarrow> f32) \<Rightarrow> keys \<Rightarrow> fieldScene \<times> network \<Rightarrow> (fieldScene \<times> network) res" where
  "fieldSceneUpdate sinf ks sn =
     (case sn of (s, n) \<Rightarrow>
      bindR (updateActors sinf (fsActors s)) (\<lambda>as.
      bindR (updateActors sinf (fsMonsterActors s)) (\<lambda>ms.
      bindR (updateActors sinf (fsItemActors s)) (\<lambda>is.
      bindR (playerActorUpdate ks (fsLocalPlayer s, n)) (\<lambda>(a, n).
      let s = s\<lparr>fsActors := as, fsMonsterActors := ms, fsItemActors := is, fsLocalPlayer := a\<rparr> in
      bindR (updateAttackInput ks (s, n)) (\<lambda>sn.
      bindR (updateLootInput ks sn) (\<lambda>sn.
      bindR (updateRankingInput ks sn) (\<lambda>(s, n).
      Inr (hpBarUpdate (cameraUpdate s), n)))))))))"

text \<open>What \<open>render\<close> draws after the map, in order: from the back to the front, the items last.\<close>

definition drawnBefore :: "actor \<Rightarrow> actor \<Rightarrow> bool" where
  "drawnBefore a b = (if \<not> f_eq (acY a) (acY b) then f_lt (acY a) (acY b) else acCharacterID a < acCharacterID b)"

definition renderList :: "fieldScene \<Rightarrow> actor list" where
  "renderList s =
     sortBy drawnBefore (map snd (fsActors s) @ map snd (fsMonsterActors s) @ [fsLocalPlayer s]) @ map snd (fsItemActors s)"

subsection \<open>The login\<close>

text \<open>\<open>lsNext\<close> is \<open>mNextScene\<close>; the arrays \<open>mID\<close> and \<open>mPW\<close> have 20 and 64 bytes.\<close>

record loginScene =
  lsNext :: "fieldScene option"
  lsSendFlag :: bool
  lsID :: "byte list"
  lsPW :: "byte list"

text \<open>\<open>std::cin >> std::setw(n) >> array\<close>: at most \<open>n - 1\<close> bytes of the word, and the terminator.\<close>

definition readWord :: "nat \<Rightarrow> byte list \<Rightarrow> byte list" where
  "readWord n word = take (n - 1) word @ replicate (n - length (take (n - 1) word)) 0"

definition newLoginScene :: "byte list \<Rightarrow> byte list \<Rightarrow> loginScene" where
  "newLoginScene ident pw = \<lparr> lsNext = None, lsSendFlag = False, lsID = readWord 20 ident, lsPW = readWord 64 pw \<rparr>"

definition sendFieldEnterReq :: "loginScene \<times> network \<Rightarrow> (loginScene \<times> network) res" where
  "sendFieldEnterReq ln =
     (case ln of (l, n) \<Rightarrow>
      bindR (PutData (headerBytes \<lparr> hLen = 2 + 20 + 64, hRandKey = 0 \<rparr>) (InitMessage 0 0 0)) (\<lambda>msg.
      bindR (putVal (enc 2 FIELD_AUTH_REQ) msg) (\<lambda>msg.
      bindR (PutData (lsID l) msg) (\<lambda>msg.
      bindR (PutData (lsPW l) msg) (\<lambda>msg.
      case Send msg n of (ok, n) \<Rightarrow> Inr (if ok then l\<lparr>lsSendFlag := True\<rparr> else l, n))))))"

definition loginSceneUpdate :: "bool \<Rightarrow> loginScene \<times> network \<Rightarrow> (loginScene \<times> network) res" where
  "loginSceneUpdate connects ln =
     (case ln of (l, n) \<Rightarrow>
      bindR (Connect connects n) (\<lambda>(connected, n).
      if connected \<and> \<not> lsSendFlag l then sendFieldEnterReq (l, n) else Inr (l, n)))"

definition onAuthFailRes :: "message \<Rightarrow> loginScene \<times> network \<Rightarrow> (loginScene \<times> network) res" where
  "onAuthFailRes msg ln =
     (case ln of (l, n) \<Rightarrow> bindR (getS 1 msg) (\<lambda>(result, msg). Inr (l\<lparr>lsSendFlag := False\<rparr>, Disconnect n)))"

definition onAuthRes :: "message \<Rightarrow> loginScene \<times> network \<Rightarrow> (loginScene \<times> network) res" where
  "onAuthRes msg ln =
     (case ln of (l, n) \<Rightarrow>
      bindR (getS 8 msg) (\<lambda>(characterID, msg).
      bindR (getF msg) (\<lambda>(posX, msg).
      bindR (getF msg) (\<lambda>(posY, msg).
      bindR (newPlayerActor characterID posX posY) (\<lambda>player.
      Inr (l\<lparr>lsNext := Some (newFieldScene player)\<rparr>, n))))))"

text \<open>Both answers end the handing out of packets; anything else stops the client.\<close>

definition loginScenePacketProc :: "message \<Rightarrow> loginScene \<times> network \<Rightarrow> (loginScene \<times> network) res" where
  "loginScenePacketProc msg ln =
     bindR (getS 2 msg) (\<lambda>(type, msg).
     if type = FIELD_AUTH_FAIL then onAuthFailRes msg ln
     else if type = FIELD_AUTH_RES then onAuthRes msg ln
     else Inl DebugBreak)"

subsection \<open>The manager of the scenes\<close>

datatype scene = InLogin loginScene | InField fieldScene

type_synonym game = "scene \<times> network"

text \<open>The flag is what \<open>packetProc\<close> returns.\<close>

definition scenePacketProc :: "message \<Rightarrow> game \<Rightarrow> (bool \<times> game) res" where
  "scenePacketProc msg g =
     (case g of
        (InLogin l, n) \<Rightarrow> bindR (loginScenePacketProc msg (l, n)) (\<lambda>(l, n). Inr (False, InLogin l, n))
      | (InField s, n) \<Rightarrow> bindR (fieldScenePacketProc msg s) (\<lambda>s. Inr (True, InField s, n)))"

partial_function (option) handOut :: "game \<Rightarrow> game res option" where
  "handOut g =
     (case PopPacket (snd g) of
        (None, n) \<Rightarrow> Some (Inr (fst g, n))
      | (Some msg, n) \<Rightarrow>
          (case scenePacketProc msg (fst g, n) of
             Inl e \<Rightarrow> Some (Inl e)
           | Inr (go, g) \<Rightarrow> if go then handOut g else Some (Inr g)))"

definition sceneUpdate :: "(f32 \<Rightarrow> f32) \<Rightarrow> bool \<Rightarrow> keys \<Rightarrow> game \<Rightarrow> game res" where
  "sceneUpdate sinf connects ks g =
     (case g of
        (InLogin l, n) \<Rightarrow> bindR (loginSceneUpdate connects (l, n)) (\<lambda>(l, n). Inr (InLogin l, n))
      | (InField s, n) \<Rightarrow> bindR (fieldSceneUpdate sinf ks (s, n)) (\<lambda>(s, n). Inr (InField s, n)))"

definition getNextSceneOrNull :: "scene \<Rightarrow> scene option" where
  "getNextSceneOrNull sc = (case sc of InLogin l \<Rightarrow> map_option InField (lsNext l) | InField s \<Rightarrow> None)"

definition managerUpdate :: "(f32 \<Rightarrow> f32) \<Rightarrow> bool \<Rightarrow> keys \<Rightarrow> game \<Rightarrow> game res" where
  "managerUpdate sinf connects ks g =
     bindR (case handOut g of None \<Rightarrow> Inl NoReturn | Some r \<Rightarrow> r) (\<lambda>g.
     bindR (sceneUpdate sinf connects ks g) (\<lambda>(sc, n).
     Inr (case getNextSceneOrNull sc of None \<Rightarrow> sc | Some sc \<Rightarrow> sc, n)))"

text \<open>
  A pass of the main loop at \<open>startTime\<close> (\<open>DWORD\<close>s): as many updates as frames of 20 ms are due, with the keys
  that each of them finds.
\<close>

definition dueFrames :: "int \<Rightarrow> int \<Rightarrow> int" where
  "dueFrames startTime nextTime =
     (if nextTime \<le> startTime then wrap32 (u32 (startTime - nextTime) div 20 + 1) else 0)"

definition mainPass :: "(f32 \<Rightarrow> f32) \<Rightarrow> int \<Rightarrow> (nat \<Rightarrow> bool \<times> keys) \<Rightarrow> int \<times> game \<Rightarrow> (int \<times> game) res" where
  "mainPass sinf startTime inputs tg =
     (case tg of (nextTime, g) \<Rightarrow>
      foldR (\<lambda>i (t, g). bindR (managerUpdate sinf (fst (inputs i)) (snd (inputs i)) g) (\<lambda>g. Inr (u32 (t + 20), g)))
        [0..<nat (dueFrames startTime nextTime)] (nextTime, g))"

end
