(* ===== verification/ClientInv.thy ===== *)
theory ClientInv
  imports ClientScene HandlersInv
begin

text \<open>
  The invariant of the client's figures: every strip that an access can reach is there and well-formed. With it
  the operations on figures succeed, and what they do is a plain update of fields.
\<close>

subsection \<open>Strips\<close>

definition strips_ok :: "(eActorState \<times> eDirection \<Rightarrow> animation option) \<Rightarrow> bool" where
  "strips_ok f \<longleftrightarrow> (\<forall>st d. dir_ok d \<longrightarrow> (\<exists>an. f (st, d) = Some an \<and> anim_wf an))"

definition figure_ok :: "actor \<Rightarrow> bool" where
  "figure_ok a \<longleftrightarrow> strips_ok (acSpriteSet a) \<and> dir_ok (acDirection a) \<and>
     (\<exists>st d. acSprite a = Some (st, d) \<and> dir_ok d)"

text \<open>What a figure is apart from its strips.\<close>

definition pose :: "actor \<Rightarrow> actor" where
  "pose a = a\<lparr>acSpriteSet := (\<lambda>_. None), acSprite := None\<rparr>"

lemma pose_eqD:
  assumes "pose b = pose a"
  shows "acKind b = acKind a" "acCharacterID b = acCharacterID a" "acState b = acState a" "acDirection b = acDirection a"
    "acBMove b = acBMove a" "acSpeed b = acSpeed a" "acStartX b = acStartX a" "acStartY b = acStartY a"
    "acMoveFrame b = acMoveFrame a" "acX b = acX a" "acY b = acY a" "acScale b = acScale a" "acType b = acType a"
    "acHp b = acHp a" "acMaxHp b = acMaxHp a" "acHitTimer b = acHitTimer a" "acAttackFrame b = acAttackFrame a"
    "acBaseY b = acBaseY a" "acBobTick b = acBobTick a"
  using assms by (cases a; cases b; simp add: pose_def)+

lemma pose_update [simp]:
  "pose (putSprite st d an a) = pose a" "pose (a\<lparr>acSprite := x\<rparr>) = pose a" "pose (pose a) = pose a"
  by (simp_all add: pose_def putSprite_def)

lemma strips_put: "strips_ok f \<Longrightarrow> anim_wf an \<Longrightarrow> strips_ok (f((st, d) := Some an))"
  by (simp add: strips_ok_def)

lemma sprite_ok:
  assumes "strips_ok (acSpriteSet a)" "dir_ok d"
  obtains an where "sprite st d a = Inr an" "anim_wf an"
proof -
  obtain an where "acSpriteSet a (st, d) = Some an" "anim_wf an" using assms by (force simp: strips_ok_def)
  then show ?thesis using assms(2) by (intro that) (simp_all add: sprite_def)
qed

lemma changeAnimation_ok:
  assumes "strips_ok (acSpriteSet a)" "acSprite a = Some (st0, d0)" "dir_ok d0" "dir_ok d"
  shows "\<exists>b. changeAnimation d st n a = Inr b \<and> pose b = pose a \<and> strips_ok (acSpriteSet b) \<and> acSprite b = Some (st, d)"
proof -
  obtain an where an: "sprite st0 d0 a = Inr an" "anim_wf an" by (rule sprite_ok [OF assms(1,3)])
  define a1 where "a1 = putSprite st0 d0 (Initialize an) a"
  have a1: "strips_ok (acSpriteSet a1)"
    using assms(1) an(2) Initialize_wf by (simp add: a1_def putSprite_def strips_put)
  obtain an1 where an1: "sprite st d a1 = Inr an1" "anim_wf an1" by (rule sprite_ok [OF a1 assms(4)])
  obtain an2 where an2: "(if 0 < n then FastForward n an1 else Inr an1) = Inr an2" "anim_wf an2"
    using an1(2) FastForward_wf [OF an1(2), of n] by (cases "0 < n") auto
  have "changeAnimation d st n a = Inr ((putSprite st d an2 a1)\<lparr>acSprite := Some (st, d)\<rparr>)"
    using an2(2) by (simp add: changeAnimation_def assms(2) an(1) a1_def [symmetric] an1(1) an2(1) Let_def) (simp add: anim_wf_def)
  moreover have "pose ((putSprite st d an2 a1)\<lparr>acSprite := Some (st, d)\<rparr>) = pose a" by (simp add: a1_def)
  ultimately show ?thesis using a1 an2(2) by (simp add: putSprite_def strips_put)
qed

lemma changeAnimation_bad: "\<not> dir_ok d \<Longrightarrow> changeAnimation d st n a = Inr b \<Longrightarrow> False"
  by (auto simp: changeAnimation_def sprite_def Inr_iffs Let_def split: option.splits)

text \<open>The pictures of a class of figures.\<close>

lemma loadStrips_fold:
  fixes colMax :: int
  assumes "\<forall>(st, ty, len, sp) \<in> set strips. 0 < len \<and> len < 2 ^ 31 \<and> 0 < sp \<and> sp < 2 ^ 31"
  defines "f \<equiv> \<lambda>dir (st, ty, len, sp) (offset, a).
    (offset + len, appendAnimationSprite ty dir st len colMax 128 128 offset sp a)"
  shows "pose (snd (fold (\<lambda>dir. fold (f dir) strips) dirs oa)) = pose (snd oa) \<and>
    acSprite (snd (fold (\<lambda>dir. fold (f dir) strips) dirs oa)) = acSprite (snd oa) \<and>
    (\<forall>st d. (d \<in> set dirs \<and> st \<in> fst ` set strips \<longrightarrow>
        (\<exists>an. acSpriteSet (snd (fold (\<lambda>dir. fold (f dir) strips) dirs oa)) (st, d) = Some an \<and> anim_wf an)) \<and>
      ((\<exists>an. acSpriteSet (snd oa) (st, d) = Some an \<and> anim_wf an) \<longrightarrow>
        (\<exists>an. acSpriteSet (snd (fold (\<lambda>dir. fold (f dir) strips) dirs oa)) (st, d) = Some an \<and> anim_wf an)))"
proof -
  define G where "G oa st d \<longleftrightarrow> (\<exists>an. acSpriteSet (snd oa) (st, d) = Some an \<and> anim_wf an)" for oa :: "int \<times> actor" and st d
  have one: "pose (snd (f dir x oa)) = pose (snd oa) \<and> acSprite (snd (f dir x oa)) = acSprite (snd oa) \<and>
      G (f dir x oa) (fst x) dir \<and> (\<forall>st d. G oa st d \<longrightarrow> G (f dir x oa) st d)"
    if "x \<in> set strips" for dir x oa
    using assms(1) that by (cases x; cases oa)
      (auto simp: f_def G_def appendAnimationSprite_def putSprite_def pose_def anim_wf_def SetAtlas_def newAnimation_def)
  have row: "pose (snd (fold (f dir) xs oa)) = pose (snd oa) \<and> acSprite (snd (fold (f dir) xs oa)) = acSprite (snd oa) \<and>
      (\<forall>st. st \<in> fst ` set xs \<longrightarrow> G (fold (f dir) xs oa) st dir) \<and> (\<forall>st d. G oa st d \<longrightarrow> G (fold (f dir) xs oa) st d)"
    if "set xs \<subseteq> set strips" for dir xs oa
    using that
  proof (induction xs arbitrary: oa)
    case (Cons x xs)
    then show ?case using one [of x dir oa] by auto
  qed simp
  have "pose (snd (fold (\<lambda>dir. fold (f dir) strips) dirs oa)) = pose (snd oa) \<and>
      acSprite (snd (fold (\<lambda>dir. fold (f dir) strips) dirs oa)) = acSprite (snd oa) \<and>
      (\<forall>st d. (d \<in> set dirs \<and> st \<in> fst ` set strips \<longrightarrow> G (fold (\<lambda>dir. fold (f dir) strips) dirs oa) st d) \<and>
        (G oa st d \<longrightarrow> G (fold (\<lambda>dir. fold (f dir) strips) dirs oa) st d))"
  proof (induction dirs arbitrary: oa)
    case (Cons dir dirs)
    define ob where "ob = fold (f dir) strips oa"
    have u: "fold (\<lambda>dir. fold (f dir) strips) (dir # dirs) oa = fold (\<lambda>dir. fold (f dir) strips) dirs ob"
      by (simp add: ob_def)
    show ?case unfolding u using Cons.IH [of ob] row [of strips dir oa, folded ob_def]
      by (simp only: list.set insert_iff subset_refl) blast
  qed simp
  then show ?thesis by (simp add: G_def)
qed

lemma set_spriteDirections: "d \<in> set spriteDirections \<longleftrightarrow> dir_ok d"
  by (auto simp: spriteDirections_def dir_ok_def)

lemma loadStrips_ok:
  assumes "\<forall>(st, ty, len, sp) \<in> set strips. 0 < len \<and> len < 2 ^ 31 \<and> 0 < sp \<and> sp < 2 ^ 31"
    "\<forall>st. st \<in> fst ` set strips"
  shows "pose (loadStrips colMax strips a) = pose a \<and> acSprite (loadStrips colMax strips a) = acSprite a \<and>
    strips_ok (acSpriteSet (loadStrips colMax strips a))"
  using loadStrips_fold [OF assms(1), where dirs = spriteDirections and colMax = colMax and oa = "(0, a)"] assms(2)
  by (auto simp: loadStrips_def strips_ok_def set_spriteDirections case_prod_unfold)

lemma all_statesI:
  "AIdle \<in> X \<Longrightarrow> AMove \<in> X \<Longrightarrow> AAttack \<in> X \<Longrightarrow> AStun \<in> X \<Longrightarrow> ADown \<in> X \<Longrightarrow> AGuard \<in> X \<Longrightarrow> \<forall>st. st \<in> X"
  by (metis eActorState.exhaust)

lemma load_ok:
  "pose (Foo a) = pose a \<and> acSprite (Foo a) = acSprite a \<and> strips_ok (acSpriteSet (Foo a))"
  "pose (loadTorokoSprite a) = pose a \<and> acSprite (loadTorokoSprite a) = acSprite a \<and> strips_ok (acSpriteSet (loadTorokoSprite a))"
  "pose (loadMonsterSprite a) = pose a \<and> acSprite (loadMonsterSprite a) = acSprite a \<and> strips_ok (acSpriteSet (loadMonsterSprite a))"
  unfolding Foo_def loadTorokoSprite_def loadMonsterSprite_def by (rule loadStrips_ok, simp, rule all_statesI; simp)+

lemma createConstantBuffer_ok:
  assumes "strips_ok (acSpriteSet a)" "dir_ok (acDirection a)"
  shows "\<exists>b. createConstantBuffer a = Inr b \<and> pose b = pose a \<and> figure_ok b"
  using assms by (rule_tac sprite_ok [OF assms, of "acState a"]) (simp add: createConstantBuffer_def figure_ok_def)

subsection \<open>What the operations on figures do\<close>

text \<open>An operation on a figure that ends in a change of strips.\<close>

lemma figure_change:
  assumes "figure_ok a" "acSpriteSet a' = acSpriteSet a" "acSprite a' = acSprite a" "acDirection a' = d" "dir_ok d"
  shows "\<exists>b. changeAnimation d st n a' = Inr b \<and> pose b = pose a' \<and> figure_ok b"
proof -
  obtain st0 d0 where s: "acSprite a' = Some (st0, d0)" "dir_ok d0" using assms by (auto simp: figure_ok_def)
  have "strips_ok (acSpriteSet a')" using assms by (simp add: figure_ok_def)
  from changeAnimation_ok [OF this s assms(5), of st n] obtain b where
    b: "changeAnimation d st n a' = Inr b" "pose b = pose a'" "strips_ok (acSpriteSet b)" "acSprite b = Some (st, d)" by blast
  have "acDirection b = d" using pose_eqD(4) [OF b(2)] assms(4) by simp
  then show ?thesis using b assms(5) by (auto simp: figure_ok_def)
qed

definition moving :: "eDirection \<Rightarrow> f32 \<Rightarrow> f32 \<Rightarrow> f32 \<Rightarrow> actor \<Rightarrow> actor" where
  "moving d x y speed a = a\<lparr>acState := AMove, acStartX := x, acStartY := y, acDirection := d, acBMove := True,
     acSpeed := speed, acMoveFrame := 0\<rparr>"

definition standing :: "eDirection \<Rightarrow> f32 \<Rightarrow> f32 \<Rightarrow> actor \<Rightarrow> actor" where
  "standing d x y a = a\<lparr>acState := AIdle, acStartX := x, acStartY := y, acX := x, acY := y, acDirection := d,
     acBMove := False, acMoveFrame := 0\<rparr>"

definition hurt :: "int \<Rightarrow> f32 \<Rightarrow> f32 \<Rightarrow> eDirection \<Rightarrow> int \<Rightarrow> actor \<Rightarrow> actor" where
  "hurt hp x y d timer a = a\<lparr>acHp := hp, acX := x, acY := y, acStartX := x, acStartY := y, acMoveFrame := 0,
     acDirection := d, acBMove := False, acHitTimer := timer\<rparr>"

lemma MoveStart_ok:
  assumes "figure_ok a" "\<not> acBMove a" "dir_ok d"
  shows "\<exists>b. MoveStart d x y speed a = Inr b \<and> pose b = pose (moving d x y speed a) \<and> figure_ok b"
proof -
  have m: "MoveStart d x y speed a = changeAnimation d AMove 0 (moving d x y speed a)"
    using assms(2) by (simp add: MoveStart_def moving_def Let_def)
  show ?thesis unfolding m by (rule figure_change [OF assms(1) _ _ _ assms(3)]) (simp_all add: moving_def)
qed

lemma MoveStart_moving: "acBMove a \<Longrightarrow> MoveStart d x y speed a = Inl DebugBreak"
  by (simp add: MoveStart_def)

lemma MoveStop_ok:
  assumes "figure_ok a" "dir_ok d"
  shows "\<exists>b. MoveStop d x y a = Inr b \<and> pose b = pose (standing d x y a) \<and> figure_ok b"
proof -
  have m: "MoveStop d x y a = changeAnimation d AIdle 0 (standing d x y a)"
    by (simp add: MoveStop_def standing_def Let_def)
  show ?thesis unfolding m by (rule figure_change [OF assms(1) _ _ _ assms(2)]) (simp_all add: standing_def)
qed

lemma Attack_ok:
  assumes "figure_ok a"
  shows "\<exists>b. Attack n a = Inr b \<and> pose b = pose (a\<lparr>acState := AAttack\<rparr>) \<and> figure_ok b"
  unfolding Attack_def Let_def using assms by (intro figure_change [OF assms]) (simp_all add: figure_ok_def)

lemma remoteOnDamaged_ok:
  assumes "figure_ok a" "dir_ok d"
  shows "\<exists>b. remoteOnDamaged hp x y d n a = Inr b \<and> figure_ok b \<and>
    pose b = pose (hurt hp x y d (if hp \<le> 0 then 0 else max 0 (wrap32 (PLAYER_HIT_STUN_FRAME - n))) a)"
proof -
  have m: "remoteOnDamaged hp x y d n a = changeAnimation d (if hp \<le> 0 then ADown else AStun) n
      (hurt hp x y d (if hp \<le> 0 then 0 else max 0 (wrap32 (PLAYER_HIT_STUN_FRAME - n))) a)"
    by (simp add: remoteOnDamaged_def hurt_def Let_def)
  have "\<exists>b. remoteOnDamaged hp x y d n a = Inr b \<and> pose b = pose (hurt hp x y d
      (if hp \<le> 0 then 0 else max 0 (wrap32 (PLAYER_HIT_STUN_FRAME - n))) a) \<and> figure_ok b"
    unfolding m by (rule figure_change [OF assms(1) _ _ _ assms(2)]) (simp_all add: hurt_def)
  then show ?thesis by blast
qed

lemma monsterOnDamaged_ok:
  assumes "figure_ok a" "dir_ok d"
  shows "\<exists>b. monsterOnDamaged hp x y d a = Inr b \<and> figure_ok b \<and>
    pose b = pose (hurt hp x y d (if hp \<le> 0 then 0 else MONSTER_HIT_STUN_FRAME) a)"
proof -
  have m: "monsterOnDamaged hp x y d a = changeAnimation d (if hp \<le> 0 then ADown else AStun) 0
      (hurt hp x y d (if hp \<le> 0 then 0 else MONSTER_HIT_STUN_FRAME) a)"
    by (simp add: monsterOnDamaged_def hurt_def Let_def)
  have "\<exists>b. monsterOnDamaged hp x y d a = Inr b \<and>
      pose b = pose (hurt hp x y d (if hp \<le> 0 then 0 else MONSTER_HIT_STUN_FRAME) a) \<and> figure_ok b"
    unfolding m by (rule figure_change [OF assms(1) _ _ _ assms(2)]) (simp_all add: hurt_def)
  then show ?thesis by blast
qed

lemma playerOnDamaged_ok:
  assumes "figure_ok a" "dir_ok d"
  shows "\<exists>b. playerOnDamaged hp x y d a = Inr b \<and> figure_ok b \<and>
    pose b = pose ((hurt hp x y d (if hp \<le> 0 then 0 else PLAYER_HIT_STUN_FRAME) a)\<lparr>acState := (if hp \<le> 0 then ADown else AStun)\<rparr>)"
proof -
  have m: "playerOnDamaged hp x y d a = changeAnimation d (if hp \<le> 0 then ADown else AStun) 0
      ((hurt hp x y d (if hp \<le> 0 then 0 else PLAYER_HIT_STUN_FRAME) a)\<lparr>acState := (if hp \<le> 0 then ADown else AStun)\<rparr>)"
    by (simp add: playerOnDamaged_def hurt_def Let_def)
  have "\<exists>b. playerOnDamaged hp x y d a = Inr b \<and> pose b = pose ((hurt hp x y d
      (if hp \<le> 0 then 0 else PLAYER_HIT_STUN_FRAME) a)\<lparr>acState := (if hp \<le> 0 then ADown else AStun)\<rparr>) \<and> figure_ok b"
    unfolding m by (rule figure_change [OF assms(1) _ _ _ assms(2)]) (simp_all add: hurt_def)
  then show ?thesis by blast
qed

subsection \<open>Figures as they are made\<close>

definition remoteBase :: "int \<Rightarrow> f32 \<Rightarrow> f32 \<Rightarrow> int \<Rightarrow> eDirection \<Rightarrow> actor" where
  "remoteBase k x y t d = (newActor RemotePlayerKind k)\<lparr>acType := t, acHp := PLAYER_MAX_HP, acX := x, acY := y,
     acScale := f_lit 15 10, acDirection := d\<rparr>"

definition monsterBase :: "int \<Rightarrow> f32 \<Rightarrow> f32 \<Rightarrow> int \<Rightarrow> eDirection \<Rightarrow> int \<Rightarrow> actor" where
  "monsterBase k x y t d hp = (newActor MonsterKind k)\<lparr>acType := t, acHp := hp, acX := x, acY := y,
     acScale := f_lit 15 10, acSpeed := f_lit 3 1, acDirection := d\<rparr>"

definition itemBase :: "int \<Rightarrow> f32 \<Rightarrow> f32 \<Rightarrow> actor" where
  "itemBase k x y = (newActor FieldItemKind k)\<lparr>acBaseY := y, acX := x, acY := y, acScale := f_lit 1 1\<rparr>"

definition playerBase :: "int \<Rightarrow> f32 \<Rightarrow> f32 \<Rightarrow> actor" where
  "playerBase k x y = (newActor PlayerKind k)\<lparr>acHp := PLAYER_MAX_HP, acMaxHp := PLAYER_MAX_HP, acScale := f_lit 15 10,
     acX := x, acY := y, acStartX := x, acStartY := y, acSpeed := f_lit 45 10\<rparr>"

lemma figure_start:
  assumes "strips_ok (acSpriteSet a)" "dir_ok (acDirection a)"
  shows "\<exists>b. bindR (createConstantBuffer a) (\<lambda>a. changeAnimation (acDirection a) (f a) n a) = Inr b \<and> pose b = pose a \<and> figure_ok b"
proof -
  obtain c where c: "createConstantBuffer a = Inr c" "pose c = pose a" "figure_ok c"
    using createConstantBuffer_ok [OF assms] by blast
  have "dir_ok (acDirection c)" using c(3) by (simp add: figure_ok_def)
  from figure_change [OF c(3) refl refl refl this, of "f c" n] c show ?thesis by auto
qed

lemma newRemotePlayer_ok:
  assumes "dir_ok d"
  shows "\<exists>a. newRemotePlayer k x y t d = Inr a \<and> pose a = pose (remoteBase k x y t d) \<and> figure_ok a"
proof -
  have b: "newRemotePlayer k x y t d = bindR (createConstantBuffer (loadTorokoSprite (remoteBase k x y t d)))
      (\<lambda>a. changeAnimation (acDirection a) (acState a) 0 a)"
    by (simp add: newRemotePlayer_def remoteBase_def newActor_def)
  note l = load_ok(2) [of "remoteBase k x y t d"]
  have "dir_ok (acDirection (loadTorokoSprite (remoteBase k x y t d)))"
    using pose_eqD(4) [OF l [THEN conjunct1]] assms by (simp add: remoteBase_def)
  from figure_start [OF _ this, of acState 0] l b show ?thesis by auto
qed

lemma newMonsterActor_ok:
  assumes "dir_ok d"
  shows "\<exists>a. newMonsterActor k x y t d hp n = Inr a \<and> pose a = pose (monsterBase k x y t d hp) \<and> figure_ok a"
proof -
  have b: "newMonsterActor k x y t d hp n = bindR (createConstantBuffer (loadMonsterSprite (monsterBase k x y t d hp)))
      (\<lambda>a. changeAnimation (acDirection a) (if 0 < acHp a then AIdle else ADown) n a)"
    by (simp add: newMonsterActor_def monsterBase_def newActor_def)
  note l = load_ok(3) [of "monsterBase k x y t d hp"]
  have "dir_ok (acDirection (loadMonsterSprite (monsterBase k x y t d hp)))"
    using pose_eqD(4) [OF l [THEN conjunct1]] assms by (simp add: monsterBase_def)
  from figure_start [OF _ this, of "\<lambda>a. if 0 < acHp a then AIdle else ADown" n] l b show ?thesis by auto
qed

lemma newPlayerActor_ok: "\<exists>a. newPlayerActor k x y = Inr a \<and> pose a = pose (playerBase k x y) \<and> figure_ok a"
proof -
  note l = load_ok(1) [of "playerBase k x y"]
  have "dir_ok (acDirection (Foo (playerBase k x y)))"
    using pose_eqD(4) [OF l [THEN conjunct1]] by (simp add: playerBase_def newActor_def dir_ok_def)
  from createConstantBuffer_ok [OF _ this] l show ?thesis
    by (auto simp: newPlayerActor_def playerBase_def newActor_def)
qed

text \<open>An item has the one strip that it ever uses.\<close>

definition item_ok :: "actor \<Rightarrow> bool" where
  "item_ok a \<longleftrightarrow> acSprite a = Some (AIdle, DirDown) \<and>
     (\<exists>an. acSpriteSet a (AIdle, DirDown) = Some an \<and> anim_wf an) \<and> acKind a = FieldItemKind"

lemma newFieldItemActor_ok:
  assumes "itemId = 0 \<or> itemId = 1"
  shows "\<exists>a. newFieldItemActor k x y itemId = Inr a \<and> pose a = pose (itemBase k x y) \<and> item_ok a"
proof -
  obtain wd ht where t: "kItemSpriteTable ! nat itemId = (wd, ht)" by (meson surj_pair)
  have r: "0 \<le> itemId" "itemId < int (length kItemSpriteTable)" using assms by (auto simp: kItemSpriteTable_def)
  show ?thesis
    by (simp add: newFieldItemActor_def loadItemSprite_def t r appendAnimationSprite_def putSprite_def newActor_def
        createConstantBuffer_def sprite_def changeAnimation_def dir_ok_def Let_def itemBase_def pose_def item_ok_def
        anim_wf_def SetAtlas_def newAnimation_def Initialize_def)
qed

subsection \<open>A tick of a figure\<close>

definition stepped :: "actor \<Rightarrow> f32 \<times> f32 \<Rightarrow> actor" where
  "stepped a v = (let p = moveTo (Position (acStartX a) (acStartY a)) v (acSpeed a) (wrap64 (acMoveFrame a + 1))
     in a\<lparr>acMoveFrame := wrap64 (acMoveFrame a + 1), acX := posX p, acY := posY p, acState := AMove\<rparr>)"

text \<open>The client's edges of the map are the server's.\<close>

lemma tileMap_eq: "tileMapW = MAP_W" "tileMapH = MAP_H"
  by (simp_all add: tileMapW_def tileMapH_def MAP_W_def MAP_H_def SECTOR_WORLD_W_def SECTOR_WORLD_H_def
      SECTOR_COL_CNT_def SECTOR_ROW_CNT_def)

lemma actorMoveUpdate_eq:
  "actorMoveUpdate a = bindR (dirVector (acDirection a)) (\<lambda>v. Inr (stepped a v))"
  by (cases "dirVector (acDirection a)")
    (auto simp: actorMoveUpdate_def stepped_def moveTo_def tileMap_eq Let_def)

lemma runSprite_ok:
  assumes "figure_ok a"
  shows "\<exists>b. runSprite a = Inr b \<and> pose b = pose a \<and> figure_ok b"
proof -
  obtain st d where s: "acSprite a = Some (st, d)" "dir_ok d" and g: "strips_ok (acSpriteSet a)" "dir_ok (acDirection a)"
    using assms by (auto simp: figure_ok_def)
  obtain an where an: "sprite st d a = Inr an" "anim_wf an" by (rule sprite_ok [OF g(1) s(2)])
  have "figure_ok (putSprite st d (snd (Run an)) a)"
    using s g Run_wf [OF an(2)] by (simp add: figure_ok_def putSprite_def strips_put)
  then show ?thesis by (simp add: runSprite_def s(1) an(1))
qed

definition tickHit :: "actor \<Rightarrow> actor res" where
  "tickHit a =
     (if 0 < acHitTimer a then Inr (a\<lparr>acHitTimer := acHitTimer a - 1\<rparr>)
      else if acBMove a then bindR (dirVector (acDirection a)) (\<lambda>v. Inr (stepped a v)) else Inr a)"

lemma figure_ok_pose: "strips_ok (acSpriteSet b) \<Longrightarrow> acSprite b = Some (st, d) \<Longrightarrow> dir_ok d \<Longrightarrow> dir_ok (acDirection b) \<Longrightarrow> figure_ok b"
  by (simp add: figure_ok_def)

lemma stepped_keeps [simp]:
  "acSpriteSet (stepped a v) = acSpriteSet a" "acSprite (stepped a v) = acSprite a" "acDirection (stepped a v) = acDirection a"
  "acBMove (stepped a v) = acBMove a" "acCharacterID (stepped a v) = acCharacterID a" "acKind (stepped a v) = acKind a"
  "acHp (stepped a v) = acHp a" "acHitTimer (stepped a v) = acHitTimer a" "acSpeed (stepped a v) = acSpeed a"
  "acMaxHp (stepped a v) = acMaxHp a" "acState (stepped a v) = AMove" "figure_ok (stepped a v) = figure_ok a"
  by (simp_all add: stepped_def Let_def figure_ok_def)

lemma monster_like_remote: "monsterActorUpdate a = remoteActorUpdate a"
  by (simp add: monsterActorUpdate_def remoteActorUpdate_def)

lemma remoteActorUpdate_ok:
  assumes "figure_ok a"
  shows "\<exists>b c. remoteActorUpdate a = Inr b \<and> tickHit a = Inr c \<and> pose b = pose c \<and> figure_ok b"
proof -
  have d: "dir_ok (acDirection a)" using assms by (simp add: figure_ok_def)
  consider (hit) "0 < acHitTimer a" | (move) "\<not> 0 < acHitTimer a" "acBMove a" | (rest) "\<not> 0 < acHitTimer a" "\<not> acBMove a" by blast
  then show ?thesis
  proof cases
    case hit
    define c where "c = a\<lparr>acHitTimer := acHitTimer a - 1\<rparr>"
    have c: "figure_ok c" using assms by (simp add: c_def figure_ok_def)
    obtain b where "changeAnimation (acDirection c) (if acBMove c then AMove else AIdle) 0 c = Inr b" "pose b = pose c" "figure_ok b"
      using figure_change [OF c refl refl refl, of "if acBMove c then AMove else AIdle" 0] c by (auto simp: figure_ok_def)
    then show ?thesis using hit c by (auto simp: remoteActorUpdate_def tickHit_def c_def [symmetric] Let_def)
  next
    case move
    obtain v where "dirVector (acDirection a) = Inr v" using dirVector_ok [OF d] by auto
    then show ?thesis using move assms by (simp add: remoteActorUpdate_def tickHit_def actorMoveUpdate_eq)
  next
    case rest
    then show ?thesis using assms by (simp add: remoteActorUpdate_def tickHit_def)
  qed
qed

lemma item_ok_update: "item_ok (itemActorUpdate sinf a) = item_ok a"
  by (simp add: itemActorUpdate_def item_ok_def Let_def)

lemma runSprite_item:
  assumes "item_ok a"
  shows "\<exists>b. runSprite a = Inr b \<and> item_ok b \<and> pose b = pose a"
proof -
  obtain an where an: "acSpriteSet a (AIdle, DirDown) = Some an" "anim_wf an" using assms by (auto simp: item_ok_def)
  then show ?thesis using assms Run_wf [OF an(2)]
    by (simp add: runSprite_def item_ok_def sprite_def dir_ok_def putSprite_def pose_def)
qed

end
