(* ===== verification/ClientRead.thy ===== *)
theory ClientRead
  imports ClientInv Samples
begin

text \<open>
  What the client's readers make of the records the server writes about players, monsters and items: a figure
  that shows what the server knows. The contract of a reader is the locale \<open>record_reader\<close>; the lemma about
  batches is proved once in it.
\<close>

subsection \<open>Fields\<close>

lemma getS_enc:
  assumes "readable m" "unread m = enc n v @ rest"
  shows "getS n m = Inr (decS (enc n v), adv n m)"
  using assms by (simp add: getS_eq)

lemma getF_enc:
  assumes "readable m" "unread m = encF x @ rest"
  shows "getF m = Inr (x, adv 4 m)"
  using assms by (simp add: getF_eq)

lemma GetData_eq:
  assumes "readable m" "unread m = bs @ rest" "length bs = n"
  shows "GetData n m = Inr (bs, adv n m)"
proof -
  have "length (unread m) = n + length rest" using assms(2,3) by simp
  then have "mFront m + n \<le> length (mBuf m)" using assms(1) by (simp add: unread_def readable_def)
  then show ?thesis using assms(2,3) by (simp add: GetData_def unread_def adv_def mRear_def)
qed

lemma dec8: "- 128 \<le> v \<Longrightarrow> v < 128 \<Longrightarrow> decS (enc 1 v) = v"
  by (rule decS_enc) simp_all

lemma dec32: "- (2 ^ 31) \<le> v \<Longrightarrow> v < 2 ^ 31 \<Longrightarrow> decS (enc 4 v) = v"
  by (rule decS_enc) simp_all

definition int64 :: "int \<Rightarrow> bool" where "int64 v \<longleftrightarrow> - (2 ^ 63) \<le> v \<and> v < 2 ^ 63"

lemma dec64: "int64 v \<Longrightarrow> decS (enc 8 v) = v"
  by (rule decS_enc) (simp_all add: int64_def)

lemma dec_direction: "dir_ok d \<Longrightarrow> decS (enc 1 d) = d"
  by (rule dec8) (simp_all add: dir_ok_def)

lemma dec_playerState: "decS (enc 1 (playerStateByte st)) = playerStateByte st"
  by (cases st) (simp_all add: dec8 del: enc.simps One_nat_def)

lemma dec_monsterState: "decS (enc 1 (monsterStateByte st)) = monsterStateByte st"
  by (cases st) (simp_all add: dec8 del: enc.simps One_nat_def)

lemma dec_item: "decS (enc 1 (itemByte i)) = itemByte i"
  by (cases i) (simp_all add: dec8 del: enc.simps One_nat_def)

lemmas dec_states = dec_playerState dec_monsterState dec_item

lemma mapIns_new: "map_of xs k = None \<Longrightarrow> mapIns k v xs = xs @ [(k, v)]"
  by (simp add: mapIns_def)

subsection \<open>Figures that show what the server knows\<close>

definition shownPlayer :: "player \<Rightarrow> actor" where
  "shownPlayer p =
     (let x = posX (plPos p); y = posY (plPos p); d = plDirection p;
          a = remoteBase (plCharacterID p) x y (decS (enc 1 (plCharacterType p))) d
      in case plState p of
           PIdle \<Rightarrow> a
         | PMove \<Rightarrow> moving d x y (plSpeed p) a
         | PAttack \<Rightarrow> a\<lparr>acState := AAttack\<rparr>
         | PDead \<Rightarrow> hurt 0 x y d 0 a
         | PStun \<Rightarrow> hurt 1 x y d (max 0 (wrap32 (PLAYER_HIT_STUN_FRAME - plAnimFrame p))) a)"

definition shownMonster :: "monster \<Rightarrow> actor" where
  "shownMonster m =
     (let x = posX (mnPos m); y = posY (mnPos m); d = mnDirection m;
          a = monsterBase (mnMonsterID m) x y (decS (enc 1 (mnMonsterType m))) d (mnHp m)
      in if mnState m \<in> {MMove, MChase, MReturn} then moving d x y (f_lit 3 1) a
         else if mnState m = MStun
         then hurt (mnHp m) x y d (if mnHp m \<le> 0 then 0 else MONSTER_HIT_STUN_FRAME) a
         else if mnState m = MAttack then a\<lparr>acState := AAttack\<rparr>
         else a)"

definition shownItem :: "fieldItem \<Rightarrow> actor" where
  "shownItem it = itemBase (itItemUniqueId it) (posX (itPos it)) (posY (itPos it))"

lemma pose_figure_cong:
  assumes "pose b = pose a"
  shows "pose (moving d x y v b) = pose (moving d x y v a)" "pose (b\<lparr>acState := st\<rparr>) = pose (a\<lparr>acState := st\<rparr>)"
    "pose (hurt hp x y d n b) = pose (hurt hp x y d n a)" "pose (standing d x y b) = pose (standing d x y a)"
  using assms by (cases a; cases b; simp add: pose_def moving_def hurt_def standing_def)+

lemma remoteIn_ok:
  assumes "figure_ok a" "pose a = pose (remoteBase (plCharacterID p) (posX (plPos p)) (posY (plPos p)) t (plDirection p))"
    "t = decS (enc 1 (plCharacterType p))" "dir_ok (plDirection p)"
  shows "\<exists>b. remoteIn (playerStateByte (plState p)) (posX (plPos p)) (posY (plPos p)) (plAnimFrame p) (plDirection p) (plSpeed p) a = Inr b \<and>
    pose b = pose (shownPlayer p) \<and> figure_ok b"
proof -
  have bm: "\<not> acBMove a" using pose_eqD(5) [OF assms(2)] by (simp add: remoteBase_def newActor_def)
  note c = pose_figure_cong [OF assms(2)]
  show ?thesis
    using MoveStart_ok [OF assms(1) bm assms(4)] Attack_ok [OF assms(1)] remoteOnDamaged_ok [OF assms(1,4)] assms(1,2,3) c
    by (cases "plState p") (fastforce simp: remoteIn_def shownPlayer_def Let_def)+
qed

lemma monsterIn_ok:
  assumes "figure_ok a" "pose a = pose (monsterBase (mnMonsterID m) (posX (mnPos m)) (posY (mnPos m)) t (mnDirection m) (mnHp m))"
    "t = decS (enc 1 (mnMonsterType m))" "dir_ok (mnDirection m)"
  shows "\<exists>b. monsterIn (monsterStateByte (mnState m)) (posX (mnPos m)) (posY (mnPos m)) (mnDirection m) (mnHp m) (mnAnimFrame m) a = Inr b \<and>
    pose b = pose (shownMonster m) \<and> figure_ok b"
proof -
  have bm: "\<not> acBMove a" "acSpeed a = f_lit 3 1"
    using pose_eqD(5,6) [OF assms(2)] by (simp_all add: monsterBase_def newActor_def)
  note c = pose_figure_cong [OF assms(2)]
  show ?thesis
    using MoveStart_ok [OF assms(1) bm(1) assms(4)] Attack_ok [OF assms(1)] monsterOnDamaged_ok [OF assms(1,4)] assms(1,2,3) c bm(2)
    by (cases "mnState m") (fastforce simp: monsterIn_def shownMonster_def Let_def)+
qed

subsection \<open>The readers\<close>

text \<open>A reader takes the record of one object off the message and appends its figure to a table.\<close>

locale record_reader =
  fixes read :: reader
    and bytes :: "'a \<Rightarrow> byte list"
    and key :: "'a \<Rightarrow> int"
    and fit :: "'a \<Rightarrow> bool"
    and good :: "'a \<Rightarrow> actor \<Rightarrow> bool"
    and tab :: "fieldScene \<Rightarrow> (int \<times> actor) list"
    and setTab :: "(int \<times> actor) list \<Rightarrow> fieldScene \<Rightarrow> fieldScene"
  assumes read_one: "readable msg \<Longrightarrow> unread msg = bytes x @ rest \<Longrightarrow> fit x \<Longrightarrow> map_of (tab s) (key x) = None \<Longrightarrow>
      \<exists>a. read (msg, s) = Inr (adv (length (bytes x)) msg, setTab (tab s @ [(key x, a)]) s) \<and> good x a"
    and tab_set: "tab (setTab t s) = t" "setTab t (setTab u s) = setTab t s" "setTab (tab s) s = s"
begin

lemma read_all:
  assumes "readable msg" "unread msg = concat (map bytes xs) @ rest" "\<forall>x \<in> set xs. fit x"
    "distinct (map key xs)" "\<forall>x \<in> set xs. key x \<notin> fst ` set (tab s)" "length is = length xs"
  shows "\<exists>as. foldR (\<lambda>_. read) is (msg, s) =
      Inr (adv (length (concat (map bytes xs))) msg, setTab (tab s @ zip (map key xs) as) s) \<and>
    length as = length xs \<and> list_all2 good xs as"
  using assms
proof (induction xs arbitrary: msg s "is")
  case Nil
  then show ?case by (simp add: tab_set adv_def)
next
  case (Cons x xs)
  obtain i "is'" where i: "is = i # is'" "length is' = length xs" using Cons.prems(6) by (cases "is") auto
  have "map_of (tab s) (key x) = None" using Cons.prems(5) by (simp add: map_of_eq_None_iff)
  then obtain a where a: "read (msg, s) = Inr (adv (length (bytes x)) msg, setTab (tab s @ [(key x, a)]) s)" "good x a"
    using read_one [of msg x "concat (map bytes xs) @ rest" s] Cons.prems(1-3) by auto
  define msg1 where "msg1 = adv (length (bytes x)) msg"
  define s1 where "s1 = setTab (tab s @ [(key x, a)]) s"
  have m: "readable msg1" "unread msg1 = concat (map bytes xs) @ rest"
    using Cons.prems(1,2) by (simp_all add: msg1_def)
  have "key x' \<noteq> key x" if "x' \<in> set xs" for x'
    using Cons.prems(4) imageI [OF that, of key] by auto
  then have k: "\<forall>x' \<in> set xs. key x' \<notin> fst ` set (tab s1)" using Cons.prems(5) by (auto simp: s1_def tab_set)
  obtain as where as: "foldR (\<lambda>_. read) is' (msg1, s1) =
      Inr (adv (length (concat (map bytes xs))) msg1, setTab (tab s1 @ zip (map key xs) as) s1)"
      "length as = length xs" "list_all2 good xs as"
    using Cons.IH [OF m _ _ k i(2)] Cons.prems(3,4) by auto
  show ?case
    using a as by (intro exI [of _ "a # as"]) (simp add: i(1) msg1_def [symmetric] s1_def [symmetric],
      simp add: s1_def msg1_def tab_set)
qed

lemma batch_read:
  assumes "readable msg" "unread msg = enc 2 (int (length xs)) @ concat (map bytes xs)" "length xs < 32768"
    "\<forall>x \<in> set xs. fit x" "distinct (map key xs)" "\<forall>x \<in> set xs. key x \<notin> fst ` set (tab s)"
  shows "\<exists>as. onBatch read msg s = Inr (setTab (tab s @ zip (map key xs) as) s) \<and>
    length as = length xs \<and> list_all2 good xs as"
proof -
  have c: "decS (enc 2 (int (length xs))) = int (length xs)" using assms(3) by (intro decS_enc) simp_all
  have g: "getS 2 msg = Inr (int (length xs), adv 2 msg)"
    using getS_enc [OF assms(1,2)] by (simp add: c)
  have m: "readable (adv 2 msg)" "unread (adv 2 msg) = concat (map bytes xs) @ []" using assms(1,2) by simp_all
  show ?thesis using read_all [OF m assms(4-6), of "[0..<nat (int (length xs))]"] g
    by (fastforce simp: onBatch_def)
qed

lemma single_read:
  assumes "readable msg" "unread msg = bytes x" "fit x" "key x \<notin> fst ` set (tab s)"
  shows "\<exists>a. onSingle read msg s = Inr (setTab (tab s @ [(key x, a)]) s) \<and> good x a"
proof -
  have "map_of (tab s) (key x) = None" using assms(4) by (simp add: map_of_eq_None_iff)
  then show ?thesis using read_one [of msg x "[]" s] assms(1-3) by (auto simp: onSingle_def)
qed

end

definition player_fit :: "player \<Rightarrow> bool" where
  "player_fit p \<longleftrightarrow> int64 (plCharacterID p) \<and> dir_ok (plDirection p) \<and> - (2 ^ 31) \<le> plAnimFrame p \<and>
     plAnimFrame p < 2 ^ 31 \<and> length (plNickname p) = 20"

definition monster_fit :: "monster \<Rightarrow> bool" where
  "monster_fit m \<longleftrightarrow> int64 (mnMonsterID m) \<and> dir_ok (mnDirection m) \<and> - (2 ^ 31) \<le> mnAnimFrame m \<and>
     mnAnimFrame m < 2 ^ 31 \<and> - (2 ^ 31) \<le> mnHp m \<and> mnHp m < 2 ^ 31"

lemma player_fit: "player_good k p \<Longrightarrow> int64 (plCharacterID p) \<Longrightarrow> player_fit p"
  by (simp add: player_good_def player_wf_def player_placed_def player_fit_def)

lemma monster_fit: "monster_good k m \<Longrightarrow> int64 k \<Longrightarrow> monster_fit m"
  by (simp add: monster_good_def monster_wf_def monster_fit_def MONSTER_MAX_HP_def)

lemma spawnOther_reads:
  assumes m: "readable msg" "unread msg = concat (spawnFields p) @ rest" and p: "player_fit p"
    and new: "map_of (fsActors s) (plCharacterID p) = None"
  shows "\<exists>a. spawnOther (msg, s) = Inr (adv (length (concat (spawnFields p))) msg,
      s\<lparr>fsActors := fsActors s @ [(plCharacterID p, a)]\<rparr>) \<and> pose a = pose (shownPlayer p) \<and> figure_ok a"
proof -
  define t where "t = decS (enc 1 (plCharacterType p))"
  have f: "int64 (plCharacterID p)" "dir_ok (plDirection p)" "length (plNickname p) = 20"
    "decS (enc 4 (plAnimFrame p)) = plAnimFrame p"
    using p by (simp_all add: player_fit_def dec32)
  obtain a where a: "newRemotePlayer (plCharacterID p) (posX (plPos p)) (posY (plPos p)) t (plDirection p) = Inr a"
      "pose a = pose (remoteBase (plCharacterID p) (posX (plPos p)) (posY (plPos p)) t (plDirection p))" "figure_ok a"
    using newRemotePlayer_ok [OF f(2)] by blast
  obtain b where b: "remoteIn (playerStateByte (plState p)) (posX (plPos p)) (posY (plPos p)) (plAnimFrame p) (plDirection p) (plSpeed p) a = Inr b"
      "pose b = pose (shownPlayer p)" "figure_ok b"
    using remoteIn_ok [OF a(3,2) t_def f(2)] by blast
  have "spawnOther (msg, s) = Inr (adv 47 msg, s\<lparr>fsActors := fsActors s @ [(plCharacterID p, b)]\<rparr>)"
    using m f a(1) b(1) new
    by (simp add: spawnOther_def spawnFields_def getS_eq getF_eq GetData_eq [where rest = rest and bs = "plNickname p"]
        dec64 dec_direction dec_states t_def [symmetric] mapIns_new del: enc.simps One_nat_def)
  then show ?thesis using b f(3) by (intro exI [of _ b]) (simp add: spawnFields_def del: enc.simps One_nat_def)
qed

lemma spawnMonsterActor_reads:
  assumes m: "readable msg" "unread msg = concat (monsterFields x) @ rest" and p: "monster_fit x"
    and new: "map_of (fsMonsterActors s) (mnMonsterID x) = None"
  shows "\<exists>a. spawnMonsterActor (msg, s) = Inr (adv (length (concat (monsterFields x))) msg,
      s\<lparr>fsMonsterActors := fsMonsterActors s @ [(mnMonsterID x, a)]\<rparr>) \<and> pose a = pose (shownMonster x) \<and> figure_ok a"
proof -
  define t where "t = decS (enc 1 (mnMonsterType x))"
  have f: "int64 (mnMonsterID x)" "dir_ok (mnDirection x)"
    "decS (enc 4 (mnAnimFrame x)) = mnAnimFrame x" "decS (enc 4 (mnHp x)) = mnHp x"
    using p by (simp_all add: monster_fit_def dec32)
  obtain a where a: "newMonsterActor (mnMonsterID x) (posX (mnPos x)) (posY (mnPos x)) t (mnDirection x) (mnHp x) (mnAnimFrame x) = Inr a"
      "pose a = pose (monsterBase (mnMonsterID x) (posX (mnPos x)) (posY (mnPos x)) t (mnDirection x) (mnHp x))" "figure_ok a"
    using newMonsterActor_ok [OF f(2)] by blast
  obtain b where b: "monsterIn (monsterStateByte (mnState x)) (posX (mnPos x)) (posY (mnPos x)) (mnDirection x) (mnHp x) (mnAnimFrame x) a = Inr b"
      "pose b = pose (shownMonster x)" "figure_ok b"
    using monsterIn_ok [OF a(3,2) t_def f(2)] by blast
  have "spawnMonsterActor (msg, s) = Inr (adv 27 msg, s\<lparr>fsMonsterActors := fsMonsterActors s @ [(mnMonsterID x, b)]\<rparr>)"
    using m f a(1) b(1) new
    by (simp add: spawnMonsterActor_def monsterFields_def getS_eq getF_eq
        dec64 dec_direction dec_states t_def [symmetric] mapIns_new del: enc.simps One_nat_def)
  then show ?thesis using b by (intro exI [of _ b]) (simp add: monsterFields_def del: enc.simps One_nat_def)
qed

lemma spawnItem_reads:
  assumes m: "readable msg" "unread msg = concat (itemFields x) @ rest" and p: "int64 (itItemUniqueId x)"
    and new: "map_of (fsItemActors s) (itItemUniqueId x) = None"
  shows "\<exists>a. spawnItem (msg, s) = Inr (adv (length (concat (itemFields x))) msg,
      s\<lparr>fsItemActors := fsItemActors s @ [(itItemUniqueId x, a)]\<rparr>) \<and> pose a = pose (shownItem x) \<and> item_ok a"
proof -
  have i: "itemByte (itItemId x) = 0 \<or> itemByte (itItemId x) = 1" by (cases "itItemId x") simp_all
  obtain a where a: "newFieldItemActor (itItemUniqueId x) (posX (itPos x)) (posY (itPos x)) (itemByte (itItemId x)) = Inr a"
      "pose a = pose (shownItem x)" "item_ok a"
    using newFieldItemActor_ok [OF i, of "itItemUniqueId x" "posX (itPos x)" "posY (itPos x)"] unfolding shownItem_def by blast
  have "spawnItem (msg, s) = Inr (adv 17 msg, s\<lparr>fsItemActors := fsItemActors s @ [(itItemUniqueId x, a)]\<rparr>)"
    using m p a(1) new
    by (simp add: spawnItem_def itemFields_def getS_eq getF_eq dec64 dec_states mapIns_new del: enc.simps One_nat_def)
  then show ?thesis using a by (intro exI [of _ a]) (simp add: itemFields_def del: enc.simps One_nat_def)
qed

interpretation read_players: record_reader spawnOther "\<lambda>p. concat (spawnFields p)" plCharacterID player_fit
    "\<lambda>p a. pose a = pose (shownPlayer p) \<and> figure_ok a" fsActors "\<lambda>t s. s\<lparr>fsActors := t\<rparr>"
  by unfold_locales (simp_all add: spawnOther_reads)

interpretation read_monsters: record_reader spawnMonsterActor "\<lambda>m. concat (monsterFields m)" mnMonsterID monster_fit
    "\<lambda>m a. pose a = pose (shownMonster m) \<and> figure_ok a" fsMonsterActors "\<lambda>t s. s\<lparr>fsMonsterActors := t\<rparr>"
  by unfold_locales (simp_all add: spawnMonsterActor_reads)

interpretation read_items: record_reader spawnItem "\<lambda>it. concat (itemFields it)" itItemUniqueId "\<lambda>it. int64 (itItemUniqueId it)"
    "\<lambda>it a. pose a = pose (shownItem it) \<and> item_ok a" fsItemActors "\<lambda>t s. s\<lparr>fsItemActors := t\<rparr>"
  by unfold_locales (simp_all add: spawnItem_reads)

end
