(* ===== verification/ClientStream.thy ===== *)
theory ClientStream
  imports ClientNet BotStream
begin

text \<open>
  What the receiving thread of the game client makes of the stream: the loop of \<open>Unmarshal\<close> implements \<open>deframe\<close>,
  and the thread delivers every message whatever the sizes that \<open>recv\<close> chooses.
\<close>

subsection \<open>A message\<close>

text \<open>The message that the client makes of a payload.\<close>

definition hearsAs :: "int \<times> byte list \<Rightarrow> message" where
  "hearsAs m = (InitMessage 0 0 0)\<lparr>mBuf := snd m\<rparr>"

lemma unmarshalOne_take:
  assumes wf: "ring_wf (ntRecvBuffer n)" and c: "content (ntRecvBuffer n) = bs" and l: "3 \<le> length bs"
    and len: "hLen (headerOf bs) = int k" "3 + k \<le> length bs" "k \<le> 6000" and room: "length (ntPacketQueue n) < PTR_CAP"
  shows "\<exists>q. unmarshalOne n = Inr (Some (n\<lparr>ntRecvBuffer := q, ntPacketQueue := ntPacketQueue n @ [hearsAs (r, take k (drop 3 bs))]\<rparr>)) \<and>
    ring_wf q \<and> content q = drop (3 + k) bs"
proof -
  define q where "q = ntRecvBuffer n"
  note wq = wf [folded q_def]
  have cq: "content q = bs" using c by (simp add: q_def)
  have use: "GetUseSize (rgFront q) (rgRear q) = int (length bs)" using useSize_content [OF wq] by (simp add: cq)
  have pk: "ringPeek 3 q = Inr (Some (take 3 bs), q)"
    using Peek_content [OF wq, of 3] l use by (simp add: ring_same(5) [OF wq] cq)
  have mf: "ringMoveFront 3 q = MoveFront 3 q" using ring_same(1) [OF wq, of 3] by simp
  have w1: "ring_wf (MoveFront 3 q)" "content (MoveFront 3 q) = drop 3 bs"
    using drop_content [OF wq, of 3] l by (simp_all add: cq)
  obtain q' where q': "ringDequeue (int k) (MoveFront 3 q) = Inr (take k (drop 3 bs), q')" "ring_wf q'"
      "content q' = drop k (drop 3 bs)"
    using client_q.deq_ok [OF w1(1), of k, unfolded w1(2) length_drop, OF add_le_imp_le_diff] len(2)
    by (auto simp: add.commute)
  have h: "hLen (headerOf (take 3 bs)) = int k" using len(1) l by (simp add: headerOf_take)
  have put: "PutData (take k (drop 3 bs)) (InitMessage 0 0 0) = Inr (hearsAs (r, take k (drop 3 bs)))"
    using len(2,3) by (simp add: PutData_def InitMessage_def hearsAs_def mRear_def BufferSize_def)
  have "unmarshalOne n = Inr (Some (n\<lparr>ntRecvBuffer := q', ntPacketQueue := ntPacketQueue n @ [hearsAs (r, take k (drop 3 bs))]\<rparr>))"
    using use pk mf q'(1) h put l len(2,3) room
    by (simp add: unmarshalOne_def Let_def flip: q_def)
  then show ?thesis using q' by (auto simp: add.commute)
qed

lemma unmarshalOne_wait:
  assumes wf: "ring_wf (ntRecvBuffer n)" and c: "content (ntRecvBuffer n) = bs"
    and l: "length bs < 3 \<or> int (length bs) < 3 + hLen (headerOf bs)"
  shows "unmarshalOne n = Inr None"
proof -
  have use: "GetUseSize (rgFront (ntRecvBuffer n)) (rgRear (ntRecvBuffer n)) = int (length bs)"
    using useSize_content [OF wf] by (simp add: c)
  show ?thesis
  proof (cases "length bs < 3")
    case True
    then show ?thesis by (simp add: unmarshalOne_def use Let_def)
  next
    case False
    then have pk: "ringPeek 3 (ntRecvBuffer n) = Inr (Some (take 3 bs), ntRecvBuffer n)"
      using Peek_content [OF wf, of 3] use by (simp add: ring_same(5) [OF wf] c)
    show ?thesis using False l by (simp add: unmarshalOne_def use pk headerOf_take Let_def)
  qed
qed

subsection \<open>The loop\<close>

text \<open>A rest that is a header alone must not announce an empty message: such a header breaks the server's framing.\<close>

definition open_end :: "byte list \<Rightarrow> bool" where
  "open_end rest \<longleftrightarrow> length rest < 3 \<or> int (length rest) < 3 + hLen (headerOf rest)"

lemma network_same: "ring_wf (ntRecvBuffer n) \<Longrightarrow> \<exists>q. n = n\<lparr>ntRecvBuffer := q\<rparr> \<and> ring_wf q \<and> content q = content (ntRecvBuffer n)"
  by (intro exI [of _ "ntRecvBuffer n"]) simp

lemma Unmarshal_deframe:
  "deframe bs = (False, ms, rest) \<Longrightarrow> open_end rest \<Longrightarrow> \<forall>m \<in> set ms. length (snd m) \<le> 6000 \<Longrightarrow>
   ring_wf (ntRecvBuffer n) \<Longrightarrow> content (ntRecvBuffer n) = bs \<Longrightarrow> length (ntPacketQueue n) + length ms \<le> PTR_CAP \<Longrightarrow>
   \<exists>q. Unmarshal n = Some (Inr (n\<lparr>ntRecvBuffer := q, ntPacketQueue := ntPacketQueue n @ map hearsAs ms\<rparr>)) \<and>
     ring_wf q \<and> content q = rest"
proof (induction bs arbitrary: ms n rule: deframe.induct)
  case (1 bs)
  define h where "h = headerOf bs"
  define L where "L = nat (hLen h)"
  consider (small) "length bs \<le> 3" | (bad) "3 < length bs" "hLen h \<le> 0"
    | (part) "3 < length bs" "0 < hLen h" "length bs < 3 + L" | (full) "3 < length bs" "0 < hLen h" "3 + L \<le> length bs" by linarith
  then show ?case
  proof cases
    case bad
    then show ?thesis using "1.prems"(1) by (simp add: deframe.simps [of bs] h_def Let_def)
  next
    case full
    define m where "m = take L (drop 3 bs)"
    obtain ms' where ms: "ms = (hRandKey h, m) # ms'" "deframe (drop (3 + L) bs) = (False, ms', rest)"
      using "1.prems"(1) full by (auto simp: deframe.simps [of bs] h_def [symmetric] L_def [symmetric] m_def Let_def split: prod.splits)
    have len: "length m = L" "hLen h = int L" using full by (auto simp: m_def L_def)
    then have L: "L \<le> 6000" using "1.prems"(3) ms(1) by simp
    obtain q where q: "unmarshalOne n = Inr (Some (n\<lparr>ntRecvBuffer := q, ntPacketQueue := ntPacketQueue n @ [hearsAs (hRandKey h, m)]\<rparr>))"
        "ring_wf q" "content q = drop (3 + L) bs"
      using unmarshalOne_take [OF "1.prems"(4,5), of L "hRandKey h"] full len(2) L "1.prems"(6) ms(1)
      by (auto simp: h_def m_def)
    define n1 where "n1 = n\<lparr>ntRecvBuffer := q, ntPacketQueue := ntPacketQueue n @ [hearsAs (hRandKey h, m)]\<rparr>"
    have ih: "\<exists>q. Unmarshal n1 = Some (Inr (n1\<lparr>ntRecvBuffer := q, ntPacketQueue := ntPacketQueue n1 @ map hearsAs ms'\<rparr>)) \<and>
        ring_wf q \<and> content q = rest"
      using full q ms "1.prems"(2,3,6) unfolding h_def L_def by (intro "1.IH") (simp_all add: n1_def)
    then show ?thesis using q(1) by (auto simp: Unmarshal.simps [of n] n1_def ms(1))
  qed (use "1.prems" unmarshalOne_wait [of n bs] in
      \<open>auto simp: deframe.simps [of bs] h_def L_def Unmarshal.simps [of n] open_end_def Let_def
        intro: network_same\<close>)
qed

subsection \<open>The thread\<close>

lemma direct_free:
  assumes "ring_wf q" "length (content q) < capacity"
  shows "0 < GetDirectFreeSize (rgFront q) (rgRear q)"
  using assms freeSize_content [OF assms(1)]
  by (auto simp: GetDirectFreeSize_def GetFreeSize_def ring_wf_def split: if_splits)

lemma direct_le_free:
  "ring_wf q \<Longrightarrow> GetDirectFreeSize (rgFront q) (rgRear q) \<le> int capacity - int (length (content q))"
  using freeSize_content [of q] by (auto simp: GetDirectFreeSize_def GetFreeSize_def ring_wf_def split: if_splits)

lemma recvOne_deframe:
  assumes wf: "ring_wf (ntRecvBuffer n)" and c: "content (ntRecvBuffer n) = c"
    and p: "p \<noteq> []" "int (length p) \<le> GetDirectFreeSize (rgFront (ntRecvBuffer n)) (rgRear (ntRecvBuffer n))"
    and d: "deframe (c @ p) = (False, ms, rest)" "open_end rest" "\<forall>m \<in> set ms. length (snd m) \<le> 6000"
    and room: "length (ntPacketQueue n) + length ms \<le> PTR_CAP"
  shows "\<exists>q. recvOne p n = Inr (True, n\<lparr>ntRecvBuffer := q, ntPacketQueue := ntPacketQueue n @ map hearsAs ms\<rparr>) \<and>
    ring_wf q \<and> content q = rest"
proof -
  define q where "q = ntRecvBuffer n"
  note wq = wf [folded q_def] and pq = p(2) [folded q_def]
  have fit: "length c + length p \<le> capacity" using direct_le_free [OF wq] pq c by (simp add: q_def)
  obtain q1 where q1: "ringEnqueue p (int (length p)) q = Inr q1" "ring_wf q1" "content q1 = c @ p"
    using client_q.enq_ok [OF wq, of p] c fit by (auto simp: q_def)
  have "ringEnqueue p (int (length p)) q =
      bindR (copyIn (rgBuffer q) (rgRear q) p) (\<lambda>buf. ringMoveRear (int (length p)) (q\<lparr>rgBuffer := buf\<rparr>))"
    using wq pq direct_le_free [OF wq] freeSize_content [OF wq]
    by (simp add: ringEnqueue_def RINGBUFFER_ASSERT_def ring_wf_def Let_def)
  then obtain buf where buf: "copyIn (rgBuffer q) (rgRear q) p = Inr buf" "ringMoveRear (int (length p)) (q\<lparr>rgBuffer := buf\<rparr>) = Inr q1"
    using q1(1) by (cases "copyIn (rgBuffer q) (rgRear q) p") auto
  have nz: "GetDirectFreeSize (rgFront q) (rgRear q) \<noteq> 0" using p(1) pq by (cases p) auto
  define n1 where "n1 = n\<lparr>ntRecvBuffer := q1\<rparr>"
  obtain q2 where "Unmarshal n1 = Some (Inr (n1\<lparr>ntRecvBuffer := q2, ntPacketQueue := ntPacketQueue n1 @ map hearsAs ms\<rparr>))"
      "ring_wf q2" "content q2 = rest"
    using Unmarshal_deframe [OF d, of n1] q1(2,3) room by (auto simp: n1_def)
  moreover have "recvOne p n = (case Unmarshal n1 of None \<Rightarrow> Inl NoReturn | Some r \<Rightarrow> bindR r (\<lambda>n. Inr (True, n)))"
    using p(1) pq nz by (simp add: recvOne_def buf Let_def n1_def flip: q_def)
  ultimately show ?thesis by (auto simp: n1_def)
qed

text \<open>
  The thread with a peer whose bytes \<open>bs\<close> are on their way: every call of \<open>recv\<close> takes some of them, as many as
  the \<open>amt\<close> the network chooses, at least one and no more than there are and than there is room for.
\<close>

definition recvSize :: "nat \<Rightarrow> byte list \<Rightarrow> network \<Rightarrow> nat" where
  "recvSize amt bs n =
     max 1 (min amt (min (length bs) (nat (GetDirectFreeSize (rgFront (ntRecvBuffer n)) (rgRear (ntRecvBuffer n))))))"

fun recvAll :: "nat list \<Rightarrow> byte list \<Rightarrow> network \<Rightarrow> network res" where
  "recvAll [] bs n = Inr n"
| "recvAll (amt # amts) bs n =
     (if bs = [] then Inr n
      else let k = recvSize amt bs n
           in bindR (recvOne (take k bs) n) (\<lambda>(go, n). if go then recvAll amts (drop k bs) n else Inr n))"

text \<open>What is left over between two calls is the beginning of a frame.\<close>

lemma rest_open:
  assumes "deframe (r @ s) = (False, ms, [])" "deframe r = (False, [], r)" "\<forall>m \<in> set ms. length (snd m) \<le> 6000"
  shows "open_end r" "length r < 6003"
proof -
  have "open_end r \<and> length r < 6003"
  proof (cases "length r < 3")
    case False
    define L where "L = nat (hLen (headerOf r))"
    have bad: "0 < hLen (headerOf r)" if "length r = 3"
      using deframe_bad_header [OF that _ assms(1)] assms(1,2) that by (cases "0 < hLen (headerOf r)") auto
    have pos: "0 < hLen (headerOf r)"
      using bad assms(2) False by (cases "length r = 3") (auto simp: deframe.simps [of r] Let_def split: if_splits)
    have short: "length r < 3 + L"
      using assms(2) False pos by (cases "length r = 3") (auto simp: deframe.simps [of r] L_def Let_def split: if_splits prod.splits)
    have h: "headerOf (r @ s) = headerOf r" using False by (simp add: headerOf_append)
    have "3 + L \<le> length (r @ s) \<and> length (r @ s) > 3"
      using assms(1) pos False by (auto simp: deframe.simps [of "r @ s"] h L_def Let_def split: if_splits)
    then have "ms \<noteq> [] \<and> length (snd (hd ms)) = L"
      using assms(1) pos by (auto simp: deframe.simps [of "r @ s"] h L_def [symmetric] Let_def split: if_splits prod.splits)
    then have "L \<le> 6000" using assms(3) by (cases ms) auto
    then show ?thesis using short pos by (auto simp: open_end_def L_def)
  qed (simp add: open_end_def)
  then show "open_end r" "length r < 6003" by simp_all
qed

lemma recvAll_deframe:
  "ring_wf (ntRecvBuffer n) \<Longrightarrow> content (ntRecvBuffer n) = c \<Longrightarrow> deframe c = (False, [], c) \<Longrightarrow>
   deframe (c @ bs) = (False, ms, []) \<Longrightarrow> \<forall>m \<in> set ms. length (snd m) \<le> 6000 \<Longrightarrow>
   length (ntPacketQueue n) + length ms \<le> PTR_CAP \<Longrightarrow> length bs \<le> length amts \<Longrightarrow>
   \<exists>q. recvAll amts bs n = Inr (n\<lparr>ntRecvBuffer := q, ntPacketQueue := ntPacketQueue n @ map hearsAs ms\<rparr>) \<and>
     ring_wf q \<and> content q = []"
proof (induction amts arbitrary: bs c ms n)
  case Nil
  then have "c = []" "ms = []" "bs = []" by auto
  then show ?case using Nil.prems network_same [of n] by auto
next
  case (Cons amt amts)
  show ?case
  proof (cases "bs = []")
    case True
    then have "c = []" "ms = []" using Cons.prems by auto
    then show ?thesis using Cons.prems network_same [of n] True by auto
  next
    case False
    define k where "k = recvSize amt bs n"
    define p where "p = take k bs"
    define free where "free = GetDirectFreeSize (rgFront (ntRecvBuffer n)) (rgRear (ntRecvBuffer n))"
    have bs: "bs = p @ drop k bs" by (simp add: p_def)
    have "length c < 6003" by (rule rest_open(2) [OF Cons.prems(4,3,5)])
    then have "0 < free"
      using direct_free [OF Cons.prems(1)] Cons.prems(2) by (simp add: capacity_def RINGBUFFER_SIZE_def free_def)
    then have k: "0 < k" "k \<le> length bs" "int k \<le> free"
      using False by (auto simp: k_def recvSize_def free_def [symmetric] Suc_le_eq)
    then have p: "p \<noteq> []" "int (length p) \<le> free" using False by (auto simp: p_def)
    obtain ms1 r1 ms2 where d: "deframe (c @ p) = (False, ms1, r1)" "deframe (r1 @ drop k bs) = (False, ms2, [])" "ms = ms1 @ ms2"
      using deframe_split [of "c @ p" "drop k bs" ms "[]"] Cons.prems(4) bs by (metis append.assoc)
    have r1: "deframe r1 = (False, [], r1)" using deframe_rest [OF d(1)] .
    have o: "open_end r1" by (rule rest_open(1) [OF d(2) r1]) (use Cons.prems(5) d(3) in auto)
    obtain q where q: "recvOne p n = Inr (True, n\<lparr>ntRecvBuffer := q, ntPacketQueue := ntPacketQueue n @ map hearsAs ms1\<rparr>)"
        "ring_wf q" "content q = r1"
      using recvOne_deframe [OF Cons.prems(1,2) p(1) p(2) [unfolded free_def] d(1) o] Cons.prems(5,6) d(3) by auto
    define n1 where "n1 = n\<lparr>ntRecvBuffer := q, ntPacketQueue := ntPacketQueue n @ map hearsAs ms1\<rparr>"
    have "\<exists>q. recvAll amts (drop k bs) n1 = Inr (n1\<lparr>ntRecvBuffer := q, ntPacketQueue := ntPacketQueue n1 @ map hearsAs ms2\<rparr>) \<and>
        ring_wf q \<and> content q = []"
      using Cons.prems(5-7) d(2,3) r1 q k by (intro Cons.IH) (auto simp: n1_def)
    then show ?thesis using False q(1)
      by (auto simp: k_def [symmetric] p_def [symmetric] n1_def d(3) Let_def)
  qed
qed

end
