(* ===== verification/ClientHear.thy ===== *)
theory ClientHear
  imports ClientRead ClientStream BotProps
begin

text \<open>
  What the game client makes of the server's packets: which handler takes a packet, and what the handler does
  with the fields that the server wrote.
\<close>

subsection \<open>A packet arrives\<close>

text \<open>What is left of a packet of the server when the client has cut off the header.\<close>

definition payload :: "message \<Rightarrow> message" where
  "payload m = hearsAs (0, drop 3 (mBuf m))"

definition opened :: "byte list \<Rightarrow> int \<Rightarrow> message" where
  "opened body t = adv 2 (hearsAs (0, enc 2 t @ body))"

lemma opened_facts [simp]: "readable (opened body t)" "unread (opened body t) = body"
  by (simp_all add: opened_def adv_def hearsAs_def readable_def unread_def)

lemma payload_type:
  assumes "- 32768 \<le> t" "t < 32768"
  shows "getS 2 (payload (packet now k t body)) = Inr (t, opened body t)"
proof -
  have p: "payload (packet now k t body) = hearsAs (0, enc 2 t @ body)" by (simp add: payload_def packet_def headerBytes_def)
  have "decS (enc 2 t) = t" using assms by (intro decS_enc) simp_all
  moreover have "readable (hearsAs (0, enc 2 t @ body))" "unread (hearsAs (0, enc 2 t @ body)) = enc 2 t @ body"
    by (simp_all add: hearsAs_def readable_def unread_def)
  ultimately show ?thesis unfolding p by (simp add: getS_enc opened_def del: enc.simps)
qed

text \<open>The client hears a packet of type \<open>t\<close> with the given body.\<close>

definition hearsPacket :: "int \<Rightarrow> byte list \<Rightarrow> fieldScene \<Rightarrow> fieldScene res" where
  "hearsPacket t body = fieldScenePacketProc (payload (packet 0 0 t body))"

lemma hears_any: "fieldScenePacketProc (payload (packet now k t body)) = hearsPacket t body"
  by (simp add: hearsPacket_def payload_def packet_def)

lemma hearsPacket_eq:
  "hearsPacket OTHER_CHARACTER_SPAWN body = onOtherCharacterSpawn (opened body OTHER_CHARACTER_SPAWN)"
  "hearsPacket OTHER_CHARACTER_SPAWN_BATCH body = onOtherCharacterSpawnBatch (opened body OTHER_CHARACTER_SPAWN_BATCH)"
  "hearsPacket CHARACTER_DESPAWN body = onCharacterDespawn (opened body CHARACTER_DESPAWN)"
  "hearsPacket MOVE_START body = onCharacterMoveStart (opened body MOVE_START)"
  "hearsPacket MOVE_STOP body = onCharacterMoveStop (opened body MOVE_STOP)"
  "hearsPacket OTHER_CHARACTER_ATTACK body = onOtherCharacterAttack (opened body OTHER_CHARACTER_ATTACK)"
  "hearsPacket MONSTER_SPAWN_BATCH body = onMonsterSpawnBatch (opened body MONSTER_SPAWN_BATCH)"
  "hearsPacket MONSTER_DESPAWN body = onMonsterDespawn (opened body MONSTER_DESPAWN)"
  "hearsPacket ITEM_SPAWN_BATCH body = onItemSpawnBatch (opened body ITEM_SPAWN_BATCH)"
  "hearsPacket ITEM_DESPAWN body = onItemDespawn (opened body ITEM_DESPAWN)"
  by (simp_all add: fun_eq_iff hearsPacket_def fieldScenePacketProc_def payload_type packet_defs)

subsection \<open>Handlers\<close>

lemma hears_despawn:
  assumes "int64 k"
  shows "hearsPacket CHARACTER_DESPAWN (enc 8 k) s = Inr (s\<lparr>fsActors := alDel k (fsActors s)\<rparr>)"
    "hearsPacket MONSTER_DESPAWN (enc 8 k) s = Inr (s\<lparr>fsMonsterActors := alDel k (fsMonsterActors s)\<rparr>)"
    "hearsPacket ITEM_DESPAWN (enc 8 k) s = Inr (s\<lparr>fsItemActors := alDel k (fsItemActors s)\<rparr>)"
  using assms by (simp_all add: hearsPacket_eq onCharacterDespawn_def onMonsterDespawn_def onItemDespawn_def
      getS_enc [where rest = "[]"] dec64 del: enc.simps)

lemma hears_move_start:
  assumes p: "int64 (plCharacterID p)" "dir_ok (plDirection p)" and a: "map_of (fsActors s) (plCharacterID p) = Some a"
  shows "hearsPacket MOVE_START (moveBody p @ encF (plSpeed p)) s =
    bindR (MoveStart (plDirection p) (posX (plPos p)) (posY (plPos p)) (plSpeed p) a) (\<lambda>a.
      Inr (s\<lparr>fsActors := alUpd (plCharacterID p) a (fsActors s)\<rparr>))"
  using p a by (simp add: hearsPacket_eq onCharacterMoveStart_def moveBody_def getS_eq getF_eq dec64 dec_direction
      del: enc.simps One_nat_def)

lemma hears_move_stop:
  assumes p: "int64 (plCharacterID p)" "dir_ok (plDirection p)" and a: "map_of (fsActors s) (plCharacterID p) = Some a"
    and other: "plCharacterID p \<noteq> acCharacterID (fsLocalPlayer s)"
  shows "hearsPacket MOVE_STOP (moveBody p) s =
    bindR (MoveStop (plDirection p) (posX (plPos p)) (posY (plPos p)) a) (\<lambda>a.
      Inr (s\<lparr>fsActors := alUpd (plCharacterID p) a (fsActors s)\<rparr>))"
  using p a other by (simp add: hearsPacket_eq onCharacterMoveStop_def moveBody_def getS_eq getF_eq dec64 dec_direction
      del: enc.simps One_nat_def)

lemma hears_attack:
  assumes p: "int64 k" and a: "map_of (fsActors s) k = Some a"
  shows "hearsPacket OTHER_CHARACTER_ATTACK (enc 8 k) s =
    bindR (Attack 0 a) (\<lambda>a. Inr (s\<lparr>fsActors := alUpd k a (fsActors s)\<rparr>))"
  using p a by (simp add: hearsPacket_eq onOtherCharacterAttack_def getS_enc [where rest = "[]"] dec64 del: enc.simps)

end
