(* ===== verification/ClientWalk.thy ===== *)
theory ClientWalk
  imports ClientHear
begin

text \<open>
  How the figures of others move on the client's screen from one packet to the next.
\<close>

lemma tickHit_pose:
  assumes "pose a' = pose a" "tickHit a = Inr c"
  shows "\<exists>c'. tickHit a' = Inr c' \<and> pose c' = pose c"
proof -
  note e = pose_eqD [OF assms(1)]
  consider (hit) "0 < acHitTimer a" | (move) "\<not> 0 < acHitTimer a" "acBMove a" | (rest) "\<not> 0 < acHitTimer a" "\<not> acBMove a" by blast
  then show ?thesis
  proof cases
    case move
    then obtain v where v: "dirVector (acDirection a) = Inr v" "c = stepped a v" using assms(2) by (auto simp: tickHit_def Inr_iffs)
    have "pose (stepped a' v) = pose (stepped a v)"
      using assms(1) e by (simp add: stepped_def Let_def pose_def)
    then show ?thesis using v move e by (simp add: tickHit_def)
  next
    case hit
    then show ?thesis using assms e by (auto simp: tickHit_def pose_def)
  qed (use assms e in \<open>auto simp: tickHit_def\<close>)
qed

lemma actorUpdate_tick:
  assumes "figure_ok a" "acKind a = RemotePlayerKind \<or> acKind a = MonsterKind"
  shows "\<exists>b c. actorUpdate sinf a = Inr b \<and> figure_ok b \<and> tickHit a = Inr c \<and> pose b = pose c"
proof -
  obtain a1 where a1: "runSprite a = Inr a1" "pose a1 = pose a" "figure_ok a1" using runSprite_ok [OF assms(1)] by blast
  obtain b c where bc: "remoteActorUpdate a1 = Inr b" "tickHit a1 = Inr c" "pose b = pose c" "figure_ok b"
    using remoteActorUpdate_ok [OF a1(3)] by blast
  obtain c' where "tickHit a = Inr c'" "pose c' = pose c" using tickHit_pose [OF a1(2) [symmetric] bc(2)] by blast
  moreover have "actorUpdate sinf a = Inr b"
    using assms(2) pose_eqD(1) [OF a1(2)] a1(1) bc(1) by (auto simp: actorUpdate_def monster_like_remote)
  ultimately show ?thesis using bc by auto
qed

text \<open>A walking figure after \<open>n\<close> ticks.\<close>

definition walked :: "nat \<Rightarrow> f32 \<times> f32 \<Rightarrow> actor \<Rightarrow> actor" where
  "walked n v a = (let p = moveTo (Position (acStartX a) (acStartY a)) v (acSpeed a) (int n)
     in a\<lparr>acMoveFrame := int n, acX := posX p, acY := posY p, acState := AMove\<rparr>)"

lemma remote_walk:
  assumes a: "figure_ok a" "acKind a = RemotePlayerKind" "acHitTimer a \<le> 0" "acBMove a" "acMoveFrame a = 0"
    and v: "dirVector (acDirection a) = Inr v" and n: "Suc n < 2 ^ 63"
  shows "\<exists>b. foldR (\<lambda>_. actorUpdate sinf) (replicate (Suc n) ()) a = Inr b \<and> figure_ok b \<and> pose b = pose (walked (Suc n) v a)"
  using n
proof (induction n)
  case 0
  have w: "wrap64 1 = 1" by (simp add: wrap64_def)
  have "tickHit a = Inr (walked (Suc 0) v a)"
    using a v w by (simp add: tickHit_def walked_def stepped_def Let_def)
  then show ?case using actorUpdate_tick [OF a(1), of sinf] a(2) by auto
next
  case (Suc n)
  obtain b where b: "foldR (\<lambda>_. actorUpdate sinf) (replicate (Suc n) ()) a = Inr b" "figure_ok b" "pose b = pose (walked (Suc n) v a)"
    using Suc by auto
  note e = pose_eqD [OF b(3)]
  have w: "wrap64 (int (Suc n) + 1) = int (Suc (Suc n))" using Suc.prems by (simp add: wrap64_def)
  have "tickHit (walked (Suc n) v a) = Inr (walked (Suc (Suc n)) v a)"
    using a v w by (simp add: tickHit_def walked_def stepped_def Let_def)
  then obtain c where c: "tickHit b = Inr c" "pose c = pose (walked (Suc (Suc n)) v a)"
    using tickHit_pose [OF b(3)] by blast
  have "acKind b = RemotePlayerKind" using e(1) a(2) by (simp add: walked_def Let_def)
  then obtain b' where "actorUpdate sinf b = Inr b'" "figure_ok b'" "pose b' = pose c"
    using actorUpdate_tick [OF b(2), of sinf] c(1) by auto
  then show ?case using c(2) b(1) unfolding foldR_replicate_Suc [of _ "Suc n"] by auto
qed

subsection \<open>A screen\<close>

text \<open>The screen of player 101, that shows player 102.\<close>

definition sampleFigure :: "int \<Rightarrow> actor" where
  "sampleFigure k = projr (newRemotePlayer k (f_lit 100 1) (f_lit 100 1) 0 DirDown)"

definition sampleScreen :: fieldScene where
  "sampleScreen = (newFieldScene (projr (newPlayerActor 101 (f_lit 100 1) (f_lit 100 1))))\<lparr>fsActors := [(102, sampleFigure 102)]\<rparr>"

lemma sampleFigure_facts [simp]:
  "figure_ok (sampleFigure k)" "acKind (sampleFigure k) = RemotePlayerKind" "\<not> acBMove (sampleFigure k)"
  "acHitTimer (sampleFigure k) = 0" "acCharacterID (sampleFigure k) = k"
proof -
  have d: "dir_ok DirDown" by (simp add: dir_ok_def)
  obtain a where a: "newRemotePlayer k (f_lit 100 1) (f_lit 100 1) 0 DirDown = Inr a"
      "pose a = pose (remoteBase k (f_lit 100 1) (f_lit 100 1) 0 DirDown)" "figure_ok a"
    using newRemotePlayer_ok [OF d] by blast
  then have s: "sampleFigure k = a" by (simp add: sampleFigure_def)
  show "figure_ok (sampleFigure k)" "acKind (sampleFigure k) = RemotePlayerKind" "\<not> acBMove (sampleFigure k)"
    "acHitTimer (sampleFigure k) = 0" "acCharacterID (sampleFigure k) = k"
    using a(3) pose_eqD(1,2,5,16) [OF a(2)] by (simp_all add: s remoteBase_def newActor_def)
qed

lemma sampleScreen_player: "figure_ok (fsLocalPlayer sampleScreen) \<and> acCharacterID (fsLocalPlayer sampleScreen) = 101 \<and>
    acHp (fsLocalPlayer sampleScreen) = 100 \<and> acState (fsLocalPlayer sampleScreen) = AIdle"
proof -
  obtain a where a: "newPlayerActor 101 (f_lit 100 1) (f_lit 100 1) = Inr a"
      "pose a = pose (playerBase 101 (f_lit 100 1) (f_lit 100 1))" "figure_ok a"
    using newPlayerActor_ok by blast
  then show ?thesis using pose_eqD(2,3,14) [OF a(2)]
    by (simp add: sampleScreen_def newFieldScene_def playerBase_def newActor_def PLAYER_MAX_HP_def)
qed

lemma sampleScreen_tables [simp]: "fsActors sampleScreen = [(102, sampleFigure 102)]" "fsMonsterActors sampleScreen = []"
  "fsItemActors sampleScreen = []"
  by (simp_all add: sampleScreen_def newFieldScene_def)

end
