(* ===== verification/ClientPlayer.thy ===== *)
theory ClientPlayer
  imports ClientWalk
begin

text \<open>
  The player's own figure and the keys: while the connection takes what is sent, no frame of the client fails, and
  what it sends are whole packets that the server takes.
\<close>

subsection \<open>Sending\<close>

definition net_up :: "network \<Rightarrow> bool" where
  "net_up n \<longleftrightarrow> ntSocket n \<and> ntSendRes n = []"

definition told :: "byte list list \<Rightarrow> network \<Rightarrow> network" where
  "told ms n = n\<lparr>ntSent := ntSent n @ map (\<lambda>m. frame (0, m)) ms\<rparr>"

lemma told_simps [simp]: "told [] n = n" "told ms' (told ms n) = told (ms @ ms') n" "net_up (told ms n) = net_up n"
  "ntSent (told ms n) = ntSent n @ map (\<lambda>m. frame (0, m)) ms"
  by (simp_all add: told_def net_up_def)

lemma clientMsg_eq:
  assumes "length (concat flds) \<le> 5000" "len = 2 + int (length (concat flds))"
  shows "\<exists>msg. clientMsg t len flds = Inr msg \<and> mFront msg = 0 \<and> mBuf msg = frame (0, enc 2 t @ concat flds)"
proof -
  have w: "wrap16 len = len" using assms by (intro wrap16_id) simp_all
  have h: "PutData (headerBytes \<lparr> hLen = len, hRandKey = 0 \<rparr>) (InitMessage 0 0 0) =
      Inr ((InitMessage 0 0 0)\<lparr>mBuf := headerBytes \<lparr> hLen = len, hRandKey = 0 \<rparr>\<rparr>)"
    by (simp add: PutData_def InitMessage_def mRear_def BufferSize_def headerBytes_def)
  show ?thesis unfolding clientMsg_def w h bindR_simps using assms
    by (simp add: putAll_eq InitMessage_def mRear_def BufferSize_def headerBytes_def frame_def add.assoc del: enc.simps)
qed

lemma clientSend_ok:
  assumes "net_up n" "length (concat flds) \<le> 5000" "len = 2 + int (length (concat flds))"
  shows "clientSend t len flds n = Inr (told [enc 2 t @ concat flds] n)"
proof -
  obtain msg where m: "clientMsg t len flds = Inr msg" "mFront msg = 0" "mBuf msg = frame (0, enc 2 t @ concat flds)"
    using clientMsg_eq [OF assms(2,3)] by blast
  have "take (nat (Message.GetUseSize msg)) (mBuf msg) = mBuf msg"
    using m(2) by (simp add: Message.GetUseSize_def mRear_def)
  then have "Send msg n = (True, told [enc 2 t @ concat flds] n)"
    using assms(1) m(2,3) by (simp add: Send_def net_up_def told_def Let_def)
  then show ?thesis by (simp add: clientSend_def m(1))
qed

text \<open>\<open>spoke\<close>: the outcome satisfies \<open>P\<close>, and what has been sent on the way are packets that the server takes.\<close>

definition spoke :: "network \<Rightarrow> ('a \<times> network) res \<Rightarrow> ('a \<Rightarrow> bool) \<Rightarrow> bool" where
  "spoke n r P \<longleftrightarrow> (\<exists>x ms. r = Inr (x, told ms n) \<and> P x \<and> (\<forall>m \<in> set ms. acceptable m))"

lemma spoke_Inr: "P x \<Longrightarrow> spoke n (Inr (x, n)) P"
  unfolding spoke_def by (intro exI [of _ x] exI [of _ "[]"]) simp

lemma spoke_bind:
  assumes r: "spoke n r P" and f: "\<And>x n'. P x \<Longrightarrow> net_up n' \<Longrightarrow> spoke n' (f (x, n')) Q" and "net_up n"
  shows "spoke n (bindR r f) Q"
proof -
  obtain x ms where x: "r = Inr (x, told ms n)" "P x" "\<forall>m \<in> set ms. acceptable m" using r by (auto simp: spoke_def)
  obtain y ms' where "f (x, told ms n) = Inr (y, told ms' (told ms n))" "Q y" "\<forall>m \<in> set ms'. acceptable m"
    using f [OF x(2), of "told ms n"] assms(3) by (auto simp: spoke_def)
  then show ?thesis unfolding spoke_def using x by (intro exI [of _ y] exI [of _ "ms @ ms'"]) auto
qed

lemma spoke_mono: "spoke n r P \<Longrightarrow> (\<And>x. P x \<Longrightarrow> Q x) \<Longrightarrow> spoke n r Q"
  unfolding spoke_def by blast

text \<open>A packet that is sent, and what follows.\<close>

lemma spoke_send:
  assumes "net_up n" "clientSend t len flds n = Inr (told [m] n)" "acceptable m" "\<And>n'. net_up n' \<Longrightarrow> spoke n' (f n') Q"
  shows "spoke n (bindR (clientSend t len flds n) f) Q"
proof -
  obtain y ms where "f (told [m] n) = Inr (y, told ms (told [m] n))" "Q y" "\<forall>m \<in> set ms. acceptable m"
    using assms(4) [of "told [m] n"] assms(1) by (auto simp: spoke_def)
  then show ?thesis using assms(2,3) unfolding spoke_def by (intro exI [of _ y] exI [of _ "m # ms"]) auto
qed

subsection \<open>The player's own figure\<close>

text \<open>
  In the map, with the speed that the server accepts. The flag \<open>acBMove\<close> of one's own figure is never set.
\<close>

definition me_pose :: "actor \<Rightarrow> bool" where
  "me_pose a \<longleftrightarrow> acKind a = PlayerKind \<and> \<not> acBMove a \<and> in_map (Position (acX a) (acY a)) \<and>
     in_map (Position (acStartX a) (acStartY a)) \<and> acSpeed a = f_lit 45 10"

definition me_ok :: "actor \<Rightarrow> bool" where "me_ok a \<longleftrightarrow> figure_ok a \<and> me_pose a"

lemma me_pose_pose: "pose b = pose a \<Longrightarrow> me_pose b = me_pose a"
  using pose_eqD [of b a] by (simp add: me_pose_def)

lemma me_okD: "me_ok a \<Longrightarrow> figure_ok a" "me_ok a \<Longrightarrow> dir_ok (acDirection a)" "me_ok a \<Longrightarrow> \<not> acBMove a"
  by (simp_all add: me_ok_def figure_ok_def me_pose_def)

lemma me_change:
  assumes "me_ok a"
  shows "\<exists>b. changeAnimation (acDirection a) st n a = Inr b \<and> me_ok b \<and> pose b = pose a"
proof -
  obtain b where b: "changeAnimation (acDirection a) st n a = Inr b" "pose b = pose a" "figure_ok b"
    using figure_change [OF me_okD(1) [OF assms] refl refl refl me_okD(2) [OF assms], of st n] by blast
  then show ?thesis using assms me_pose_pose [OF b(2)] by (auto simp: me_ok_def)
qed

lemma me_step:
  assumes "me_ok a"
  shows "\<exists>b. actorMoveUpdate a = Inr b \<and> me_ok b"
proof -
  note o = assms [unfolded me_ok_def me_pose_def]
  obtain v where v: "dirVector (acDirection a) = Inr v" "f_fin (f_mul (fst v) (f_lit 45 10))" "f_fin (f_mul (snd v) (f_lit 45 10))"
    using dirVector_cases [OF me_okD(2) [OF assms]] by blast
  have w: "- (2 ^ 63) \<le> wrap64 j \<and> wrap64 j < 2 ^ 63" for j
    using pos_mod_bound [of "2 ^ 64" "j + 2 ^ 63"] pos_mod_sign [of "2 ^ 64" "j + 2 ^ 63"] by (simp add: wrap64_def)
  have "in_map (moveTo (Position (acStartX a) (acStartY a)) v (acSpeed a) (wrap64 (acMoveFrame a + 1)))" (is "in_map ?p")
    using o v w by (intro moveTo_in_map_long) auto
  then have "me_ok (stepped a v)" using o by (cases ?p) (simp add: me_ok_def me_pose_def, simp add: stepped_def Let_def)
  then show ?thesis by (simp add: actorMoveUpdate_eq v(1))
qed

text \<open>The packets of movement.\<close>

lemma moveStart_spoke:
  assumes a: "me_ok a" and n: "net_up n" and f: "\<And>n'. net_up n' \<Longrightarrow> spoke n' (f n') Q"
  shows "spoke n (bindR (sendMoveStartPacket a n) f) Q"
  unfolding sendMoveStartPacket_def
proof (rule spoke_send [OF n clientSend_ok [OF n]])
  show "acceptable (enc 2 MOVE_START @ concat [enc 8 (acCharacterID a), encF (acX a), encF (acY a), enc 1 (acDirection a), encF (acSpeed a)])"
    using a me_okD(2) [OF a]
    by (simp add: acceptable_eq fS_def dec_small packet_defs kTableSize_def movement_ok_def fPos_def fF_def me_ok_def me_pose_def
        dec_dir del: enc.simps)
qed (use f in \<open>simp_all del: enc.simps\<close>)

lemma moveStop_spoke:
  assumes a: "me_ok a" and n: "net_up n" and f: "\<And>n'. net_up n' \<Longrightarrow> spoke n' (f n') Q"
  shows "spoke n (bindR (sendMoveStopPacket a n) f) Q"
  unfolding sendMoveStopPacket_def
proof (rule spoke_send [OF n clientSend_ok [OF n]])
  show "acceptable (enc 2 MOVE_STOP @ concat [enc 8 (acCharacterID a), encF (acX a), encF (acY a), enc 1 (acDirection a)])"
    using a me_okD(2) [OF a]
    by (simp add: acceptable_eq fS_def dec_small packet_defs kTableSize_def movement_ok_def fPos_def fF_def me_ok_def me_pose_def
        dec_dir del: enc.simps)
qed (use f in \<open>simp_all del: enc.simps\<close>)

subsection \<open>The keys\<close>

lemma inputDirection_ok: "dir_ok d \<Longrightarrow> dir_ok (snd (inputDirection ks d))"
  by (auto simp: inputDirection_def Let_def dir_ok_def)

lemma me_update:
  "me_ok a \<Longrightarrow> dir_ok d \<Longrightarrow> me_ok (a\<lparr>acDirection := d, acState := st\<rparr>)"
  "me_ok a \<Longrightarrow> me_ok (a\<lparr>acState := st\<rparr>)"
  "me_ok a \<Longrightarrow> me_ok (a\<lparr>acMoveFrame := j, acStartX := acX a, acStartY := acY a\<rparr>)"
  "me_ok a \<Longrightarrow> me_ok (a\<lparr>acState := st, acBMove := False, acMoveFrame := j, acStartX := acX a, acStartY := acY a\<rparr>)"
  "me_ok a \<Longrightarrow> me_ok (a\<lparr>acAttackFrame := j\<rparr>)" "me_ok a \<Longrightarrow> me_ok (a\<lparr>acHitTimer := j\<rparr>)"
  by (simp_all add: me_ok_def me_pose_def figure_ok_def)

lemma change_spoke:
  assumes "me_ok a" "net_up n" and f: "\<And>b. me_ok b \<Longrightarrow> spoke n (f b) Q"
  shows "spoke n (bindR (changeAnimation (acDirection a) st j a) f) Q"
  using me_change [OF assms(1), of st j] f by auto

lemma inputFunction_spoke:
  assumes a: "me_ok a" and n: "net_up n"
  shows "spoke n (inputFunction ks (a, n)) me_ok"
proof -
  obtain bMove dir where io: "inputDirection ks (acDirection a) = (bMove, dir)" by (meson surj_pair)
  have d: "dir_ok dir" using inputDirection_ok [OF me_okD(2) [OF a], of ks] io by simp
  define a1 where "a1 = a\<lparr>acDirection := dir, acState := (if bMove then AMove else AIdle)\<rparr>"
  define a2 where "a2 = a1\<lparr>acMoveFrame := 0, acStartX := acX a1, acStartY := acY a1\<rparr>"
  have o1: "me_ok a1" unfolding a1_def by (rule me_update(1) [OF a d])
  have o2: "me_ok a2" unfolding a2_def by (rule me_update(3) [OF o1])
  note o = o1 o2
  have ch: "spoke m (bindR (changeAnimation (acDirection a2) (acState a2) 0 a2) (\<lambda>a. Inr (a, m))) me_ok" if "net_up m" for m
    using o(2) that by (intro change_spoke) (auto intro: spoke_Inr)
  show ?thesis unfolding inputFunction_def prod.case io Let_def a1_def [symmetric] a2_def [symmetric]
  proof (rule spoke_bind [where P = me_ok])
    show "spoke n (if acState a1 \<noteq> acState a
        then bindR (if acState a2 = AMove then sendMoveStartPacket a2 n else sendMoveStopPacket a2 n)
          (\<lambda>n. bindR (changeAnimation (acDirection a2) (acState a2) 0 a2) (\<lambda>a. Inr (a, n)))
        else if acDirection a1 \<noteq> acDirection a \<and> bMove
        then bindR (sendMoveStopPacket a2 n) (\<lambda>n. bindR (sendMoveStartPacket a2 n)
          (\<lambda>n. bindR (changeAnimation (acDirection a2) (acState a2) 0 a2) (\<lambda>a. Inr (a, n))))
        else Inr (a1, n)) me_ok"
      using o n ch by (auto intro!: moveStart_spoke moveStop_spoke intro: spoke_Inr)
    show "spoke n' (case (x, n') of (a, n) \<Rightarrow> if bMove then bindR (actorMoveUpdate a) (\<lambda>a. Inr (a, n))
        else Inr (a\<lparr>acState := AIdle, acBMove := False, acMoveFrame := 0, acStartX := acX a, acStartY := acY a\<rparr>, n)) me_ok"
      if "me_ok x" for x n'
      using me_step [OF that] me_update(4) [OF that] by (auto intro: spoke_Inr)
  qed (rule n)
qed

lemma playerActorUpdate_spoke:
  assumes a: "me_ok a" and n: "net_up n"
  shows "spoke n (playerActorUpdate ks (a, n)) me_ok"
proof -
  obtain a1 where a1: "runSprite a = Inr a1" "pose a1 = pose a" "figure_ok a1"
    using runSprite_ok [OF me_okD(1) [OF a]] by blast
  have o: "me_ok a1" using a a1(3) me_pose_pose [OF a1(2)] by (simp add: me_ok_def)
  have tail: "spoke n (bindR (changeAnimation (acDirection b) st j b) (\<lambda>a. Inr (a, n))) me_ok" if "me_ok b" for b st j
    using that n by (intro change_spoke) (auto intro: spoke_Inr)
  have at: "me_ok (a1\<lparr>acAttackFrame := i\<rparr>)" "me_ok (a1\<lparr>acAttackFrame := i, acState := st\<rparr>)"
    "me_ok (a1\<lparr>acHitTimer := i\<rparr>)" "me_ok (a1\<lparr>acHitTimer := i, acState := st\<rparr>)" for i st
    using o by (simp_all add: me_ok_def me_pose_def figure_ok_def)
  note f = playerActorUpdate_def prod.case a1(1) bindR_simps Let_def
  have idle: "spoke n (if c then bindR (changeAnimation (acDirection b) (acState b) 0 b) (\<lambda>a. Inr (a, n)) else Inr (x, n)) me_ok"
    if "me_ok b" "me_ok x" for c b x using tail [OF that(1)] spoke_Inr [of me_ok, OF that(2)] by simp
  show ?thesis
  proof (cases "acState a1")
    case AAttack
    then show ?thesis unfolding f AAttack eActorState.case by (intro idle at)
  next
    case AStun
    then show ?thesis unfolding f AStun eActorState.case by (intro idle at)
  qed (simp_all only: f eActorState.case inputFunction_spoke [OF o n] spoke_Inr [of me_ok, OF o])
qed

lemma changeAnimation_pose:
  assumes "changeAnimation d st n a = Inr b"
  shows "pose b = pose a"
proof (cases "acSprite a")
  case (Some sd)
  obtain st0 d0 where sd: "sd = (st0, d0)" by (cases sd)
  obtain an where an: "sprite st0 d0 a = Inr an"
    using assms by (cases "sprite st0 d0 a") (simp_all add: changeAnimation_def Some sd)
  define a1 where "a1 = putSprite st0 d0 (Initialize an) a"
  obtain an1 where an1: "sprite st d a1 = Inr an1"
    using assms by (cases "sprite st d a1") (simp_all add: changeAnimation_def Some sd an Let_def flip: a1_def)
  obtain an2 where an2: "(if 0 < n then FastForward n an1 else Inr an1) = Inr an2"
    using assms by (cases "if 0 < n then FastForward n an1 else Inr an1")
      (simp_all only: changeAnimation_def Some sd an an1 Let_def option.case prod.case bindR_simps a1_def [symmetric] sum.distinct)
  have "b = (putSprite st d an2 a1)\<lparr>acSprite := Some (st, d)\<rparr>"
    using assms an2 by (simp add: changeAnimation_def Some sd an an1 Let_def assertR_Inr_iff flip: a1_def)
  then show ?thesis by (simp add: a1_def)
qed (use assms in \<open>simp add: changeAnimation_def\<close>)

subsection \<open>The scene\<close>

definition fig_ok :: "actorKind \<Rightarrow> actor \<Rightarrow> bool" where
  "fig_ok kind a \<longleftrightarrow> (if kind = FieldItemKind then item_ok a else figure_ok a \<and> acKind a = kind)"

definition table_ok :: "actorKind \<Rightarrow> (int \<times> actor) list \<Rightarrow> bool" where
  "table_ok kind t \<longleftrightarrow> distinct (map fst t) \<and> (\<forall>(k, a) \<in> set t. fig_ok kind a \<and> acCharacterID a = k)"

definition scene_ok :: "fieldScene \<Rightarrow> bool" where
  "scene_ok s \<longleftrightarrow> table_ok RemotePlayerKind (fsActors s) \<and> table_ok MonsterKind (fsMonsterActors s) \<and>
     table_ok FieldItemKind (fsItemActors s) \<and> me_ok (fsLocalPlayer s)"

lemma tickHit_keeps: "tickHit a = Inr c \<Longrightarrow> acKind c = acKind a \<and> acCharacterID c = acCharacterID a"
  by (auto simp: tickHit_def Inr_iffs split: if_splits)

lemma actorUpdate_fig:
  assumes "fig_ok kind a" "kind \<noteq> PlayerKind"
  shows "\<exists>b. actorUpdate sinf a = Inr b \<and> fig_ok kind b \<and> acCharacterID b = acCharacterID a"
proof (cases "kind = FieldItemKind")
  case True
  then have a: "item_ok a" using assms(1) by (simp add: fig_ok_def)
  obtain b where b: "runSprite a = Inr b" "item_ok b" "pose b = pose a" using runSprite_item [OF a] by blast
  have "acKind b = FieldItemKind" "acCharacterID b = acCharacterID a" using b(2) pose_eqD(2) [OF b(3)] by (simp_all add: item_ok_def)
  then show ?thesis using b True
    by (simp add: actorUpdate_def fig_ok_def item_ok_update) (simp add: itemActorUpdate_def Let_def)
next
  case False
  then have a: "figure_ok a" "acKind a = kind" using assms(1) by (simp_all add: fig_ok_def)
  have k: "acKind a = RemotePlayerKind \<or> acKind a = MonsterKind" using a(2) assms(2) False by (cases kind) simp_all
  obtain b c where b: "actorUpdate sinf a = Inr b" "figure_ok b" "tickHit a = Inr c" "pose b = pose c"
    using actorUpdate_tick [OF a(1) k] by blast
  then show ?thesis using pose_eqD(1,2) [OF b(4)] tickHit_keeps [OF b(3)] a(2) False by (simp add: fig_ok_def)
qed

lemma updateActors_ok:
  assumes "table_ok kind t" "kind \<noteq> PlayerKind"
  shows "\<exists>t'. updateActors sinf t = Inr t' \<and> table_ok kind t' \<and> map fst t' = map fst t"
proof -
  have "\<exists>t'. foldR (\<lambda>(k, a) acc. bindR (actorUpdate sinf a) (\<lambda>a. Inr (acc @ [(k, a)]))) t acc = Inr (acc @ t') \<and>
      map fst t' = map fst t \<and> (\<forall>(k, a) \<in> set t'. fig_ok kind a \<and> acCharacterID a = k)"
    if "\<forall>(k, a) \<in> set t. fig_ok kind a \<and> acCharacterID a = k" for acc
    using that
  proof (induction t arbitrary: acc)
    case (Cons ka t)
    obtain k a where ka: "ka = (k, a)" by (cases ka)
    obtain b where b: "actorUpdate sinf a = Inr b" "fig_ok kind b" "acCharacterID b = k"
      using actorUpdate_fig [OF _ assms(2), of a sinf] Cons.prems ka by auto
    obtain t' where "foldR (\<lambda>(k, a) acc. bindR (actorUpdate sinf a) (\<lambda>a. Inr (acc @ [(k, a)]))) t (acc @ [(k, b)]) = Inr ((acc @ [(k, b)]) @ t')"
        "map fst t' = map fst t" "\<forall>(k, a) \<in> set t'. fig_ok kind a \<and> acCharacterID a = k"
      using Cons.IH [of "acc @ [(k, b)]"] Cons.prems by auto
    then show ?case using b ka by (intro exI [of _ "(k, b) # t'"]) simp
  qed simp
  from this [of "[]"] show ?thesis using assms(1) by (auto simp: table_ok_def updateActors_def)
qed

text \<open>The targets of an attack: of the monsters alive and in reach, as many as the skill takes.\<close>

lemma candidates_eq:
  assumes "length cs < nat mx" "mx < 32768"
  shows "candidates x y r mx ms cs = cs @ take (nat mx - length cs)
    (map (\<lambda>(k, m). acCharacterID m) (filter (\<lambda>(k, m). IsAlive m \<and> isInAttackRange x y (acX m) (acY m) r) ms))"
  using assms
proof (induction ms arbitrary: cs)
  case (Cons km ms)
  obtain k m where km: "km = (k, m)" by (cases km)
  have w: "wrap16 (1 + int (length cs)) = 1 + int (length cs)" using Cons.prems by (intro wrap16_id) simp_all
  show ?case
  proof (cases "IsAlive m \<and> isInAttackRange x y (acX m) (acY m) r")
    case True
    show ?thesis
    proof (cases "mx \<le> 1 + int (length cs)")
      case True
      then have "nat mx - length cs = 1" using Cons.prems(1) by simp
      then show ?thesis using True \<open>IsAlive m \<and> _\<close> by (simp add: km w)
    next
      case False
      then obtain j where "nat mx - length cs = Suc j" "nat mx - length (cs @ [acCharacterID m]) = j"
        by (metis Suc_diff_Suc Cons.prems(1) length_append_singleton)
      then show ?thesis using False True Cons.IH [of "cs @ [acCharacterID m]"] Cons.prems by (simp add: km w)
    qed
  qed (use Cons in \<open>auto simp: km\<close>)
qed simp

lemma attackReq_acceptable: "length cs \<le> 1 \<Longrightarrow>
  acceptable (enc 2 PLAYER_ATTACK_REQ @ concat ([enc 1 0, enc 2 (wrap16 (int (length cs)))] @ map (enc 8) cs))"
  by (cases cs) (simp_all add: acceptable_eq fS_def dec_small packet_defs kTableSize_def wrap16_def del: enc.simps)

lemma TryAttack_spoke:
  assumes a: "me_ok a" and n: "net_up n"
  shows "\<exists>ok b. TryAttack (a, n) = Inr (ok, b, n) \<and> me_ok b \<and>
    (ok \<longleftrightarrow> 0 < acHp a \<and> acHitTimer a \<le> 0 \<and> acState a \<noteq> AAttack)"
proof -
  have a0: "me_ok (a\<lparr>acAttackFrame := 0\<rparr>)" using a by (rule me_update)
  obtain b where b: "Attack 0 (a\<lparr>acAttackFrame := 0\<rparr>) = Inr b" "pose b = pose (a\<lparr>acAttackFrame := 0, acState := AAttack\<rparr>)" "figure_ok b"
    using Attack_ok [OF me_okD(1) [OF a0], of 0] by auto
  have "me_ok (a\<lparr>acAttackFrame := 0, acState := AAttack\<rparr>)" using me_update(2) [OF a0, of AAttack] by simp
  then have "me_ok b" using b(3) me_pose_pose [OF b(2)] by (simp add: me_ok_def)
  then show ?thesis using b(1) a me_okD(3) [OF a] by (auto simp: TryAttack_def)
qed

lemma scene_ok_update:
  "scene_ok s \<Longrightarrow> me_ok a \<Longrightarrow> scene_ok (s\<lparr>fsLocalPlayer := a\<rparr>)" "scene_ok (s\<lparr>fsAttackKeyDown := b\<rparr>) = scene_ok s"
  "scene_ok (s\<lparr>fsLootKeyDown := b\<rparr>) = scene_ok s" "scene_ok (s\<lparr>fsRankingKeyDown := b\<rparr>) = scene_ok s"
  "scene_ok (hpBarUpdate (cameraUpdate s)) = scene_ok s"
  by (simp_all add: scene_ok_def hpBarUpdate_def cameraUpdate_def Let_def)

lemma updateAttackInput_spoke:
  assumes s: "scene_ok s" and n: "net_up n"
  shows "spoke n (updateAttackInput ks (s, n)) scene_ok"
proof -
  obtain ok b where b: "TryAttack (fsLocalPlayer s, n) = Inr (ok, b, n)" "me_ok b"
    using TryAttack_spoke [OF _ n] s unfolding scene_ok_def by blast
  have s1: "scene_ok (s\<lparr>fsLocalPlayer := b\<rparr>)" using s b(2) by (rule scene_ok_update)
  define cs where "cs = candidates (acX b) (acY b) (f_of_int 160) 1 (fsMonsterActors s) []"
  have l: "length cs \<le> 1" by (simp add: cs_def candidates_eq)
  have snd: "spoke n (bindR (clientSend PLAYER_ATTACK_REQ (2 + 1 + 2 + 8 * int (length cs))
      ([enc 1 0, enc 2 (wrap16 (int (length cs)))] @ map (enc 8) cs) n) (\<lambda>n. Inr (s\<lparr>fsLocalPlayer := b\<rparr>, n))) scene_ok"
  proof (rule spoke_send [OF n clientSend_ok [OF n] attackReq_acceptable [OF l]])
  qed (use l s1 in \<open>cases cs; simp_all add: spoke_Inr del: enc.simps\<close>)+
  show ?thesis unfolding updateAttackInput_def prod.case Let_def
  proof (rule spoke_bind [OF _ _ n])
    show "spoke n (if (kyForeground ks \<and> kyLButton ks) \<and> \<not> fsAttackKeyDown s
        then bindR (TryAttack (fsLocalPlayer s, n)) (\<lambda>(ok, a, n).
          if ok then (case getSkillConfig 0 of None \<Rightarrow> Inr (s\<lparr>fsLocalPlayer := a\<rparr>, n)
            | Some (rangeLen, maxTargetCnt) \<Rightarrow> bindR (clientSend PLAYER_ATTACK_REQ (2 + 1 + 2 + 8 * int (length
                (candidates (acX a) (acY a) rangeLen maxTargetCnt (fsMonsterActors (s\<lparr>fsLocalPlayer := a\<rparr>)) [])))
              ([enc 1 0, enc 2 (wrap16 (int (length (candidates (acX a) (acY a) rangeLen maxTargetCnt (fsMonsterActors (s\<lparr>fsLocalPlayer := a\<rparr>)) []))))] @
               map (enc 8) (candidates (acX a) (acY a) rangeLen maxTargetCnt (fsMonsterActors (s\<lparr>fsLocalPlayer := a\<rparr>)) [])) n)
              (\<lambda>n. Inr (s\<lparr>fsLocalPlayer := a\<rparr>, n)))
          else Inr (s\<lparr>fsLocalPlayer := a\<rparr>, n))
        else Inr (s, n)) scene_ok"
      using b(1) snd s s1 by (auto simp: getSkillConfig_def cs_def [symmetric] spoke_Inr simp del: enc.simps append_Cons)
  qed (simp add: spoke_Inr scene_ok_update)
qed

lemma updateLootInput_spoke:
  assumes s: "scene_ok s" and n: "net_up n"
  shows "spoke n (updateLootInput ks (s, n)) scene_ok"
proof -
  have acc: "acceptable (enc 2 LOOT_REQ @ concat [enc 8 k])" for k
    by (simp add: acceptable_eq fS_def dec_small packet_defs kTableSize_def del: enc.simps)
  have fin: "spoke m (Inr (s\<lparr>fsLootKeyDown := c\<rparr>, m)) scene_ok" if "net_up m" for c m
    using s by (simp add: spoke_Inr scene_ok_update)
  have req: "spoke n (bindR (clientSend LOOT_REQ (2 + 8) [enc 8 k] n) (\<lambda>n. Inr (s\<lparr>fsLootKeyDown := c\<rparr>, n))) scene_ok" for k c
    by (rule spoke_send [OF n clientSend_ok [OF n] acc fin]) (simp_all del: enc.simps)
  show ?thesis using req fin [OF n]
    by (simp add: updateLootInput_def Let_def split: option.split del: enc.simps)
qed

lemma updateRankingInput_spoke:
  assumes s: "scene_ok s" and n: "net_up n"
  shows "spoke n (updateRankingInput ks (s, n)) scene_ok"
proof -
  have acc: "acceptable (enc 2 RANKING_REQ @ concat [])"
    by (simp add: acceptable_eq fS_def dec_small packet_defs kTableSize_def del: enc.simps)
  have fin: "spoke m (Inr (s\<lparr>fsRankingKeyDown := c\<rparr>, m)) scene_ok" if "net_up m" for c m
    using s by (simp add: spoke_Inr scene_ok_update)
  have "spoke n (bindR (clientSend RANKING_REQ 2 [] n) (\<lambda>n. Inr (s\<lparr>fsRankingKeyDown := c\<rparr>, n))) scene_ok" for c
    by (rule spoke_send [OF n clientSend_ok [OF n] acc fin]) simp_all
  then show ?thesis using fin [OF n] by (simp add: updateRankingInput_def Let_def)
qed

lemma fieldSceneUpdate_spoke:
  assumes s: "scene_ok s" and n: "net_up n"
  shows "spoke n (fieldSceneUpdate sinf ks (s, n)) scene_ok"
proof -
  note t = s [unfolded scene_ok_def]
  obtain as ms ts where u: "updateActors sinf (fsActors s) = Inr as" "table_ok RemotePlayerKind as"
      "updateActors sinf (fsMonsterActors s) = Inr ms" "table_ok MonsterKind ms"
      "updateActors sinf (fsItemActors s) = Inr ts" "table_ok FieldItemKind ts"
    using updateActors_ok [of RemotePlayerKind "fsActors s" sinf] updateActors_ok [of MonsterKind "fsMonsterActors s" sinf]
      updateActors_ok [of FieldItemKind "fsItemActors s" sinf] t by auto
  have me: "spoke n (playerActorUpdate ks (fsLocalPlayer s, n)) me_ok" using playerActorUpdate_spoke [OF _ n] t by blast
  show ?thesis unfolding fieldSceneUpdate_def prod.case u(1,3,5) bindR_simps
  proof (rule spoke_bind [OF me _ n], unfold prod.case Let_def)
    fix a m assume a: "me_ok a" "net_up m"
    define s1 where "s1 = s\<lparr>fsActors := as, fsMonsterActors := ms, fsItemActors := ts, fsLocalPlayer := a\<rparr>"
    have s1: "scene_ok s1" using u(2,4,6) a(1) by (simp add: s1_def scene_ok_def)
    show "spoke m (bindR (updateAttackInput ks (s1, m)) (\<lambda>sn. bindR (updateLootInput ks sn) (\<lambda>sn.
        bindR (updateRankingInput ks sn) (\<lambda>(s, n). Inr (hpBarUpdate (cameraUpdate s), n))))) scene_ok"
    proof (rule spoke_bind [OF updateAttackInput_spoke [OF s1 a(2)] _ a(2)])
      fix s2 m2 assume 2: "scene_ok s2" "net_up m2"
      show "spoke m2 (bindR (updateLootInput ks (s2, m2)) (\<lambda>sn. bindR (updateRankingInput ks sn)
          (\<lambda>(s, n). Inr (hpBarUpdate (cameraUpdate s), n)))) scene_ok"
      proof (rule spoke_bind [OF updateLootInput_spoke [OF 2] _ 2(2)])
        fix s3 m3 assume 3: "scene_ok s3" "net_up m3"
        show "spoke m3 (bindR (updateRankingInput ks (s3, m3)) (\<lambda>(s, n). Inr (hpBarUpdate (cameraUpdate s), n))) scene_ok"
          by (rule spoke_bind [OF updateRankingInput_spoke [OF 3] _ 3(2)]) (simp add: spoke_Inr scene_ok_update)
      qed
    qed
  qed
qed

end
