(* ===== verification/ClientProps.thy ===== *)
theory ClientProps
  imports ClientPlayer AuthProps
begin

text \<open>
  The properties of the game client and of what it and the server make of each other's packets.
\<close>

subsection \<open>The stream\<close>

text \<open>
  C18. The client's receiving thread loses nothing: of a stream of framed packets of at most 6000 bytes, however
  many bytes each call of \<open>recv\<close> brings, it queues exactly these packets for the scenes, in their order, and
  leaves nothing behind in the ring.
\<close>

theorem client_stream_reassembled:
  assumes "ring_wf (ntRecvBuffer n)" "content (ntRecvBuffer n) = []"
    and ms: "\<forall>m \<in> set ms. snd m \<noteq> [] \<and> length (snd m) \<le> 6000 \<and> - 128 \<le> fst m \<and> fst m < 128"
    and "length (ntPacketQueue n) + length ms \<le> PTR_CAP" "length (concat (map frame ms)) \<le> length amts"
  shows "\<exists>q. recvAll amts (concat (map frame ms)) n =
      Inr (n\<lparr>ntRecvBuffer := q, ntPacketQueue := ntPacketQueue n @ map hearsAs ms\<rparr>) \<and> ring_wf q \<and> content q = []"
proof (rule recvAll_deframe [OF assms(1,2)])
  have "\<forall>m \<in> set ms. snd m \<noteq> [] \<and> length (snd m) < 32768 \<and> - 128 \<le> fst m \<and> fst m < 128" using ms by force
  then show "deframe ([] @ concat (map frame ms)) = (False, ms, [])" by (simp add: deframe_frames)
  show "deframe [] = (False, [], [])" by (subst deframe.simps) simp
qed (use assms in auto)

lemma client_stream_reassembled_witness:
  "\<exists>n'. recvAll (replicate 10 2) (frame (5, [1, 2, 3]) @ frame (0, [9])) (newNetwork []) = Inr n' \<and>
     map mBuf (ntPacketQueue n') = [[1, 2, 3], [9]]"
  using client_stream_reassembled [of "newNetwork []" "[(5, [1, 2, 3]), (0, [9])]" "replicate 10 2"]
  by (auto simp: newNetwork_def hearsAs_def PTR_CAP_def frame_def headerBytes_def)

subsection \<open>Walking\<close>

text \<open>
  C19. Every screen reckons like the server: when the \<open>MOVE_START\<close> that the server sends around about a player
  reaches a client that shows this player standing and unhurt, the figure is after \<open>n\<close> frames of the client
  exactly, bit for bit, where the server has the player after \<open>n\<close> of its own.
\<close>

theorem remote_reckons_like_server:
  fixes pos :: position
  assumes q: "plBConnect p" "int64 (plCharacterID p)" "dir_ok d"
    and a: "map_of (fsActors s) (plCharacterID p) = Some a" "figure_ok a" "acKind a = RemotePlayerKind" "\<not> acBMove a" "acHitTimer a \<le> 0"
    and n: "0 < n" "n < 2 ^ 31"
  defines "p1 \<equiv> moved PMove pos d p"
  shows "\<exists>p' s' a' b. foldR (\<lambda>_. update) (replicate n ()) p1 = Inr p' \<and>
    fieldScenePacketProc (payload (packet now k MOVE_START (moveBody p1 @ encF (plSpeed p1)))) s = Inr s' \<and>
    map_of (fsActors s') (plCharacterID p) = Some a' \<and>
    foldR (\<lambda>_. actorUpdate sinf) (replicate n ()) a' = Inr b \<and> acX b = posX (plPos p') \<and> acY b = posY (plPos p')"
proof -
  obtain v where v: "dirVector d = Inr v" using q(3) dirVector_ok by blast
  obtain m where m: "n = Suc m" using n(1) by (cases n) auto
  note f = moved_def p1_def
  have srv: "foldR (\<lambda>_. update) (replicate n ()) p1 = Inr (p1\<lparr>plAnimFrame := int n, plPos := moveTo pos v (plSpeed p) (int n)\<rparr>)"
    using server_walk [of p1 v m] q v n by (simp add: f m del: replicate_Suc)
  obtain a' where a': "MoveStart d (posX pos) (posY pos) (plSpeed p) a = Inr a'"
      "pose a' = pose (moving d (posX pos) (posY pos) (plSpeed p) a)" "figure_ok a'"
    using MoveStart_ok [OF a(2,4) q(3)] by blast
  note e = pose_eqD [OF a'(2)]
  have "fieldScenePacketProc (payload (packet now k MOVE_START (moveBody p1 @ encF (plSpeed p1)))) s =
      Inr (s\<lparr>fsActors := alUpd (plCharacterID p) a' (fsActors s)\<rparr>)"
    unfolding hears_any using hears_move_start [of p1 s a] a(1) a'(1) q by (simp add: f)
  moreover obtain b where "foldR (\<lambda>_. actorUpdate sinf) (replicate n ()) a' = Inr b" "pose b = pose (walked n v a')"
    using remote_walk [OF a'(3) _ _ _ _ _, of v m sinf] e a v n by (auto simp: moving_def m simp del: replicate_Suc)
  moreover have "acX (walked n v a') = posX (moveTo pos v (plSpeed p) (int n))" "acY (walked n v a') = posY (moveTo pos v (plSpeed p) (int n))"
    using e by (cases pos, simp add: walked_def moving_def Let_def)+
  ultimately show ?thesis using srv a(1) pose_eqD(10,11) [of b "walked n v a'"]
    by (auto simp: map_of_alUpd)
qed

lemma remote_reckons_like_server_witness:
  "\<exists>p' s' a' b. foldR (\<lambda>_. update) (replicate 9 ()) (moved PMove (Position (f_lit 104 1) (f_lit 100 1)) DirUpLeft (samplePlayer 2)) = Inr p' \<and>
    fieldScenePacketProc (payload (packet 1000 1 MOVE_START
      (moveBody (moved PMove (Position (f_lit 104 1) (f_lit 100 1)) DirUpLeft (samplePlayer 2)) @
       encF (plSpeed (moved PMove (Position (f_lit 104 1) (f_lit 100 1)) DirUpLeft (samplePlayer 2)))))) sampleScreen = Inr s' \<and>
    map_of (fsActors s') 102 = Some a' \<and> foldR (\<lambda>_. actorUpdate (\<lambda>x. x)) (replicate 9 ()) a' = Inr b \<and>
    acX b = posX (plPos p') \<and> acY b = posY (plPos p')"
  using remote_reckons_like_server [of "samplePlayer 2" DirUpLeft sampleScreen "sampleFigure 102" 9
      "Position (f_lit 104 1) (f_lit 100 1)" 1000 1 "\<lambda>x. x"]
  by (simp add: int64_def dir_ok_def)

subsection \<open>Frames of the field\<close>

text \<open>
  C17. While the connection takes what is sent, no frame of the client fails, whatever keys are held and for however
  many frames: no assertion, no strip of pictures that is missing, no read beyond a table. The scene stays
  well-formed, and all that is sent are whole packets, each one of the five packets of a player in the field, which
  the field takes from any of its players (\<open>field_takes\<close>): in every state of its invariant with room for one
  more job and item the handler of that type succeeds and keeps the invariant, except that a \<open>MOVE_START\<close> whose position is
  so far from where the server has the player that the account of deviations passes its limit stops the server at
  its assertion.
\<close>

theorem client_frames_safe:
  assumes "scene_ok s" "net_up n"
  shows "\<exists>s' ms. foldR (fieldSceneUpdate sinf) kss (s, n) = Inr (s', n\<lparr>ntSent := ntSent n @ map (\<lambda>m. frame (0, m)) ms\<rparr>) \<and>
    scene_ok s' \<and> (\<forall>m \<in> set ms. acceptable m \<and> field_takes m)"
proof -
  have "spoke n (foldR (fieldSceneUpdate sinf) kss (s, n)) scene_ok"
    using assms
  proof (induction kss arbitrary: s n)
    case (Cons ks kss)
    show ?case by (simp, rule spoke_bind [OF fieldSceneUpdate_spoke [OF Cons.prems] _ Cons.prems(2)]) (rule Cons.IH)
  qed (simp add: spoke_Inr)
  then show ?thesis using acceptable_taken by (auto simp: spoke_def told_def)
qed

definition sampleKeys :: keys where
  "sampleKeys = \<lparr> kyForeground = True, kyA = True, kyD = False, kyW = True, kyS = False, kyLButton = False, kyF = True, kyR = True \<rparr>"

lemma sampleScreen_ok: "scene_ok sampleScreen"
proof -
  obtain a where a: "newPlayerActor 101 (f_lit 100 1) (f_lit 100 1) = Inr a"
      "pose a = pose (playerBase 101 (f_lit 100 1) (f_lit 100 1))" "figure_ok a"
    using newPlayerActor_ok by blast
  have "in_map (Position (f_lit 100 1) (f_lit 100 1))" by code_simp
  then have "me_pose (playerBase 101 (f_lit 100 1) (f_lit 100 1))" by (simp add: me_pose_def playerBase_def newActor_def)
  then have "me_ok (fsLocalPlayer sampleScreen)"
    using a(1,3) me_pose_pose [OF a(2)] by (simp add: me_ok_def sampleScreen_def newFieldScene_def)
  then show ?thesis by (simp add: scene_ok_def table_ok_def fig_ok_def)
qed

lemma client_frames_safe_witness:
  "\<exists>s' ms. foldR (fieldSceneUpdate (\<lambda>x. x)) (replicate 9 sampleKeys) (sampleScreen, (newNetwork [])\<lparr>ntSocket := True\<rparr>) =
     Inr (s', (newNetwork [])\<lparr>ntSocket := True, ntSent := map (\<lambda>m. frame (0, m)) ms\<rparr>) \<and> (\<forall>m \<in> set ms. acceptable m \<and> field_takes m)"
  using client_frames_safe [OF sampleScreen_ok, of "(newNetwork [])\<lparr>ntSocket := True\<rparr>" "\<lambda>x. x" "replicate 9 sampleKeys"]
  by (auto simp: net_up_def newNetwork_def)

subsection \<open>The login\<close>

lemma newPlayer_scene:
  assumes "newPlayerActor k x y = Inr a" "in_map (Position x y)"
  shows "scene_ok (newFieldScene a)" "acCharacterID a = k" "acX a = x" "acY a = y"
proof -
  have a: "pose a = pose (playerBase k x y)" "figure_ok a" using newPlayerActor_ok [of k x y] assms(1) by auto
  have "me_pose (playerBase k x y)" using assms(2) by (simp add: me_pose_def playerBase_def newActor_def)
  then show "scene_ok (newFieldScene a)"
    using a(2) me_pose_pose [OF a(1)] by (simp add: scene_ok_def table_ok_def newFieldScene_def me_ok_def)
  show "acCharacterID a = k" "acX a = x" "acY a = y" using pose_eqD(2,10,11) [OF a(1)] by (simp_all add: playerBase_def newActor_def)
qed


subsection \<open>An attack out of a walk\<close>

text \<open>The flag that \<open>TryAttack\<close> asks before it tells the server of a stop is never set for one's own figure.\<close>

lemma own_flag_never_set:
  assumes "\<not> acBMove a" "playerActorUpdate ks (a, n) = Inr (b, n')"
  shows "\<not> acBMove b"
proof -
  obtain a1 where a1: "runSprite a = Inr a1" using assms(2) by (auto simp: playerActorUpdate_def Inr_iffs)
  then have "pose a1 = pose a" by (auto simp: runSprite_def Inr_iffs split: option.splits)
  from pose_eqD(5) [OF this] have f: "\<not> acBMove a1" using assms(1) by simp
  have ch: "acBMove y = acBMove x" if "changeAnimation d st j x = Inr y" for d st j x y
    using pose_eqD(5) [OF changeAnimation_pose [OF that]] .
  have inp: "\<not> acBMove b" if "inputFunction ks (a1, n) = Inr (b, n')"
    using that f by (auto simp: inputFunction_def Let_def Inr_iffs actorMoveUpdate_eq dest: ch split: if_splits prod.splits)
  show ?thesis using assms(2) f inp
    by (cases "acState a1") (auto simp: playerActorUpdate_def a1 Let_def Inr_iffs dest: ch split: if_splits)
qed

lemma Attack_flag: "figure_ok a \<Longrightarrow> \<exists>b. Attack n a = Inr b \<and> figure_ok b \<and> acBMove b = acBMove a"
proof -
  assume "figure_ok a"
  then obtain b where b: "Attack n a = Inr b" "pose b = pose (a\<lparr>acState := AAttack\<rparr>)" "figure_ok b" using Attack_ok [of a n] by blast
  then show ?thesis using pose_eqD(5) [OF b(2)] by simp
qed

text \<open>What another screen makes of a walk, a stop and an attack.\<close>

definition shows_fig :: "int \<Rightarrow> bool \<Rightarrow> fieldScene \<Rightarrow> bool" where
  "shows_fig k walking s \<longleftrightarrow> k \<noteq> acCharacterID (fsLocalPlayer s) \<and>
     (\<exists>f. map_of (fsActors s) k = Some f \<and> figure_ok f \<and> acBMove f = walking)"

lemma shows_fig_upd:
  "shows_fig k w s \<Longrightarrow> figure_ok g \<Longrightarrow> shows_fig k (acBMove g) (s\<lparr>fsActors := alUpd k g (fsActors s)\<rparr>)"
  by (auto simp: shows_fig_def map_of_alUpd)

lemma hears_walk:
  assumes p: "int64 (plCharacterID p)" "dir_ok (plDirection p)" and s: "shows_fig (plCharacterID p) w s"
  shows "\<not> w \<Longrightarrow> \<exists>s'. hearsPacket MOVE_START (moveBody p @ encF (plSpeed p)) s = Inr s' \<and> shows_fig (plCharacterID p) True s'"
    and "w \<Longrightarrow> hearsPacket MOVE_START (moveBody p @ encF (plSpeed p)) s = Inl DebugBreak"
proof -
  obtain f where f: "map_of (fsActors s) (plCharacterID p) = Some f" "figure_ok f" "acBMove f = w"
    using s by (auto simp: shows_fig_def)
  note h = hears_move_start [OF p f(1)]
  show "\<exists>s'. hearsPacket MOVE_START (moveBody p @ encF (plSpeed p)) s = Inr s' \<and> shows_fig (plCharacterID p) True s'" if "\<not> w"
  proof -
    have nf: "\<not> acBMove f" using f(3) that by simp
    obtain g where g: "MoveStart (plDirection p) (posX (plPos p)) (posY (plPos p)) (plSpeed p) f = Inr g" "figure_ok g"
        "pose g = pose (moving (plDirection p) (posX (plPos p)) (posY (plPos p)) (plSpeed p) f)"
      using MoveStart_ok [OF f(2) nf p(2)] by blast
    then show ?thesis using shows_fig_upd [OF s g(2)] pose_eqD(5) [OF g(3)] h by (simp add: moving_def)
  qed
  show "hearsPacket MOVE_START (moveBody p @ encF (plSpeed p)) s = Inl DebugBreak" if w
    using h f(3) that by (simp add: MoveStart_moving)
qed

lemma hears_stop:
  assumes p: "int64 (plCharacterID p)" "dir_ok (plDirection p)" and s: "shows_fig (plCharacterID p) w s"
  shows "\<exists>s'. hearsPacket MOVE_STOP (moveBody p) s = Inr s' \<and> shows_fig (plCharacterID p) False s'"
proof -
  obtain f where f: "map_of (fsActors s) (plCharacterID p) = Some f" "figure_ok f" "plCharacterID p \<noteq> acCharacterID (fsLocalPlayer s)"
    using s by (auto simp: shows_fig_def)
  obtain g where g: "MoveStop (plDirection p) (posX (plPos p)) (posY (plPos p)) f = Inr g" "figure_ok g"
      "pose g = pose (standing (plDirection p) (posX (plPos p)) (posY (plPos p)) f)"
    using MoveStop_ok [OF f(2) p(2)] by blast
  then show ?thesis using hears_move_stop [OF p f(1,3)] shows_fig_upd [OF s g(2)] pose_eqD(5) [OF g(3)]
    by (simp add: standing_def)
qed

lemma hears_strike:
  assumes k: "int64 k" and s: "shows_fig k w s"
  shows "\<exists>s'. hearsPacket OTHER_CHARACTER_ATTACK (enc 8 k) s = Inr s' \<and> shows_fig k w s'"
proof -
  obtain f where f: "map_of (fsActors s) k = Some f" "figure_ok f" "acBMove f = w" using s by (auto simp: shows_fig_def)
  obtain g where g: "Attack 0 f = Inr g" "figure_ok g" "acBMove g = acBMove f" using Attack_flag [OF f(2)] by blast
  then show ?thesis using hears_attack [OF k f(1)] shows_fig_upd [OF s g(2)] f(3) by simp
qed

text \<open>
  C21. A player that attacks out of a walk breaks the clients that watch it: its own client sends the attack and
  nothing about the walk that ends (the flag that it asks is never set), the server passes on the attack alone, and
  the next \<open>MOVE_START\<close> of this player finds its figure on the other screens still walking and runs into the
  assertion of \<open>Actor::MoveStart\<close>. With the \<open>MOVE_STOP\<close> in between all would be well.
\<close>

theorem walking_attack_breaks_watchers:
  fixes now j :: int
  assumes own: "me_ok a" "acState a = AMove" "0 < acHp a" "acHitTimer a \<le> 0"
    and s: "shows_fig (plCharacterID p) False s" and p: "int64 (plCharacterID p)" "dir_ok (plDirection p)"
    and p': "plCharacterID p' = plCharacterID p" "dir_ok (plDirection p')"
  defines "start \<equiv> payload (packet now j MOVE_START (moveBody p @ encF (plSpeed p)))"
    and "stop \<equiv> payload (packet now j MOVE_STOP (moveBody p))"
    and "strike \<equiv> payload (packet now j OTHER_CHARACTER_ATTACK (enc 8 (plCharacterID p)))"
    and "again \<equiv> payload (packet now j MOVE_START (moveBody p' @ encF (plSpeed p')))"
  shows "(\<exists>b. TryAttack (a, n) = Inr (True, b, n)) \<and>
    foldR fieldScenePacketProc [start, strike, again] s = Inl DebugBreak \<and>
    (\<exists>s'. foldR fieldScenePacketProc [start, stop, strike, again] s = Inr s')"
proof -
  note defs = start_def stop_def strike_def again_def hears_any
  obtain b where b: "Attack 0 (a\<lparr>acAttackFrame := 0\<rparr>) = Inr b"
    using Attack_ok [OF me_okD(1) [OF me_update(5) [OF own(1), of 0]], of 0] by auto
  obtain s1 where s1: "fieldScenePacketProc start s = Inr s1" "shows_fig (plCharacterID p) True s1"
    using hears_walk(1) [OF p s] by (auto simp: defs)
  obtain s2 where s2: "fieldScenePacketProc strike s1 = Inr s2" "shows_fig (plCharacterID p) True s2"
    using hears_strike [OF p(1) s1(2)] by (auto simp: defs)
  obtain t1 where t1: "fieldScenePacketProc stop s1 = Inr t1" "shows_fig (plCharacterID p) False t1"
    using hears_stop [OF p s1(2)] by (auto simp: defs)
  obtain t2 where t2: "fieldScenePacketProc strike t1 = Inr t2" "shows_fig (plCharacterID p) False t2"
    using hears_strike [OF p(1) t1(2)] by (auto simp: defs)
  have "fieldScenePacketProc again s2 = Inl DebugBreak" "\<exists>t3. fieldScenePacketProc again t2 = Inr t3"
    using hears_walk(2) [of p' True s2] hears_walk(1) [of p' False t2] p p' s2(2) t2(2) by (auto simp: defs)
  then show ?thesis using b own me_okD(3) [OF own(1)] s1(1) s2(1) t1(1) t2(1) by (auto simp: TryAttack_def)
qed

lemma walking_attack_breaks_watchers_witness:
  "\<exists>b. TryAttack ((fsLocalPlayer sampleScreen)\<lparr>acState := AMove\<rparr>, newNetwork []) = Inr (True, b, newNetwork []) \<and>
    foldR fieldScenePacketProc [payload (packet 0 1 MOVE_START (moveBody (samplePlayer 2) @ encF (plSpeed (samplePlayer 2)))),
      payload (packet 0 1 OTHER_CHARACTER_ATTACK (enc 8 102)),
      payload (packet 0 1 MOVE_START (moveBody (samplePlayer 2) @ encF (plSpeed (samplePlayer 2))))] sampleScreen = Inl DebugBreak"
proof -
  have me: "me_ok ((fsLocalPlayer sampleScreen)\<lparr>acState := AMove\<rparr>)"
    using sampleScreen_ok by (intro me_update) (simp add: scene_ok_def)
  have "acHitTimer (fsLocalPlayer sampleScreen) = 0"
  proof -
    obtain a where a: "newPlayerActor 101 (f_lit 100 1) (f_lit 100 1) = Inr a"
        "pose a = pose (playerBase 101 (f_lit 100 1) (f_lit 100 1))" using newPlayerActor_ok by blast
    then show ?thesis using pose_eqD(16) [OF a(2)] by (simp add: sampleScreen_def newFieldScene_def playerBase_def newActor_def)
  qed
  moreover have "shows_fig 102 False sampleScreen" using sampleScreen_player by (auto simp: shows_fig_def)
  ultimately show ?thesis
    using walking_attack_breaks_watchers [OF me, of "samplePlayer 2" sampleScreen "samplePlayer 2" "newNetwork []" 0 1] sampleScreen_player
      samplePlayer_good [of 2]
    by (auto simp: int64_def player_good_def player_wf_def player_placed_def)
qed


end
