(* ===== verification/ClientSight.thy ===== *)
theory ClientSight
  imports ClientPlayer
begin

text \<open>
  What a screen shows and what the server has in sight: how the packets about comers and goers change the tables of
  a screen.
\<close>

subsection \<open>Tables\<close>

abbreviation keysOf :: "(int \<times> actor) list \<Rightarrow> int set" where "keysOf t \<equiv> fst ` set t"

lemma keys_zip: "length as = length xs \<Longrightarrow> keysOf (zip (map kf xs) as) = kf ` set xs"
  by (metis length_map list.set_map map_fst_zip)

lemma table_append:
  assumes t: "table_ok kind t" and as: "list_all2 (\<lambda>x a. fig_ok kind a \<and> acCharacterID a = kf x) xs as"
    and d: "distinct (map kf xs)" "\<forall>x \<in> set xs. kf x \<notin> keysOf t"
  shows "table_ok kind (t @ zip (map kf xs) as)" "keysOf (t @ zip (map kf xs) as) = keysOf t \<union> kf ` set xs"
proof -
  have l: "length as = length xs" using as by (simp add: list_all2_lengthD)
  have z: "map fst (zip (map kf xs) as) = map kf xs" using l by simp
  have "fig_ok kind a \<and> acCharacterID a = k" if "(k, a) \<in> set (zip (map kf xs) as)" for k a
    using that as by (auto simp: in_set_zip list_all2_conv_all_nth)
  moreover have ks: "keysOf (zip (map kf xs) as) = kf ` set xs" using l by (rule keys_zip)
  moreover have "set (map fst t) \<inter> set (map kf xs) = {}" using d(2) by (simp only: set_map disjoint_iff) blast
  ultimately show "table_ok kind (t @ zip (map kf xs) as)"
    using t d(1) unfolding table_ok_def map_append z distinct_append by (auto simp del: set_map)
  show "keysOf (t @ zip (map kf xs) as) = keysOf t \<union> kf ` set xs" using ks by (simp add: image_Un)
qed

lemma table_del:
  "table_ok kind t \<Longrightarrow> table_ok kind (alDel k t)" "keysOf (alDel k t) = keysOf t - {k}"
proof -
  show "keysOf (alDel k t) = keysOf t - {k}"
    using arg_cong [OF delete_keys [of k t], of set] by simp
  show "table_ok kind (alDel k t)" if "table_ok kind t"
    using that by (auto simp: table_ok_def AList.delete_eq distinct_delete [unfolded AList.delete_eq])
qed

lemma chunksOf_map: "0 < n \<Longrightarrow> chunksOf n (map f xs) = map (map f) (chunksOf n xs)"
proof (induction n xs rule: chunksOf.induct)
  case (1 n xs)
  then show ?case by (cases "xs = []") (simp_all add: chunksOf.simps [of n "map f xs"] chunksOf.simps [of n xs] take_map drop_map)
qed

subsection \<open>Batches\<close>

context record_reader begin

lemma batches_read:
  assumes "\<forall>ys \<in> set yss. length ys < 32768" "\<forall>x \<in> set (concat yss). fit x" "distinct (map key (concat yss))"
    "\<forall>x \<in> set (concat yss). key x \<notin> fst ` set (tab s)"
  shows "\<exists>as. foldR (\<lambda>ys. onBatch read (opened (enc 2 (int (length ys)) @ concat (map bytes ys)) t)) yss s =
      Inr (setTab (tab s @ zip (map key (concat yss)) as) s) \<and> list_all2 good (concat yss) as"
  using assms
proof (induction yss arbitrary: s)
  case Nil
  then show ?case by (simp add: tab_set)
next
  case (Cons ys yss)
  obtain as where as: "onBatch read (opened (enc 2 (int (length ys)) @ concat (map bytes ys)) t) s = Inr (setTab (tab s @ zip (map key ys) as) s)"
      "length as = length ys" "list_all2 good ys as"
    using batch_read [where msg = "opened (enc 2 (int (length ys)) @ concat (map bytes ys)) t" and xs = ys and s = s]
      Cons.prems by auto
  define s1 where "s1 = setTab (tab s @ zip (map key ys) as) s"
  have "fst ` set (tab s1) = fst ` set (tab s) \<union> key ` set ys"
    using keys_zip [OF as(2), of key] by (simp add: s1_def tab_set image_Un)
  moreover have "key x \<notin> key ` set ys" if "x \<in> set (concat yss)" for x
    using Cons.prems(3) imageI [OF that, of key] by (simp only: concat.simps map_append distinct_append set_map) blast
  ultimately have "\<forall>x \<in> set (concat yss). key x \<notin> fst ` set (tab s1)" using Cons.prems(4) by auto
  then obtain bs where "foldR (\<lambda>ys. onBatch read (opened (enc 2 (int (length ys)) @ concat (map bytes ys)) t)) yss s1 =
      Inr (setTab (tab s1 @ zip (map key (concat yss)) bs) s1)" "list_all2 good (concat yss) bs"
    using Cons.IH [of s1] Cons.prems by auto
  then show ?case using as
    by (intro exI [of _ "as @ bs"]) (auto simp: s1_def tab_set zip_append1 list_all2_appendI)
qed

end

subsection \<open>A screen and its keys\<close>

text \<open>What is shown, by number: players, monsters, items.\<close>

definition screen :: "fieldScene \<Rightarrow> int set \<times> int set \<times> int set" where
  "screen c = (keysOf (fsActors c), keysOf (fsMonsterActors c), keysOf (fsItemActors c))"

definition hearsAll :: "message list \<Rightarrow> fieldScene \<Rightarrow> fieldScene res" where
  "hearsAll ms = foldR fieldScenePacketProc (map payload ms)"

text \<open>\<open>turns c ms v\<close>: the packets \<open>ms\<close> turn the screen \<open>c\<close> into one that shows \<open>v\<close>, of the same player.\<close>

definition turns :: "fieldScene \<Rightarrow> message list \<Rightarrow> int set \<times> int set \<times> int set \<Rightarrow> bool" where
  "turns c ms v \<longleftrightarrow> (\<exists>c'. hearsAll ms c = Inr c' \<and> scene_ok c' \<and> fsLocalPlayer c' = fsLocalPlayer c \<and> screen c' = v)"

lemma hearsAll_append: "hearsAll (ms @ ns) c = bindR (hearsAll ms c) (hearsAll ns)"
  by (simp add: hearsAll_def foldR_append)

lemma turns_Nil: "scene_ok c \<Longrightarrow> turns c [] (screen c)"
  by (simp add: turns_def hearsAll_def)

lemma turns_append:
  assumes "turns c ms v" "\<And>c'. scene_ok c' \<Longrightarrow> screen c' = v \<Longrightarrow> turns c' ns w"
  shows "turns c (ms @ ns) w"
proof -
  obtain c' where c': "hearsAll ms c = Inr c'" "scene_ok c'" "fsLocalPlayer c' = fsLocalPlayer c" "screen c' = v"
    using assms(1) by (auto simp: turns_def)
  then show ?thesis using assms(2) [OF c'(2,4)] by (auto simp: turns_def hearsAll_append)
qed

subsection \<open>Comers\<close>

lemma shown_fields:
  "acKind (shownPlayer p) = RemotePlayerKind" "acCharacterID (shownPlayer p) = plCharacterID p"
  "acKind (shownMonster m) = MonsterKind" "acCharacterID (shownMonster m) = mnMonsterID m"
  "acCharacterID (shownItem it) = itItemUniqueId it"
  by (cases "plState p"; simp add: shownPlayer_def remoteBase_def newActor_def moving_def hurt_def Let_def)+
    (simp_all add: shownMonster_def monsterBase_def newActor_def moving_def hurt_def shownItem_def itemBase_def Let_def)

lemma shown_good:
  "pose a = pose (shownPlayer p) \<and> figure_ok a \<Longrightarrow> fig_ok RemotePlayerKind a \<and> acCharacterID a = plCharacterID p"
  "pose a = pose (shownMonster m) \<and> figure_ok a \<Longrightarrow> fig_ok MonsterKind a \<and> acCharacterID a = mnMonsterID m"
  "pose a = pose (shownItem it) \<and> item_ok a \<Longrightarrow> fig_ok FieldItemKind a \<and> acCharacterID a = itItemUniqueId it"
  using pose_eqD(1,2) [of a "shownPlayer p"] pose_eqD(1,2) [of a "shownMonster m"] pose_eqD(1,2) [of a "shownItem it"]
  by (auto simp: fig_ok_def shown_fields)

lemma batch_turns:
  assumes "\<And>ys s. hearsPacket t (batchBody (map F ys)) s = onBatch rd (opened (enc 2 (int (length ys)) @ concat (map (\<lambda>x. concat (F x)) ys)) t) s"
    and "0 < n" and "foldR (\<lambda>ys. onBatch rd (opened (enc 2 (int (length ys)) @ concat (map (\<lambda>x. concat (F x)) ys)) t)) (chunksOf n xs) c = r"
  shows "hearsAll (map snd (batchPackets now k t (chunksOf n (map F xs)))) c = r"
proof -
  have "hearsAll (map snd (batchPackets now k t (map (map F) yss))) c =
      foldR (\<lambda>ys. onBatch rd (opened (enc 2 (int (length ys)) @ concat (map (\<lambda>x. concat (F x)) ys)) t)) yss c" for yss c
  proof (induction yss arbitrary: c)
    case (Cons ys yss)
    have "(\<lambda>c. hearsAll (map snd (batchPackets now k t (map (map F) yss))) c) =
        foldR (\<lambda>ys. onBatch rd (opened (enc 2 (int (length ys)) @ concat (map (\<lambda>x. concat (F x)) ys)) t)) yss"
      using Cons.IH by (simp add: fun_eq_iff)
    then show ?case using assms(1) [of ys c] by (simp add: hearsAll_def hears_any)
  qed (simp add: hearsAll_def)
  then show ?thesis using assms(2,3) by (simp add: chunksOf_map)
qed

lemma batchBody_map: "batchBody (map F ys) = enc 2 (int (length ys)) @ concat (map (\<lambda>x. concat (F x)) ys)"
  by (simp add: batchBody_def comp_def)

lemma chunks_small: "\<forall>ys \<in> set (chunksOf n xs). length ys < 32768" if "0 < n" "n < 32768"
  using length_chunksOf [OF that(1)] that(2) by fastforce

lemma players_come:
  assumes c: "scene_ok c" and ps: "\<forall>p \<in> set ps. player_fit p" "distinct (map plCharacterID ps)"
    "\<forall>p \<in> set ps. plCharacterID p \<notin> fst (screen c)"
  shows "turns c (map snd (batchPackets now k OTHER_CHARACTER_SPAWN_BATCH (chunksOf 127 (map spawnFields ps))))
    (fst (screen c) \<union> plCharacterID ` set ps, snd (screen c))"
proof -
  have cc: "concat (chunksOf 127 ps) = ps" by (simp add: concat_chunksOf)
  obtain as where as: "foldR (\<lambda>ys. onBatch spawnOther (opened (enc 2 (int (length ys)) @ concat (map (\<lambda>p. concat (spawnFields p)) ys))
      OTHER_CHARACTER_SPAWN_BATCH)) (chunksOf 127 ps) c = Inr (c\<lparr>fsActors := fsActors c @ zip (map plCharacterID ps) as\<rparr>)"
      "list_all2 (\<lambda>p a. pose a = pose (shownPlayer p) \<and> figure_ok a) ps as"
    using read_players.batches_read [OF chunks_small, of 127 ps c OTHER_CHARACTER_SPAWN_BATCH] ps
    unfolding cc screen_def fst_conv by auto
  have "hearsAll (map snd (batchPackets now k OTHER_CHARACTER_SPAWN_BATCH (chunksOf 127 (map spawnFields ps)))) c =
      Inr (c\<lparr>fsActors := fsActors c @ zip (map plCharacterID ps) as\<rparr>)"
    by (rule batch_turns [OF _ _ as(1)]) (simp_all add: hearsPacket_eq onOtherCharacterSpawnBatch_def batchBody_map)
  moreover have "list_all2 (\<lambda>p a. fig_ok RemotePlayerKind a \<and> acCharacterID a = plCharacterID p) ps as"
    using as(2) by (rule list_all2_mono) (rule shown_good)
  note app = table_append [OF _ this ps(2), of "fsActors c"]
  ultimately show ?thesis using c app ps(3) by (auto simp: turns_def screen_def scene_ok_def)
qed

lemma monsters_come:
  assumes c: "scene_ok c" and ms: "\<forall>m \<in> set ms. monster_fit m" "distinct (map mnMonsterID ms)"
    "\<forall>m \<in> set ms. mnMonsterID m \<notin> fst (snd (screen c))"
  shows "turns c (map snd (batchPackets now k MONSTER_SPAWN_BATCH (chunksOf 221 (map monsterFields ms))))
    (fst (screen c), fst (snd (screen c)) \<union> mnMonsterID ` set ms, snd (snd (screen c)))"
proof -
  have cc: "concat (chunksOf 221 ms) = ms" by (simp add: concat_chunksOf)
  obtain as where as: "foldR (\<lambda>ys. onBatch spawnMonsterActor (opened (enc 2 (int (length ys)) @ concat (map (\<lambda>m. concat (monsterFields m)) ys))
      MONSTER_SPAWN_BATCH)) (chunksOf 221 ms) c = Inr (c\<lparr>fsMonsterActors := fsMonsterActors c @ zip (map mnMonsterID ms) as\<rparr>)"
      "list_all2 (\<lambda>m a. pose a = pose (shownMonster m) \<and> figure_ok a) ms as"
    using read_monsters.batches_read [OF chunks_small, of 221 ms c MONSTER_SPAWN_BATCH] ms
    unfolding cc screen_def fst_conv snd_conv by auto
  have "hearsAll (map snd (batchPackets now k MONSTER_SPAWN_BATCH (chunksOf 221 (map monsterFields ms)))) c =
      Inr (c\<lparr>fsMonsterActors := fsMonsterActors c @ zip (map mnMonsterID ms) as\<rparr>)"
    by (rule batch_turns [OF _ _ as(1)]) (simp_all add: hearsPacket_eq onMonsterSpawnBatch_def batchBody_map)
  moreover have "list_all2 (\<lambda>m a. fig_ok MonsterKind a \<and> acCharacterID a = mnMonsterID m) ms as"
    using as(2) by (rule list_all2_mono) (rule shown_good)
  note app = table_append [OF _ this ms(2), of "fsMonsterActors c"]
  ultimately show ?thesis using c app ms(3) by (auto simp: turns_def screen_def scene_ok_def)
qed

lemma items_come:
  assumes c: "scene_ok c" and ts: "\<forall>it \<in> set ts. int64 (itItemUniqueId it)" "distinct (map itItemUniqueId ts)"
    "\<forall>it \<in> set ts. itItemUniqueId it \<notin> snd (snd (screen c))"
  shows "turns c (map snd (batchPackets now k ITEM_SPAWN_BATCH (chunksOf 352 (map itemFields ts))))
    (fst (screen c), fst (snd (screen c)), snd (snd (screen c)) \<union> itItemUniqueId ` set ts)"
proof -
  have cc: "concat (chunksOf 352 ts) = ts" by (simp add: concat_chunksOf)
  obtain as where as: "foldR (\<lambda>ys. onBatch spawnItem (opened (enc 2 (int (length ys)) @ concat (map (\<lambda>it. concat (itemFields it)) ys))
      ITEM_SPAWN_BATCH)) (chunksOf 352 ts) c = Inr (c\<lparr>fsItemActors := fsItemActors c @ zip (map itItemUniqueId ts) as\<rparr>)"
      "list_all2 (\<lambda>it a. pose a = pose (shownItem it) \<and> item_ok a) ts as"
    using read_items.batches_read [OF chunks_small, of 352 ts c ITEM_SPAWN_BATCH] ts
    unfolding cc screen_def fst_conv snd_conv by auto
  have "hearsAll (map snd (batchPackets now k ITEM_SPAWN_BATCH (chunksOf 352 (map itemFields ts)))) c =
      Inr (c\<lparr>fsItemActors := fsItemActors c @ zip (map itItemUniqueId ts) as\<rparr>)"
    by (rule batch_turns [OF _ _ as(1)]) (simp_all add: hearsPacket_eq onItemSpawnBatch_def batchBody_map)
  moreover have "list_all2 (\<lambda>it a. fig_ok FieldItemKind a \<and> acCharacterID a = itItemUniqueId it) ts as"
    using as(2) by (rule list_all2_mono) (rule shown_good)
  note app = table_append [OF _ this ts(2), of "fsItemActors c"]
  ultimately show ?thesis using c app ts(3) by (auto simp: turns_def screen_def scene_ok_def)
qed

lemma player_comes:
  assumes c: "scene_ok c" and p: "player_fit p" "plCharacterID p \<notin> fst (screen c)"
  shows "turns c [packet now k OTHER_CHARACTER_SPAWN (spawnBody p)] (insert (plCharacterID p) (fst (screen c)), snd (screen c))"
proof -
  obtain a where a: "onSingle spawnOther (opened (spawnBody p) OTHER_CHARACTER_SPAWN) c = Inr (c\<lparr>fsActors := fsActors c @ [(plCharacterID p, a)]\<rparr>)"
      "pose a = pose (shownPlayer p) \<and> figure_ok a"
    using read_players.single_read [where msg = "opened (spawnBody p) OTHER_CHARACTER_SPAWN" and x = p and s = c] p
    by (auto simp: spawnBody_def screen_def)
  have "hearsAll [packet now k OTHER_CHARACTER_SPAWN (spawnBody p)] c = Inr (c\<lparr>fsActors := fsActors c @ [(plCharacterID p, a)]\<rparr>)"
    using a(1) by (simp add: hearsAll_def hears_any hearsPacket_eq onOtherCharacterSpawn_def)
  moreover have "table_ok RemotePlayerKind (fsActors c @ [(plCharacterID p, a)])"
    using c p(2) shown_good(1) [OF a(2)] by (auto simp: scene_ok_def table_ok_def screen_def)
  ultimately show ?thesis using c by (auto simp: turns_def screen_def scene_ok_def)
qed

subsection \<open>Goers\<close>

lemma one_goes:
  assumes c: "scene_ok c" and k: "int64 x"
  shows "turns c [packet now k CHARACTER_DESPAWN (enc 8 x)] (fst (screen c) - {x}, snd (screen c))"
    "turns c [packet now k MONSTER_DESPAWN (enc 8 x)] (fst (screen c), fst (snd (screen c)) - {x}, snd (snd (screen c)))"
    "turns c [packet now k ITEM_DESPAWN (enc 8 x)] (fst (screen c), fst (snd (screen c)), snd (snd (screen c)) - {x})"
  using c table_del hears_despawn [OF k]
  by (simp_all add: turns_def hearsAll_def hears_any screen_def scene_ok_def del: enc.simps)

lemma all_go:
  assumes one: "\<And>c x. scene_ok c \<Longrightarrow> int64 x \<Longrightarrow> turns c [pk x] (f (screen c) {x})"
    and f: "\<And>v X Y. f (f v X) Y = f v (X \<union> Y)" "\<And>v. f v {} = v"
    and "scene_ok c" "\<forall>x \<in> set xs. int64 x"
  shows "turns c (map pk xs) (f (screen c) (set xs))"
  using assms(4,5)
proof (induction xs arbitrary: c)
  case Nil
  then show ?case by (simp add: f turns_Nil)
next
  case (Cons x xs)
  have "turns c ([pk x] @ map pk xs) (f (screen c) (set (x # xs)))"
  proof (rule turns_append [OF one])
    show "turns c' (map pk xs) (f (screen c) (set (x # xs)))" if "scene_ok c'" "screen c' = f (screen c) {x}" for c'
      using Cons.IH [OF that(1)] Cons.prems(2) that(2) by (simp add: f)
  qed (use Cons.prems in auto)
  then show ?case by simp
qed

lemma players_go:
  "scene_ok c \<Longrightarrow> \<forall>x \<in> set xs. int64 x \<Longrightarrow>
   turns c (map (\<lambda>x. packet now k CHARACTER_DESPAWN (enc 8 x)) xs) (fst (screen c) - set xs, snd (screen c))"
  by (rule all_go [where f = "\<lambda>v X. (fst v - X, snd v)"]) (auto simp: one_goes simp del: enc.simps)

lemma monsters_go:
  "scene_ok c \<Longrightarrow> \<forall>x \<in> set xs. int64 x \<Longrightarrow>
   turns c (map (\<lambda>x. packet now k MONSTER_DESPAWN (enc 8 x)) xs) (fst (screen c), fst (snd (screen c)) - set xs, snd (snd (screen c)))"
  by (rule all_go [where f = "\<lambda>v X. (fst v, fst (snd v) - X, snd (snd v))"]) (auto simp: one_goes simp del: enc.simps)

lemma items_go:
  "scene_ok c \<Longrightarrow> \<forall>x \<in> set xs. int64 x \<Longrightarrow>
   turns c (map (\<lambda>x. packet now k ITEM_DESPAWN (enc 8 x)) xs) (fst (screen c), fst (snd (screen c)), snd (snd (screen c)) - set xs)"
  by (rule all_go [where f = "\<lambda>v X. (fst v, fst (snd v), snd (snd v) - X)"]) (auto simp: one_goes simp del: enc.simps)

end
