(* ===== verification/ClientCross.thy ===== *)
theory ClientCross
  imports ClientSight ClientProps SightProps
begin

text \<open>
  When a player changes sectors, the packets of the server keep every screen in step with what the server has in
  sight.
\<close>

subsection \<open>Mail\<close>

definition mailTo :: "int \<Rightarrow> (int \<times> message) list \<Rightarrow> message list" where
  "mailTo j ms = map snd (filter (\<lambda>x. fst x = j) ms)"

lemma mailTo_simps [simp]: "mailTo j [] = []" "mailTo j (ms @ ns) = mailTo j ms @ mailTo j ns"
  by (simp_all add: mailTo_def)

lemma mailTo_batch: "mailTo j (batchPackets now k t cs) = (if j = k then map snd (batchPackets now k t cs) else [])"
  by (cases "j = k"; induction cs) (simp_all add: mailTo_def)

lemma mailTo_map: "mailTo j (map (\<lambda>i. (k, f i)) xs) = (if j = k then map f xs else [])"
  by (cases "j = k"; induction xs) (simp_all add: mailTo_def)

lemma filter_eq_distinct: "distinct xs \<Longrightarrow> filter (\<lambda>x. x = j \<and> Q x) xs = (if j \<in> set xs \<and> Q j then [j] else [])"
  by (induction xs) auto

lemma mailTo_members:
  assumes "distinct (members (svSectors s) near)"
  shows "mailTo j (toMembers near t b P s) = (if j \<in> set (members (svSectors s) near) \<and> \<not> P j then [packet (svNow s) j t b] else [])"
proof -
  have "mailTo j (toMembers near t b P s) = map (\<lambda>i. packet (svNow s) i t b) (filter (\<lambda>i. i = j \<and> \<not> P i) (members (svSectors s) near))"
    by (simp add: mailTo_def toMembers_def filter_map comp_def conj_commute)
  then show ?thesis by (simp add: filter_eq_distinct [OF assms, of j "\<lambda>i. \<not> P i"])
qed

subsection \<open>Sight\<close>

text \<open>What the server has in sight of player \<open>j\<close>, by the numbers that the clients know.\<close>

definition sight :: "server \<Rightarrow> int \<Rightarrow> int set \<times> int set \<times> int set" where
  "sight s j = (let near = aroundOf (plCurrentSector (theP s j)) in
     ((\<lambda>i. plCharacterID (theP s i)) ` (set (members (svSectors s) near) - {j}),
      set (members (svMonsterSectors s) near), set (members (svItemSectors s) near)))"

text \<open>The numbers are in the range of their type, and no two players of the field have the same.\<close>

definition numbered :: "server \<Rightarrow> bool" where
  "numbered s \<longleftrightarrow> inj_on (\<lambda>i. plCharacterID (theP s i)) (set (svPlayers s)) \<and>
     (\<forall>i \<in> set (svPlayers s). int64 (plCharacterID (theP s i))) \<and> (\<forall>(k, m) \<in> set (svMonsters s). int64 k)"

definition one_sector :: "(sector \<Rightarrow> int list) \<Rightarrow> bool" where
  "one_sector G \<longleftrightarrow> (\<forall>i c d. i \<in> set (G c) \<longrightarrow> i \<in> set (G d) \<longrightarrow> c = d)"

lemma one_sector_inv:
  assumes "field_inv s"
  shows "one_sector (svSectors s)" "one_sector (svMonsterSectors s)" "one_sector (svItemSectors s)"
  using assms unfolding field_inv_def inv_players_def inv_monsters_def inv_items_def one_sector_def by (metis option.inject)+

lemma members_shift:
  assumes "one_sector G" "set sp = set new - set old" "set de = set old - set new"
  shows "set (members G new) = (set (members G old) \<union> set (members G sp)) - set (members G de)"
  using assms(1) unfolding set_members assms(2,3) one_sector_def by blast

lemma crossed_mail:
  assumes d: "distinct (members (svSectors s) sp)" "distinct (members (svSectors s) de)"
    and k: "plSeqID p = k" and p: "theP s k = p" and own: "k \<notin> set (members (svSectors s) sp)"
  shows "mailTo k (crossed p sp de s) =
      map snd (batchPackets (svNow s) k OTHER_CHARACTER_SPAWN_BATCH (chunksOf 127
        (map spawnFields (map (theP s) (filter (\<lambda>i. i \<noteq> k) (members (svSectors s) sp)))))) @
      map snd (batchPackets (svNow s) k MONSTER_SPAWN_BATCH (chunksOf 221
        (map monsterFields (map (\<lambda>i. the (map_of (svMonsters s) i)) (members (svMonsterSectors s) sp))))) @
      map snd (batchPackets (svNow s) k ITEM_SPAWN_BATCH (chunksOf 352
        (map itemFields (map (\<lambda>i. the (map_of (svItems s) i)) (members (svItemSectors s) sp))))) @
      map (\<lambda>x. packet (svNow s) k CHARACTER_DESPAWN (enc 8 x)) (map (\<lambda>i. plCharacterID (theP s i))
        (filter (\<lambda>i. plCharacterID (theP s i) \<noteq> plCharacterID p) (members (svSectors s) de))) @
      map (\<lambda>x. packet (svNow s) k MONSTER_DESPAWN (enc 8 x))
        (map (\<lambda>i. mnMonsterID (the (map_of (svMonsters s) i))) (members (svMonsterSectors s) de)) @
      map (\<lambda>x. packet (svNow s) k ITEM_DESPAWN (enc 8 x))
        (map (\<lambda>i. itItemUniqueId (the (map_of (svItems s) i))) (members (svItemSectors s) de))"
    and "j \<noteq> k \<Longrightarrow> mailTo j (crossed p sp de s) =
      (if j \<in> set (members (svSectors s) sp) then [packet (svNow s) j OTHER_CHARACTER_SPAWN (spawnBody p)] else []) @
      (if j \<in> set (members (svSectors s) de) \<and> plCharacterID (theP s j) \<noteq> plCharacterID p
       then [packet (svNow s) j CHARACTER_DESPAWN (enc 8 (plCharacterID p))] else [])"
proof -
  note e = crossed_def crossing_def Let_def k mailTo_batch mailTo_map mailTo_members [OF d(1)] mailTo_members [OF d(2)]
  show "mailTo k (crossed p sp de s) =
      map snd (batchPackets (svNow s) k OTHER_CHARACTER_SPAWN_BATCH (chunksOf 127
        (map spawnFields (map (theP s) (filter (\<lambda>i. i \<noteq> k) (members (svSectors s) sp)))))) @
      map snd (batchPackets (svNow s) k MONSTER_SPAWN_BATCH (chunksOf 221
        (map monsterFields (map (\<lambda>i. the (map_of (svMonsters s) i)) (members (svMonsterSectors s) sp))))) @
      map snd (batchPackets (svNow s) k ITEM_SPAWN_BATCH (chunksOf 352
        (map itemFields (map (\<lambda>i. the (map_of (svItems s) i)) (members (svItemSectors s) sp))))) @
      map (\<lambda>x. packet (svNow s) k CHARACTER_DESPAWN (enc 8 x)) (map (\<lambda>i. plCharacterID (theP s i))
        (filter (\<lambda>i. plCharacterID (theP s i) \<noteq> plCharacterID p) (members (svSectors s) de))) @
      map (\<lambda>x. packet (svNow s) k MONSTER_DESPAWN (enc 8 x))
        (map (\<lambda>i. mnMonsterID (the (map_of (svMonsters s) i))) (members (svMonsterSectors s) de)) @
      map (\<lambda>x. packet (svNow s) k ITEM_DESPAWN (enc 8 x))
        (map (\<lambda>i. itItemUniqueId (the (map_of (svItems s) i))) (members (svItemSectors s) de))"
    using own p by (simp add: e comp_def del: enc.simps)
  show "mailTo j (crossed p sp de s) =
      (if j \<in> set (members (svSectors s) sp) then [packet (svNow s) j OTHER_CHARACTER_SPAWN (spawnBody p)] else []) @
      (if j \<in> set (members (svSectors s) de) \<and> plCharacterID (theP s j) \<noteq> plCharacterID p
       then [packet (svNow s) j CHARACTER_DESPAWN (enc 8 (plCharacterID p))] else [])" if "j \<noteq> k"
    using that by (simp add: e del: enc.simps)
qed

subsection \<open>The screen of the one that crosses\<close>

lemma turns_six:
  assumes "\<And>c. scene_ok c \<Longrightarrow> screen c = v0 \<Longrightarrow> turns c X1 v1" "\<And>c. scene_ok c \<Longrightarrow> screen c = v1 \<Longrightarrow> turns c X2 v2"
    "\<And>c. scene_ok c \<Longrightarrow> screen c = v2 \<Longrightarrow> turns c X3 v3" "\<And>c. scene_ok c \<Longrightarrow> screen c = v3 \<Longrightarrow> turns c X4 v4"
    "\<And>c. scene_ok c \<Longrightarrow> screen c = v4 \<Longrightarrow> turns c X5 v5" "\<And>c. scene_ok c \<Longrightarrow> screen c = v5 \<Longrightarrow> turns c X6 v6"
    and "scene_ok c" "screen c = v0"
  shows "turns c (X1 @ X2 @ X3 @ X4 @ X5 @ X6) v6"
  by (rule turns_append [OF assms(1) turns_append [OF assms(2) turns_append [OF assms(3) turns_append [OF assms(4)
        turns_append [OF assms(5) assms(6)]]]]]) (use assms(7,8) in simp_all)

lemma numbered_facts:
  assumes inv: "field_inv s" and num: "numbered s"
  shows "i \<in> set (members (svSectors s) near) \<Longrightarrow> player_fit (theP s i) \<and> int64 (plCharacterID (theP s i))"
    "i \<in> set (members (svMonsterSectors s) near) \<Longrightarrow>
      monster_fit (the (map_of (svMonsters s) i)) \<and> mnMonsterID (the (map_of (svMonsters s) i)) = i \<and> int64 i"
    "i \<in> set (members (svItemSectors s) near) \<Longrightarrow> itItemUniqueId (the (map_of (svItems s) i)) = i \<and> int64 i"
proof -
  have ip: "inv_players (svObjs s) (svPlayers s) (svSectors s)" "inv_monsters (svMonsters s) (svMonsterSectors s)"
    "inv_items (svItems s) (svItemSectors s) (svItemUniqueID s)" using inv by (simp_all add: field_inv_def)
  show "player_fit (theP s i) \<and> int64 (plCharacterID (theP s i))" if "i \<in> set (members (svSectors s) near)"
    using members_players [OF ip(1) that] field_inv_player(2) [OF inv] num player_fit by (auto simp: numbered_def)
  show "monster_fit (the (map_of (svMonsters s) i)) \<and> mnMonsterID (the (map_of (svMonsters s) i)) = i \<and> int64 i"
    if i: "i \<in> set (members (svMonsterSectors s) near)"
  proof -
    obtain c where "i \<in> set (svMonsterSectors s c)" using i unfolding set_members by blast
    then obtain m where m: "map_of (svMonsters s) i = Some m" using ip(2) unfolding inv_monsters_def by blast
    then have "int64 i" "monster_good i m" using num map_of_SomeD [OF m] field_inv_monster [OF inv m] by (auto simp: numbered_def)
    then show ?thesis using m monster_fit by (simp add: monster_good_def)
  qed
  show "itItemUniqueId (the (map_of (svItems s) i)) = i \<and> int64 i" if i: "i \<in> set (members (svItemSectors s) near)"
  proof -
    obtain c where "i \<in> set (svItemSectors s c)" using i unfolding set_members by blast
    then obtain it where m: "map_of (svItems s) i = Some it" using ip(3) unfolding inv_items_def by blast
    then have "item_good i it" "0 < i" "i < 2 ^ 62" using ip(3) map_of_SomeD [OF m] by (force simp: inv_items_def)+
    then show ?thesis using m by (simp add: item_good_def int64_def)
  qed
qed

lemma crossing_self:
  assumes inv: "field_inv s" and num: "numbered s" and k: "k \<in> set (svPlayers s)" and old: "old = aroundOf (plCurrentSector (theP s k))"
    and d: "distinct sp" "distinct de" "set sp = set new - set old" "set de = set old - set new"
    and c: "scene_ok c" "screen c = sight s k"
  defines "ch \<equiv> \<lambda>i. plCharacterID (theP s i)"
  shows "turns c (mailTo k (crossed (theP s k) sp de s))
    (ch ` (set (members (svSectors s) new) - {k}), set (members (svMonsterSectors s) new), set (members (svItemSectors s) new))"
proof -
  define P M I where "P near = members (svSectors s) near" and "M near = members (svMonsterSectors s) near"
    and "I near = members (svItemSectors s) near" for near
  have ip: "inv_players (svObjs s) (svPlayers s) (svSectors s)" "inv_monsters (svMonsters s) (svMonsterSectors s)"
    "inv_items (svItems s) (svItemSectors s) (svItemUniqueID s)" using inv by (simp_all add: field_inv_def)
  note g = field_inv_player [OF inv k]
  note one = one_sector_inv [OF inv]
  note nf = numbered_facts [OF inv num, folded P_def M_def I_def]
  have Pin: "set (P near) \<subseteq> set (svPlayers s)" for near using members_players [OF ip(1)] by (auto simp: P_def)
  have inj: "inj_on ch (set (svPlayers s))" using num by (simp add: numbered_def ch_def)
  have dP: "distinct (P sp)" "distinct (P de)" "distinct (M sp)" "distinct (I sp)"
    using players_members(1) [OF ip(1)] monsters_members(1) [OF ip(2)] items_members(1) [OF ip(3)] d by (simp_all add: P_def M_def I_def)
  have dis: "set (P old) \<inter> set (P sp) = {}" "set (M old) \<inter> set (M sp) = {}" "set (I old) \<inter> set (I sp) = {}"
    using one d(3) unfolding P_def M_def I_def set_members one_sector_def by blast+
  have "sector_ok (plCurrentSector (theP s k))" using g(2) by (simp add: player_good_def)
  then have "plCurrentSector (theP s k) \<in> set old" by (simp add: old aroundOf_self)
  moreover have "k \<in> set (svSectors s (plCurrentSector (theP s k)))" using ip(1) k g(1) by (auto simp: inv_players_def)
  ultimately have kold: "k \<in> set (P old)" by (auto simp: P_def set_members)
  then have ksp: "k \<notin> set (P sp)" using dis(1) by blast
  have seq: "plSeqID (theP s k) = k" using g(2) by (simp add: player_good_def)
  have v0: "screen c = (ch ` (set (P old) - {k}), set (M old), set (I old))"
    using c(2) by (simp add: sight_def Let_def ch_def P_def M_def I_def old)
  have chk: "ch i \<noteq> ch k \<longleftrightarrow> i \<noteq> k" if "i \<in> set (P near)" for i near using inj_onD [OF inj] Pin [of near] that k by blast
  define ps ms ts where "ps = map (theP s) (filter (\<lambda>i. i \<noteq> k) (P sp))" and "ms = map (\<lambda>i. the (map_of (svMonsters s) i)) (M sp)"
    and "ts = map (\<lambda>i. the (map_of (svItems s) i)) (I sp)"
  have "filter (\<lambda>i. i \<noteq> k) (P sp) = P sp" using ksp by (intro filter_True) auto
  then have pm: "map plCharacterID ps = map ch (P sp)" by (simp add: ps_def ch_def)
  have mm: "map mnMonsterID ms = M sp" using nf(2) by (simp add: ms_def map_idI)
  have tm: "map itItemUniqueId ts = I sp" using nf(3) by (simp add: ts_def map_idI)
  have new: "plCharacterID ` set ps = ch ` set (P sp)" "mnMonsterID ` set ms = set (M sp)" "itItemUniqueId ` set ts = set (I sp)"
    using arg_cong [OF pm, of set] arg_cong [OF mm, of set] arg_cong [OF tm, of set] by simp_all
  note mail = crossed_mail(1) [OF dP(1,2) [unfolded P_def] seq refl ksp [unfolded P_def], folded P_def M_def I_def,
      folded ps_def ms_def ts_def]
  have fin: "(ch ` (set (P new) - {k}), set (M new), set (I new)) =
      ((ch ` (set (P old) - {k}) \<union> ch ` set (P sp)) - ch ` {i \<in> set (P de). ch i \<noteq> ch k},
       (set (M old) \<union> set (M sp)) - set (M de), (set (I old) \<union> set (I sp)) - set (I de))"
  proof -
    note sh = members_shift [OF one(1) d(3,4), folded P_def] members_shift [OF one(2) d(3,4), folded M_def]
      members_shift [OF one(3) d(3,4), folded I_def]
    have "{i \<in> set (P de). ch i \<noteq> ch k} = set (P de) - {k}" using chk by auto
    moreover have "set (P new) - {k} = ((set (P old) - {k}) \<union> set (P sp)) - (set (P de) - {k})" using ksp by (auto simp: sh(1))
    moreover have "ch ` (((set (P old) - {k}) \<union> set (P sp)) - (set (P de) - {k})) =
        ch ` ((set (P old) - {k}) \<union> set (P sp)) - ch ` (set (P de) - {k})"
      by (rule inj_on_image_set_diff [OF inj]) (use Pin in blast)+
    ultimately show ?thesis by (simp add: sh(2,3) image_Un)
  qed
  define A where "A = ch ` (set (P old) - {k})"
  define gone where "gone = map ch (filter (\<lambda>i. ch i \<noteq> ch k) (P de))"
  have gone: "set gone = ch ` {i \<in> set (P de). ch i \<noteq> ch k}" "\<forall>x \<in> set gone. int64 x"
    using nf(1) by (auto simp: gone_def ch_def)
  have mde: "map (\<lambda>i. mnMonsterID (the (map_of (svMonsters s) i))) (M de) = M de" "\<forall>x \<in> set (M de). int64 x"
    using nf(2) by (simp_all add: map_idI)
  have tde: "map (\<lambda>i. itItemUniqueId (the (map_of (svItems s) i))) (I de) = I de" "\<forall>x \<in> set (I de). int64 x"
    using nf(3) by (simp_all add: map_idI)
  have fresh: "\<forall>p \<in> set ps. plCharacterID p \<notin> A" "\<forall>m \<in> set ms. mnMonsterID m \<notin> set (M old)" "\<forall>it \<in> set ts. itItemUniqueId it \<notin> set (I old)"
  proof -
    have "ch ` set (P sp) \<inter> ch ` (set (P old) - {k}) = {}"
      using inj_on_image_Int [OF inj Pin [of sp], of "set (P old) - {k}"] Pin [of old] dis(1) by auto
    then show "\<forall>p \<in> set ps. plCharacterID p \<notin> A" unfolding A_def using new(1) by blast
    show "\<forall>m \<in> set ms. mnMonsterID m \<notin> set (M old)" "\<forall>it \<in> set ts. itItemUniqueId it \<notin> set (I old)"
      using new(2,3) dis(2,3) by auto
  qed
  have fit: "\<forall>p \<in> set ps. player_fit p" "\<forall>m \<in> set ms. monster_fit m" "\<forall>it \<in> set ts. int64 (itItemUniqueId it)"
    using nf by (auto simp: ps_def ms_def ts_def)
  have dist: "distinct (map plCharacterID ps)" "distinct (map mnMonsterID ms)" "distinct (map itItemUniqueId ts)"
    using dP inj_on_subset [OF inj Pin, of sp] by (simp_all add: pm mm tm distinct_map)
  have "turns c (mailTo k (crossed (theP s k) sp de s)) ((A \<union> ch ` set (P sp)) - set gone,
      (set (M old) \<union> set (M sp)) - set (M de), (set (I old) \<union> set (I sp)) - set (I de))"
    unfolding mail mde(1) tde(1)
  proof (rule turns_six [where ?v0.0 = "(A, set (M old), set (I old))" and ?v1.0 = "(A \<union> ch ` set (P sp), set (M old), set (I old))"
        and ?v2.0 = "(A \<union> ch ` set (P sp), set (M old) \<union> set (M sp), set (I old))"
        and ?v3.0 = "(A \<union> ch ` set (P sp), set (M old) \<union> set (M sp), set (I old) \<union> set (I sp))"
        and ?v4.0 = "((A \<union> ch ` set (P sp)) - set gone, set (M old) \<union> set (M sp), set (I old) \<union> set (I sp))"
        and ?v5.0 = "((A \<union> ch ` set (P sp)) - set gone, (set (M old) \<union> set (M sp)) - set (M de), set (I old) \<union> set (I sp))"])
    fix c assume c: "scene_ok c"
    show "turns c (map snd (batchPackets (svNow s) k OTHER_CHARACTER_SPAWN_BATCH (chunksOf 127 (map spawnFields ps))))
        (A \<union> ch ` set (P sp), set (M old), set (I old))" if "screen c = (A, set (M old), set (I old))"
      using players_come [OF c fit(1) dist(1)] fresh(1) that new(1) by simp
    show "turns c (map snd (batchPackets (svNow s) k MONSTER_SPAWN_BATCH (chunksOf 221 (map monsterFields ms))))
        (A \<union> ch ` set (P sp), set (M old) \<union> set (M sp), set (I old))" if "screen c = (A \<union> ch ` set (P sp), set (M old), set (I old))"
      using monsters_come [OF c fit(2) dist(2)] fresh(2) that new(2) by simp
    show "turns c (map snd (batchPackets (svNow s) k ITEM_SPAWN_BATCH (chunksOf 352 (map itemFields ts))))
        (A \<union> ch ` set (P sp), set (M old) \<union> set (M sp), set (I old) \<union> set (I sp))"
      if "screen c = (A \<union> ch ` set (P sp), set (M old) \<union> set (M sp), set (I old))"
      using items_come [OF c fit(3) dist(3)] fresh(3) that new(3) by simp
    show "turns c (map (\<lambda>x. packet (svNow s) k CHARACTER_DESPAWN (enc 8 x)) (map (\<lambda>i. plCharacterID (theP s i))
          (filter (\<lambda>i. plCharacterID (theP s i) \<noteq> plCharacterID (theP s k)) (P de))))
        ((A \<union> ch ` set (P sp)) - set gone, set (M old) \<union> set (M sp), set (I old) \<union> set (I sp))"
      if "screen c = (A \<union> ch ` set (P sp), set (M old) \<union> set (M sp), set (I old) \<union> set (I sp))"
      using players_go [OF c gone(2), of "svNow s" k] that by (simp add: gone_def ch_def del: enc.simps set_map map_map)
    show "turns c (map (\<lambda>x. packet (svNow s) k MONSTER_DESPAWN (enc 8 x)) (M de))
        ((A \<union> ch ` set (P sp)) - set gone, (set (M old) \<union> set (M sp)) - set (M de), set (I old) \<union> set (I sp))"
      if "screen c = ((A \<union> ch ` set (P sp)) - set gone, set (M old) \<union> set (M sp), set (I old) \<union> set (I sp))"
      using monsters_go [OF c mde(2), of "svNow s" k] that by (simp del: enc.simps)
    show "turns c (map (\<lambda>x. packet (svNow s) k ITEM_DESPAWN (enc 8 x)) (I de))
        ((A \<union> ch ` set (P sp)) - set gone, (set (M old) \<union> set (M sp)) - set (M de), (set (I old) \<union> set (I sp)) - set (I de))"
      if "screen c = ((A \<union> ch ` set (P sp)) - set gone, (set (M old) \<union> set (M sp)) - set (M de), set (I old) \<union> set (I sp))"
      using items_go [OF c tde(2), of "svNow s" k] that by (simp del: enc.simps)
  qed (use c(1) v0 in \<open>simp_all add: A_def\<close>)
  then show ?thesis using fin unfolding gone(1) A_def by (simp add: P_def M_def I_def)
qed

subsection \<open>The screens of the others\<close>

lemma field_members_distinct:
  assumes "field_inv s" "distinct near"
  shows "distinct (members (svSectors s) near)"
  using players_members(1) assms by (auto simp: field_inv_def)

lemma in_members:
  assumes "field_inv s" "i \<in> set (svPlayers s)"
  shows "i \<in> set (members (svSectors s) near) \<longleftrightarrow> plCurrentSector (theP s i) \<in> set near"
proof -
  have "i \<in> set (svSectors s c) \<longleftrightarrow> plCurrentSector (theP s i) = c" for c
    using assms field_inv_player(1) [OF assms] by (auto simp: field_inv_def inv_players_def)
  then show ?thesis by (auto simp: set_members)
qed

lemma crossing_other:
  assumes inv: "field_inv s" and num: "numbered s" and k: "k \<in> set (svPlayers s)" and j: "j \<in> set (svPlayers s)" "j \<noteq> k"
    and c: "scene_ok c" "screen c = sight s j"
  defines "p \<equiv> theP s k" and "ch \<equiv> \<lambda>i. plCharacterID (theP s i)" and "near \<equiv> aroundOf (plCurrentSector (theP s j))"
  defines "sp \<equiv> filter (\<lambda>c. c \<notin> set (aroundOf (plCurrentSector p))) (aroundOf (plDestSector p))"
    and "de \<equiv> filter (\<lambda>c. c \<notin> set (aroundOf (plDestSector p))) (aroundOf (plCurrentSector p))"
  shows "turns c (mailTo j (crossed p sp de s))
    (ch ` ((set (members (svSectors s) near) - {j, k}) \<union> (if plDestSector p \<in> set near then {k} else {})),
     set (members (svMonsterSectors s) near), set (members (svItemSectors s) near))"
proof -
  note g = field_inv_player [OF inv k, folded p_def] field_inv_player [OF inv j(1)]
  have ok: "plSeqID p = k" "sector_ok (plCurrentSector p)" "sector_ok (plDestSector p)" "sector_ok (plCurrentSector (theP s j))"
    using g by (simp_all add: player_good_def)
  have sym: "plCurrentSector (theP s j) \<in> set (aroundOf d) \<longleftrightarrow> d \<in> set near" if "sector_ok d" for d
    using aroundOf_sym that ok(4) by (auto simp: near_def)
  have at: "j \<in> set (members (svSectors s) sp) \<longleftrightarrow> plDestSector p \<in> set near \<and> plCurrentSector p \<notin> set near"
    "j \<in> set (members (svSectors s) de) \<longleftrightarrow> plCurrentSector p \<in> set near \<and> plDestSector p \<notin> set near"
    unfolding in_members [OF inv j(1)] by (auto simp: sp_def de_def sym ok)
  have kin: "k \<in> set (members (svSectors s) near) \<longleftrightarrow> plCurrentSector p \<in> set near" using in_members [OF inv k] by (simp add: p_def)
  have own: "k \<notin> set (members (svSectors s) sp)"
    using in_members [OF inv k] aroundOf_self [OF ok(2)] by (simp add: sp_def p_def)
  have inj: "inj_on ch (set (svPlayers s))" using num by (simp add: numbered_def ch_def)
  have ne: "ch j \<noteq> ch k" using inj_onD [OF inj] j k by blast
  have mem: "set (members (svSectors s) near) \<subseteq> set (svPlayers s)"
    using members_players inv by (auto simp: field_inv_def)
  have fit: "player_fit p" "int64 (ch k)" "plCharacterID p = ch k"
    using g(2) player_fit num k by (auto simp: numbered_def ch_def p_def)
  have v: "fst (screen c) = ch ` (set (members (svSectors s) near) - {j})"
    "snd (screen c) = (set (members (svMonsterSectors s) near), set (members (svItemSectors s) near))"
    using c(2) by (simp_all add: sight_def Let_def near_def ch_def)
  have pk: "theP s k = p" by (simp add: p_def)
  have dd: "distinct (members (svSectors s) sp)" "distinct (members (svSectors s) de)"
    by (rule field_members_distinct [OF inv], simp add: sp_def de_def distinct_aroundOf)+
  have mail: "mailTo j (crossed p sp de s) =
      (if plDestSector p \<in> set near \<and> plCurrentSector p \<notin> set near
       then [packet (svNow s) j OTHER_CHARACTER_SPAWN (spawnBody p)] else []) @
      (if plCurrentSector p \<in> set near \<and> plDestSector p \<notin> set near
       then [packet (svNow s) j CHARACTER_DESPAWN (enc 8 (ch k))] else [])"
    unfolding crossed_mail(2) [OF dd ok(1) pk own j(2)] at fit(3) using ne by (simp add: ch_def del: enc.simps)
  have out: "ch k \<notin> ch ` (set (members (svSectors s) near) - {j, k})"
    using inj_onD [OF inj] mem k by blast
  consider "plDestSector p \<in> set near" "plCurrentSector p \<notin> set near" | "plCurrentSector p \<in> set near" "plDestSector p \<notin> set near"
    | "plDestSector p \<in> set near \<longleftrightarrow> plCurrentSector p \<in> set near" by blast
  then show ?thesis
  proof cases
    case 1
    then have e: "set (members (svSectors s) near) - {j} = set (members (svSectors s) near) - {j, k}" using kin by auto
    have "plCharacterID p \<notin> fst (screen c)" using out unfolding v(1) e fit(3) .
    from player_comes [OF c(1) fit(1) this, of "svNow s" j] 1 show ?thesis unfolding mail v e fit(3) by simp
  next
    case 2
    then have e: "set (members (svSectors s) near) - {j} = insert k (set (members (svSectors s) near) - {j, k})" using kin j(2) by auto
    from one_goes(1) [OF c(1) fit(2), of "svNow s" j] 2 out show ?thesis unfolding mail v e by (simp del: enc.simps)
  next
    case 3
    have e: "(set (members (svSectors s) near) - {j, k}) \<union> (if plDestSector p \<in> set near then {k} else {}) = set (members (svSectors s) near) - {j}"
      using kin 3 j(2) by auto
    have "screen c = (ch ` (set (members (svSectors s) near) - {j}), set (members (svMonsterSectors s) near), set (members (svItemSectors s) near))"
      using v by (metis prod.collapse)
    then show ?thesis using turns_Nil [OF c(1)] 3 unfolding mail e by auto
  qed
qed

subsection \<open>Every screen\<close>

text \<open>The field after player \<open>k\<close> has crossed.\<close>

lemma crossed_field:
  assumes inv: "field_inv s" and k: "k \<in> set (svPlayers s)" and q: "quiet s u" and p: "p = theP s k"
    and s': "s' = putP (p\<lparr>plCurrentSector := plDestSector p\<rparr>)
      (u\<lparr>svSectors := insSector (plDestSector p) k (delSector (plCurrentSector p) k (svSectors s))\<rparr>)"
  shows "theP s' k = p\<lparr>plCurrentSector := plDestSector p\<rparr>" "i \<noteq> k \<Longrightarrow> theP s' i = theP s i"
    "plCharacterID (theP s' i) = plCharacterID (theP s i)" "svPlayers s' = svPlayers s" "svMonsters s' = svMonsters s"
    "svMonsterSectors s' = svMonsterSectors s" "svItemSectors s' = svItemSectors s"
    "set (members (svSectors s') near) = (set (members (svSectors s) near) - {k}) \<union> (if plDestSector p \<in> set near then {k} else {})"
proof -
  have seq: "plSeqID p = k" using field_inv_player(2) [OF inv k] by (simp add: p player_good_def)
  have at: "theP s' i = (if i = k then p\<lparr>plCurrentSector := plDestSector p\<rparr> else theP s i)" for i
    using seq by (simp add: s' theP_def putP_def quiet_frame(6) [OF q])
  show "theP s' k = p\<lparr>plCurrentSector := plDestSector p\<rparr>" "i \<noteq> k \<Longrightarrow> theP s' i = theP s i"
    "plCharacterID (theP s' i) = plCharacterID (theP s i)" by (simp_all add: at p)
  show "svPlayers s' = svPlayers s" "svMonsters s' = svMonsters s" "svMonsterSectors s' = svMonsterSectors s"
    "svItemSectors s' = svItemSectors s" by (simp_all add: s' putP_def quiet_frame [OF q])
  have kc: "k \<in> set (svSectors s c) \<longleftrightarrow> c = plCurrentSector p" for c
    using inv k field_inv_player(1) [OF inv k] by (auto simp: p field_inv_def inv_players_def)
  have "x \<in> set (svSectors s' c) \<longleftrightarrow> (if x = k then c = plDestSector p else x \<in> set (svSectors s c))" for x c
    using kc [of c] by (auto simp: s' putP_def set_insSector set_delSector)
  then have mem: "x \<in> set (members (svSectors s') near) \<longleftrightarrow> (if x = k then plDestSector p \<in> set near else x \<in> set (members (svSectors s) near))"
    for x by (cases "x = k") (auto simp: set_members)
  show "set (members (svSectors s') near) = (set (members (svSectors s) near) - {k}) \<union> (if plDestSector p \<in> set near then {k} else {})"
    by (rule set_eqI) (simp add: mem)
qed

text \<open>
  C12. A screen that shows exactly what the server has in sight of its player still does after any player has
  crossed into another sector, once the client has heard the packets it is sent on it: of the player that crosses
  and of every other player in the field, near or far. Numbers are taken to be unique, as the server means them.
\<close>

theorem crossing_keeps_screens:
  assumes inv: "field_inv s" and num: "numbered s" and k: "k \<in> set (svPlayers s)" and room: "room 0 s"
    and across: "plCurrentSector (theP s k) \<noteq> plDestSector (theP s k)"
    and j: "j \<in> set (svPlayers s)" and c: "scene_ok c" "screen c = sight s j"
  shows "\<exists>s' ms c'. crossPlayer k s = Inr s' \<and> svOut s' = svOut s @ ms \<and> hearsAll (mailTo j ms) c = Inr c' \<and>
    field_inv s' \<and> numbered s' \<and> scene_ok c' \<and> screen c' = sight s' j"
proof -
  define p where "p = theP s k"
  define sp where "sp = filter (\<lambda>c. c \<notin> set (aroundOf (plCurrentSector p))) (aroundOf (plDestSector p))"
  define de where "de = filter (\<lambda>c. c \<notin> set (aroundOf (plDestSector p))) (aroundOf (plCurrentSector p))"
  define ch where "ch i = plCharacterID (theP s i)" for i
  obtain u where u: "crossPlayer k s = Inr (putP (p\<lparr>plCurrentSector := plDestSector p\<rparr>)
      (u\<lparr>svSectors := insSector (plDestSector p) k (delSector (plCurrentSector p) k (svSectors s))\<rparr>))"
      "quiet s u" "svOut u = svOut s @ crossed p sp de s"
    using crossPlayer_sent [OF inv k _ across, folded p_def, folded sp_def de_def] room by (auto simp: room_def)
  define s' where "s' = putP (p\<lparr>plCurrentSector := plDestSector p\<rparr>)
      (u\<lparr>svSectors := insSector (plDestSector p) k (delSector (plCurrentSector p) k (svSectors s))\<rparr>)"
  note f = crossed_field [OF inv k u(2) p_def s'_def]
  have "field_inv s'" using crossPlayer_okn [OF inv k room] u(1) by (auto simp: okf_def s'_def)
  moreover have "numbered s'" using num f(3-5) by (simp add: numbered_def)
  moreover have "turns c (mailTo j (crossed p sp de s)) (sight s' j)"
  proof (cases "j = k")
    case True
    have "sector_ok (plDestSector p)" using field_inv_player(2) [OF inv k] by (simp add: p_def player_good_def)
    then have "sight s' k = (ch ` (set (members (svSectors s) (aroundOf (plDestSector p))) - {k}),
        set (members (svMonsterSectors s) (aroundOf (plDestSector p))), set (members (svItemSectors s) (aroundOf (plDestSector p))))"
      by (simp add: sight_def Let_def f ch_def aroundOf_self)
    then show ?thesis
      using crossing_self [OF inv num k refl, where sp = sp and de = de and new = "aroundOf (plDestSector p)" and c = c] c True
      by (auto simp: sp_def de_def distinct_aroundOf ch_def p_def)
  next
    case False
    have "sight s' j = (ch ` ((set (members (svSectors s) (aroundOf (plCurrentSector (theP s j)))) - {j, k}) \<union>
        (if plDestSector p \<in> set (aroundOf (plCurrentSector (theP s j))) then {k} else {})),
      set (members (svMonsterSectors s) (aroundOf (plCurrentSector (theP s j)))),
      set (members (svItemSectors s) (aroundOf (plCurrentSector (theP s j)))))"
      using False by (auto simp: sight_def Let_def f ch_def)
    then show ?thesis using crossing_other [OF inv num k j False c] by (simp add: p_def sp_def de_def ch_def)
  qed
  ultimately show ?thesis using u(1,3) unfolding turns_def s'_def by (auto simp: putP_def)
qed

text \<open>The screen of player 101 with a monster and an item in sight as well.\<close>

lemma sample_screen_full: "\<exists>c. scene_ok c \<and> screen c = ({102}, {5}, {1})"
proof -
  have v: "screen sampleScreen = ({102}, {}, {})" by (simp add: screen_def)
  have "turns sampleScreen (map snd (batchPackets 0 1 MONSTER_SPAWN_BATCH (chunksOf 221 (map monsterFields [fieldMonster]))))
      ({102}, {5}, {})"
    using monsters_come [OF sampleScreen_ok, of "[fieldMonster]"] monster_fit [OF fieldMonster_good] by (simp add: v int64_def)
  then obtain c where c: "scene_ok c" "screen c = ({102}, {5}, {})" by (auto simp: turns_def)
  have "turns c (map snd (batchPackets 0 1 ITEM_SPAWN_BATCH (chunksOf 352 (map itemFields [sampleItem])))) ({102}, {5}, {1})"
    using items_come [OF c(1), of "[sampleItem]"] by (simp add: c(2) int64_def)
  then show ?thesis by (auto simp: turns_def)
qed

lemma crossing_keeps_screens_witness:
  "\<exists>c s' c'. scene_ok c \<and> screen c = ({102}, {5}, {1}) \<and> crossPlayer 1 sampleCrossing = Inr s' \<and>
     hearsAll (mailTo 1 (svOut s')) c = Inr c' \<and> screen c' = ({}, {}, {})"
proof -
  obtain c where c: "scene_ok c" "screen c = ({102}, {5}, {1})" using sample_screen_full by blast
  have w: "theP sampleCrossing 1 = (samplePlayer 1)\<lparr>plDestSector := Sector 9 9\<rparr>" "svPlayers sampleCrossing = [1, 2]"
    "svItems sampleCrossing = [(1, sampleItem)]" "svSectors sampleCrossing = oneSector [1, 2]"
    "theP sampleCrossing 2 = samplePlayer 2" "svMonsters sampleCrossing = [(5, fieldMonster)]"
    "svMonsterSectors sampleCrossing = oneSector [5]" "svItemSectors sampleCrossing = oneSector [1]" "svOut sampleCrossing = []"
    by (simp_all add: sampleCrossing_def theP_putP) (simp_all add: putP_def theP_def)
  have a: "aroundOf (Sector 0 0) = [Sector 0 0, Sector 0 1, Sector 1 0, Sector 1 1]"
    "Sector 0 0 \<notin> set (aroundOf (Sector 9 9))" by code_simp+
  have num: "numbered sampleCrossing" by (auto simp: numbered_def w int64_def)
  have room: "room 0 sampleCrossing" using sampleField_room [of 0] by (simp add: room_def sampleCrossing_def putP_def)
  have now: "sight sampleCrossing 1 = ({102}, {5}, {1})" by (simp add: sight_def Let_def w a members_def insert_Diff_if)
  obtain s' ms c' where s': "crossPlayer 1 sampleCrossing = Inr s'" "svOut s' = ms" "hearsAll (mailTo 1 ms) c = Inr c'" "screen c' = sight s' 1"
    using crossing_keeps_screens [OF sampleCrossing_inv num, of 1 1 c] room c now w(1,2,9) by auto
  obtain u where u: "quiet sampleCrossing u" "s' = putP ((theP sampleCrossing 1)\<lparr>plCurrentSector := plDestSector (theP sampleCrossing 1)\<rparr>)
      (u\<lparr>svSectors := insSector (plDestSector (theP sampleCrossing 1)) 1 (delSector (plCurrentSector (theP sampleCrossing 1)) 1 (svSectors sampleCrossing))\<rparr>)"
    using crossPlayer_sent [OF sampleCrossing_inv, of 1] s'(1) w(1-3) by auto
  have far: "members (oneSector ks) (aroundOf (Sector 9 9)) = []" for ks using a(2) by (auto simp: members_def oneSector_def)
  have nine: "Sector 9 9 \<in> set (aroundOf (Sector 9 9))" by code_simp
  have "screen c' = ({}, {}, {})"
    unfolding s'(4) using crossed_field [OF sampleCrossing_inv _ u(1) refl u(2)] far nine by (simp add: sight_def Let_def w)
  then show ?thesis using c s' by blast
qed

end
