(* ===== verification/ClientImages.thy ===== *)
theory ClientImages
  imports Animation Float32 "HOL-Library.Multiset"
begin

text \<open>
  The pictures of the game client (\<open>ClientProject/Render/ImageManager.cpp\<close>, \<open>Image.cpp\<close>): every strip of pictures
  and the bar of the hit points (\<open>UI/HPBar.cpp\<close>) hold the file they are cut out of, and a file is read once and kept
  for as long as somebody holds it. What \<open>stbi_load\<close> finds in a file is a parameter: the width and the height. The
  texture that Direct3D makes of it is not part of the model.
\<close>

subsection \<open>The manager\<close>

record image =
  imWidth :: int
  imHeight :: int

text \<open>The objects \<open>new Image\<close> has made and nobody has deleted, by address, and the two tables over the names.\<close>

record imageManager =
  mCache :: "(string \<times> nat) list"
  mRefcnt :: "(string \<times> int) list"
  imImages :: "(nat \<times> image) list"
  imNext :: nat

definition newImageManager :: imageManager where
  "newImageManager = \<lparr> mCache = [], mRefcnt = [], imImages = [], imNext = 0 \<rparr>"

definition ReadFromFile :: "(string \<Rightarrow> (int \<times> int) option) \<Rightarrow> string \<Rightarrow> image res" where
  "ReadFromFile stbi filename =
     (case stbi filename of
        None \<Rightarrow> Inl DebugBreak
      | Some (w, h) \<Rightarrow> if w = 0 then Inl DebugBreak else Inr \<lparr> imWidth = w, imHeight = h \<rparr>)"

definition Load :: "(string \<Rightarrow> (int \<times> int) option) \<Rightarrow> string \<Rightarrow> imageManager \<Rightarrow> (nat \<times> imageManager) res" where
  "Load stbi filename im =
     bindR
       (case map_of (mCache im) filename of
          None \<Rightarrow>
            bindR (ReadFromFile stbi filename) (\<lambda>img.
            let a = imNext im;
                im = im\<lparr>imImages := (a, img) # imImages im, imNext := a + 1, mCache := (filename, a) # mCache im\<rparr>
            in assertR (map_of (mRefcnt im) filename = None) (Inr (a, im\<lparr>mRefcnt := (filename, 0) # mRefcnt im\<rparr>)))
        | Some a \<Rightarrow> Inr (a, im))
       (\<lambda>(a, im). the_or_break (map_of (mRefcnt im) filename) (\<lambda>n.
          Inr (a, im\<lparr>mRefcnt := alUpd filename (wrap32 (n + 1)) (mRefcnt im)\<rparr>)))"

definition ReleaseImage :: "string \<Rightarrow> imageManager \<Rightarrow> imageManager res" where
  "ReleaseImage filename im =
     the_or_break (map_of (mRefcnt im) filename) (\<lambda>n.
       let refcnt = wrap32 (n - 1);
           im = im\<lparr>mRefcnt := alUpd filename refcnt (mRefcnt im)\<rparr>
       in if refcnt = 0
          then let im = im\<lparr>mRefcnt := alDel filename (mRefcnt im)\<rparr>
               in the_or_break (map_of (mCache im) filename) (\<lambda>a.
                    Inr (im\<lparr>mCache := alDel filename (mCache im), imImages := alDel a (imImages im)\<rparr>))
          else Inr im)"

definition destroyImageManager :: "imageManager \<Rightarrow> imageManager res" where
  "destroyImageManager im =
     foldR (\<lambda>element im. if map_of (imImages im) (snd element) = None then Inl UndefinedBehaviour
                        else Inr (im\<lparr>imImages := alDel (snd element) (imImages im)\<rparr>)) (mCache im) im"

text \<open>To read an object that has been deleted has no meaning.\<close>

definition imageAt :: "nat \<Rightarrow> imageManager \<Rightarrow> image res" where
  "imageAt a im = (case map_of (imImages im) a of None \<Rightarrow> Inl UndefinedBehaviour | Some img \<Rightarrow> Inr img)"

subsection \<open>Who holds pictures\<close>

text \<open>
  A strip of pictures with the part that theory \<open>Animation\<close> leaves out: the file and the picture it is cut out of.
\<close>

record strip =
  stAnimation :: animation
  stFilename :: "string option"
  stAtlasImage :: nat

definition newStrip :: "eAnimationType \<Rightarrow> int \<Rightarrow> strip" where
  "newStrip type speed = \<lparr> stAnimation = newAnimation type speed, stFilename = None, stAtlasImage = 0 \<rparr>"

definition setStripAtlas ::
  "(string \<Rightarrow> (int \<times> int) option) \<Rightarrow> string \<Rightarrow> int \<Rightarrow> int \<Rightarrow> int \<Rightarrow> int \<Rightarrow> int \<Rightarrow> strip \<times> imageManager \<Rightarrow> (strip \<times> imageManager) res" where
  "setStripAtlas stbi filename frameCount cols frameW frameH startRow sm =
     (case sm of (s, im) \<Rightarrow>
      bindR (Load stbi filename im) (\<lambda>(a, im).
      Inr (s\<lparr>stFilename := Some filename, stAtlasImage := a,
             stAnimation := SetAtlas frameCount cols frameW frameH startRow (stAnimation s)\<rparr>, im)))"

definition destroyStrip :: "strip \<Rightarrow> imageManager \<Rightarrow> imageManager res" where
  "destroyStrip s im = (case stFilename s of Some f \<Rightarrow> ReleaseImage f im | None \<Rightarrow> Inr im)"

text \<open>Where in its picture the current frame of a strip begins, in parts of the picture.\<close>

definition GetCurrentUVOffset :: "strip \<Rightarrow> imageManager \<Rightarrow> (f32 \<times> f32) res" where
  "GetCurrentUVOffset s im =
     (let a = stAnimation s; at = wrap32 (anCurrentFrame a + anStartRow a) in
      if anCols a = 0 then Inl UndefinedBehaviour
      else let row = f_of_int (at sdiv anCols a); col = f_of_int (at smod anCols a) in
        bindR (imageAt (stAtlasImage s) im) (\<lambda>img.
        assertR (imWidth img \<noteq> 0)
          (assertR (imHeight img \<noteq> 0)
            (Inr (f_div (f_mul col (f_of_int (anFrameW a))) (f_of_int (imWidth img)),
                  f_div (f_mul row (f_of_int (anFrameH a))) (f_of_int (imHeight img)))))))"

definition GetCurrentUVScale :: "strip \<Rightarrow> imageManager \<Rightarrow> (f32 \<times> f32) res" where
  "GetCurrentUVScale s im =
     bindR (imageAt (stAtlasImage s) im) (\<lambda>img.
     assertR (imWidth img \<noteq> 0)
       (assertR (imHeight img \<noteq> 0)
         (Inr (f_div (f_of_int (anFrameW (stAnimation s))) (f_of_int (imWidth img)),
               f_div (f_of_int (anFrameH (stAnimation s))) (f_of_int (imHeight img))))))"

text \<open>
  The bar of the hit points reads the size of a picture from a hold of its own, which it gives back after its strip
  has taken one.
\<close>

definition hpBarFiles :: "string list" where
  "hpBarFiles = [''Asset/ui/HP/Borders/Border_Black.png'', ''Asset/ui/HP/Style_3.png'']"

text \<open>The picture of \<open>hpBarFiles ! n\<close>: its size, and the strip of one frame that shows all of it.\<close>

definition wholePicture :: "(string \<Rightarrow> (int \<times> int) option) \<Rightarrow> string \<Rightarrow> imageManager \<Rightarrow> (image \<times> strip \<times> imageManager) res" where
  "wholePicture stbi filename im =
     bindR (Load stbi filename im) (\<lambda>(border, im).
     bindR (imageAt border im) (\<lambda>img.
     bindR (setStripAtlas stbi filename 1 1 (imWidth img) (imHeight img) 0 (newStrip EndStop 5, im)) (\<lambda>(s, im).
     bindR (imageAt border im) (\<lambda>img.
     bindR (ReleaseImage filename im) (\<lambda>im.
     Inr (img, s, im))))))"

record hpBar =
  hbSprite :: strip
  hbHpBar :: strip
  hbX :: f32
  hbY :: f32

definition newHPBar :: "(string \<Rightarrow> (int \<times> int) option) \<Rightarrow> imageManager \<Rightarrow> (hpBar \<times> imageManager) res" where
  "newHPBar stbi im =
     bindR (wholePicture stbi (hpBarFiles ! 0) im) (\<lambda>(img, sprite, im).
     let x = f_add (f_neg (f_lit 640 1)) (f_div (f_of_int (imWidth img)) (f_lit 2 1));
         y = f_add (f_neg (f_lit 360 1)) (f_div (f_of_int (imHeight img)) (f_lit 2 1))
     in bindR (wholePicture stbi (hpBarFiles ! 1) im) (\<lambda>(_, bar, im).
        Inr (\<lparr> hbSprite = sprite, hbHpBar = bar, hbX = x, hbY = y \<rparr>, im)))"

definition destroyHPBar :: "hpBar \<Rightarrow> imageManager \<Rightarrow> imageManager res" where
  "destroyHPBar b im = bindR (destroyStrip (hbSprite b) im) (destroyStrip (hbHpBar b))"

subsection \<open>The laws of the manager\<close>

text \<open>\<open>H\<close> is the bag of the names that are held.\<close>

definition tablesAgree :: "(string \<Rightarrow> (int \<times> int) option) \<Rightarrow> string multiset \<Rightarrow> imageManager \<Rightarrow> bool" where
  "tablesAgree stbi H im \<longleftrightarrow>
     (\<forall>f. map_of (mRefcnt im) f = (if f \<in># H then Some (int (count H f)) else None)) \<and>
     (\<forall>f. map_of (mCache im) f \<noteq> None \<longleftrightarrow> f \<in># H) \<and>
     (\<forall>f g a. map_of (mCache im) f = Some a \<longrightarrow> map_of (mCache im) g = Some a \<longrightarrow> f = g) \<and>
     (\<forall>a. map_of (imImages im) a \<noteq> None \<longleftrightarrow> (\<exists>f. map_of (mCache im) f = Some a)) \<and>
     (\<forall>f a. map_of (mCache im) f = Some a \<longrightarrow> a < imNext im \<and>
        (\<exists>img. map_of (imImages im) a = Some img \<and> stbi f = Some (imWidth img, imHeight img)))"

definition filesHeld :: "(string \<Rightarrow> (int \<times> int) option) \<Rightarrow> string multiset \<Rightarrow> imageManager \<Rightarrow> bool" where
  "filesHeld stbi H im \<longleftrightarrow> tablesAgree stbi H im \<and> distinct (map fst (mCache im))"

lemma filesHeld_new: "filesHeld stbi {#} newImageManager"
  by (simp add: filesHeld_def tablesAgree_def newImageManager_def)

definition kept :: "imageManager \<Rightarrow> imageManager \<Rightarrow> string multiset \<Rightarrow> bool" where
  "kept im im' H \<longleftrightarrow> (\<forall>f a. f \<in># H \<longrightarrow> map_of (mCache im) f = Some a \<longrightarrow> map_of (mCache im') f = Some a)"

lemma Load_tables:
  assumes h: "tablesAgree stbi H im" and f: "stbi f = Some (w, ht)" "w \<noteq> 0" and few: "size H + 1 < 2 ^ 31"
  shows "\<exists>a im'. Load stbi f im = Inr (a, im') \<and> tablesAgree stbi (add_mset f H) im' \<and> kept im im' H \<and> map_of (mCache im') f = Some a"
proof (cases "f \<in># H")
  case True
  then obtain a where a: "map_of (mCache im) f = Some a" using h unfolding tablesAgree_def by blast
  have n: "map_of (mRefcnt im) f = Some (int (count H f))" using h True by (simp add: tablesAgree_def)
  have "count H f \<le> size H" by (rule count_le_size)
  then have "wrap32 (int (count H f) + 1) = int (count H f) + 1" using few by (intro wrap32_id) auto
  then have "Load stbi f im = Inr (a, im\<lparr>mRefcnt := alUpd f (int (count H f) + 1) (mRefcnt im)\<rparr>)"
    by (simp add: Load_def a n)
  moreover have "tablesAgree stbi (add_mset f H) (im\<lparr>mRefcnt := alUpd f (int (count H f) + 1) (mRefcnt im)\<rparr>)"
    using h True unfolding tablesAgree_def by auto
  ultimately show ?thesis using a by (auto simp: kept_def)
next
  case False
  have n: "map_of (mRefcnt im) f = None" "map_of (mCache im) f = None" using h False by (auto simp: tablesAgree_def)
  define img where "img = \<lparr> imWidth = w, imHeight = ht \<rparr>"
  define im' where "im' = im\<lparr>imImages := (imNext im, img) # imImages im, imNext := imNext im + 1,
      mCache := (f, imNext im) # mCache im, mRefcnt := alUpd f 1 ((f, 0) # mRefcnt im)\<rparr>"
  have "Load stbi f im = Inr (imNext im, im')"
    using f n by (simp add: Load_def ReadFromFile_def Let_def im'_def img_def wrap32_id)
  moreover have "tablesAgree stbi (add_mset f H) im'"
  proof -
    have z: "count H f = 0" using False by (simp add: not_in_iff)
    have fresh: "map_of (mCache im) g \<noteq> Some (imNext im)" for g using h unfolding tablesAgree_def by (metis less_irrefl)
    show ?thesis using h n f fresh z unfolding tablesAgree_def im'_def img_def by (auto simp: less_SucI) (metis option.distinct(1))
  qed
  moreover have "kept im im' H" using False by (auto simp: kept_def im'_def)
  ultimately show ?thesis by (auto simp: im'_def)
qed

lemma Release_tables:
  assumes h: "tablesAgree stbi H im" and f: "f \<in># H" and few: "size H < 2 ^ 31"
  shows "\<exists>im'. ReleaseImage f im = Inr im' \<and> tablesAgree stbi (H - {#f#}) im' \<and> kept im im' (H - {#f#})"
proof -
  obtain a where a: "map_of (mCache im) f = Some a" using h f unfolding tablesAgree_def by blast
  have n: "map_of (mRefcnt im) f = Some (int (count H f))" using h f by (simp add: tablesAgree_def)
  have pos: "0 < count H f" "count H f \<le> size H" using f by (simp_all add: count_le_size)
  then have w: "wrap32 (int (count H f) - 1) = int (count H f) - 1" using few by (intro wrap32_id) auto
  show ?thesis
  proof (cases "count H f = 1")
    case True
    then have out: "f \<notin># H - {#f#}" by (simp add: not_in_iff)
    define im' where "im' = im\<lparr>mRefcnt := alDel f (alUpd f 0 (mRefcnt im)), mCache := alDel f (mCache im), imImages := alDel a (imImages im)\<rparr>"
    have "ReleaseImage f im = Inr im'" using n a w True by (simp add: ReleaseImage_def Let_def im'_def)
    moreover have "g \<in># H - {#f#} \<longleftrightarrow> g \<noteq> f \<and> g \<in># H" for g using out by (auto simp: in_diff_count)
    then have "tablesAgree stbi (H - {#f#}) im'" using h a unfolding tablesAgree_def im'_def by auto (metis option.inject)
    moreover have "kept im im' (H - {#f#})" using out by (auto simp: kept_def im'_def)
    ultimately show ?thesis by blast
  next
    case False
    define im' where "im' = im\<lparr>mRefcnt := alUpd f (int (count H f) - 1) (mRefcnt im)\<rparr>"
    have "ReleaseImage f im = Inr im'" using n a w False pos by (auto simp: ReleaseImage_def Let_def im'_def)
    moreover have "1 < count H f" using False pos by linarith
    then have "g \<in># H - {#f#} \<longleftrightarrow> g \<in># H" for g by (cases "g = f") (use f in \<open>simp_all add: in_diff_count\<close>)
    then have "tablesAgree stbi (H - {#f#}) im'" using h f pos unfolding tablesAgree_def im'_def by (auto simp: of_nat_diff)
    moreover have "kept im im' (H - {#f#})" by (auto simp: kept_def im'_def)
    ultimately show ?thesis by blast
  qed
qed

text \<open>Neither table ever has a name twice.\<close>

lemma cache_distinct:
  assumes "distinct (map fst (mCache im))"
  shows "Load stbi f im = Inr (a, im') \<Longrightarrow> distinct (map fst (mCache im'))"
    "ReleaseImage f im = Inr im' \<Longrightarrow> distinct (map fst (mCache im'))"
  using assms by (auto simp: Load_def ReleaseImage_def Let_def Inr_iffs map_of_eq_None_iff split: option.splits if_splits)

lemma Load_held:
  assumes "filesHeld stbi H im" "stbi f = Some (w, ht)" "w \<noteq> 0" "size H + 1 < 2 ^ 31"
  shows "\<exists>a im'. Load stbi f im = Inr (a, im') \<and> filesHeld stbi (add_mset f H) im' \<and> kept im im' H \<and> map_of (mCache im') f = Some a"
  using Load_tables [of stbi H im f w ht] cache_distinct(1) [of im stbi f] assms by (auto simp: filesHeld_def)

lemma Release_held:
  assumes "filesHeld stbi H im" "f \<in># H" "size H < 2 ^ 31"
  shows "\<exists>im'. ReleaseImage f im = Inr im' \<and> filesHeld stbi (H - {#f#}) im' \<and> kept im im' (H - {#f#})"
  using Release_tables [of stbi H im f] cache_distinct(2) [of im f] assms by (auto simp: filesHeld_def)

lemma imageAt_held:
  "filesHeld stbi H im \<Longrightarrow> map_of (mCache im) f = Some a \<Longrightarrow>
     \<exists>img. imageAt a im = Inr img \<and> stbi f = Some (imWidth img, imHeight img)"
  by (fastforce simp: filesHeld_def tablesAgree_def imageAt_def)

lemma destroyImageManager_held:
  assumes h: "filesHeld stbi H im"
  shows "\<exists>im'. destroyImageManager im = Inr im' \<and> (\<forall>a. map_of (imImages im') a = None)"
proof -
  have loop: "\<exists>m'. foldR (\<lambda>element im. if map_of (imImages im) (snd element) = None then Inl UndefinedBehaviour
      else Inr (im\<lparr>imImages := alDel (snd element) (imImages im)\<rparr>)) xs m = Inr m' \<and>
      (\<forall>a. map_of (imImages m') a = (if a \<in> snd ` set xs then None else map_of (imImages m) a))"
    if "distinct (map snd xs)" "\<forall>x \<in> set xs. map_of (imImages m) (snd x) \<noteq> None" for xs and m :: imageManager
    using that
  proof (induction xs arbitrary: m)
    case (Cons x xs)
    have "\<forall>y \<in> set xs. map_of (imImages (m\<lparr>imImages := alDel (snd x) (imImages m)\<rparr>)) (snd y) \<noteq> None"
      using Cons.prems by (auto simp: image_iff)
    then show ?case using Cons.IH [of "m\<lparr>imImages := alDel (snd x) (imImages m)\<rparr>"] Cons.prems by auto
  qed simp
  have t: "tablesAgree stbi H im" and d: "distinct (map fst (mCache im))" using h by (simp_all add: filesHeld_def)
  have i: "map_of (mCache im) f = Some a \<longleftrightarrow> (f, a) \<in> set (mCache im)" for f a using d by simp
  have "x = y" if "x \<in> set (mCache im)" "y \<in> set (mCache im)" "snd x = snd y" for x y
  proof -
    have "map_of (mCache im) (fst x) = Some (snd x)" "map_of (mCache im) (fst y) = Some (snd x)" using that by (simp_all add: i) (metis prod.collapse)
    then have "fst x = fst y" using t unfolding tablesAgree_def by blast
    then show ?thesis using that(3) by (simp add: prod_eq_iff)
  qed
  then have "inj_on snd (set (mCache im))" by (intro inj_onI)
  then have "distinct (map snd (mCache im))" using d by (simp add: distinct_map)
  moreover have img: "map_of (imImages im) a \<noteq> None \<longleftrightarrow> a \<in> snd ` set (mCache im)" for a
  proof -
    have "map_of (imImages im) a \<noteq> None \<longleftrightarrow> (\<exists>f. map_of (mCache im) f = Some a)" using t by (simp add: tablesAgree_def)
    then show ?thesis unfolding i by force
  qed
  ultimately obtain m' where m': "destroyImageManager im = Inr m'"
      "\<forall>a. map_of (imImages m') a = (if a \<in> snd ` set (mCache im) then None else map_of (imImages im) a)"
    using loop [of "mCache im" im] unfolding destroyImageManager_def by auto
  then have "map_of (imImages m') a = None" for a using img [of a] by (cases "a \<in> snd ` set (mCache im)") simp_all
  then show ?thesis using m'(1) by blast
qed

lemma kept_trans: "kept im im1 H \<Longrightarrow> kept im1 im2 G \<Longrightarrow> K \<subseteq># H \<Longrightarrow> K \<subseteq># G \<Longrightarrow> kept im im2 K"
  unfolding kept_def by (meson mset_subset_eqD)

subsection \<open>The laws of the strips\<close>

text \<open>\<open>hangs s im\<close>: the strip holds a file, and its picture is the one in the cache.\<close>

definition hangs :: "strip \<Rightarrow> imageManager \<Rightarrow> bool" where
  "hangs s im \<longleftrightarrow> (\<exists>f. stFilename s = Some f \<and> map_of (mCache im) f = Some (stAtlasImage s))"

lemma hangs_kept: "hangs s im \<Longrightarrow> kept im im' H \<Longrightarrow> the (stFilename s) \<in># H \<Longrightarrow> hangs s im'"
  by (auto simp: hangs_def kept_def)

lemma setStripAtlas_held:
  assumes "filesHeld stbi H im" "stbi f = Some (w, ht)" "w \<noteq> 0" "size H + 1 < 2 ^ 31"
  shows "\<exists>s' im'. setStripAtlas stbi f n c fw fh r (s, im) = Inr (s', im') \<and> filesHeld stbi (add_mset f H) im' \<and> kept im im' H \<and>
    hangs s' im' \<and> stFilename s' = Some f \<and> stAnimation s' = SetAtlas n c fw fh r (stAnimation s)"
  using Load_held [OF assms] by (fastforce simp: setStripAtlas_def hangs_def)

lemma wholePicture_held:
  assumes h: "filesHeld stbi H im" and f: "stbi f = Some (w, ht)" "w \<noteq> 0" and few: "size H + 2 < 2 ^ 31"
  shows "\<exists>s im'. wholePicture stbi f im = Inr (\<lparr> imWidth = w, imHeight = ht \<rparr>, s, im') \<and> filesHeld stbi (add_mset f H) im' \<and>
    kept im im' H \<and> hangs s im' \<and> stFilename s = Some f"
proof -
  obtain a im1 where 1: "Load stbi f im = Inr (a, im1)" "filesHeld stbi (add_mset f H) im1" "kept im im1 H" "map_of (mCache im1) f = Some a"
    using Load_held [OF h f] few by auto
  obtain i where i: "imageAt a im1 = Inr i" "i = \<lparr> imWidth = w, imHeight = ht \<rparr>" using imageAt_held [OF 1(2,4)] f by auto
  obtain s im2 where 2: "setStripAtlas stbi f 1 1 w ht 0 (newStrip EndStop 5, im1) = Inr (s, im2)"
      "filesHeld stbi (add_mset f (add_mset f H)) im2" "kept im1 im2 (add_mset f H)" "hangs s im2" "stFilename s = Some f"
    using setStripAtlas_held [OF 1(2) f, of 1 1 w ht 0 "newStrip EndStop 5"] few by auto
  have "map_of (mCache im2) f = Some a" using 2(3) 1(4) by (simp add: kept_def)
  then have j: "imageAt a im2 = Inr i" using imageAt_held [OF 2(2)] f i(2) by fastforce
  obtain im3 where 3: "ReleaseImage f im2 = Inr im3" "filesHeld stbi (add_mset f H) im3" "kept im2 im3 (add_mset f H)"
    using Release_held [OF 2(2), of f] few by auto
  have "kept im im2 H" by (rule kept_trans [OF 1(3) 2(3)]) simp_all
  then have "kept im im3 H" by (rule kept_trans [OF _ 3(3)]) simp_all
  moreover have "hangs s im3" using hangs_kept [OF 2(4) 3(3)] 2(5) by simp
  moreover have "wholePicture stbi f im = Inr (i, s, im3)"
    using 1(1) i(1) 2(1) j 3(1) by (simp add: wholePicture_def i(2))
  ultimately show ?thesis using 3(2) 2(5) i(2) by blast
qed

lemma newHPBar_held:
  assumes h: "filesHeld stbi H im" and f: "\<forall>f \<in> set hpBarFiles. \<exists>w ht. stbi f = Some (w, ht) \<and> w \<noteq> 0" and few: "size H + 3 < 2 ^ 31"
  shows "\<exists>b im'. newHPBar stbi im = Inr (b, im') \<and> filesHeld stbi (H + mset hpBarFiles) im' \<and> kept im im' H \<and>
    hangs (hbSprite b) im' \<and> hangs (hbHpBar b) im' \<and> map stFilename [hbSprite b, hbHpBar b] = map Some hpBarFiles"
proof -
  obtain w0 h0 w1 h1 where f0: "stbi (hpBarFiles ! 0) = Some (w0, h0)" "w0 \<noteq> 0" and f1: "stbi (hpBarFiles ! 1) = Some (w1, h1)" "w1 \<noteq> 0"
    using f by (auto simp: hpBarFiles_def)
  obtain s im1 where 1: "wholePicture stbi (hpBarFiles ! 0) im = Inr (\<lparr> imWidth = w0, imHeight = h0 \<rparr>, s, im1)"
      "filesHeld stbi (add_mset (hpBarFiles ! 0) H) im1" "kept im im1 H" "hangs s im1" "stFilename s = Some (hpBarFiles ! 0)"
    using wholePicture_held [OF h f0] few by auto
  obtain t im2 where 2: "wholePicture stbi (hpBarFiles ! 1) im1 = Inr (\<lparr> imWidth = w1, imHeight = h1 \<rparr>, t, im2)"
      "filesHeld stbi (add_mset (hpBarFiles ! 1) (add_mset (hpBarFiles ! 0) H)) im2" "kept im1 im2 (add_mset (hpBarFiles ! 0) H)"
      "hangs t im2" "stFilename t = Some (hpBarFiles ! 1)"
    using wholePicture_held [OF 1(2) f1] few by auto
  have "kept im im2 H" by (rule kept_trans [OF 1(3) 2(3)]) simp_all
  moreover have "hangs s im2" using hangs_kept [OF 1(4) 2(3)] 1(5) by simp
  moreover have "H + mset hpBarFiles = add_mset (hpBarFiles ! 1) (add_mset (hpBarFiles ! 0) H)" by (simp add: hpBarFiles_def)
  moreover have "map Some hpBarFiles = [Some (hpBarFiles ! 0), Some (hpBarFiles ! 1)]" by (simp add: hpBarFiles_def)
  ultimately show ?thesis using 1(1,5) 2 by (simp add: newHPBar_def add_mset_commute)
qed

text \<open>A strip that hangs can be drawn.\<close>

lemma strip_drawn:
  assumes "filesHeld stbi H im" "hangs s im" "stbi (the (stFilename s)) = Some (w, h)" "w \<noteq> 0" "h \<noteq> 0" "anCols (stAnimation s) \<noteq> 0"
  shows "\<exists>uv. GetCurrentUVOffset s im = Inr uv"
    "GetCurrentUVScale s im = Inr (f_div (f_of_int (anFrameW (stAnimation s))) (f_of_int w), f_div (f_of_int (anFrameH (stAnimation s))) (f_of_int h))"
proof -
  obtain img where "imageAt (stAtlasImage s) im = Inr img" "imWidth img = w" "imHeight img = h"
    using assms(2,3) imageAt_held [OF assms(1)] by (fastforce simp: hangs_def)
  then show "\<exists>uv. GetCurrentUVOffset s im = Inr uv"
    "GetCurrentUVScale s im = Inr (f_div (f_of_int (anFrameW (stAnimation s))) (f_of_int w), f_div (f_of_int (anFrameH (stAnimation s))) (f_of_int h))"
    using assms(4-6) by (simp_all add: GetCurrentUVOffset_def GetCurrentUVScale_def Let_def)
qed

lemma destroyHPBar_held:
  assumes "filesHeld stbi H im" "stFilename (hbSprite b) = Some f" "stFilename (hbHpBar b) = Some g" "{#f, g#} \<subseteq># H" "size H < 2 ^ 31"
  shows "\<exists>im'. destroyHPBar b im = Inr im' \<and> filesHeld stbi (H - {#f, g#}) im'"
proof -
  have f: "f \<in># H" using assms(4) by (meson mset_subset_eqD union_single_eq_member)
  obtain im1 where 1: "ReleaseImage f im = Inr im1" "filesHeld stbi (H - {#f#}) im1" using Release_held [OF assms(1) f assms(5)] by blast
  have g: "g \<in># H - {#f#}" using assms(4) by (simp add: insert_subset_eq_iff)
  have "size (H - {#f#}) < 2 ^ 31" using assms(5) by (meson diff_subset_eq_self le_less_trans size_mset_mono)
  then obtain im2 where "ReleaseImage g im1 = Inr im2" "filesHeld stbi (H - {#f#} - {#g#}) im2" using Release_held [OF 1(2) g] by blast
  then show ?thesis using 1(1) assms(2,3) by (simp add: destroyHPBar_def destroyStrip_def add_mset_commute)
qed

subsection \<open>Any history\<close>

datatype pictureOp =
    NewStrip eAnimationType int string int int int int int
  | NewBar
  | DeleteStrip nat

fun pictureStep :: "(string \<Rightarrow> (int \<times> int) option) \<Rightarrow> pictureOp \<Rightarrow> strip list \<times> imageManager \<Rightarrow> (strip list \<times> imageManager) res" where
  "pictureStep stbi (NewStrip type speed f n c w h r) (ss, im) =
     bindR (setStripAtlas stbi f n c w h r (newStrip type speed, im)) (\<lambda>(s, im). Inr (ss @ [s], im))"
| "pictureStep stbi NewBar (ss, im) = bindR (newHPBar stbi im) (\<lambda>(b, im). Inr (ss @ [hbSprite b, hbHpBar b], im))"
| "pictureStep stbi (DeleteStrip i) (ss, im) =
     (if i < length ss then bindR (destroyStrip (ss ! i) im) (\<lambda>im. Inr (take i ss @ drop (Suc i) ss, im)) else Inr (ss, im))"

text \<open>What it comes to: a list of names, one for each strip.\<close>

fun heldStep :: "pictureOp \<Rightarrow> string list \<Rightarrow> string list" where
  "heldStep (NewStrip _ _ f _ _ _ _ _) fs = fs @ [f]"
| "heldStep NewBar fs = fs @ hpBarFiles"
| "heldStep (DeleteStrip i) fs = take i fs @ drop (Suc i) fs"

definition opFiles :: "pictureOp \<Rightarrow> string set" where
  "opFiles op = (case op of NewStrip _ _ f _ _ _ _ _ \<Rightarrow> {f} | NewBar \<Rightarrow> set hpBarFiles | DeleteStrip _ \<Rightarrow> {})"

definition hung :: "(string \<Rightarrow> (int \<times> int) option) \<Rightarrow> string list \<Rightarrow> strip list \<times> imageManager \<Rightarrow> bool" where
  "hung stbi fs sm \<longleftrightarrow> filesHeld stbi (mset fs) (snd sm) \<and> map stFilename (fst sm) = map Some fs \<and> (\<forall>s \<in> set (fst sm). hangs s (snd sm))"

lemma hangs_all_kept:
  assumes "map stFilename ss = map Some fs" "\<forall>s \<in> set ss. hangs s im" "kept im im' (mset fs)"
  shows "\<forall>s \<in> set ss. hangs s im'"
proof
  fix s assume s: "s \<in> set ss"
  then have "stFilename s \<in> Some ` set fs" using arg_cong [OF assms(1), of set] by (metis image_eqI set_map)
  then have "the (stFilename s) \<in># mset fs" by auto
  then show "hangs s im'" using hangs_kept assms(2,3) s by blast
qed

lemma pictureStep_hung:
  assumes u: "hung stbi fs (ss, im)" and f: "\<forall>f \<in> opFiles op. \<exists>w h. stbi f = Some (w, h) \<and> w \<noteq> 0" and few: "length fs + 3 < 2 ^ 31"
  shows "\<exists>sm'. pictureStep stbi op (ss, im) = Inr sm' \<and> hung stbi (heldStep op fs) sm'"
proof -
  have h: "filesHeld stbi (mset fs) im" "map stFilename ss = map Some fs" "\<forall>s \<in> set ss. hangs s im"
    using u by (simp_all add: hung_def)
  show ?thesis
  proof (cases op)
    case (NewStrip type speed f n c w h r)
    then obtain fw fh where fs: "stbi f = Some (fw, fh)" "fw \<noteq> 0" using f by (auto simp: opFiles_def)
    obtain s' im' where s': "setStripAtlas stbi f n c w h r (newStrip type speed, im) = Inr (s', im')"
        "filesHeld stbi (add_mset f (mset fs)) im'" "kept im im' (mset fs)" "hangs s' im'" "stFilename s' = Some f"
      using setStripAtlas_held [OF \<open>filesHeld stbi (mset fs) im\<close> fs, of n c w h r "newStrip type speed"] few by auto
    then show ?thesis using hangs_all_kept [OF \<open>map stFilename ss = map Some fs\<close> _ s'(3)] u NewStrip by (auto simp: hung_def)
  next
    case NewBar
    then have fb: "\<forall>f \<in> set hpBarFiles. \<exists>w h. stbi f = Some (w, h) \<and> w \<noteq> 0" using f by (simp add: opFiles_def)
    have "size (mset fs) + 3 < 2 ^ 31" using few by simp
    then obtain b im' where b: "newHPBar stbi im = Inr (b, im')" "filesHeld stbi (mset fs + mset hpBarFiles) im'" "kept im im' (mset fs)"
        "hangs (hbSprite b) im'" "hangs (hbHpBar b) im'" "map stFilename [hbSprite b, hbHpBar b] = map Some hpBarFiles"
      using newHPBar_held [OF h(1) fb] by blast
    then show ?thesis using hangs_all_kept [OF h(2,3) b(3)] h(2) NewBar by (simp add: hung_def)
  next
    case (DeleteStrip i)
    have l: "length ss = length fs" using arg_cong [OF h(2), of length] by simp
    show ?thesis
    proof (cases "i < length fs")
      case True
      then have n: "stFilename (ss ! i) = Some (fs ! i)" using arg_cong [OF h(2), of "\<lambda>xs. xs ! i"] l by simp
      obtain im' where im': "ReleaseImage (fs ! i) im = Inr im'" "filesHeld stbi (mset fs - {#fs ! i#}) im'" "kept im im' (mset fs - {#fs ! i#})"
        using Release_held [OF h(1), of "fs ! i"] True few by auto
      have "mset fs = mset (take i fs @ fs ! i # drop (Suc i) fs)" using True by (simp flip: id_take_nth_drop)
      then have m: "mset fs - {#fs ! i#} = mset (take i fs @ drop (Suc i) fs)" by simp
      have e: "map stFilename (take i ss @ drop (Suc i) ss) = map Some (take i fs @ drop (Suc i) fs)"
        using h(2) by (simp flip: take_map drop_map)
      have "set (take i ss @ drop (Suc i) ss) \<subseteq> set ss" using set_take_subset [of i ss] set_drop_subset [of "Suc i" ss] by auto
      then have "\<forall>s \<in> set (take i ss @ drop (Suc i) ss). hangs s im'"
        by (intro hangs_all_kept [OF e _ im'(3) [unfolded m]]) (use h(3) in blast)
      then show ?thesis using True l DeleteStrip n im'(1,2) e unfolding m by (simp add: hung_def destroyStrip_def)
    next
      case False
      then show ?thesis using u l DeleteStrip by simp
    qed
  qed
qed

text \<open>
  C36. The cache of pictures is a bag of names: whatever strips and bars the game client makes and deletes, in any
  order, no assertion of the manager fails; the count of a file is the number of strips that hold it; a file that is
  held is in memory once, whole and shared by its strips, and a file that nobody holds is in neither table and its
  picture is deleted.
\<close>

theorem pictures_shared:
  assumes files: "\<forall>op \<in> set ops. \<forall>f \<in> opFiles op. \<exists>w h. stbi f = Some (w, h) \<and> w \<noteq> 0" and few: "2 * length ops + 3 < 2 ^ 31"
  defines "fs \<equiv> fold heldStep ops []"
  shows "\<exists>ss im. foldR (pictureStep stbi) ops ([], newImageManager) = Inr (ss, im) \<and> map stFilename ss = map Some fs \<and>
    (\<forall>f. map_of (mRefcnt im) f = (if f \<in> set fs then Some (int (count_list fs f)) else None)) \<and>
    (\<forall>f. map_of (mCache im) f \<noteq> None \<longleftrightarrow> f \<in> set fs) \<and>
    (\<forall>a. map_of (imImages im) a \<noteq> None \<longleftrightarrow> a \<in> stAtlasImage ` set ss) \<and>
    (\<forall>s \<in> set ss. \<exists>img. imageAt (stAtlasImage s) im = Inr img \<and> stbi (the (stFilename s)) = Some (imWidth img, imHeight img)) \<and>
    (\<forall>s \<in> set ss. \<forall>t \<in> set ss. stAtlasImage s = stAtlasImage t \<longleftrightarrow> stFilename s = stFilename t)"
proof -
  have run: "\<exists>sm. foldR (pictureStep stbi) ops (ss, im) = Inr sm \<and> hung stbi (fold heldStep ops fs) sm"
    if "hung stbi fs (ss, im)" "\<forall>op \<in> set ops. \<forall>f \<in> opFiles op. \<exists>w h. stbi f = Some (w, h) \<and> w \<noteq> 0"
      "length fs + 2 * length ops + 3 < 2 ^ 31" for ss im fs
    using that
  proof (induction ops arbitrary: ss im fs)
    case (Cons op ops)
    obtain ss' im' where 1: "pictureStep stbi op (ss, im) = Inr (ss', im')" "hung stbi (heldStep op fs) (ss', im')"
      using pictureStep_hung [OF Cons.prems(1), of op] Cons.prems(2,3) by auto
    have "length (heldStep op fs) \<le> length fs + 2" by (cases op) (simp_all add: hpBarFiles_def)
    then show ?case using 1 Cons.IH [OF 1(2)] Cons.prems(2,3) by auto
  qed simp
  have "hung stbi [] ([], newImageManager)" by (simp add: hung_def filesHeld_new)
  then obtain ss im where r: "foldR (pictureStep stbi) ops ([], newImageManager) = Inr (ss, im)" "hung stbi fs (ss, im)"
    using run [of "[]" "[]" newImageManager] files few by (auto simp: fs_def)
  have h: "filesHeld stbi (mset fs) im" "map stFilename ss = map Some fs" "\<forall>s \<in> set ss. hangs s im"
    using r(2) by (simp_all add: hung_def)
  have t: "tablesAgree stbi (mset fs) im" using h(1) by (simp add: filesHeld_def)
  have names: "stFilename ` set ss = Some ` set fs" using arg_cong [OF h(2), of set] by simp
  have "map_of (mRefcnt im) f = (if f \<in> set fs then Some (int (count_list fs f)) else None)" for f
    using t by (simp add: tablesAgree_def count_mset)
  moreover have cache: "map_of (mCache im) f \<noteq> None \<longleftrightarrow> f \<in> set fs" for f using t by (simp add: tablesAgree_def)
  moreover have "map_of (imImages im) a \<noteq> None \<longleftrightarrow> a \<in> stAtlasImage ` set ss" for a
  proof -
    have "(\<exists>f. map_of (mCache im) f = Some a) \<longleftrightarrow> a \<in> stAtlasImage ` set ss"
    proof
      assume "\<exists>f. map_of (mCache im) f = Some a"
      then obtain f where f: "map_of (mCache im) f = Some a" by blast
      then have "Some f \<in> stFilename ` set ss" using cache [of f] names by auto
      then obtain s where "s \<in> set ss" "stFilename s = Some f" by auto
      then show "a \<in> stAtlasImage ` set ss" using h(3) f by (force simp: hangs_def)
    qed (use h(3) in \<open>auto simp: hangs_def\<close>)
    then show ?thesis using t by (simp add: tablesAgree_def)
  qed
  moreover have "\<forall>s \<in> set ss. \<exists>img. imageAt (stAtlasImage s) im = Inr img \<and> stbi (the (stFilename s)) = Some (imWidth img, imHeight img)"
    using h(3) imageAt_held [OF h(1)] by (fastforce simp: hangs_def)
  moreover have "\<forall>s \<in> set ss. \<forall>t \<in> set ss. stAtlasImage s = stAtlasImage t \<longleftrightarrow> stFilename s = stFilename t"
    using t h(3) unfolding hangs_def tablesAgree_def by (metis option.inject)
  ultimately show ?thesis using r(1) h(2) by blast
qed

lemma pictures_shared_witness:
  "\<exists>ss im. foldR (pictureStep (\<lambda>f. if f = ''a.png'' then Some (64, 32) else None))
      [NewStrip Loop 5 ''a.png'' 4 2 16 16 0, NewStrip EndStop 2 ''a.png'' 4 2 16 16 0, DeleteStrip 0] ([], newImageManager) = Inr (ss, im) \<and>
     map stFilename ss = [Some ''a.png''] \<and> map_of (mRefcnt im) ''a.png'' = Some 1"
  using pictures_shared [of "[NewStrip Loop 5 ''a.png'' 4 2 16 16 0, NewStrip EndStop 2 ''a.png'' 4 2 16 16 0, DeleteStrip 0]"
      "\<lambda>f. if f = ''a.png'' then Some (64, 32) else None"]
  by (auto simp: opFiles_def)

end
