(* ===== verification/Spec2Isabelle.thy ===== *)
theory Spec2Isabelle
  imports SightProps CombatProps PacketProps FieldProps DbProps AuthProps NetProps BotProps ClientProps ClientCross ClientImages
begin

text \<open>
  A verification library for the field server of the MMO project, its game client and the load generator that tests it.

  \<^bold>\<open>The program.\<close> The IOCP network library (\<open>src/_lib/AcceptEx_IOCP_NetworkLib\<close>) accepts connections, cuts the
  streams into messages and sends. Its callbacks (\<open>onAccept\<close>, \<open>onRecv\<close>, \<open>onRelease\<close> of
  \<open>src/FieldServer/FieldServer.cpp\<close>) create a player per connection and queue its messages. The authentication
  thread logs players in through the SQL wrapper (\<open>src/_lib/CDB\<close>) and hands them to the field thread, which runs
  the world in frames: it takes in new players and answers of the database thread, lets players leave, moves
  players and monsters over a grid of 20 by 20 sectors, handles packets, lets monsters and players strike, drops
  and expires items, and tells each client what happens in the nine sectors around it. The database thread saves
  positions and kill counts and reads rankings from Redis. The game client (\<open>src/ClientProject\<close>)
  receives in a thread of its own, hands whole packets to the scene on screen, keeps a figure for everything it is told
  of, moves these figures by itself between two packets, and sends what the keys make its player do. The bots
  (\<open>src/ClientBotProject\<close>) log in, walk, fight and loot as clients would.

  \<^bold>\<open>How it is modelled.\<close> Every operation is a function on explicit states that answers \<open>fault + result\<close>
  (\<open>Prelude\<close>): a failed assertion is \<open>DebugBreak\<close>, the exceptions nothing catches are faults, and what C++ leaves
  undefined is \<open>UndefinedBehaviour\<close>. Integers are HOL integers, wrapped where the code's width can be reached;
  single precision floats are the 32 bits themselves with the arithmetic of IEEE 754 written out (\<open>Float32\<close>), so
  that positions agree bit for bit; memory that is copied is a list of bytes (\<open>Bytes\<close>). Loops over containers are
  \<open>foldR\<close>; loops that need not end are \<open>partial_function (option)\<close> and are proved to return. Threads are explicit:
  each component's step is a function of the shared state, and the properties that span threads order the steps.

  \<^bold>\<open>Data.\<close>
  \<open>Message\<close>: \<open>utility::Message\<close> and \<open>Header\<close>. \<open>MyRingBuffer\<close>: the byte ring, byte by byte, with its pointers, and the
  contract of a queue of bytes it fulfils (locale \<open>byte_queue\<close>), on which the queues of pointers rest. \<open>GameConfig\<close>:
  \<open>Protocol.h\<close>, \<open>AttackConfig.h\<close>, \<open>MapConfig.h\<close>. \<open>Monster\<close>, \<open>Player\<close>, \<open>FieldItem\<close>: the classes of
  \<open>FieldServer/Contents\<close> with their state machines. \<open>FieldState\<close>: the state \<open>server\<close> of all the server's threads (tables
  of players, monsters, items, the grid, queues, counters), sector arithmetic and the cache of neighbourhoods.

  \<^bold>\<open>The server.\<close>
  \<open>Broadcast\<close>: every sender, down to the bytes. \<open>Combat\<close>: hits, drops, kill counts. \<open>Handlers\<close>: the packets of the
  field. \<open>FieldLoop\<close>: spawning, a frame, the messages of the players, the announcements of the monsters. \<open>Leave\<close>:
  disconnecting, changing fields, the answers of the database, the loop of the field thread (\<open>fieldStep\<close>). \<open>Auth\<close>: the
  callbacks of the network and the authentication thread. \<open>Cdb\<close>, \<open>Db\<close>: the SQL wrapper (contract: locale \<open>db_handle\<close>) and the database thread.
  \<open>Session\<close>: the network library, its slots, its workers (\<open>worker\<close>) and the calls of other threads.

  \<^bold>\<open>The bots.\<close>
  \<open>Bot\<close>: a bot's connection, packets and mind (\<open>Session.cpp\<close>); \<open>BotThread\<close>: its handlers, the round of \<open>select\<close>, the
  threads (\<open>ClientBot.cpp\<close>).

  \<^bold>\<open>The game client.\<close>
  \<open>Animation\<close>: the strips of pictures of a figure and their clock (\<open>Animation.cpp\<close>). \<open>ClientNet\<close>: the
  class \<open>Network\<close>, its copy of the byte ring, \<open>Unmarshal\<close>, the queue of packets and the senders. \<open>ClientActor\<close>: the figures, of the
  player itself, of others, of monsters and items, with their constructors, moves and blows. \<open>ClientScene\<close>: the scenes of
  the login and of the field with a handler per packet, the manager of the scenes, and a frame of the field
  (\<open>fieldSceneUpdate\<close>). \<open>ClientImages\<close>: the cache of pictures (\<open>ImageManager.cpp\<close>) and what holds them, with its
  laws. A table of figures (\<open>std::unordered_map\<close>) is a list in the order of insertion; only the choice between equally
  near targets and the order of updates depend on it.

  \<^bold>\<open>Lemmas.\<close>
  \<open>FieldInv\<close> states the invariant \<open>field_inv\<close> of the field (the tables of players, monsters and items agree with the
  grid, each stands in exactly one sector and in the map, packets are well-framed); \<open>Progress\<close> has the calculus by which
  operations are shown to succeed, keep it and make progress (\<open>okn\<close>, \<open>okf\<close>); \<open>CombatInv\<close>, \<open>HandlersInv\<close>,
  \<open>FieldLoopInv\<close>, \<open>SpawnInv\<close>, \<open>LeaveInv\<close>, \<open>Iteration\<close> carry it through the operations up to a whole iteration.
  \<open>QueueEnds\<close> shows that the loops over the packets of the players end for any packets in any state.
  \<open>NetStream\<close> shows that the receive loop implements \<open>deframe\<close>; \<open>NetLife\<close>, \<open>NetSafe\<close>, \<open>NetReach\<close> prove the
  invariant of a slot's life (counts of outstanding operations, one release) for every reachable state of the library
  under any application that keeps to the interface (locale \<open>network_app\<close>, interpreted on the server's own
  callbacks in \<open>NetProps\<close>); \<open>NetClose\<close> follows a session from the client's close to the reuse of its slot. \<open>BotInv\<close>, \<open>BotStream\<close>: what a bot posts and hears. \<open>ClientInv\<close>: the figures stay
  well-formed under every operation; \<open>ClientRead\<close>: a batch of records is read back record by record (locale
  \<open>record_reader\<close>, interpreted on the readers of players, monsters and items); \<open>ClientStream\<close>, \<open>ClientHear\<close>,
  \<open>ClientWalk\<close>, \<open>ClientPlayer\<close>: the stream, each packet, walking, and what the keys do; \<open>ClientSight\<close>: what packets
  about comers and goers do to a screen.

  \<^bold>\<open>Properties.\<close>
  \<open>FieldProps\<close>, \<open>PacketProps\<close>, \<open>CombatProps\<close>, \<open>SightProps\<close>: frames, packets, combat and what clients are told.
  \<open>LeaveProps\<close>: the way of a disconnected player through all threads. \<open>AuthProps\<close>: logins. \<open>DbProps\<close>: rankings.
  \<open>NetProps\<close>: connections. \<open>BotProps\<close>: bots and server together: each understands the other, both reckon alike.
  \<open>ClientProps\<close>: the game client by itself and with the server. \<open>ClientCross\<close>: the screens of all clients agree with the
  server's grid before and after a player changes sectors.

  \<^bold>\<open>Bounds.\<close> A queue of pointers holds 3749 entries (\<open>PTR_CAP\<close>, the ring's 29999 bytes in eights); a full queue stops
  the code in an assertion, so theorems ask for the room that the step may use (\<open>room\<close>). Counters of 64 bits are
  taken not to overflow only where a hypothesis says so. No fuel is used.

  \<^bold>\<open>Parameters.\<close> \<open>rand\<close>, the clock, sockets and their answers, the MySQL client library (record \<open>mysql\<close>), the Redis
  client (\<open>redis\<close>), \<open>atof\<close> and \<open>stod\<close>; of the game client the keys, the answers of \<open>connect\<close>, \<open>send\<close> and
  \<open>recv\<close>, and \<open>sinf\<close>, which bobs the items up and down, and the size that \<open>stbi_load\<close> finds in
  a file. What is relied on of them is a named hypothesis (\<open>rng_ok\<close>, \<open>rng_fair\<close>,
  \<open>answering\<close>, \<open>redis_ranks\<close>, \<open>reads_literals\<close>), each shown to hold of an example.

  \<^bold>\<open>Not modelled.\<close> The console monitors and profilers and the hexadecimal log (output only), the crash dump, the
  creation and joining of threads, the third-party Redis client under \<open>src/FieldServer/cpp_redis\<close>, and of the
  game client the window, Direct3D, the drawing of figures, names and bars, the textures made of pictures and the prompts of
  its login on the console; and \<open>RingBuffer.cpp\<close>, the older rings that nothing uses. Two threads inside one operation are not
  interleaved: the code guards the shared tables with locks and the rings have one producer and one consumer. A second field is not modelled: the code has one.
\<close>

end
